(* ===== verification/TB_Prelude.thy ===== *)
theory TB_Prelude
  imports Main "HOL-Library.Monad_Syntax" "HOL-Library.Multiset"
    "HOL-Library.Code_Target_Nat"
begin

text \<open>
  Shared vocabulary of the TouchBar development.

  Rust's \<^verbatim>\<open>Result<T, E>\<close> is the sum type \<open>'e + 'a\<close> (\<open>Inl\<close> the error), with
  \<open>rbind\<close> for the question-mark operator and \<open>rmap_list\<close> for
  \<^verbatim>\<open>collect::<Result<Vec<_>, _>>()\<close>.  A panic (an \<^verbatim>\<open>expect\<close>, an underflowing
  subtraction, a failed \<^verbatim>\<open>debug_assert\<close>) is the value \<open>None\<close> of an option type, and
  \<open>csub\<close> is a subtraction that panics when it would underflow.  Unsigned machine integers
  are natural numbers; the places where the code relies on the width (\<^verbatim>\<open>checked_add\<close>,
  \<^verbatim>\<open>saturating_add\<close>, \<^verbatim>\<open>wrapping_add\<close>) use the operations below, which write the
  bound out.  \<^verbatim>\<open>saturating_sub\<close> on unsigned integers is exactly subtraction on \<^typ>\<open>nat\<close>.
\<close>

named_theorems panic_free \<open>lemmas that exclude a panic\<close>
named_theorems invar_intro \<open>lemmas that say an operation keeps its component's invariant\<close>

type_synonym ('e, 'a) result = "'e + 'a"

definition u32_max :: nat where
  "u32_max = 4294967295"

definition u64_max :: nat where
  "u64_max = 18446744073709551615"

definition checked_add :: "nat \<Rightarrow> nat \<Rightarrow> nat option" where
  "checked_add a b = (if a + b \<le> u64_max then Some (a + b) else None)"

definition saturating_add :: "nat \<Rightarrow> nat \<Rightarrow> nat" where
  "saturating_add a b = min (a + b) u64_max"

definition saturating_mul :: "nat \<Rightarrow> nat \<Rightarrow> nat" where
  "saturating_mul a b = min (a * b) u64_max"

definition wrapping_succ :: "nat \<Rightarrow> nat" where
  "wrapping_succ a = (a + 1) mod (u64_max + 1)"

definition csub :: "nat \<Rightarrow> nat \<Rightarrow> nat option" where
  "csub a b = (if b \<le> a then Some (a - b) else None)"

definition passert :: "bool \<Rightarrow> unit option" where
  "passert b = (if b then Some () else None)"

definition rbind :: "('e, 'a) result \<Rightarrow> ('a \<Rightarrow> ('e, 'b) result) \<Rightarrow> ('e, 'b) result" where
  "rbind m f = (case m of Inl e \<Rightarrow> Inl e | Inr a \<Rightarrow> f a)"

definition rmap :: "('a \<Rightarrow> 'b) \<Rightarrow> ('e, 'a) result \<Rightarrow> ('e, 'b) result" where
  "rmap f m = (case m of Inl e \<Rightarrow> Inl e | Inr a \<Rightarrow> Inr (f a))"

definition ok_or :: "'e \<Rightarrow> 'a option \<Rightarrow> ('e, 'a) result" where
  "ok_or e m = (case m of None \<Rightarrow> Inl e | Some a \<Rightarrow> Inr a)"

fun rmap_list :: "('a \<Rightarrow> ('e, 'b) result) \<Rightarrow> 'a list \<Rightarrow> ('e, 'b list) result" where
  "rmap_list f [] = Inr []"
| "rmap_list f (x # xs) =
     rbind (f x) (\<lambda>y. rbind (rmap_list f xs) (\<lambda>ys. Inr (y # ys)))"

text \<open>A loop over a list that threads mutable state and stops at the first error.\<close>

fun rfold :: "('s \<Rightarrow> 'a \<Rightarrow> ('e, 's) result) \<Rightarrow> 's \<Rightarrow> 'a list \<Rightarrow> ('e, 's) result" where
  "rfold f s [] = Inr s"
| "rfold f s (x # xs) = rbind (f s x) (\<lambda>s'. rfold f s' xs)"

text \<open>Fallible code that may also panic: \<open>None\<close> a panic, \<open>Some (Inl e)\<close> an error.\<close>

type_synonym ('e, 'a) outcome = "('e + 'a) option"

definition pbind :: "('e, 'a) outcome \<Rightarrow> ('a \<Rightarrow> ('e, 'b) outcome) \<Rightarrow> ('e, 'b) outcome" where
  "pbind m f = (case m of None \<Rightarrow> None | Some (Inl e) \<Rightarrow> Some (Inl e) | Some (Inr a) \<Rightarrow> f a)"

fun pfold :: "('s \<Rightarrow> 'a \<Rightarrow> ('e, 's) outcome) \<Rightarrow> 's \<Rightarrow> 'a list \<Rightarrow> ('e, 's) outcome" where
  "pfold f s [] = Some (Inr s)"
| "pfold f s (x # xs) = pbind (f s x) (\<lambda>s'. pfold f s' xs)"

text \<open>\<^verbatim>\<open>Iterator::max_by\<close>: the last of the maximal elements.\<close>

definition max_by_last :: "('a \<Rightarrow> 'k::linorder) \<Rightarrow> 'a list \<Rightarrow> 'a option" where
  "max_by_last f xs =
     (case xs of [] \<Rightarrow> None | x # xs' \<Rightarrow> Some (foldl (\<lambda>m y. if f m > f y then m else y) x xs'))"

section \<open>Arithmetic\<close>

lemma csub_eq_Some [simp]: "csub a b = Some c \<longleftrightarrow> b \<le> a \<and> c = a - b"
  by (auto simp: csub_def)

lemma csub_Some [simp, panic_free]: "b \<le> a \<Longrightarrow> csub a b = Some (a - b)"
  by (simp add: csub_def)

lemma passert_True [simp, panic_free]: "passert True = Some ()"
  by (simp add: passert_def)

lemma passert_eq_Some [simp]: "passert b = Some u \<longleftrightarrow> b"
  by (simp add: passert_def)

lemma checked_add_eq_Some: "checked_add a b = Some c \<longleftrightarrow> c = a + b \<and> c \<le> u64_max"
  by (auto simp: checked_add_def)

lemma saturating_add_le: "saturating_add a b \<le> u64_max"
  by (simp add: saturating_add_def)

lemma saturating_add_pos: "0 < b \<Longrightarrow> 0 < saturating_add a b"
  by (simp add: saturating_add_def u64_max_def)

lemma wrapping_succ_le: "wrapping_succ a \<le> u64_max"
  unfolding wrapping_succ_def by (metis Suc_eq_plus1 less_Suc_eq_le mod_less_divisor zero_less_Suc)

lemma wrapping_succ_eq: "a < u64_max \<Longrightarrow> wrapping_succ a = a + 1"
  by (simp add: wrapping_succ_def)

section \<open>Results\<close>

lemma rbind_Inr [simp]: "rbind (Inr a) f = f a"
  by (simp add: rbind_def)

lemma rbind_Inl [simp]: "rbind (Inl e) f = Inl e"
  by (simp add: rbind_def)

lemma rbind_eq_Inr [simp]: "rbind m f = Inr b \<longleftrightarrow> (\<exists>a. m = Inr a \<and> f a = Inr b)"
  by (auto simp: rbind_def split: sum.splits)

lemma rbind_eq_Inl: "rbind m f = Inl e \<longleftrightarrow> m = Inl e \<or> (\<exists>a. m = Inr a \<and> f a = Inl e)"
  by (auto simp: rbind_def split: sum.splits)

lemma rmap_Inr [simp]: "rmap f (Inr a) = Inr (f a)"
  by (simp add: rmap_def)

lemma rmap_Inl [simp]: "rmap f (Inl e) = Inl e"
  by (simp add: rmap_def)

lemma rmap_eq_Inr [simp]: "rmap f m = Inr b \<longleftrightarrow> (\<exists>a. m = Inr a \<and> b = f a)"
  by (auto simp: rmap_def split: sum.splits)

lemma rmap_eq_Inl [simp]: "rmap f m = Inl e \<longleftrightarrow> m = Inl e"
  by (auto simp: rmap_def split: sum.splits)

lemma ok_or_eq_Inr [simp]: "ok_or e m = Inr a \<longleftrightarrow> m = Some a"
  by (auto simp: ok_or_def split: option.splits)

lemma ok_or_eq_Inl [simp]: "ok_or e m = Inl e' \<longleftrightarrow> m = None \<and> e' = e"
  by (auto simp: ok_or_def split: option.splits)

lemma ok_or_simps [simp]: "ok_or e None = Inl e" "ok_or e (Some a) = Inr a"
  by (simp_all add: ok_or_def)

lemma rbind_cong [fundef_cong]:
  assumes "m = m'" and "\<And>a. m' = Inr a \<Longrightarrow> f a = g a"
  shows "rbind m f = rbind m' g"
  using assms by (cases m') auto

lemma rmap_list_cong [fundef_cong]:
  assumes "xs = ys" and "\<And>x. x \<in> set ys \<Longrightarrow> f x = g x"
  shows "rmap_list f xs = rmap_list g ys"
  using assms(2) unfolding assms(1) by (induction ys) (auto intro!: rbind_cong)

lemma rfold_cong [fundef_cong]:
  assumes "s = t" and "xs = ys" and "\<And>x u. x \<in> set ys \<Longrightarrow> f u x = g u x"
  shows "rfold f s xs = rfold g t ys"
  using assms(3) unfolding assms(1,2) by (induction ys arbitrary: t) (auto intro!: rbind_cong)

lemma rmap_list_Inr_iff:
  "rmap_list f xs = Inr ys \<longleftrightarrow> list_all2 (\<lambda>x y. f x = Inr y) xs ys"
proof (induction xs arbitrary: ys)
  case Nil
  then show ?case by auto
next
  case (Cons x xs)
  then show ?case by (cases ys) auto
qed

lemma rmap_list_length: "rmap_list f xs = Inr ys \<Longrightarrow> length ys = length xs"
  by (simp add: rmap_list_Inr_iff list_all2_lengthD [symmetric])

lemma rmap_list_nth:
  "rmap_list f xs = Inr ys \<Longrightarrow> i < length xs \<Longrightarrow> f (xs ! i) = Inr (ys ! i)"
  by (auto simp: rmap_list_Inr_iff dest: list_all2_nthD)

lemma rmap_list_memb:
  "rmap_list f xs = Inr ys \<Longrightarrow> x \<in> set xs \<Longrightarrow> \<exists>y. y \<in> set ys \<and> f x = Inr y"
  by (metis in_set_conv_nth rmap_list_length rmap_list_nth)

lemma rmap_list_memb':
  "rmap_list f xs = Inr ys \<Longrightarrow> y \<in> set ys \<Longrightarrow> \<exists>x. x \<in> set xs \<and> f x = Inr y"
  by (metis in_set_conv_nth rmap_list_length rmap_list_nth)

lemma rmap_list_Inl_memb: "rmap_list f xs = Inl e \<Longrightarrow> \<exists>x\<in>set xs. f x = Inl e"
  by (induction xs) (auto simp: rbind_eq_Inl)

lemma rmap_list_total: "(\<And>x. x \<in> set xs \<Longrightarrow> \<exists>y. f x = Inr y) \<Longrightarrow> \<exists>ys. rmap_list f xs = Inr ys"
  by (induction xs) auto

lemma rfold_append: "rfold f s (xs @ ys) = rbind (rfold f s xs) (\<lambda>t. rfold f t ys)"
proof (induction xs arbitrary: s)
  case (Cons x xs)
  then show ?case by (cases "f s x") auto
qed simp

lemma rfold_Inl_memb: "rfold f s xs = Inl e \<Longrightarrow> \<exists>x\<in>set xs. \<exists>u. f u x = Inl e"
  by (induction xs arbitrary: s) (auto simp: rbind_eq_Inl)

lemma rfold_invariant:
  assumes "rfold f s xs = Inr t" and "P s"
    and "\<And>x u v. x \<in> set xs \<Longrightarrow> P u \<Longrightarrow> f u x = Inr v \<Longrightarrow> P v"
  shows "P t"
  using assms by (induction xs arbitrary: s) auto

section \<open>Outcomes\<close>

lemma pbind_simps [simp]:
  "pbind None f = None" "pbind (Some (Inl e)) f = Some (Inl e)" "pbind (Some (Inr a)) f = f a"
  by (simp_all add: pbind_def)

lemma pbind_eq_Ok [simp]: "pbind m f = Some (Inr b) \<longleftrightarrow> (\<exists>a. m = Some (Inr a) \<and> f a = Some (Inr b))"
  by (auto simp: pbind_def split: option.splits sum.splits)

lemma pbind_eq_None: "pbind m f = None \<longleftrightarrow> m = None \<or> (\<exists>a. m = Some (Inr a) \<and> f a = None)"
  by (auto simp: pbind_def split: option.splits sum.splits)

lemma pbind_eq_Err:
  "pbind m f = Some (Inl e) \<longleftrightarrow> m = Some (Inl e) \<or> (\<exists>a. m = Some (Inr a) \<and> f a = Some (Inl e))"
  by (auto simp: pbind_def split: option.splits sum.splits)

lemma pbind_cong [fundef_cong]:
  assumes "m = m'" and "\<And>a. m' = Some (Inr a) \<Longrightarrow> f a = g a"
  shows "pbind m f = pbind m' g"
  using assms by (auto simp: pbind_def split: option.splits sum.splits)

lemma pfold_cong [fundef_cong]:
  assumes "s = t" and "xs = ys" and "\<And>x u. x \<in> set ys \<Longrightarrow> f u x = g u x"
  shows "pfold f s xs = pfold g t ys"
  using assms(3) unfolding assms(1,2) by (induction ys arbitrary: t) (auto intro!: pbind_cong)

lemma pfold_invariant:
  assumes "pfold f s xs = Some (Inr t)" and "P s"
    and "\<And>x u v. x \<in> set xs \<Longrightarrow> P u \<Longrightarrow> f u x = Some (Inr v) \<Longrightarrow> P v"
  shows "P t"
  using assms by (induction xs arbitrary: s) auto

lemma pfold_not_None:
  assumes "\<And>x u. x \<in> set xs \<Longrightarrow> f u x \<noteq> None"
  shows "pfold f s xs \<noteq> None"
  using assms by (induction xs arbitrary: s) (auto simp: pbind_eq_None)

section \<open>Maximum\<close>

lemma foldl_max_props:
  "let m = foldl (\<lambda>m y. if f m > f y then m else y) x xs in
     m \<in> insert x (set xs) \<and> (\<forall>y\<in>insert x (set xs). f y \<le> (f m :: 'k::linorder))"
proof (induction xs arbitrary: x)
  case (Cons y ys)
  show ?case
    using Cons.IH [of "if f x > f y then x else y"] by (auto simp: Let_def intro: order_trans split: if_splits)
qed simp

lemma max_by_last_None [simp]: "max_by_last f xs = None \<longleftrightarrow> xs = []"
  by (simp add: max_by_last_def split: list.splits)

lemma max_by_last_Some:
  assumes "max_by_last f xs = Some m"
  shows "m \<in> set xs" and "\<And>y. y \<in> set xs \<Longrightarrow> f y \<le> f m"
proof -
  obtain x xs' where "xs = x # xs'" "m = foldl (\<lambda>m y. if f m > f y then m else y) x xs'"
    using assms by (auto simp: max_by_last_def split: list.splits)
  then show "m \<in> set xs" "\<And>y. y \<in> set xs \<Longrightarrow> f y \<le> f m"
    using foldl_max_props [of f x xs'] by (auto simp: Let_def)
qed

text \<open>When the key breaks ties by position, the maximum is the first element whose rank is maximal.\<close>

lemma max_by_last_first:
  fixes h :: "'a \<Rightarrow> 'h::linorder" and key :: "nat \<times> 'a \<Rightarrow> 'k::linorder"
  assumes srt: "sorted_wrt (<) (map fst cands)"
    and key: "\<And>y z. key y \<le> key z \<longleftrightarrow> h (snd y) < h (snd z) \<or> (h (snd y) = h (snd z) \<and> fst z \<le> fst y)"
  shows "map_option snd (max_by_last key cands) =
    find (\<lambda>c. \<forall>d\<in>set (map snd cands). h d \<le> h c) (map snd cands)"
proof (cases "max_by_last key cands")
  case None
  then show ?thesis by simp
next
  case (Some m)
  note top = max_by_last_Some [OF Some]
  obtain j where j: "j < length cands" "cands ! j = m" using top(1) by (auto simp: in_set_conv_nth)
  have all: "\<forall>d\<in>set (map snd cands). h d \<le> h (snd m)"
    using top(2) by (fastforce simp: key)
  have earlier: "\<not> (\<forall>d\<in>set (map snd cands). h d \<le> h (snd (cands ! i)))" if i: "i < j" for i
  proof
    assume "\<forall>d\<in>set (map snd cands). h d \<le> h (snd (cands ! i))"
    then have "h (snd m) \<le> h (snd (cands ! i))" using top(1) by simp
    moreover have "fst (cands ! i) < fst m"
      using sorted_wrt_nth_less [OF srt, of i j] i j by simp
    moreover have "key (cands ! i) \<le> key m" using top(2) i j(1) by simp
    ultimately show False by (auto simp: key)
  qed
  have "find (\<lambda>c. \<forall>d\<in>set (map snd cands). h d \<le> h c) (map snd cands) = Some (snd m)"
    unfolding find_Some_iff using j all earlier by (intro exI [of _ j]) (auto simp del: set_map)
  then show ?thesis using Some by simp
qed

section \<open>Lists\<close>

lemma sum_list_update_minus:
  fixes xs :: "nat list"
  assumes "i < length xs" and "d \<le> xs ! i"
  shows "sum_list (xs[i := xs ! i - d]) = sum_list xs - d"
  using assms
proof (induction xs arbitrary: i)
  case (Cons x xs)
  then show ?case
    using elem_le_sum_list [of "i - 1" xs] by (cases i) (force simp: add.commute)+
qed simp

lemma sum_list_update_plus:
  fixes xs :: "nat list"
  assumes "i < length xs"
  shows "sum_list (xs[i := xs ! i + d]) = sum_list xs + d"
  using assms by (induction xs arbitrary: i) (auto split: nat.splits)

lemma nth_le_sum_list: "i < length xs \<Longrightarrow> xs ! i \<le> sum_list xs" for xs :: "nat list"
  by (simp add: elem_le_sum_list)

lemma sum_list_split_at:
  fixes xs :: "nat list"
  assumes "i < length xs"
  shows "sum_list (take i xs) + xs ! i + sum_list (drop (Suc i) xs) = sum_list xs"
proof -
  have "sum_list xs = sum_list (take i xs @ xs ! i # drop (Suc i) xs)"
    using assms by (simp only: id_take_nth_drop [symmetric])
  then show ?thesis by simp
qed

lemma sum_list_pointwise_le:
  fixes xs ys :: "nat list"
  assumes "length xs = length ys" and "\<And>i. i < length ys \<Longrightarrow> xs ! i \<le> ys ! i"
  shows "sum_list xs \<le> sum_list ys"
  using assms by (induction xs ys rule: list_induct2) (force simp: All_less_Suc2 intro!: add_mono)+

lemma drop_eq_Cons:
  assumes "x # xs = drop k ys"
  shows "k < length ys" and "x = ys ! k" and "xs = drop (Suc k) ys"
proof -
  show "k < length ys" using assms by (metis drop_all linorder_not_le list.distinct(1))
  from Cons_nth_drop_Suc [OF this] assms show "x = ys ! k" "xs = drop (Suc k) ys"
    by (metis list.inject)+
qed

lemma map_filter_cong [fundef_cong]:
  "xs = ys \<Longrightarrow> (\<And>x. x \<in> set ys \<Longrightarrow> f x = g x) \<Longrightarrow> List.map_filter f xs = List.map_filter g ys"
  by (auto simp: map_filter_def cong: filter_cong)

lemma in_set_map_filter: "y \<in> set (List.map_filter f xs) \<longleftrightarrow> (\<exists>x\<in>set xs. f x = Some y)"
  by (induction xs) (auto simp: map_filter_simps split: option.splits)

lemma find_SomeD: "find P xs = Some x \<Longrightarrow> x \<in> set xs \<and> P x"
  by (auto simp: find_Some_iff)

lemma enumerate_memb: "p \<in> set (enumerate n xs) \<Longrightarrow> snd p \<in> set xs"
  by (metis image_eqI list.set_map map_snd_enumerate)

end
