(* ===== verification/Recovery.thy ===== *)
theory Recovery
  imports TB_Prelude
begin

text \<open>
  \<^verbatim>\<open>touchbard/src/recovery.rs\<close>: the hardware-owned recovery gesture.  Holding Fn for eight
  seconds drops the user session into the trusted fallback row; holding it again resumes.
  Instants are nanoseconds of the monotonic clock.  The marker file of the same module is
  file-system I/O and is not part of the model.
\<close>

definition hold_duration :: nat where
  "hold_duration = 8 * 1000000000"

datatype recovery_action = EnterFallback | ResumeSessions

record recovery_gesture =
  pressed_since :: "nat option"
  fired_for_press :: bool
  fallback_locked :: bool

definition gesture_new :: "bool \<Rightarrow> nat \<Rightarrow> recovery_gesture" where
  "gesture_new fn_pressed now =
     \<lparr>pressed_since = (if fn_pressed then Some now else None), fired_for_press = False,
      fallback_locked = False\<rparr>"

definition fn_changed :: "bool \<Rightarrow> nat \<Rightarrow> recovery_gesture \<Rightarrow> recovery_gesture" where
  "fn_changed pressed now g =
     (if pressed then g\<lparr>pressed_since := Some now, fired_for_press := False\<rparr>
      else g\<lparr>pressed_since := None, fired_for_press := False\<rparr>)"

definition gesture_poll :: "nat \<Rightarrow> recovery_gesture \<Rightarrow> recovery_action option \<times> recovery_gesture" where
  "gesture_poll now g =
     (case pressed_since g of
        None \<Rightarrow> (None, g)
      | Some since \<Rightarrow>
          if fired_for_press g \<or> now - since < hold_duration then (None, g)
          else (Some (if \<not> fallback_locked g then EnterFallback else ResumeSessions),
                g\<lparr>fired_for_press := True, fallback_locked := \<not> fallback_locked g\<rparr>))"

definition sessions_allowed :: "recovery_gesture \<Rightarrow> bool" where
  "sessions_allowed g \<longleftrightarrow> \<not> fallback_locked g"

datatype gesture_input = FnChanged bool nat | Poll nat

fun gesture_run :: "gesture_input list \<Rightarrow> recovery_gesture \<Rightarrow> recovery_action list \<times> recovery_gesture" where
  "gesture_run [] g = ([], g)"
| "gesture_run (FnChanged p now # is) g = gesture_run is (fn_changed p now g)"
| "gesture_run (Poll now # is) g =
     (let (a, g') = gesture_poll now g; (as, g'') = gesture_run is g'
      in ((case a of None \<Rightarrow> as | Some x \<Rightarrow> x # as), g''))"

fun alternates :: "bool \<Rightarrow> recovery_action list \<Rightarrow> bool" where
  "alternates locked [] = True"
| "alternates locked (a # as) =
     (a = (if locked then ResumeSessions else EnterFallback) \<and> alternates (\<not> locked) as)"

definition presses :: "gesture_input list \<Rightarrow> nat" where
  "presses is = length (filter (\<lambda>i. case i of FnChanged p _ \<Rightarrow> p | Poll _ \<Rightarrow> False) is)"

lemma gesture_poll_cases:
  obtains "gesture_poll now g = (None, g)"
  | since where "pressed_since g = Some since" "\<not> fired_for_press g" "hold_duration \<le> now - since"
      "gesture_poll now g = (Some (if fallback_locked g then ResumeSessions else EnterFallback),
         g\<lparr>fired_for_press := True, fallback_locked := \<not> fallback_locked g\<rparr>)"
proof (cases "pressed_since g")
  case None
  then show ?thesis using that(1) by (simp add: gesture_poll_def)
next
  case (Some since)
  show ?thesis
  proof (cases "fired_for_press g \<or> now - since < hold_duration")
    case True
    then show ?thesis using that(1) Some by (simp add: gesture_poll_def)
  next
    case False
    then show ?thesis using that(2) [OF Some] Some by (simp add: gesture_poll_def)
  qed
qed

lemma fn_changed_locked [simp]: "fallback_locked (fn_changed p now g) = fallback_locked g"
  by (simp add: fn_changed_def)

lemma gesture_run_alternates:
  "gesture_run is g = (as, g') \<Longrightarrow>
     alternates (fallback_locked g) as \<and> (fallback_locked g' = (fallback_locked g \<noteq> odd (length as)))"
proof (induction "is" g arbitrary: as g' rule: gesture_run.induct)
  case (3 now "is" g)
  obtain a h where poll: "gesture_poll now g = (a, h)" by fastforce
  obtain bs h' where run: "gesture_run is h = (bs, h')" by fastforce
  have IH: "alternates (fallback_locked h) bs \<and> (fallback_locked h' = (fallback_locked h \<noteq> odd (length bs)))"
    using 3(1) [OF poll [symmetric] refl run] .
  show ?case
    by (rule gesture_poll_cases [of now g]) (use 3(2) poll run IH in auto)
qed auto

lemma gesture_run_at_most:
  "gesture_run is g = (as, g') \<Longrightarrow>
     length as \<le> presses is + (if pressed_since g \<noteq> None \<and> \<not> fired_for_press g then 1 else 0)"
proof (induction "is" g arbitrary: as g' rule: gesture_run.induct)
  case (2 p now "is" g)
  then show ?case by (cases p) (fastforce simp: presses_def fn_changed_def)+
next
  case (3 now "is" g)
  obtain a h where poll: "gesture_poll now g = (a, h)" by fastforce
  obtain bs h' where run: "gesture_run is h = (bs, h')" by fastforce
  have IH: "length bs \<le> presses is + (if pressed_since h \<noteq> None \<and> \<not> fired_for_press h then 1 else 0)"
    using 3(1) [OF poll [symmetric] refl run] .
  show ?case
    by (rule gesture_poll_cases [of now g]) (use 3(2) poll run IH in \<open>auto simp: presses_def split: if_splits\<close>)
qed (simp add: presses_def)

section \<open>Properties\<close>

text \<open>However the service polls, each continuous Fn hold toggles at most once: the number of
  actions is at most the number of presses (plus one when Fn was already down at start), the
  actions alternate starting with \<^const>\<open>EnterFallback\<close>, and sessions are allowed exactly when
  the two kinds balance.\<close>

theorem recovery_toggles_once_per_press:
  assumes "gesture_run is (gesture_new down now) = (as, g)"
  shows "length as \<le> presses is + (if down then 1 else 0)
    \<and> alternates False as \<and> (sessions_allowed g \<longleftrightarrow> even (length as))"
  using gesture_run_at_most [OF assms] gesture_run_alternates [OF assms]
  by (auto simp: gesture_new_def sessions_allowed_def)

theorem recovery_toggles_once_per_press_witness:
  "gesture_run [FnChanged True 0, Poll 8000000000, Poll 9000000000, FnChanged False 9500000000]
     (gesture_new False 0) = ([EnterFallback],
       \<lparr>pressed_since = None, fired_for_press = False, fallback_locked = True\<rparr>)
   \<and> alternates False [EnterFallback]"
proof -
  have r: "gesture_run [FnChanged True 0, Poll 8000000000, Poll 9000000000, FnChanged False 9500000000]
     (gesture_new False 0) = ([EnterFallback],
       \<lparr>pressed_since = None, fired_for_press = False, fallback_locked = True\<rparr>)"
    by (simp add: gesture_new_def fn_changed_def gesture_poll_def hold_duration_def)
  show ?thesis using r recovery_toggles_once_per_press [OF r] by simp
qed

text \<open>A poll acts exactly when Fn has been down for the full hold duration and has not fired
  since it was pressed.\<close>

theorem recovery_fires_iff_held:
  "fst (gesture_poll now g) \<noteq> None \<longleftrightarrow>
     (\<exists>since. pressed_since g = Some since \<and> \<not> fired_for_press g \<and> hold_duration \<le> now - since)"
  by (auto simp: gesture_poll_def split: option.splits)

end
