(* ===== verification/Ordered_Map.thy ===== *)
theory Ordered_Map
  imports TB_Prelude
begin

text \<open>
  Rust's \<^verbatim>\<open>BTreeMap\<close> as the components use it: a finite map whose iteration runs in
  ascending key order.  The locale \<open>btree_map\<close> is the interface (lookup after insert and
  remove, sorted duplicate-free iteration); sorted association lists provide it.  What the
  components derive from it (sizes and sums over the stored values) is proved once, in the
  locale, and reaches them through the interpretation \<open>bt\<close>.
\<close>

type_synonym ('k, 'v) btree = "('k \<times> 'v) list"

fun bt_insert :: "'k::linorder \<Rightarrow> 'v \<Rightarrow> ('k, 'v) btree \<Rightarrow> ('k, 'v) btree" where
  "bt_insert k v [] = [(k, v)]"
| "bt_insert k v ((k', v') # m) =
     (if k < k' then (k, v) # (k', v') # m
      else if k = k' then (k, v) # m
      else (k', v') # bt_insert k v m)"

definition bt_remove :: "'k::linorder \<Rightarrow> ('k, 'v) btree \<Rightarrow> ('k, 'v) btree" where
  "bt_remove k m = filter (\<lambda>p. fst p \<noteq> k) m"

definition bt_get :: "('k::linorder, 'v) btree \<Rightarrow> 'k \<Rightarrow> 'v option" where
  "bt_get m k = map_of m k"

definition bt_entries :: "('k::linorder, 'v) btree \<Rightarrow> ('k \<times> 'v) list" where
  "bt_entries m = m"

definition bt_values :: "('k::linorder, 'v) btree \<Rightarrow> 'v list" where
  "bt_values m = map snd m"

definition bt_keys :: "('k::linorder, 'v) btree \<Rightarrow> 'k list" where
  "bt_keys m = map fst m"

definition bt_ok :: "('k::linorder, 'v) btree \<Rightarrow> bool" where
  "bt_ok m \<longleftrightarrow> sorted (map fst m) \<and> distinct (map fst m)"

locale btree_map =
  fixes empty :: 'm
    and ins :: "'k::linorder \<Rightarrow> 'v \<Rightarrow> 'm \<Rightarrow> 'm"
    and del :: "'k \<Rightarrow> 'm \<Rightarrow> 'm"
    and get :: "'m \<Rightarrow> 'k \<Rightarrow> 'v option"
    and entries :: "'m \<Rightarrow> ('k \<times> 'v) list"
    and ok :: "'m \<Rightarrow> bool"
  assumes ok_empty: "ok empty"
    and ok_ins: "ok m \<Longrightarrow> ok (ins k v m)"
    and ok_del: "ok m \<Longrightarrow> ok (del k m)"
    and get_empty: "get empty = Map.empty"
    and get_ins: "ok m \<Longrightarrow> get (ins k v m) = (get m)(k \<mapsto> v)"
    and get_del: "ok m \<Longrightarrow> get (del k m) = (get m)(k := None)"
    and entries_get: "ok m \<Longrightarrow> map_of (entries m) = get m"
    and entries_sorted: "ok m \<Longrightarrow> sorted (map fst (entries m))"
    and entries_distinct: "ok m \<Longrightarrow> distinct (map fst (entries m))"
begin

lemma entries_set: "ok m \<Longrightarrow> set (entries m) = {(k, v). get m k = Some v}"
  using entries_distinct [of m] entries_get [of m] by (auto simp flip: map_of_eq_Some_iff)

lemma entries_keys: "ok m \<Longrightarrow> set (map fst (entries m)) = dom (get m)"
  using entries_get [of m] by (simp flip: dom_map_of_conv_image_fst)

lemma entries_mset_eqI:
  assumes "ok m" and "ok m'" and "set (entries m) = set (entries m')"
  shows "mset (entries m) = mset (entries m')"
  using assms entries_distinct by (metis distinct_map set_eq_iff_mset_eq_distinct)

lemma distinct_entries: "ok m \<Longrightarrow> distinct (entries m)"
  using entries_distinct by (metis distinct_map)

lemma mset_ins_fresh:
  assumes "ok m" and "get m k = None"
  shows "mset (entries (ins k v m)) = add_mset (k, v) (mset (entries m))"
proof -
  have "set (entries (ins k v m)) = set ((k, v) # entries m)"
    using assms by (auto simp: entries_set ok_ins get_ins split: if_splits)
  moreover have "distinct ((k, v) # entries m)"
    using assms by (auto simp: entries_set distinct_entries)
  ultimately have "mset (entries (ins k v m)) = mset ((k, v) # entries m)"
    using assms ok_ins distinct_entries by (metis set_eq_iff_mset_eq_distinct)
  then show ?thesis by simp
qed

lemma mset_del_present:
  assumes "ok m" and "get m k = Some v"
  shows "mset (entries m) = add_mset (k, v) (mset (entries (del k m)))"
proof -
  have "set ((k, v) # entries (del k m)) = set (entries m)"
    using assms by (auto simp: entries_set ok_del get_del split: if_splits)
  moreover have "distinct ((k, v) # entries (del k m))"
    using assms by (auto simp: entries_set ok_del get_del distinct_entries)
  ultimately have "mset (entries m) = mset ((k, v) # entries (del k m))"
    using assms distinct_entries by (metis set_eq_iff_mset_eq_distinct)
  then show ?thesis by simp
qed

lemma length_ins_fresh:
  "ok m \<Longrightarrow> get m k = None \<Longrightarrow> length (entries (ins k v m)) = Suc (length (entries m))"
  by (metis mset_ins_fresh size_add_mset size_mset)

lemma length_del_present:
  "ok m \<Longrightarrow> get m k = Some v \<Longrightarrow> length (entries m) = Suc (length (entries (del k m)))"
  by (metis mset_del_present size_add_mset size_mset)

lemma del_absent: "ok m \<Longrightarrow> get m k = None \<Longrightarrow> mset (entries (del k m)) = mset (entries m)"
  by (rule entries_mset_eqI) (auto simp: ok_del entries_set get_del split: if_splits)

lemma length_del_le: "ok m \<Longrightarrow> length (entries (del k m)) \<le> length (entries m)"
  by (cases "get m k") (metis del_absent order_refl size_mset, metis le_SucI length_del_present order_refl)

lemma length_ins_present:
  assumes "ok m" and "get m k = Some w"
  shows "length (entries (ins k v m)) = length (entries m)"
proof -
  have "set (map fst (entries (ins k v m))) = set (map fst (entries m))"
    unfolding entries_keys [OF assms(1)] entries_keys [OF ok_ins [OF assms(1)]]
    using assms by (auto simp: get_ins dom_def)
  then have "mset (map fst (entries (ins k v m))) = mset (map fst (entries m))"
    using assms(1) ok_ins entries_distinct by (metis set_eq_iff_mset_eq_distinct)
  then show ?thesis by (metis length_map size_mset)
qed

lemma length_ins_le: "ok m \<Longrightarrow> length (entries (ins k v m)) \<le> Suc (length (entries m))"
  by (cases "get m k") (simp_all add: length_ins_fresh length_ins_present)

lemma sum_ins_fresh:
  fixes f :: "'v \<Rightarrow> nat"
  assumes "ok m" and "get m k = None"
  shows "sum_list (map (f \<circ> snd) (entries (ins k v m))) = f v + sum_list (map (f \<circ> snd) (entries m))"
  using arg_cong [OF mset_ins_fresh [OF assms, of v], where f = "\<lambda>M. sum_mset (image_mset (f \<circ> snd) M)"]
  by (simp flip: mset_map add: sum_mset_sum_list)

lemma sum_del_present:
  fixes f :: "'v \<Rightarrow> nat"
  assumes "ok m" and "get m k = Some v"
  shows "sum_list (map (f \<circ> snd) (entries m)) = f v + sum_list (map (f \<circ> snd) (entries (del k m)))"
  using arg_cong [OF mset_del_present [OF assms], where f = "\<lambda>M. sum_mset (image_mset (f \<circ> snd) M)"]
  by (simp flip: mset_map add: sum_mset_sum_list)

end

lemma bt_insert_keys: "set (map fst (bt_insert k v m)) = insert k (set (map fst m))"
  by (induction k v m rule: bt_insert.induct) auto

lemma bt_ok_insert: "bt_ok m \<Longrightarrow> bt_ok (bt_insert k v m)"
proof (induction k v m rule: bt_insert.induct)
  case (2 k v k' v' m)
  then show ?case
    using bt_insert_keys [of k v m] by (auto simp: bt_ok_def order.strict_implies_order)
qed (simp add: bt_ok_def)

lemma bt_ok_filter: "bt_ok m \<Longrightarrow> bt_ok (filter P m)"
  by (induction m) (auto simp: bt_ok_def)

lemma map_of_bt_insert: "bt_ok m \<Longrightarrow> map_of (bt_insert k v m) = (map_of m)(k \<mapsto> v)"
proof (induction k v m rule: bt_insert.induct)
  case (2 k v k' v' m)
  then show ?case
    by (auto simp: bt_ok_def fun_eq_iff order.strict_implies_order)
qed simp

lemma map_of_bt_remove: "map_of (bt_remove k m) = (map_of m)(k := None)"
  by (induction m) (auto simp: bt_remove_def fun_eq_iff)

interpretation bt: btree_map "[]" bt_insert bt_remove bt_get bt_entries bt_ok
proof unfold_locales
  show "bt_ok []" by (simp add: bt_ok_def)
next
  show "bt_ok (bt_insert k v m)" if "bt_ok m" for m and k :: 'a and v :: 'b
    using that by (rule bt_ok_insert)
next
  show "bt_ok (bt_remove k m)" if "bt_ok m" for m :: "('a, 'b) btree" and k
    using that by (simp add: bt_remove_def bt_ok_filter)
next
  show "bt_get [] = (Map.empty :: 'a \<rightharpoonup> 'b)"
    by (simp add: bt_get_def fun_eq_iff)
next
  show "bt_get (bt_insert k v m) = (bt_get m)(k \<mapsto> v)" if "bt_ok m" for m and k :: 'a and v :: 'b
    using map_of_bt_insert [OF that, of k v] by (simp add: bt_get_def fun_eq_iff)
next
  show "bt_get (bt_remove k m) = (bt_get m)(k := None)" for m :: "('a, 'b) btree" and k
    using map_of_bt_remove [of k m] by (simp add: bt_get_def fun_eq_iff)
next
  show "map_of (bt_entries m) = bt_get m" for m :: "('a, 'b) btree"
    by (simp add: bt_get_def bt_entries_def fun_eq_iff)
qed (simp_all add: bt_ok_def bt_entries_def)

lemmas bt_simps [simp] = bt.ok_empty bt.ok_ins bt.ok_del bt.get_empty bt.get_ins bt.get_del

lemma bt_values_entries: "bt_values m = map snd (bt_entries m)"
  by (simp add: bt_values_def bt_entries_def)

lemma bt_get_Some_value: "bt_ok m \<Longrightarrow> bt_get m k = Some v \<Longrightarrow> v \<in> set (bt_values m)"
  using bt.entries_set [of m] by (force simp: bt_values_entries)

lemma bt_value_get: "bt_ok m \<Longrightarrow> v \<in> set (bt_values m) \<Longrightarrow> \<exists>k. bt_get m k = Some v"
  using bt.entries_set [of m] by (auto simp: bt_values_entries)

lemma bt_get_None_keys: "bt_get m k = None \<longleftrightarrow> k \<notin> set (bt_keys m)"
  by (simp add: bt_get_def bt_keys_def map_of_eq_None_iff)

lemma bt_filter_get:
  "bt_ok m \<Longrightarrow> bt_get (filter P m) k = (case bt_get m k of None \<Rightarrow> None
     | Some v \<Rightarrow> if P (k, v) then Some v else None)"
  by (induction m) (auto simp: bt_get_def bt_ok_def map_of_eq_None_iff split: option.splits)

lemma fold_bt_remove_get:
  "bt_ok m \<Longrightarrow> bt_get (fold bt_remove ks m) = (bt_get m) |` (- set ks)"
proof (induction ks arbitrary: m)
  case (Cons k ks)
  then show ?case by (auto simp: fun_eq_iff restrict_map_def)
qed (auto simp: fun_eq_iff restrict_map_def)

lemma bt_ok_fold_remove [simp]: "bt_ok m \<Longrightarrow> bt_ok (fold bt_remove ks m)"
  by (induction ks arbitrary: m) auto

end
