(* ===== verification/Capture_Transaction.thy ===== *)
theory Capture_Transaction
  imports TB_Prelude
begin

text \<open>
  The contract shared by the two transactional components of \<^verbatim>\<open>touchbar-model\<close>
  (\<^verbatim>\<open>TransactionalContext\<close> and \<^verbatim>\<open>CompositionController\<close>): a value is shown, a newer one may
  wait, and contacts (fingers) are held.  An input may change what is shown only while nothing
  is held; lifting the last contact shows the waiting value.

  The locale's client lemma says what a renderer relies on: as long as one contact stays down,
  nothing that arrives changes the shown value.
\<close>

datatype 'i transaction_op = Input 'i | Started nat | Ended nat

fun transaction_step ::
  "('i \<Rightarrow> 's \<Rightarrow> 'c option \<times> 's) \<Rightarrow> (nat \<Rightarrow> 's \<Rightarrow> 's) \<Rightarrow> (nat \<Rightarrow> 's \<Rightarrow> 'c option \<times> 's) \<Rightarrow>
   'i transaction_op \<Rightarrow> 's \<Rightarrow> 'c option \<times> 's" where
  "transaction_step input started ended (Input i) s = input i s"
| "transaction_step input started ended (Started c) s = (None, started c s)"
| "transaction_step input started ended (Ended c) s = ended c s"

fun transaction_run ::
  "('i \<Rightarrow> 's \<Rightarrow> 'c option \<times> 's) \<Rightarrow> (nat \<Rightarrow> 's \<Rightarrow> 's) \<Rightarrow> (nat \<Rightarrow> 's \<Rightarrow> 'c option \<times> 's) \<Rightarrow>
   'i transaction_op list \<Rightarrow> 's \<Rightarrow> 'c option list \<times> 's" where
  "transaction_run input started ended [] s = ([], s)"
| "transaction_run input started ended (x # xs) s =
     (let (r, s') = transaction_step input started ended x s;
          (rs, s'') = transaction_run input started ended xs s' in (r # rs, s''))"

locale capture_transaction =
  fixes shown :: "'s \<Rightarrow> 'c"
    and waiting :: "'s \<Rightarrow> 'c option"
    and held :: "'s \<Rightarrow> nat set"
    and input :: "'i \<Rightarrow> 's \<Rightarrow> 'c option \<times> 's"
    and started :: "nat \<Rightarrow> 's \<Rightarrow> 's"
    and ended :: "nat \<Rightarrow> 's \<Rightarrow> 'c option \<times> 's"
  assumes input_held: "held (snd (input i s)) = held s"
    and input_busy: "held s \<noteq> {} \<Longrightarrow> fst (input i s) = None \<and> shown (snd (input i s)) = shown s"
    and input_idle: "held s = {} \<Longrightarrow>
      shown (snd (input i s)) = (case fst (input i s) of Some c \<Rightarrow> c | None \<Rightarrow> shown s)
      \<and> waiting (snd (input i s)) = waiting s"
    and started_laws: "held (started c s) = insert c (held s)" "shown (started c s) = shown s"
      "waiting (started c s) = waiting s"
    and ended_held: "held (snd (ended c s)) = held s - {c}"
    and ended_busy: "held s - {c} \<noteq> {} \<Longrightarrow>
      fst (ended c s) = None \<and> shown (snd (ended c s)) = shown s \<and> waiting (snd (ended c s)) = waiting s"
    and ended_last: "held s - {c} = {} \<Longrightarrow>
      fst (ended c s) = waiting s \<and> waiting (snd (ended c s)) = None
      \<and> shown (snd (ended c s)) = (case waiting s of Some w \<Rightarrow> w | None \<Rightarrow> shown s)"
begin

abbreviation step :: "'i transaction_op \<Rightarrow> 's \<Rightarrow> 'c option \<times> 's" where
  "step \<equiv> transaction_step input started ended"

abbreviation run :: "'i transaction_op list \<Rightarrow> 's \<Rightarrow> 'c option list \<times> 's" where
  "run \<equiv> transaction_run input started ended"

definition settled :: "'s \<Rightarrow> bool" where
  "settled s \<longleftrightarrow> (held s = {} \<longrightarrow> waiting s = None)"

lemma step_settled: "settled s \<Longrightarrow> settled (snd (step x s))"
proof (cases x)
  case (Ended c)
  assume "settled s"
  then show ?thesis
    using Ended ended_held [of c s] ended_last [of s c] by (auto simp: settled_def)
qed (auto simp: settled_def input_held input_idle started_laws)

lemma step_reports:
  "settled s \<Longrightarrow> shown (snd (step x s)) = (case fst (step x s) of Some c \<Rightarrow> c | None \<Rightarrow> shown s)"
proof (cases x)
  case (Input i)
  then show ?thesis using input_busy [of s i] input_idle [of s i] by (cases "held s = {}") auto
next
  case (Ended c)
  then show ?thesis using ended_busy [of s c] ended_last [of s c] by (cases "held s - {c} = {}") auto
qed (simp add: started_laws)

lemma step_stable:
  assumes "c \<in> held s" and "x \<noteq> Ended c"
  shows "c \<in> held (snd (step x s)) \<and> fst (step x s) = None \<and> shown (snd (step x s)) = shown s"
proof (cases x)
  case (Input i)
  then show ?thesis using assms(1) input_held [of i s] input_busy [of s i] by auto
next
  case (Ended d)
  then have "c \<in> held s - {d}" using assms by auto
  then show ?thesis using Ended ended_held [of d s] ended_busy [of s d] by auto
qed (use assms started_laws in auto)

lemma run_stable:
  assumes "c \<in> held s" and "Ended c \<notin> set xs"
  shows "c \<in> held (snd (run xs s)) \<and> fst (run xs s) = replicate (length xs) None
    \<and> shown (snd (run xs s)) = shown s"
  using assms
proof (induction xs arbitrary: s)
  case (Cons x xs)
  obtain r s' where st: "step x s = (r, s')" by (cases "step x s")
  obtain rs s'' where rn: "run xs s' = (rs, s'')" by (cases "run xs s'")
  have "c \<in> held s' \<and> r = None \<and> shown s' = shown s"
    using step_stable [OF Cons.prems(1), of x] Cons.prems(2) st by auto
  then show ?case using Cons.IH [of s'] Cons.prems(2) st rn by simp
qed simp

text \<open>Lifting every held contact ends the wait: the newest value is shown and nothing waits.\<close>

lemma run_lifted:
  assumes "settled s" and "held s \<subseteq> set cs"
  shows "held (snd (run (map Ended cs) s)) = {} \<and> waiting (snd (run (map Ended cs) s)) = None
    \<and> shown (snd (run (map Ended cs) s)) = (case waiting s of Some w \<Rightarrow> w | None \<Rightarrow> shown s)"
  using assms
proof (induction cs arbitrary: s)
  case Nil
  then show ?case by (simp add: settled_def)
next
  case (Cons c cs)
  obtain r s' where e: "ended c s = (r, s')" by (cases "ended c s")
  have s': "settled s'" "held s' \<subseteq> set cs"
    using step_settled [OF Cons.prems(1), of "Ended c"] ended_held [of c s] Cons.prems(2) e by auto
  have "(case waiting s' of Some w \<Rightarrow> w | None \<Rightarrow> shown s') = (case waiting s of Some w \<Rightarrow> w | None \<Rightarrow> shown s)"
    using e ended_busy [of s c] ended_last [of s c]
    by (cases "held s - {c} = {}") (auto cong: option.case_cong)
  then show ?case using Cons.IH [OF s'] e by (cases "run (map Ended cs) s'") simp
qed

end

section \<open>The abstract specification\<close>

text \<open>
  What the transactional components promise, without queued values: inputs are accepted in order, the
  newest one is shown as soon as no finger is down, and never before.
\<close>

record 'i hold =
  h_shown :: 'i
  h_newest :: 'i
  h_fingers :: "nat set"

definition hold_publish :: "'i hold \<Rightarrow> 'i hold" where
  "hold_publish h = (if h_fingers h = {} then h\<lparr>h_shown := h_newest h\<rparr> else h)"

fun hold_step :: "'i transaction_op \<Rightarrow> 'i hold \<Rightarrow> 'i hold" where
  "hold_step (Input i) h = hold_publish (h\<lparr>h_newest := i\<rparr>)"
| "hold_step (Started c) h = h\<lparr>h_fingers := insert c (h_fingers h)\<rparr>"
| "hold_step (Ended c) h = hold_publish (h\<lparr>h_fingers := h_fingers h - {c}\<rparr>)"

text \<open>A transactional component whose inputs always produce a value implements it: \<open>meets i c\<close> says
  that \<open>c\<close> is a right value for the input \<open>i\<close>, in the states that satisfy \<open>ok\<close>.\<close>

locale capture_refinement = capture_transaction +
  fixes ok :: "'a \<Rightarrow> bool" and meets :: "'c \<Rightarrow> 'b \<Rightarrow> bool"
  assumes ok_input: "ok s \<Longrightarrow> ok (snd (input i s))"
    and ok_started: "ok s \<Longrightarrow> ok (started c s)"
    and ok_ended: "ok s \<Longrightarrow> ok (snd (ended c s))"
    and input_shows: "ok s \<Longrightarrow> held s = {} \<Longrightarrow> \<exists>v. fst (input i s) = Some v \<and> meets i v"
    and input_waits: "ok s \<Longrightarrow> held s \<noteq> {} \<Longrightarrow> \<exists>v. waiting (snd (input i s)) = Some v \<and> meets i v"
begin

definition refines :: "'c hold \<Rightarrow> 'a \<Rightarrow> bool" where
  "refines h s \<longleftrightarrow>
     ok s \<and> settled s \<and> h_fingers h = held s \<and> meets (h_shown h) (shown s)
     \<and> meets (h_newest h) (case waiting s of Some w \<Rightarrow> w | None \<Rightarrow> shown s)"

lemma step_refines:
  assumes "refines h s"
  shows "refines (hold_step x h) (snd (step x s))"
proof -
  have ok: "ok (snd (step x s))"
    using assms by (cases x) (simp_all add: refines_def ok_input ok_started ok_ended)
  have settled: "settled (snd (step x s))"
    using assms step_settled by (simp add: refines_def)
  show ?thesis
  proof (cases x)
    case (Input i)
    show ?thesis
    proof (cases "held s = {}")
      case True
      then obtain v where "fst (input i s) = Some v" "meets i v"
        using input_shows assms unfolding refines_def by blast
      then show ?thesis
        using ok settled Input assms True input_idle [OF True, of i] input_held [of i s]
        by (simp add: refines_def hold_publish_def settled_def)
    next
      case False
      then obtain v where "waiting (snd (input i s)) = Some v" "meets i v"
        using input_waits assms unfolding refines_def by blast
      then show ?thesis
        using ok settled Input assms False input_busy [OF False, of i] input_held [of i s]
        by (simp add: refines_def hold_publish_def)
    qed
  next
    case (Started c)
    then show ?thesis using ok settled assms by (simp add: refines_def started_laws cong: option.case_cong)
  next
    case (Ended c)
    show ?thesis
    proof (cases "held s - {c} = {}")
      case True
      then show ?thesis
        using ok settled Ended assms ended_last [OF True] ended_held [of c s]
        by (simp add: refines_def hold_publish_def)
    next
      case False
      then show ?thesis
        using ok settled Ended assms ended_busy [OF False] ended_held [of c s]
        by (simp add: refines_def hold_publish_def cong: option.case_cong)
    qed
  qed
qed

lemma run_refines: "refines h s \<Longrightarrow> refines (fold hold_step xs h) (snd (run xs s))"
proof (induction xs arbitrary: h s)
  case (Cons x xs)
  show ?case using Cons.IH [OF step_refines [OF Cons.prems, of x]]
    by (cases "step x s"; cases "run xs (snd (step x s))") simp
qed simp

end

end
