(* ===== verification/Bar_Context.thy ===== *)
theory Bar_Context
  imports Ordered_Map Rust_Strings Capture_Transaction
begin

text \<open>
  The contextual half of \<^verbatim>\<open>touchbar-model\<close>: context facts and predicates, the rule selector
  (\<open>select_chain\<close>) and the transactional context, which never swaps the shown bars under a
  finger.

  The selector is proved equal to a declarative definition (\<open>reference_chain\<close>: per scope, from
  the most specific to the least specific, the earliest of the matching rules of the highest
  priority).  The transactional context is a step relation whose reachable states are shown to
  follow the newest context as soon as no contact is captured.
\<close>

section \<open>Context and predicates\<close>

type_synonym bar_id = string

datatype context_value = Text string | Boolean bool

record context_snapshot =
  ctx_generation :: nat
  ctx_facts :: "(string, context_value) btree"

datatype context_predicate =
    Always
  | Present string
  | Equals string context_value
  | All "context_predicate list"
  | AnyOf "context_predicate list"
  | Negated context_predicate

fun pred_matches :: "context_predicate \<Rightarrow> context_snapshot \<Rightarrow> bool" where
  "pred_matches Always ctx = True"
| "pred_matches (Present key) ctx = (bt_get (ctx_facts ctx) key \<noteq> None)"
| "pred_matches (Equals key v) ctx = (bt_get (ctx_facts ctx) key = Some v)"
| "pred_matches (All ps) ctx = list_all (\<lambda>p. pred_matches p ctx) ps"
| "pred_matches (AnyOf ps) ctx = list_ex (\<lambda>p. pred_matches p ctx) ps"
| "pred_matches (Negated p) ctx = (\<not> pred_matches p ctx)"

datatype context_scope = Global | Workspace | Application | Window

text \<open>The derived order of the enumeration: \<^verbatim>\<open>Global < Workspace < Application < Window\<close>.\<close>

fun scope_rank :: "context_scope \<Rightarrow> nat" where
  "scope_rank Global = 0"
| "scope_rank Workspace = 1"
| "scope_rank Application = 2"
| "scope_rank Window = 3"

lemma scope_rank_inj: "scope_rank a = scope_rank b \<Longrightarrow> a = b"
  by (cases a; cases b) auto

instantiation context_scope :: linorder
begin

definition less_eq_context_scope :: "context_scope \<Rightarrow> context_scope \<Rightarrow> bool" where
  "less_eq_context_scope a b \<longleftrightarrow> scope_rank a \<le> scope_rank b"

definition less_context_scope :: "context_scope \<Rightarrow> context_scope \<Rightarrow> bool" where
  "less_context_scope a b \<longleftrightarrow> scope_rank a < scope_rank b"

instance
  by standard (auto simp: less_eq_context_scope_def less_context_scope_def intro: scope_rank_inj)

end

section \<open>Rule selection\<close>

record context_rule =
  rule_bar :: bar_id
  rule_scope :: context_scope
  rule_priority :: int
  rule_predicate :: context_predicate

record context_selector =
  sel_fallback :: bar_id
  sel_rules :: "context_rule list"

type_synonym selection = "(context_scope, int \<times> nat \<times> bar_id) btree"

definition select_step :: "context_snapshot \<Rightarrow> nat \<times> context_rule \<Rightarrow> selection \<Rightarrow> selection" where
  "select_step ctx ir selected =
     (case ir of (i, r) \<Rightarrow>
        if \<not> pred_matches (rule_predicate r) ctx then selected
        else
          let replace = (case bt_get selected (rule_scope r) of
                           None \<Rightarrow> True
                         | Some (p, prev, _) \<Rightarrow>
                             rule_priority r > p \<or> (rule_priority r = p \<and> i < prev)) in
          if replace then bt_insert (rule_scope r) (rule_priority r, i, rule_bar r) selected
          else selected)"

definition select_chain :: "context_selector \<Rightarrow> context_snapshot \<Rightarrow> bar_id list" where
  "select_chain sel ctx =
     (let selected = fold (select_step ctx) (enumerate 0 (sel_rules sel)) [];
          chain = map (\<lambda>(_, _, b). b) (rev (bt_values selected)) in
      if sel_fallback sel \<in> set chain then chain else chain @ [sel_fallback sel])"

text \<open>What the selector is documented to compute: at most one bar per scope, most specific first,
  the highest priority winning and earlier rules winning ties.\<close>

definition winning_rule :: "context_rule list \<Rightarrow> context_snapshot \<Rightarrow> context_scope \<Rightarrow> context_rule option" where
  "winning_rule rules ctx scope =
     (let candidates = filter (\<lambda>r. rule_scope r = scope \<and> pred_matches (rule_predicate r) ctx) rules in
      find (\<lambda>r. \<forall>r'\<in>set candidates. rule_priority r' \<le> rule_priority r) candidates)"

definition reference_chain :: "context_selector \<Rightarrow> context_snapshot \<Rightarrow> bar_id list" where
  "reference_chain sel ctx =
     (let chain = map rule_bar
            (List.map_filter (winning_rule (sel_rules sel) ctx) [Window, Application, Workspace, Global]) in
      if sel_fallback sel \<in> set chain then chain else chain @ [sel_fallback sel])"

section \<open>The transactional context\<close>

record composition_snapshot =
  comp_generation :: nat
  comp_context_generation :: nat
  comp_active_bars :: "bar_id list"

record transactional_context =
  tc_selector :: context_selector
  tc_current :: composition_snapshot
  tc_pending :: "composition_snapshot option"
  tc_captured :: "nat set"
  tc_next_generation :: nat

definition tc_new :: "context_selector \<Rightarrow> context_snapshot \<Rightarrow> transactional_context" where
  "tc_new sel initial =
     \<lparr>tc_selector = sel,
      tc_current = \<lparr>comp_generation = 1, comp_context_generation = ctx_generation initial,
                    comp_active_bars = select_chain sel initial\<rparr>,
      tc_pending = None, tc_captured = {}, tc_next_generation = 2\<rparr>"

text \<open>Operations return the snapshot that becomes visible, if any, with the new state.\<close>

definition tc_update ::
  "context_snapshot \<Rightarrow> transactional_context \<Rightarrow> composition_snapshot option \<times> transactional_context" where
  "tc_update ctx st =
     (let candidate = \<lparr>comp_generation = tc_next_generation st,
                       comp_context_generation = ctx_generation ctx,
                       comp_active_bars = select_chain (tc_selector st) ctx\<rparr>;
          st' = st\<lparr>tc_next_generation := max (wrapping_succ (tc_next_generation st)) 1\<rparr> in
      if tc_captured st' = {} then (Some candidate, st'\<lparr>tc_current := candidate\<rparr>)
      else (None, st'\<lparr>tc_pending := Some candidate\<rparr>))"

definition tc_capture_started :: "nat \<Rightarrow> transactional_context \<Rightarrow> transactional_context" where
  "tc_capture_started contact st = st\<lparr>tc_captured := insert contact (tc_captured st)\<rparr>"

definition tc_capture_ended ::
  "nat \<Rightarrow> transactional_context \<Rightarrow> composition_snapshot option \<times> transactional_context" where
  "tc_capture_ended contact st =
     (let st' = st\<lparr>tc_captured := tc_captured st - {contact}\<rparr> in
      if tc_captured st' = {} then
        (case tc_pending st' of
           Some p \<Rightarrow> (Some p, st'\<lparr>tc_pending := None, tc_current := p\<rparr>)
         | None \<Rightarrow> (None, st'))
      else (None, st'))"

section \<open>The selector meets its specification\<close>

text \<open>What the selection map holds after some rules: per scope the priority, position and bar of
  the winner among them.\<close>

definition slot_of ::
  "context_rule list \<Rightarrow> context_snapshot \<Rightarrow> context_scope \<Rightarrow> (int \<times> nat \<times> bar_id) option \<Rightarrow> bool" where
  "slot_of rules ctx s v =
     (case winning_rule rules ctx s of
        None \<Rightarrow> v = None
      | Some r \<Rightarrow> \<exists>i<length rules. v = Some (rule_priority r, i, rule_bar r))"

definition selection_of :: "context_rule list \<Rightarrow> context_snapshot \<Rightarrow> selection \<Rightarrow> bool" where
  "selection_of rules ctx selected \<longleftrightarrow>
     bt_ok selected \<and> (\<forall>s. slot_of rules ctx s (bt_get selected s))"

lemma find_append: "find P (xs @ ys) = (case find P xs of None \<Rightarrow> find P ys | Some x \<Rightarrow> Some x)"
  by (induction xs) auto

lemma winning_rule_Some:
  assumes "winning_rule rules ctx s = Some r"
  shows "r \<in> set rules" "rule_scope r = s" "pred_matches (rule_predicate r) ctx"
    "\<And>r'. r' \<in> set rules \<Longrightarrow> rule_scope r' = s \<Longrightarrow> pred_matches (rule_predicate r') ctx \<Longrightarrow>
       rule_priority r' \<le> rule_priority r"
  using find_SomeD [OF assms [unfolded winning_rule_def Let_def]] by auto

lemma winning_rule_None:
  assumes "winning_rule rules ctx s = None"
  shows "filter (\<lambda>r. rule_scope r = s \<and> pred_matches (rule_predicate r) ctx) rules = []"
proof (rule ccontr)
  let ?c = "filter (\<lambda>r. rule_scope r = s \<and> pred_matches (rule_predicate r) ctx) rules"
  assume "?c \<noteq> []"
  then have "Max (rule_priority ` set ?c) \<in> rule_priority ` set ?c" by (intro Max_in) (simp_all del: set_filter)
  then obtain r where "r \<in> set ?c" "rule_priority r = Max (rule_priority ` set ?c)" by (auto simp del: set_filter)
  then have "r \<in> set ?c \<and> (\<forall>r'\<in>set ?c. rule_priority r' \<le> rule_priority r)" by simp
  then show False using assms by (auto simp: winning_rule_def Let_def find_None_iff)
qed

lemma winning_rule_snoc:
  "winning_rule (rules @ [r]) ctx s =
     (if rule_scope r = s \<and> pred_matches (rule_predicate r) ctx then
        (case winning_rule rules ctx s of
           None \<Rightarrow> Some r
         | Some w \<Rightarrow> if rule_priority r > rule_priority w then Some r else Some w)
      else winning_rule rules ctx s)"
proof (cases "rule_scope r = s \<and> pred_matches (rule_predicate r) ctx")
  case True
  let ?c = "filter (\<lambda>r. rule_scope r = s \<and> pred_matches (rule_predicate r) ctx) rules"
  show ?thesis
  proof (cases "winning_rule rules ctx s")
    case None
    then show ?thesis using True winning_rule_None [OF None] by (simp add: winning_rule_def)
  next
    case (Some w)
    note w = winning_rule_Some [OF Some]
    have top: "(\<forall>r'\<in>set ?c. rule_priority r' \<le> rule_priority x) \<longleftrightarrow> rule_priority w \<le> rule_priority x" for x
      using w by force
    have "find (\<lambda>x. rule_priority w \<le> rule_priority x) ?c = Some w"
      using Some by (simp add: winning_rule_def Let_def top del: set_filter)
    moreover have "find (\<lambda>x. rule_priority w \<le> rule_priority x \<and> rule_priority r \<le> rule_priority x) ?c =
        (if rule_priority r \<le> rule_priority w then Some w else None)"
    proof (cases "rule_priority r \<le> rule_priority w")
      case le: True
      then have eq: "(\<lambda>x. rule_priority w \<le> rule_priority x \<and> rule_priority r \<le> rule_priority x) =
        (\<lambda>x. rule_priority w \<le> rule_priority x)" by auto
      show ?thesis unfolding eq using calculation le by simp
    next
      case False
      then have "\<not> (rule_priority w \<le> rule_priority x \<and> rule_priority r \<le> rule_priority x)"
        if "x \<in> set ?c" for x using w(4) that by force
      then show ?thesis using False by (auto simp: find_None_iff)
    qed
    moreover have "winning_rule (rules @ [r]) ctx s =
      find (\<lambda>x. rule_priority w \<le> rule_priority x \<and> rule_priority r \<le> rule_priority x) (?c @ [r])"
    proof -
      have eq: "(\<lambda>x. \<forall>r'\<in>set (?c @ [r]). rule_priority r' \<le> rule_priority x) =
        (\<lambda>x. rule_priority w \<le> rule_priority x \<and> rule_priority r \<le> rule_priority x)"
        by (auto simp: fun_eq_iff ball_Un top simp del: set_filter)
      have app: "filter (\<lambda>r. rule_scope r = s \<and> pred_matches (rule_predicate r) ctx) (rules @ [r]) = ?c @ [r]"
        using True by simp
      show ?thesis unfolding winning_rule_def Let_def app eq ..
    qed
    ultimately show ?thesis using True Some by (simp add: find_append)
  qed
qed (auto simp: winning_rule_def)

lemma slot_of_mono:
  "slot_of rules ctx s v \<Longrightarrow> winning_rule (rules @ [r]) ctx s = winning_rule rules ctx s \<Longrightarrow>
     slot_of (rules @ [r]) ctx s v"
  by (auto simp: slot_of_def less_Suc_eq split: option.splits)

lemma slot_of_new:
  "winning_rule (rules @ [r]) ctx s = Some r \<Longrightarrow>
     slot_of (rules @ [r]) ctx s (Some (rule_priority r, length rules, rule_bar r))"
  by (simp add: slot_of_def)

lemma select_step_winning:
  assumes sel: "selection_of rules ctx selected"
  shows "selection_of (rules @ [r]) ctx (select_step ctx (length rules, r) selected)"
proof -
  have ok: "bt_ok selected" and slot: "slot_of rules ctx s (bt_get selected s)" for s
    using sel by (simp_all add: selection_of_def)
  have same: "slot_of (rules @ [r]) ctx s (bt_get selected s)"
    if "rule_scope r \<noteq> s \<or> \<not> pred_matches (rule_predicate r) ctx" for s
    using slot_of_mono [OF slot] that by (auto simp: winning_rule_snoc)
  let ?ins = "bt_insert (rule_scope r) (rule_priority r, length rules, rule_bar r) selected"
  have ins: "selection_of (rules @ [r]) ctx ?ins" if "winning_rule (rules @ [r]) ctx (rule_scope r) = Some r"
    unfolding selection_of_def
  proof (intro conjI allI)
    fix s
    show "slot_of (rules @ [r]) ctx s (bt_get ?ins s)"
      using slot_of_new [OF that] same [of s] ok by (cases "rule_scope r = s") auto
  qed (use ok in simp)
  have keep: "selection_of (rules @ [r]) ctx selected"
    if "winning_rule (rules @ [r]) ctx (rule_scope r) = winning_rule rules ctx (rule_scope r)"
    unfolding selection_of_def
  proof (intro conjI allI)
    fix s
    show "slot_of (rules @ [r]) ctx s (bt_get selected s)"
      using slot_of_mono [OF slot that] same [of s] by (cases "rule_scope r = s") auto
  qed (rule ok)
  show ?thesis
  proof (cases "pred_matches (rule_predicate r) ctx")
    case False
    then show ?thesis using keep by (simp add: winning_rule_snoc select_step_def)
  next
    case True
    show ?thesis
    proof (cases "winning_rule rules ctx (rule_scope r)")
      case None
      then have "bt_get selected (rule_scope r) = None" using slot [of "rule_scope r"] by (simp add: slot_of_def)
      then show ?thesis using ins True None by (simp add: winning_rule_snoc select_step_def)
    next
      case (Some w)
      then obtain i where "i < length rules"
        "bt_get selected (rule_scope r) = Some (rule_priority w, i, rule_bar w)"
        using slot [of "rule_scope r"] by (auto simp: slot_of_def)
      then show ?thesis using ins keep True Some by (simp add: winning_rule_snoc select_step_def)
    qed
  qed
qed

lemma selection_of_fold:
  "selection_of rules ctx (fold (select_step ctx) (enumerate 0 rules) [])"
proof (induction rules rule: rev_induct)
  case Nil
  then show ?case by (simp add: selection_of_def slot_of_def winning_rule_def)
next
  case (snoc r rules)
  then show ?case
    using select_step_winning [of rules ctx "fold (select_step ctx) (enumerate 0 rules) []" r]
    by (simp add: enumerate_append_eq)
qed

text \<open>The values of a selection in descending scope order.\<close>

lemma sorted_distinct_subset_filter:
  fixes xs ys :: "'a::linorder list"
  assumes "sorted xs" "distinct xs" "sorted ys" "distinct ys" "set xs \<subseteq> set ys"
  shows "xs = filter (\<lambda>y. y \<in> set xs) ys"
  using assms by (intro sorted_distinct_set_unique) (auto simp: sorted_filter [where f = id, simplified])

lemma bt_values_by_key:
  assumes "bt_ok m"
  shows "bt_values m = List.map_filter (bt_get m) (bt_keys m)"
proof -
  have "bt_get m (fst e) = Some (snd e)" if "e \<in> set m" for e
    using assms that by (cases e) (auto simp: bt_get_def bt_ok_def)
  then show ?thesis
    unfolding bt_values_def bt_keys_def List.map_filter_def
    by (simp add: filter_map comp_def cong: filter_cong map_cong)
qed

lemma map_filter_filter_dom: "List.map_filter f (filter (\<lambda>x. f x \<noteq> None) xs) = List.map_filter f xs"
  by (simp add: List.map_filter_def comp_def)

lemma selection_values:
  assumes "bt_ok (m :: (context_scope, 'v) btree)"
  shows "rev (bt_values m) = List.map_filter (bt_get m) [Window, Application, Workspace, Global]"
proof -
  let ?all = "[Global, Workspace, Application, Window]"
  have "sorted ?all" "distinct ?all" by (simp_all add: less_eq_context_scope_def)
  moreover have "set (bt_keys m) \<subseteq> set ?all"
    by (auto, metis context_scope.exhaust)
  ultimately have "bt_keys m = filter (\<lambda>k. k \<in> set (bt_keys m)) ?all"
    using assms by (intro sorted_distinct_subset_filter) (simp_all add: bt_ok_def bt_keys_def)
  also have "\<dots> = filter (\<lambda>k. bt_get m k \<noteq> None) ?all"
    by (simp only: bt_get_None_keys not_not)
  finally have "bt_values m = List.map_filter (bt_get m) ?all"
    using bt_values_by_key [OF assms] map_filter_filter_dom [of "bt_get m" ?all] by simp
  then show ?thesis by (auto simp: map_filter_simps split: option.splits)
qed

text \<open>The selector chooses, for each scope from the most to the least specific, the earliest
  matching rule of the highest priority, and always ends with the fallback bar unless that bar
  was already selected.\<close>

theorem select_chain_reference: "select_chain sel ctx = reference_chain sel ctx"
proof -
  let ?m = "fold (select_step ctx) (enumerate 0 (sel_rules sel)) []"
  have so: "bt_ok ?m" "slot_of (sel_rules sel) ctx s (bt_get ?m s)" for s
    using selection_of_fold [of "sel_rules sel" ctx] by (simp_all add: selection_of_def)
  have slot: "map_option (\<lambda>(_, _, b). b) (bt_get ?m s) = map_option rule_bar (winning_rule (sel_rules sel) ctx s)" for s
    using so(2) [of s] by (auto simp: slot_of_def split: option.splits)
  have eq: "map (\<lambda>(_, _, b). b) (List.map_filter (bt_get ?m) xs) =
    map rule_bar (List.map_filter (winning_rule (sel_rules sel) ctx) xs)" for xs
  proof (induction xs)
    case (Cons x xs)
    then show ?case
      using slot [of x] by (cases "winning_rule (sel_rules sel) ctx x") (auto simp: map_filter_simps)
  qed (simp add: map_filter_simps)
  show ?thesis
    unfolding select_chain_def reference_chain_def Let_def selection_values [OF so(1)] eq ..
qed

section \<open>The transactional context follows the newest context\<close>

text \<open>One step of the owner of a transactional context; \<open>ctx\<close> is the newest context it was given.\<close>

inductive tc_step ::
  "transactional_context \<times> context_snapshot \<Rightarrow> transactional_context \<times> context_snapshot \<Rightarrow> bool" where
  update: "tc_update ctx' st = (shown, st') \<Longrightarrow> tc_step (st, ctx) (st', ctx')"
| started: "tc_step (st, ctx) (tc_capture_started c st, ctx)"
| ended: "tc_capture_ended c st = (shown, st') \<Longrightarrow> tc_step (st, ctx) (st', ctx)"

inductive_cases tc_stepE: "tc_step (st, ctx) (st', ctx')"

inductive tc_reachable :: "context_selector \<Rightarrow> transactional_context \<times> context_snapshot \<Rightarrow> bool"
  for sel where
  start: "tc_reachable sel (tc_new sel initial, initial)"
| step: "tc_reachable sel s \<Longrightarrow> tc_step s s' \<Longrightarrow> tc_reachable sel s'"

definition shows_context :: "context_selector \<Rightarrow> context_snapshot \<Rightarrow> composition_snapshot \<Rightarrow> bool" where
  "shows_context sel ctx c \<longleftrightarrow>
     comp_context_generation c = ctx_generation ctx \<and> comp_active_bars c = select_chain sel ctx"

definition tc_invar :: "context_selector \<Rightarrow> transactional_context \<Rightarrow> context_snapshot \<Rightarrow> bool" where
  "tc_invar sel st ctx \<longleftrightarrow>
     tc_selector st = sel
     \<and> (tc_captured st = {} \<longrightarrow> tc_pending st = None)
     \<and> shows_context sel ctx (case tc_pending st of None \<Rightarrow> tc_current st | Some p \<Rightarrow> p)"

lemma tc_invar_new [invar_intro]: "tc_invar sel (tc_new sel initial) initial"
  by (simp add: tc_invar_def tc_new_def shows_context_def)

lemma tc_invar_step [invar_intro]:
  "tc_step (st, ctx) (st', ctx') \<Longrightarrow> tc_invar sel st ctx \<Longrightarrow> tc_invar sel st' ctx'"
  by (erule tc_stepE)
    (auto simp: tc_update_def tc_capture_started_def tc_capture_ended_def tc_invar_def
      shows_context_def Let_def split: if_splits option.splits)

lemma tc_invar_reachable:
  "tc_reachable sel s \<Longrightarrow> tc_invar sel (fst s) (snd s)"
proof (induction rule: tc_reachable.induct)
  case (step s s')
  then show ?case by (cases s; cases s') (auto intro: tc_invar_step)
qed (simp add: tc_invar_new)

text \<open>In every reachable state with no finger on the bar, the shown composition is the one the
  selector gives for the newest context, and none is waiting; while fingers are down a waiting
  composition is the one for the newest context.\<close>

theorem transactional_context_follows:
  assumes "tc_reachable sel (st, ctx)"
  shows "(tc_captured st = {} \<longrightarrow> tc_pending st = None
        \<and> comp_active_bars (tc_current st) = select_chain sel ctx
        \<and> comp_context_generation (tc_current st) = ctx_generation ctx)
    \<and> (\<forall>p. tc_pending st = Some p \<longrightarrow> comp_active_bars p = select_chain sel ctx
        \<and> comp_context_generation p = ctx_generation ctx)"
  using tc_invar_reachable [OF assms] by (auto simp: tc_invar_def shows_context_def)

interpretation tc: capture_transaction tc_current tc_pending tc_captured tc_update
  tc_capture_started tc_capture_ended
  by unfold_locales
    (auto simp: tc_update_def tc_capture_started_def tc_capture_ended_def Let_def split: option.splits)

text \<open>While one contact stays on the bar, no sequence of context updates and other contacts
  changes the shown composition or reports a new one.\<close>

theorem transactional_context_stable:
  assumes "c \<in> tc_captured st" and "Ended c \<notin> set ops"
  shows "tc_current (snd (transaction_run tc_update tc_capture_started tc_capture_ended ops st)) = tc_current st
    \<and> fst (transaction_run tc_update tc_capture_started tc_capture_ended ops st) = replicate (length ops) None"
  using tc.run_stable [OF assms] by simp

interpretation tch: capture_refinement tc_current tc_pending tc_captured tc_update
  tc_capture_started tc_capture_ended "\<lambda>st. tc_selector st = sel" "shows_context sel" for sel
  by unfold_locales
    (auto simp: tc_update_def tc_capture_started_def tc_capture_ended_def shows_context_def Let_def
      split: option.splits)

text \<open>(C7) The transactional context implements the hold machine over contexts: after any sequence of
  context updates and contacts, the fingers are those held, the shown composition is the selector's
  for the context the abstract machine shows, and the newest one, waiting or shown, is the selector's
  for the newest context.\<close>

theorem transactional_context_refines:
  "let h = fold hold_step ops \<lparr>h_shown = initial, h_newest = initial, h_fingers = {}\<rparr>;
       st = snd (transaction_run tc_update tc_capture_started tc_capture_ended ops (tc_new sel initial)) in
   h_fingers h = tc_captured st
   \<and> shows_context sel (h_shown h) (tc_current st)
   \<and> shows_context sel (h_newest h) (case tc_pending st of Some p \<Rightarrow> p | None \<Rightarrow> tc_current st)"
proof -
  have "tch.refines sel \<lparr>h_shown = initial, h_newest = initial, h_fingers = {}\<rparr> (tc_new sel initial)"
    by (simp add: tch.refines_def tc.settled_def tc_new_def shows_context_def)
  from tch.run_refines [OF this, of ops] show ?thesis
    by (simp add: tch.refines_def Let_def)
qed

definition demo_selector :: context_selector where
  "demo_selector =
     \<lparr>sel_fallback = ''system'',
      sel_rules =
        [\<lparr>rule_bar = ''mail'', rule_scope = Application, rule_priority = 0,
          rule_predicate = Equals ''app'' (Text ''mail'')\<rparr>]\<rparr>"

definition mail_context :: context_snapshot where
  "mail_context = \<lparr>ctx_generation = 7, ctx_facts = [(''app'', Text ''mail'')]\<rparr>"

definition empty_context :: context_snapshot where
  "empty_context = \<lparr>ctx_generation = 1, ctx_facts = []\<rparr>"

definition demo_context_run :: transactional_context where
  "demo_context_run =
     snd (tc_capture_ended 3 (snd (tc_update mail_context
       (tc_capture_started 3 (tc_new demo_selector empty_context)))))"

lemma demo_context_reachable: "tc_reachable demo_selector (demo_context_run, mail_context)"
  unfolding demo_context_run_def
  by (rule tc_reachable.step [OF tc_reachable.step [OF tc_reachable.step [OF tc_reachable.start
        tc_step.started] tc_step.update [OF surjective_pairing]] tc_step.ended [OF surjective_pairing]])

theorem transactional_context_follows_witness:
  "tc_captured demo_context_run = {} \<and> tc_pending demo_context_run = None
   \<and> comp_active_bars (tc_current demo_context_run) = [''mail'', ''system'']"
proof -
  have "tc_captured demo_context_run = {}" by code_simp
  moreover have "select_chain demo_selector mail_context = [''mail'', ''system'']" by code_simp
  ultimately show ?thesis
    using transactional_context_follows [OF demo_context_reachable] by simp
qed

theorem transactional_context_stable_witness:
  "tc_current (snd (transaction_run tc_update tc_capture_started tc_capture_ended
      [Input mail_context, Started 4, Ended 4] (tc_capture_started 3 (tc_new demo_selector empty_context)))) =
     tc_current (tc_capture_started 3 (tc_new demo_selector empty_context))"
proof -
  have "3 \<in> tc_captured (tc_capture_started 3 (tc_new demo_selector empty_context))"
    by (simp add: tc_capture_started_def)
  moreover have "Ended 3 \<notin> set [Input mail_context, Started 4, Ended 4]" by simp
  ultimately show ?thesis using transactional_context_stable by blast
qed

end
