(* ===== verification/Layout_Sizing.thy ===== *)
theory Layout_Sizing
  imports TB_Prelude Rust_Strings
begin

text \<open>
  The data model of \<^verbatim>\<open>touchbar-layout\<close> and its sizing pass: items, nested groups, bars, the
  recursive minimum/preferred/maximum computation (\<open>group_sizing\<close>) and the validation pass
  that runs before any layout.

  The lemmas show what validation buys: every validated item and group has ordered sizes, and
  a group of maximum width zero holds no item, so skipping it loses nothing.  The \<^verbatim>\<open>u64\<close>
  sums are natural numbers; \<open>group_sizing_bound\<close> bounds them by the leaves and gaps below the
  group, each of which is a \<^verbatim>\<open>u32\<close>.
\<close>

section \<open>Data\<close>

type_synonym item_id = string

definition MAX_GROUP_DEPTH :: nat where
  "MAX_GROUP_DEPTH = 8"

record item_spec =
  item_id :: item_id
  min_width :: nat
  preferred_width :: nat
  max_width :: nat
  item_visibility_priority :: int
  item_compression_priority :: int
  visibility_group :: "string option"

definition new_item :: "item_id \<Rightarrow> nat \<Rightarrow> nat \<Rightarrow> nat \<Rightarrow> item_spec" where
  "new_item i mn pr mx =
     \<lparr>item_id = i, min_width = mn, preferred_width = pr, max_width = mx,
      item_visibility_priority = 0, item_compression_priority = 0, visibility_group = None\<rparr>"

datatype group_layout = Natural | EqualWidth

datatype group_element = GItem item_spec | GGroup group_spec
and group_spec = GroupSpec (group_id: string) (group_elements: "group_element list")
  (group_layout: group_layout) (spacing: nat) (group_visibility_priority: int)
  (group_compression_priority: int)

datatype element =
    Item item_spec
  | Group group_spec
  | FixedSpace nat
  | FlexibleSpace nat nat

record bar_spec =
  bar_elements :: "element list"
  principal_item :: "item_id option"

datatype layout_error =
    EmptyItemId
  | DuplicateItem item_id
  | InvalidSizing item_id
  | InvalidFlexibleSpace nat
  | UnknownPrincipal item_id
  | UnknownRequired item_id
  | EmptyGroupId
  | DuplicateGroup string
  | GroupDepthExceeded string
  | InvalidEqualWidthGroup string
  | InconsistentVisibilityGroup string
  | InsufficientWidth nat nat

record sizing =
  minimum :: nat
  preferred :: nat
  maximum :: nat

section \<open>Sizing\<close>

definition item_sizing :: "item_spec \<Rightarrow> sizing" where
  "item_sizing it = \<lparr>minimum = min_width it, preferred = preferred_width it, maximum = max_width it\<rparr>"

definition fixed_sizing :: "nat \<Rightarrow> sizing" where
  "fixed_sizing w = \<lparr>minimum = w, preferred = w, maximum = w\<rparr>"

text \<open>The body of \<^verbatim>\<open>group_sizing\<close> after the sizes of the children are known.\<close>

definition combine_sizing ::
  "string \<Rightarrow> group_layout \<Rightarrow> nat \<Rightarrow> sizing list \<Rightarrow> (layout_error, sizing) result" where
  "combine_sizing gid lay sp sizes =
     (let children = filter (\<lambda>c. 0 < maximum c) sizes in
      if children = [] then Inr (fixed_sizing 0)
      else
        let gaps = sp * (length children - 1) in
        case lay of
          Natural \<Rightarrow>
            Inr \<lparr>minimum = sum_list (map minimum children) + gaps,
                 preferred = sum_list (map preferred children) + gaps,
                 maximum = sum_list (map maximum children) + gaps\<rparr>
        | EqualWidth \<Rightarrow>
            let common_minimum = Max (set (map minimum children));
                common_maximum = Min (set (map maximum children)) in
            if common_minimum > common_maximum then Inl (InvalidEqualWidthGroup gid)
            else
              let common_preferred =
                    max common_minimum
                      (min common_maximum (Max (set (map preferred children))));
                  count = length children in
              Inr \<lparr>minimum = common_minimum * count + gaps,
                   preferred = common_preferred * count + gaps,
                   maximum = common_maximum * count + gaps\<rparr>)"

fun group_element_sizing :: "group_element \<Rightarrow> (layout_error, sizing) result"
and group_sizing :: "group_spec \<Rightarrow> (layout_error, sizing) result" where
  "group_element_sizing (GItem it) = Inr (item_sizing it)"
| "group_element_sizing (GGroup g) = group_sizing g"
| "group_sizing (GroupSpec gid es lay sp vp cp) =
     rbind (rmap_list group_element_sizing es) (combine_sizing gid lay sp)"

fun element_sizing :: "element \<Rightarrow> (layout_error, sizing) result" where
  "element_sizing (Item it) = Inr (item_sizing it)"
| "element_sizing (Group g) = group_sizing g"
| "element_sizing (FixedSpace w) = Inr (fixed_sizing w)"
| "element_sizing (FlexibleSpace w _) = Inr (fixed_sizing w)"

section \<open>Validation\<close>

definition validate_item :: "item_spec \<Rightarrow> item_id set \<Rightarrow> (layout_error, item_id set) result" where
  "validate_item it ids =
     (if item_id it = [] then Inl EmptyItemId
      else if min_width it = 0 \<or> min_width it > preferred_width it
           \<or> preferred_width it > max_width it
        then Inl (InvalidSizing (item_id it))
      else if item_id it \<in> ids then Inl (DuplicateItem (item_id it))
      else Inr (insert (item_id it) ids))"

fun validate_group_element ::
  "group_element \<Rightarrow> nat \<Rightarrow> item_id set \<times> string set \<Rightarrow>
   (layout_error, item_id set \<times> string set) result"
and validate_group ::
  "group_spec \<Rightarrow> nat \<Rightarrow> item_id set \<times> string set \<Rightarrow>
   (layout_error, item_id set \<times> string set) result" where
  "validate_group_element (GItem it) depth st =
     rmap (\<lambda>ids. (ids, snd st)) (validate_item it (fst st))"
| "validate_group_element (GGroup g) depth st = validate_group g depth st"
| "validate_group (GroupSpec gid es lay sp vp cp) depth st =
     (if gid = [] then Inl EmptyGroupId
      else if depth > MAX_GROUP_DEPTH then Inl (GroupDepthExceeded gid)
      else if gid \<in> snd st then Inl (DuplicateGroup gid)
      else
        rbind (rfold (\<lambda>s e. validate_group_element e (depth + 1) s) (fst st, insert gid (snd st)) es)
          (\<lambda>st'. rbind (group_sizing (GroupSpec gid es lay sp vp cp)) (\<lambda>_. Inr st')))"

fun validate_element ::
  "item_id set \<times> string set \<Rightarrow> nat \<times> element \<Rightarrow>
   (layout_error, item_id set \<times> string set) result" where
  "validate_element st (i, Item it) = rmap (\<lambda>ids. (ids, snd st)) (validate_item it (fst st))"
| "validate_element st (i, Group g) = validate_group g 1 st"
| "validate_element st (i, FlexibleSpace _ weight) =
     (if weight = 0 then Inl (InvalidFlexibleSpace i) else Inr st)"
| "validate_element st (i, FixedSpace _) = Inr st"

text \<open>The set of required items is the ascending list of its members, the order in which
  \<^verbatim>\<open>BTreeSet::iter\<close> yields them.\<close>

definition validate_bar :: "bar_spec \<Rightarrow> item_id list \<Rightarrow> (layout_error, unit) result" where
  "validate_bar bar required =
     rbind (rfold validate_element ({}, {}) (enumerate 0 (bar_elements bar)))
       (\<lambda>(ids, _).
          case principal_item bar of
            Some p \<Rightarrow>
              if p \<notin> ids then Inl (UnknownPrincipal p)
              else (case find (\<lambda>r. r \<notin> ids) required of
                      Some u \<Rightarrow> Inl (UnknownRequired u) | None \<Rightarrow> Inr ())
          | None \<Rightarrow>
              (case find (\<lambda>r. r \<notin> ids) required of
                 Some u \<Rightarrow> Inl (UnknownRequired u) | None \<Rightarrow> Inr ()))"

section \<open>Item identifiers\<close>

fun group_element_ids :: "group_element \<Rightarrow> item_id list"
and collect_group_item_ids :: "group_spec \<Rightarrow> item_id list" where
  "group_element_ids (GItem it) = [item_id it]"
| "group_element_ids (GGroup g) = collect_group_item_ids g"
| "collect_group_item_ids (GroupSpec gid es lay sp vp cp) = concat (map group_element_ids es)"

fun collect_item_ids :: "element \<Rightarrow> item_id list" where
  "collect_item_ids (Item it) = [item_id it]"
| "collect_item_ids (Group g) = collect_group_item_ids g"
| "collect_item_ids (FixedSpace _) = []"
| "collect_item_ids (FlexibleSpace _ _) = []"

fun group_element_contains_item :: "group_element \<Rightarrow> item_id \<Rightarrow> bool"
and group_contains_item :: "group_spec \<Rightarrow> item_id \<Rightarrow> bool" where
  "group_element_contains_item (GItem it) i = (item_id it = i)"
| "group_element_contains_item (GGroup g) i = group_contains_item g i"
| "group_contains_item (GroupSpec gid es lay sp vp cp) i =
     list_ex (\<lambda>e. group_element_contains_item e i) es"

fun contains_item :: "element \<Rightarrow> item_id \<Rightarrow> bool" where
  "contains_item (Item it) i = (item_id it = i)"
| "contains_item (Group g) i = group_contains_item g i"
| "contains_item (FixedSpace _) i = False"
| "contains_item (FlexibleSpace _ _) i = False"

fun group_element_contains_required :: "group_element \<Rightarrow> item_id list \<Rightarrow> bool"
and group_contains_required :: "group_spec \<Rightarrow> item_id list \<Rightarrow> bool" where
  "group_element_contains_required (GItem it) required = (item_id it \<in> set required)"
| "group_element_contains_required (GGroup g) required = group_contains_required g required"
| "group_contains_required (GroupSpec gid es lay sp vp cp) required =
     list_ex (\<lambda>e. group_element_contains_required e required) es"

lemma contains_item_iff_collect:
  "group_element_contains_item e i \<longleftrightarrow> i \<in> set (group_element_ids e)"
  "group_contains_item g i \<longleftrightarrow> i \<in> set (collect_group_item_ids g)"
  by (induction e and g rule: group_element_ids_collect_group_item_ids.induct)
    (auto simp: list_ex_iff)

lemma contains_item_collect: "contains_item el i \<longleftrightarrow> i \<in> set (collect_item_ids el)"
  by (cases el) (auto simp: contains_item_iff_collect)

lemma contains_required_iff_collect:
  "group_element_contains_required e req \<longleftrightarrow> set (group_element_ids e) \<inter> set req \<noteq> {}"
  "group_contains_required g req \<longleftrightarrow> set (collect_group_item_ids g) \<inter> set req \<noteq> {}"
  by (induction e and g rule: group_element_ids_collect_group_item_ids.induct)
    (auto simp: list_ex_iff)

section \<open>What validation establishes\<close>

definition sizing_ok :: "sizing \<Rightarrow> bool" where
  "sizing_ok s \<longleftrightarrow> minimum s \<le> preferred s \<and> preferred s \<le> maximum s"

definition item_ok :: "item_spec \<Rightarrow> bool" where
  "item_ok it \<longleftrightarrow> item_id it \<noteq> [] \<and> 0 < min_width it \<and> min_width it \<le> preferred_width it
     \<and> preferred_width it \<le> max_width it"

fun group_element_ok :: "group_element \<Rightarrow> bool"
and group_ok :: "group_spec \<Rightarrow> bool" where
  "group_element_ok (GItem it) = item_ok it"
| "group_element_ok (GGroup g) = group_ok g"
| "group_ok (GroupSpec gid es lay sp vp cp) \<longleftrightarrow>
     list_all group_element_ok es
     \<and> (\<exists>s. group_sizing (GroupSpec gid es lay sp vp cp) = Inr s)"

fun element_ok :: "element \<Rightarrow> bool" where
  "element_ok (Item it) = item_ok it"
| "element_ok (Group g) = group_ok g"
| "element_ok (FixedSpace _) = True"
| "element_ok (FlexibleSpace _ weight) = (0 < weight)"

lemma validate_item_Inr:
  "validate_item it ids = Inr ids' \<longleftrightarrow>
     item_ok it \<and> item_id it \<notin> ids \<and> ids' = insert (item_id it) ids"
  by (auto simp: validate_item_def item_ok_def)

lemma rfold_list_rel:
  assumes "rfold f s xs = Inr t"
    and "\<And>x u v. x \<in> set xs \<Longrightarrow> f u x = Inr v \<Longrightarrow>
           P x \<and> distinct (ids x) \<and> set (ids x) \<inter> A u = {} \<and> A v = A u \<union> set (ids x)"
  shows "list_all P xs \<and> distinct (concat (map ids xs))
    \<and> set (concat (map ids xs)) \<inter> A s = {} \<and> A t = A s \<union> set (concat (map ids xs))"
  using assms
proof (induction xs arbitrary: s)
  case (Cons x xs)
  from Cons.prems(1) obtain v where v: "f s x = Inr v" "rfold f v xs = Inr t"
    by auto
  have IH: "list_all P xs \<and> distinct (concat (map ids xs))
    \<and> set (concat (map ids xs)) \<inter> A v = {} \<and> A t = A v \<union> set (concat (map ids xs))"
    using Cons.IH [OF v(2)] Cons.prems(2) by (meson list.set_intros(2))
  have "P x \<and> distinct (ids x) \<and> set (ids x) \<inter> A s = {} \<and> A v = A s \<union> set (ids x)"
    using Cons.prems(2) [OF _ v(1)] by simp
  then show ?case using IH by auto
qed simp

lemma validate_group_ok:
  "validate_group_element e d st = Inr st' \<Longrightarrow>
     group_element_ok e \<and> distinct (group_element_ids e)
     \<and> set (group_element_ids e) \<inter> fst st = {}
     \<and> fst st' = fst st \<union> set (group_element_ids e)"
  "validate_group g d st = Inr st' \<Longrightarrow>
     group_ok g \<and> distinct (collect_group_item_ids g)
     \<and> set (collect_group_item_ids g) \<inter> fst st = {}
     \<and> fst st' = fst st \<union> set (collect_group_item_ids g)"
proof (induction e and g arbitrary: d st st' and d st st')
  case (GroupSpec gid es lay sp vp cp)
  from GroupSpec.prems obtain s where
    fold: "rfold (\<lambda>s e. validate_group_element e (d + 1) s) (fst st, insert gid (snd st)) es = Inr st'"
    and s: "group_sizing (GroupSpec gid es lay sp vp cp) = Inr s"
    by (auto simp del: group_sizing.simps split: if_splits)
  have "list_all group_element_ok es \<and> distinct (concat (map group_element_ids es))
    \<and> set (concat (map group_element_ids es)) \<inter> fst (fst st, insert gid (snd st)) = {}
    \<and> fst st' = fst (fst st, insert gid (snd st)) \<union> set (concat (map group_element_ids es))"
    using fold by (rule rfold_list_rel [where A = fst]) (use GroupSpec.IH in blast)
  then show ?case using s by auto
qed (auto simp: validate_item_Inr)

lemma validate_element_ok:
  "validate_element st ie = Inr st' \<Longrightarrow>
     element_ok (snd ie) \<and> distinct (collect_item_ids (snd ie))
     \<and> set (collect_item_ids (snd ie)) \<inter> fst st = {}
     \<and> fst st' = fst st \<union> set (collect_item_ids (snd ie))"
  by (cases "(st, ie)" rule: validate_element.cases)
    (auto simp: validate_item_Inr split: if_splits dest!: validate_group_ok(2))

definition bar_item_ids :: "bar_spec \<Rightarrow> item_id list" where
  "bar_item_ids bar = concat (map collect_item_ids (bar_elements bar))"

definition bar_ok :: "bar_spec \<Rightarrow> item_id list \<Rightarrow> bool" where
  "bar_ok bar required \<longleftrightarrow>
     list_all element_ok (bar_elements bar) \<and> distinct (bar_item_ids bar)
     \<and> (\<forall>p. principal_item bar = Some p \<longrightarrow> p \<in> set (bar_item_ids bar))
     \<and> set required \<subseteq> set (bar_item_ids bar)"

lemma map_comp_snd_enumerate: "map (f \<circ> snd) (enumerate n xs) = map f xs"
  by (simp add: map_map [symmetric] del: map_map)

lemma validate_bar_ok:
  assumes "validate_bar bar required = Inr ()"
  shows "bar_ok bar required"
proof -
  from assms obtain st where
    fold: "rfold validate_element ({}, {}) (enumerate 0 (bar_elements bar)) = Inr st"
    and pr: "\<And>p. principal_item bar = Some p \<Longrightarrow> p \<in> fst st"
    and rq: "find (\<lambda>r. r \<notin> fst st) required = None"
    unfolding validate_bar_def
    by (fastforce split: option.splits if_splits prod.splits)
  note rel = rfold_list_rel [OF fold, where A = fst and P = "element_ok \<circ> snd"
      and ids = "collect_item_ids \<circ> snd"]
  have "list_all (element_ok \<circ> snd) (enumerate 0 (bar_elements bar))"
    "distinct (concat (map (collect_item_ids \<circ> snd) (enumerate 0 (bar_elements bar))))"
    "fst st = {} \<union> set (concat (map (collect_item_ids \<circ> snd) (enumerate 0 (bar_elements bar))))"
    using rel by (simp_all add: validate_element_ok)
  then have "list_all element_ok (map snd (enumerate 0 (bar_elements bar)))"
    "distinct (bar_item_ids bar)" "fst st = set (bar_item_ids bar)"
    by (simp_all only: map_comp_snd_enumerate bar_item_ids_def list.pred_map fst_conv Un_empty_left)
  then show ?thesis
    using pr rq by (auto simp: bar_ok_def find_None_iff)
qed

section \<open>Sizes of validated content\<close>

lemma sizing_ok_fixed [simp]: "sizing_ok (fixed_sizing w)"
  by (simp add: sizing_ok_def fixed_sizing_def)

lemma sizing_ok_item: "item_ok it \<Longrightarrow> sizing_ok (item_sizing it) \<and> 0 < maximum (item_sizing it)"
  by (auto simp: sizing_ok_def item_ok_def item_sizing_def)

lemma combine_sizing_ok:
  assumes "combine_sizing gid lay sp sizes = Inr s" and "list_all sizing_ok sizes"
  shows "sizing_ok s"
proof -
  let ?cs = "filter (\<lambda>c. 0 < maximum c) sizes"
  have ok: "\<And>c. c \<in> set ?cs \<Longrightarrow> minimum c \<le> preferred c \<and> preferred c \<le> maximum c"
    using assms(2) by (auto simp: list_all_iff sizing_ok_def)
  have "sum_list (map minimum ?cs) \<le> sum_list (map preferred ?cs)"
    "sum_list (map preferred ?cs) \<le> sum_list (map maximum ?cs)"
    using ok by (auto intro!: sum_list_mono)
  then show ?thesis
    using assms(1) unfolding combine_sizing_def Let_def sizing_ok_def
    by (auto simp: fixed_sizing_def split: if_splits group_layout.splits)
qed

lemma group_sizing_ok:
  "group_element_ok e \<Longrightarrow> \<exists>s. group_element_sizing e = Inr s \<and> sizing_ok s"
  "group_ok g \<Longrightarrow> \<exists>s. group_sizing g = Inr s \<and> sizing_ok s"
proof (induction e and g)
  case (GroupSpec gid es lay sp vp cp)
  from GroupSpec.prems obtain s where s: "group_sizing (GroupSpec gid es lay sp vp cp) = Inr s"
    by (auto simp del: group_sizing.simps)
  then obtain sizes where sizes: "rmap_list group_element_sizing es = Inr sizes"
    "combine_sizing gid lay sp sizes = Inr s"
    by auto
  have "list_all sizing_ok sizes"
    using GroupSpec rmap_list_memb' [OF sizes(1)]
    by (fastforce simp: list_all_iff simp del: group_sizing.simps)
  then show ?case using s sizes(2) combine_sizing_ok by blast
qed (auto simp: sizing_ok_item)

lemma element_sizing_ok:
  "element_ok el \<Longrightarrow> \<exists>s. element_sizing el = Inr s \<and> sizing_ok s"
  by (cases el) (auto simp: sizing_ok_item group_sizing_ok)

text \<open>A group whose maximum is zero has no visible content, and no item.\<close>

lemma combine_sizing_zero:
  assumes "combine_sizing gid lay sp sizes = Inr s"
  shows "maximum s = 0 \<longleftrightarrow> (\<forall>c\<in>set sizes. maximum c = 0)"
proof (cases "filter (\<lambda>c. 0 < maximum c) sizes")
  case Nil
  then show ?thesis
    using assms by (auto simp: combine_sizing_def fixed_sizing_def filter_empty_conv)
next
  case (Cons c cs)
  let ?cs = "filter (\<lambda>c. 0 < maximum c) sizes"
  have c: "c \<in> set sizes" "0 < maximum c"
    using Cons filter_set [of "\<lambda>c. 0 < maximum c" sizes] by (auto simp: filter_eq_Cons_iff)
  have "Min (set (map maximum ?cs)) \<in> set (map maximum ?cs)"
    using Cons by (intro Min_in) auto
  then have mn: "0 < Min (set (map maximum ?cs))" by auto
  have sm: "0 < sum_list (map maximum ?cs)" using Cons c(2) by simp
  have ln: "0 < length ?cs" using Cons by simp
  have "0 < maximum s"
    using assms mn sm ln Cons unfolding combine_sizing_def Let_def
    by (auto split: if_splits group_layout.splits)
  then show ?thesis using c by auto
qed

lemma zero_group_empty:
  "group_element_ok e \<Longrightarrow> group_element_sizing e = Inr s \<Longrightarrow> maximum s = 0 \<Longrightarrow>
     group_element_ids e = []"
  "group_ok g \<Longrightarrow> group_sizing g = Inr s \<Longrightarrow> maximum s = 0 \<Longrightarrow> collect_group_item_ids g = []"
proof (induction e and g arbitrary: s and s)
  case (GroupSpec gid es lay sp vp cp)
  from GroupSpec.prems(2) obtain sizes where sizes:
    "rmap_list group_element_sizing es = Inr sizes" "combine_sizing gid lay sp sizes = Inr s"
    by auto
  have z: "\<forall>c\<in>set sizes. maximum c = 0"
    using combine_sizing_zero [OF sizes(2)] GroupSpec.prems(3) by simp
  have "group_element_ids e = []" if e: "e \<in> set es" for e
  proof -
    obtain c where "c \<in> set sizes" "group_element_sizing e = Inr c"
      using rmap_list_memb [OF sizes(1) e] by blast
    moreover have "group_element_ok e"
      using GroupSpec.prems(1) e by (auto simp: list_all_iff)
    ultimately show ?thesis using GroupSpec.IH e z by blast
  qed
  then show ?case by simp
qed (auto dest: sizing_ok_item)

section \<open>Size bound\<close>

fun group_element_extent :: "group_element \<Rightarrow> nat"
and group_extent :: "group_spec \<Rightarrow> nat" where
  "group_element_extent (GItem it) = max_width it"
| "group_element_extent (GGroup g) = group_extent g"
| "group_extent (GroupSpec gid es lay sp vp cp) =
     sum_list (map group_element_extent es) + sp * (length es - 1)"

lemma combine_sizing_bound:
  assumes "combine_sizing gid lay sp sizes = Inr s"
  shows "maximum s \<le> sum_list (map maximum sizes) + sp * (length sizes - 1)"
proof -
  let ?cs = "filter (\<lambda>c. 0 < maximum c) sizes"
  have sum: "sum_list (map maximum ?cs) = sum_list (map maximum sizes)"
    by (induction sizes) auto
  have gaps: "sp * (length ?cs - 1) \<le> sp * (length sizes - 1)"
    by (intro mult_le_mono2 diff_le_mono length_filter_le)
  have "Min (set (map maximum ?cs)) * length ?cs \<le> sum_list (map maximum ?cs)"
    using sum_list_mono [of ?cs "\<lambda>_. Min (set (map maximum ?cs))" maximum]
    by (simp add: sum_list_triv mult.commute)
  then show ?thesis
    using assms sum gaps unfolding combine_sizing_def Let_def
    by (auto simp: fixed_sizing_def intro!: add_le_mono split: if_splits group_layout.splits)
qed

lemma group_sizing_bound:
  "group_element_sizing e = Inr s \<Longrightarrow> maximum s \<le> group_element_extent e"
  "group_sizing g = Inr s \<Longrightarrow> maximum s \<le> group_extent g"
proof (induction e and g arbitrary: s and s)
  case (GroupSpec gid es lay sp vp cp)
  then obtain sizes where sizes:
    "rmap_list group_element_sizing es = Inr sizes" "combine_sizing gid lay sp sizes = Inr s"
    by auto
  have len: "length sizes = length es" using rmap_list_length [OF sizes(1)] .
  have "sum_list (map maximum sizes) \<le> sum_list (map group_element_extent es)"
    using GroupSpec.IH rmap_list_nth [OF sizes(1)] len
    by (intro sum_list_pointwise_le) auto
  then show ?case using combine_sizing_bound [OF sizes(2)] len by simp
qed (auto simp: item_sizing_def)

end
