(* ===== verification/Layout_Group.thy ===== *)
theory Layout_Group
  imports Layout_Sizing "HOL-Library.Product_Lexorder"
begin

text \<open>
  How \<^verbatim>\<open>touchbar-layout\<close> fills a group: compression of children by priority, growth of
  children up to their maximum (\<open>grow_widths\<close>, a loop whose termination is proved), the equal
  split, and the recursive placement \<open>layout_group\<close>.

  Every \<^verbatim>\<open>expect\<close>, \<^verbatim>\<open>debug_assert\<close> and underflowing subtraction of these functions is a
  \<open>None\<close> branch.  The lemmas show that none is reached on validated content whose width lies
  between the group's minimum and maximum, and that the children then fill the group exactly.
\<close>

section \<open>Data\<close>

record placement =
  pl_id :: item_id
  pl_x :: nat
  pl_width :: nat

definition u32_try_from :: "nat \<Rightarrow> nat option" where
  "u32_try_from n = (if n \<le> u32_max then Some n else None)"

definition expect_ok :: "('e, 'a) result \<Rightarrow> 'a option" where
  "expect_ok r = (case r of Inl _ \<Rightarrow> None | Inr a \<Rightarrow> Some a)"

section \<open>Widths of the children\<close>

text \<open>The compression loop of \<^verbatim>\<open>natural_child_widths\<close>: it stops as soon as nothing is left to
  take away.\<close>

primrec compress_children ::
  "(int \<times> nat) list \<Rightarrow> sizing list \<Rightarrow> nat list \<Rightarrow> nat \<Rightarrow> (nat list \<times> nat) option" where
  "compress_children [] sz ws excess = Some (ws, excess)"
| "compress_children (c # cs) sz ws excess =
     do { let i = snd c;
           slack \<leftarrow> csub (ws ! i) (minimum (sz ! i));
          let reduction = min slack excess in
          let ws' = ws[i := ws ! i - reduction] in
          let excess' = excess - reduction in
          (if excess' = 0 then Some (ws', excess') else compress_children cs sz ws' excess') }"

text \<open>One round of \<^verbatim>\<open>grow_widths\<close>: every growable child gets at most \<open>share\<close>.\<close>

primrec grow_round ::
  "nat list \<Rightarrow> sizing list \<Rightarrow> nat \<Rightarrow> nat \<Rightarrow> nat list \<Rightarrow> nat \<Rightarrow> (nat list \<times> nat) option" where
  "grow_round [] sz share extra ws assigned = Some (ws, assigned)"
| "grow_round (i # idxs) sz share extra ws assigned =
     do { room \<leftarrow> csub (maximum (sz ! i)) (ws ! i);
          left \<leftarrow> csub extra assigned;
          let addition = min (min room share) left in
          let ws' = ws[i := ws ! i + addition] in
          let assigned' = assigned + addition in
          (if assigned' = extra then Some (ws', assigned')
           else grow_round idxs sz share extra ws' assigned') }"

definition growable :: "nat list \<Rightarrow> sizing list \<Rightarrow> nat list" where
  "growable ws sz = filter (\<lambda>i. ws ! i < maximum (sz ! i)) [0..<min (length ws) (length sz)]"

function grow_widths :: "nat list \<Rightarrow> sizing list \<Rightarrow> nat \<Rightarrow> nat list option" where
  "grow_widths ws sz extra =
     (if 0 < extra then
        let gs = growable ws sz in
        if gs = [] then do { passert (extra = 0); Some ws }
        else
          do { (ws', assigned) \<leftarrow> grow_round gs sz (max (extra div length gs) 1) extra ws 0;
               (if 0 < assigned then
                  (if assigned \<le> extra then grow_widths ws' sz (extra - assigned) else None)
                else None) }
      else Some ws)"
  by pat_completeness auto

termination by (relation "measure (\<lambda>(ws, sz, extra). extra)") auto

fun group_element_compression_priority :: "group_element \<Rightarrow> int" where
  "group_element_compression_priority (GItem it) = item_compression_priority it"
| "group_element_compression_priority (GGroup g) = group_compression_priority g"

text \<open>Lowest priority first and, among equals, the last element first.\<close>

definition compression_order :: "(int \<times> nat) list \<Rightarrow> (int \<times> nat) list" where
  "compression_order cs = sort_key (\<lambda>(p, i). (p, - int i)) cs"

definition natural_child_widths :: "group_element list \<Rightarrow> nat \<Rightarrow> nat list option" where
  "natural_child_widths es content =
     do { sz \<leftarrow> expect_ok (rmap_list group_element_sizing es);
          let ws = map preferred sz in
          let pref = sum_list ws in
          (if content < pref then
             do { (ws', excess) \<leftarrow>
                    compress_children
                      (compression_order
                        (map (\<lambda>(i, e). (group_element_compression_priority e, i)) (enumerate 0 es)))
                      sz ws (pref - content);
                  passert (excess = 0);
                  Some ws' }
           else if content > pref then grow_widths ws sz (content - pref)
           else Some ws) }"

definition equal_child_widths :: "nat \<Rightarrow> nat \<Rightarrow> nat list" where
  "equal_child_widths n content =
     map (\<lambda>i. content div n + (if i < content mod n then 1 else 0)) [0..<n]"

section \<open>Placement\<close>

text \<open>The loop at the end of \<^verbatim>\<open>layout_group\<close>; \<open>place\<close> lays one child out at a position.\<close>

fun place_children ::
  "('a \<Rightarrow> nat \<Rightarrow> nat \<Rightarrow> placement list option) \<Rightarrow> nat \<Rightarrow> nat \<Rightarrow> ('a \<times> nat) list \<Rightarrow>
   placement list option" where
  "place_children place sp x [] = Some []"
| "place_children place sp x ((e, w) # ews) =
     do { ps \<leftarrow> place e x w;
          qs \<leftarrow> place_children place sp (x + (w + sp)) ews;
          Some (ps @ qs) }"

lemma place_children_cong [fundef_cong]:
  assumes "sp = sp'" and "x = x'" and "ews = ews'"
    and "\<And>e w y. (e, w) \<in> set ews' \<Longrightarrow> f e y w = g e y w"
  shows "place_children f sp x ews = place_children g sp' x' ews'"
  using assms(4) unfolding assms(1-3)
proof (induction ews' arbitrary: x')
  case (Cons ew ews)
  then show ?case by (cases ew) (simp add: Cons.IH [OF Cons.prems])
qed simp

definition place_item :: "item_spec \<Rightarrow> nat \<Rightarrow> nat \<Rightarrow> placement list option" where
  "place_item it x w =
     do { x32 \<leftarrow> u32_try_from x;
          w32 \<leftarrow> u32_try_from w;
          Some [\<lparr>pl_id = item_id it, pl_x = x32, pl_width = w32\<rparr>] }"

text \<open>The children that take part in the layout, with the \<^verbatim>\<open>expect\<close> on their sizing.\<close>

definition active_children :: "group_element list \<Rightarrow> group_element list option" where
  "active_children es =
     do { sz \<leftarrow> expect_ok (rmap_list group_element_sizing es);
          Some (map fst (filter (\<lambda>(e, s). 0 < maximum s) (zip es sz))) }"

lemma active_children_subset: "active_children es = Some act \<Longrightarrow> set act \<subseteq> set es"
  by (auto simp: active_children_def expect_ok_def bind_eq_Some_conv
      split: sum.splits) (meson set_zip_leftD)

function (sequential) layout_group_element :: "group_element \<Rightarrow> nat \<Rightarrow> nat \<Rightarrow> placement list option"
and layout_group :: "group_spec \<Rightarrow> nat \<Rightarrow> nat \<Rightarrow> placement list option" where
  "layout_group_element (GItem it) x w = place_item it x w"
| "layout_group_element (GGroup g) x w = layout_group g x w"
| "layout_group (GroupSpec gid es lay sp vp cp) x w =
     (case active_children es of
        None \<Rightarrow> None
      | Some active \<Rightarrow>
          if active = [] then Some []
          else
            do { content \<leftarrow> csub w (sp * (length active - 1));
                 ws \<leftarrow> (case lay of
                         Natural \<Rightarrow> natural_child_widths active content
                       | EqualWidth \<Rightarrow> Some (equal_child_widths (length active) content));
                 place_children layout_group_element sp x (zip active ws) })"
  by pat_completeness auto

termination
proof (relation "measure (\<lambda>p. case p of Inl (e, x, w) \<Rightarrow> size e | Inr (g, x, w) \<Rightarrow> size g)", goal_cases)
  case (3 gid es lay sp vp cp x w active content ws e w' y)
  then have "e \<in> set es"
    using active_children_subset [of es active] by (auto dest: set_zip_leftD)
  then have "size e \<le> size_list size es"
    by (simp add: size_list_estimation')
  then show ?case by simp
qed auto

section \<open>Compression\<close>

text \<open>The compression loop of \<^verbatim>\<open>compress_to_fit\<close>, which tests for completion before each
  candidate; it agrees with the loop of \<^verbatim>\<open>natural_child_widths\<close>, which tests after.\<close>

primrec compress_loop ::
  "(int \<times> nat \<times> nat) list \<Rightarrow> nat list \<Rightarrow> nat \<Rightarrow> (nat list \<times> nat) option" where
  "compress_loop [] ws excess = Some (ws, excess)"
| "compress_loop (c # cs) ws excess =
     (if excess = 0 then Some (ws, excess)
      else
        do { let i = fst (snd c);
             slack \<leftarrow> csub (ws ! i) (snd (snd c));
             let reduction = min slack excess;
             compress_loop cs (ws[i := ws ! i - reduction]) (excess - reduction) })"

lemma compress_loop_done [simp]: "compress_loop cs ws 0 = Some (ws, 0)"
  by (cases cs) auto

lemma compress_children_loop:
  "0 < excess \<Longrightarrow> compress_children cs sz ws excess =
     compress_loop (map (\<lambda>(p, i). (p, i, minimum (sz ! i))) cs) ws excess"
proof (induction cs arbitrary: ws excess)
  case (Cons c cs)
  then show ?case
    by (cases c) (auto simp: Let_def intro!: Option.bind_cong)
qed simp

lemma compress_loop_spec:
  assumes "\<forall>(p, i, m)\<in>set cs. i < length ws \<and> m = mn i \<and> mn i \<le> ws ! i"
  shows "\<exists>ws' excess'. compress_loop cs ws excess = Some (ws', excess')
    \<and> length ws' = length ws
    \<and> (\<forall>j<length ws. ws' ! j \<le> ws ! j \<and> (mn j \<le> ws ! j \<longrightarrow> mn j \<le> ws' ! j))
    \<and> (\<forall>j. j \<notin> (\<lambda>(p, i, m). i) ` set cs \<longrightarrow> ws' ! j = ws ! j)
    \<and> sum_list ws' + excess = sum_list ws + excess'
    \<and> (excess' = 0 \<or> (\<forall>(p, i, m)\<in>set cs. ws' ! i = mn i))"
  using assms
proof (induction cs arbitrary: ws excess)
  case (Cons c cs)
  show ?case
  proof (cases "excess = 0")
    case False
    obtain p i m where c: "c = (p, i, m)" by (cases c)
    have i: "i < length ws" "m = mn i" "mn i \<le> ws ! i" using Cons.prems c by auto
    define r where "r = min (ws ! i - mn i) excess"
    let ?ws = "ws[i := ws ! i - r]"
    have r: "r \<le> ws ! i - mn i" "r \<le> excess" by (auto simp: r_def)
    have step: "compress_loop (c # cs) ws excess = compress_loop cs ?ws (excess - r)"
      using False i c by (simp add: r_def Let_def)
    have pre: "\<forall>(p, i, m)\<in>set cs. i < length ?ws \<and> m = mn i \<and> mn i \<le> ?ws ! i"
      using Cons.prems i r by (fastforce simp: nth_list_update)
    obtain ws' e' where IH: "compress_loop cs ?ws (excess - r) = Some (ws', e')"
      "length ws' = length ?ws"
      "\<forall>j<length ?ws. ws' ! j \<le> ?ws ! j \<and> (mn j \<le> ?ws ! j \<longrightarrow> mn j \<le> ws' ! j)"
      "\<forall>j. j \<notin> (\<lambda>(p, i, m). i) ` set cs \<longrightarrow> ws' ! j = ?ws ! j"
      "sum_list ws' + (excess - r) = sum_list ?ws + e'"
      "e' = 0 \<or> (\<forall>(p, i, m)\<in>set cs. ws' ! i = mn i)"
      using Cons.IH [OF pre, of "excess - r"] by blast
    have sum: "sum_list ?ws = sum_list ws - r" "r \<le> sum_list ws"
      using sum_list_update_minus [OF i(1), of r] nth_le_sum_list [OF i(1)] r i(3) by auto
    have bounds: "ws' ! j \<le> ws ! j \<and> (mn j \<le> ws ! j \<longrightarrow> mn j \<le> ws' ! j)"
      if "j < length ws" for j
      using IH(3) that r i by (cases "j = i") (auto simp: nth_list_update intro: le_trans)
    have last: "e' = 0 \<or> ws' ! i = mn i"
    proof (cases "r = excess")
      case True
      then have "compress_loop cs ?ws (excess - r) = Some (?ws, 0)" by simp
      then show ?thesis using IH(1) by simp
    next
      case False
      then have "r = ws ! i - mn i" by (auto simp: r_def)
      then have "ws' ! i \<le> mn i" using IH(3) i by auto
      then show ?thesis using bounds [OF i(1)] i(3) by auto
    qed
    show ?thesis
      unfolding step using IH sum r bounds last c i(1) by (auto simp: image_iff)
  qed (use Cons.prems in simp)
qed simp

lemma compression_order_set [simp]: "set (compression_order cs) = set cs"
  by (simp add: compression_order_def)

section \<open>Growth\<close>

declare grow_widths.simps [simp del]

definition le_max :: "nat list \<Rightarrow> sizing list \<Rightarrow> bool" where
  "le_max ws sz \<longleftrightarrow> length ws = length sz \<and> (\<forall>j<length ws. ws ! j \<le> maximum (sz ! j))"

lemma le_max_update:
  "le_max ws sz \<Longrightarrow> i < length ws \<Longrightarrow> d \<le> maximum (sz ! i) - ws ! i \<Longrightarrow>
     le_max (ws[i := ws ! i + d]) sz"
  unfolding le_max_def by (auto simp: nth_list_update)

lemma grow_round_spec:
  assumes "le_max ws sz" and "assigned \<le> extra" and "\<forall>i\<in>set idxs. i < length ws"
  shows "\<exists>ws' assigned'. grow_round idxs sz share extra ws assigned = Some (ws', assigned')
    \<and> le_max ws' sz \<and> assigned \<le> assigned' \<and> assigned' \<le> extra
    \<and> (\<forall>j<length ws. ws ! j \<le> ws' ! j)
    \<and> sum_list ws' + assigned = sum_list ws + assigned'
    \<and> (idxs \<noteq> [] \<and> ws ! hd idxs < maximum (sz ! hd idxs) \<and> 0 < share \<and> assigned < extra
         \<longrightarrow> assigned < assigned')"
  using assms
proof (induction idxs arbitrary: ws assigned)
  case (Cons i idxs)
  define d where "d = min (min (maximum (sz ! i) - ws ! i) share) (extra - assigned)"
  let ?ws = "ws[i := ws ! i + d]"
  have i: "i < length ws" "ws ! i \<le> maximum (sz ! i)"
    using Cons.prems by (auto simp: le_max_def)
  have le: "le_max ?ws sz" using Cons.prems(1) i(1) by (rule le_max_update) (simp add: d_def)
  have ex: "assigned + d \<le> extra" using Cons.prems(2) by (auto simp: d_def)
  have sum: "sum_list ?ws = sum_list ws + d" using i(1) by (rule sum_list_update_plus)
  have mono: "\<forall>j<length ws. ws ! j \<le> ?ws ! j" using i(1) by (auto simp: nth_list_update)
  have pos: "ws ! i < maximum (sz ! i) \<and> 0 < share \<and> assigned < extra \<longrightarrow> 0 < d"
    by (auto simp: d_def)
  have step: "grow_round (i # idxs) sz share extra ws assigned =
    (if assigned + d = extra then Some (?ws, assigned + d)
     else grow_round idxs sz share extra ?ws (assigned + d))"
    using i Cons.prems(2) by (simp add: d_def Let_def)
  show ?case
  proof (cases "assigned + d = extra")
    case True
    then show ?thesis unfolding step using le ex sum mono pos by auto
  next
    case False
    have "\<forall>i\<in>set idxs. i < length ?ws" using Cons.prems(3) by simp
    then obtain ws' a' where IH: "grow_round idxs sz share extra ?ws (assigned + d) = Some (ws', a')"
      "le_max ws' sz" "assigned + d \<le> a'" "a' \<le> extra" "\<forall>j<length ?ws. ?ws ! j \<le> ws' ! j"
      "sum_list ws' + (assigned + d) = sum_list ?ws + a'"
      using Cons.IH [OF le ex] by blast
    have "\<forall>j<length ws. ws ! j \<le> ws' ! j"
      using mono IH(5) by (metis length_list_update order_trans)
    then show ?thesis unfolding step using False IH sum pos by auto
  qed
qed simp

lemma growable_empty:
  assumes "le_max ws sz" and "growable ws sz = []"
  shows "sum_list ws = sum_list (map maximum sz)"
proof -
  have "ws ! i = map maximum sz ! i" if "i < length ws" for i
  proof -
    have "i \<in> set [0..<min (length ws) (length sz)]"
      using assms(1) that by (simp add: le_max_def)
    then have "\<not> ws ! i < maximum (sz ! i)"
      using assms(2) unfolding growable_def filter_empty_conv by blast
    then show ?thesis using assms(1) that by (auto simp: le_max_def intro: le_antisym)
  qed
  then have "ws = map maximum sz" using assms(1) by (intro nth_equalityI) (auto simp: le_max_def)
  then show ?thesis by simp
qed

lemma grow_widths_spec:
  assumes "le_max ws sz" and "sum_list ws + extra \<le> sum_list (map maximum sz)"
  shows "\<exists>ws'. grow_widths ws sz extra = Some ws' \<and> le_max ws' sz
    \<and> (\<forall>j<length ws. ws ! j \<le> ws' ! j) \<and> sum_list ws' = sum_list ws + extra"
  using assms
proof (induction extra arbitrary: ws rule: less_induct)
  case (less extra)
  show ?case
  proof (cases "extra = 0")
    case True
    then show ?thesis using less.prems by (subst grow_widths.simps) simp
  next
    case False
    let ?gs = "growable ws sz"
    have ne: "?gs \<noteq> []" using growable_empty [OF less.prems(1)] less.prems(2) False by auto
    then have hd: "hd ?gs \<in> set ?gs" by simp
    have gs: "\<forall>i\<in>set ?gs. i < length ws \<and> ws ! i < maximum (sz ! i)"
      by (auto simp: growable_def)
    define share where "share = max (extra div length ?gs) 1"
    obtain ws1 a where r: "grow_round ?gs sz share extra ws 0 = Some (ws1, a)"
      "le_max ws1 sz" "a \<le> extra" "\<forall>j<length ws. ws ! j \<le> ws1 ! j"
      "sum_list ws1 = sum_list ws + a" "0 < a"
      using grow_round_spec [OF less.prems(1), of 0 extra ?gs share] gs ne hd False
      by (auto simp: share_def)
    have "sum_list ws1 + (extra - a) \<le> sum_list (map maximum sz)"
      using r less.prems(2) by simp
    then obtain ws' where ws': "grow_widths ws1 sz (extra - a) = Some ws'" "le_max ws' sz"
      "\<forall>j<length ws1. ws1 ! j \<le> ws' ! j" "sum_list ws' = sum_list ws1 + (extra - a)"
      using less.IH [of "extra - a" ws1] r False by auto
    have "grow_widths ws sz extra = Some ws'"
      using False ne r ws'(1) by (subst grow_widths.simps) (simp add: share_def Let_def)
    moreover have "\<forall>j<length ws. ws ! j \<le> ws' ! j"
      using r ws' less.prems(1) unfolding le_max_def by (metis order_trans)
    ultimately show ?thesis using ws' r by auto
  qed
qed

section \<open>Children fill their group\<close>

definition within_sizing :: "nat list \<Rightarrow> sizing list \<Rightarrow> bool" where
  "within_sizing ws sz \<longleftrightarrow> list_all2 (\<lambda>w s. minimum s \<le> w \<and> w \<le> maximum s) ws sz"

lemma within_sizingI:
  "length ws = length sz \<Longrightarrow>
   (\<And>i. i < length sz \<Longrightarrow> minimum (sz ! i) \<le> ws ! i \<and> ws ! i \<le> maximum (sz ! i)) \<Longrightarrow>
   within_sizing ws sz"
  by (simp add: within_sizing_def list_all2_conv_all_nth)

lemma compress_children_fit:
  assumes sz: "list_all sizing_ok sz"
    and cs: "(\<lambda>(p, i). i) ` set cs = {0..<length sz}"
    and lo: "sum_list (map minimum sz) \<le> content" and hi: "content < sum_list (map preferred sz)"
  shows "\<exists>ws. compress_children cs sz (map preferred sz) (sum_list (map preferred sz) - content)
      = Some (ws, 0) \<and> within_sizing ws sz \<and> sum_list ws = content"
proof -
  let ?ws = "map preferred sz" and ?mn = "\<lambda>i. minimum (sz ! i)"
  let ?cs = "map (\<lambda>(p, i). (p, i, minimum (sz ! i))) cs"
  have ok: "?mn i \<le> ?ws ! i \<and> ?ws ! i \<le> maximum (sz ! i)" if "i < length sz" for i
    using sz that by (auto simp: list_all_length sizing_ok_def)
  have idx: "(\<lambda>(p, i, m). i) ` set ?cs = {0..<length sz}"
    using cs by (simp add: image_image case_prod_beta)
  have "\<forall>(p, i, m)\<in>set ?cs. i < length ?ws \<and> m = ?mn i \<and> ?mn i \<le> ?ws ! i"
  proof clarsimp
    fix p i assume "(p, i) \<in> set cs"
    then have "i < length sz" using cs by force
    then show "i < length sz \<and> minimum (sz ! i) \<le> map preferred sz ! i" using ok by auto
  qed
  from compress_loop_spec [OF this, of "sum_list ?ws - content"]
  obtain ws ex where loop: "compress_loop ?cs ?ws (sum_list ?ws - content) = Some (ws, ex)"
    "length ws = length ?ws"
    "\<forall>j<length ?ws. ws ! j \<le> ?ws ! j \<and> (?mn j \<le> ?ws ! j \<longrightarrow> ?mn j \<le> ws ! j)"
    "sum_list ws + (sum_list ?ws - content) = sum_list ?ws + ex"
    "ex = 0 \<or> (\<forall>(p, i, m)\<in>set ?cs. ws ! i = ?mn i)"
    by blast
  have "ex = 0"
  proof (rule ccontr)
    assume "ex \<noteq> 0"
    then have "ws ! i = map minimum sz ! i" if "i < length sz" for i
      using loop(5) idx that by fastforce
    then have "ws = map minimum sz" using loop(2) by (intro nth_equalityI) auto
    then show False using loop(4) lo hi \<open>ex \<noteq> 0\<close> by simp
  qed
  moreover have "within_sizing ws sz"
    using loop(2,3) ok by (intro within_sizingI) (auto intro: le_trans)
  ultimately show ?thesis
    using loop hi by (auto simp: compress_children_loop)
qed

lemma enumerate_indices: "(\<lambda>(p, i). i) ` (\<lambda>(i, e). (f e, i)) ` set (enumerate 0 xs) = {0..<length xs}"
proof -
  have "(\<lambda>(p, i). i) ` (\<lambda>(i, e). (f e, i)) ` set (enumerate 0 xs) = set (map fst (enumerate 0 xs))"
    by (simp add: image_image case_prod_beta del: map_fst_enumerate)
  then show ?thesis by simp
qed

lemma natural_child_widths_fit:
  assumes sz: "rmap_list group_element_sizing es = Inr sz" "list_all sizing_ok sz"
    and lo: "sum_list (map minimum sz) \<le> content" and hi: "content \<le> sum_list (map maximum sz)"
  shows "\<exists>ws. natural_child_widths es content = Some ws \<and> within_sizing ws sz \<and> sum_list ws = content"
proof (cases "content < sum_list (map preferred sz)")
  case True
  let ?cs = "compression_order
    (map (\<lambda>(i, e). (group_element_compression_priority e, i)) (enumerate 0 es))"
  have "(\<lambda>(p, i). i) ` set ?cs = {0..<length sz}"
    using enumerate_indices [of group_element_compression_priority es] rmap_list_length [OF sz(1)]
    by simp
  from compress_children_fit [OF sz(2) this lo True] sz(1) True show ?thesis
    by (auto simp: natural_child_widths_def expect_ok_def)
next
  case False
  have pref: "le_max (map preferred sz) sz"
    using sz(2) by (auto simp: le_max_def list_all_length sizing_ok_def)
  have "sum_list (map preferred sz) + (content - sum_list (map preferred sz)) \<le> sum_list (map maximum sz)"
    using hi False by simp
  from grow_widths_spec [OF pref this] obtain ws where
    ws: "grow_widths (map preferred sz) sz (content - sum_list (map preferred sz)) = Some ws"
    "le_max ws sz" "\<forall>j<length sz. preferred (sz ! j) \<le> ws ! j" "sum_list ws = content"
    using False by auto
  have "within_sizing ws sz"
    using ws sz(2) by (intro within_sizingI) (auto simp: le_max_def list_all_length sizing_ok_def intro: le_trans)
  moreover have "natural_child_widths es content = Some ws"
    using sz(1) False ws(1) by (auto simp: natural_child_widths_def expect_ok_def Let_def grow_widths.simps)
  ultimately show ?thesis using ws(4) by blast
qed

lemma sum_list_equal_split:
  "sum_list (map (\<lambda>i. b + (if i < r then 1 else 0)) [0..<n]) = n * b + min n r" for b r :: nat
  by (induction n) auto

lemma equal_child_widths_sum: "0 < n \<Longrightarrow> sum_list (equal_child_widths n content) = content"
  by (simp add: equal_child_widths_def sum_list_equal_split min_absorb2 less_imp_le)

lemma equal_child_widths_bounds:
  assumes "lo * n \<le> content" and "content \<le> hi * n" and "w \<in> set (equal_child_widths n content)"
  shows "lo \<le> w \<and> w \<le> hi"
proof -
  from assms(3) obtain i where i: "i < n"
    "w = content div n + (if i < content mod n then 1 else 0)"
    by (auto simp: equal_child_widths_def)
  have lo: "lo \<le> content div n"
    using assms(1) i(1) by (simp add: less_eq_div_iff_mult_less_eq)
  have "content div n < hi" if "0 < content mod n"
  proof -
    have "content div n * n < content"
      using that div_mult_mod_eq [of content n] by linarith
    then show ?thesis using assms(2) mult_less_cancel2 [of "content div n" n hi] by linarith
  qed
  moreover have "content div n \<le> hi"
    using div_le_mono [OF assms(2), of n] i(1) by simp
  ultimately show ?thesis using lo i by auto
qed

section \<open>Placements of a group\<close>

text \<open>Placements from left to right without overlap, between \<open>lo\<close> and \<open>hi\<close>.\<close>

fun placed_within :: "nat \<Rightarrow> nat \<Rightarrow> placement list \<Rightarrow> bool" where
  "placed_within lo hi [] \<longleftrightarrow> lo \<le> hi"
| "placed_within lo hi (p # ps) \<longleftrightarrow> lo \<le> pl_x p \<and> placed_within (pl_x p + pl_width p) hi ps"

lemma placed_within_le: "placed_within lo hi ps \<Longrightarrow> lo \<le> hi"
  by (induction ps arbitrary: lo) fastforce+

lemma placed_within_mono: "placed_within lo hi ps \<Longrightarrow> lo' \<le> lo \<Longrightarrow> hi \<le> hi' \<Longrightarrow> placed_within lo' hi' ps"
  by (induction ps arbitrary: lo lo') auto

lemma placed_within_append:
  "placed_within lo mid ps \<Longrightarrow> placed_within mid hi qs \<Longrightarrow> placed_within lo hi (ps @ qs)"
  by (induction ps arbitrary: lo) (auto elim: placed_within_mono)

lemma placed_within_bounds:
  "placed_within lo hi ps \<Longrightarrow> p \<in> set ps \<Longrightarrow> lo \<le> pl_x p \<and> pl_x p + pl_width p \<le> hi"
  by (induction ps arbitrary: lo) (fastforce dest: placed_within_le)+

fun group_element_items :: "group_element \<Rightarrow> item_spec list"
and group_items :: "group_spec \<Rightarrow> item_spec list" where
  "group_element_items (GItem it) = [it]"
| "group_element_items (GGroup g) = group_items g"
| "group_items (GroupSpec gid es lay sp vp cp) = concat (map group_element_items es)"

lemma group_ids_items:
  "group_element_ids e = map item_id (group_element_items e)"
  "collect_group_item_ids g = map item_id (group_items g)"
  by (induction e and g) (auto simp: map_concat intro!: arg_cong [where f = concat])

text \<open>A placement of an item: its identifier and a width the item accepts.\<close>

definition fits_item :: "placement \<Rightarrow> item_spec \<Rightarrow> bool" where
  "fits_item p it \<longleftrightarrow> pl_id p = item_id it \<and> min_width it \<le> pl_width p \<and> pl_width p \<le> max_width it"

lemma fits_items_ids: "list_all2 fits_item ps its \<Longrightarrow> map pl_id ps = map item_id its"
  by (induction rule: list_all2_induct) (auto simp: fits_item_def)

text \<open>What a client may rely on when it lays one child out in a width the child accepts.\<close>

definition places ::
  "('a \<Rightarrow> nat \<Rightarrow> nat \<Rightarrow> placement list option) \<Rightarrow> 'a \<Rightarrow> item_spec list \<Rightarrow> nat \<Rightarrow> bool" where
  "places place e its w \<longleftrightarrow>
     (\<forall>x. x + w \<le> u32_max \<longrightarrow>
        (\<exists>ps. place e x w = Some ps \<and> list_all2 fits_item ps its \<and> placed_within x (x + w) ps))"

lemma placesD:
  "places place e its w \<Longrightarrow> x + w \<le> u32_max \<Longrightarrow>
     \<exists>ps. place e x w = Some ps \<and> list_all2 fits_item ps its \<and> placed_within x (x + w) ps"
  by (simp add: places_def)

lemma place_item_places: "min_width it \<le> w \<Longrightarrow> w \<le> max_width it \<Longrightarrow> places place_item it [it] w"
  by (auto simp: places_def place_item_def u32_try_from_def fits_item_def)

lemma place_children_places:
  assumes "list_all2 (\<lambda>e w. places place e (items e) w) es ws" and "es \<noteq> []"
    and "x + sum_list ws + sp * (length es - 1) \<le> u32_max"
  shows "\<exists>ps. place_children place sp x (zip es ws) = Some ps
    \<and> list_all2 fits_item ps (concat (map items es))
    \<and> placed_within x (x + sum_list ws + sp * (length es - 1)) ps"
  using assms
proof (induction es ws arbitrary: x rule: list_all2_induct)
  case (Cons e es w ws)
  show ?case
  proof (cases "es = []")
    case True
    then show ?thesis
      using placesD [OF Cons.hyps(1), of x] Cons.hyps(2) Cons.prems(2) by fastforce
  next
    case False
    then have gap: "sp * (length (e # es) - 1) = sp + sp * (length es - 1)"
      by (cases es) auto
    then obtain ps where ps: "place e x w = Some ps" "list_all2 fits_item ps (items e)"
      "placed_within x (x + w) ps"
      using placesD [OF Cons.hyps(1), of x] Cons.prems(2) by auto
    have "x + (w + sp) + sum_list ws + sp * (length es - 1) \<le> u32_max"
      using Cons.prems(2) gap by simp
    from Cons.IH [OF False this] obtain qs where
      qs: "place_children place sp (x + (w + sp)) (zip es ws) = Some qs"
      "list_all2 fits_item qs (concat (map items es))"
      "placed_within (x + (w + sp)) (x + (w + sp) + sum_list ws + sp * (length es - 1)) qs"
      by blast
    have "placed_within (x + w) (x + sum_list (w # ws) + sp * (length (e # es) - 1)) qs"
      using qs(3) gap by (elim placed_within_mono) auto
    from placed_within_append [OF ps(3) this] show ?thesis
      using ps qs by (auto intro: list_all2_appendI)
  qed
qed simp

lemma active_children_exact:
  assumes "rmap_list group_element_sizing es = Inr sz" and "list_all group_element_ok es"
  shows "\<exists>act. active_children es = Some act
    \<and> rmap_list group_element_sizing act = Inr (filter (\<lambda>s. 0 < maximum s) sz)
    \<and> concat (map group_element_items act) = concat (map group_element_items es)"
proof -
  let ?act = "map fst (filter (\<lambda>(e, s). 0 < maximum s) (zip es sz))"
  have "list_all2 (\<lambda>e s. group_element_sizing e = Inr s) es sz"
    using assms(1) by (simp add: rmap_list_Inr_iff)
  then have "list_all2 (\<lambda>e s. group_element_sizing e = Inr s) ?act (filter (\<lambda>s. 0 < maximum s) sz)
    \<and> concat (map group_element_items ?act) = concat (map group_element_items es)"
    using assms(2)
  proof (induction rule: list_all2_induct)
    case (Cons e es s sz)
    have "group_element_items e = []" if "maximum s = 0"
      using zero_group_empty(1) [of e s] Cons.prems Cons.hyps(1) that
      by (simp add: group_ids_items)
    then show ?case using Cons by auto
  qed simp
  moreover have "active_children es = Some ?act"
    using assms(1) by (simp add: active_children_def expect_ok_def)
  ultimately show ?thesis unfolding rmap_list_Inr_iff by blast
qed

lemma combine_sizing_filter:
  "combine_sizing gid lay sp (filter (\<lambda>s. 0 < maximum s) sz) = combine_sizing gid lay sp sz"
  by (simp add: combine_sizing_def)

text \<open>The widths computed for the active children of a group are accepted by each child and fill
  the group up to its gaps.\<close>

lemma child_widths_fit:
  assumes sz: "rmap_list group_element_sizing act = Inr sz" "list_all sizing_ok sz"
    "list_all (\<lambda>s. 0 < maximum s) sz"
    and s: "combine_sizing gid lay sp sz = Inr s" and ne: "act \<noteq> []"
    and w: "minimum s \<le> w" "w \<le> maximum s"
  shows "\<exists>content ws. csub w (sp * (length act - 1)) = Some content
    \<and> (case lay of Natural \<Rightarrow> natural_child_widths act content
         | EqualWidth \<Rightarrow> Some (equal_child_widths (length act) content)) = Some ws
    \<and> within_sizing ws sz \<and> sum_list ws + sp * (length act - 1) = w"
proof -
  have len: "length sz = length act" using rmap_list_length [OF sz(1)] .
  then have szne: "sz \<noteq> []" using ne by auto
  have flt: "filter (\<lambda>c. 0 < maximum c) sz = sz"
    using sz(3) by (simp add: list_all_iff)
  let ?gaps = "sp * (length act - 1)"
  show ?thesis
  proof (cases lay)
    case Natural
    then have "s = \<lparr>minimum = sum_list (map minimum sz) + ?gaps,
      preferred = sum_list (map preferred sz) + ?gaps, maximum = sum_list (map maximum sz) + ?gaps\<rparr>"
      using s szne len by (simp add: combine_sizing_def flt Let_def)
    then have b: "sum_list (map minimum sz) \<le> w - ?gaps" "w - ?gaps \<le> sum_list (map maximum sz)"
      "?gaps \<le> w" using w by auto
    from natural_child_widths_fit [OF sz(1,2) b(1,2)] show ?thesis
      using b(3) Natural by auto
  next
    case EqualWidth
    let ?lo = "Max (set (map minimum sz))" and ?hi = "Min (set (map maximum sz))"
    have "minimum s = ?lo * length act + ?gaps" "maximum s = ?hi * length act + ?gaps"
      using s szne len EqualWidth by (auto simp: combine_sizing_def flt Let_def split: if_splits)
    then have b: "?lo * length act \<le> w - ?gaps" "w - ?gaps \<le> ?hi * length act" "?gaps \<le> w"
      using w by auto
    let ?ws = "equal_child_widths (length act) (w - ?gaps)"
    have "minimum (sz ! i) \<le> ?ws ! i \<and> ?ws ! i \<le> maximum (sz ! i)" if i: "i < length sz" for i
    proof -
      have "?ws ! i \<in> set ?ws" using i len by (intro nth_mem) (simp add: equal_child_widths_def)
      then have "?lo \<le> ?ws ! i \<and> ?ws ! i \<le> ?hi"
        using b(1,2) by (rule equal_child_widths_bounds [rotated 2])
      moreover have "minimum (sz ! i) \<le> ?lo" "?hi \<le> maximum (sz ! i)"
        using i by (auto intro!: Max_ge Min_le)
      ultimately show ?thesis by linarith
    qed
    then have "within_sizing ?ws sz"
      by (intro within_sizingI) (simp_all add: len equal_child_widths_def)
    moreover have "sum_list ?ws = w - ?gaps" using ne by (simp add: equal_child_widths_sum)
    ultimately show ?thesis using b(3) EqualWidth by auto
  qed
qed

lemma list_all2_weave:
  assumes "list_all2 P xs zs" and "list_all2 Q ys zs"
    and "\<And>x y z. x \<in> set xs \<Longrightarrow> P x z \<Longrightarrow> Q y z \<Longrightarrow> R x y"
  shows "list_all2 R xs ys"
  using assms by (auto simp: list_all2_conv_all_nth)

lemma layout_group_places:
  "group_element_ok e \<Longrightarrow> group_element_sizing e = Inr s \<Longrightarrow> minimum s \<le> w \<Longrightarrow> w \<le> maximum s \<Longrightarrow>
     places layout_group_element e (group_element_items e) w"
  "group_ok g \<Longrightarrow> group_sizing g = Inr s \<Longrightarrow> minimum s \<le> w \<Longrightarrow> w \<le> maximum s \<Longrightarrow>
     places layout_group g (group_items g) w"
proof (induction e and g arbitrary: s w and s w)
  case (GroupSpec gid es lay sp vp cp)
  let ?g = "GroupSpec gid es lay sp vp cp"
  from GroupSpec.prems(2) obtain sz where sz: "rmap_list group_element_sizing es = Inr sz"
    "combine_sizing gid lay sp sz = Inr s" by auto
  have okes: "list_all group_element_ok es" using GroupSpec.prems(1) by simp
  have szok: "list_all sizing_ok sz"
    using rmap_list_memb' [OF sz(1)] group_sizing_ok(1) okes by (fastforce simp: list_all_iff)
  obtain act where act: "active_children es = Some act"
    "rmap_list group_element_sizing act = Inr (filter (\<lambda>s. 0 < maximum s) sz)"
    "concat (map group_element_items act) = concat (map group_element_items es)"
    using active_children_exact [OF sz(1) okes] by blast
  show ?case
  proof (cases "act = []")
    case True
    then show ?thesis using act by (simp add: places_def)
  next
    case False
    let ?sz = "filter (\<lambda>s. 0 < maximum s) sz"
    have "list_all sizing_ok ?sz" "list_all (\<lambda>s. 0 < maximum s) ?sz"
      using szok by (auto simp: list_all_iff)
    moreover have "combine_sizing gid lay sp ?sz = Inr s" using sz(2) by (simp add: combine_sizing_filter)
    ultimately obtain content ws where ws: "csub w (sp * (length act - 1)) = Some content"
      "(case lay of Natural \<Rightarrow> natural_child_widths act content
         | EqualWidth \<Rightarrow> Some (equal_child_widths (length act) content)) = Some ws"
      "within_sizing ws ?sz" "sum_list ws + sp * (length act - 1) = w"
      using child_widths_fit [OF act(2) _ _ _ False] GroupSpec.prems(3,4) by blast
    have "list_all2 (\<lambda>e w. places layout_group_element e (group_element_items e) w) act ws"
      using act(2) [unfolded rmap_list_Inr_iff] ws(3) [unfolded within_sizing_def]
    proof (rule list_all2_weave)
      fix e w' c
      assume "e \<in> set act" and "group_element_sizing e = Inr c"
        and "minimum c \<le> w' \<and> w' \<le> maximum c"
      moreover have "group_element_ok e" "e \<in> set es"
        using \<open>e \<in> set act\<close> active_children_subset [OF act(1)] okes by (auto simp: list_all_iff)
      ultimately show "places layout_group_element e (group_element_items e) w'"
        using GroupSpec.IH by blast
    qed
    note children = place_children_places [OF this False]
    show ?thesis unfolding places_def
    proof (intro allI impI)
      fix x assume x: "x + w \<le> u32_max"
      have eq: "x + sum_list ws + sp * (length act - 1) = x + w" using ws(4) by simp
      obtain ps where "place_children layout_group_element sp x (zip act ws) = Some ps"
        "list_all2 fits_item ps (concat (map group_element_items act))" "placed_within x (x + w) ps"
        using children [of x sp] x unfolding eq by blast
      then show "\<exists>ps. layout_group ?g x w = Some ps \<and> list_all2 fits_item ps (group_items ?g)
          \<and> placed_within x (x + w) ps"
        using act(1,3) False ws(1,2) by auto
    qed
  qed
qed (auto simp: item_sizing_def places_def place_item_def u32_try_from_def fits_item_def)

end
