(* ===== verification/Layout_Resolve.thy ===== *)
theory Layout_Resolve
  imports Layout_Group
begin

text \<open>
  The top-level pass of \<^verbatim>\<open>touchbar-layout\<close>: which elements stay visible when the bar is too
  narrow (\<open>visibility_units\<close>, \<open>hide_units\<close>), how the visible ones are compressed, where flexible
  space goes, where the principal item sits, and the final placements (\<open>resolve\<close>).

  \<open>resolve\<close> returns \<open>None\<close> for a panic, \<open>Some (Inl e)\<close> for a layout error and
  \<open>Some (Inr l)\<close> for a layout.
\<close>

record resolved_layout =
  placements :: "placement list"
  hidden_items :: "item_id list"
  content_width :: nat

section \<open>Visibility\<close>

record visibility_unit =
  vu_group :: "string option"
  vu_elements :: "nat list"
  vu_priority :: int
  vu_trailing :: nat
  vu_required :: bool

fun is_content :: "element \<Rightarrow> bool" where
  "is_content (Item _) = True"
| "is_content (Group _) = True"
| "is_content (FixedSpace _) = False"
| "is_content (FlexibleSpace _ _) = False"

text \<open>The unit of the item's visibility group, if one exists already: its position.\<close>

definition find_unit :: "visibility_unit list \<Rightarrow> string option \<Rightarrow> nat option" where
  "find_unit units grp =
     (case grp of
        None \<Rightarrow> None
      | Some g \<Rightarrow> find (\<lambda>u. vu_group (units ! u) = Some g) [0..<length units])"

fun add_unit ::
  "item_id list \<Rightarrow> visibility_unit list \<Rightarrow> nat \<times> element \<Rightarrow>
   (layout_error, visibility_unit list) result" where
  "add_unit required units (i, Item it) =
     (case find_unit units (visibility_group it) of
        Some u \<Rightarrow>
          let unit = units ! u in
          if vu_priority unit \<noteq> item_visibility_priority it
          then Inl (InconsistentVisibilityGroup (the (visibility_group it)))
          else Inr (units[u := unit\<lparr>vu_elements := vu_elements unit @ [i], vu_trailing := i,
                                   vu_required := vu_required unit \<or> item_id it \<in> set required\<rparr>])
      | None \<Rightarrow>
          Inr (units @ [\<lparr>vu_group = visibility_group it, vu_elements = [i],
                         vu_priority = item_visibility_priority it, vu_trailing = i,
                         vu_required = (item_id it \<in> set required)\<rparr>]))"
| "add_unit required units (i, Group g) =
     Inr (units @ [\<lparr>vu_group = None, vu_elements = [i],
                    vu_priority = group_visibility_priority g, vu_trailing = i,
                    vu_required = group_contains_required g required\<rparr>])"
| "add_unit required units (i, FixedSpace _) = Inr units"
| "add_unit required units (i, FlexibleSpace _ _) = Inr units"

definition visibility_units ::
  "bar_spec \<Rightarrow> item_id list \<Rightarrow> (layout_error, visibility_unit list) result" where
  "visibility_units bar required =
     rfold (add_unit required) [] (enumerate 0 (bar_elements bar))"

definition unit_order :: "visibility_unit list \<Rightarrow> visibility_unit list" where
  "unit_order units = sort_key (\<lambda>u. (vu_priority u, - int (vu_trailing u))) units"

fun element_width :: "(sizing \<Rightarrow> nat) \<Rightarrow> bool \<Rightarrow> sizing \<Rightarrow> element \<Rightarrow> nat" where
  "element_width size_of vis s (Item _) = (if vis then size_of s else 0)"
| "element_width size_of vis s (Group _) = (if vis then size_of s else 0)"
| "element_width size_of vis s (FixedSpace w) = w"
| "element_width size_of vis s (FlexibleSpace w _) = w"

definition total_width :: "bar_spec \<Rightarrow> bool list \<Rightarrow> sizing list \<Rightarrow> nat" where
  "total_width bar visible sz =
     sum_list (map (\<lambda>(i, el). element_width minimum (visible ! i) (sz ! i) el)
       (enumerate 0 (bar_elements bar)))"

text \<open>The inner loop hides the elements of one unit, the outer one takes unit after unit until
  the minimum fits.\<close>

primrec hide_unit ::
  "sizing list \<Rightarrow> nat list \<Rightarrow> bool list \<Rightarrow> nat \<Rightarrow> (bool list \<times> nat) option" where
  "hide_unit sz [] visible mt = Some (visible, mt)"
| "hide_unit sz (i # idxs) visible mt =
     (if visible ! i
      then do { mt' \<leftarrow> csub mt (minimum (sz ! i)); hide_unit sz idxs (visible[i := False]) mt' }
      else hide_unit sz idxs visible mt)"

primrec hide_units ::
  "sizing list \<Rightarrow> nat \<Rightarrow> visibility_unit list \<Rightarrow> bool list \<Rightarrow> nat \<Rightarrow> (bool list \<times> nat) option" where
  "hide_units sz avail [] visible mt = Some (visible, mt)"
| "hide_units sz avail (u # us) visible mt =
     do { (visible', mt') \<leftarrow> hide_unit sz (vu_elements u) visible mt;
          (if mt' \<le> avail then Some (visible', mt') else hide_units sz avail us visible' mt') }"

section \<open>Widths\<close>

definition compression_candidates ::
  "bar_spec \<Rightarrow> bool list \<Rightarrow> sizing list \<Rightarrow> (int \<times> nat \<times> nat) list" where
  "compression_candidates bar visible sz =
     List.map_filter
       (\<lambda>(i, el). case el of
          Item it \<Rightarrow> if visible ! i then Some (item_compression_priority it, i, minimum (sz ! i)) else None
        | Group g \<Rightarrow> if visible ! i then Some (group_compression_priority g, i, minimum (sz ! i)) else None
        | _ \<Rightarrow> None)
       (enumerate 0 (bar_elements bar))"

definition compress_to_fit ::
  "bar_spec \<Rightarrow> bool list \<Rightarrow> sizing list \<Rightarrow> nat list \<Rightarrow> nat \<Rightarrow> nat list option" where
  "compress_to_fit bar visible sz ws avail =
     do { (ws', excess) \<leftarrow>
            compress_loop
              (sort_key (\<lambda>(p, i, m). (p, - int i)) (compression_candidates bar visible sz))
              ws (sum_list ws - avail);
          passert (excess = 0);
          Some ws' }"

primrec flex_loop ::
  "(nat \<times> nat) list \<Rightarrow> nat \<Rightarrow> nat \<Rightarrow> nat list \<Rightarrow> nat \<Rightarrow> nat list option" where
  "flex_loop [] total_weight extra ws assigned = Some ws"
| "flex_loop (f # fs) total_weight extra ws assigned =
     do { addition \<leftarrow> (if fs = [] then csub extra assigned
                       else Some (extra * snd f div total_weight));
          flex_loop fs total_weight extra (ws[fst f := ws ! fst f + addition])
            (assigned + addition) }"

definition flexible_spaces :: "element list \<Rightarrow> nat list \<Rightarrow> (nat \<times> nat) list" where
  "flexible_spaces els idxs =
     List.map_filter
       (\<lambda>i. case els ! i of FlexibleSpace _ weight \<Rightarrow> Some (i, weight) | _ \<Rightarrow> None) idxs"

definition distribute_flexible_space ::
  "bar_spec \<Rightarrow> nat list \<Rightarrow> nat list \<Rightarrow> nat \<Rightarrow> nat list option" where
  "distribute_flexible_space bar ws idxs extra =
     (if extra = 0 then Some ws
      else
        let flexible = flexible_spaces (bar_elements bar) idxs;
            total_weight = sum_list (map snd flexible) in
        if total_weight = 0 then Some ws
        else flex_loop flexible total_weight extra ws 0)"

section \<open>The principal item\<close>

fun layout_element :: "element \<Rightarrow> nat \<Rightarrow> nat \<Rightarrow> placement list option" where
  "layout_element (Item it) x w = place_item it x w"
| "layout_element (Group g) x w = layout_group g x w"
| "layout_element (FixedSpace _) x w = Some []"
| "layout_element (FlexibleSpace _ _) x w = Some []"

fun principal_metrics :: "element \<Rightarrow> nat \<Rightarrow> item_id \<Rightarrow> (nat \<times> nat) option option" where
  "principal_metrics (Item it) w p = Some (if item_id it = p then Some (0, w) else None)"
| "principal_metrics (Group g) w p =
     do { ps \<leftarrow> layout_group g 0 w;
          Some (map_option (\<lambda>pl. (pl_x pl, pl_width pl)) (find (\<lambda>pl. pl_id pl = p) ps)) }"
| "principal_metrics (FixedSpace _) w p = Some None"
| "principal_metrics (FlexibleSpace _ _) w p = Some None"

definition find_principal ::
  "bar_spec \<Rightarrow> bool list \<Rightarrow> nat list \<Rightarrow> (nat \<times> nat \<times> nat) option option" where
  "find_principal bar visible ws =
     (case principal_item bar of
        None \<Rightarrow> Some None
      | Some p \<Rightarrow>
          (case find (\<lambda>(i, el). visible ! i \<and> contains_item el p) (enumerate 0 (bar_elements bar)) of
             None \<Rightarrow> Some None
           | Some (i, el) \<Rightarrow>
               do { m \<leftarrow> principal_metrics el (ws ! i) p;
                    Some (map_option (\<lambda>(off, w). (i, off, w)) m) }))"

definition clamp :: "nat \<Rightarrow> nat \<Rightarrow> nat \<Rightarrow> nat option" where
  "clamp v lo hi = (if lo \<le> hi then Some (max lo (min hi v)) else None)"

text \<open>The two arms of the \<^verbatim>\<open>principal_x\<close> computation: the final widths and the fixed position
  of the principal element, if any.\<close>

definition place_principal ::
  "bar_spec \<Rightarrow> nat \<Rightarrow> nat list \<Rightarrow> nat \<times> nat \<times> nat \<Rightarrow> (nat list \<times> (nat \<times> nat) option) option" where
  "place_principal bar avail ws metrics =
     (case metrics of (p, off, pw) \<Rightarrow>
        do { let width_before = sum_list (take p ws);
             let width_after = sum_list (drop (p + 1) ws);
             room \<leftarrow> csub avail pw;
             let desired = room div 2 - off;
             rest \<leftarrow> csub avail (ws ! p);
             maxi \<leftarrow> csub rest width_after;
             x \<leftarrow> clamp desired width_before maxi;
             let width = ws ! p;
             left \<leftarrow> csub x width_before;
             ws1 \<leftarrow> distribute_flexible_space bar ws [0..<p] left;
             r1 \<leftarrow> csub avail x;
             r2 \<leftarrow> csub r1 width;
             right \<leftarrow> csub r2 width_after;
             ws2 \<leftarrow> distribute_flexible_space bar ws1 [p + 1..<length (bar_elements bar)] right;
             Some (ws2, Some (p, x)) })"

section \<open>Placement of the bar\<close>

text \<open>The principal element starts at its fixed position, every other one where its predecessor
  ended.\<close>

definition pinned :: "(nat \<times> nat) option \<Rightarrow> nat \<Rightarrow> nat \<Rightarrow> nat" where
  "pinned px k x = (case px of Some (p, x1) \<Rightarrow> if p = k then x1 else x | None \<Rightarrow> x)"

definition place_element ::
  "element \<Rightarrow> bool \<Rightarrow> nat \<Rightarrow> nat \<Rightarrow> placement list \<times> item_id list \<Rightarrow>
   (placement list \<times> item_id list) option" where
  "place_element el visible x w st =
     (if is_content el then
        (if visible then do { qs \<leftarrow> layout_element el x w; Some (fst st @ qs, snd st) }
         else Some (fst st, snd st @ collect_item_ids el))
      else Some st)"

primrec place_elements ::
  "(nat \<times> element) list \<Rightarrow> bool list \<Rightarrow> nat list \<Rightarrow> (nat \<times> nat) option \<Rightarrow>
   placement list \<times> item_id list \<Rightarrow> nat \<Rightarrow> ((placement list \<times> item_id list) \<times> nat) option" where
  "place_elements [] visible ws px st x0 = Some (st, x0)"
| "place_elements (ie # ies) visible ws px st x0 =
     do { let i = fst ie;
          let x = pinned px i x0;
          st' \<leftarrow> place_element (snd ie) (visible ! i) x (ws ! i) st;
          place_elements ies visible ws px st' (x + ws ! i) }"

definition resolve ::
  "bar_spec \<Rightarrow> nat \<Rightarrow> item_id list \<Rightarrow> (layout_error, resolved_layout) result option" where
  "resolve bar avail required =
     (case rbind (validate_bar bar required)
             (\<lambda>_. rbind (visibility_units bar required)
               (\<lambda>units. rmap (\<lambda>sz. (units, sz)) (rmap_list element_sizing (bar_elements bar)))) of
        Inl e \<Rightarrow> Some (Inl e)
      | Inr (units, sz) \<Rightarrow>
          do { let visible0 = map is_content (bar_elements bar);
               let minimum0 = total_width bar visible0 sz;
               (visible, minimum_total) \<leftarrow>
                 (if minimum0 > avail
                  then hide_units sz avail (filter (\<lambda>u. \<not> vu_required u) (unit_order units))
                         visible0 minimum0
                  else Some (visible0, minimum0));
               (if minimum_total > avail
                then Some (Inl (InsufficientWidth avail (min minimum_total u32_max)))
                else
                  do { let ws0 = map (\<lambda>(i, el). element_width preferred (visible ! i) (sz ! i) el)
                             (enumerate 0 (bar_elements bar));
                       ws1 \<leftarrow> compress_to_fit bar visible sz ws0 avail;
                       metrics \<leftarrow> find_principal bar visible ws1;
                       extra \<leftarrow> csub avail (sum_list ws1);
                       (ws2, px) \<leftarrow>
                         (case metrics of
                            Some m \<Rightarrow> place_principal bar avail ws1 m
                          | None \<Rightarrow>
                              do { ws2 \<leftarrow> distribute_flexible_space bar ws1
                                           [0..<length (bar_elements bar)] extra;
                                   Some (ws2, None) });
                       ((ps, hidden), x) \<leftarrow>
                         place_elements (enumerate 0 (bar_elements bar)) visible ws2 px ([], []) 0;
                       Some (Inr \<lparr>placements = ps, hidden_items = hidden,
                                  content_width = x mod (u32_max + 1)\<rparr>) }) })"

end
