(* ===== verification/Layout_Visibility.thy ===== *)
theory Layout_Visibility
  imports Layout_Resolve
begin

text \<open>
  Facts on the visibility pass of \<open>resolve\<close>: the visibility units partition the content of the
  bar, a unit is required exactly when it holds a required item, and \<open>hide_units\<close> hides the
  shortest prefix of its units after which the minimum width fits.
\<close>

section \<open>Visibility units partition the content\<close>

definition required_element :: "item_id list \<Rightarrow> element \<Rightarrow> bool" where
  "required_element required el \<longleftrightarrow> set (collect_item_ids el) \<inter> set required \<noteq> {}"

fun element_visibility_priority :: "element \<Rightarrow> int" where
  "element_visibility_priority (Item it) = item_visibility_priority it"
| "element_visibility_priority (Group g) = group_visibility_priority g"
| "element_visibility_priority _ = 0"

fun element_visibility_group :: "element \<Rightarrow> string option" where
  "element_visibility_group (Item it) = visibility_group it"
| "element_visibility_group _ = None"

definition unit_ok :: "item_id list \<Rightarrow> element list \<Rightarrow> visibility_unit \<Rightarrow> bool" where
  "unit_ok required els u \<longleftrightarrow>
     vu_elements u \<noteq> [] \<and> vu_trailing u = last (vu_elements u)
     \<and> (vu_required u \<longleftrightarrow> (\<exists>i\<in>set (vu_elements u). required_element required (els ! i)))
     \<and> (\<forall>i\<in>set (vu_elements u). element_visibility_priority (els ! i) = vu_priority u
          \<and> element_visibility_group (els ! i) = vu_group u)
     \<and> (vu_group u = None \<longrightarrow> length (vu_elements u) = 1)"

definition units_ok :: "item_id list \<Rightarrow> element list \<Rightarrow> nat \<Rightarrow> visibility_unit list \<Rightarrow> bool" where
  "units_ok required els k units \<longleftrightarrow>
     mset (concat (map vu_elements units)) = mset (filter (\<lambda>i. is_content (els ! i)) [0..<k])
     \<and> list_all (unit_ok required els) units
     \<and> distinct (List.map_filter vu_group units)"

lemma find_unit_Some:
  "find_unit units grp = Some u \<Longrightarrow>
     u < length units \<and> (\<exists>g. grp = Some g \<and> vu_group (units ! u) = Some g)"
  by (auto simp: find_unit_def find_Some_iff split: option.splits)

lemma find_unit_None:
  "find_unit units (Some g) = None \<Longrightarrow> g \<notin> set (List.map_filter vu_group units)"
proof -
  assume a: "find_unit units (Some g) = None"
  have "vu_group u \<noteq> Some g" if u: "u \<in> set units" for u
  proof -
    obtain k where "k < length units" "units ! k = u" using u by (auto simp: in_set_conv_nth)
    then show ?thesis using a by (auto simp: find_unit_def find_None_iff)
  qed
  then show ?thesis by (force simp: List.map_filter_def)
qed

lemma mset_concat_update:
  assumes "u < length xs"
  shows "mset (concat (xs[u := xs ! u @ [i]])) = add_mset i (mset (concat xs))"
  using assms by (induction xs arbitrary: u) (auto split: nat.splits)

lemma map_filter_update_same:
  "f y = f (xs ! u) \<Longrightarrow> List.map_filter f (xs[u := y]) = List.map_filter f xs"
proof (induction xs arbitrary: u)
  case (Cons x xs)
  then show ?case by (cases u) (auto simp: map_filter_simps split: option.splits)
qed (simp add: map_filter_simps)

lemma map_filter_append: "List.map_filter f (xs @ ys) = List.map_filter f xs @ List.map_filter f ys"
  by (simp add: List.map_filter_def)

lemma unit_ok_extend:
  assumes "unit_ok required els u" and "els ! k = Item it"
    and "vu_group u = visibility_group it" and "visibility_group it \<noteq> None"
    and "vu_priority u = item_visibility_priority it"
  shows "unit_ok required els
    (u\<lparr>vu_elements := vu_elements u @ [k], vu_trailing := k,
       vu_required := vu_required u \<or> item_id it \<in> set required\<rparr>)"
  using assms unfolding unit_ok_def by (auto simp: required_element_def)

lemma add_unit_ok:
  assumes "units_ok required els k units" and "k < length els"
    and "add_unit required units (k, els ! k) = Inr units'"
  shows "units_ok required els (Suc k) units'"
proof (cases "els ! k")
  case (Item it)
  show ?thesis
  proof (cases "find_unit units (visibility_group it)")
    case None
    have "units' = units @ [\<lparr>vu_group = visibility_group it, vu_elements = [k],
        vu_priority = item_visibility_priority it, vu_trailing = k,
        vu_required = (item_id it \<in> set required)\<rparr>]"
      using assms(3) Item None by simp
    moreover have "g \<notin> set (List.map_filter vu_group units)" if "visibility_group it = Some g" for g
      using find_unit_None None that by simp
    ultimately show ?thesis
      using assms(1) Item
      by (auto simp: units_ok_def unit_ok_def required_element_def map_filter_append map_filter_simps
          split: option.splits)
  next
    case (Some u)
    then obtain g where u: "u < length units" "visibility_group it = Some g"
      "vu_group (units ! u) = Some g"
      using find_unit_Some by blast
    let ?u = "(units ! u)\<lparr>vu_elements := vu_elements (units ! u) @ [k], vu_trailing := k,
      vu_required := vu_required (units ! u) \<or> item_id it \<in> set required\<rparr>"
    have res: "units' = units[u := ?u]" "vu_priority (units ! u) = item_visibility_priority it"
      using assms(3) Item Some by (auto simp: Let_def split: if_splits)
    have "unit_ok required els ?u"
      using assms(1) u res(2) Item by (intro unit_ok_extend) (auto simp: units_ok_def list_all_length)
    then have "list_all (unit_ok required els) units'"
      using assms(1) u(1) unfolding res units_ok_def by (auto simp: list_all_length nth_list_update)
    moreover have "map vu_elements units' = (map vu_elements units)[u := map vu_elements units ! u @ [k]]"
      using u(1) unfolding res by (simp add: map_update)
    moreover have "List.map_filter vu_group units' = List.map_filter vu_group units"
      unfolding res by (rule map_filter_update_same) simp
    ultimately show ?thesis
      using assms(1) u(1) Item mset_concat_update [of u "map vu_elements units" k]
      by (simp add: units_ok_def)
  qed
next
  case (Group g)
  then show ?thesis
    using assms(1,3)
    by (auto simp: units_ok_def unit_ok_def required_element_def contains_required_iff_collect
        map_filter_append map_filter_simps)
qed (use assms in \<open>auto simp: units_ok_def\<close>)

lemma visibility_units_ok:
  assumes "visibility_units bar required = Inr units"
  shows "units_ok required (bar_elements bar) (length (bar_elements bar)) units"
proof -
  let ?els = "bar_elements bar"
  have "units_ok required ?els (k + length xs) t"
    if "rfold (add_unit required) s (enumerate k xs) = Inr t" "units_ok required ?els k s"
      "xs = drop k ?els" for k xs s t
    using that
  proof (induction xs arbitrary: k s)
    case (Cons x xs)
    have k: "k < length ?els" "x = ?els ! k" "xs = drop (Suc k) ?els"
      using drop_eq_Cons [OF Cons.prems(3)] by auto
    obtain a where a: "add_unit required s (k, x) = Inr a"
      "rfold (add_unit required) a (enumerate (Suc k) xs) = Inr t"
      using Cons.prems(1) by auto
    have "units_ok required ?els (Suc k) a"
      using add_unit_ok [OF Cons.prems(2) k(1)] a(1) k(2) by simp
    from Cons.IH [OF a(2) this k(3)] show ?case by simp
  qed simp
  from this [of "[]" 0 ?els units] show ?thesis
    using assms by (auto simp: visibility_units_def units_ok_def map_filter_simps)
qed

lemma units_ok_set:
  assumes "units_ok required els k units"
  shows "set (concat (map vu_elements units)) = {i. i < k \<and> is_content (els ! i)}"
    and "distinct (concat (map vu_elements units))"
proof -
  have m: "mset (concat (map vu_elements units)) = mset (filter (\<lambda>i. is_content (els ! i)) [0..<k])"
    using assms by (simp only: units_ok_def)
  show "set (concat (map vu_elements units)) = {i. i < k \<and> is_content (els ! i)}"
    using mset_eq_setD [OF m] by auto
  show "distinct (concat (map vu_elements units))"
    using mset_eq_imp_distinct_iff [OF m] by simp
qed

lemma distinct_concat_unique:
  assumes "distinct (concat (map f xs))" and "x \<in> set xs" and "y \<in> set xs"
    and "i \<in> set (f x)" and "i \<in> set (f y)"
  shows "x = y"
  using assms by (induction xs) auto

lemma unit_of_element:
  assumes "units_ok required els (length els) units" and "i < length els" and "is_content (els ! i)"
  obtains u where "u \<in> set units" "i \<in> set (vu_elements u)"
    "\<And>v. v \<in> set units \<Longrightarrow> i \<in> set (vu_elements v) \<Longrightarrow> v = u"
proof -
  have "i \<in> set (concat (map vu_elements units))"
    using units_ok_set(1) [OF assms(1)] assms(2,3) by auto
  then obtain u where u: "u \<in> set units" "i \<in> set (vu_elements u)" by auto
  then show ?thesis
    using that distinct_concat_unique [OF units_ok_set(2) [OF assms(1)]] by blast
qed

lemma unit_okD:
  assumes "units_ok required els k units" and "u \<in> set units"
  shows "unit_ok required els u"
  using assms by (auto simp: units_ok_def list_all_iff)

text \<open>Elements of one visibility group are in one unit.\<close>

lemma same_group_same_unit:
  assumes ok: "units_ok required els k units" and u: "u \<in> set units" "v \<in> set units"
    and g: "vu_group u = Some g" "vu_group v = Some g"
  shows "u = v"
proof -
  have "distinct (List.map_filter vu_group units)" using ok by (simp add: units_ok_def)
  then show ?thesis using u g
  proof (induction units)
    case (Cons w ws)
    then show ?case
      by (auto simp: map_filter_simps in_set_map_filter split: option.splits)
  qed simp
qed

section \<open>Hiding\<close>

definition element_widths :: "(sizing \<Rightarrow> nat) \<Rightarrow> element list \<Rightarrow> bool list \<Rightarrow> sizing list \<Rightarrow> nat list" where
  "element_widths size_of els visible sz =
     map (\<lambda>i. element_width size_of (visible ! i) (sz ! i) (els ! i)) [0..<length els]"

lemma map_enumerate_nth:
  "map (\<lambda>(i, x). f i x) (enumerate 0 xs) = map (\<lambda>i. f i (xs ! i)) [0..<length xs]"
  by (rule nth_equalityI) (simp_all add: nth_enumerate_eq)

lemma element_widths_enumerate:
  "map (\<lambda>(i, el). element_width size_of (visible ! i) (sz ! i) el) (enumerate 0 els) =
     element_widths size_of els visible sz"
  by (simp add: map_enumerate_nth element_widths_def)

lemma total_width_alt: "total_width bar visible sz = sum_list (element_widths minimum (bar_elements bar) visible sz)"
  by (simp add: total_width_def element_widths_enumerate)

lemma length_element_widths [simp]: "length (element_widths size_of els visible sz) = length els"
  by (simp add: element_widths_def)

lemma nth_element_widths [simp]:
  "i < length els \<Longrightarrow>
     element_widths size_of els visible sz ! i = element_width size_of (visible ! i) (sz ! i) (els ! i)"
  by (simp add: element_widths_def)

lemma element_width_hidden: "is_content el \<Longrightarrow> element_width size_of False s el = 0"
  by (cases el) auto

lemma element_width_visible: "is_content el \<Longrightarrow> element_width size_of True s el = size_of s"
  by (cases el) auto

lemma total_width_hide:
  assumes "i < length (bar_elements bar)" and "length visible = length (bar_elements bar)"
    and "is_content (bar_elements bar ! i)" and "visible ! i"
  shows "minimum (sz ! i) \<le> total_width bar visible sz"
    and "total_width bar (visible[i := False]) sz = total_width bar visible sz - minimum (sz ! i)"
proof -
  let ?ws = "element_widths minimum (bar_elements bar) visible sz"
  have w: "?ws ! i = minimum (sz ! i)"
    using assms by (simp add: element_width_visible)
  have i: "i < length ?ws" using assms(1) by simp
  show "minimum (sz ! i) \<le> total_width bar visible sz"
    using nth_le_sum_list [OF i] w by (simp add: total_width_alt)
  have "element_widths minimum (bar_elements bar) (visible[i := False]) sz =
    ?ws[i := ?ws ! i - minimum (sz ! i)]"
    using assms by (intro nth_equalityI)
      (auto simp: nth_list_update element_width_hidden element_width_visible)
  then show "total_width bar (visible[i := False]) sz = total_width bar visible sz - minimum (sz ! i)"
    using sum_list_update_minus [OF i, of "minimum (sz ! i)"] w by (simp add: total_width_alt)
qed

definition hide_set :: "bool list \<Rightarrow> nat set \<Rightarrow> bool list" where
  "hide_set visible H = map (\<lambda>i. visible ! i \<and> i \<notin> H) [0..<length visible]"

lemma length_hide_set [simp]: "length (hide_set visible H) = length visible"
  by (simp add: hide_set_def)

lemma nth_hide_set [simp]: "i < length visible \<Longrightarrow> hide_set visible H ! i \<longleftrightarrow> visible ! i \<and> i \<notin> H"
  by (simp add: hide_set_def)

lemma hide_set_empty [simp]: "hide_set visible {} = visible"
  by (intro nth_equalityI) auto

lemma hide_set_hide_set: "hide_set (hide_set visible H) K = hide_set visible (H \<union> K)"
  by (intro nth_equalityI) auto

lemma hide_set_insert:
  "hide_set visible (insert i K) = hide_set (if visible ! i then visible[i := False] else visible) K"
  by (intro nth_equalityI) (auto, metis nth_list_update_eq nth_list_update_neq)

lemma hide_unit_spec:
  assumes "length visible = length (bar_elements bar)"
    and "\<forall>i\<in>set idxs. i < length (bar_elements bar) \<and> is_content (bar_elements bar ! i)"
  shows "hide_unit sz idxs visible (total_width bar visible sz) =
    Some (hide_set visible (set idxs), total_width bar (hide_set visible (set idxs)) sz)"
  using assms
proof (induction idxs arbitrary: visible)
  case (Cons i idxs)
  have i: "i < length (bar_elements bar)" "is_content (bar_elements bar ! i)"
    using Cons.prems(2) by auto
  show ?case
  proof (cases "visible ! i")
    case True
    have "hide_unit sz idxs (visible[i := False]) (total_width bar (visible[i := False]) sz) =
      Some (hide_set (visible[i := False]) (set idxs),
            total_width bar (hide_set (visible[i := False]) (set idxs)) sz)"
      using Cons.IH [of "visible[i := False]"] Cons.prems by simp
    then show ?thesis
      using True total_width_hide [OF i(1) Cons.prems(1) i(2) True, of sz]
      by (simp add: hide_set_insert)
  next
    case False
    then show ?thesis using Cons by (simp add: hide_set_insert)
  qed
qed simp

definition units_elements :: "visibility_unit list \<Rightarrow> nat set" where
  "units_elements us = \<Union> (set ` vu_elements ` set us)"

lemma hide_units_spec:
  assumes "length visible = length (bar_elements bar)"
    and "\<forall>u\<in>set us. \<forall>i\<in>set (vu_elements u). i < length (bar_elements bar) \<and> is_content (bar_elements bar ! i)"
    and "avail < total_width bar visible sz"
  shows "\<exists>k\<le>length us.
    hide_units sz avail us visible (total_width bar visible sz) =
      Some (hide_set visible (units_elements (take k us)),
            total_width bar (hide_set visible (units_elements (take k us))) sz)
    \<and> (k = length us \<or> total_width bar (hide_set visible (units_elements (take k us))) sz \<le> avail)
    \<and> (\<forall>j<k. avail < total_width bar (hide_set visible (units_elements (take j us))) sz)"
  using assms
proof (induction us arbitrary: visible)
  case Nil
  then show ?case by (simp add: units_elements_def)
next
  case (Cons u us)
  let ?v = "hide_set visible (set (vu_elements u))"
  have step: "hide_unit sz (vu_elements u) visible (total_width bar visible sz) =
    Some (?v, total_width bar ?v sz)"
    using hide_unit_spec [OF Cons.prems(1)] Cons.prems(2) by simp
  have UN: "hide_set visible (units_elements (take (Suc k) (u # us))) =
    hide_set ?v (units_elements (take k us))" for k
    by (simp add: hide_set_hide_set units_elements_def)
  show ?case
  proof (cases "total_width bar ?v sz \<le> avail")
    case True
    then show ?thesis
      using step UN [of 0] Cons.prems(3)
      by (intro exI [of _ "Suc 0"]) (simp add: units_elements_def)
  next
    case False
    then obtain k where k: "k \<le> length us"
      "hide_units sz avail us ?v (total_width bar ?v sz) =
        Some (hide_set ?v (units_elements (take k us)),
              total_width bar (hide_set ?v (units_elements (take k us))) sz)"
      "k = length us \<or> total_width bar (hide_set ?v (units_elements (take k us))) sz \<le> avail"
      "\<forall>j<k. avail < total_width bar (hide_set ?v (units_elements (take j us))) sz"
      using Cons.IH [of ?v] Cons.prems(1,2) by auto
    have "avail < total_width bar (hide_set visible (units_elements (take j (u # us)))) sz"
      if "j < Suc k" for j
      using that k(4) Cons.prems(3) UN by (cases j) (auto simp: units_elements_def)
    then show ?thesis
      using step False k UN by (intro exI [of _ "Suc k"]) auto
  qed
qed

lemma total_width_mono:
  assumes "\<And>i. i < length (bar_elements bar) \<Longrightarrow> v ! i \<Longrightarrow> w ! i"
  shows "total_width bar v sz \<le> total_width bar w sz"
proof -
  have "element_width minimum (v ! i) (sz ! i) (bar_elements bar ! i)
    \<le> element_width minimum (w ! i) (sz ! i) (bar_elements bar ! i)" if "i < length (bar_elements bar)" for i
    using assms [OF that] by (cases "bar_elements bar ! i") auto
  then show ?thesis unfolding total_width_alt by (intro sum_list_pointwise_le) auto
qed

end
