(* ===== verification/Layout_Widths.thy ===== *)
theory Layout_Widths
  imports Layout_Visibility
begin

text \<open>
  Facts on the width passes of \<open>resolve\<close>: \<open>compress_to_fit\<close> reaches the available width
  without going below any minimum, and \<open>distribute_flexible_space\<close> hands out exactly the extra
  room, to flexible spaces only.
\<close>

section \<open>Compression of the bar\<close>

fun element_compression_priority :: "element \<Rightarrow> int" where
  "element_compression_priority (Item it) = item_compression_priority it"
| "element_compression_priority (Group g) = group_compression_priority g"
| "element_compression_priority _ = 0"

lemma compression_candidates_iff:
  "(p, i, m) \<in> set (compression_candidates bar visible sz) \<longleftrightarrow>
     i < length (bar_elements bar) \<and> is_content (bar_elements bar ! i) \<and> visible ! i
     \<and> m = minimum (sz ! i) \<and> p = element_compression_priority (bar_elements bar ! i)"
proof -
  have "(p, i, m) \<in> set (compression_candidates bar visible sz) \<longleftrightarrow>
    (\<exists>el. (i, el) \<in> set (enumerate 0 (bar_elements bar)) \<and> is_content el \<and> visible ! i
      \<and> m = minimum (sz ! i) \<and> p = element_compression_priority el)"
    unfolding compression_candidates_def
    by (rule iffI) (auto simp: in_set_map_filter split: element.splits if_splits
        intro!: bexI [rotated] elim: is_content.elims)
  then show ?thesis by (auto simp: in_set_enumerate_eq)
qed

lemma element_width_mono:
  "sizing_ok s \<Longrightarrow> element_width minimum v s el \<le> element_width preferred v s el"
  by (cases el) (auto simp: sizing_ok_def)

lemma compress_to_fit_spec:
  assumes sz: "\<forall>i<length (bar_elements bar). sizing_ok (sz ! i)"
    and fit: "total_width bar visible sz \<le> avail"
  defines "lo \<equiv> element_widths minimum (bar_elements bar) visible sz"
    and "hi \<equiv> element_widths preferred (bar_elements bar) visible sz"
  shows "\<exists>ws. compress_to_fit bar visible sz hi avail = Some ws
    \<and> length ws = length (bar_elements bar)
    \<and> (\<forall>i<length (bar_elements bar). lo ! i \<le> ws ! i \<and> ws ! i \<le> hi ! i)
    \<and> sum_list ws = min (sum_list hi) avail"
proof -
  let ?els = "bar_elements bar" and ?mn = "\<lambda>i. lo ! i"
  let ?cs = "sort_key (\<lambda>(p, i, m). (p, - int i)) (compression_candidates bar visible sz)"
  have len: "length lo = length ?els" "length hi = length ?els" by (simp_all add: lo_def hi_def)
  have le: "lo ! i \<le> hi ! i" if "i < length ?els" for i
    using that sz by (simp add: lo_def hi_def element_width_mono)
  have cs: "\<forall>(p, i, m)\<in>set ?cs. i < length hi \<and> m = ?mn i \<and> ?mn i \<le> hi ! i"
  proof clarify
    fix p i m assume "(p, i, m) \<in> set ?cs"
    then have i: "i < length ?els" "is_content (?els ! i)" "visible ! i" "m = minimum (sz ! i)"
      by (auto simp: compression_candidates_iff)
    then have "lo ! i = m" by (simp add: lo_def element_width_visible)
    then show "i < length hi \<and> m = ?mn i \<and> ?mn i \<le> hi ! i" using i le [of i] len by simp
  qed
  obtain ws ex where loop: "compress_loop ?cs hi (sum_list hi - avail) = Some (ws, ex)"
    "length ws = length hi"
    "\<forall>j<length hi. ws ! j \<le> hi ! j \<and> (?mn j \<le> hi ! j \<longrightarrow> ?mn j \<le> ws ! j)"
    "\<forall>j. j \<notin> (\<lambda>(p, i, m). i) ` set ?cs \<longrightarrow> ws ! j = hi ! j"
    "sum_list ws + (sum_list hi - avail) = sum_list hi + ex"
    "ex = 0 \<or> (\<forall>(p, i, m)\<in>set ?cs. ws ! i = ?mn i)"
    using compress_loop_spec [OF cs, of "sum_list hi - avail"] by blast
  have "ex = 0"
  proof (rule ccontr)
    assume ex: "ex \<noteq> 0"
    have "ws ! i = lo ! i" if i: "i < length ?els" for i
    proof (cases "is_content (?els ! i) \<and> visible ! i")
      case True
      then have "(element_compression_priority (?els ! i), i, minimum (sz ! i)) \<in> set ?cs"
        using i by (simp add: compression_candidates_iff)
      then show ?thesis using loop(6) ex by fastforce
    next
      case False
      then have "i \<notin> (\<lambda>(p, i, m). i) ` set ?cs" by (auto simp: compression_candidates_iff)
      then have "ws ! i = hi ! i" using loop(4) by blast
      then show ?thesis using False i by (cases "?els ! i") (auto simp: lo_def hi_def)
    qed
    then have "ws = lo" using loop(2) len by (intro nth_equalityI) auto
    moreover have "avail < sum_list hi" using loop(1) ex by (cases "avail < sum_list hi") auto
    ultimately show False using loop(5) fit ex by (auto simp: total_width_alt lo_def [symmetric])
  qed
  moreover have "sum_list ws = min (sum_list hi) avail"
    using loop(5) \<open>ex = 0\<close> by linarith
  ultimately show ?thesis
    using loop le len by (auto simp: compress_to_fit_def)
qed

section \<open>Flexible space\<close>

lemma flex_loop_spec:
  assumes "\<forall>f\<in>set fs. fst f < length ws"
    and "sum_list (map snd fs) \<le> total_weight" and "0 < total_weight"
    and "assigned * total_weight \<le> extra * (total_weight - sum_list (map snd fs))"
  shows "\<exists>ws'. flex_loop fs total_weight extra ws assigned = Some ws'
    \<and> length ws' = length ws
    \<and> (\<forall>i. ws ! i \<le> ws' ! i \<and> (i \<notin> fst ` set fs \<longrightarrow> ws' ! i = ws ! i))
    \<and> sum_list ws' = sum_list ws + (if fs = [] then 0 else extra - assigned)"
  using assms
proof (induction fs arbitrary: ws assigned)
  case (Cons f fs)
  have "assigned * total_weight \<le> extra * total_weight"
    using Cons.prems(4) by (meson diff_le_self le_trans mult_le_mono2)
  then have le: "assigned \<le> extra" using Cons.prems(3) by simp
  have f: "fst f < length ws" using Cons.prems(1) by simp
  define d where "d = (if fs = [] then extra - assigned else extra * snd f div total_weight)"
  let ?ws = "ws[fst f := ws ! fst f + d]"
  have step: "flex_loop (f # fs) total_weight extra ws assigned =
    flex_loop fs total_weight extra ?ws (assigned + d)"
    using le by (simp add: d_def)
  have upd: "\<forall>i. ws ! i \<le> ?ws ! i \<and> (i \<noteq> fst f \<longrightarrow> ?ws ! i = ws ! i)"
    using f by (auto simp: nth_list_update)
  have sum: "sum_list ?ws = sum_list ws + d" using f by (rule sum_list_update_plus)
  show ?case
  proof (cases "fs = []")
    case True
    then show ?thesis unfolding step using upd sum le by (auto simp: d_def)
  next
    case False
    have "d * total_weight \<le> extra * snd f" using False by (simp add: d_def)
    then have inv: "(assigned + d) * total_weight \<le> extra * (total_weight - sum_list (map snd fs))"
      using Cons.prems(4) mult_le_mono2 [OF Cons.prems(2), of extra]
      by (simp add: algebra_simps diff_mult_distrib2)
    obtain ws' where IH: "flex_loop fs total_weight extra ?ws (assigned + d) = Some ws'"
      "length ws' = length ?ws"
      "\<forall>i. ?ws ! i \<le> ws' ! i \<and> (i \<notin> fst ` set fs \<longrightarrow> ws' ! i = ?ws ! i)"
      "sum_list ws' = sum_list ?ws + (if fs = [] then 0 else extra - (assigned + d))"
      using Cons.IH [OF _ _ Cons.prems(3) inv, of ?ws] Cons.prems(1,2) by (simp; blast)
    have "(assigned + d) * total_weight \<le> extra * total_weight"
      using inv by (meson diff_le_self le_trans mult_le_mono2)
    then have "assigned + d \<le> extra" using Cons.prems(3) by simp
    moreover have "\<forall>i. ws ! i \<le> ws' ! i \<and> (i \<notin> fst ` set (f # fs) \<longrightarrow> ws' ! i = ws ! i)"
      using upd IH(3) by (auto intro: le_trans)
    ultimately show ?thesis unfolding step using IH False sum by auto
  qed
qed simp

fun is_flexible :: "element \<Rightarrow> bool" where
  "is_flexible (FlexibleSpace _ _) = True"
| "is_flexible _ = False"

lemma flexible_spaces_iff:
  "(i, w) \<in> set (flexible_spaces els idxs) \<longleftrightarrow> i \<in> set idxs \<and> (\<exists>m. els ! i = FlexibleSpace m w)"
proof -
  have "(case el of FlexibleSpace _ v \<Rightarrow> Some (j, v) | _ \<Rightarrow> None) = Some (i, w) \<longleftrightarrow>
    j = i \<and> (\<exists>m. el = FlexibleSpace m w)" for el and j :: nat
    by (cases el) auto
  then show ?thesis by (auto simp: flexible_spaces_def in_set_map_filter)
qed

lemma distribute_flexible_space_spec:
  assumes "\<forall>i\<in>set idxs. i < length ws"
    and weights: "\<forall>i\<in>set idxs. element_ok (bar_elements bar ! i)"
  shows "\<exists>ws'. distribute_flexible_space bar ws idxs extra = Some ws'
    \<and> length ws' = length ws
    \<and> (\<forall>i. ws ! i \<le> ws' ! i)
    \<and> (\<forall>i. i \<notin> set idxs \<or> \<not> is_flexible (bar_elements bar ! i) \<longrightarrow> ws' ! i = ws ! i)
    \<and> sum_list ws' = sum_list ws +
        (if \<exists>i\<in>set idxs. is_flexible (bar_elements bar ! i) then extra else 0)"
proof -
  let ?fs = "flexible_spaces (bar_elements bar) idxs"
  let ?w = "sum_list (map snd ?fs)"
  have fst: "fst ` set ?fs = {i \<in> set idxs. is_flexible (bar_elements bar ! i)}"
  proof (intro equalityI subsetI)
    fix i assume "i \<in> fst ` set ?fs"
    then obtain w where "(i, w) \<in> set ?fs" by force
    then show "i \<in> {i \<in> set idxs. is_flexible (bar_elements bar ! i)}"
      by (auto simp: flexible_spaces_iff)
  next
    fix i assume i: "i \<in> {i \<in> set idxs. is_flexible (bar_elements bar ! i)}"
    then obtain m w where "bar_elements bar ! i = FlexibleSpace m w"
      by (auto elim: is_flexible.elims)
    then have "(i, w) \<in> set ?fs" using i by (auto simp: flexible_spaces_iff)
    then show "i \<in> fst ` set ?fs" by force
  qed
  have pos: "0 < snd f" if fin: "f \<in> set ?fs" for f
  proof -
    obtain i w where f: "f = (i, w)" by (cases f)
    then obtain m where "i \<in> set idxs" "bar_elements bar ! i = FlexibleSpace m w"
      using fin by (auto simp: flexible_spaces_iff)
    then show ?thesis using weights f by force
  qed
  have zero: "?w = 0 \<longleftrightarrow> ?fs = []"
  proof (cases "?fs = []")
    case False
    then have "0 < snd (hd ?fs)" using pos [OF hd_in_set] by blast
    moreover have "snd (hd ?fs) \<le> ?w" using False by (intro member_le_sum_list) simp_all
    ultimately show ?thesis using False by (simp del: sum_list_eq_0_iff)
  qed simp
  have "fst ` set ?fs = {} \<longleftrightarrow> \<not> (\<exists>i\<in>set idxs. is_flexible (bar_elements bar ! i))"
    unfolding fst by auto
  then have none: "?fs = [] \<longleftrightarrow> \<not> (\<exists>i\<in>set idxs. is_flexible (bar_elements bar ! i))"
    by simp
  show ?thesis
  proof (cases "extra = 0 \<or> ?fs = []")
    case True
    then show ?thesis using none by (auto simp: distribute_flexible_space_def)
  next
    case False
    then have w: "0 < ?w" using zero by (metis gr0I)
    have len: "\<forall>f\<in>set ?fs. fst f < length ws"
      using assms(1) fst by auto
    obtain ws' where "flex_loop ?fs ?w extra ws 0 = Some ws'" "length ws' = length ws"
      "\<forall>i. ws ! i \<le> ws' ! i \<and> (i \<notin> fst ` set ?fs \<longrightarrow> ws' ! i = ws ! i)"
      "sum_list ws' = sum_list ws + extra"
      using flex_loop_spec [OF len order_refl w, of 0 extra] False by auto
    then show ?thesis
      using False w none fst by (auto simp: distribute_flexible_space_def Let_def simp del: sum_list_eq_0_iff)
  qed
qed

end
