(* ===== verification/Layout_Correct.thy ===== *)
theory Layout_Correct
  imports Layout_Widths
begin

text \<open>
  Correctness of \<open>resolve\<close>: it never panics, every placement lies inside the bar, placements do
  not overlap, every item of the bar is either placed in a width it accepts or reported as hidden,
  required items are always placed, and items are hidden in priority order and only when the
  minimum widths do not fit.
\<close>

section \<open>Elements\<close>

fun element_items :: "element \<Rightarrow> item_spec list" where
  "element_items (Item it) = [it]"
| "element_items (Group g) = group_items g"
| "element_items (FixedSpace _) = []"
| "element_items (FlexibleSpace _ _) = []"

lemma collect_item_ids_items: "collect_item_ids el = map item_id (element_items el)"
  by (cases el) (auto simp: group_ids_items)

lemma not_content_items: "\<not> is_content el \<Longrightarrow> element_items el = []"
  by (cases el) auto

lemma layout_element_places:
  "element_ok el \<Longrightarrow> element_sizing el = Inr s \<Longrightarrow> minimum s \<le> w \<Longrightarrow> w \<le> maximum s \<Longrightarrow>
     places layout_element el (element_items el) w"
proof (cases el)
  case (Item it)
  then show "minimum s \<le> w \<Longrightarrow> w \<le> maximum s \<Longrightarrow> element_sizing el = Inr s \<Longrightarrow> ?thesis"
    using place_item_places [of it w] by (auto simp: item_sizing_def places_def)
next
  case (Group g)
  then show "element_ok el \<Longrightarrow> element_sizing el = Inr s \<Longrightarrow> minimum s \<le> w \<Longrightarrow> w \<le> maximum s \<Longrightarrow> ?thesis"
    using layout_group_places(2) [of g s w] by (auto simp: places_def)
qed (auto simp: places_def)

lemma principal_metrics_spec:
  assumes "places layout_element el (element_items el) w" and "w \<le> u32_max"
  shows "\<exists>m. principal_metrics el w p = Some m
    \<and> (\<forall>off pw. m = Some (off, pw) \<longrightarrow> off + pw \<le> w)
    \<and> (contains_item el p \<longrightarrow> m \<noteq> None)"
proof (cases el)
  case (Group g)
  obtain ps where ps: "layout_group g 0 w = Some ps" "list_all2 fits_item ps (group_items g)"
    "placed_within 0 w ps"
    using placesD [OF assms(1), of 0] assms(2) Group by auto
  have "pl_x q + pl_width q \<le> w" if "find (\<lambda>pl. pl_id pl = p) ps = Some q" for q
    using that placed_within_bounds [OF ps(3), of q] by (auto simp: find_Some_iff)
  moreover have "find (\<lambda>pl. pl_id pl = p) ps \<noteq> None" if "contains_item el p"
  proof -
    have "p \<in> set (map pl_id ps)"
      using that Group fits_items_ids [OF ps(2)] by (simp add: contains_item_iff_collect group_ids_items)
    then show ?thesis by (auto simp: find_None_iff)
  qed
  ultimately show ?thesis using ps(1) Group by auto
qed auto

section \<open>Widths of a resolved bar\<close>

text \<open>What the width passes hand to the placement pass: content keeps a width it accepts.\<close>

definition widths_ok :: "bar_spec \<Rightarrow> bool list \<Rightarrow> nat list \<Rightarrow> bool" where
  "widths_ok bar visible ws \<longleftrightarrow>
     length ws = length (bar_elements bar)
     \<and> (\<forall>i<length (bar_elements bar). visible ! i \<longrightarrow>
          is_content (bar_elements bar ! i)
          \<and> places layout_element (bar_elements bar ! i) (element_items (bar_elements bar ! i)) (ws ! i))"

lemma find_principal_spec:
  assumes ws: "widths_ok bar visible ws" and sum: "sum_list ws \<le> avail" "avail \<le> u32_max"
  shows "\<exists>m. find_principal bar visible ws = Some m
    \<and> (\<forall>i off pw. m = Some (i, off, pw) \<longrightarrow>
         i < length (bar_elements bar) \<and> visible ! i \<and> off + pw \<le> ws ! i)"
proof (cases "principal_item bar")
  case None
  then show ?thesis by (simp add: find_principal_def)
next
  case (Some p)
  show ?thesis
  proof (cases "find (\<lambda>(i, el). visible ! i \<and> contains_item el p) (enumerate 0 (bar_elements bar))")
    case None
    then show ?thesis using Some by (simp add: find_principal_def)
  next
    case f: (Some ie)
    obtain i el where ie: "ie = (i, el)" by (cases ie)
    from find_SomeD [OF f] ie have el: "i < length (bar_elements bar)" "el = bar_elements bar ! i"
      "visible ! i" "contains_item el p"
      by (auto simp: in_set_enumerate_eq)
    have "ws ! i \<le> u32_max"
      using ws sum el(1) nth_le_sum_list [of i ws] by (simp add: widths_ok_def)
    then obtain m where "principal_metrics el (ws ! i) p = Some m"
      "\<forall>off pw. m = Some (off, pw) \<longrightarrow> off + pw \<le> ws ! i"
      using principal_metrics_spec [of el "ws ! i" p] ws el by (auto simp: widths_ok_def)
    then show ?thesis using Some f ie el by (auto simp: find_principal_def)
  qed
qed

lemma sum_list_take_drop: "sum_list (take k ws) + sum_list (drop k ws) = sum_list ws" for ws :: "nat list"
  by (metis append_take_drop_id sum_list_append)

definition distributed :: "bar_spec \<Rightarrow> nat list \<Rightarrow> nat list \<Rightarrow> bool" where
  "distributed bar ws ws' \<longleftrightarrow>
     length ws' = length ws \<and> (\<forall>i. ws ! i \<le> ws' ! i)
     \<and> (\<forall>i. \<not> is_flexible (bar_elements bar ! i) \<longrightarrow> ws' ! i = ws ! i)"

lemma distributed_widths_ok:
  "distributed bar ws ws' \<Longrightarrow> widths_ok bar visible ws \<Longrightarrow> widths_ok bar visible ws'"
  unfolding distributed_def widths_ok_def
  by (metis is_content.simps(4) is_flexible.elims(2))

lemma take_drop_unchanged:
  assumes "length ws' = length ws" and "\<forall>i. lo \<le> i \<and> i < hi \<longrightarrow> ws' ! i = ws ! i"
  shows "take (hi - lo) (drop lo ws') = take (hi - lo) (drop lo ws)"
  using assms by (intro nth_equalityI) auto

lemma distribute_left:
  assumes "p < length (bar_elements bar)" and "length ws = length (bar_elements bar)"
    and "list_all element_ok (bar_elements bar)"
  shows "\<exists>ws'. distribute_flexible_space bar ws [0..<p] extra = Some ws' \<and> distributed bar ws ws'
    \<and> sum_list (take p ws') \<le> sum_list (take p ws) + extra \<and> drop p ws' = drop p ws"
proof -
  obtain ws' where ws': "distribute_flexible_space bar ws [0..<p] extra = Some ws'"
    "length ws' = length ws" "\<forall>i. ws ! i \<le> ws' ! i"
    "\<forall>i. i \<notin> set [0..<p] \<or> \<not> is_flexible (bar_elements bar ! i) \<longrightarrow> ws' ! i = ws ! i"
    "sum_list ws' = sum_list ws +
        (if \<exists>i\<in>set [0..<p]. is_flexible (bar_elements bar ! i) then extra else 0)"
    using distribute_flexible_space_spec [of "[0..<p]" ws bar extra] assms
    by (auto simp: list_all_length)
  have drop: "drop p ws' = drop p ws"
    using take_drop_unchanged [OF ws'(2), of p "length ws"] ws'(2,4) by simp
  have "sum_list (take p ws') + sum_list (drop p ws) \<le> sum_list (take p ws) + sum_list (drop p ws) + extra"
    using sum_list_take_drop [of p ws] sum_list_take_drop [of p ws'] ws'(5) drop by (simp split: if_splits)
  then show ?thesis using ws' drop by (auto simp: distributed_def)
qed

lemma distribute_right:
  assumes "p < length (bar_elements bar)" and "length ws = length (bar_elements bar)"
    and "list_all element_ok (bar_elements bar)"
  shows "\<exists>ws'. distribute_flexible_space bar ws [p + 1..<length (bar_elements bar)] extra = Some ws'
    \<and> distributed bar ws ws' \<and> take (Suc p) ws' = take (Suc p) ws
    \<and> sum_list (drop (Suc p) ws') \<le> sum_list (drop (Suc p) ws) + extra"
proof -
  let ?r = "[p + 1..<length (bar_elements bar)]"
  obtain ws' where ws': "distribute_flexible_space bar ws ?r extra = Some ws'"
    "length ws' = length ws" "\<forall>i. ws ! i \<le> ws' ! i"
    "\<forall>i. i \<notin> set ?r \<or> \<not> is_flexible (bar_elements bar ! i) \<longrightarrow> ws' ! i = ws ! i"
    "sum_list ws' = sum_list ws +
        (if \<exists>i\<in>set ?r. is_flexible (bar_elements bar ! i) then extra else 0)"
    using distribute_flexible_space_spec [of ?r ws bar extra] assms
    by (auto simp: list_all_length)
  have take: "take (Suc p) ws' = take (Suc p) ws"
    using take_drop_unchanged [OF ws'(2), of 0 "Suc p"] ws'(2,4) by simp
  have "sum_list (take (Suc p) ws) + sum_list (drop (Suc p) ws') \<le>
      sum_list (take (Suc p) ws) + sum_list (drop (Suc p) ws) + extra"
    using sum_list_take_drop [of "Suc p" ws] sum_list_take_drop [of "Suc p" ws'] ws'(5) take
    by (simp split: if_splits)
  then show ?thesis using ws' take by (auto simp: distributed_def)
qed

lemma distribute_all:
  assumes "length ws = length (bar_elements bar)" and "list_all element_ok (bar_elements bar)"
  shows "\<exists>ws'. distribute_flexible_space bar ws [0..<length (bar_elements bar)] extra = Some ws'
    \<and> distributed bar ws ws' \<and> sum_list ws' \<le> sum_list ws + extra"
  using distribute_flexible_space_spec [of "[0..<length (bar_elements bar)]" ws bar extra] assms
  by (fastforce simp: list_all_length distributed_def)

section \<open>The principal element\<close>

text \<open>The position \<open>resolve\<close> gives the principal element: centred on the bar, but never over the
  elements before it and never pushing those after it out of the bar.\<close>

definition principal_position :: "nat \<Rightarrow> nat list \<Rightarrow> nat \<Rightarrow> nat \<Rightarrow> nat \<Rightarrow> nat" where
  "principal_position avail ws p off pw =
     max (sum_list (take p ws))
       (min (avail - ws ! p - sum_list (drop (Suc p) ws)) ((avail - pw) div 2 - off))"

lemma place_principal_spec:
  assumes p: "p < length (bar_elements bar)" and len: "length ws = length (bar_elements bar)"
    and ok: "list_all element_ok (bar_elements bar)"
    and off: "off + pw \<le> ws ! p" and sum: "sum_list ws \<le> avail"
  defines "x \<equiv> principal_position avail ws p off pw"
  shows "\<exists>ws'. place_principal bar avail ws (p, off, pw) = Some (ws', Some (p, x))
    \<and> distributed bar ws ws' \<and> sum_list (take p ws') \<le> x
    \<and> x + ws' ! p + sum_list (drop (Suc p) ws') \<le> avail \<and> ws' ! p = ws ! p"
proof -
  let ?b = "sum_list (take p ws)" and ?a = "sum_list (drop (Suc p) ws)"
  have split: "?b + ws ! p + ?a \<le> avail"
    using sum_list_split_at [of p ws] p len sum by simp
  have x: "?b \<le> x" "x + ws ! p + ?a \<le> avail"
  proof -
    show "?b \<le> x" by (simp add: x_def principal_position_def)
    have "x \<le> avail - ws ! p - ?a"
      using split unfolding x_def principal_position_def by (intro max.boundedI) auto
    then show "x + ws ! p + ?a \<le> avail" using split by linarith
  qed
  have cl: "clamp ((avail - pw) div 2 - off) ?b (avail - ws ! p - ?a) = Some x"
    using split by (simp add: clamp_def x_def principal_position_def)
  obtain ws1 where ws1: "distribute_flexible_space bar ws [0..<p] (x - ?b) = Some ws1"
    "distributed bar ws ws1" "sum_list (take p ws1) \<le> ?b + (x - ?b)" "drop p ws1 = drop p ws"
    using distribute_left [OF p len ok] by blast
  have len1: "length ws1 = length (bar_elements bar)" using ws1(2) len by (simp add: distributed_def)
  have tail: "ws1 ! p = ws ! p" "drop (Suc p) ws1 = drop (Suc p) ws"
    using ws1(4) p len len1 by (metis Cons_nth_drop_Suc list.inject)+
  obtain ws2 where ws2:
    "distribute_flexible_space bar ws1 [p + 1..<length (bar_elements bar)] (avail - x - ws ! p - ?a) = Some ws2"
    "distributed bar ws1 ws2" "take (Suc p) ws2 = take (Suc p) ws1"
    "sum_list (drop (Suc p) ws2) \<le> sum_list (drop (Suc p) ws1) + (avail - x - ws ! p - ?a)"
    using distribute_right [OF p len1 ok] by blast
  have head: "take p ws2 = take p ws1" "ws2 ! p = ws1 ! p"
    using ws2(3) by (metis lessI less_imp_le_nat min.absorb1 take_take, metis lessI nth_take)
  have dist: "distributed bar ws ws2"
    using ws1(2) ws2(2) unfolding distributed_def by (metis order_trans)
  have "place_principal bar avail ws (p, off, pw) = Some (ws2, Some (p, x))"
    using cl ws1(1) ws2(1) x split off by (simp add: place_principal_def Let_def)
  moreover have "x + ws2 ! p + sum_list (drop (Suc p) ws2) \<le> avail"
    using ws2(4) x(2) tail head by simp
  ultimately show ?thesis
    using dist ws1(3) x(1) head tail by auto
qed

section \<open>Placement\<close>

definition feasible :: "nat \<Rightarrow> nat list \<Rightarrow> (nat \<times> nat) option \<Rightarrow> nat \<Rightarrow> nat \<Rightarrow> bool" where
  "feasible avail ws px k x =
     (case px of
        Some (p, x1) \<Rightarrow>
          if k \<le> p then x + sum_list (take (p - k) (drop k ws)) \<le> x1
             \<and> x1 + sum_list (drop p ws) \<le> avail
          else x + sum_list (drop k ws) \<le> avail
      | None \<Rightarrow> x + sum_list (drop k ws) \<le> avail)"

lemma feasible_step:
  assumes "feasible avail ws px k x" and "k < length ws"
  shows "x \<le> pinned px k x" and "pinned px k x + ws ! k \<le> avail"
    and "feasible avail ws px (Suc k) (pinned px k x + ws ! k)"
proof -
  have drop: "drop k ws = ws ! k # drop (Suc k) ws"
    using assms(2) by (simp add: Cons_nth_drop_Suc)
  have take: "take (p - k) (drop k ws) = ws ! k # take (p - Suc k) (drop (Suc k) ws)" if "k < p" for p
    using that drop by (simp add: take_Cons')
  have all: "x \<le> pinned px k x \<and> pinned px k x + ws ! k \<le> avail
    \<and> feasible avail ws px (Suc k) (pinned px k x + ws ! k)"
  proof (cases px)
    case None
    then show ?thesis using assms(1) drop by (auto simp: feasible_def pinned_def)
  next
    case (Some q)
    obtain p x1 where q: "q = (p, x1)" by (cases q)
    consider "k < p" | "k = p" | "p < k" by linarith
    then show ?thesis
    proof cases
      case 1
      then show ?thesis
        using assms(1) Some q take [OF 1] by (auto simp: feasible_def pinned_def)
    qed (use assms(1) Some q drop in \<open>auto simp: feasible_def pinned_def\<close>)
  qed
  then show "x \<le> pinned px k x" "pinned px k x + ws ! k \<le> avail"
    "feasible avail ws px (Suc k) (pinned px k x + ws ! k)" by auto
qed

definition shown_items :: "element list \<Rightarrow> bool list \<Rightarrow> nat \<Rightarrow> item_spec list" where
  "shown_items els visible k =
     concat (map (\<lambda>i. if visible ! i then element_items (els ! i) else []) [k..<length els])"

definition concealed_items :: "element list \<Rightarrow> bool list \<Rightarrow> nat \<Rightarrow> item_spec list" where
  "concealed_items els visible k =
     concat (map (\<lambda>i. if visible ! i then [] else element_items (els ! i)) [k..<length els])"

lemma place_elements_spec:
  assumes "widths_ok bar visible ws" and "avail \<le> u32_max"
    and "ies = enumerate k (drop k (bar_elements bar))" and "feasible avail ws px k x" and "x \<le> avail"
  shows "\<exists>qs x'. place_elements ies visible ws px (ps, hidden) x =
      Some ((ps @ qs, hidden @ map item_id (concealed_items (bar_elements bar) visible k)), x')
    \<and> list_all2 fits_item qs (shown_items (bar_elements bar) visible k)
    \<and> placed_within x x' qs \<and> x' \<le> avail"
  using assms
proof (induction ies arbitrary: k x ps hidden)
  case Nil
  then have "length (bar_elements bar) \<le> k"
    by (metis diff_is_0_eq length_0_conv length_drop length_enumerate)
  then show ?case using Nil.prems by (simp add: shown_items_def concealed_items_def)
next
  case (Cons ie ies)
  let ?els = "bar_elements bar"
  have k: "k < length ?els"
    using Cons.prems(3) by (metis drop_all enumerate_simps(1) linorder_not_le list.distinct(1))
  then have dk: "drop k ?els = ?els ! k # drop (Suc k) ?els" by (simp add: Cons_nth_drop_Suc)
  then have ie: "ie = (k, ?els ! k)" "ies = enumerate (Suc k) (drop (Suc k) ?els)"
    using Cons.prems(3) by auto
  have kw: "k < length ws" using k Cons.prems(1) by (simp add: widths_ok_def)
  define y where "y = pinned px k x"
  note st = feasible_step [OF Cons.prems(4) kw, folded y_def]
  have upt: "[k..<length ?els] = k # [Suc k..<length ?els]" using k by (simp add: upt_conv_Cons)
  obtain qs hs where step:
    "place_element (?els ! k) (visible ! k) y (ws ! k) (ps, hidden) = Some (ps @ qs, hidden @ hs)"
    "hs = map item_id (if visible ! k then [] else element_items (?els ! k))"
    "list_all2 fits_item qs (if visible ! k then element_items (?els ! k) else [])"
    "placed_within y (y + ws ! k) qs"
  proof (cases "visible ! k")
    case True
    then have c: "is_content (?els ! k)"
      "places layout_element (?els ! k) (element_items (?els ! k)) (ws ! k)"
      using Cons.prems(1) k by (auto simp: widths_ok_def)
    from placesD [OF c(2), of y] st(2) Cons.prems(2) that [of _ "[]"] c(1) True show ?thesis
      by (auto simp: place_element_def)
  next
    case False
    then show ?thesis
      using that [of "[]"] not_content_items [of "?els ! k"] by (auto simp: place_element_def collect_item_ids_items)
  qed
  have "place_elements (ie # ies) visible ws px (ps, hidden) x =
    place_elements ies visible ws px (ps @ qs, hidden @ hs) (y + ws ! k)"
    using step(1) unfolding ie(1) by (simp add: y_def Let_def)
  moreover obtain rs x' where "place_elements ies visible ws px (ps @ qs, hidden @ hs) (y + ws ! k) =
      Some (((ps @ qs) @ rs, (hidden @ hs) @ map item_id (concealed_items ?els visible (Suc k))), x')"
    "list_all2 fits_item rs (shown_items ?els visible (Suc k))"
    "placed_within (y + ws ! k) x' rs" "x' \<le> avail"
    using Cons.IH [OF Cons.prems(1,2) ie(2) st(3,2)] by blast
  moreover have "placed_within x (y + ws ! k) qs"
    using step(4) st(1) by (rule placed_within_mono) simp
  ultimately show ?case
    using step(2,3) unfolding shown_items_def concealed_items_def upt
    by (auto intro!: exI [of _ "qs @ rs"] list_all2_appendI placed_within_append)
qed

section \<open>The outcome of a layout\<close>

text \<open>The units that may be hidden, in the order in which they are, and what is visible once
  some of them are.\<close>

definition hiding_order :: "visibility_unit list \<Rightarrow> visibility_unit list" where
  "hiding_order units = filter (\<lambda>u. \<not> vu_required u) (unit_order units)"

definition visible_after :: "bar_spec \<Rightarrow> visibility_unit list \<Rightarrow> bool list" where
  "visible_after bar us = hide_set (map is_content (bar_elements bar)) (units_elements us)"

lemma length_visible_after [simp]: "length (visible_after bar us) = length (bar_elements bar)"
  by (simp add: visible_after_def)

lemma nth_visible_after [simp]:
  "i < length (bar_elements bar) \<Longrightarrow>
     visible_after bar us ! i \<longleftrightarrow> is_content (bar_elements bar ! i) \<and> i \<notin> units_elements us"
  by (simp add: visible_after_def)

lemma visible_after_Nil [simp]: "visible_after bar [] = map is_content (bar_elements bar)"
  by (simp add: visible_after_def units_elements_def)

lemma set_hiding_order [simp]: "set (hiding_order units) = {u \<in> set units. \<not> vu_required u}"
  by (auto simp: hiding_order_def unit_order_def)

lemma units_ok_members:
  assumes "units_ok required els (length els) units" and "u \<in> set units" and "i \<in> set (vu_elements u)"
  shows "i < length els \<and> is_content (els ! i)"
  using units_ok_set(1) [OF assms(1)] assms(2,3) by auto

lemma hiding_members:
  assumes "visibility_units bar required = Inr units"
  shows "\<forall>u\<in>set (hiding_order units). \<forall>i\<in>set (vu_elements u).
    i < length (bar_elements bar) \<and> is_content (bar_elements bar ! i)"
  using units_ok_members [OF visibility_units_ok [OF assms]] by auto

lemma compressed_widths_ok:
  assumes ok: "list_all element_ok (bar_elements bar)"
    and sz: "rmap_list element_sizing (bar_elements bar) = Inr sz"
    and vis: "\<forall>i<length (bar_elements bar). visible ! i \<longrightarrow> is_content (bar_elements bar ! i)"
    and len: "length ws = length (bar_elements bar)"
    and ws: "\<forall>i<length (bar_elements bar).
      element_widths minimum (bar_elements bar) visible sz ! i \<le> ws ! i
      \<and> ws ! i \<le> element_widths preferred (bar_elements bar) visible sz ! i"
  shows "widths_ok bar visible ws"
proof -
  have "places layout_element (bar_elements bar ! i) (element_items (bar_elements bar ! i)) (ws ! i)"
    if i: "i < length (bar_elements bar)" "visible ! i" for i
  proof (rule layout_element_places)
    show "element_ok (bar_elements bar ! i)" using ok i(1) by (simp add: list_all_length)
    show s: "element_sizing (bar_elements bar ! i) = Inr (sz ! i)"
      using rmap_list_nth [OF sz i(1)] .
    have "sizing_ok (sz ! i)"
      using element_sizing_ok [OF \<open>element_ok (bar_elements bar ! i)\<close>] s by auto
    moreover have "minimum (sz ! i) \<le> ws ! i \<and> ws ! i \<le> preferred (sz ! i)"
      using ws [rule_format, OF i(1)] vis i by (simp add: element_width_visible)
    ultimately show "minimum (sz ! i) \<le> ws ! i" "ws ! i \<le> maximum (sz ! i)"
      by (auto simp: sizing_ok_def)
  qed
  then show ?thesis using vis len by (simp add: widths_ok_def)
qed

text \<open>The tail of \<open>resolve\<close>, once the visible elements are known and their minimum fits.\<close>

lemma resolve_tail:
  assumes ok: "list_all element_ok (bar_elements bar)"
    and sz: "rmap_list element_sizing (bar_elements bar) = Inr sz"
    and vis: "length visible = length (bar_elements bar)"
      "\<forall>i<length (bar_elements bar). visible ! i \<longrightarrow> is_content (bar_elements bar ! i)"
    and fit: "total_width bar visible sz \<le> avail" and avail: "avail \<le> u32_max"
  shows "\<exists>ws1 m ws2 px ps x.
    compress_to_fit bar visible sz (element_widths preferred (bar_elements bar) visible sz) avail = Some ws1
    \<and> sum_list ws1 \<le> avail \<and> find_principal bar visible ws1 = Some m
    \<and> (case m of Some m' \<Rightarrow> place_principal bar avail ws1 m'
        | None \<Rightarrow> do { ws2 \<leftarrow> distribute_flexible_space bar ws1 [0..<length (bar_elements bar)]
                                (avail - sum_list ws1); Some (ws2, None) }) = Some (ws2, px)
    \<and> place_elements (enumerate 0 (bar_elements bar)) visible ws2 px ([], []) 0 =
        Some ((ps, map item_id (concealed_items (bar_elements bar) visible 0)), x)
    \<and> list_all2 fits_item ps (shown_items (bar_elements bar) visible 0)
    \<and> placed_within 0 x ps \<and> x \<le> avail"
proof -
  have "\<forall>i<length (bar_elements bar). sizing_ok (sz ! i)"
    using rmap_list_nth [OF sz] element_sizing_ok ok by (fastforce simp: list_all_length)
  from compress_to_fit_spec [OF this fit] obtain ws1 where ws1:
    "compress_to_fit bar visible sz (element_widths preferred (bar_elements bar) visible sz) avail = Some ws1"
    "length ws1 = length (bar_elements bar)"
    "\<forall>i<length (bar_elements bar). element_widths minimum (bar_elements bar) visible sz ! i \<le> ws1 ! i
      \<and> ws1 ! i \<le> element_widths preferred (bar_elements bar) visible sz ! i"
    "sum_list ws1 \<le> avail" by auto
  have wok: "widths_ok bar visible ws1" using compressed_widths_ok [OF ok sz vis(2) ws1(2,3)] .
  obtain m where m: "find_principal bar visible ws1 = Some m"
    "\<forall>i off pw. m = Some (i, off, pw) \<longrightarrow>
      i < length (bar_elements bar) \<and> visible ! i \<and> off + pw \<le> ws1 ! i"
    using find_principal_spec [OF wok ws1(4) avail] by blast
  obtain ws2 px where ws2:
    "(case m of Some m' \<Rightarrow> place_principal bar avail ws1 m'
        | None \<Rightarrow> do { ws2 \<leftarrow> distribute_flexible_space bar ws1 [0..<length (bar_elements bar)]
                                (avail - sum_list ws1); Some (ws2, None) }) = Some (ws2, px)"
    "distributed bar ws1 ws2" "feasible avail ws2 px 0 0"
  proof (cases m)
    case None
    then show ?thesis
      using distribute_all [OF ws1(2) ok, of "avail - sum_list ws1"] ws1(4) that
      by (auto simp: feasible_def)
  next
    case (Some m')
    obtain p off pw where p: "m' = (p, off, pw)" by (cases m')
    from place_principal_spec [OF _ ws1(2) ok, of p off pw avail] m(2) Some p ws1(4)
    obtain ws2 x where "place_principal bar avail ws1 m' = Some (ws2, Some (p, x))"
      "distributed bar ws1 ws2" "sum_list (take p ws2) \<le> x"
      "x + ws2 ! p + sum_list (drop (Suc p) ws2) \<le> avail" "p < length ws2"
      using ws1(2) by (auto simp: distributed_def)
    then show ?thesis
      using that Some by (auto simp: feasible_def Cons_nth_drop_Suc [symmetric])
  qed
  have "widths_ok bar visible ws2" using distributed_widths_ok [OF ws2(2) wok] .
  from place_elements_spec [OF this avail _ ws2(3), of "enumerate 0 (bar_elements bar)" "[]" "[]"]
  show ?thesis using ws1 m(1) ws2(1) by auto
qed

definition accepted :: "bar_spec \<Rightarrow> item_id list \<Rightarrow> visibility_unit list \<Rightarrow> sizing list \<Rightarrow> bool" where
  "accepted bar required units sz \<longleftrightarrow>
     validate_bar bar required = Inr () \<and> visibility_units bar required = Inr units
     \<and> rmap_list element_sizing (bar_elements bar) = Inr sz"

lemma acceptedD:
  assumes "accepted bar required units sz"
  shows "bar_ok bar required" and "list_all element_ok (bar_elements bar)"
    and "units_ok required (bar_elements bar) (length (bar_elements bar)) units"
  using assms validate_bar_ok visibility_units_ok
  by (auto simp: accepted_def bar_ok_def)

text \<open>Errors found before any width is considered.\<close>

definition static_error :: "layout_error \<Rightarrow> bool" where
  "static_error e \<longleftrightarrow> (\<forall>a r. e \<noteq> InsufficientWidth a r)"

lemma group_sizing_error:
  "group_element_sizing e = Inl err \<Longrightarrow> static_error err"
  "group_sizing g = Inl err \<Longrightarrow> static_error err"
proof (induction e and g arbitrary: err and err)
  case (GroupSpec gid es lay sp vp cp)
  then show ?case
    by (auto simp: rbind_eq_Inl combine_sizing_def Let_def static_error_def
        split: if_splits group_layout.splits dest!: rmap_list_Inl_memb)
qed auto

lemma validate_item_error: "validate_item it ids = Inl err \<Longrightarrow> static_error err"
  by (auto simp: validate_item_def static_error_def split: if_splits)

lemma validate_group_error:
  "validate_group_element e d st = Inl err \<Longrightarrow> static_error err"
  "validate_group g d st = Inl err \<Longrightarrow> static_error err"
proof (induction e and g arbitrary: d st err and d st err)
  case (GroupSpec gid es lay sp vp cp)
  then show ?case
    using group_sizing_error(2) [of "GroupSpec gid es lay sp vp cp"]
    by (fastforce simp: rbind_eq_Inl static_error_def simp del: group_sizing.simps
        split: if_splits dest!: rfold_Inl_memb)
qed (auto dest: validate_item_error)

lemma validate_bar_error: "validate_bar bar required = Inl err \<Longrightarrow> static_error err"
proof -
  have el: "static_error e" if "validate_element st ie = Inl e" for st ie e
    using that by (cases "(st, ie)" rule: validate_element.cases)
      (auto dest: validate_item_error validate_group_error split: if_splits simp: static_error_def)
  assume "validate_bar bar required = Inl err"
  then show ?thesis
    by (auto simp: validate_bar_def rbind_eq_Inl split: option.splits if_splits
        dest!: rfold_Inl_memb el) (auto simp: static_error_def)
qed

lemma visibility_units_error: "visibility_units bar required = Inl err \<Longrightarrow> static_error err"
proof -
  have "static_error e" if "add_unit required us ie = Inl e" for us ie e
    using that by (cases "(required, us, ie)" rule: add_unit.cases)
      (auto simp: static_error_def Let_def split: option.splits if_splits)
  then show "visibility_units bar required = Inl err \<Longrightarrow> static_error err"
    by (auto simp: visibility_units_def dest!: rfold_Inl_memb)
qed

lemma resolve_rejects:
  assumes "\<not> (\<exists>units sz. accepted bar required units sz)"
  shows "\<exists>e. resolve bar avail required = Some (Inl e) \<and> static_error e"
proof -
  let ?r = "rbind (validate_bar bar required)
    (\<lambda>_. rbind (visibility_units bar required)
      (\<lambda>units. rmap (\<lambda>sz. (units, sz)) (rmap_list element_sizing (bar_elements bar))))"
  have sizing: "static_error e" if "element_sizing el = Inl e" for el e
    using that by (cases el) (auto dest: group_sizing_error)
  obtain e where e: "?r = Inl e"
    using assms unfolding accepted_def by (cases ?r) (auto simp: Let_def)
  then have "static_error e"
    by (auto simp: rbind_eq_Inl dest: validate_bar_error visibility_units_error
        dest!: rmap_list_Inl_memb sizing)
  then show ?thesis using e by (auto simp: resolve_def)
qed

lemma resolve_accepts:
  assumes acc: "accepted bar required units sz" and avail: "avail \<le> u32_max"
  defines "us \<equiv> hiding_order units"
  shows "\<exists>k\<le>length us.
    (\<forall>j<k. avail < total_width bar (visible_after bar (take j us)) sz)
    \<and> (if total_width bar (visible_after bar (take k us)) sz \<le> avail then
         \<exists>l. resolve bar avail required = Some (Inr l)
           \<and> list_all2 fits_item (placements l)
               (shown_items (bar_elements bar) (visible_after bar (take k us)) 0)
           \<and> hidden_items l =
               map item_id (concealed_items (bar_elements bar) (visible_after bar (take k us)) 0)
           \<and> placed_within 0 (content_width l) (placements l) \<and> content_width l \<le> avail
       else k = length us \<and> resolve bar avail required =
         Some (Inl (InsufficientWidth avail
           (min (total_width bar (visible_after bar (take k us)) sz) u32_max))))"
proof -
  note ok = acceptedD [OF acc]
  have parts: "validate_bar bar required = Inr ()" "visibility_units bar required = Inr units"
    "rmap_list element_sizing (bar_elements bar) = Inr sz"
    using acc by (auto simp: accepted_def)
  let ?v0 = "map is_content (bar_elements bar)"
  let ?hide = "if total_width bar ?v0 sz > avail then hide_units sz avail us ?v0 (total_width bar ?v0 sz)
    else Some (?v0, total_width bar ?v0 sz)"
  obtain k where k: "k \<le> length us" "?hide = Some (visible_after bar (take k us),
      total_width bar (visible_after bar (take k us)) sz)"
    "k = length us \<or> total_width bar (visible_after bar (take k us)) sz \<le> avail"
    "\<forall>j<k. avail < total_width bar (visible_after bar (take j us)) sz"
  proof (cases "avail < total_width bar ?v0 sz")
    case True
    from hide_units_spec [OF _ hiding_members [OF parts(2)] True, folded us_def visible_after_def]
    show ?thesis using that True by auto
  qed (use that [of 0] in simp)
  let ?v = "visible_after bar (take k us)"
  show ?thesis
  proof (cases "total_width bar ?v sz \<le> avail")
    case False
    then have "resolve bar avail required =
      Some (Inl (InsufficientWidth avail (min (total_width bar ?v sz) u32_max)))"
      using k(2) unfolding resolve_def parts us_def hiding_order_def by (simp add: Let_def)
    then show ?thesis using k False by (intro exI [of _ k]) auto
  next
    case True
    have "\<forall>i<length (bar_elements bar). ?v ! i \<longrightarrow> is_content (bar_elements bar ! i)" by simp
    from resolve_tail [OF ok(2) parts(3) _ this True avail] obtain ws1 m ws2 px ps x where tail:
      "compress_to_fit bar ?v sz (element_widths preferred (bar_elements bar) ?v sz) avail = Some ws1"
      "sum_list ws1 \<le> avail" "find_principal bar ?v ws1 = Some m"
      "(case m of Some m' \<Rightarrow> place_principal bar avail ws1 m'
        | None \<Rightarrow> do { ws2 \<leftarrow> distribute_flexible_space bar ws1 [0..<length (bar_elements bar)]
                                (avail - sum_list ws1); Some (ws2, None) }) = Some (ws2, px)"
      "place_elements (enumerate 0 (bar_elements bar)) ?v ws2 px ([], []) 0 =
        Some ((ps, map item_id (concealed_items (bar_elements bar) ?v 0)), x)"
      "list_all2 fits_item ps (shown_items (bar_elements bar) ?v 0)" "placed_within 0 x ps" "x \<le> avail"
      by auto
    have "resolve bar avail required = Some (Inr \<lparr>placements = ps,
      hidden_items = map item_id (concealed_items (bar_elements bar) ?v 0),
      content_width = x mod (u32_max + 1)\<rparr>)"
      using k(2) True tail(1-5) unfolding resolve_def parts us_def hiding_order_def
      by (simp add: Let_def element_widths_enumerate)
    moreover have "x mod (u32_max + 1) = x" using tail(8) avail by simp
    ultimately show ?thesis using k True tail(6-8) by (intro exI [of _ k]) auto
  qed
qed

section \<open>Shown and hidden items\<close>

definition bar_items :: "bar_spec \<Rightarrow> item_spec list" where
  "bar_items bar = concat (map element_items (bar_elements bar))"

lemma bar_item_ids_items: "bar_item_ids bar = map item_id (bar_items bar)"
  by (simp add: bar_item_ids_def bar_items_def map_concat comp_def)
    (simp add: collect_item_ids_items cong: map_cong)

lemma mset_concat_split:
  "mset (concat (map (\<lambda>i. if P i then f i else []) xs)) +
   mset (concat (map (\<lambda>i. if P i then [] else f i) xs)) = mset (concat (map f xs))"
  by (induction xs) auto

lemma bar_items_nth: "bar_items bar = concat (map (\<lambda>i. element_items (bar_elements bar ! i)) [0..<length (bar_elements bar)])"
  unfolding bar_items_def by (rule arg_cong [where f = concat], rule nth_equalityI) auto

lemma mset_shown_concealed:
  "mset (shown_items (bar_elements bar) v 0) + mset (concealed_items (bar_elements bar) v 0) =
     mset (bar_items bar)"
  unfolding shown_items_def concealed_items_def bar_items_nth by (rule mset_concat_split)

lemma shown_concealed_disjoint:
  assumes "distinct (bar_item_ids bar)"
  shows "item_id ` set (shown_items (bar_elements bar) v 0)
    \<inter> item_id ` set (concealed_items (bar_elements bar) v 0) = {}"
proof -
  let ?s = "map item_id (shown_items (bar_elements bar) v 0)"
  let ?c = "map item_id (concealed_items (bar_elements bar) v 0)"
  have "mset (?s @ ?c) = mset (bar_item_ids bar)"
    using arg_cong [OF mset_shown_concealed [of bar v], of "image_mset item_id"]
    by (simp add: bar_item_ids_items)
  then have "distinct (?s @ ?c)" using assms mset_eq_imp_distinct_iff by blast
  then show ?thesis by auto
qed

lemma filter_concat_select:
  assumes "\<And>i. i \<in> set xs \<Longrightarrow> P i \<Longrightarrow> \<forall>y\<in>set (f i). Q y"
    and "\<And>i. i \<in> set xs \<Longrightarrow> \<not> P i \<Longrightarrow> \<forall>y\<in>set (f i). \<not> Q y"
  shows "filter Q (concat (map f xs)) = concat (map (\<lambda>i. if P i then f i else []) xs)"
proof -
  have "filter Q (f i) = (if P i then f i else [])" if "i \<in> set xs" for i
    using assms [OF that] by (auto simp: filter_id_conv filter_empty_conv)
  then have "map (filter Q) (map f xs) = map (\<lambda>i. if P i then f i else []) xs" by simp
  then show ?thesis by (simp only: filter_concat)
qed

lemma shown_items_filter:
  assumes "distinct (bar_item_ids bar)"
  shows "shown_items (bar_elements bar) v 0 =
    filter (\<lambda>it. item_id it \<notin> item_id ` set (concealed_items (bar_elements bar) v 0)) (bar_items bar)"
  unfolding bar_items_nth shown_items_def
proof (rule filter_concat_select [symmetric])
  fix i assume i: "i \<in> set [0..<length (bar_elements bar)]" "v ! i"
  then have "set (element_items (bar_elements bar ! i)) \<subseteq> set (shown_items (bar_elements bar) v 0)"
    by (auto simp: shown_items_def)
  then show "\<forall>y\<in>set (element_items (bar_elements bar ! i)).
      item_id y \<notin> item_id ` set (concealed_items (bar_elements bar) v 0)"
    using shown_concealed_disjoint [OF assms, of v] by blast
next
  fix i assume i: "i \<in> set [0..<length (bar_elements bar)]" "\<not> v ! i"
  then show "\<forall>y\<in>set (element_items (bar_elements bar ! i)).
      \<not> item_id y \<notin> item_id ` set (concealed_items (bar_elements bar) v 0)"
    by (auto simp: concealed_items_def intro!: imageI)
qed

text \<open>Every successful layout comes from a shortest prefix of the hiding order.\<close>

lemma resolve_Inr:
  assumes "resolve bar avail required = Some (Inr l)" and "avail \<le> u32_max"
  obtains units sz k where
    "accepted bar required units sz" "k \<le> length (hiding_order units)"
    "\<forall>j<k. avail < total_width bar (visible_after bar (take j (hiding_order units))) sz"
    "total_width bar (visible_after bar (take k (hiding_order units))) sz \<le> avail"
    "list_all2 fits_item (placements l)
       (shown_items (bar_elements bar) (visible_after bar (take k (hiding_order units))) 0)"
    "hidden_items l =
       map item_id (concealed_items (bar_elements bar) (visible_after bar (take k (hiding_order units))) 0)"
    "placed_within 0 (content_width l) (placements l)" "content_width l \<le> avail"
proof (cases "\<exists>units sz. accepted bar required units sz")
  case False
  then show ?thesis using resolve_rejects [OF False, of avail] assms(1) by auto
next
  case True
  then obtain units sz where acc: "accepted bar required units sz" by blast
  from resolve_accepts [OF acc assms(2)] assms(1) that [OF acc] show ?thesis
    by (auto split: if_splits)
qed

lemma hidden_iff:
  assumes d: "distinct (bar_item_ids bar)" and i: "i < length (bar_elements bar)"
    and a: "a \<in> set (collect_item_ids (bar_elements bar ! i))"
  shows "a \<in> item_id ` set (concealed_items (bar_elements bar) v 0) \<longleftrightarrow> \<not> v ! i"
proof -
  obtain it where it: "it \<in> set (element_items (bar_elements bar ! i))" "a = item_id it"
    using a by (auto simp: collect_item_ids_items)
  have "it \<in> set (shown_items (bar_elements bar) v 0)" if "v ! i"
    using that i it by (force simp: shown_items_def)
  moreover have "it \<in> set (concealed_items (bar_elements bar) v 0)" if "\<not> v ! i"
    using that i it by (force simp: concealed_items_def)
  ultimately show ?thesis
    using shown_concealed_disjoint [OF d, of v] it(2) by blast
qed

lemma bar_item_element:
  "a \<in> set (bar_item_ids bar) \<Longrightarrow>
     \<exists>i<length (bar_elements bar). a \<in> set (collect_item_ids (bar_elements bar ! i))"
  unfolding bar_item_ids_def by simp (metis in_set_conv_nth)

lemma contains_content: "a \<in> set (collect_item_ids el) \<Longrightarrow> is_content el"
  by (cases el) auto

text \<open>An item is hidden exactly when the unit of its element is among the hidden units.\<close>

lemma hidden_unit:
  assumes "resolve bar avail required = Some (Inr l)" and "avail \<le> u32_max"
  obtains units sz k where
    "accepted bar required units sz" "k \<le> length (hiding_order units)"
    "\<forall>j<k. avail < total_width bar (visible_after bar (take j (hiding_order units))) sz"
    "total_width bar (visible_after bar (take k (hiding_order units))) sz \<le> avail"
    "\<And>i a u. i < length (bar_elements bar) \<Longrightarrow> a \<in> set (collect_item_ids (bar_elements bar ! i)) \<Longrightarrow>
       u \<in> set units \<Longrightarrow> i \<in> set (vu_elements u) \<Longrightarrow>
       a \<in> set (hidden_items l) \<longleftrightarrow> u \<in> set (take k (hiding_order units))"
  using assms
proof (rule resolve_Inr)
  fix units sz k
  let ?v = "visible_after bar (take k (hiding_order units))"
  assume acc: "accepted bar required units sz"
    and k: "k \<le> length (hiding_order units)"
      "\<forall>j<k. avail < total_width bar (visible_after bar (take j (hiding_order units))) sz"
      "total_width bar ?v sz \<le> avail"
    and hid: "hidden_items l = map item_id (concealed_items (bar_elements bar) ?v 0)"
  note ok = acceptedD [OF acc]
  have d: "distinct (bar_item_ids bar)" using ok(1) by (simp add: bar_ok_def)
  show ?thesis
  proof (rule that [OF acc k])
    fix i a u
    assume i: "i < length (bar_elements bar)" and a: "a \<in> set (collect_item_ids (bar_elements bar ! i))"
      and u: "u \<in> set units" "i \<in> set (vu_elements u)"
    have c: "is_content (bar_elements bar ! i)" using contains_content [OF a] .
    have sub: "set (take k (hiding_order units)) \<subseteq> set units"
      using set_take_subset [of k "hiding_order units"] by auto
    have "a \<in> set (hidden_items l) \<longleftrightarrow> i \<in> units_elements (take k (hiding_order units))"
      using hidden_iff [OF d i a, of ?v] i c by (simp add: hid)
    also have "\<dots> \<longleftrightarrow> u \<in> set (take k (hiding_order units))"
      using u sub distinct_concat_unique [OF units_ok_set(2) [OF ok(3)], of _ u i]
      unfolding units_elements_def by blast
    finally show "a \<in> set (hidden_items l) \<longleftrightarrow> u \<in> set (take k (hiding_order units))" .
  qed
qed

lemma visible_after_mono: "set us \<subseteq> set vs \<Longrightarrow>
   total_width bar (visible_after bar vs) sz \<le> total_width bar (visible_after bar us) sz"
  by (rule total_width_mono) (auto simp: units_elements_def)

lemma concealed_items_all_visible:
  "concealed_items (bar_elements bar) (map is_content (bar_elements bar)) 0 = []"
  by (auto simp: concealed_items_def not_content_items)

section \<open>A concrete bar\<close>

text \<open>Five items, one pair of them in a group with a principal item, one pair in a visibility
  group, and flexible space between them.\<close>

definition demo_bar :: bar_spec where
  "demo_bar =
     \<lparr>bar_elements =
        [Item ((new_item ''a'' 10 20 30)\<lparr>item_visibility_priority := - 1\<rparr>),
         FlexibleSpace 0 1,
         Group (GroupSpec ''g'' [GItem (new_item ''b'' 10 20 30), GItem (new_item ''c'' 10 25 30)]
           Natural 4 5 0),
         FlexibleSpace 2 2,
         Item ((new_item ''d'' 10 20 30)\<lparr>visibility_group := Some ''v''\<rparr>),
         Item ((new_item ''e'' 10 20 30)\<lparr>visibility_group := Some ''v''\<rparr>)],
      principal_item = Some ''b''\<rparr>"

definition demo_layout :: resolved_layout where
  "demo_layout =
     \<lparr>placements =
        [\<lparr>pl_id = ''a'', pl_x = 0, pl_width = 14\<rparr>, \<lparr>pl_id = ''b'', pl_x = 14, pl_width = 10\<rparr>,
         \<lparr>pl_id = ''c'', pl_x = 28, pl_width = 10\<rparr>],
      hidden_items = [''d'', ''e''], content_width = 40\<rparr>"

lemma resolve_demo: "resolve demo_bar 40 [''a''] = Some (Inr demo_layout)"
  by code_simp

lemma demo_width: "40 \<le> u32_max"
  by (simp add: u32_max_def)

section \<open>Properties\<close>

text \<open>(C4) \<open>resolve\<close> never panics: for every bar, every \<^verbatim>\<open>u32\<close> width and every set of required
  items it returns a layout or a layout error.  No \<^verbatim>\<open>expect\<close>, no subtraction, no \<^verbatim>\<open>clamp\<close> and
  no debug assertion of the layout code can fail, and every loop ends.\<close>

theorem layout_never_panics:
  assumes "avail \<le> u32_max"
  shows "\<exists>r. resolve bar avail required = Some r"
  using resolve_rejects [of bar required avail] resolve_accepts [OF _ assms, of bar required]
  by (cases "\<exists>units sz. accepted bar required units sz") (fastforce split: if_splits)+

theorem layout_never_panics_witness: "\<exists>r. resolve demo_bar 40 [''a''] = Some r"
  using demo_width by (rule layout_never_panics)

text \<open>(C3) The placements of a layout lie inside the bar, run from left to right and do not
  overlap, and the reported content width never exceeds the available width.\<close>

theorem layout_within_bar:
  assumes "avail \<le> u32_max" and "resolve bar avail required = Some (Inr l)"
  shows "placed_within 0 (content_width l) (placements l) \<and> content_width l \<le> avail"
  using resolve_Inr [OF assms(2,1)] by metis

theorem layout_within_bar_witness:
  "placed_within 0 (content_width demo_layout) (placements demo_layout) \<and> content_width demo_layout \<le> 40"
  using demo_width resolve_demo by (rule layout_within_bar)

lemma placed_items:
  assumes "avail \<le> u32_max" and "resolve bar avail required = Some (Inr l)"
  shows "list_all2 fits_item (placements l)
      (filter (\<lambda>it. item_id it \<notin> set (hidden_items l)) (bar_items bar))
    \<and> distinct (map pl_id (placements l) @ hidden_items l)
    \<and> set (hidden_items l) \<subseteq> set (bar_item_ids bar)"
  using assms(2,1)
proof (rule resolve_Inr)
  fix units sz k
  let ?v = "visible_after bar (take k (hiding_order units))"
  assume acc: "accepted bar required units sz"
    and fits: "list_all2 fits_item (placements l) (shown_items (bar_elements bar) ?v 0)"
    and hid: "hidden_items l = map item_id (concealed_items (bar_elements bar) ?v 0)"
  have d: "distinct (bar_item_ids bar)" using acceptedD(1) [OF acc] by (simp add: bar_ok_def)
  have m: "mset (map pl_id (placements l) @ hidden_items l) = mset (bar_item_ids bar)"
    using arg_cong [OF mset_shown_concealed [of bar ?v], of "image_mset item_id"]
    by (simp add: fits_items_ids [OF fits] hid bar_item_ids_items)
  have "distinct (map pl_id (placements l) @ hidden_items l)"
    using mset_eq_imp_distinct_iff [OF m] d by blast
  moreover have "set (hidden_items l) \<subseteq> set (bar_item_ids bar)"
    using mset_eq_setD [OF m] by auto
  moreover have "list_all2 fits_item (placements l)
      (filter (\<lambda>it. item_id it \<notin> set (hidden_items l)) (bar_items bar))"
    using fits unfolding shown_items_filter [OF d] hid by simp
  ultimately show ?thesis by blast
qed

text \<open>(C1) A layout places exactly the items it does not report as hidden, in bar order, each once
  and each in a width between its own minimum and maximum, inside groups too.\<close>

theorem layout_places_items:
  assumes "avail \<le> u32_max" and "resolve bar avail required = Some (Inr l)"
  shows "list_all2 fits_item (placements l)
      (filter (\<lambda>it. item_id it \<notin> set (hidden_items l)) (bar_items bar))
    \<and> distinct (map pl_id (placements l) @ hidden_items l)
    \<and> set (hidden_items l) \<subseteq> set (bar_item_ids bar)"
  using assms by (rule placed_items)

lemma placed_ids:
  assumes "avail \<le> u32_max" and "resolve bar avail required = Some (Inr l)"
  shows "map pl_id (placements l) = filter (\<lambda>i. i \<notin> set (hidden_items l)) (bar_item_ids bar)"
  using fits_items_ids [OF conjunct1 [OF placed_items [OF assms]]]
  by (simp add: bar_item_ids_items filter_map comp_def)

lemma placed_in_bar:
  assumes "avail \<le> u32_max" and "resolve bar avail required = Some (Inr l)"
  shows "placed_within 0 (content_width l) (placements l) \<and> content_width l \<le> avail"
  using assms(2,1) by (rule resolve_Inr) simp

theorem layout_places_items_witness:
  "list_all2 fits_item (placements demo_layout)
      (filter (\<lambda>it. item_id it \<notin> set (hidden_items demo_layout)) (bar_items demo_bar))
    \<and> distinct (map pl_id (placements demo_layout) @ hidden_items demo_layout)
    \<and> set (hidden_items demo_layout) \<subseteq> set (bar_item_ids demo_bar)"
  using demo_width resolve_demo by (rule layout_places_items)

lemma required_kept:
  assumes "avail \<le> u32_max" and "resolve bar avail required = Some (Inr l)"
  shows "set required \<inter> set (hidden_items l) = {} \<and> set required \<subseteq> set (bar_item_ids bar)"
  using assms(2,1)
proof (rule hidden_unit)
  fix units sz k
  assume acc: "accepted bar required units sz"
    and hid: "\<And>i a u. i < length (bar_elements bar) \<Longrightarrow> a \<in> set (collect_item_ids (bar_elements bar ! i)) \<Longrightarrow>
       u \<in> set units \<Longrightarrow> i \<in> set (vu_elements u) \<Longrightarrow>
       a \<in> set (hidden_items l) \<longleftrightarrow> u \<in> set (take k (hiding_order units))"
  note ok = acceptedD [OF acc]
  have sub: "set required \<subseteq> set (bar_item_ids bar)" using ok(1) by (simp add: bar_ok_def)
  have "r \<notin> set (hidden_items l)" if r: "r \<in> set required" for r
  proof -
    obtain i where i: "i < length (bar_elements bar)" "r \<in> set (collect_item_ids (bar_elements bar ! i))"
      using sub r bar_item_element [of r bar] by blast
    obtain u where u: "u \<in> set units" "i \<in> set (vu_elements u)"
      using unit_of_element [OF ok(3) i(1) contains_content [OF i(2)]] by blast
    have "vu_required u"
      using unit_okD [OF ok(3) u(1)] u(2) i(2) r by (auto simp: unit_ok_def required_element_def)
    then have "u \<notin> set (take k (hiding_order units))"
      using set_take_subset [of k "hiding_order units"] by auto
    then show ?thesis using hid [OF i u] by simp
  qed
  then show ?thesis using sub by auto
qed

text \<open>(C2) Every required item is placed, whatever its priority and however narrow the bar: when
  there is no room for it the layout fails instead of hiding it.\<close>

theorem layout_keeps_required:
  assumes "avail \<le> u32_max" and "resolve bar avail required = Some (Inr l)"
  shows "set required \<inter> set (hidden_items l) = {} \<and> set required \<subseteq> set (bar_item_ids bar)"
  using assms by (rule required_kept)

theorem layout_keeps_required_witness:
  "set [''a''] \<inter> set (hidden_items demo_layout) = {} \<and> set [''a''] \<subseteq> set (bar_item_ids demo_bar)"
  using demo_width resolve_demo by (rule layout_keeps_required)

text \<open>Items are hidden in priority order: if an item is hidden while one of lower visibility
  priority is shown, the shown element holds a required item or shares its visibility group with
  an item that is required.\<close>

theorem layout_hides_by_priority:
  assumes "avail \<le> u32_max" and "resolve bar avail required = Some (Inr l)"
    and "i < length (bar_elements bar)" "a \<in> set (collect_item_ids (bar_elements bar ! i))"
    and "j < length (bar_elements bar)" "b \<in> set (collect_item_ids (bar_elements bar ! j))"
    and "a \<in> set (hidden_items l)" and "b \<notin> set (hidden_items l)"
    and "element_visibility_priority (bar_elements bar ! j) < element_visibility_priority (bar_elements bar ! i)"
  shows "\<exists>m<length (bar_elements bar). required_element required (bar_elements bar ! m)
    \<and> (m = j \<or> (element_visibility_group (bar_elements bar ! m) \<noteq> None
        \<and> element_visibility_group (bar_elements bar ! m) = element_visibility_group (bar_elements bar ! j)))"
  using assms(2,1)
proof (rule hidden_unit)
  fix units sz k
  let ?us = "hiding_order units"
  assume acc: "accepted bar required units sz"
    and hid: "\<And>i a u. i < length (bar_elements bar) \<Longrightarrow> a \<in> set (collect_item_ids (bar_elements bar ! i)) \<Longrightarrow>
       u \<in> set units \<Longrightarrow> i \<in> set (vu_elements u) \<Longrightarrow>
       a \<in> set (hidden_items l) \<longleftrightarrow> u \<in> set (take k ?us)"
  note ok = acceptedD [OF acc]
  obtain u where u: "u \<in> set units" "i \<in> set (vu_elements u)"
    using unit_of_element [OF ok(3) assms(3) contains_content [OF assms(4)]] by blast
  obtain v where v: "v \<in> set units" "j \<in> set (vu_elements v)"
    using unit_of_element [OF ok(3) assms(5) contains_content [OF assms(6)]] by blast
  have uv: "u \<in> set (take k ?us)" "v \<notin> set (take k ?us)"
    using hid [OF assms(3,4) u] hid [OF assms(5,6) v] assms(7,8) by auto
  have prio: "vu_priority v < vu_priority u"
    using unit_okD [OF ok(3) u(1)] unit_okD [OF ok(3) v(1)] u(2) v(2) assms(9)
    by (auto simp: unit_ok_def)
  have "vu_required v"
  proof (rule ccontr)
    assume "\<not> vu_required v"
    then have "v \<in> set (take k ?us) \<union> set (drop k ?us)"
      using v(1) by (simp flip: set_append)
    then have d: "v \<in> set (drop k ?us)" using uv(2) by simp
    have "sorted (map (\<lambda>u. (vu_priority u, - int (vu_trailing u))) (take k ?us @ drop k ?us))"
      unfolding append_take_drop_id hiding_order_def unit_order_def
      by (rule sorted_filter) simp
    then have "(vu_priority u, - int (vu_trailing u)) \<le> (vu_priority v, - int (vu_trailing v))"
      using uv(1) d unfolding map_append sorted_append by auto
    then show False using prio by auto
  qed
  then obtain m where m: "m \<in> set (vu_elements v)" "required_element required (bar_elements bar ! m)"
    using unit_okD [OF ok(3) v(1)] by (auto simp: unit_ok_def)
  have "m < length (bar_elements bar)" using units_ok_members [OF ok(3) v(1) m(1)] by simp
  moreover have "m = j \<or> (vu_group v \<noteq> None \<and> element_visibility_group (bar_elements bar ! m) = vu_group v
      \<and> element_visibility_group (bar_elements bar ! j) = vu_group v)"
    using unit_okD [OF ok(3) v(1)] m(1) v(2) by (cases "vu_group v") (auto simp: unit_ok_def length_Suc_conv)
  ultimately show ?thesis using m(2) by auto
qed

theorem layout_hides_by_priority_witness:
  "\<exists>m<length (bar_elements demo_bar). required_element [''a''] (bar_elements demo_bar ! m)
    \<and> (m = 0 \<or> (element_visibility_group (bar_elements demo_bar ! m) \<noteq> None
        \<and> element_visibility_group (bar_elements demo_bar ! m) =
            element_visibility_group (bar_elements demo_bar ! 0)))"
proof (rule layout_hides_by_priority [OF demo_width resolve_demo, of 4 "''d''" 0 "''a''"])
  show "4 < length (bar_elements demo_bar)" "''d'' \<in> set (collect_item_ids (bar_elements demo_bar ! 4))"
    "0 < length (bar_elements demo_bar)" "''a'' \<in> set (collect_item_ids (bar_elements demo_bar ! 0))"
    "''d'' \<in> set (hidden_items demo_layout)" "''a'' \<notin> set (hidden_items demo_layout)"
    "element_visibility_priority (bar_elements demo_bar ! 0) < element_visibility_priority (bar_elements demo_bar ! 4)"
    by code_simp+
qed

text \<open>Items of one visibility group appear and disappear together.\<close>

theorem layout_groups_atomic:
  assumes "avail \<le> u32_max" and "resolve bar avail required = Some (Inr l)"
    and "Item a \<in> set (bar_elements bar)" and "Item b \<in> set (bar_elements bar)"
    and "visibility_group a = Some g" and "visibility_group b = Some g"
  shows "item_id a \<in> set (hidden_items l) \<longleftrightarrow> item_id b \<in> set (hidden_items l)"
  using assms(2,1)
proof (rule hidden_unit)
  fix units sz k
  assume acc: "accepted bar required units sz"
    and hid: "\<And>i a u. i < length (bar_elements bar) \<Longrightarrow> a \<in> set (collect_item_ids (bar_elements bar ! i)) \<Longrightarrow>
       u \<in> set units \<Longrightarrow> i \<in> set (vu_elements u) \<Longrightarrow>
       a \<in> set (hidden_items l) \<longleftrightarrow> u \<in> set (take k (hiding_order units))"
  note ok = acceptedD [OF acc]
  have unit: "\<exists>i u. i < length (bar_elements bar) \<and> bar_elements bar ! i = Item it \<and> u \<in> set units
      \<and> i \<in> set (vu_elements u) \<and> vu_group u = Some g"
    if it: "Item it \<in> set (bar_elements bar)" "visibility_group it = Some g" for it
  proof -
    obtain i where i: "i < length (bar_elements bar)" "bar_elements bar ! i = Item it"
      using it(1) by (auto simp: in_set_conv_nth)
    obtain u where u: "u \<in> set units" "i \<in> set (vu_elements u)"
      using unit_of_element [OF ok(3) i(1)] i(2) by auto
    then show ?thesis using unit_okD [OF ok(3) u(1)] i it(2) by (fastforce simp: unit_ok_def)
  qed
  obtain i u where u: "i < length (bar_elements bar)" "bar_elements bar ! i = Item a" "u \<in> set units"
    "i \<in> set (vu_elements u)" "vu_group u = Some g" using unit [OF assms(3,5)] by blast
  obtain j v where v: "j < length (bar_elements bar)" "bar_elements bar ! j = Item b" "v \<in> set units"
    "j \<in> set (vu_elements v)" "vu_group v = Some g" using unit [OF assms(4,6)] by blast
  have "u = v" using same_group_same_unit [OF ok(3) u(3) v(3) u(5) v(5)] .
  then show ?thesis
    using hid [OF u(1) _ u(3,4), of "item_id a"] hid [OF v(1) _ v(3,4), of "item_id b"] u(2) v(2) by simp
qed

theorem layout_groups_atomic_witness:
  "item_id ((new_item ''d'' 10 20 30)\<lparr>visibility_group := Some ''v''\<rparr>) \<in> set (hidden_items demo_layout) \<longleftrightarrow>
   item_id ((new_item ''e'' 10 20 30)\<lparr>visibility_group := Some ''v''\<rparr>) \<in> set (hidden_items demo_layout)"
  by (rule layout_groups_atomic [OF demo_width resolve_demo, where g = "''v''"])
    (simp_all add: demo_bar_def)

text \<open>Nothing is hidden without need: a bar that passes validation and whose minimum widths
  fit is laid out in full, and otherwise the hidden units are a prefix of the hiding order such
  that one unit fewer would not have fitted.\<close>

theorem layout_hides_minimally:
  assumes "avail \<le> u32_max" and "resolve bar avail required = Some (Inr l)"
    and "visibility_units bar required = Inr units"
    and "rmap_list element_sizing (bar_elements bar) = Inr sz"
  shows "(total_width bar (map is_content (bar_elements bar)) sz \<le> avail \<longrightarrow> hidden_items l = [])
    \<and> (\<exists>k\<le>length (hiding_order units).
         hidden_items l = map item_id (concealed_items (bar_elements bar)
           (visible_after bar (take k (hiding_order units))) 0)
         \<and> total_width bar (visible_after bar (take k (hiding_order units))) sz \<le> avail
         \<and> (\<forall>j<k. avail < total_width bar (visible_after bar (take j (hiding_order units))) sz))"
  using assms(2,1)
proof (rule resolve_Inr)
  fix units' sz' k
  assume acc: "accepted bar required units' sz'"
  have eq: "units' = units" "sz' = sz" using acc assms(3,4) by (auto simp: accepted_def)
  assume k: "k \<le> length (hiding_order units')"
    "\<forall>j<k. avail < total_width bar (visible_after bar (take j (hiding_order units'))) sz'"
    "total_width bar (visible_after bar (take k (hiding_order units'))) sz' \<le> avail"
    "hidden_items l = map item_id
      (concealed_items (bar_elements bar) (visible_after bar (take k (hiding_order units'))) 0)"
  have "hidden_items l = []" if "total_width bar (map is_content (bar_elements bar)) sz \<le> avail"
  proof -
    have "k = 0" using k(2) that eq by (cases k) auto
    then show ?thesis using k(4) by (simp add: concealed_items_all_visible)
  qed
  then show ?thesis using k unfolding eq by blast
qed

definition demo_units :: "visibility_unit list" where
  "demo_units =
     [\<lparr>vu_group = None, vu_elements = [0], vu_priority = - 1, vu_trailing = 0, vu_required = True\<rparr>,
      \<lparr>vu_group = None, vu_elements = [2], vu_priority = 5, vu_trailing = 2, vu_required = False\<rparr>,
      \<lparr>vu_group = Some ''v'', vu_elements = [4, 5], vu_priority = 0, vu_trailing = 5,
       vu_required = False\<rparr>]"

definition demo_sizing :: "sizing list" where
  "demo_sizing =
     [item_sizing (new_item ''a'' 10 20 30), fixed_sizing 0,
      \<lparr>minimum = 24, preferred = 49, maximum = 64\<rparr>, fixed_sizing 2,
      item_sizing (new_item ''d'' 10 20 30), item_sizing (new_item ''e'' 10 20 30)]"

lemma demo_units_eq: "visibility_units demo_bar [''a''] = Inr demo_units"
  by code_simp

lemma demo_sizing_eq: "rmap_list element_sizing (bar_elements demo_bar) = Inr demo_sizing"
  by code_simp

theorem layout_hides_minimally_witness:
  "\<exists>k\<le>length (hiding_order demo_units).
     hidden_items demo_layout = map item_id (concealed_items (bar_elements demo_bar)
       (visible_after demo_bar (take k (hiding_order demo_units))) 0)
     \<and> total_width demo_bar (visible_after demo_bar (take k (hiding_order demo_units))) demo_sizing \<le> 40
     \<and> (\<forall>j<k. 40 < total_width demo_bar (visible_after demo_bar (take j (hiding_order demo_units))) demo_sizing)"
  using layout_hides_minimally [OF demo_width resolve_demo demo_units_eq demo_sizing_eq] by blast

text \<open>The layout reports insufficient width exactly when the bar passes validation and even
  the content that may not be hidden, with the fixed and flexible spaces at their minimum, is
  wider than the bar; the reported width is that minimum, capped at \<^verbatim>\<open>u32::MAX\<close>.\<close>

theorem layout_insufficient_exactly:
  assumes "avail \<le> u32_max"
  shows "resolve bar avail required = Some (Inl (InsufficientWidth a r)) \<longleftrightarrow>
    (\<exists>units sz. accepted bar required units sz \<and> a = avail
      \<and> avail < total_width bar (visible_after bar (hiding_order units)) sz
      \<and> r = min (total_width bar (visible_after bar (hiding_order units)) sz) u32_max)"
    (is "?l \<longleftrightarrow> ?r")
proof
  assume ?l
  have "\<exists>units sz. accepted bar required units sz"
    using resolve_rejects [of bar required avail] \<open>?l\<close> by (auto simp: static_error_def)
  then obtain units sz where acc: "accepted bar required units sz" by blast
  from resolve_accepts [OF acc assms] \<open>?l\<close>
  have "a = avail \<and> avail < total_width bar (visible_after bar (hiding_order units)) sz
      \<and> r = min (total_width bar (visible_after bar (hiding_order units)) sz) u32_max"
    by (auto split: if_splits)
  then show ?r using acc by blast
next
  assume ?r
  then obtain units sz where acc: "accepted bar required units sz" and a: "a = avail"
    and w: "avail < total_width bar (visible_after bar (hiding_order units)) sz"
    and r: "r = min (total_width bar (visible_after bar (hiding_order units)) sz) u32_max"
    by blast
  have big: "\<not> total_width bar (visible_after bar (take k (hiding_order units))) sz \<le> avail" for k
    using w visible_after_mono [OF set_take_subset, of bar "hiding_order units" sz k] by linarith
  show ?l using resolve_accepts [OF acc assms] unfolding a r by (auto simp: big)
qed

theorem layout_insufficient_exactly_witness:
  "resolve demo_bar 8 [''a''] = Some (Inl (InsufficientWidth 8 12)) \<longleftrightarrow>
    (\<exists>units sz. accepted demo_bar [''a''] units sz \<and> (8::nat) = 8
      \<and> 8 < total_width demo_bar (visible_after demo_bar (hiding_order units)) sz
      \<and> 12 = min (total_width demo_bar (visible_after demo_bar (hiding_order units)) sz) u32_max)"
  by (rule layout_insufficient_exactly) (simp add: u32_max_def)

end
