(* ===== verification/Bar_Registry.thy ===== *)
theory Bar_Registry
  imports Bar_Context Layout_Correct
begin

text \<open>
  The item and bar registry of \<^verbatim>\<open>touchbar-model\<close> and the composition of the active bars into
  one \<^typ>\<open>bar_spec\<close>.

  Maps are the sorted maps of \<open>Ordered_Map\<close>.  The \<^verbatim>\<open>unreachable!\<close> of
  \<^verbatim>\<open>compose_active_chain\<close> is a \<open>None\<close> branch; it is shown not to be taken, because validation
  admits at most one context proxy per bar.
\<close>

record item_definition =
  idef_layout :: item_spec
  idef_label :: string
  idef_expanded_bar :: "bar_id option"
  idef_press_and_hold_bar :: "bar_id option"

datatype bar_group_element = BGItem item_id | BGGroup bar_group
and bar_group = BarGroup (bg_id: string) (bg_elements: "bar_group_element list")
  (bg_layout: group_layout) (bg_spacing: nat) (bg_visibility_priority: int)
  (bg_compression_priority: int)

datatype bar_element =
    BItem item_id
  | BGroup bar_group
  | BFixedSpace nat
  | BFlexibleSpace nat nat
  | ContextProxy

record bar_definition =
  bdef_id :: bar_id
  bdef_elements :: "bar_element list"
  bdef_principal_item :: "item_id option"

record registry =
  reg_items :: "(item_id, item_definition) btree"
  reg_bars :: "(bar_id, bar_definition) btree"

datatype model_error =
    MEmptyItemId
  | MEmptyItemLabel item_id
  | MEmptyBarId
  | MDuplicateItem item_id
  | MDuplicateBar bar_id
  | MUnknownItem bar_id item_id
  | MUnknownExpandedBar item_id bar_id
  | MMultipleContextProxies bar_id
  | MZeroFlexibleWeight bar_id
  | MEmptyGroupId bar_id
  | MDuplicateGroup bar_id string
  | MGroupDepthExceeded bar_id string
  | MPrincipalNotInBar bar_id item_id
  | MEmptyActiveChain
  | MUnknownActiveBar bar_id
  | MUnknownComposedItem item_id

section \<open>Registration\<close>

definition add_item :: "item_definition \<Rightarrow> registry \<Rightarrow> (model_error, registry) result" where
  "add_item it reg =
     (let i = item_id (idef_layout it) in
      if i = [] then Inl MEmptyItemId
      else if str_blank (idef_label it) then Inl (MEmptyItemLabel i)
      else if bt_get (reg_items reg) i \<noteq> None then Inl (MDuplicateItem i)
      else Inr (reg\<lparr>reg_items := bt_insert i it (reg_items reg)\<rparr>))"

definition add_bar :: "bar_definition \<Rightarrow> registry \<Rightarrow> (model_error, registry) result" where
  "add_bar bar reg =
     (if bdef_id bar = [] then Inl MEmptyBarId
      else if bt_get (reg_bars reg) (bdef_id bar) \<noteq> None then Inl (MDuplicateBar (bdef_id bar))
      else Inr (reg\<lparr>reg_bars := bt_insert (bdef_id bar) bar (reg_bars reg)\<rparr>))"

section \<open>Validation\<close>

fun bar_group_element_contains_item :: "bar_group_element \<Rightarrow> item_id \<Rightarrow> bool"
and bar_group_contains_item :: "bar_group \<Rightarrow> item_id \<Rightarrow> bool" where
  "bar_group_element_contains_item (BGItem it) target = (it = target)"
| "bar_group_element_contains_item (BGGroup g) target = bar_group_contains_item g target"
| "bar_group_contains_item (BarGroup gid es lay sp vp cp) target =
     list_ex (\<lambda>e. bar_group_element_contains_item e target) es"

fun bar_element_contains_item :: "bar_element \<Rightarrow> item_id \<Rightarrow> bool" where
  "bar_element_contains_item (BItem it) target = (it = target)"
| "bar_element_contains_item (BGroup g) target = bar_group_contains_item g target"
| "bar_element_contains_item (BFixedSpace _) target = False"
| "bar_element_contains_item (BFlexibleSpace _ _) target = False"
| "bar_element_contains_item ContextProxy target = False"

fun validate_bar_group_element ::
  "registry \<Rightarrow> bar_id \<Rightarrow> bar_group_element \<Rightarrow> nat \<Rightarrow> string set \<Rightarrow> (model_error, string set) result"
and validate_bar_group ::
  "registry \<Rightarrow> bar_id \<Rightarrow> bar_group \<Rightarrow> nat \<Rightarrow> string set \<Rightarrow> (model_error, string set) result" where
  "validate_bar_group_element reg bar (BGItem it) depth gids =
     (if bt_get (reg_items reg) it = None then Inl (MUnknownItem bar it) else Inr gids)"
| "validate_bar_group_element reg bar (BGGroup g) depth gids = validate_bar_group reg bar g depth gids"
| "validate_bar_group reg bar (BarGroup gid es lay sp vp cp) depth gids =
     (if str_blank gid then Inl (MEmptyGroupId bar)
      else if depth > MAX_GROUP_DEPTH then Inl (MGroupDepthExceeded bar gid)
      else if gid \<in> gids then Inl (MDuplicateGroup bar gid)
      else rfold (\<lambda>gs e. validate_bar_group_element reg bar e (depth + 1) gs) (insert gid gids) es)"

fun validate_bar_element ::
  "registry \<Rightarrow> bar_id \<Rightarrow> string set \<Rightarrow> bar_element \<Rightarrow> (model_error, string set) result" where
  "validate_bar_element reg bar gids (BItem it) =
     (if bt_get (reg_items reg) it = None then Inl (MUnknownItem bar it) else Inr gids)"
| "validate_bar_element reg bar gids (BGroup g) = validate_bar_group reg bar g 1 gids"
| "validate_bar_element reg bar gids (BFlexibleSpace _ weight) =
     (if weight = 0 then Inl (MZeroFlexibleWeight bar) else Inr gids)"
| "validate_bar_element reg bar gids (BFixedSpace _) = Inr gids"
| "validate_bar_element reg bar gids ContextProxy = Inr gids"

definition validate_item_targets :: "registry \<Rightarrow> item_definition \<Rightarrow> (model_error, unit) result" where
  "validate_item_targets reg it =
     rfold (\<lambda>_ target.
        if bt_get (reg_bars reg) target = None
        then Inl (MUnknownExpandedBar (item_id (idef_layout it)) target) else Inr ())
       () (List.map_filter id [idef_expanded_bar it, idef_press_and_hold_bar it])"

definition validate_bar_definition :: "registry \<Rightarrow> bar_definition \<Rightarrow> (model_error, unit) result" where
  "validate_bar_definition reg bar =
     (if length (filter (\<lambda>e. e = ContextProxy) (bdef_elements bar)) > 1
      then Inl (MMultipleContextProxies (bdef_id bar))
      else
        rbind (rfold (validate_bar_element reg (bdef_id bar)) {} (bdef_elements bar))
          (\<lambda>_. case bdef_principal_item bar of
                 Some p \<Rightarrow>
                   if list_ex (\<lambda>e. bar_element_contains_item e p) (bdef_elements bar) then Inr ()
                   else Inl (MPrincipalNotInBar (bdef_id bar) p)
               | None \<Rightarrow> Inr ()))"

definition registry_validate :: "registry \<Rightarrow> (model_error, unit) result" where
  "registry_validate reg =
     rbind (rfold (\<lambda>_. validate_item_targets reg) () (bt_values (reg_items reg)))
       (\<lambda>_. rfold (\<lambda>_. validate_bar_definition reg) () (bt_values (reg_bars reg)))"

section \<open>Composition\<close>

definition without_proxy :: "bar_element list \<Rightarrow> bar_element list" where
  "without_proxy els = filter (\<lambda>e. e \<noteq> ContextProxy) els"

definition proxy_position :: "bar_element list \<Rightarrow> nat option" where
  "proxy_position els = find (\<lambda>i. els ! i = ContextProxy) [0..<length els]"

definition wrap_bar :: "bar_element list \<Rightarrow> bar_element list \<Rightarrow> bar_element list" where
  "wrap_bar composed outer =
     (case proxy_position outer of
        None \<Rightarrow> composed
      | Some proxy \<Rightarrow> take proxy outer @ composed @ drop (proxy + 1) outer)"

fun resolve_bar_group_element :: "registry \<Rightarrow> bar_group_element \<Rightarrow> (model_error, group_element) result"
and resolve_bar_group :: "registry \<Rightarrow> bar_group \<Rightarrow> (model_error, group_spec) result" where
  "resolve_bar_group_element reg (BGItem i) =
     rmap (\<lambda>it. GItem (idef_layout it)) (ok_or (MUnknownComposedItem i) (bt_get (reg_items reg) i))"
| "resolve_bar_group_element reg (BGGroup g) = rmap GGroup (resolve_bar_group reg g)"
| "resolve_bar_group reg (BarGroup gid es lay sp vp cp) =
     rmap (\<lambda>els. GroupSpec gid els lay sp vp cp) (rmap_list (resolve_bar_group_element reg) es)"

text \<open>The conversion of one composed element; the proxy is the \<^verbatim>\<open>unreachable!\<close>.\<close>

fun resolve_bar_element :: "registry \<Rightarrow> bar_element \<Rightarrow> (model_error, element) result option" where
  "resolve_bar_element reg (BItem i) =
     Some (rmap (\<lambda>it. Item (idef_layout it)) (ok_or (MUnknownComposedItem i) (bt_get (reg_items reg) i)))"
| "resolve_bar_element reg (BGroup g) = Some (rmap Group (resolve_bar_group reg g))"
| "resolve_bar_element reg (BFixedSpace w) = Some (Inr (FixedSpace w))"
| "resolve_bar_element reg (BFlexibleSpace m w) = Some (Inr (FlexibleSpace m w))"
| "resolve_bar_element reg ContextProxy = None"

text \<open>\<^verbatim>\<open>collect\<close> into a result: elements are converted in order until the first error.\<close>

fun collect_elements ::
  "registry \<Rightarrow> bar_element list \<Rightarrow> (model_error, element list) result option" where
  "collect_elements reg [] = Some (Inr [])"
| "collect_elements reg (e # es) =
     do { r \<leftarrow> resolve_bar_element reg e;
          (case r of
             Inl err \<Rightarrow> Some (Inl err)
           | Inr el \<Rightarrow> do { rest \<leftarrow> collect_elements reg es; Some (rmap (\<lambda>els. el # els) rest) }) }"

definition active_bar :: "registry \<Rightarrow> bar_id \<Rightarrow> (model_error, bar_definition) result" where
  "active_bar reg i = ok_or (MUnknownActiveBar i) (bt_get (reg_bars reg) i)"

definition compose_elements :: "registry \<Rightarrow> bar_id list \<Rightarrow> (model_error, bar_element list) result" where
  "compose_elements reg active =
     rbind (registry_validate reg)
       (\<lambda>_. case active of
          [] \<Rightarrow> Inl MEmptyActiveChain
        | first # rest \<Rightarrow>
            rbind (active_bar reg first)
              (\<lambda>bar. rfold (\<lambda>composed i. rmap (\<lambda>outer. wrap_bar composed (bdef_elements outer)) (active_bar reg i))
                 (without_proxy (bdef_elements bar)) rest))"

definition composed_principal :: "registry \<Rightarrow> bar_id list \<Rightarrow> bar_element list \<Rightarrow> item_id option" where
  "composed_principal reg active composed =
     (case List.map_filter
        (\<lambda>i. case bt_get (reg_bars reg) i of
               None \<Rightarrow> None
             | Some bar \<Rightarrow>
                 (case bdef_principal_item bar of
                    None \<Rightarrow> None
                  | Some p \<Rightarrow>
                      if list_ex (\<lambda>e. bar_element_contains_item e p) composed then Some p else None))
        active of
      [] \<Rightarrow> None | p # _ \<Rightarrow> Some p)"

definition compose_active_chain :: "registry \<Rightarrow> bar_id list \<Rightarrow> (model_error, bar_spec) result option" where
  "compose_active_chain reg active =
     (case compose_elements reg active of
        Inl e \<Rightarrow> Some (Inl e)
      | Inr composed \<Rightarrow>
          do { r \<leftarrow> collect_elements reg composed;
               Some (rmap (\<lambda>els. \<lparr>bar_elements = els,
                                  principal_item = composed_principal reg active composed\<rparr>) r) })"

section \<open>Registered items and bars\<close>

definition registry_ok :: "registry \<Rightarrow> bool" where
  "registry_ok reg \<longleftrightarrow>
     bt_ok (reg_items reg) \<and> bt_ok (reg_bars reg)
     \<and> (\<forall>i it. bt_get (reg_items reg) i = Some it \<longrightarrow>
          item_id (idef_layout it) = i \<and> i \<noteq> [] \<and> \<not> str_blank (idef_label it))
     \<and> (\<forall>i bar. bt_get (reg_bars reg) i = Some bar \<longrightarrow> bdef_id bar = i \<and> i \<noteq> [])"

definition empty_registry :: registry where
  "empty_registry = \<lparr>reg_items = [], reg_bars = []\<rparr>"

lemma registry_ok_empty [invar_intro]: "registry_ok empty_registry"
  by (simp add: registry_ok_def empty_registry_def)

lemma registry_ok_add_item [invar_intro]:
  "registry_ok reg \<Longrightarrow> add_item it reg = Inr reg' \<Longrightarrow> registry_ok reg'"
  by (auto simp: registry_ok_def add_item_def Let_def split: if_splits) blast+

lemma registry_ok_add_bar [invar_intro]:
  "registry_ok reg \<Longrightarrow> add_bar bar reg = Inr reg' \<Longrightarrow> registry_ok reg'"
  by (auto simp: registry_ok_def add_bar_def split: if_splits) blast+

fun bar_group_element_ids :: "bar_group_element \<Rightarrow> item_id list"
and bar_group_ids :: "bar_group \<Rightarrow> item_id list" where
  "bar_group_element_ids (BGItem i) = [i]"
| "bar_group_element_ids (BGGroup g) = bar_group_ids g"
| "bar_group_ids (BarGroup gid es lay sp vp cp) = concat (map bar_group_element_ids es)"

fun bar_element_ids :: "bar_element \<Rightarrow> item_id list" where
  "bar_element_ids (BItem i) = [i]"
| "bar_element_ids (BGroup g) = bar_group_ids g"
| "bar_element_ids _ = []"

lemma bar_group_contains_ids:
  "bar_group_element_contains_item e i \<longleftrightarrow> i \<in> set (bar_group_element_ids e)"
  "bar_group_contains_item g i \<longleftrightarrow> i \<in> set (bar_group_ids g)"
  by (induction e and g rule: bar_group_element_ids_bar_group_ids.induct) (auto simp: list_ex_iff)

lemma bar_element_contains_ids: "bar_element_contains_item e i \<longleftrightarrow> i \<in> set (bar_element_ids e)"
  by (cases e) (auto simp: bar_group_contains_ids)

section \<open>What validation establishes\<close>

fun bar_group_element_valid :: "registry \<Rightarrow> nat \<Rightarrow> bar_group_element \<Rightarrow> bool"
and bar_group_valid :: "registry \<Rightarrow> nat \<Rightarrow> bar_group \<Rightarrow> bool" where
  "bar_group_element_valid reg d (BGItem i) = (bt_get (reg_items reg) i \<noteq> None)"
| "bar_group_element_valid reg d (BGGroup g) = bar_group_valid reg d g"
| "bar_group_valid reg d (BarGroup gid es lay sp vp cp) \<longleftrightarrow>
     gid \<noteq> [] \<and> d \<le> MAX_GROUP_DEPTH \<and> list_all (bar_group_element_valid reg (d + 1)) es"

fun bar_element_valid :: "registry \<Rightarrow> bar_element \<Rightarrow> bool" where
  "bar_element_valid reg (BItem i) = (bt_get (reg_items reg) i \<noteq> None)"
| "bar_element_valid reg (BGroup g) = bar_group_valid reg 1 g"
| "bar_element_valid reg (BFixedSpace _) = True"
| "bar_element_valid reg (BFlexibleSpace _ w) = (0 < w)"
| "bar_element_valid reg ContextProxy = True"

lemma rfold_list_all:
  assumes "rfold f s xs = Inr t" and "\<And>x u v. x \<in> set xs \<Longrightarrow> f u x = Inr v \<Longrightarrow> P x"
  shows "list_all P xs"
  using assms by (induction xs arbitrary: s) auto

lemma validate_bar_group_valid:
  "validate_bar_group_element reg bar e d gids = Inr gids' \<Longrightarrow> bar_group_element_valid reg d e"
  "validate_bar_group reg bar g d gids = Inr gids' \<Longrightarrow> bar_group_valid reg d g"
proof (induction e and g arbitrary: d gids gids' and d gids gids')
  case (BarGroup gid es lay sp vp cp)
  from BarGroup.prems have
    fold: "rfold (\<lambda>gs e. validate_bar_group_element reg bar e (d + 1) gs) (insert gid gids) es = Inr gids'"
    and "\<not> str_blank gid" "d \<le> MAX_GROUP_DEPTH"
    by (auto split: if_splits)
  moreover have "list_all (bar_group_element_valid reg (d + 1)) es"
    using fold by (rule rfold_list_all) (use BarGroup.IH in blast)
  ultimately show ?case by auto
qed (auto split: if_splits)

lemma validate_bar_element_valid:
  "validate_bar_element reg bar gids e = Inr gids' \<Longrightarrow> bar_element_valid reg e"
  by (cases e) (auto dest: validate_bar_group_valid split: if_splits)

lemma registry_validate_bar:
  assumes "registry_validate reg = Inr ()" and "bt_ok (reg_bars reg)"
    and "bt_get (reg_bars reg) i = Some bar"
  shows "list_all (bar_element_valid reg) (bdef_elements bar)"
    and "length (filter (\<lambda>e. e = ContextProxy) (bdef_elements bar)) \<le> 1"
proof -
  have "rfold (\<lambda>_. validate_bar_definition reg) () (bt_values (reg_bars reg)) = Inr ()"
    using assms(1) by (auto simp: registry_validate_def)
  then have "list_all (\<lambda>b. validate_bar_definition reg b = Inr ()) (bt_values (reg_bars reg))"
    by (rule rfold_list_all) simp
  moreover have "bar \<in> set (bt_values (reg_bars reg))" using assms(2,3) by (rule bt_get_Some_value)
  ultimately have v: "validate_bar_definition reg bar = Inr ()" by (simp add: list_all_iff)
  then obtain gids where "rfold (validate_bar_element reg (bdef_id bar)) {} (bdef_elements bar) = Inr gids"
    by (auto simp: validate_bar_definition_def split: if_splits)
  then show "list_all (bar_element_valid reg) (bdef_elements bar)"
    by (rule rfold_list_all) (rule validate_bar_element_valid)
  show "length (filter (\<lambda>e. e = ContextProxy) (bdef_elements bar)) \<le> 1"
    using v by (auto simp: validate_bar_definition_def split: if_splits)
qed

section \<open>Composition\<close>

lemma proxy_position_Some:
  assumes "proxy_position els = Some k"
  shows "k < length els" and "els = take k els @ ContextProxy # drop (k + 1) els"
proof -
  show k: "k < length els" using find_SomeD [OF assms [unfolded proxy_position_def]] by simp
  have "els ! k = ContextProxy" using find_SomeD [OF assms [unfolded proxy_position_def]] by simp
  then show "els = take k els @ ContextProxy # drop (k + 1) els"
    using id_take_nth_drop [OF k] by simp
qed

lemma no_proxy_filter: "ContextProxy \<notin> set els \<longleftrightarrow> length (filter (\<lambda>e. e = ContextProxy) els) = 0"
  by (auto simp: filter_empty_conv)

lemma wrap_bar_props:
  assumes "list_all (bar_element_valid reg) outer" and "length (filter (\<lambda>e. e = ContextProxy) outer) \<le> 1"
    and "list_all (bar_element_valid reg) composed" and "ContextProxy \<notin> set composed"
  shows "list_all (bar_element_valid reg) (wrap_bar composed outer)"
    and "ContextProxy \<notin> set (wrap_bar composed outer)"
    and "\<exists>pre post. wrap_bar composed outer = pre @ composed @ post"
proof -
  have all: "list_all (bar_element_valid reg) (wrap_bar composed outer)
    \<and> ContextProxy \<notin> set (wrap_bar composed outer)
    \<and> (\<exists>pre post. wrap_bar composed outer = pre @ composed @ post)"
  proof (cases "proxy_position outer")
    case None
    then have "wrap_bar composed outer = [] @ composed @ []" by (simp add: wrap_bar_def)
    then show ?thesis using assms(3,4) by (metis append_Nil append_Nil2)
  next
    case (Some k)
    let ?pre = "take k outer" and ?post = "drop (k + 1) outer"
    have outer: "outer = ?pre @ ContextProxy # ?post" using proxy_position_Some(2) [OF Some] .
    have "length (filter (\<lambda>e. e = ContextProxy) (?pre @ ContextProxy # ?post)) \<le> 1"
      using assms(2) outer by simp
    then have "ContextProxy \<notin> set ?pre" "ContextProxy \<notin> set ?post"
      unfolding no_proxy_filter by simp_all
    moreover have "list_all (bar_element_valid reg) (?pre @ ContextProxy # ?post)"
      using assms(1) outer by simp
    ultimately show ?thesis using Some assms(3,4) by (auto simp: wrap_bar_def)
  qed
  then show "list_all (bar_element_valid reg) (wrap_bar composed outer)"
    "ContextProxy \<notin> set (wrap_bar composed outer)"
    "\<exists>pre post. wrap_bar composed outer = pre @ composed @ post" by auto
qed

lemma compose_fold_props:
  assumes reg: "registry_validate reg = Inr ()" "registry_ok reg"
    and "rfold (\<lambda>composed i. rmap (\<lambda>outer. wrap_bar composed (bdef_elements outer)) (active_bar reg i))
      start rest = Inr composed"
    and "list_all (bar_element_valid reg) start" and "ContextProxy \<notin> set start"
  shows "list_all (bar_element_valid reg) composed \<and> ContextProxy \<notin> set composed
    \<and> (\<exists>pre post. composed = pre @ start @ post)"
  using assms(3-)
proof (induction rest arbitrary: start)
  case (Cons i rest)
  then obtain outer where outer: "bt_get (reg_bars reg) i = Some outer"
    "rfold (\<lambda>composed i. rmap (\<lambda>outer. wrap_bar composed (bdef_elements outer)) (active_bar reg i))
      (wrap_bar start (bdef_elements outer)) rest = Inr composed"
    by (auto simp: active_bar_def)
  note ob = registry_validate_bar [OF reg(1) _ outer(1)]
  have ok: "bt_ok (reg_bars reg)" using reg(2) by (simp add: registry_ok_def)
  note w = wrap_bar_props [OF ob [OF ok] Cons.prems(2,3)]
  from Cons.IH [OF outer(2) w(1,2)] w(3) show ?case by (metis append.assoc)
qed (auto intro!: exI [of _ "[]"])

lemma compose_elements_props:
  assumes "compose_elements reg active = Inr composed" and "registry_ok reg"
  shows "list_all (bar_element_valid reg) composed" and "ContextProxy \<notin> set composed"
    and "\<exists>bar pre post. bt_get (reg_bars reg) (hd active) = Some bar
      \<and> composed = pre @ without_proxy (bdef_elements bar) @ post"
proof -
  from assms(1) obtain first rest bar where v: "registry_validate reg = Inr ()"
    and act: "active = first # rest" and bar: "bt_get (reg_bars reg) first = Some bar"
    and fold: "rfold (\<lambda>composed i. rmap (\<lambda>outer. wrap_bar composed (bdef_elements outer)) (active_bar reg i))
      (without_proxy (bdef_elements bar)) rest = Inr composed"
    by (auto simp: compose_elements_def active_bar_def split: list.splits)
  have ok: "bt_ok (reg_bars reg)" using assms(2) by (simp add: registry_ok_def)
  have "list_all (bar_element_valid reg) (without_proxy (bdef_elements bar))"
    using registry_validate_bar(1) [OF v ok bar] by (auto simp: without_proxy_def list_all_iff)
  moreover have "ContextProxy \<notin> set (without_proxy (bdef_elements bar))" by (simp add: without_proxy_def)
  ultimately have props: "list_all (bar_element_valid reg) composed \<and> ContextProxy \<notin> set composed
    \<and> (\<exists>pre post. composed = pre @ without_proxy (bdef_elements bar) @ post)"
    by (rule compose_fold_props [OF v assms(2) fold])
  then show "list_all (bar_element_valid reg) composed" "ContextProxy \<notin> set composed" by auto
  show "\<exists>bar pre post. bt_get (reg_bars reg) (hd active) = Some bar
      \<and> composed = pre @ without_proxy (bdef_elements bar) @ post"
    using props bar act by auto
qed

section \<open>Resolved elements\<close>

lemma resolve_bar_group_valid:
  "bar_group_element_valid reg d e \<Longrightarrow> registry_ok reg \<Longrightarrow>
     \<exists>ge. resolve_bar_group_element reg e = Inr ge \<and> group_element_ids ge = bar_group_element_ids e"
  "bar_group_valid reg d g \<Longrightarrow> registry_ok reg \<Longrightarrow>
     \<exists>gs. resolve_bar_group reg g = Inr gs \<and> collect_group_item_ids gs = bar_group_ids g"
proof (induction e and g arbitrary: d and d)
  case (BGItem i)
  then show ?case by (auto simp: registry_ok_def)
next
  case (BGGroup g)
  then obtain gs where "resolve_bar_group reg g = Inr gs" "collect_group_item_ids gs = bar_group_ids g"
    by auto
  then show ?case by (intro exI [of _ "GGroup gs"]) simp
next
  case (BarGroup gid es lay sp vp cp)
  have each: "\<exists>ge. resolve_bar_group_element reg e = Inr ge \<and> group_element_ids ge = bar_group_element_ids e"
    if "e \<in> set es" for e
    using BarGroup.prems BarGroup.IH [OF that] that by (fastforce simp: list_all_iff)
  then obtain els where els: "rmap_list (resolve_bar_group_element reg) es = Inr els"
    using rmap_list_total [of es "resolve_bar_group_element reg"] by blast
  have "map group_element_ids els = map bar_group_element_ids es"
    using each rmap_list_nth [OF els] rmap_list_length [OF els]
    by - (rule nth_equalityI, auto, metis Inr_inject nth_mem)
  then show ?case using els by simp
qed

lemma resolve_bar_element_valid:
  assumes "bar_element_valid reg e" and "registry_ok reg" and "e \<noteq> ContextProxy"
  shows "\<exists>el. resolve_bar_element reg e = Some (Inr el) \<and> collect_item_ids el = bar_element_ids e"
  using assms resolve_bar_group_valid(2) [of reg 1 _] by (cases e) (fastforce simp: registry_ok_def)+

lemma collect_elements_valid:
  assumes "list_all (bar_element_valid reg) es" and "registry_ok reg" and "ContextProxy \<notin> set es"
  shows "\<exists>els. collect_elements reg es = Some (Inr els)
    \<and> list_all2 (\<lambda>e el. resolve_bar_element reg e = Some (Inr el)
         \<and> collect_item_ids el = bar_element_ids e) es els"
  using assms
proof (induction es)
  case (Cons e es)
  obtain el where "resolve_bar_element reg e = Some (Inr el)" "collect_item_ids el = bar_element_ids e"
    using resolve_bar_element_valid [of reg e] Cons.prems by auto
  then show ?case using Cons by auto
qed simp

lemma collected_ids:
  "list_all2 (\<lambda>e el. R e el \<and> collect_item_ids el = bar_element_ids e) es els \<Longrightarrow>
     concat (map collect_item_ids els) = concat (map bar_element_ids es)"
  by (induction rule: list_all2_induct) auto

lemma composed_principal_Some:
  "composed_principal reg active composed = Some p \<Longrightarrow> p \<in> set (concat (map bar_element_ids composed))"
proof -
  assume "composed_principal reg active composed = Some p"
  then have "p \<in> set (List.map_filter
    (\<lambda>i. case bt_get (reg_bars reg) i of None \<Rightarrow> None
       | Some bar \<Rightarrow> (case bdef_principal_item bar of None \<Rightarrow> None
          | Some p \<Rightarrow> if list_ex (\<lambda>e. bar_element_contains_item e p) composed then Some p else None))
    active)"
    by (auto simp: composed_principal_def split: list.splits)
  then show ?thesis
    by (auto simp: in_set_map_filter list_ex_iff bar_element_contains_ids
        split: option.splits if_splits)
qed

text \<open>A composition that passes validation is converted element by element.\<close>

lemma compose_active_chain_Inr:
  assumes "compose_elements reg active = Inr composed" and "registry_ok reg"
  obtains els where
    "compose_active_chain reg active =
       Some (Inr \<lparr>bar_elements = els, principal_item = composed_principal reg active composed\<rparr>)"
    "list_all2 (\<lambda>e el. resolve_bar_element reg e = Some (Inr el)
       \<and> collect_item_ids el = bar_element_ids e) composed els"
proof -
  obtain els where "collect_elements reg composed = Some (Inr els)"
    "list_all2 (\<lambda>e el. resolve_bar_element reg e = Some (Inr el)
       \<and> collect_item_ids el = bar_element_ids e) composed els"
    using collect_elements_valid [OF compose_elements_props(1) [OF assms] assms(2)
        compose_elements_props(2) [OF assms]] by blast
  then show ?thesis using that assms(1) by (simp add: compose_active_chain_def)
qed

section \<open>What the layout can still reject\<close>

text \<open>The layout errors that a valid registry does not rule out: overlaps between composed bars
  and sizes the registry never checks.\<close>

fun composition_error :: "layout_error \<Rightarrow> bool" where
  "composition_error (DuplicateItem _) = True"
| "composition_error (InvalidSizing _) = True"
| "composition_error (DuplicateGroup _) = True"
| "composition_error (InvalidEqualWidthGroup _) = True"
| "composition_error _ = False"

lemma group_sizing_composition_error:
  "group_element_sizing e = Inl err \<Longrightarrow> composition_error err"
  "group_sizing g = Inl err \<Longrightarrow> composition_error err"
proof (induction e and g arbitrary: err and err)
  case (GroupSpec gid es lay sp vp cp)
  then show ?case
    by (auto simp: rbind_eq_Inl combine_sizing_def Let_def
        split: if_splits group_layout.splits dest!: rmap_list_Inl_memb)
qed auto

lemma validate_registered_item:
  assumes "bt_get (reg_items reg) i = Some it" and "registry_ok reg"
    and "validate_item (idef_layout it) ids = Inl err"
  shows "composition_error err"
  using assms by (auto simp: validate_item_def registry_ok_def split: if_splits)

lemma validate_resolved_group:
  "bar_group_element_valid reg d e \<Longrightarrow> registry_ok reg \<Longrightarrow>
     resolve_bar_group_element reg e = Inr ge \<Longrightarrow> validate_group_element ge d st = Inl err \<Longrightarrow>
     composition_error err"
  "bar_group_valid reg d g \<Longrightarrow> registry_ok reg \<Longrightarrow>
     resolve_bar_group reg g = Inr gs \<Longrightarrow> validate_group gs d st = Inl err \<Longrightarrow> composition_error err"
proof (induction e and g arbitrary: d ge st err and d gs st err)
  case (BGItem i)
  then show ?case by (auto dest: validate_registered_item)
next
  case (BarGroup gid es lay sp vp cp)
  then obtain els where els: "rmap_list (resolve_bar_group_element reg) es = Inr els"
    "gs = GroupSpec gid els lay sp vp cp" by auto
  have each: "composition_error err'"
    if ge: "ge \<in> set els" "validate_group_element ge (d + 1) st' = Inl err'" for ge st' err'
  proof -
    obtain e where e: "e \<in> set es" "resolve_bar_group_element reg e = Inr ge"
      using rmap_list_memb' [OF els(1) ge(1)] by blast
    then have "bar_group_element_valid reg (d + 1) e"
      using BarGroup.prems(1) by (auto simp: list_all_iff)
    from BarGroup.IH [OF e(1) this BarGroup.prems(2) e(2) ge(2)] show ?thesis .
  qed
  have "gid \<noteq> []" "d \<le> MAX_GROUP_DEPTH" using BarGroup.prems(1) by auto
  then show ?case
    using BarGroup.prems(4) each group_sizing_composition_error(2) unfolding els(2)
    by (auto simp: rbind_eq_Inl simp del: group_sizing.simps split: if_splits dest!: rfold_Inl_memb)
qed auto

lemma validate_resolved_element:
  assumes "bar_element_valid reg e" and "registry_ok reg" and "resolve_bar_element reg e = Some (Inr el)"
    and "validate_element st (i, el) = Inl err"
  shows "composition_error err"
proof (cases e)
  case (BItem j)
  then show ?thesis using assms by (auto dest: validate_registered_item)
next
  case (BGroup g)
  then show ?thesis using assms by (auto dest: validate_resolved_group(2))
qed (use assms in auto)

lemma validate_composed:
  assumes reg: "registry_ok reg" and comp: "compose_active_chain reg active = Some (Inr spec)"
    and err: "validate_bar spec [] = Inl err"
  shows "composition_error err"
proof -
  obtain composed where c: "compose_elements reg active = Inr composed"
    using comp by (auto simp: compose_active_chain_def split: sum.splits)
  note valid = compose_elements_props(1) [OF c reg]
  obtain els where els: "compose_active_chain reg active =
      Some (Inr \<lparr>bar_elements = els, principal_item = composed_principal reg active composed\<rparr>)"
    "list_all2 (\<lambda>e el. resolve_bar_element reg e = Some (Inr el)
       \<and> collect_item_ids el = bar_element_ids e) composed els"
    by (rule compose_active_chain_Inr [OF c reg])
  have spec: "bar_elements spec = els" "principal_item spec = composed_principal reg active composed"
    using els(1) comp by auto
  show ?thesis
  proof (cases "rfold validate_element ({}, {}) (enumerate 0 els)")
    case (Inl e)
    then obtain i el st where "(i, el) \<in> set (enumerate 0 els)" "validate_element st (i, el) = Inl e"
      by (auto dest!: rfold_Inl_memb)
    moreover from this(1) obtain b where "b \<in> set composed" "resolve_bar_element reg b = Some (Inr el)"
      using els(2) by (auto simp: in_set_enumerate_eq list_all2_conv_all_nth) (metis nth_mem)
    moreover have "e = err" using err Inl by (simp add: validate_bar_def spec)
    ultimately show ?thesis
      using validate_resolved_element [OF _ reg] valid unfolding list_all_iff by blast
  next
    case (Inr st)
    have "fst st = set (concat (map collect_item_ids els))"
      using rfold_list_rel [OF Inr, where A = fst and P = "element_ok \<circ> snd" and
          ids = "collect_item_ids \<circ> snd"]
      by (simp add: validate_element_ok map_comp_snd_enumerate)
    then have "p \<in> fst st" if "principal_item spec = Some p" for p
      using composed_principal_Some [of reg active composed p] that spec(2) collected_ids [OF els(2)] by simp
    then show ?thesis
      using err Inr by (auto simp: validate_bar_def spec(1) split: option.splits prod.splits if_splits)
  qed
qed

text \<open>The errors \<open>resolve\<close> can report for a composed bar.\<close>

lemma resolve_composed_error:
  assumes reg: "registry_ok reg" and comp: "compose_active_chain reg active = Some (Inr spec)"
    and err: "resolve spec avail [] = Some (Inl e)" and avail: "avail \<le> u32_max"
  shows "composition_error e \<or> (\<exists>g. e = InconsistentVisibilityGroup g) \<or> (\<exists>r. e = InsufficientWidth avail r)"
proof (cases "\<exists>units sz. accepted spec [] units sz")
  case True
  then obtain units sz where "accepted spec [] units sz" by blast
  from resolve_accepts [OF this avail] err show ?thesis by (auto split: if_splits)
next
  case False
  have vis: "\<exists>g. err = InconsistentVisibilityGroup g" if v: "visibility_units spec [] = Inl err" for err
  proof -
    obtain us ie where "add_unit [] us ie = Inl err"
      using v by (auto simp: visibility_units_def dest!: rfold_Inl_memb)
    then show ?thesis
      by (cases "([] :: item_id list, us, ie)" rule: add_unit.cases)
        (auto simp: Let_def split: option.splits if_splits)
  qed
  have sizing: "composition_error err" if v: "rmap_list element_sizing (bar_elements spec) = Inl err" for err
  proof -
    obtain el where "element_sizing el = Inl err" using rmap_list_Inl_memb [OF v] by blast
    then show ?thesis by (cases el) (auto dest: group_sizing_composition_error(2))
  qed
  show ?thesis
    using err False validate_composed [OF reg comp] vis sizing
    unfolding accepted_def resolve_def
    by (cases "validate_bar spec []"; cases "visibility_units spec []";
        cases "rmap_list element_sizing (bar_elements spec)") auto
qed

section \<open>A concrete registry\<close>

definition demo_item :: "item_id \<Rightarrow> item_definition" where
  "demo_item i = \<lparr>idef_layout = new_item i 10 20 30, idef_label = i,
     idef_expanded_bar = None, idef_press_and_hold_bar = None\<rparr>"

definition demo_registry :: registry where
  "demo_registry =
     \<lparr>reg_items = [(''a'', demo_item ''a''), (''b'', demo_item ''b''), (''c'', demo_item ''c'')],
      reg_bars =
        [(''app'', \<lparr>bdef_id = ''app'', bdef_elements = [BItem ''a'', ContextProxy, BItem ''b''],
            bdef_principal_item = Some ''b''\<rparr>),
         (''system'', \<lparr>bdef_id = ''system'', bdef_elements = [ContextProxy, BFlexibleSpace 0 1, BItem ''c''],
            bdef_principal_item = None\<rparr>)]\<rparr>"

lemma demo_registry_ok: "registry_ok demo_registry"
proof -
  have blank: "\<not> str_blank ''a''" "\<not> str_blank ''b''" "\<not> str_blank ''c''" by code_simp+
  have "bt_ok (reg_items demo_registry)" "bt_ok (reg_bars demo_registry)"
    by (simp_all add: demo_registry_def bt_ok_def)
  moreover have "item_id (idef_layout it) = i \<and> i \<noteq> [] \<and> \<not> str_blank (idef_label it)"
    if "bt_get (reg_items demo_registry) i = Some it" for i it
    using that blank by (auto simp: bt_get_def demo_registry_def demo_item_def new_item_def split: if_splits)
  moreover have "bdef_id bar = i \<and> i \<noteq> []" if "bt_get (reg_bars demo_registry) i = Some bar" for i bar
    using that by (auto simp: bt_get_def demo_registry_def split: if_splits)
  ultimately show ?thesis by (simp add: registry_ok_def)
qed

definition demo_composed :: bar_spec where
  "demo_composed =
     \<lparr>bar_elements = [Item (new_item ''a'' 10 20 30), Item (new_item ''b'' 10 20 30),
        FlexibleSpace 0 1, Item (new_item ''c'' 10 20 30)],
      principal_item = Some ''b''\<rparr>"

lemma demo_composed_eq:
  "compose_active_chain demo_registry [''app'', ''system''] = Some (Inr demo_composed)"
  by code_simp

section \<open>Properties\<close>

text \<open>Composing the active bars never panics and never meets an unknown item: it fails only
  because the registry is invalid, no bar is active, or an active bar is not registered.\<close>

theorem compose_total:
  assumes "registry_ok reg"
  shows "(\<exists>spec. compose_active_chain reg active = Some (Inr spec))
    \<or> (\<exists>e. compose_active_chain reg active = Some (Inl e)
        \<and> (registry_validate reg = Inl e \<or> (active = [] \<and> e = MEmptyActiveChain)
           \<or> (\<exists>i\<in>set active. bt_get (reg_bars reg) i = None \<and> e = MUnknownActiveBar i)))"
proof (cases "compose_elements reg active")
  case (Inr composed)
  show ?thesis by (rule compose_active_chain_Inr [OF Inr assms]) simp
next
  case (Inl e)
  have ab: "bt_get (reg_bars reg) i = None \<and> e' = MUnknownActiveBar i" if "active_bar reg i = Inl e'" for i e'
    using that by (simp add: active_bar_def)
  have "registry_validate reg = Inl e \<or> (active = [] \<and> e = MEmptyActiveChain)
      \<or> (\<exists>i\<in>set active. bt_get (reg_bars reg) i = None \<and> e = MUnknownActiveBar i)"
    using Inl unfolding compose_elements_def
    by (auto simp: rbind_eq_Inl split: list.splits dest!: ab rfold_Inl_memb) (metis option.distinct(1))
  then show ?thesis using Inl by (simp add: compose_active_chain_def)
qed

theorem compose_total_witness:
  "\<exists>e. compose_active_chain demo_registry [''x''] = Some (Inl e)
    \<and> (registry_validate demo_registry = Inl e \<or> ([''x''] = [] \<and> e = MEmptyActiveChain)
       \<or> (\<exists>i\<in>set [''x'']. bt_get (reg_bars demo_registry) i = None \<and> e = MUnknownActiveBar i))"
proof -
  have "compose_active_chain demo_registry [''x''] = Some (Inl (MUnknownActiveBar ''x''))" by code_simp
  then show ?thesis using compose_total [OF demo_registry_ok, of "[''x'']"] by simp
qed

text \<open>The composed bar keeps the focused bar together: its items appear consecutively and in
  order, whatever the enclosing bars add around them, and the principal item of the composition
  is one of its items.\<close>

theorem compose_keeps_focus:
  assumes "registry_ok reg" and "compose_active_chain reg active = Some (Inr spec)"
  shows "(\<exists>bar pre post. bt_get (reg_bars reg) (hd active) = Some bar
      \<and> bar_item_ids spec = pre @ concat (map bar_element_ids (bdef_elements bar)) @ post)
    \<and> (\<forall>p. principal_item spec = Some p \<longrightarrow> p \<in> set (bar_item_ids spec))"
proof -
  obtain composed where c: "compose_elements reg active = Inr composed"
    using assms(2) by (auto simp: compose_active_chain_def split: sum.splits)
  obtain els where els: "compose_active_chain reg active =
      Some (Inr \<lparr>bar_elements = els, principal_item = composed_principal reg active composed\<rparr>)"
    "list_all2 (\<lambda>e el. resolve_bar_element reg e = Some (Inr el)
       \<and> collect_item_ids el = bar_element_ids e) composed els"
    by (rule compose_active_chain_Inr [OF c assms(1)])
  have spec: "spec = \<lparr>bar_elements = els, principal_item = composed_principal reg active composed\<rparr>"
    using els(1) assms(2) by simp
  have ids: "bar_item_ids spec = concat (map bar_element_ids composed)"
    using collected_ids [OF els(2)] by (simp add: bar_item_ids_def spec)
  obtain bar pre post where bar: "bt_get (reg_bars reg) (hd active) = Some bar"
    "composed = pre @ without_proxy (bdef_elements bar) @ post"
    using compose_elements_props(3) [OF c assms(1)] by blast
  have "concat (map bar_element_ids (without_proxy es)) = concat (map bar_element_ids es)" for es
    by (induction es) (auto simp: without_proxy_def)
  then have "bar_item_ids spec = concat (map bar_element_ids pre) @
      concat (map bar_element_ids (bdef_elements bar)) @ concat (map bar_element_ids post)"
    unfolding ids bar(2) by simp
  moreover have "p \<in> set (bar_item_ids spec)" if "principal_item spec = Some p" for p
    unfolding ids by (rule composed_principal_Some [of reg active]) (use that spec in simp)
  ultimately show ?thesis using bar(1) by blast
qed

theorem compose_keeps_focus_witness:
  "\<exists>bar pre post. bt_get (reg_bars demo_registry) (hd [''app'', ''system'']) = Some bar
      \<and> bar_item_ids demo_composed = pre @ concat (map bar_element_ids (bdef_elements bar)) @ post"
  using demo_registry_ok demo_composed_eq by (rule compose_keeps_focus [THEN conjunct1])

end
