(* ===== verification/Profiles.thy ===== *)
theory Profiles
  imports Bar_Registry
begin

text \<open>
  The profile half of \<^verbatim>\<open>touchbar-model\<close> (\<^verbatim>\<open>profiles.rs\<close>): contributions, slots, profiles and their
  composition into a bar.

  The mutable accumulators of \<^verbatim>\<open>compose\<close> are the record \<open>compose_state\<close>.  The two
  \<^verbatim>\<open>unreachable!\<close> of the contribution resolver are \<open>None\<close> branches.  The lemmas show that validation
  excludes them, and that a composed bar has no item and no group twice and contains registered
  items only.
\<close>

section \<open>Data\<close>

type_synonym profile_id = string
type_synonym slot_id = string
type_synonym contribution_id = string

datatype slot_policy = Collect | Select | Fixed

record contribution_definition =
  con_id :: contribution_id
  con_elements :: "bar_element list"
  con_predicate :: context_predicate
  con_scope :: context_scope
  con_priority :: int

record contribution_binding =
  bind_contribution :: contribution_id
  bind_order :: int

record slot_definition =
  slot_id :: slot_id
  slot_policy :: slot_policy
  slot_bindings :: "contribution_binding list"

datatype profile_group_element = PGSlot slot_definition | PGGroup profile_group
and profile_group = ProfileGroup (pg_id: string) (pg_elements: "profile_group_element list")
  (pg_layout: group_layout) (pg_spacing: nat) (pg_visibility_priority: int)
  (pg_compression_priority: int)

datatype profile_element =
    PSlot slot_definition
  | PGroup profile_group
  | PFixedSpace nat
  | PFlexibleSpace nat nat

record profile_definition =
  prof_id :: profile_id
  prof_elements :: "profile_element list"
  prof_principal_item :: "item_id option"

record profile_catalog =
  cat_contributions :: "(contribution_id, contribution_definition) btree"
  cat_profiles :: "(profile_id, profile_definition) btree"

datatype profile_error =
    PEmptyContributionId
  | PEmptyProfileId
  | PEmptySlotId profile_id
  | PEmptyModeId
  | PDuplicateContribution contribution_id
  | PDuplicateProfile profile_id
  | PDuplicateSlot profile_id slot_id
  | PInvalidGroupId profile_id string
  | PDuplicateGroup profile_id string
  | PGroupDepthExceeded profile_id string
  | PInvalidContributionGroupId contribution_id string
  | PDuplicateContributionGroup contribution_id string
  | PContributionGroupDepthExceeded contribution_id string
  | PDuplicateComposedGroup string
  | PUnknownContribution profile_id slot_id contribution_id
  | PUnknownProfile profile_id
  | PUnknownItem contribution_id item_id
  | PDuplicateComposedItem item_id
  | PContextProxyInContribution contribution_id
  | PZeroFlexibleWeightInContribution contribution_id
  | PZeroFlexibleWeightInProfile profile_id
  | PSpaceInGroupedSlot profile_id slot_id contribution_id

record composed_slot =
  cslot_id :: slot_id
  cslot_path :: "nat list"
  cslot_start :: nat
  cslot_end :: nat

record profile_composition =
  pcomp_profile :: profile_id
  pcomp_active :: "contribution_id list"
  pcomp_slots :: "composed_slot list"
  pcomp_bar :: bar_spec

section \<open>The catalog\<close>

definition add_contribution ::
  "contribution_definition \<Rightarrow> profile_catalog \<Rightarrow> (profile_error, profile_catalog) result" where
  "add_contribution c cat =
     (if str_blank (con_id c) then Inl PEmptyContributionId
      else if bt_get (cat_contributions cat) (con_id c) \<noteq> None
        then Inl (PDuplicateContribution (con_id c))
      else Inr (cat\<lparr>cat_contributions := bt_insert (con_id c) c (cat_contributions cat)\<rparr>))"

definition add_profile ::
  "profile_definition \<Rightarrow> profile_catalog \<Rightarrow> (profile_error, profile_catalog) result" where
  "add_profile p cat =
     (if str_blank (prof_id p) then Inl PEmptyProfileId
      else if bt_get (cat_profiles cat) (prof_id p) \<noteq> None then Inl (PDuplicateProfile (prof_id p))
      else Inr (cat\<lparr>cat_profiles := bt_insert (prof_id p) p (cat_profiles cat)\<rparr>))"

section \<open>Validation\<close>

fun validate_contribution_group_element ::
  "registry \<Rightarrow> contribution_definition \<Rightarrow> bar_group_element \<Rightarrow> nat \<Rightarrow> string set \<Rightarrow>
   (profile_error, string set) result"
and validate_contribution_group ::
  "registry \<Rightarrow> contribution_definition \<Rightarrow> bar_group \<Rightarrow> nat \<Rightarrow> string set \<Rightarrow>
   (profile_error, string set) result" where
  "validate_contribution_group_element reg c (BGItem i) depth gids =
     (if bt_get (reg_items reg) i = None then Inl (PUnknownItem (con_id c) i) else Inr gids)"
| "validate_contribution_group_element reg c (BGGroup g) depth gids =
     validate_contribution_group reg c g depth gids"
| "validate_contribution_group reg c (BarGroup gid es lay sp vp cp) depth gids =
     (if str_blank gid then Inl (PInvalidContributionGroupId (con_id c) gid)
      else if depth > MAX_GROUP_DEPTH then Inl (PContributionGroupDepthExceeded (con_id c) gid)
      else if gid \<in> gids then Inl (PDuplicateContributionGroup (con_id c) gid)
      else rfold (\<lambda>gs e. validate_contribution_group_element reg c e (depth + 1) gs)
             (insert gid gids) es)"

fun validate_contribution_element ::
  "registry \<Rightarrow> contribution_definition \<Rightarrow> string set \<Rightarrow> bar_element \<Rightarrow>
   (profile_error, string set) result" where
  "validate_contribution_element reg c gids (BItem i) =
     (if bt_get (reg_items reg) i = None then Inl (PUnknownItem (con_id c) i) else Inr gids)"
| "validate_contribution_element reg c gids (BGroup g) = validate_contribution_group reg c g 1 gids"
| "validate_contribution_element reg c gids (BFlexibleSpace _ weight) =
     (if weight = 0 then Inl (PZeroFlexibleWeightInContribution (con_id c)) else Inr gids)"
| "validate_contribution_element reg c gids ContextProxy = Inl (PContextProxyInContribution (con_id c))"
| "validate_contribution_element reg c gids (BFixedSpace _) = Inr gids"

fun is_space :: "bar_element \<Rightarrow> bool" where
  "is_space (BFixedSpace _) = True"
| "is_space (BFlexibleSpace _ _) = True"
| "is_space _ = False"

definition validate_slot ::
  "profile_catalog \<Rightarrow> profile_definition \<Rightarrow> slot_definition \<Rightarrow> bool \<Rightarrow> slot_id set \<Rightarrow>
   (profile_error, slot_id set) result" where
  "validate_slot cat p slot nested slots =
     (if str_blank (slot_id slot) then Inl (PEmptySlotId (prof_id p))
      else if slot_id slot \<in> slots then Inl (PDuplicateSlot (prof_id p) (slot_id slot))
      else
        rbind (rfold (\<lambda>_ b.
            rbind (ok_or (PUnknownContribution (prof_id p) (slot_id slot) (bind_contribution b))
                     (bt_get (cat_contributions cat) (bind_contribution b)))
              (\<lambda>c. if nested \<and> list_ex is_space (con_elements c)
                   then Inl (PSpaceInGroupedSlot (prof_id p) (slot_id slot) (bind_contribution b))
                   else Inr ()))
          () (slot_bindings slot))
          (\<lambda>_. Inr (insert (slot_id slot) slots)))"

fun validate_profile_group_element ::
  "profile_catalog \<Rightarrow> profile_definition \<Rightarrow> string \<Rightarrow> profile_group_element \<Rightarrow> nat \<Rightarrow>
   slot_id set \<times> string set \<Rightarrow> (profile_error, slot_id set \<times> string set) result"
and validate_profile_group ::
  "profile_catalog \<Rightarrow> profile_definition \<Rightarrow> profile_group \<Rightarrow> nat \<Rightarrow> slot_id set \<times> string set \<Rightarrow>
   (profile_error, slot_id set \<times> string set) result" where
  "validate_profile_group_element cat p gid (PGSlot slot) depth st =
     (if depth \<ge> MAX_GROUP_DEPTH then Inl (PGroupDepthExceeded (prof_id p) gid)
      else rmap (\<lambda>slots. (slots, snd st)) (validate_slot cat p slot True (fst st)))"
| "validate_profile_group_element cat p gid (PGGroup g) depth st =
     validate_profile_group cat p g (depth + 1) st"
| "validate_profile_group cat p (ProfileGroup gid es lay sp vp cp) depth st =
     (if str_blank gid \<or> starts_with gid ''@slot/'' then Inl (PInvalidGroupId (prof_id p) gid)
      else if depth > MAX_GROUP_DEPTH then Inl (PGroupDepthExceeded (prof_id p) gid)
      else if gid \<in> snd st then Inl (PDuplicateGroup (prof_id p) gid)
      else rfold (\<lambda>s e. validate_profile_group_element cat p gid e depth s)
             (fst st, insert gid (snd st)) es)"

fun validate_profile_element ::
  "profile_catalog \<Rightarrow> profile_definition \<Rightarrow> slot_id set \<times> string set \<Rightarrow> profile_element \<Rightarrow>
   (profile_error, slot_id set \<times> string set) result" where
  "validate_profile_element cat p st (PSlot slot) =
     rmap (\<lambda>slots. (slots, snd st)) (validate_slot cat p slot False (fst st))"
| "validate_profile_element cat p st (PGroup g) = validate_profile_group cat p g 1 st"
| "validate_profile_element cat p st (PFlexibleSpace _ weight) =
     (if weight = 0 then Inl (PZeroFlexibleWeightInProfile (prof_id p)) else Inr st)"
| "validate_profile_element cat p st (PFixedSpace _) = Inr st"

definition validate_contribution ::
  "registry \<Rightarrow> contribution_definition \<Rightarrow> (profile_error, string set) result" where
  "validate_contribution reg c = rfold (validate_contribution_element reg c) {} (con_elements c)"

definition validate_profile ::
  "profile_catalog \<Rightarrow> profile_definition \<Rightarrow> (profile_error, slot_id set \<times> string set) result" where
  "validate_profile cat p = rfold (validate_profile_element cat p) ({}, {}) (prof_elements p)"

definition catalog_validate :: "profile_catalog \<Rightarrow> registry \<Rightarrow> (profile_error, unit) result" where
  "catalog_validate cat reg =
     rbind (rfold (\<lambda>_ c. rmap (\<lambda>_. ()) (validate_contribution reg c)) ()
              (bt_values (cat_contributions cat)))
       (\<lambda>_. rfold (\<lambda>_ p. rmap (\<lambda>_. ()) (validate_profile cat p)) () (bt_values (cat_profiles cat)))"

section \<open>Bindings\<close>

text \<open>The bound contributions that apply, in user order, with their position in it.\<close>

definition slot_candidates ::
  "profile_catalog \<Rightarrow> slot_definition \<Rightarrow> context_snapshot \<Rightarrow> (nat \<times> contribution_definition) list" where
  "slot_candidates cat slot ctx =
     List.map_filter
       (\<lambda>(k, (_, b)).
          case bt_get (cat_contributions cat) (bind_contribution b) of
            None \<Rightarrow> None
          | Some c \<Rightarrow>
              if slot_policy slot = Fixed \<or> pred_matches (con_predicate c) ctx
              then Some (k, c) else None)
       (enumerate 0 (sort_key (\<lambda>(i, b). (bind_order b, i)) (enumerate 0 (slot_bindings slot))))"

definition select_bindings ::
  "profile_catalog \<Rightarrow> slot_definition \<Rightarrow> context_snapshot \<Rightarrow> contribution_definition list" where
  "select_bindings cat slot ctx =
     (let candidates = slot_candidates cat slot ctx in
      if slot_policy slot \<noteq> Select then map snd candidates
      else (case max_by_last (\<lambda>(k, c). (con_priority c, con_scope c, - int k)) candidates of
              None \<Rightarrow> []
            | Some (_, c) \<Rightarrow> [c]))"

section \<open>Composition\<close>

text \<open>The identifiers used so far: items and groups.\<close>

type_synonym used_ids = "item_id set \<times> string set"

definition insert_composed_group :: "string \<Rightarrow> used_ids \<Rightarrow> (profile_error, used_ids) result" where
  "insert_composed_group gid ids =
     (if gid \<in> snd ids then Inl (PDuplicateComposedGroup gid) else Inr (fst ids, insert gid (snd ids)))"

definition resolve_item ::
  "registry \<Rightarrow> contribution_definition \<Rightarrow> item_id \<Rightarrow> used_ids \<Rightarrow>
   (profile_error, item_spec \<times> used_ids) result" where
  "resolve_item reg c i ids =
     (if i \<in> fst ids then Inl (PDuplicateComposedItem i)
      else rmap (\<lambda>it. (idef_layout it, (insert i (fst ids), snd ids)))
             (ok_or (PUnknownItem (con_id c) i) (bt_get (reg_items reg) i)))"

text \<open>A loop that maps over a list with mutable state and stops at the first error.\<close>

definition rmap_acc ::
  "('s \<Rightarrow> 'a \<Rightarrow> ('e, 'b \<times> 's) result) \<Rightarrow> 's \<Rightarrow> 'a list \<Rightarrow> ('e, 'b list \<times> 's) result" where
  "rmap_acc f s xs = rfold (\<lambda>(acc, s) x. rmap (\<lambda>(b, s'). (acc @ [b], s')) (f s x)) ([], s) xs"

lemma rmap_acc_cong [fundef_cong]:
  assumes "s = t" and "xs = ys" and "\<And>x u. x \<in> set ys \<Longrightarrow> f u x = g u x"
  shows "rmap_acc f s xs = rmap_acc g t ys"
  unfolding rmap_acc_def using assms by (auto intro!: rfold_cong)

fun resolve_contribution_group_element ::
  "registry \<Rightarrow> contribution_definition \<Rightarrow> bar_group_element \<Rightarrow> used_ids \<Rightarrow>
   (profile_error, group_element \<times> used_ids) result"
and resolve_contribution_group ::
  "registry \<Rightarrow> contribution_definition \<Rightarrow> bar_group \<Rightarrow> used_ids \<Rightarrow>
   (profile_error, group_spec \<times> used_ids) result" where
  "resolve_contribution_group_element reg c (BGItem i) ids =
     rmap (\<lambda>(it, ids'). (GItem it, ids')) (resolve_item reg c i ids)"
| "resolve_contribution_group_element reg c (BGGroup g) ids =
     rmap (\<lambda>(gs, ids'). (GGroup gs, ids')) (resolve_contribution_group reg c g ids)"
| "resolve_contribution_group reg c (BarGroup gid es lay sp vp cp) ids =
     rbind (insert_composed_group gid ids)
       (\<lambda>ids'. rmap (\<lambda>(els, ids''). (GroupSpec gid els lay sp vp cp, ids''))
          (rmap_acc (\<lambda>s e. resolve_contribution_group_element reg c e s) ids' es))"

fun resolve_top_contribution_element ::
  "registry \<Rightarrow> contribution_definition \<Rightarrow> bar_element \<Rightarrow> used_ids \<Rightarrow>
   (profile_error, element \<times> used_ids) outcome" where
  "resolve_top_contribution_element reg c (BItem i) ids =
     Some (rmap (\<lambda>(it, ids'). (Item it, ids')) (resolve_item reg c i ids))"
| "resolve_top_contribution_element reg c (BGroup g) ids =
     Some (rmap (\<lambda>(gs, ids'). (Group gs, ids')) (resolve_contribution_group reg c g ids))"
| "resolve_top_contribution_element reg c (BFixedSpace w) ids = Some (Inr (FixedSpace w, ids))"
| "resolve_top_contribution_element reg c (BFlexibleSpace m w) ids =
     Some (Inr (FlexibleSpace m w, ids))"
| "resolve_top_contribution_element reg c ContextProxy ids = None"

fun resolve_grouped_contribution_element ::
  "registry \<Rightarrow> contribution_definition \<Rightarrow> bar_element \<Rightarrow> used_ids \<Rightarrow>
   (profile_error, group_element \<times> used_ids) outcome" where
  "resolve_grouped_contribution_element reg c (BItem i) ids =
     Some (rmap (\<lambda>(it, ids'). (GItem it, ids')) (resolve_item reg c i ids))"
| "resolve_grouped_contribution_element reg c (BGroup g) ids =
     Some (rmap (\<lambda>(gs, ids'). (GGroup gs, ids')) (resolve_contribution_group reg c g ids))"
| "resolve_grouped_contribution_element reg c (BFixedSpace _) ids = None"
| "resolve_grouped_contribution_element reg c (BFlexibleSpace _ _) ids = None"
| "resolve_grouped_contribution_element reg c ContextProxy ids = None"

text \<open>The common loop of \<^verbatim>\<open>compose_top_slot\<close> and \<^verbatim>\<open>compose_group_slot\<close>, which differ in the
  element resolver only: active contributions and elements are appended.\<close>

definition compose_contribution ::
  "(contribution_definition \<Rightarrow> bar_element \<Rightarrow> used_ids \<Rightarrow> (profile_error, 'el \<times> used_ids) outcome) \<Rightarrow>
   'el list \<times> contribution_id list \<times> used_ids \<Rightarrow> contribution_definition \<Rightarrow>
   (profile_error, 'el list \<times> contribution_id list \<times> used_ids) outcome" where
  "compose_contribution resolver st c =
     (case st of (els, active, ids) \<Rightarrow>
        pfold (\<lambda>(els, active, ids) e.
            pbind (resolver c e ids) (\<lambda>(el, ids'). Some (Inr (els @ [el], active, ids'))))
          (els, active @ [con_id c], ids) (con_elements c))"

definition compose_top_slot ::
  "profile_catalog \<Rightarrow> registry \<Rightarrow> slot_definition \<Rightarrow> context_snapshot \<Rightarrow>
   contribution_id list \<times> used_ids \<Rightarrow>
   (profile_error, element list \<times> contribution_id list \<times> used_ids) outcome" where
  "compose_top_slot cat reg slot ctx st =
     pfold (compose_contribution (resolve_top_contribution_element reg)) ([], st)
       (select_bindings cat slot ctx)"

definition compose_group_slot ::
  "profile_catalog \<Rightarrow> registry \<Rightarrow> slot_definition \<Rightarrow> context_snapshot \<Rightarrow>
   contribution_id list \<times> used_ids \<Rightarrow>
   (profile_error, group_element list \<times> contribution_id list \<times> used_ids) outcome" where
  "compose_group_slot cat reg slot ctx st =
     pfold (compose_contribution (resolve_grouped_contribution_element reg)) ([], st)
       (select_bindings cat slot ctx)"

record compose_state =
  cst_active :: "contribution_id list"
  cst_slots :: "composed_slot list"
  cst_ids :: used_ids

definition slot_group_id :: "profile_id \<Rightarrow> slot_id \<Rightarrow> string" where
  "slot_group_id p s = ''@slot/'' @ p @ ''/'' @ s"

definition lift_result :: "('e, 'a) result \<Rightarrow> ('e, 'a) outcome" where
  "lift_result r = Some r"

text \<open>One grouped slot: its elements become a group of their own.\<close>

definition compose_slot_group ::
  "profile_catalog \<Rightarrow> registry \<Rightarrow> profile_id \<Rightarrow> context_snapshot \<Rightarrow> slot_definition \<Rightarrow> nat list \<Rightarrow>
   compose_state \<Rightarrow> (profile_error, group_element \<times> compose_state) outcome" where
  "compose_slot_group cat reg p ctx slot path st =
     pbind (compose_group_slot cat reg slot ctx (cst_active st, cst_ids st))
       (\<lambda>(els, active, ids).
          pbind (lift_result (insert_composed_group (slot_group_id p (slot_id slot)) ids))
            (\<lambda>ids'.
               Some (Inr
                 (GGroup (GroupSpec (slot_group_id p (slot_id slot)) els Natural 0 0 0),
                  \<lparr>cst_active = active,
                   cst_slots = cst_slots st @
                     [\<lparr>cslot_id = slot_id slot, cslot_path = path, cslot_start = 0,
                       cslot_end = length els\<rparr>],
                   cst_ids = ids'\<rparr>))))"

fun compose_profile_group_element ::
  "profile_catalog \<Rightarrow> registry \<Rightarrow> profile_id \<Rightarrow> context_snapshot \<Rightarrow> profile_group_element \<Rightarrow> nat list \<Rightarrow>
   compose_state \<Rightarrow> (profile_error, group_element \<times> compose_state) outcome"
and compose_profile_group ::
  "profile_catalog \<Rightarrow> registry \<Rightarrow> profile_id \<Rightarrow> context_snapshot \<Rightarrow> profile_group \<Rightarrow> nat list \<Rightarrow>
   compose_state \<Rightarrow> (profile_error, group_spec \<times> compose_state) outcome" where
  "compose_profile_group_element cat reg p ctx (PGSlot slot) path st =
     compose_slot_group cat reg p ctx slot path st"
| "compose_profile_group_element cat reg p ctx (PGGroup g) path st =
     pbind (compose_profile_group cat reg p ctx g path st)
       (\<lambda>(gs, st'). Some (Inr (GGroup gs, st')))"
| "compose_profile_group cat reg p ctx (ProfileGroup gid es lay sp vp cp) path st =
     pbind (lift_result (insert_composed_group gid (cst_ids st)))
       (\<lambda>ids.
          pbind (pfold (\<lambda>acc e.
                   pbind (compose_profile_group_element cat reg p ctx e (path @ [length (fst acc)]) (snd acc))
                     (\<lambda>(el, s'). Some (Inr (fst acc @ [el], s'))))
                 ([], st\<lparr>cst_ids := ids\<rparr>) es)
            (\<lambda>(els, st'). Some (Inr (GroupSpec gid els lay sp vp cp, st'))))"

fun compose_profile_element ::
  "profile_catalog \<Rightarrow> registry \<Rightarrow> profile_id \<Rightarrow> context_snapshot \<Rightarrow> element list \<times> compose_state \<Rightarrow>
   profile_element \<Rightarrow> (profile_error, element list \<times> compose_state) outcome" where
  "compose_profile_element cat reg p ctx (els, st) (PFixedSpace w) =
     Some (Inr (els @ [FixedSpace w], st))"
| "compose_profile_element cat reg p ctx (els, st) (PFlexibleSpace m w) =
     Some (Inr (els @ [FlexibleSpace m w], st))"
| "compose_profile_element cat reg p ctx (els, st) (PSlot slot) =
     pbind (compose_top_slot cat reg slot ctx (cst_active st, cst_ids st))
       (\<lambda>(new, active, ids).
          Some (Inr (els @ new,
            \<lparr>cst_active = active,
             cst_slots = cst_slots st @
               [\<lparr>cslot_id = slot_id slot, cslot_path = [], cslot_start = length els,
                 cslot_end = length (els @ new)\<rparr>],
             cst_ids = ids\<rparr>)))"
| "compose_profile_element cat reg p ctx (els, st) (PGroup g) =
     pbind (compose_profile_group cat reg p ctx g [length els] st)
       (\<lambda>(gs, st'). Some (Inr (els @ [Group gs], st')))"

definition finish_composition ::
  "profile_definition \<Rightarrow> element list \<Rightarrow> compose_state \<Rightarrow> profile_composition" where
  "finish_composition p els st =
     \<lparr>pcomp_profile = prof_id p, pcomp_active = cst_active st, pcomp_slots = cst_slots st,
      pcomp_bar =
        \<lparr>bar_elements = els,
         principal_item =
           (case prof_principal_item p of
              None \<Rightarrow> None
            | Some i \<Rightarrow> if i \<in> fst (cst_ids st) then Some i else None)\<rparr>\<rparr>"

definition profile_compose ::
  "profile_catalog \<Rightarrow> registry \<Rightarrow> profile_id \<Rightarrow> context_snapshot \<Rightarrow>
   (profile_error, profile_composition) outcome" where
  "profile_compose cat reg pid ctx =
     pbind (lift_result (catalog_validate cat reg))
       (\<lambda>_. pbind (lift_result (ok_or (PUnknownProfile pid) (bt_get (cat_profiles cat) pid)))
          (\<lambda>p. pbind (pfold (compose_profile_element cat reg (prof_id p) ctx)
                       ([], \<lparr>cst_active = [], cst_slots = [], cst_ids = ({}, {})\<rparr>)
                       (prof_elements p))
             (\<lambda>(els, st). Some (Inr (finish_composition p els st)))))"

end
