(* ===== verification/Profile_Correct.thy ===== *)
theory Profile_Correct
  imports Profiles
begin

text \<open>
  Correctness of profile composition: it does not panic, a composed bar holds no item and no
  group twice, its principal item is one of its items, and every composed slot addresses a range
  that exists in the bar.
\<close>

section \<open>Group identifiers of a resolved bar\<close>

fun group_element_gids :: "group_element \<Rightarrow> string list"
and group_gids :: "group_spec \<Rightarrow> string list" where
  "group_element_gids (GItem _) = []"
| "group_element_gids (GGroup g) = group_gids g"
| "group_gids (GroupSpec gid es lay sp vp cp) = gid # concat (map group_element_gids es)"

fun element_gids :: "element \<Rightarrow> string list" where
  "element_gids (Group g) = group_gids g"
| "element_gids _ = []"

text \<open>\<open>extends ids ids' its gs\<close>: the identifiers in use grow by exactly the fresh items \<open>its\<close> and
  the fresh groups \<open>gs\<close>.\<close>

definition fresh_union :: "'a set \<Rightarrow> 'a set \<Rightarrow> 'a list \<Rightarrow> bool" where
  "fresh_union A B xs \<longleftrightarrow> distinct xs \<and> set xs \<inter> A = {} \<and> B = A \<union> set xs"

definition extends :: "used_ids \<Rightarrow> used_ids \<Rightarrow> item_id list \<Rightarrow> string list \<Rightarrow> bool" where
  "extends ids ids' its gs \<longleftrightarrow> fresh_union (fst ids) (fst ids') its \<and> fresh_union (snd ids) (snd ids') gs"

lemma fresh_union_Nil [simp]: "fresh_union A A []"
  by (simp add: fresh_union_def)

lemma fresh_union_append: "fresh_union A B xs \<Longrightarrow> fresh_union B C ys \<Longrightarrow> fresh_union A C (xs @ ys)"
  by (auto simp: fresh_union_def)

lemma fresh_union_mset: "fresh_union A B xs \<Longrightarrow> mset xs = mset ys \<Longrightarrow> fresh_union A B ys"
  by (metis fresh_union_def mset_eq_imp_distinct_iff mset_eq_setD)

lemma extends_refl [simp]: "extends ids ids [] []"
  by (simp add: extends_def)

lemma extends_append:
  "extends ids ids' its gs \<Longrightarrow> extends ids' ids'' its' gs' \<Longrightarrow> extends ids ids'' (its @ its') (gs @ gs')"
  by (auto simp: extends_def intro: fresh_union_append)

lemma extends_mset: "extends ids ids' its gs \<Longrightarrow> mset gs = mset gs' \<Longrightarrow> extends ids ids' its gs'"
  by (auto simp: extends_def intro: fresh_union_mset)

lemma insert_composed_group_extends:
  "insert_composed_group gid ids = Inr ids' \<Longrightarrow> extends ids ids' [] [gid]"
  by (auto simp: insert_composed_group_def extends_def fresh_union_def split: if_splits)

lemma resolve_item_extends:
  assumes "resolve_item reg c i ids = Inr (it, ids')" and "registry_ok reg"
  shows "extends ids ids' [item_id it] [] \<and> bt_get (reg_items reg) (item_id it) \<noteq> None"
  using assms by (auto simp: resolve_item_def extends_def fresh_union_def registry_ok_def split: if_splits)

lemma rfold_acc_extends:
  assumes "rfold (\<lambda>(acc, s) x. rmap (\<lambda>(b, s'). (acc @ [b], s')) (f s x)) (acc0, s0) xs = Inr (acc, s)"
    and "extends ids s0 (concat (map I acc0)) (concat (map G acc0))"
    and "\<And>x b u v. x \<in> set xs \<Longrightarrow> f u x = Inr (b, v) \<Longrightarrow> extends u v (I b) (G b)"
  shows "extends ids s (concat (map I acc)) (concat (map G acc))"
  using assms
proof (induction xs arbitrary: acc0 s0)
  case (Cons x xs)
  from Cons.prems(1) obtain b v where fx: "f s0 x = Inr (b, v)"
    and rest: "rfold (\<lambda>(acc, s) x. rmap (\<lambda>(b, s'). (acc @ [b], s')) (f s x)) (acc0 @ [b], v) xs = Inr (acc, s)"
    by auto
  have "extends ids v (concat (map I (acc0 @ [b]))) (concat (map G (acc0 @ [b])))"
    using extends_append [OF Cons.prems(2) Cons.prems(3) [OF _ fx]] by simp
  then show ?case by (rule Cons.IH [OF rest]) (rule Cons.prems(3), simp_all)
qed simp

lemma resolve_contribution_group_extends:
  "registry_ok reg \<Longrightarrow> resolve_contribution_group_element reg c e ids = Inr (ge, ids') \<Longrightarrow>
     extends ids ids' (group_element_ids ge) (group_element_gids ge)"
  "registry_ok reg \<Longrightarrow> resolve_contribution_group reg c g ids = Inr (gs, ids') \<Longrightarrow>
     extends ids ids' (collect_group_item_ids gs) (group_gids gs)"
proof (induction e and g arbitrary: ids ge ids' and ids gs ids')
  case (BGItem i)
  then show ?case by (auto dest: resolve_item_extends)
next
  case (BarGroup gid es lay sp vp cp)
  from BarGroup.prems(2) obtain ids1 els where ins: "insert_composed_group gid ids = Inr ids1"
    and acc: "rfold (\<lambda>(acc, s) x. rmap (\<lambda>(b, s'). (acc @ [b], s'))
        (resolve_contribution_group_element reg c x s)) ([], ids1) es = Inr (els, ids')"
    and gs: "gs = GroupSpec gid els lay sp vp cp"
    by (auto simp: rmap_acc_def)
  have "extends ids1 ids' (concat (map group_element_ids els)) (concat (map group_element_gids els))"
    using acc by (rule rfold_acc_extends) (use BarGroup.IH BarGroup.prems(1) in auto)
  from extends_append [OF insert_composed_group_extends [OF ins] this] gs show ?case by simp
qed auto

lemma resolve_top_extends:
  assumes "registry_ok reg" and "resolve_top_contribution_element reg c e ids = Some (Inr (el, ids'))"
  shows "extends ids ids' (collect_item_ids el) (element_gids el)"
  using assms by (cases e) (auto dest: resolve_item_extends resolve_contribution_group_extends)

lemma resolve_grouped_extends:
  assumes "registry_ok reg" and "resolve_grouped_contribution_element reg c e ids = Some (Inr (ge, ids'))"
  shows "extends ids ids' (group_element_ids ge) (group_element_gids ge)"
  using assms by (cases e) (auto dest: resolve_item_extends resolve_contribution_group_extends)

lemma compose_contribution_extends:
  assumes "\<And>c e u el v. resolver c e u = Some (Inr (el, v)) \<Longrightarrow> extends u v (I el) (G el)"
    and "compose_contribution resolver (els, act, ids) c = Some (Inr (els', act', ids'))"
    and "extends ids0 ids (concat (map I els)) (concat (map G els))"
  shows "extends ids0 ids' (concat (map I els')) (concat (map G els'))"
proof -
  let ?P = "\<lambda>(els, act, ids). extends ids0 ids (concat (map I els)) (concat (map G els))"
  have "?P (els', act', ids')"
    using assms(2) [unfolded compose_contribution_def split_conv]
  proof (rule pfold_invariant [where P = ?P])
    fix x u v
    assume P: "?P u" and step: "(\<lambda>(els, active, ids) e.
        pbind (resolver c e ids) (\<lambda>(el, ids'). Some (Inr (els @ [el], active, ids')))) u x = Some (Inr v)"
    obtain els1 act1 ids1 where u: "u = (els1, act1, ids1)" by (cases u)
    obtain el ids2 where r: "resolver c x ids1 = Some (Inr (el, ids2))" "v = (els1 @ [el], act1, ids2)"
      using step u by auto
    show "?P v" using extends_append [OF _ assms(1) [OF r(1)]] P u r(2) by auto
  qed (use assms(3) in simp)
  then show ?thesis by simp
qed

lemma compose_slot_extends:
  assumes "\<And>c e u el v. resolver c e u = Some (Inr (el, v)) \<Longrightarrow> extends u v (I el) (G el)"
    and "pfold (compose_contribution resolver) ([], act, ids) cs = Some (Inr (els, act', ids'))"
  shows "extends ids ids' (concat (map I els)) (concat (map G els))"
proof -
  let ?P = "\<lambda>(els, act, ids1). extends ids ids1 (concat (map I els)) (concat (map G els))"
  have "?P (els, act', ids')"
    using assms(2)
  proof (rule pfold_invariant [where P = ?P])
    fix x u v assume P: "?P u" and step: "compose_contribution resolver u x = Some (Inr v)"
    obtain els1 act1 ids1 els2 act2 ids2 where uv: "u = (els1, act1, ids1)" "v = (els2, act2, ids2)"
      by (cases u; cases v)
    have "extends ids ids1 (concat (map I els1)) (concat (map G els1))" using P uv(1) by simp
    from compose_contribution_extends [OF assms(1) step [unfolded uv] this] show "?P v"
      by (simp add: uv(2))
  qed simp
  then show ?thesis by simp
qed

section \<open>Slots address ranges that exist\<close>

text \<open>The number of elements of the container a path leads to.\<close>

fun group_container :: "group_spec \<Rightarrow> nat list \<Rightarrow> nat option" where
  "group_container (GroupSpec gid es lay sp vp cp) [] = Some (length es)"
| "group_container (GroupSpec gid es lay sp vp cp) (i # path) =
     (if i < length es then
        (case es ! i of GGroup g \<Rightarrow> group_container g path | GItem _ \<Rightarrow> None)
      else None)"

fun bar_container :: "element list \<Rightarrow> nat list \<Rightarrow> nat option" where
  "bar_container els [] = Some (length els)"
| "bar_container els (i # path) =
     (if i < length els then
        (case els ! i of Group g \<Rightarrow> group_container g path | _ \<Rightarrow> None)
      else None)"

lemma bar_container_append:
  "path \<noteq> [] \<Longrightarrow> bar_container els path = Some n \<Longrightarrow> bar_container (els @ new) path = Some n"
  by (cases path) (auto simp: nth_append split: if_splits)

text \<open>A slot composed below the group at \<open>path\<close>.\<close>

definition slot_in_group :: "nat list \<Rightarrow> (nat list \<Rightarrow> nat option) \<Rightarrow> composed_slot \<Rightarrow> bool" where
  "slot_in_group path container s \<longleftrightarrow>
     (\<exists>rest. cslot_path s = path @ rest \<and> container rest = Some (cslot_end s) \<and> cslot_start s = 0)"

definition elements_container :: "group_element list \<Rightarrow> nat list \<Rightarrow> nat option" where
  "elements_container els path =
     (case path of
        [] \<Rightarrow> None
      | i # rest \<Rightarrow>
          if i < length els then (case els ! i of GGroup g \<Rightarrow> group_container g rest | GItem _ \<Rightarrow> None)
          else None)"

lemma elements_container_append:
  "elements_container els path = Some n \<Longrightarrow> elements_container (els @ new) path = Some n"
  by (auto simp: elements_container_def nth_append split: list.splits if_splits)

lemma slot_in_group_append:
  "slot_in_group path (elements_container els) s \<Longrightarrow> slot_in_group path (elements_container (els @ new)) s"
  using elements_container_append unfolding slot_in_group_def by blast

lemma slot_in_group_push:
  assumes "slot_in_group (path @ [length els]) (\<lambda>rest. case ge of GGroup g \<Rightarrow> group_container g rest | GItem _ \<Rightarrow> None) s"
  shows "slot_in_group path (elements_container (els @ [ge])) s"
proof -
  obtain rest where rest: "cslot_path s = path @ (length els # rest)"
    "(case ge of GGroup g \<Rightarrow> group_container g rest | GItem _ \<Rightarrow> None) = Some (cslot_end s)"
    "cslot_start s = 0"
    using assms by (auto simp: slot_in_group_def)
  then show ?thesis
    unfolding slot_in_group_def by (intro exI [of _ "length els # rest"]) (simp add: elements_container_def)
qed

section \<open>Composition of groups\<close>

definition compose_step_ok ::
  "nat list \<Rightarrow> compose_state \<Rightarrow> compose_state \<Rightarrow> item_id list \<Rightarrow> string list \<Rightarrow> (nat list \<Rightarrow> nat option) \<Rightarrow> bool" where
  "compose_step_ok path st st' its gs container \<longleftrightarrow>
     extends (cst_ids st) (cst_ids st') its gs
     \<and> (\<exists>new. cst_slots st' = cst_slots st @ new \<and> list_all (slot_in_group path container) new)"

lemma compose_slot_group_ok:
  assumes "registry_ok reg" and "compose_slot_group cat reg p ctx slot path st = Some (Inr (ge, st'))"
  shows "compose_step_ok path st st' (group_element_ids ge) (group_element_gids ge)
    (\<lambda>rest. case ge of GGroup g \<Rightarrow> group_container g rest | GItem _ \<Rightarrow> None)"
proof -
  from assms(2) obtain els act ids ids' where
    sl: "compose_group_slot cat reg slot ctx (cst_active st, cst_ids st) = Some (Inr (els, act, ids))"
    and ins: "insert_composed_group (slot_group_id p (slot_id slot)) ids = Inr ids'"
    and ge: "ge = GGroup (GroupSpec (slot_group_id p (slot_id slot)) els Natural 0 0 0)"
    and st': "st' = \<lparr>cst_active = act, cst_slots = cst_slots st @
       [\<lparr>cslot_id = slot_id slot, cslot_path = path, cslot_start = 0, cslot_end = length els\<rparr>],
       cst_ids = ids'\<rparr>"
    by (auto simp: compose_slot_group_def lift_result_def)
  have "extends (cst_ids st) ids (concat (map group_element_ids els)) (concat (map group_element_gids els))"
    using resolve_grouped_extends [OF assms(1)] sl [unfolded compose_group_slot_def]
    by (rule compose_slot_extends)
  from extends_mset [OF extends_append [OF this insert_composed_group_extends [OF ins]],
      of "slot_group_id p (slot_id slot) # concat (map group_element_gids els)"]
  have "extends (cst_ids st) ids' (concat (map group_element_ids els))
    (slot_group_id p (slot_id slot) # concat (map group_element_gids els))" by simp
  then show ?thesis
    by (simp add: compose_step_ok_def ge st' slot_in_group_def)
qed

lemma compose_step_ok_push:
  assumes "compose_step_ok path st0 st (concat (map group_element_ids els))
      (concat (map group_element_gids els)) (elements_container els)"
    and "compose_step_ok (path @ [length els]) st st' (group_element_ids ge) (group_element_gids ge)
      (\<lambda>rest. case ge of GGroup g \<Rightarrow> group_container g rest | GItem _ \<Rightarrow> None)"
  shows "compose_step_ok path st0 st' (concat (map group_element_ids (els @ [ge])))
      (concat (map group_element_gids (els @ [ge]))) (elements_container (els @ [ge]))"
proof -
  obtain new where new: "cst_slots st = cst_slots st0 @ new"
    "list_all (slot_in_group path (elements_container els)) new"
    using assms(1) by (auto simp: compose_step_ok_def)
  obtain new' where new': "cst_slots st' = cst_slots st @ new'"
    "list_all (slot_in_group (path @ [length els])
      (\<lambda>rest. case ge of GGroup g \<Rightarrow> group_container g rest | GItem _ \<Rightarrow> None)) new'"
    using assms(2) by (auto simp: compose_step_ok_def)
  have "list_all (slot_in_group path (elements_container (els @ [ge]))) (new @ new')"
    using new(2) new'(2) slot_in_group_append slot_in_group_push by (auto simp: list_all_iff)
  moreover have "extends (cst_ids st0) (cst_ids st') (concat (map group_element_ids (els @ [ge])))
      (concat (map group_element_gids (els @ [ge])))"
  proof -
    have "extends (cst_ids st0) (cst_ids st) (concat (map group_element_ids els))
        (concat (map group_element_gids els))"
      "extends (cst_ids st) (cst_ids st') (group_element_ids ge) (group_element_gids ge)"
      using assms by (simp_all add: compose_step_ok_def)
    from extends_append [OF this] show ?thesis by simp
  qed
  ultimately show ?thesis
    unfolding compose_step_ok_def new'(1) new(1) by auto
qed

lemma compose_profile_group_ok:
  "registry_ok reg \<Longrightarrow> compose_profile_group_element cat reg p ctx e path st = Some (Inr (ge, st')) \<Longrightarrow>
     compose_step_ok path st st' (group_element_ids ge) (group_element_gids ge)
       (\<lambda>rest. case ge of GGroup g \<Rightarrow> group_container g rest | GItem _ \<Rightarrow> None)"
  "registry_ok reg \<Longrightarrow> compose_profile_group cat reg p ctx g path st = Some (Inr (gs, st')) \<Longrightarrow>
     compose_step_ok path st st' (collect_group_item_ids gs) (group_gids gs) (group_container gs)"
proof (induction e and g arbitrary: path st ge st' and path st gs st')
  case (PGSlot slot)
  then show ?case by (simp add: compose_slot_group_ok)
next
  case (PGGroup g)
  then show ?case by (auto simp: compose_step_ok_def)
next
  case (ProfileGroup gid es lay sp vp cp)
  let ?step = "\<lambda>acc e. pbind
    (compose_profile_group_element cat reg p ctx e (path @ [length (fst acc)]) (snd acc))
    (\<lambda>(el, s'). Some (Inr (fst acc @ [el], s')))"
  from ProfileGroup.prems(2) obtain ids els where
    ins: "insert_composed_group gid (cst_ids st) = Inr ids"
    and fold: "pfold ?step ([], st\<lparr>cst_ids := ids\<rparr>) es = Some (Inr (els, st'))"
    and gs: "gs = GroupSpec gid els lay sp vp cp"
    by (auto simp: lift_result_def)
  let ?P = "\<lambda>acc. compose_step_ok path (st\<lparr>cst_ids := ids\<rparr>) (snd acc) (concat (map group_element_ids (fst acc)))
      (concat (map group_element_gids (fst acc))) (elements_container (fst acc))"
  have "?P (els, st')"
    using fold
  proof (rule pfold_invariant [where P = ?P])
    fix x u v assume x: "x \<in> set es" and P: "?P u" and step: "?step u x = Some (Inr v)"
    obtain ge s' where r: "compose_profile_group_element cat reg p ctx x (path @ [length (fst u)]) (snd u) =
        Some (Inr (ge, s'))" "v = (fst u @ [ge], s')"
      using step by auto
    from compose_step_ok_push [OF P ProfileGroup.IH [OF x ProfileGroup.prems(1) r(1)]] r(2)
    show "?P v" by simp
  qed (simp add: compose_step_ok_def)
  then obtain new where ext: "extends ids (cst_ids st') (concat (map group_element_ids els))
      (concat (map group_element_gids els))" and new: "cst_slots st' = cst_slots st @ new"
    "list_all (slot_in_group path (elements_container els)) new"
    by (auto simp: compose_step_ok_def)
  have "elements_container els rest = Some n \<Longrightarrow> group_container gs rest = Some n" for rest n
    by (cases rest) (auto simp: gs elements_container_def)
  then have "list_all (slot_in_group path (group_container gs)) new"
    using new(2) by (auto simp: list_all_iff slot_in_group_def)
  moreover have "extends (cst_ids st) (cst_ids st') (collect_group_item_ids gs) (group_gids gs)"
    using extends_append [OF insert_composed_group_extends [OF ins] ext] by (simp add: gs)
  ultimately show ?case using new(1) by (auto simp: compose_step_ok_def)
qed

section \<open>Composition of a profile\<close>

definition slot_ok :: "element list \<Rightarrow> composed_slot \<Rightarrow> bool" where
  "slot_ok els s \<longleftrightarrow>
     (\<exists>n. bar_container els (cslot_path s) = Some n \<and> cslot_start s \<le> cslot_end s \<and> cslot_end s \<le> n)"

lemma slot_ok_append: "slot_ok els s \<Longrightarrow> slot_ok (els @ new) s"
proof (cases "cslot_path s = []")
  case False
  assume "slot_ok els s"
  then show ?thesis using bar_container_append [OF False] unfolding slot_ok_def by blast
qed (auto simp: slot_ok_def)

definition compose_ok :: "element list \<Rightarrow> compose_state \<Rightarrow> bool" where
  "compose_ok els st \<longleftrightarrow>
     extends ({}, {}) (cst_ids st) (concat (map collect_item_ids els)) (concat (map element_gids els))
     \<and> list_all (slot_ok els) (cst_slots st)"

lemma compose_profile_element_ok:
  assumes reg: "registry_ok reg" and ok: "compose_ok els st"
    and step: "compose_profile_element cat reg p ctx (els, st) e = Some (Inr (els', st'))"
  shows "compose_ok els' st'"
proof (cases e)
  case (PSlot slot)
  then obtain new act ids where
    sl: "compose_top_slot cat reg slot ctx (cst_active st, cst_ids st) = Some (Inr (new, act, ids))"
    and res: "els' = els @ new" "st' = \<lparr>cst_active = act, cst_slots = cst_slots st @
        [\<lparr>cslot_id = slot_id slot, cslot_path = [], cslot_start = length els, cslot_end = length (els @ new)\<rparr>],
        cst_ids = ids\<rparr>"
    using step by auto
  have "extends (cst_ids st) ids (concat (map collect_item_ids new)) (concat (map element_gids new))"
    using resolve_top_extends [OF reg] sl [unfolded compose_top_slot_def] by (rule compose_slot_extends)
  moreover have base: "extends ({}, {}) (cst_ids st) (concat (map collect_item_ids els)) (concat (map element_gids els))"
    and slots: "list_all (slot_ok els) (cst_slots st)"
    using ok by (simp_all add: compose_ok_def)
  ultimately have "extends ({}, {}) (cst_ids st') (concat (map collect_item_ids els')) (concat (map element_gids els'))"
    using extends_append [OF base] by (simp add: res)
  moreover have "list_all (slot_ok els') (cst_slots st')"
    using slots slot_ok_append [of els _ new] by (auto simp: res list_all_iff) (simp add: slot_ok_def)
  ultimately show ?thesis by (simp add: compose_ok_def)
next
  case (PGroup g)
  then obtain gs where sl: "compose_profile_group cat reg p ctx g [length els] st = Some (Inr (gs, st'))"
    and els': "els' = els @ [Group gs]"
    using step by auto
  obtain new where new: "extends (cst_ids st) (cst_ids st') (collect_group_item_ids gs) (group_gids gs)"
    "cst_slots st' = cst_slots st @ new" "list_all (slot_in_group [length els] (group_container gs)) new"
    using compose_profile_group_ok(2) [OF reg sl] by (auto simp: compose_step_ok_def)
  have "slot_ok els' s" if "s \<in> set new" for s
    using new(3) that by (auto simp: list_all_iff slot_in_group_def slot_ok_def els')
  moreover have "extends ({}, {}) (cst_ids st') (concat (map collect_item_ids els'))
      (concat (map element_gids els'))"
  proof -
    have "extends ({}, {}) (cst_ids st) (concat (map collect_item_ids els)) (concat (map element_gids els))"
      using ok by (simp add: compose_ok_def)
    from extends_append [OF this new(1)] show ?thesis by (simp add: els')
  qed
  moreover have "list_all (slot_ok els') (cst_slots st)"
    using ok slot_ok_append unfolding compose_ok_def els' list_all_iff by blast
  ultimately show ?thesis unfolding compose_ok_def new(2) by (auto simp: list_all_iff)
next
  case (PFixedSpace w)
  then show ?thesis using step ok slot_ok_append unfolding compose_ok_def list_all_iff by auto
next
  case (PFlexibleSpace m w)
  then show ?thesis using step ok slot_ok_append unfolding compose_ok_def list_all_iff by auto
qed

section \<open>Composition does not panic\<close>

definition catalog_ok :: "profile_catalog \<Rightarrow> bool" where
  "catalog_ok cat \<longleftrightarrow>
     bt_ok (cat_contributions cat) \<and> bt_ok (cat_profiles cat)
     \<and> (\<forall>i c. bt_get (cat_contributions cat) i = Some c \<longrightarrow> con_id c = i \<and> \<not> str_blank i)
     \<and> (\<forall>i p. bt_get (cat_profiles cat) i = Some p \<longrightarrow> prof_id p = i \<and> \<not> str_blank i)"

lemma catalog_ok_empty [invar_intro]: "catalog_ok \<lparr>cat_contributions = [], cat_profiles = []\<rparr>"
  by (simp add: catalog_ok_def)

lemma catalog_ok_add [invar_intro]:
  "catalog_ok cat \<Longrightarrow> add_contribution c cat = Inr cat' \<Longrightarrow> catalog_ok cat'"
  "catalog_ok cat \<Longrightarrow> add_profile p cat = Inr cat' \<Longrightarrow> catalog_ok cat'"
  by (auto simp: catalog_ok_def add_contribution_def add_profile_def split: if_splits)

lemma validated_contribution:
  assumes "catalog_validate cat reg = Inr ()" and "catalog_ok cat"
    and "bt_get (cat_contributions cat) i = Some c"
  shows "ContextProxy \<notin> set (con_elements c)"
proof -
  have "rfold (\<lambda>_ c. rmap (\<lambda>_. ()) (validate_contribution reg c)) () (bt_values (cat_contributions cat)) = Inr ()"
    using assms(1) by (auto simp: catalog_validate_def)
  then have "list_all (\<lambda>c. \<exists>gids. validate_contribution reg c = Inr gids) (bt_values (cat_contributions cat))"
    by (rule rfold_list_all) auto
  moreover have "c \<in> set (bt_values (cat_contributions cat))"
    using assms(2,3) by (auto simp: catalog_ok_def intro: bt_get_Some_value)
  ultimately obtain gids where "rfold (validate_contribution_element reg c) {} (con_elements c) = Inr gids"
    by (auto simp: list_all_iff validate_contribution_def)
  then have "list_all (\<lambda>e. e \<noteq> ContextProxy) (con_elements c)"
    by (rule rfold_list_all) auto
  then show ?thesis by (auto simp: list_all_iff)
qed

lemma slot_candidates_bound:
  assumes "(k, c) \<in> set (slot_candidates cat slot ctx)"
  shows "\<exists>b\<in>set (slot_bindings slot). bt_get (cat_contributions cat) (bind_contribution b) = Some c"
    and "slot_policy slot = Fixed \<or> pred_matches (con_predicate c) ctx"
proof -
  let ?bs = "sort_key (\<lambda>(i, b). (bind_order b, i)) (enumerate 0 (slot_bindings slot))"
  obtain j i b where j: "(j, i, b) \<in> set (enumerate 0 ?bs)"
    "bt_get (cat_contributions cat) (bind_contribution b) = Some c"
    and fixed: "slot_policy slot = Fixed \<or> pred_matches (con_predicate c) ctx"
    using assms unfolding slot_candidates_def
    by (auto simp: in_set_map_filter split: option.splits if_splits)
  have "(i, b) \<in> set ?bs" using enumerate_memb [OF j(1)] by simp
  then have "b \<in> set (slot_bindings slot)" using enumerate_memb [of "(i, b)" 0] by simp
  then show "\<exists>b\<in>set (slot_bindings slot). bt_get (cat_contributions cat) (bind_contribution b) = Some c"
    using j(2) by blast
  show "slot_policy slot = Fixed \<or> pred_matches (con_predicate c) ctx" by (rule fixed)
qed

lemma select_bindings_candidate:
  assumes "c \<in> set (select_bindings cat slot ctx)"
  shows "\<exists>k. (k, c) \<in> set (slot_candidates cat slot ctx)"
  using assms max_by_last_Some(1) [of "\<lambda>(k, c). (con_priority c, con_scope c, - int k)"
      "slot_candidates cat slot ctx"]
  by (auto simp: select_bindings_def Let_def split: if_splits option.splits) metis

lemma select_bindings_bound:
  "c \<in> set (select_bindings cat slot ctx) \<Longrightarrow>
     \<exists>b\<in>set (slot_bindings slot). bt_get (cat_contributions cat) (bind_contribution b) = Some c"
  using select_bindings_candidate slot_candidates_bound(1) by blast

definition flat_slot :: "profile_catalog \<Rightarrow> slot_definition \<Rightarrow> bool" where
  "flat_slot cat slot \<longleftrightarrow>
     (\<forall>b\<in>set (slot_bindings slot). \<forall>c. bt_get (cat_contributions cat) (bind_contribution b) = Some c \<longrightarrow>
        \<not> list_ex is_space (con_elements c))"

fun flat_group_element :: "profile_catalog \<Rightarrow> profile_group_element \<Rightarrow> bool"
and flat_group :: "profile_catalog \<Rightarrow> profile_group \<Rightarrow> bool" where
  "flat_group_element cat (PGSlot slot) = flat_slot cat slot"
| "flat_group_element cat (PGGroup g) = flat_group cat g"
| "flat_group cat (ProfileGroup gid es lay sp vp cp) = list_all (flat_group_element cat) es"

lemma validate_slot_flat:
  assumes "validate_slot cat p slot True slots = Inr slots'"
  shows "flat_slot cat slot"
proof -
  let ?check = "\<lambda>_ b. rbind (ok_or (PUnknownContribution (prof_id p) (slot_id slot) (bind_contribution b))
            (bt_get (cat_contributions cat) (bind_contribution b)))
        (\<lambda>c. if True \<and> list_ex is_space (con_elements c)
             then Inl (PSpaceInGroupedSlot (prof_id p) (slot_id slot) (bind_contribution b)) else Inr ())"
  have "rfold ?check () (slot_bindings slot) = Inr ()"
    using assms by (auto simp: validate_slot_def split: if_splits)
  then have "list_all (\<lambda>b. \<forall>c. bt_get (cat_contributions cat) (bind_contribution b) = Some c \<longrightarrow>
      \<not> list_ex is_space (con_elements c)) (slot_bindings slot)"
    by (rule rfold_list_all) (auto split: if_splits)
  then show ?thesis by (simp add: flat_slot_def list_all_iff)
qed

lemma validate_profile_group_flat:
  "validate_profile_group_element cat p gid e d st = Inr st' \<Longrightarrow> flat_group_element cat e"
  "validate_profile_group cat p g d st = Inr st' \<Longrightarrow> flat_group cat g"
proof (induction e and g arbitrary: gid d st st' and d st st')
  case (PGSlot slot)
  then show ?case by (auto split: if_splits dest: validate_slot_flat)
next
  case (ProfileGroup gid es lay sp vp cp)
  then have "rfold (\<lambda>s e. validate_profile_group_element cat p gid e d s) (fst st, insert gid (snd st)) es = Inr st'"
    by (auto split: if_splits)
  then have "list_all (flat_group_element cat) es"
    by (rule rfold_list_all) (use ProfileGroup.IH in blast)
  then show ?case by simp
qed auto

lemma compose_contribution_total:
  assumes "\<And>e ids. e \<in> set (con_elements c) \<Longrightarrow> resolver c e ids \<noteq> None"
  shows "compose_contribution resolver st c \<noteq> None"
proof -
  obtain els act ids where st: "st = (els, act, ids)" by (cases st)
  show ?thesis
    unfolding compose_contribution_def st split_conv
  proof (rule pfold_not_None)
    fix x and u :: "'a list \<times> contribution_id list \<times> used_ids"
    assume x: "x \<in> set (con_elements c)"
    obtain els1 act1 ids1 where u: "u = (els1, act1, ids1)" by (cases u)
    show "(\<lambda>(els, active, ids) e.
        pbind (resolver c e ids) (\<lambda>(el, ids'). Some (Inr (els @ [el], active, ids')))) u x \<noteq> None"
      using assms [OF x, of ids1] unfolding u by (auto simp: pbind_eq_None)
  qed
qed

lemma top_resolver_total: "e \<noteq> ContextProxy \<Longrightarrow> resolve_top_contribution_element reg c e ids \<noteq> None"
  by (cases e) auto

lemma grouped_resolver_total:
  "e \<noteq> ContextProxy \<Longrightarrow> \<not> is_space e \<Longrightarrow> resolve_grouped_contribution_element reg c e ids \<noteq> None"
  by (cases e) auto

lemma compose_top_slot_total:
  assumes "catalog_validate cat reg = Inr ()" and "catalog_ok cat"
  shows "compose_top_slot cat reg slot ctx st \<noteq> None"
  unfolding compose_top_slot_def
proof (rule pfold_not_None, rule compose_contribution_total, rule top_resolver_total)
  fix c e assume "c \<in> set (select_bindings cat slot ctx)" and "e \<in> set (con_elements c)"
  then show "e \<noteq> ContextProxy"
    using validated_contribution [OF assms] select_bindings_bound by blast
qed

lemma compose_group_slot_total:
  assumes "catalog_validate cat reg = Inr ()" and "catalog_ok cat" and "flat_slot cat slot"
  shows "compose_group_slot cat reg slot ctx st \<noteq> None"
  unfolding compose_group_slot_def
proof (rule pfold_not_None, rule compose_contribution_total, rule grouped_resolver_total)
  fix c e assume c: "c \<in> set (select_bindings cat slot ctx)" and e: "e \<in> set (con_elements c)"
  obtain b where b: "b \<in> set (slot_bindings slot)" "bt_get (cat_contributions cat) (bind_contribution b) = Some c"
    using select_bindings_bound [OF c] by blast
  show "e \<noteq> ContextProxy" using validated_contribution [OF assms(1,2) b(2)] e by blast
  show "\<not> is_space e" using assms(3) b e by (auto simp: flat_slot_def list_ex_iff)
qed

lemma compose_profile_group_total:
  "catalog_validate cat reg = Inr () \<Longrightarrow> catalog_ok cat \<Longrightarrow> flat_group_element cat e \<Longrightarrow>
     compose_profile_group_element cat reg p ctx e path st \<noteq> None"
  "catalog_validate cat reg = Inr () \<Longrightarrow> catalog_ok cat \<Longrightarrow> flat_group cat g \<Longrightarrow>
     compose_profile_group cat reg p ctx g path st \<noteq> None"
proof (induction e and g arbitrary: path st and path st)
  case (PGSlot slot)
  then show ?case
    using compose_group_slot_total [of cat reg slot ctx "(cst_active st, cst_ids st)"]
    by (auto simp: compose_slot_group_def pbind_eq_None lift_result_def)
next
  case (PGGroup g)
  then show ?case by (auto simp: pbind_eq_None)
next
  case (ProfileGroup gid es lay sp vp cp)
  let ?step = "\<lambda>acc e. pbind
    (compose_profile_group_element cat reg p ctx e (path @ [length (fst acc)]) (snd acc))
    (\<lambda>(el, s'). Some (Inr (fst acc @ [el], s')))"
  have "pfold ?step ([], st\<lparr>cst_ids := ids\<rparr>) es \<noteq> None" for ids
    by (rule pfold_not_None) (use ProfileGroup in \<open>auto simp: pbind_eq_None list_all_iff\<close>)
  then show ?case by (auto simp: pbind_eq_None lift_result_def)
qed

lemma compose_profile_element_total:
  assumes "catalog_validate cat reg = Inr ()" and "catalog_ok cat"
    and "validate_profile_element cat p st0 e = Inr st1"
  shows "compose_profile_element cat reg pid ctx acc e \<noteq> None"
proof -
  obtain els st where acc: "acc = (els, st)" by (cases acc)
  show ?thesis
  proof (cases e)
    case (PGroup g)
    then have "flat_group cat g" using assms(3) validate_profile_group_flat(2) by auto
    then show ?thesis
      using compose_profile_group_total(2) [OF assms(1,2)] PGroup acc by (auto simp: pbind_eq_None)
  next
    case (PSlot slot)
    then show ?thesis
      using compose_top_slot_total [OF assms(1,2)] acc by (auto simp: pbind_eq_None)
  qed (use acc in auto)
qed

lemma validated_profile:
  assumes "catalog_validate cat reg = Inr ()" and "catalog_ok cat"
    and "bt_get (cat_profiles cat) pid = Some p"
  shows "list_all (\<lambda>e. \<exists>st0 st1. validate_profile_element cat p st0 e = Inr st1) (prof_elements p)"
proof -
  have "rfold (\<lambda>_ p. rmap (\<lambda>_. ()) (validate_profile cat p)) () (bt_values (cat_profiles cat)) = Inr ()"
    using assms(1) by (auto simp: catalog_validate_def)
  then have "list_all (\<lambda>p. \<exists>st. validate_profile cat p = Inr st) (bt_values (cat_profiles cat))"
    by (rule rfold_list_all) auto
  moreover have "p \<in> set (bt_values (cat_profiles cat))"
    using assms(2,3) by (auto simp: catalog_ok_def intro: bt_get_Some_value)
  ultimately obtain st where "rfold (validate_profile_element cat p) ({}, {}) (prof_elements p) = Inr st"
    by (auto simp: list_all_iff validate_profile_def)
  then show ?thesis by (rule rfold_list_all) blast
qed

section \<open>Selection of contributions\<close>

text \<open>Sorting by an explicit (key, position) pair is a stable sort by the key.\<close>

lemma sort_key_position:
  "map snd (sort_key (\<lambda>(i, x). (f x, i)) (enumerate n xs)) = sort_key f xs"
proof -
  let ?E = "enumerate n xs" and ?S = "sort_key (\<lambda>(i, x). (f x, i)) (enumerate n xs)"
  have same: "filter (\<lambda>p. a = f (snd p)) ?S = filter (\<lambda>p. a = f (snd p)) ?E" for a
  proof (rule map_sorted_distinct_set_unique [where f = fst])
    let ?FS = "filter (\<lambda>p. a = f (snd p)) ?S" and ?FE = "filter (\<lambda>p. a = f (snd p)) ?E"
    have enum: "sorted (map fst ?E)" "distinct (map fst ?E)" by simp_all
    show "distinct (map fst ?FE)" by (rule distinct_map_filter) (rule enum(2))
    show "sorted (map fst ?FE)" by (rule sorted_filter) (rule enum(1))
    have "distinct (map fst ?S)"
      using enum(2) by (metis distinct_map distinct_sort set_sort)
    then show "distinct (map fst ?FS)" by (rule distinct_map_filter)
    have "sorted (map (\<lambda>(i, x). (f x, i)) ?FS)" by (intro sorted_filter) simp
    moreover have "map (\<lambda>(i, x). (f x, i)) ?FS = map (\<lambda>p. (a, fst p)) ?FS"
      by (rule map_cong) auto
    ultimately show "sorted (map fst ?FS)" by (simp add: sorted_map)
    show "inj_on fst (set ?FS \<union> set ?FE)"
      by (rule inj_on_subset [of fst "set ?E"]) 
        (use enum(2) [unfolded distinct_map] in auto)
    show "set ?FS = set ?FE" by simp
  qed
  have "sort_key f xs = map snd ?S"
  proof (rule properties_for_sort_key)
    show "mset (map snd ?S) = mset xs" by (metis map_snd_enumerate mset_map mset_sort)
    show "filter (\<lambda>x. f k = f x) (map snd ?S) = filter (\<lambda>x. f k = f x) xs" if "k \<in> set (map snd ?S)" for k
    proof -
      have "filter (\<lambda>x. f k = f x) (map snd ?S) = map snd (filter (\<lambda>p. f k = f (snd p)) ?S)"
        by (simp only: filter_map comp_def)
      also have "\<dots> = map snd (filter (\<lambda>p. f k = f (snd p)) ?E)" by (simp only: same)
      also have "\<dots> = filter (\<lambda>x. f k = f x) (map snd ?E)" by (simp only: filter_map comp_def)
      finally show ?thesis by simp
    qed
    have "sorted (map (\<lambda>(i, x). (f x, i)) ?S)" by simp
    then show "sorted (map f (map snd ?S))"
      by (auto simp: sorted_map case_prod_beta elim: sorted_wrt_mono_rel [rotated])
  qed
  then show ?thesis by simp
qed

text \<open>The reference: the active contributions in user order.\<close>

definition active_binding ::
  "profile_catalog \<Rightarrow> slot_definition \<Rightarrow> context_snapshot \<Rightarrow> contribution_binding \<Rightarrow> contribution_definition option" where
  "active_binding cat slot ctx b =
     (case bt_get (cat_contributions cat) (bind_contribution b) of
        None \<Rightarrow> None
      | Some c \<Rightarrow> if slot_policy slot = Fixed \<or> pred_matches (con_predicate c) ctx then Some c else None)"

definition active_contributions ::
  "profile_catalog \<Rightarrow> slot_definition \<Rightarrow> context_snapshot \<Rightarrow> contribution_definition list" where
  "active_contributions cat slot ctx =
     List.map_filter (active_binding cat slot ctx) (sort_key bind_order (slot_bindings slot))"

lemma map_filter_enumerate:
  "map snd (List.map_filter (\<lambda>(k, (i, b)). map_option (Pair k) (g b)) (enumerate n xs)) =
     List.map_filter g (map snd xs)"
  by (induction xs arbitrary: n) (auto simp: map_filter_simps split: option.splits)

lemma map_filter_enumerate_sorted:
  "sorted_wrt (<) (map fst (List.map_filter (\<lambda>(k, (i, b)). map_option (Pair k) (g b)) (enumerate n xs)))
   \<and> (\<forall>p\<in>set (List.map_filter (\<lambda>(k, (i, b)). map_option (Pair k) (g b)) (enumerate n xs)). n \<le> fst p)"
proof (induction xs arbitrary: n)
  case (Cons x xs)
  from Cons [of "Suc n"] show ?case
    by (cases x) (fastforce simp: map_filter_simps split: option.splits)
qed (simp add: map_filter_simps)

lemma slot_candidates_alt:
  "slot_candidates cat slot ctx =
     List.map_filter (\<lambda>(k, (i, b)). map_option (Pair k) (active_binding cat slot ctx b))
       (enumerate 0 (sort_key (\<lambda>(i, b). (bind_order b, i)) (enumerate 0 (slot_bindings slot))))"
  unfolding slot_candidates_def
  by (rule arg_cong [where f = "\<lambda>f. List.map_filter f _"])
    (auto simp: fun_eq_iff active_binding_def split: option.splits)

lemma slot_candidates_contributions:
  "map snd (slot_candidates cat slot ctx) = active_contributions cat slot ctx"
  unfolding slot_candidates_alt map_filter_enumerate active_contributions_def sort_key_position ..

lemma slot_candidates_sorted: "sorted_wrt (<) (map fst (slot_candidates cat slot ctx))"
  unfolding slot_candidates_alt using map_filter_enumerate_sorted by blast

definition outranks :: "contribution_definition \<Rightarrow> contribution_definition \<Rightarrow> bool" where
  "outranks c d \<longleftrightarrow> (con_priority d, con_scope d) \<le> (con_priority c, con_scope c)"

lemma max_candidate_first:
  assumes srt: "sorted_wrt (<) (map fst cands)"
  shows "map_option snd (max_by_last (\<lambda>(k, c). (con_priority c, con_scope c, - int k)) cands) =
    find (\<lambda>c. \<forall>d\<in>set (map snd cands). outranks c d) (map snd cands)"
  unfolding outranks_def
  by (rule max_by_last_first [OF srt, where h = "\<lambda>c. (con_priority c, con_scope c)"])
    (auto simp: less_eq_prod_def less_prod_def)

section \<open>A concrete catalog\<close>

definition demo_contribution :: "contribution_id \<Rightarrow> bar_element list \<Rightarrow> contribution_definition" where
  "demo_contribution i els = \<lparr>con_id = i, con_elements = els, con_predicate = Always,
     con_scope = Global, con_priority = 0\<rparr>"

definition demo_slot :: "slot_id \<Rightarrow> contribution_id list \<Rightarrow> slot_definition" where
  "demo_slot i cs = \<lparr>slot_id = i, slot_policy = Collect,
     slot_bindings = map (\<lambda>c. \<lparr>bind_contribution = c, bind_order = 0\<rparr>) cs\<rparr>"

definition demo_catalog :: profile_catalog where
  "demo_catalog =
     \<lparr>cat_contributions =
        [(''x'', demo_contribution ''x'' [BItem ''a'', BFixedSpace 4]),
         (''y'', demo_contribution ''y'' [BItem ''b''])],
      cat_profiles =
        [(''main'', \<lparr>prof_id = ''main'',
           prof_elements = [PSlot (demo_slot ''left'' [''x'']),
             PGroup (ProfileGroup ''g'' [PGSlot (demo_slot ''right'' [''y''])] Natural 4 0 0)],
           prof_principal_item = Some ''a''\<rparr>)]\<rparr>"

lemma demo_catalog_ok: "catalog_ok demo_catalog"
proof -
  have "\<not> str_blank ''x''" "\<not> str_blank ''y''" "\<not> str_blank ''main''" by code_simp+
  then show ?thesis
    by (auto simp: catalog_ok_def demo_catalog_def bt_ok_def bt_get_def demo_contribution_def split: if_splits)
qed

definition demo_profile_composition :: profile_composition where
  "demo_profile_composition =
     \<lparr>pcomp_profile = ''main'', pcomp_active = [''x'', ''y''],
      pcomp_slots =
        [\<lparr>cslot_id = ''left'', cslot_path = [], cslot_start = 0, cslot_end = 2\<rparr>,
         \<lparr>cslot_id = ''right'', cslot_path = [2, 0], cslot_start = 0, cslot_end = 1\<rparr>],
      pcomp_bar =
        \<lparr>bar_elements = [Item (new_item ''a'' 10 20 30), FixedSpace 4,
           Group (GroupSpec ''g''
             [GGroup (GroupSpec ''@slot/main/right'' [GItem (new_item ''b'' 10 20 30)] Natural 0 0 0)]
             Natural 4 0 0)],
         principal_item = Some ''a''\<rparr>\<rparr>"

lemma demo_profile_compose:
  "profile_compose demo_catalog demo_registry ''main'' empty_context = Some (Inr demo_profile_composition)"
  by code_simp

section \<open>Properties\<close>

text \<open>A slot shows its bindings as its policy says: a collecting slot the active contributions in
  user order (position breaking ties), a fixed slot every contribution whatever the context, and
  a selecting slot only the first active contribution that no other one outranks by priority and
  then by scope.\<close>

theorem slot_selection:
  "select_bindings cat slot ctx =
     (if slot_policy slot = Select then
        (case find (\<lambda>c. \<forall>d\<in>set (active_contributions cat slot ctx). outranks c d)
                (active_contributions cat slot ctx) of
           None \<Rightarrow> [] | Some c \<Rightarrow> [c])
      else active_contributions cat slot ctx)"
proof -
  have case_snd: "(case best of None \<Rightarrow> [] | Some (_, c) \<Rightarrow> [c]) =
    (case map_option snd best of None \<Rightarrow> [] | Some c \<Rightarrow> [c])"
    for best :: "(nat \<times> contribution_definition) option"
    by (cases best) auto
  show ?thesis
    unfolding select_bindings_def Let_def case_snd max_candidate_first [OF slot_candidates_sorted]
      slot_candidates_contributions by simp
qed

theorem slot_selection_witness:
  "map con_id (select_bindings demo_catalog
     ((demo_slot ''left'' [''y'', ''x''])\<lparr>slot_policy := Select\<rparr>) empty_context) = [''y'']"
  unfolding slot_selection by code_simp

text \<open>Composing a profile never panics: validation excludes context proxies in contributions
  and spaces in grouped slots, which the resolver takes for unreachable.\<close>

theorem profile_compose_total:
  assumes "catalog_ok cat"
  shows "\<exists>r. profile_compose cat reg pid ctx = Some r"
proof -
  have "pfold (compose_profile_element cat reg (prof_id p) ctx) acc (prof_elements p) \<noteq> None"
    if v: "catalog_validate cat reg = Inr ()" "bt_get (cat_profiles cat) pid = Some p" for p acc
  proof (rule pfold_not_None)
    fix e u assume "e \<in> set (prof_elements p)"
    then obtain st0 st1 where "validate_profile_element cat p st0 e = Inr st1"
      using validated_profile [OF v(1) assms v(2)] unfolding list_all_iff by blast
    then show "compose_profile_element cat reg (prof_id p) ctx u e \<noteq> None"
      by (rule compose_profile_element_total [OF v(1) assms])
  qed
  then have "profile_compose cat reg pid ctx \<noteq> None"
    by (auto simp: profile_compose_def lift_result_def pbind_eq_None)
  then show ?thesis by simp
qed

theorem profile_compose_total_witness:
  "\<exists>r. profile_compose demo_catalog demo_registry ''main'' empty_context = Some r"
  using demo_catalog_ok by (rule profile_compose_total)

lemma composition_well_formed:
  assumes "registry_ok reg" and "profile_compose cat reg pid ctx = Some (Inr pc)"
  shows "distinct (bar_item_ids (pcomp_bar pc))
    \<and> distinct (concat (map element_gids (bar_elements (pcomp_bar pc))))
    \<and> (\<forall>i. principal_item (pcomp_bar pc) = Some i \<longrightarrow> i \<in> set (bar_item_ids (pcomp_bar pc)))
    \<and> (\<forall>s\<in>set (pcomp_slots pc). slot_ok (bar_elements (pcomp_bar pc)) s)"
proof -
  from assms(2) obtain p els st where
    fold: "pfold (compose_profile_element cat reg (prof_id p) ctx)
       ([], \<lparr>cst_active = [], cst_slots = [], cst_ids = ({}, {})\<rparr>) (prof_elements p) = Some (Inr (els, st))"
    and eq: "pc = finish_composition p els st"
    by (auto simp: profile_compose_def lift_result_def)
  have pc: "pcomp_slots pc = cst_slots st" "bar_elements (pcomp_bar pc) = els"
      "principal_item (pcomp_bar pc) = (case prof_principal_item p of None \<Rightarrow> None
         | Some i \<Rightarrow> if i \<in> fst (cst_ids st) then Some i else None)"
    by (simp_all add: eq finish_composition_def)
  let ?P = "\<lambda>acc. compose_ok (fst acc) (snd acc)"
  have "?P (els, st)"
    using fold
  proof (rule pfold_invariant [where P = ?P])
    fix x u v assume "?P u" "compose_profile_element cat reg (prof_id p) ctx u x = Some (Inr v)"
    then show "?P v" using compose_profile_element_ok [OF assms(1), of "fst u" "snd u"] by (cases v) auto
  qed (simp add: compose_ok_def)
  then have ok: "extends ({}, {}) (cst_ids st) (bar_item_ids (pcomp_bar pc)) (concat (map element_gids els))"
    "list_all (slot_ok els) (cst_slots st)"
    by (simp_all add: compose_ok_def bar_item_ids_def pc)
  then have "fst (cst_ids st) = set (bar_item_ids (pcomp_bar pc))"
    by (simp add: extends_def fresh_union_def)
  then show ?thesis
    using ok pc by (auto simp: extends_def fresh_union_def list_all_iff split: option.splits if_splits)
qed

text \<open>(C40) A composed bar holds no item twice and no group twice, its principal item is one of its
  items, and every composed slot addresses a range of elements that exists in the bar.\<close>

theorem profile_composition_well_formed:
  assumes "registry_ok reg" and "profile_compose cat reg pid ctx = Some (Inr pc)"
  shows "distinct (bar_item_ids (pcomp_bar pc))
    \<and> distinct (concat (map element_gids (bar_elements (pcomp_bar pc))))
    \<and> (\<forall>i. principal_item (pcomp_bar pc) = Some i \<longrightarrow> i \<in> set (bar_item_ids (pcomp_bar pc)))
    \<and> (\<forall>s\<in>set (pcomp_slots pc). slot_ok (bar_elements (pcomp_bar pc)) s)"
  using assms by (rule composition_well_formed)

theorem profile_composition_well_formed_witness:
  "distinct (bar_item_ids (pcomp_bar demo_profile_composition))
    \<and> slot_ok (bar_elements (pcomp_bar demo_profile_composition))
        \<lparr>cslot_id = ''right'', cslot_path = [2, 0], cslot_start = 0, cslot_end = 1\<rparr>"
  using profile_composition_well_formed [OF demo_registry_ok demo_profile_compose]
  by (simp add: demo_profile_composition_def)

text \<open>Validation bounds the depth of profile groups and of contribution groups one by one, not the
  depth of their composition: a profile can validate and compose into a bar whose nesting the layout
  rejects.\<close>

fun nested_profile_group :: "nat \<Rightarrow> profile_group_element \<Rightarrow> profile_group_element" where
  "nested_profile_group 0 e = e"
| "nested_profile_group (Suc n) e =
     PGGroup (ProfileGroup (replicate (Suc n) (CHR ''g'')) [nested_profile_group n e] Natural 0 0 0)"

definition deep_catalog :: profile_catalog where
  "deep_catalog =
     \<lparr>cat_contributions =
        [(''x'', demo_contribution ''x'' [BGroup (BarGroup ''inner'' [BGItem ''a''] Natural 0 0 0)])],
      cat_profiles =
        [(''deep'', \<lparr>prof_id = ''deep'',
           prof_elements =
             [PGroup (ProfileGroup ''outer'' [nested_profile_group 6 (PGSlot (demo_slot ''s'' [''x'']))] Natural 0 0 0)],
           prof_principal_item = None\<rparr>)]\<rparr>"

lemma composed_depth_gap:
  "case profile_compose deep_catalog demo_registry ''deep'' empty_context of
     Some (Inr pc) \<Rightarrow> resolve (pcomp_bar pc) 2008 [] = Some (Inl (GroupDepthExceeded ''inner''))
   | _ \<Rightarrow> False"
  by code_simp

end
