(* ===== verification/Controller.thy ===== *)
theory Controller
  imports Profile_Correct
begin

text \<open>
  The \<^verbatim>\<open>CompositionController\<close> of \<^verbatim>\<open>touchbar-model\<close>: profile rules, manual selection, mode leases,
  commands with rollback, and the transactional publication of compositions.

  \<open>controller_apply\<close> mutates and rolls back as the code does; that a failed command leaves the
  controller exactly as it was is a theorem.
\<close>

section \<open>Profile rules\<close>

record profile_rule =
  prule_profile :: profile_id
  prule_priority :: int
  prule_predicate :: context_predicate

record profile_selector =
  psel_fallback :: profile_id
  psel_rules :: "profile_rule list"

definition profile_select :: "profile_selector \<Rightarrow> context_snapshot \<Rightarrow> profile_id" where
  "profile_select sel ctx =
     (case max_by_last (\<lambda>(k, r). (prule_priority r, - int k))
             (filter (\<lambda>(_, r). pred_matches (prule_predicate r) ctx) (enumerate 0 (psel_rules sel))) of
        None \<Rightarrow> psel_fallback sel
      | Some (_, r) \<Rightarrow> prule_profile r)"

definition validate_selector :: "profile_catalog \<Rightarrow> profile_selector \<Rightarrow> (profile_error, unit) result" where
  "validate_selector cat sel =
     (if bt_get (cat_profiles cat) (psel_fallback sel) = None
      then Inl (PUnknownProfile (psel_fallback sel))
      else rfold (\<lambda>_ r. if bt_get (cat_profiles cat) (prule_profile r) = None
                        then Inl (PUnknownProfile (prule_profile r)) else Inr ()) () (psel_rules sel))"

section \<open>Deltas\<close>

record composition_delta =
  retained_items :: "item_id list"
  entering_items :: "item_id list"
  leaving_items :: "item_id list"

text \<open>The identifiers of a bar as a set; \<^verbatim>\<open>BTreeSet\<close> iterates in ascending order.\<close>

definition item_id_set :: "bar_spec \<Rightarrow> item_id set" where
  "item_id_set bar = set (concat (map collect_item_ids (bar_elements bar)))"

definition delta_between :: "bar_spec option \<Rightarrow> bar_spec \<Rightarrow> composition_delta" where
  "delta_between previous bar =
     (let old = (case previous of None \<Rightarrow> {} | Some b \<Rightarrow> item_id_set b); new = item_id_set bar in
      \<lparr>retained_items = sorted_list_of_set (old \<inter> new),
       entering_items = sorted_list_of_set (new - old),
       leaving_items = sorted_list_of_set (old - new)\<rparr>)"

section \<open>The controller\<close>

datatype controller_command =
    SetContext context_snapshot
  | SelectProfile profile_id
  | UseAutomaticProfile
  | ActivateMode nat string profile_id int
  | ReleaseMode nat string
  | ReleaseOwner nat

record profile_snapshot =
  ps_generation :: nat
  ps_context_generation :: nat
  ps_composition :: profile_composition
  ps_delta :: composition_delta

record profile_lease =
  lease_profile :: profile_id
  lease_priority :: int
  lease_sequence :: nat

record controller =
  ctl_catalog :: profile_catalog
  ctl_registry :: registry
  ctl_selector :: profile_selector
  ctl_context :: context_snapshot
  ctl_manual :: "profile_id option"
  ctl_modes :: "(nat \<times> string, profile_lease) btree"
  ctl_current :: profile_snapshot
  ctl_pending :: "profile_snapshot option"
  ctl_captured :: "nat set"
  ctl_next_generation :: nat
  ctl_next_mode_sequence :: nat

definition controller_new ::
  "profile_catalog \<Rightarrow> registry \<Rightarrow> profile_selector \<Rightarrow> context_snapshot \<Rightarrow>
   (profile_error, controller) outcome" where
  "controller_new cat reg sel ctx =
     pbind (lift_result (catalog_validate cat reg))
       (\<lambda>_. pbind (lift_result (validate_selector cat sel))
          (\<lambda>_. pbind (profile_compose cat reg (profile_select sel ctx) ctx)
             (\<lambda>pc. Some (Inr
                \<lparr>ctl_catalog = cat, ctl_registry = reg, ctl_selector = sel, ctl_context = ctx,
                 ctl_manual = None, ctl_modes = [],
                 ctl_current = \<lparr>ps_generation = 1, ps_context_generation = ctx_generation ctx,
                   ps_composition = pc, ps_delta = delta_between None (pcomp_bar pc)\<rparr>,
                 ctl_pending = None, ctl_captured = {}, ctl_next_generation = 2,
                 ctl_next_mode_sequence = 1\<rparr>))))"

definition effective_profile :: "controller \<Rightarrow> profile_id" where
  "effective_profile st =
     (case ctl_manual st of
        Some p \<Rightarrow> p
      | None \<Rightarrow>
          (case max_by_last (\<lambda>l. (lease_priority l, lease_sequence l)) (bt_values (ctl_modes st)) of
             None \<Rightarrow> profile_select (ctl_selector st) (ctl_context st)
           | Some l \<Rightarrow> lease_profile l))"

definition build_snapshot :: "controller \<Rightarrow> (profile_error, profile_snapshot) outcome" where
  "build_snapshot st =
     pbind (profile_compose (ctl_catalog st) (ctl_registry st) (effective_profile st) (ctl_context st))
       (\<lambda>pc. Some (Inr
          \<lparr>ps_generation = ctl_next_generation st, ps_context_generation = ctx_generation (ctl_context st),
           ps_composition = pc,
           ps_delta = delta_between (Some (pcomp_bar (ps_composition (ctl_current st)))) (pcomp_bar pc)\<rparr>))"

definition require_profile :: "controller \<Rightarrow> profile_id \<Rightarrow> (profile_error, unit) result" where
  "require_profile st p = rmap (\<lambda>_. ()) (ok_or (PUnknownProfile p) (bt_get (cat_profiles (ctl_catalog st)) p))"

text \<open>The \<^verbatim>\<open>match\<close> of \<^verbatim>\<open>apply\<close>: whether the command changed anything, and the changed state.\<close>

fun apply_command :: "controller_command \<Rightarrow> controller \<Rightarrow> (profile_error, bool) result \<times> controller" where
  "apply_command (SetContext ctx) st = (Inr True, st\<lparr>ctl_context := ctx\<rparr>)"
| "apply_command (SelectProfile p) st =
     (case require_profile st p of
        Inl e \<Rightarrow> (Inl e, st)
      | Inr _ \<Rightarrow> (Inr True, st\<lparr>ctl_manual := Some p\<rparr>))"
| "apply_command UseAutomaticProfile st =
     (Inr (ctl_manual st \<noteq> None), st\<lparr>ctl_manual := None\<rparr>)"
| "apply_command (ActivateMode owner mode p prio) st =
     (case require_profile st p of
        Inl e \<Rightarrow> (Inl e, st)
      | Inr _ \<Rightarrow>
          if str_blank mode then (Inl PEmptyModeId, st)
          else
            let lease = \<lparr>lease_profile = p, lease_priority = prio,
                         lease_sequence = ctl_next_mode_sequence st\<rparr> in
            (Inr True,
             st\<lparr>ctl_next_mode_sequence := max (wrapping_succ (ctl_next_mode_sequence st)) 1,
                ctl_modes := bt_insert (owner, mode) lease (ctl_modes st)\<rparr>))"
| "apply_command (ReleaseMode owner mode) st =
     (Inr (bt_get (ctl_modes st) (owner, mode) \<noteq> None),
      st\<lparr>ctl_modes := bt_remove (owner, mode) (ctl_modes st)\<rparr>)"
| "apply_command (ReleaseOwner owner) st =
     (let modes = filter (\<lambda>((candidate, _), _). candidate \<noteq> owner) (ctl_modes st) in
      (Inr (length modes \<noteq> length (ctl_modes st)), st\<lparr>ctl_modes := modes\<rparr>))"

definition controller_apply ::
  "controller_command \<Rightarrow> controller \<Rightarrow> (profile_error, profile_snapshot option) outcome \<times> controller" where
  "controller_apply command st =
     (case apply_command command st of
        (Inl e, st1) \<Rightarrow> (Some (Inl e), st1)
      | (Inr changed, st1) \<Rightarrow>
          if \<not> changed then (Some (Inr None), st1)
          else
            (case build_snapshot st1 of
               None \<Rightarrow> (None, st1)
             | Some (Inl e) \<Rightarrow>
                 (Some (Inl e),
                  st1\<lparr>ctl_context := ctl_context st, ctl_manual := ctl_manual st,
                      ctl_modes := ctl_modes st,
                      ctl_next_mode_sequence := ctl_next_mode_sequence st\<rparr>)
             | Some (Inr candidate) \<Rightarrow>
                 let st2 = st1\<lparr>ctl_next_generation := max (wrapping_succ (ctl_next_generation st1)) 1\<rparr> in
                 if ctl_captured st2 = {}
                 then (Some (Inr (Some candidate)), st2\<lparr>ctl_current := candidate\<rparr>)
                 else (Some (Inr None), st2\<lparr>ctl_pending := Some candidate\<rparr>)))"

definition controller_capture_started :: "nat \<Rightarrow> controller \<Rightarrow> controller" where
  "controller_capture_started contact st = st\<lparr>ctl_captured := insert contact (ctl_captured st)\<rparr>"

definition controller_capture_ended :: "nat \<Rightarrow> controller \<Rightarrow> profile_snapshot option \<times> controller" where
  "controller_capture_ended contact st =
     (let st1 = st\<lparr>ctl_captured := ctl_captured st - {contact}\<rparr> in
      if ctl_captured st1 = {} then
        (case ctl_pending st1 of
           Some p \<Rightarrow> (Some p, st1\<lparr>ctl_pending := None, ctl_current := p\<rparr>)
         | None \<Rightarrow> (None, st1))
      else (None, st1))"

section \<open>Rules\<close>

text \<open>The automatic profile is the earliest of the matching rules of the highest priority, and
  the fallback when no rule matches.\<close>

theorem profile_select_reference:
  "profile_select sel ctx =
     (let active = filter (\<lambda>r. pred_matches (prule_predicate r) ctx) (psel_rules sel) in
      case find (\<lambda>r. \<forall>r'\<in>set active. prule_priority r' \<le> prule_priority r) active of
        None \<Rightarrow> psel_fallback sel
      | Some r \<Rightarrow> prule_profile r)"
proof -
  let ?cands = "filter (\<lambda>(_, r). pred_matches (prule_predicate r) ctx) (enumerate 0 (psel_rules sel))"
  have "sorted_wrt (<) (map fst (enumerate n xs))" for n and xs :: "profile_rule list"
    by (simp add: sorted_wrt_upt)
  then have srt: "sorted_wrt (<) (map fst ?cands)"
    by (simp only: sorted_wrt_map sorted_wrt_filter)
  have snds: "map snd ?cands = filter (\<lambda>r. pred_matches (prule_predicate r) ctx) (psel_rules sel)"
    using filter_map [of "\<lambda>r. pred_matches (prule_predicate r) ctx" snd "enumerate 0 (psel_rules sel)"]
    by (simp add: comp_def case_prod_unfold)
  have mx: "map_option snd (max_by_last (\<lambda>(k, r). (prule_priority r, - int k)) ?cands) =
    find (\<lambda>r. \<forall>r'\<in>set (map snd ?cands). prule_priority r' \<le> prule_priority r) (map snd ?cands)"
    by (rule max_by_last_first [OF srt]) (auto simp: less_eq_prod_def)
  have case_snd: "(case best of None \<Rightarrow> psel_fallback sel | Some (_, r) \<Rightarrow> prule_profile r) =
    (case map_option snd best of None \<Rightarrow> psel_fallback sel | Some r \<Rightarrow> prule_profile r)"
    for best :: "(nat \<times> profile_rule) option" by (cases best) auto
  show ?thesis unfolding profile_select_def Let_def case_snd mx snds ..
qed

section \<open>Failed commands change nothing\<close>

lemma apply_command_frame:
  "apply_command c st = (r, st1) \<Longrightarrow>
     ctl_catalog st1 = ctl_catalog st \<and> ctl_registry st1 = ctl_registry st
     \<and> ctl_selector st1 = ctl_selector st \<and> ctl_current st1 = ctl_current st
     \<and> ctl_pending st1 = ctl_pending st \<and> ctl_captured st1 = ctl_captured st
     \<and> ctl_next_generation st1 = ctl_next_generation st"
  by (cases c) (auto simp: Let_def split: sum.splits if_splits)

lemma controller_eqI:
  fixes a b :: controller
  assumes "ctl_catalog a = ctl_catalog b" "ctl_registry a = ctl_registry b"
    "ctl_selector a = ctl_selector b" "ctl_context a = ctl_context b" "ctl_manual a = ctl_manual b"
    "ctl_modes a = ctl_modes b" "ctl_current a = ctl_current b" "ctl_pending a = ctl_pending b"
    "ctl_captured a = ctl_captured b" "ctl_next_generation a = ctl_next_generation b"
    "ctl_next_mode_sequence a = ctl_next_mode_sequence b"
  shows "a = b"
  using assms by simp

lemma apply_command_unchanged:
  assumes "apply_command c st = (Inr False, st1)"
  shows "st1 = st"
proof (cases c)
  case (ReleaseMode owner mode)
  then have "bt_get (ctl_modes st) (owner, mode) = None"
    and st1: "st1 = st\<lparr>ctl_modes := bt_remove (owner, mode) (ctl_modes st)\<rparr>"
    using assms by auto
  then have "(owner, mode) \<notin> fst ` set (ctl_modes st)" by (simp add: bt_get_def map_of_eq_None_iff)
  then have "bt_remove (owner, mode) (ctl_modes st) = ctl_modes st"
    unfolding bt_remove_def filter_id_conv by (metis image_eqI)
  then show ?thesis using st1 by simp
next
  case (ReleaseOwner owner)
  then have "length (filter (\<lambda>((candidate, _), _). candidate \<noteq> owner) (ctl_modes st)) = length (ctl_modes st)"
    and st1: "st1 = st\<lparr>ctl_modes := filter (\<lambda>((candidate, _), _). candidate \<noteq> owner) (ctl_modes st)\<rparr>"
    using assms by (auto simp: Let_def)
  then have "filter (\<lambda>((candidate, _), _). candidate \<noteq> owner) (ctl_modes st) = ctl_modes st"
    using filter_id_conv length_filter_less by (metis less_irrefl)
  then show ?thesis using st1 by simp
qed (use assms in \<open>auto simp: Let_def split: sum.splits if_splits\<close>)

lemma apply_command_error: "apply_command c st = (Inl e, st1) \<Longrightarrow> st1 = st"
  by (cases c) (auto simp: Let_def split: sum.splits if_splits)

lemma failed_command_restores:
  assumes "controller_apply command st = (Some (Inl e), st')"
  shows "st' = st"
proof -
  obtain r st1 where c: "apply_command command st = (r, st1)" by (cases "apply_command command st")
  note frame = apply_command_frame [OF c]
  show ?thesis
  proof (cases r)
    case (Inl e')
    then show ?thesis
      using assms c apply_command_error [of command st e' st1] by (simp add: controller_apply_def)
  next
    case (Inr changed)
    then have "st' = st1\<lparr>ctl_context := ctl_context st, ctl_manual := ctl_manual st,
        ctl_modes := ctl_modes st, ctl_next_mode_sequence := ctl_next_mode_sequence st\<rparr>"
      using assms c by (auto simp: controller_apply_def Let_def split: if_splits option.splits sum.splits)
    then show ?thesis using frame by (intro controller_eqI) simp_all
  qed
qed

text \<open>(C5) A command that fails leaves the controller exactly as it was: context, manual profile,
  modes, mode sequence, generation and both compositions.\<close>

theorem controller_failed_command:
  assumes "controller_apply command st = (Some (Inl e), st')"
  shows "st' = st"
  using assms by (rule failed_command_restores)

section \<open>Publication\<close>

definition controller_input :: "controller_command \<Rightarrow> controller \<Rightarrow> profile_snapshot option \<times> controller" where
  "controller_input command st =
     (case controller_apply command st of
        (r, st') \<Rightarrow> (case r of Some (Inr shown) \<Rightarrow> shown | _ \<Rightarrow> None, st'))"

lemma controller_input_cases:
  obtains
    (same) st1 where "controller_input command st = (None, st1)"
      "ctl_current st1 = ctl_current st" "ctl_pending st1 = ctl_pending st" "ctl_captured st1 = ctl_captured st"
  | (shown) p st1 where "ctl_captured st = {}" "controller_input command st = (Some p, st1)"
      "ctl_current st1 = p" "ctl_pending st1 = ctl_pending st" "ctl_captured st1 = ctl_captured st"
  | (queued) p st1 where "ctl_captured st \<noteq> {}" "controller_input command st = (None, st1)"
      "ctl_current st1 = ctl_current st" "ctl_pending st1 = Some p" "ctl_captured st1 = ctl_captured st"
proof -
  obtain r st1 where c: "apply_command command st = (r, st1)" by (cases "apply_command command st")
  note frame = apply_command_frame [OF c]
  show ?thesis
  proof (cases r)
    case (Inl e)
    then have "controller_input command st = (None, st1)"
      using c by (simp add: controller_input_def controller_apply_def)
    then show ?thesis using same frame by blast
  next
    case (Inr changed)
    show ?thesis
    proof (cases "changed \<and> (\<exists>p. build_snapshot st1 = Some (Inr p))")
      case False
      then have "\<exists>st2. controller_input command st = (None, st2) \<and> ctl_current st2 = ctl_current st1
          \<and> ctl_pending st2 = ctl_pending st1 \<and> ctl_captured st2 = ctl_captured st1"
        using c Inr by (cases "build_snapshot st1")
          (auto simp: controller_input_def controller_apply_def split: sum.splits)
      then show ?thesis using same frame by auto
    next
      case True
      then obtain p where p: "build_snapshot st1 = Some (Inr p)" "changed" by blast
      let ?st2 = "st1\<lparr>ctl_next_generation := max (wrapping_succ (ctl_next_generation st1)) 1\<rparr>"
      have "controller_input command st =
        (if ctl_captured st = {} then (Some p, ?st2\<lparr>ctl_current := p\<rparr>)
         else (None, ?st2\<lparr>ctl_pending := Some p\<rparr>))"
        using c Inr p frame by (simp add: controller_input_def controller_apply_def Let_def)
      then show ?thesis
        using shown [of p "?st2\<lparr>ctl_current := p\<rparr>"] queued [of "?st2\<lparr>ctl_pending := Some p\<rparr>" p] frame
        by (auto split: if_splits)
    qed
  qed
qed

interpretation ctl: capture_transaction ctl_current ctl_pending ctl_captured controller_input
  controller_capture_started controller_capture_ended
proof unfold_locales
  fix i s
  show "ctl_captured (snd (controller_input i s)) = ctl_captured s"
    by (rule controller_input_cases [of i s]) simp_all
  show "fst (controller_input i s) = None \<and> ctl_current (snd (controller_input i s)) = ctl_current s"
    if "ctl_captured s \<noteq> {}"
    using that by (auto intro: controller_input_cases [of i s])
  show "ctl_current (snd (controller_input i s)) =
      (case fst (controller_input i s) of None \<Rightarrow> ctl_current s | Some c \<Rightarrow> c)
      \<and> ctl_pending (snd (controller_input i s)) = ctl_pending s" if "ctl_captured s = {}"
    using that by (auto intro: controller_input_cases [of i s])
qed (auto simp: controller_capture_started_def controller_capture_ended_def Let_def split: option.splits)

text \<open>(C9) While one contact stays on the bar, no sequence of commands and other contacts changes
  the shown composition or reports a new one.\<close>

theorem controller_stable_under_contact:
  assumes "c \<in> ctl_captured st" and "Ended c \<notin> set ops"
  shows "ctl_current (snd (transaction_run controller_input controller_capture_started
      controller_capture_ended ops st)) = ctl_current st
    \<and> fst (transaction_run controller_input controller_capture_started controller_capture_ended ops st) =
        replicate (length ops) None"
  using ctl.run_stable [OF assms] by simp

section \<open>The shown composition follows the accepted commands\<close>

inductive ctl_reachable :: "controller \<Rightarrow> bool" where
  start: "controller_new cat reg sel ctx = Some (Inr st) \<Longrightarrow> ctl_reachable st"
| applied: "ctl_reachable st \<Longrightarrow> controller_apply command st = (Some r, st') \<Longrightarrow> ctl_reachable st'"
| started: "ctl_reachable st \<Longrightarrow> ctl_reachable (controller_capture_started c st)"
| ended: "ctl_reachable st \<Longrightarrow> controller_capture_ended c st = (shown, st') \<Longrightarrow> ctl_reachable st'"

definition newest :: "controller \<Rightarrow> profile_snapshot" where
  "newest st = (case ctl_pending st of Some p \<Rightarrow> p | None \<Rightarrow> ctl_current st)"

definition ctl_invar :: "controller \<Rightarrow> bool" where
  "ctl_invar st \<longleftrightarrow>
     (ctl_captured st = {} \<longrightarrow> ctl_pending st = None)
     \<and> profile_compose (ctl_catalog st) (ctl_registry st) (effective_profile st) (ctl_context st) =
         Some (Inr (ps_composition (newest st)))
     \<and> ps_context_generation (newest st) = ctx_generation (ctl_context st)
     \<and> (\<forall>p. ctl_pending st = Some p \<longrightarrow>
          ps_delta p = delta_between (Some (pcomp_bar (ps_composition (ctl_current st))))
            (pcomp_bar (ps_composition p)))"

lemma effective_profile_cong:
  "ctl_manual a = ctl_manual b \<Longrightarrow> ctl_modes a = ctl_modes b \<Longrightarrow> ctl_selector a = ctl_selector b \<Longrightarrow>
   ctl_context a = ctl_context b \<Longrightarrow> effective_profile a = effective_profile b"
  by (simp add: effective_profile_def cong: option.case_cong)

lemma ctl_invar_new [invar_intro]: "controller_new cat reg sel ctx = Some (Inr st) \<Longrightarrow> ctl_invar st"
  by (auto simp: controller_new_def ctl_invar_def newest_def effective_profile_def bt_values_def
      max_by_last_def)

text \<open>The three ways a command can succeed.\<close>

lemma controller_apply_ok:
  assumes "controller_apply command st = (Some (Inr r), st')"
  obtains
    (unchanged) "st' = st" "r = None"
  | (published) p st1 where "ctl_captured st = {}" "r = Some p" "build_snapshot st1 = Some (Inr p)"
      "apply_command command st = (Inr True, st1)"
      "st' = st1\<lparr>ctl_next_generation := max (wrapping_succ (ctl_next_generation st1)) 1, ctl_current := p\<rparr>"
  | (queued) p st1 where "ctl_captured st \<noteq> {}" "r = None" "build_snapshot st1 = Some (Inr p)"
      "apply_command command st = (Inr True, st1)"
      "st' = st1\<lparr>ctl_pending := Some p, ctl_next_generation := max (wrapping_succ (ctl_next_generation st1)) 1\<rparr>"
proof -
  obtain c st1 where c: "apply_command command st = (c, st1)" by (cases "apply_command command st")
  note frame = apply_command_frame [OF c]
  from assms c obtain changed where ch: "c = Inr changed"
    by (cases c) (auto simp: controller_apply_def)
  show ?thesis
  proof (cases changed)
    case False
    then show ?thesis
      using assms c ch apply_command_unchanged [of command st st1] unchanged
      by (simp add: controller_apply_def)
  next
    case True
    then obtain p where p: "build_snapshot st1 = Some (Inr p)"
      using assms c ch by (auto simp: controller_apply_def split: option.splits sum.splits)
    show ?thesis
    proof (cases "ctl_captured st = {}")
      case True
      show ?thesis
        by (rule published [OF True _ p]) (use assms c ch p \<open>changed\<close> frame True in
            \<open>simp_all add: controller_apply_def Let_def\<close>)
    next
      case False
      show ?thesis
        by (rule queued [OF False _ p]) (use assms c ch p \<open>changed\<close> frame False in
            \<open>auto simp: controller_apply_def Let_def\<close>)
    qed
  qed
qed

lemma build_snapshot_ok:
  "build_snapshot st = Some (Inr p) \<Longrightarrow>
     profile_compose (ctl_catalog st) (ctl_registry st) (effective_profile st) (ctl_context st) =
       Some (Inr (ps_composition p))
     \<and> ps_context_generation p = ctx_generation (ctl_context st)
     \<and> ps_delta p = delta_between (Some (pcomp_bar (ps_composition (ctl_current st)))) (pcomp_bar (ps_composition p))"
  by (auto simp: build_snapshot_def)

lemma effective_profile_updates [simp]:
  "effective_profile (st\<lparr>ctl_next_generation := n\<rparr>) = effective_profile st"
  "effective_profile (st\<lparr>ctl_current := p\<rparr>) = effective_profile st"
  "effective_profile (st\<lparr>ctl_pending := q\<rparr>) = effective_profile st"
  "effective_profile (st\<lparr>ctl_captured := cs\<rparr>) = effective_profile st"
  by (simp_all add: effective_profile_def cong: option.case_cong)

lemma ctl_invar_apply [invar_intro]:
  assumes inv: "ctl_invar st" and app: "controller_apply command st = (Some r, st')"
  shows "ctl_invar st'"
proof (cases r)
  case (Inl e)
  then show ?thesis using failed_command_restores [of command st e st'] assms by simp
next
  case (Inr shown)
  show ?thesis
    using app [unfolded Inr]
  proof (cases rule: controller_apply_ok)
    case unchanged
    then show ?thesis using inv by simp
  next
    case (published p st1)
    then show ?thesis
      using inv build_snapshot_ok [OF published(3)] apply_command_frame [OF published(4)]
      by (simp add: ctl_invar_def newest_def)
  next
    case (queued p st1)
    then show ?thesis
      using build_snapshot_ok [OF queued(3)] apply_command_frame [OF queued(4)]
      by (simp add: ctl_invar_def newest_def)
  qed
qed

lemma ctl_invar_reachable: "ctl_reachable st \<Longrightarrow> ctl_invar st"
proof (induction rule: ctl_reachable.induct)
  case (start cat reg sel ctx st)
  then show ?case by (rule ctl_invar_new)
next
  case (applied st command r st')
  then show ?case by (blast intro: ctl_invar_apply)
next
  case (started st c)
  then show ?case by (auto simp: ctl_invar_def newest_def controller_capture_started_def
        cong: option.case_cong)
next
  case (ended st c shown st')
  then show ?case
    by (auto simp: ctl_invar_def newest_def controller_capture_ended_def Let_def
        cong: option.case_cong split: if_splits option.splits)
qed

text \<open>(C6) In every reachable state the composition that is shown, or that waits for the last contact
  to lift, is the one the catalog gives for the effective profile in the newest accepted context;
  with no contact held it is the shown one.\<close>

theorem controller_follows_commands:
  assumes "ctl_reachable st"
  shows "profile_compose (ctl_catalog st) (ctl_registry st) (effective_profile st) (ctl_context st) =
      Some (Inr (ps_composition (newest st)))
    \<and> ps_context_generation (newest st) = ctx_generation (ctl_context st)
    \<and> (ctl_captured st = {} \<longrightarrow> newest st = ctl_current st)"
  using ctl_invar_reachable [OF assms] by (auto simp: ctl_invar_def newest_def)

lemma ctl_settled: "ctl_reachable st \<Longrightarrow> ctl.settled st"
  using ctl_invar_reachable by (auto simp: ctl_invar_def ctl.settled_def)

text \<open>(C8) Once every held contact has lifted, in any order, nothing waits and the bar shows the
  composition of the effective profile in the newest accepted context.\<close>

theorem controller_settles:
  assumes "ctl_reachable st" and "ctl_captured st \<subseteq> set contacts"
  shows "let st' = snd (transaction_run controller_input controller_capture_started controller_capture_ended
        (map Ended contacts) st) in
    ctl_captured st' = {} \<and> ctl_pending st' = None
    \<and> profile_compose (ctl_catalog st) (ctl_registry st) (effective_profile st) (ctl_context st) =
        Some (Inr (ps_composition (ctl_current st')))"
proof -
  have "profile_compose (ctl_catalog st) (ctl_registry st) (effective_profile st) (ctl_context st) =
      Some (Inr (ps_composition (newest st)))"
    using ctl_invar_reachable [OF assms(1)] by (simp add: ctl_invar_def)
  then show ?thesis
    using ctl.run_lifted [OF ctl_settled [OF assms(1)] assms(2)] by (simp add: newest_def Let_def)
qed

text \<open>The delta of a composition that becomes visible, at once or when the last contact lifts,
  is exact with respect to the bar that was shown until then: the retained, entering and leaving
  items are the ascending lists of the common, new and old items.\<close>

theorem controller_delta_exact:
  assumes "ctl_reachable st"
    and "controller_apply command st = (Some (Inr (Some p)), st') \<or> controller_capture_ended c st = (Some p, st')"
  shows "let old = item_id_set (pcomp_bar (ps_composition (ctl_current st)));
             new = item_id_set (pcomp_bar (ps_composition p)) in
    ctl_current st' = p
    \<and> retained_items (ps_delta p) = sorted_list_of_set (old \<inter> new)
    \<and> entering_items (ps_delta p) = sorted_list_of_set (new - old)
    \<and> leaving_items (ps_delta p) = sorted_list_of_set (old - new)"
proof -
  have "ctl_current st' = p \<and> ps_delta p =
    delta_between (Some (pcomp_bar (ps_composition (ctl_current st)))) (pcomp_bar (ps_composition p))"
    using assms(2)
  proof
    assume "controller_apply command st = (Some (Inr (Some p)), st')"
    then show ?thesis
    proof (cases rule: controller_apply_ok)
      case (published q st1)
      then show ?thesis
        using build_snapshot_ok [OF published(3)] apply_command_frame [OF published(4)] by simp
    qed simp_all
  next
    assume "controller_capture_ended c st = (Some p, st')"
    then have "ctl_pending st = Some p" "ctl_current st' = p"
      by (auto simp: controller_capture_ended_def Let_def split: if_splits option.splits)
    then show ?thesis using ctl_invar_reachable [OF assms(1)] by (simp add: ctl_invar_def)
  qed
  then show ?thesis by (simp add: delta_between_def Let_def)
qed

section \<open>A run of the controller\<close>

definition two_profiles :: profile_catalog where
  "two_profiles =
     demo_catalog\<lparr>cat_profiles :=
       (''mail'', \<lparr>prof_id = ''mail'', prof_elements = [PSlot (demo_slot ''only'' [''y''])],
         prof_principal_item = None\<rparr>) # cat_profiles demo_catalog\<rparr>"

definition mail_selector :: profile_selector where
  "mail_selector =
     \<lparr>psel_fallback = ''main'',
      psel_rules = [\<lparr>prule_profile = ''mail'', prule_priority = 1,
        prule_predicate = Equals ''app'' (Text ''mail'')\<rparr>]\<rparr>"

definition fresh_controller :: controller where
  "fresh_controller =
     \<lparr>ctl_catalog = two_profiles, ctl_registry = demo_registry, ctl_selector = mail_selector,
      ctl_context = empty_context, ctl_manual = None, ctl_modes = [],
      ctl_current = \<lparr>ps_generation = 1, ps_context_generation = 1,
        ps_composition = demo_profile_composition,
        ps_delta = delta_between None (pcomp_bar demo_profile_composition)\<rparr>,
      ctl_pending = None, ctl_captured = {}, ctl_next_generation = 2, ctl_next_mode_sequence = 1\<rparr>"

lemma fresh_controller_new:
  "controller_new two_profiles demo_registry mail_selector empty_context = Some (Inr fresh_controller)"
proof -
  have "catalog_validate two_profiles demo_registry = Inr ()"
    "validate_selector two_profiles mail_selector = Inr ()"
    "profile_select mail_selector empty_context = ''main''"
    "profile_compose two_profiles demo_registry ''main'' empty_context = Some (Inr demo_profile_composition)"
    by code_simp+
  then show ?thesis
    by (simp add: controller_new_def fresh_controller_def lift_result_def empty_context_def)
qed

text \<open>A context change while a contact is held, and the contact lifted afterwards.\<close>

definition held_controller :: controller where
  "held_controller =
     snd (controller_apply (SetContext mail_context) (controller_capture_started 3 fresh_controller))"

lemma held_controller_apply:
  "controller_apply (SetContext mail_context) (controller_capture_started 3 fresh_controller) =
     (Some (Inr None), held_controller)"
proof -
  let ?r = "fst (controller_apply (SetContext mail_context) (controller_capture_started 3 fresh_controller))"
  have "case ?r of Some (Inr None) \<Rightarrow> True | _ \<Rightarrow> False" by code_simp
  then have "?r = Some (Inr None)" by (auto split: option.splits sum.splits)
  then show ?thesis unfolding held_controller_def by (metis prod.collapse)
qed

lemma held_controller_reachable: "ctl_reachable held_controller"
  using fresh_controller_new held_controller_apply
  by (blast intro: ctl_reachable.start ctl_reachable.started ctl_reachable.applied)

definition mail_snapshot :: profile_snapshot where
  "mail_snapshot = newest held_controller"

lemma held_controller_pending: "ctl_pending held_controller = Some mail_snapshot"
proof -
  have "case ctl_pending held_controller of Some _ \<Rightarrow> True | None \<Rightarrow> False" by code_simp
  then show ?thesis by (auto simp: mail_snapshot_def newest_def split: option.splits)
qed

lemma held_controller_ended:
  "controller_capture_ended 3 held_controller =
     (Some mail_snapshot, snd (controller_capture_ended 3 held_controller))"
proof -
  have "ctl_captured held_controller - {3} = {}" by code_simp
  then show ?thesis by (simp add: controller_capture_ended_def held_controller_pending)
qed

theorem profile_select_reference_witness:
  "profile_select mail_selector mail_context = ''mail'' \<and> profile_select mail_selector empty_context = ''main''"
  unfolding profile_select_reference by code_simp

theorem controller_failed_command_witness:
  "snd (controller_apply (SelectProfile ''none'') fresh_controller) = fresh_controller"
proof -
  let ?p = "controller_apply (SelectProfile ''none'') fresh_controller"
  have "case fst ?p of Some (Inl (PUnknownProfile i)) \<Rightarrow> i = ''none'' | _ \<Rightarrow> False" by code_simp
  then have "\<exists>e. fst ?p = Some (Inl e)" by (auto split: option.splits sum.splits)
  then obtain e where "?p = (Some (Inl e), snd ?p)" by (metis prod.collapse)
  then show ?thesis by (rule controller_failed_command)
qed

theorem controller_stable_under_contact_witness:
  "ctl_current (snd (transaction_run controller_input controller_capture_started controller_capture_ended
      [Input (SetContext mail_context), Started 4, Ended 4] (controller_capture_started 3 fresh_controller))) =
     ctl_current (controller_capture_started 3 fresh_controller)"
proof -
  have "3 \<in> ctl_captured (controller_capture_started 3 fresh_controller)"
    by (simp add: controller_capture_started_def)
  moreover have "Ended 3 \<notin> set [Input (SetContext mail_context), Started 4, Ended 4]" by simp
  ultimately show ?thesis by (rule controller_stable_under_contact [THEN conjunct1])
qed

theorem controller_follows_commands_witness:
  "profile_compose two_profiles demo_registry ''mail'' mail_context =
     Some (Inr (ps_composition mail_snapshot))"
proof -
  have "effective_profile held_controller = ''mail''" by code_simp
  moreover have "ctl_catalog held_controller = two_profiles" "ctl_registry held_controller = demo_registry"
    "ctl_context held_controller = mail_context"
    by code_simp+
  ultimately show ?thesis
    using controller_follows_commands [OF held_controller_reachable] by (simp add: mail_snapshot_def)
qed

theorem controller_settles_witness:
  "ctl_pending (snd (transaction_run controller_input controller_capture_started controller_capture_ended
     [Ended 4, Ended 3] held_controller)) = None"
proof -
  have "ctl_captured held_controller \<subseteq> set [4, 3]" by code_simp
  then show ?thesis
    using controller_settles [OF held_controller_reachable, of "[4, 3]"] by (simp add: Let_def)
qed

theorem controller_delta_exact_witness:
  "retained_items (ps_delta mail_snapshot) = [''b'']
   \<and> entering_items (ps_delta mail_snapshot) = []
   \<and> leaving_items (ps_delta mail_snapshot) = [''a'']"
proof -
  have "item_id_set (pcomp_bar (ps_composition (ctl_current held_controller))) = set [''a'', ''b'']"
    "item_id_set (pcomp_bar (ps_composition mail_snapshot)) = set [''b'']"
    by code_simp+
  moreover have "set [''a'', ''b''] - set [''b''] = {''a''}" by auto
  ultimately show ?thesis
    using controller_delta_exact [OF held_controller_reachable disjI2 [OF held_controller_ended]]
    by (simp add: Let_def)
qed

end
