(* ===== verification/Wire.thy ===== *)
theory Wire
  imports Rust_Strings "HOL-Library.Word"
begin

text \<open>
  Bytes on the wire: little-endian integers (\<^verbatim>\<open>to_le_bytes\<close>, \<^verbatim>\<open>from_le_bytes\<close>), the UTF-8 check
  of \<^verbatim>\<open>std::str::from_utf8\<close>, and the contract of a message codec.  A byte is a \<^typ>\<open>char\<close>.

  The locale \<open>message_codec\<close> is what the two sides of a connection rely on: encoding and decoding
  are described by one representation function, so a message that was sent is the message that is
  received, and a packet that is accepted is the only packet of its message.
\<close>

section \<open>Little-endian integers\<close>

fun le_bytes :: "nat \<Rightarrow> nat \<Rightarrow> char list" where
  "le_bytes 0 v = []"
| "le_bytes (Suc n) v = char_of (v mod 256) # le_bytes n (v div 256)"

fun le_value :: "char list \<Rightarrow> nat" where
  "le_value [] = 0"
| "le_value (b # bs) = of_char b + 256 * le_value bs"

lemma length_le_bytes [simp]: "length (le_bytes n v) = n"
  by (induction n arbitrary: v) auto

lemma of_char_less_256 [simp]: "of_char c < (256 :: nat)"
  using of_char_mod_256 [of c, where 'a = nat] by (metis mod_less_divisor zero_less_numeral)

lemma le_value_le_bytes [simp]: "v < 256 ^ n \<Longrightarrow> le_value (le_bytes n v) = v"
proof (induction n arbitrary: v)
  case (Suc n)
  then have "v div 256 < 256 ^ n" by (simp add: less_mult_imp_div_less mult.commute)
  then show ?case using Suc.IH by (simp add: of_char_of)
qed simp

lemma le_bytes_le_value [simp]: "length bs = n \<Longrightarrow> le_bytes n (le_value bs) = bs"
proof (induction bs arbitrary: n)
  case (Cons b bs)
  then show ?case by (cases n) (auto simp: of_char_mod_256)
qed simp

lemma le_value_bound: "le_value bs < 256 ^ length bs"
proof (induction bs)
  case (Cons b bs)
  have "of_char b + 256 * le_value bs < 256 + 256 * le_value bs" by simp
  also have "\<dots> = 256 * (le_value bs + 1)" by simp
  also have "\<dots> \<le> 256 * 256 ^ length bs" using Cons by (intro mult_le_mono) auto
  finally show ?case by simp
qed simp

lemma le_value_eq_iff: "length bs = n \<Longrightarrow> le_value bs = v \<longleftrightarrow> v < 256 ^ n \<and> bs = le_bytes n v"
  using le_value_bound [of bs] by (metis le_bytes_le_value le_value_le_bytes)

declare le_bytes.simps [simp del]

section \<open>Machine words in byte arrays\<close>

definition word_bytes :: "nat \<Rightarrow> 'a::len word \<Rightarrow> char list" where
  "word_bytes n w = le_bytes n (unat w)"

definition word_value :: "char list \<Rightarrow> 'a::len word" where
  "word_value bs = word_of_nat (le_value bs)"

lemma length_word_bytes [simp]: "length (word_bytes n w) = n"
  by (simp add: word_bytes_def)

lemma word_value_eq_iff:
  fixes w :: "'a::len word"
  assumes "LENGTH('a) = 8 * n" and "length bs = n"
  shows "word_value bs = w \<longleftrightarrow> bs = word_bytes n w"
proof -
  have bound: "2 ^ LENGTH('a) = (256 :: nat) ^ n" by (simp add: assms(1) power_mult)
  have "le_value bs < 2 ^ LENGTH('a)" using le_value_bound [of bs] assms(2) bound by simp
  then have "unat (word_value bs :: 'a word) = le_value bs"
    unfolding word_value_def by (simp add: unat_of_nat)
  then have "word_value bs = w \<longleftrightarrow> le_value bs = unat w" by (metis word_eq_iff_unsigned)
  moreover have "unat w < 256 ^ n" using unsigned_less [of w, where 'a = nat] bound by simp
  ultimately show ?thesis using le_value_eq_iff [OF assms(2)] by (simp add: word_bytes_def)
qed

text \<open>A slice of a byte array, and writing one (\<^verbatim>\<open>copy_from_slice\<close>).\<close>

definition slice :: "nat \<Rightarrow> nat \<Rightarrow> char list \<Rightarrow> char list" where
  "slice off n bs = take n (drop off bs)"

definition put_slice :: "nat \<Rightarrow> char list \<Rightarrow> char list \<Rightarrow> char list" where
  "put_slice off new bs = take off bs @ new @ drop (off + length new) bs"

lemma length_slice [simp]: "off + n \<le> length bs \<Longrightarrow> length (slice off n bs) = n"
  by (simp add: slice_def)

lemma slice_drop: "n + off = stop \<Longrightarrow> slice off n bs @ drop stop bs = drop off bs"
  unfolding slice_def using append_take_drop_id [of n "drop off bs"] by simp

lemma slice_in: "length pre = off \<Longrightarrow> length new = n \<Longrightarrow> slice off n (pre @ new @ rest) = new"
  by (simp add: slice_def)

lemma put_slice_next:
  "length pre = off \<Longrightarrow> length new + k = m \<Longrightarrow>
     put_slice off new (pre @ replicate m z) = (pre @ new) @ replicate k z"
  by (auto simp: put_slice_def)

section \<open>UTF-8\<close>

definition utf8_cont :: "nat \<Rightarrow> bool" where
  "utf8_cont b \<longleftrightarrow> 0x80 \<le> b \<and> b \<le> 0xBF"

text \<open>The admissible second bytes after a three-byte and after a four-byte leader.\<close>

definition utf8_second3 :: "nat \<Rightarrow> nat \<Rightarrow> bool" where
  "utf8_second3 a b \<longleftrightarrow>
     (if a = 0xE0 then 0xA0 \<le> b \<and> b \<le> 0xBF
      else if a = 0xED then 0x80 \<le> b \<and> b \<le> 0x9F
      else utf8_cont b)"

definition utf8_second4 :: "nat \<Rightarrow> nat \<Rightarrow> bool" where
  "utf8_second4 a b \<longleftrightarrow>
     (if a = 0xF0 then 0x90 \<le> b \<and> b \<le> 0xBF
      else if a = 0xF4 then 0x80 \<le> b \<and> b \<le> 0x8F
      else utf8_cont b)"

fun utf8_bytes :: "nat list \<Rightarrow> bool" where
  "utf8_bytes [] = True"
| "utf8_bytes (a # bs) =
     (if a < 0x80 then utf8_bytes bs
      else if 0xC2 \<le> a \<and> a \<le> 0xDF then
        (case bs of b # cs \<Rightarrow> utf8_cont b \<and> utf8_bytes cs | [] \<Rightarrow> False)
      else if 0xE0 \<le> a \<and> a \<le> 0xEF then
        (case bs of b # c # ds \<Rightarrow> utf8_second3 a b \<and> utf8_cont c \<and> utf8_bytes ds | _ \<Rightarrow> False)
      else if 0xF0 \<le> a \<and> a \<le> 0xF4 then
        (case bs of
           b # c # d # es \<Rightarrow> utf8_second4 a b \<and> utf8_cont c \<and> utf8_cont d \<and> utf8_bytes es
         | _ \<Rightarrow> False)
      else False)"

definition utf8 :: "string \<Rightarrow> bool" where
  "utf8 s = utf8_bytes (map of_char s)"

lemma utf8_ascii: "\<forall>c\<in>set s. of_char c < (0x80 :: nat) \<Longrightarrow> utf8 s"
  unfolding utf8_def by (induction s) auto

section \<open>Codecs\<close>

locale message_codec =
  fixes typed :: "'m \<Rightarrow> bool"
    and sendable :: "'m \<Rightarrow> bool"
    and repr :: "'m \<Rightarrow> char list"
    and encode :: "'m \<Rightarrow> ('e, char list) result"
    and decode :: "char list \<Rightarrow> ('f, 'm) result"
    and fits :: "char list \<Rightarrow> bool"
  assumes encode_iff: "typed m \<Longrightarrow> encode m = Inr p \<longleftrightarrow> sendable m \<and> p = repr m \<and> fits p"
    and decode_iff: "fits p \<Longrightarrow> decode p = Inr m \<longleftrightarrow> typed m \<and> sendable m \<and> p = repr m"
begin

lemma received_as_sent: "typed m \<Longrightarrow> encode m = Inr p \<Longrightarrow> decode p = Inr m"
  using encode_iff [of m p] decode_iff [of p m] by auto

lemma accepted_is_canonical: "fits p \<Longrightarrow> decode p = Inr m \<Longrightarrow> typed m \<and> encode m = Inr p"
  using encode_iff [of m p] decode_iff [of p m] by simp

lemma codec_iff: "fits p \<Longrightarrow> decode p = Inr m \<longleftrightarrow> typed m \<and> encode m = Inr p"
  using received_as_sent accepted_is_canonical by blast

lemma encode_injective: "typed m \<Longrightarrow> typed n \<Longrightarrow> encode m = Inr p \<Longrightarrow> encode n = Inr p \<Longrightarrow> m = n"
  using received_as_sent [of m p] received_as_sent [of n p] by simp

end

end
