(* ===== verification/Hardware_Wire.thy ===== *)
theory Hardware_Wire
  imports Wire
begin

text \<open>
  The privilege boundary of \<^verbatim>\<open>touchbar-protocol/src/hardware_ipc.rs\<close>: the fixed-size messages between
  \<^verbatim>\<open>touchbard\<close> and \<^verbatim>\<open>touchbar-sessiond\<close>, the closed set of injectable keys, and the swapchain header
  with its validation.  Integers are machine words of the width of the code; an \<^verbatim>\<open>i32\<close> is its 32-bit
  word.  The stream is a parameter: what \<^verbatim>\<open>sendmsg\<close> and \<^verbatim>\<open>recvmsg\<close> return.
\<close>

section \<open>Messages\<close>

datatype touch_phase = Down | Motion | Up | TouchCancel

record touch_event =
  te_phase :: touch_phase
  te_contact_id :: "32 word"
  te_time_ms :: "32 word"
  te_x_millipixels :: "32 word"
  te_y_millipixels :: "32 word"

datatype key_phase = Released | Pressed | Repeat

datatype system_key =
    BrightnessDown | BrightnessUp | KeyboardIlluminationDown | KeyboardIlluminationUp
  | PreviousSong | PlayPause | NextSong | Mute | VolumeDown | VolumeUp | MicrophoneMute | Search
  | F1 | F2 | F3 | F4 | F5 | F6 | F7 | F8 | F9 | F10 | F11 | F12

datatype session_message =
    FrameReady "16 word" "64 word"
  | Key system_key key_phase

datatype hardware_message =
    BufferReleased "16 word" "64 word"
  | Touch touch_event
  | FnChanged bool

datatype hardware_error =
    InvalidData string
  | UnexpectedEof string
  | WriteZero string
  | OsError

text \<open>The discriminants of \<^verbatim>\<open>SystemKey\<close>.\<close>

fun key_code :: "system_key \<Rightarrow> 16 word" where
  "key_code BrightnessDown = 1"
| "key_code BrightnessUp = 2"
| "key_code KeyboardIlluminationDown = 3"
| "key_code KeyboardIlluminationUp = 4"
| "key_code PreviousSong = 5"
| "key_code PlayPause = 6"
| "key_code NextSong = 7"
| "key_code Mute = 8"
| "key_code VolumeDown = 9"
| "key_code VolumeUp = 10"
| "key_code MicrophoneMute = 11"
| "key_code Search = 12"
| "key_code F1 = 21"
| "key_code F2 = 22"
| "key_code F3 = 23"
| "key_code F4 = 24"
| "key_code F5 = 25"
| "key_code F6 = 26"
| "key_code F7 = 27"
| "key_code F8 = 28"
| "key_code F9 = 29"
| "key_code F10 = 30"
| "key_code F11 = 31"
| "key_code F12 = 32"

definition key_decode :: "32 word \<Rightarrow> (hardware_error, system_key) result" where
  "key_decode v =
     (if v = 1 then Inr BrightnessDown else if v = 2 then Inr BrightnessUp
      else if v = 3 then Inr KeyboardIlluminationDown else if v = 4 then Inr KeyboardIlluminationUp
      else if v = 5 then Inr PreviousSong else if v = 6 then Inr PlayPause
      else if v = 7 then Inr NextSong else if v = 8 then Inr Mute
      else if v = 9 then Inr VolumeDown else if v = 10 then Inr VolumeUp
      else if v = 11 then Inr MicrophoneMute else if v = 12 then Inr Search
      else if v = 21 then Inr F1 else if v = 22 then Inr F2 else if v = 23 then Inr F3
      else if v = 24 then Inr F4 else if v = 25 then Inr F5 else if v = 26 then Inr F6
      else if v = 27 then Inr F7 else if v = 28 then Inr F8 else if v = 29 then Inr F9
      else if v = 30 then Inr F10 else if v = 31 then Inr F11 else if v = 32 then Inr F12
      else Inl (InvalidData ''unknown system key''))"

section \<open>Fields\<close>

definition MESSAGE_MAGIC :: "char list" where "MESSAGE_MAGIC = ''TBARMSG1''"
definition MESSAGE_VERSION :: "16 word" where "MESSAGE_VERSION = 1"
definition MESSAGE_SIZE :: nat where "MESSAGE_SIZE = 32"

record wire_fields =
  wf_kind :: "16 word"
  wf_value :: "32 word"
  wf_payload :: "64 word"
  wf_x :: "32 word"
  wf_y :: "32 word"

definition wire_fields_new :: "16 word \<Rightarrow> 32 word \<Rightarrow> 64 word \<Rightarrow> 32 word \<Rightarrow> 32 word \<Rightarrow> wire_fields" where
  "wire_fields_new kind v payload x y =
     \<lparr>wf_kind = kind, wf_value = v, wf_payload = payload, wf_x = x, wf_y = y\<rparr>"

definition put_u16 :: "nat \<Rightarrow> 16 word \<Rightarrow> char list \<Rightarrow> char list" where
  "put_u16 off v target = put_slice off (word_bytes 2 v) target"

definition put_u32 :: "nat \<Rightarrow> 32 word \<Rightarrow> char list \<Rightarrow> char list" where
  "put_u32 off v target = put_slice off (word_bytes 4 v) target"

definition put_u64 :: "nat \<Rightarrow> 64 word \<Rightarrow> char list \<Rightarrow> char list" where
  "put_u64 off v target = put_slice off (word_bytes 8 v) target"

definition put_i32 :: "nat \<Rightarrow> 32 word \<Rightarrow> char list \<Rightarrow> char list" where
  "put_i32 off v target = put_slice off (word_bytes 4 v) target"

definition get_u16 :: "nat \<Rightarrow> char list \<Rightarrow> 16 word" where
  "get_u16 off source = word_value (slice off 2 source)"

definition get_u32 :: "nat \<Rightarrow> char list \<Rightarrow> 32 word" where
  "get_u32 off source = word_value (slice off 4 source)"

definition get_u64 :: "nat \<Rightarrow> char list \<Rightarrow> 64 word" where
  "get_u64 off source = word_value (slice off 8 source)"

definition get_i32 :: "nat \<Rightarrow> char list \<Rightarrow> 32 word" where
  "get_i32 off source = word_value (slice off 4 source)"

definition fields_message :: "wire_fields \<Rightarrow> char list" where
  "fields_message f =
     put_i32 28 (wf_y f) (put_i32 24 (wf_x f) (put_u64 16 (wf_payload f) (put_u32 12 (wf_value f)
       (put_u16 10 (wf_kind f) (put_u16 8 MESSAGE_VERSION
         (put_slice 0 MESSAGE_MAGIC (replicate MESSAGE_SIZE (char_of (0 :: nat)))))))))"

text \<open>The system calls: \<open>send\<close> gives the number of bytes written or \<open>None\<close> for an error, \<open>recv\<close> the
  bytes stored for a buffer size.\<close>

definition send_fields :: "(char list \<Rightarrow> nat option) \<Rightarrow> wire_fields \<Rightarrow> (hardware_error, unit) result" where
  "send_fields send f =
     (case send (fields_message f) of
        None \<Rightarrow> Inl OsError
      | Some n \<Rightarrow>
          if n \<noteq> length (fields_message f) then Inl (WriteZero ''short ADP swapchain event'') else Inr ())"

definition receive_fields :: "(nat \<Rightarrow> char list option) \<Rightarrow> (hardware_error, wire_fields) result" where
  "receive_fields recv =
     (case recv MESSAGE_SIZE of
        None \<Rightarrow> Inl OsError
      | Some message \<Rightarrow>
          if length message = 0 then Inl (UnexpectedEof ''presenter closed before sending an event'')
          else if length message \<noteq> MESSAGE_SIZE then Inl (UnexpectedEof ''short ADP swapchain event'')
          else if slice 0 8 message \<noteq> MESSAGE_MAGIC then Inl (InvalidData ''invalid hardware message magic'')
          else if get_u16 8 message \<noteq> MESSAGE_VERSION
          then Inl (InvalidData ''unsupported hardware message version'')
          else Inr (wire_fields_new (get_u16 10 message) (get_u32 12 message) (get_u64 16 message)
                 (get_i32 24 message) (get_i32 28 message)))"

section \<open>Sending and receiving messages\<close>

fun key_phase_code :: "key_phase \<Rightarrow> 64 word" where
  "key_phase_code Released = 0"
| "key_phase_code Pressed = 1"
| "key_phase_code Repeat = 2"

fun touch_kind :: "touch_phase \<Rightarrow> 16 word" where
  "touch_kind Down = 3"
| "touch_kind Motion = 4"
| "touch_kind Up = 5"
| "touch_kind TouchCancel = 6"

fun session_fields :: "session_message \<Rightarrow> wire_fields" where
  "session_fields (FrameReady index sequence) = wire_fields_new 1 (ucast index) sequence 0 0"
| "session_fields (Key key phase) = wire_fields_new 8 (ucast (key_code key)) (key_phase_code phase) 0 0"

fun hardware_fields :: "hardware_message \<Rightarrow> wire_fields" where
  "hardware_fields (BufferReleased index sequence) = wire_fields_new 2 (ucast index) sequence 0 0"
| "hardware_fields (Touch t) =
     wire_fields_new (touch_kind (te_phase t)) (te_contact_id t) (ucast (te_time_ms t))
       (te_x_millipixels t) (te_y_millipixels t)"
| "hardware_fields (FnChanged pressed) = wire_fields_new 7 (of_bool pressed) 0 0 0"

definition send_session_message ::
  "(char list \<Rightarrow> nat option) \<Rightarrow> session_message \<Rightarrow> (hardware_error, unit) result" where
  "send_session_message send m = send_fields send (session_fields m)"

definition send_hardware_message ::
  "(char list \<Rightarrow> nat option) \<Rightarrow> hardware_message \<Rightarrow> (hardware_error, unit) result" where
  "send_hardware_message send m = send_fields send (hardware_fields m)"

definition session_of_fields :: "wire_fields \<Rightarrow> (hardware_error, session_message) result" where
  "session_of_fields f =
     (if wf_x f \<noteq> 0 \<or> wf_y f \<noteq> 0 then Inl (InvalidData ''session message has nonzero reserved fields'')
      else if wf_kind f = 1 then
        (if wf_value f \<le> 65535 then Inr (FrameReady (ucast (wf_value f)) (wf_payload f))
         else Inl (InvalidData ''hardware buffer index is out of range''))
      else if wf_kind f = 8 then
        (if wf_payload f \<le> 2 then
           rmap (\<lambda>key. Key key
                 (if wf_payload f = 0 then Released else if wf_payload f = 1 then Pressed else Repeat))
             (key_decode (wf_value f))
         else Inl (InvalidData ''unknown system key phase''))
      else Inl (InvalidData ''message is not valid from a user session''))"

definition touch_of_fields :: "wire_fields \<Rightarrow> touch_event" where
  "touch_of_fields f =
     \<lparr>te_phase = (if wf_kind f = 3 then Down else if wf_kind f = 4 then Motion
                  else if wf_kind f = 5 then Up else TouchCancel),
      te_contact_id = wf_value f, te_time_ms = ucast (wf_payload f),
      te_x_millipixels = wf_x f, te_y_millipixels = wf_y f\<rparr>"

definition hardware_of_fields :: "wire_fields \<Rightarrow> (hardware_error, hardware_message) result" where
  "hardware_of_fields f =
     (if wf_kind f = 2 then
        (if wf_value f \<le> 65535 \<and> wf_x f = 0 \<and> wf_y f = 0
         then Inr (BufferReleased (ucast (wf_value f)) (wf_payload f))
         else Inl (InvalidData ''invalid hardware buffer release''))
      else if 3 \<le> wf_kind f \<and> wf_kind f \<le> 6 then
        (if wf_payload f > 4294967295 then Inl (InvalidData ''Touch Bar event time is out of range'')
         else Inr (Touch (touch_of_fields f)))
      else if wf_kind f = 7 then
        (if wf_value f \<le> 1 \<and> wf_payload f = 0 \<and> wf_x f = 0 \<and> wf_y f = 0
         then Inr (FnChanged (wf_value f = 1))
         else Inl (InvalidData ''invalid Fn state message''))
      else Inl (InvalidData ''message is not valid from the hardware daemon''))"

definition receive_session_message ::
  "(nat \<Rightarrow> char list option) \<Rightarrow> (hardware_error, session_message) result" where
  "receive_session_message recv = rbind (receive_fields recv) session_of_fields"

definition receive_hardware_message ::
  "(nat \<Rightarrow> char list option) \<Rightarrow> (hardware_error, hardware_message) result" where
  "receive_hardware_message recv = rbind (receive_fields recv) hardware_of_fields"

section \<open>Reading back\<close>

definition fields_repr :: "wire_fields \<Rightarrow> char list" where
  "fields_repr f =
     MESSAGE_MAGIC @ word_bytes 2 MESSAGE_VERSION @ word_bytes 2 (wf_kind f) @ word_bytes 4 (wf_value f)
     @ word_bytes 8 (wf_payload f) @ word_bytes 4 (wf_x f) @ word_bytes 4 (wf_y f)"

lemma length_magic [simp]: "length MESSAGE_MAGIC = 8"
  by (simp add: MESSAGE_MAGIC_def)

lemma length_fields [simp]: "length (fields_repr f) = MESSAGE_SIZE"
  by (simp add: fields_repr_def MESSAGE_SIZE_def)

lemmas put_defs = put_u16_def put_u32_def put_u64_def put_i32_def
lemmas get_defs = get_u16_def get_u32_def get_u64_def get_i32_def

lemma fields_message_eq: "fields_message f = fields_repr f"
  unfolding fields_message_def put_defs MESSAGE_SIZE_def
  using put_slice_next [of "[]" 0 MESSAGE_MAGIC 24 32 "char_of (0 :: nat)"]
  by (simp add: put_slice_next fields_repr_def del: append_assoc)

lemma split_message:
  assumes "length p = MESSAGE_SIZE"
  shows "p = slice 0 8 p @ slice 8 2 p @ slice 10 2 p @ slice 12 4 p @ slice 16 8 p @ slice 24 4 p @ slice 28 4 p"
proof -
  have "slice 28 4 p = drop 28 p" using assms by (simp add: slice_def MESSAGE_SIZE_def)
  then show ?thesis by (simp add: slice_drop)
qed

lemma receive_fields_iff: "receive_fields recv = Inr f \<longleftrightarrow> recv MESSAGE_SIZE = Some (fields_repr f)"
proof -
  have "receive_fields recv = Inr f \<longleftrightarrow>
    (\<exists>p. recv MESSAGE_SIZE = Some p \<and> length p = MESSAGE_SIZE \<and> slice 0 8 p = MESSAGE_MAGIC
       \<and> get_u16 8 p = MESSAGE_VERSION \<and> get_u16 10 p = wf_kind f \<and> get_u32 12 p = wf_value f
       \<and> get_u64 16 p = wf_payload f \<and> get_i32 24 p = wf_x f \<and> get_i32 28 p = wf_y f)"
    by (cases f) (auto simp: receive_fields_def wire_fields_new_def MESSAGE_SIZE_def split: option.splits if_splits)
  moreover have "length p = MESSAGE_SIZE \<and> slice 0 8 p = MESSAGE_MAGIC
       \<and> get_u16 8 p = MESSAGE_VERSION \<and> get_u16 10 p = wf_kind f \<and> get_u32 12 p = wf_value f
       \<and> get_u64 16 p = wf_payload f \<and> get_i32 24 p = wf_x f \<and> get_i32 28 p = wf_y f
     \<longleftrightarrow> p = fields_repr f" (is "?l \<longleftrightarrow> ?r") for p
  proof
    assume l: ?l
    then have "slice 8 2 p = word_bytes 2 MESSAGE_VERSION" "slice 10 2 p = word_bytes 2 (wf_kind f)"
      "slice 12 4 p = word_bytes 4 (wf_value f)" "slice 16 8 p = word_bytes 8 (wf_payload f)"
      "slice 24 4 p = word_bytes 4 (wf_x f)" "slice 28 4 p = word_bytes 4 (wf_y f)"
      by (auto simp: get_defs MESSAGE_SIZE_def word_value_eq_iff)
    then show ?r using l split_message [of p] by (simp add: fields_repr_def)
  next
    assume r: ?r
    have "slice 0 8 p = MESSAGE_MAGIC" "slice 8 2 p = word_bytes 2 MESSAGE_VERSION"
      "slice 10 2 p = word_bytes 2 (wf_kind f)" "slice 12 4 p = word_bytes 4 (wf_value f)"
      "slice 16 8 p = word_bytes 8 (wf_payload f)" "slice 24 4 p = word_bytes 4 (wf_x f)"
      "slice 28 4 p = word_bytes 4 (wf_y f)"
      by (simp_all add: r fields_repr_def slice_def)
    then show ?l using r by (simp add: get_defs word_value_eq_iff)
  qed
  ultimately show ?thesis by auto
qed

lemma ucast_narrow:
  fixes v :: "'b::len word" and w :: "'a::len word"
  assumes "LENGTH('a) \<le> LENGTH('b)"
  shows "unat v < 2 ^ LENGTH('a) \<and> ucast v = w \<longleftrightarrow> v = ucast w"
proof -
  have less: "unat w < 2 ^ LENGTH('a)" using unsigned_less [of w, where 'a = nat] by simp
  also have "\<dots> \<le> (2 :: nat) ^ LENGTH('b)" using assms by (intro power_increasing) auto
  finally have "unat (ucast w :: 'b word) = unat w"
    by (simp add: unsigned_ucast_eq take_bit_eq_mod)
  moreover have "unat (ucast v :: 'a word) = unat v mod 2 ^ LENGTH('a)"
    by (simp add: unsigned_ucast_eq take_bit_eq_mod)
  ultimately show ?thesis using less by (auto simp: word_unat_eq_iff)
qed

lemma ucast_u16_u32: "v \<le> 65535 \<and> ucast v = w \<longleftrightarrow> v = ucast w"
  for v :: "32 word" and w :: "16 word"
  using ucast_narrow [of v w] by (auto simp: word_le_nat_alt)

lemma ucast_u32_u64: "\<not> v > 4294967295 \<and> ucast v = w \<longleftrightarrow> v = ucast w"
  for v :: "64 word" and w :: "32 word"
  using ucast_narrow [of v w] by (auto simp: word_less_nat_alt)

lemma key_decode_iff: "key_decode v = Inr k \<longleftrightarrow> v = ucast (key_code k)"
  by (cases k) (auto simp: key_decode_def)

lemma word_le_2: "(v :: 64 word) \<le> 2 \<longleftrightarrow> v = 0 \<or> v = 1 \<or> v = 2"
  by (auto simp: word_le_nat_alt word_unat_eq_iff)

lemma word_le_1: "(v :: 32 word) \<le> 1 \<longleftrightarrow> v = 0 \<or> v = 1"
  by (auto simp: word_le_nat_alt word_unat_eq_iff)

lemma word_3_6: "3 \<le> v \<and> v \<le> 6 \<longleftrightarrow> v = 3 \<or> v = 4 \<or> v = 5 \<or> v = 6" for v :: "16 word"
  by (auto simp: word_le_nat_alt word_unat_eq_iff)

lemma session_of_fields_iff: "session_of_fields f = Inr m \<longleftrightarrow> f = session_fields m"
proof (cases m)
  case (FrameReady index sequence)
  have "session_of_fields f = Inr m \<longleftrightarrow> wf_x f = 0 \<and> wf_y f = 0 \<and> wf_kind f = 1
      \<and> (wf_value f \<le> 65535 \<and> ucast (wf_value f) = index) \<and> wf_payload f = sequence"
    unfolding session_of_fields_def FrameReady by auto
  then show ?thesis unfolding ucast_u16_u32 by (cases f) (auto simp: FrameReady wire_fields_new_def)
next
  case (Key key phase)
  show ?thesis
    by (cases f; cases phase)
      (auto simp: Key session_of_fields_def wire_fields_new_def key_decode_iff word_le_2)
qed

lemma hardware_of_fields_iff: "hardware_of_fields f = Inr m \<longleftrightarrow> f = hardware_fields m"
proof (cases m)
  case (BufferReleased index sequence)
  have "hardware_of_fields f = Inr m \<longleftrightarrow> wf_x f = 0 \<and> wf_y f = 0 \<and> wf_kind f = 2
      \<and> (wf_value f \<le> 65535 \<and> ucast (wf_value f) = index) \<and> wf_payload f = sequence"
    unfolding hardware_of_fields_def BufferReleased by auto
  then show ?thesis unfolding ucast_u16_u32 by (cases f) (auto simp: BufferReleased wire_fields_new_def)
next
  case (Touch t)
  have "hardware_of_fields f = Inr m \<longleftrightarrow>
      wf_kind f = touch_kind (te_phase t) \<and> (\<not> wf_payload f > 4294967295 \<and> ucast (wf_payload f) = te_time_ms t)
      \<and> wf_value f = te_contact_id t \<and> wf_x f = te_x_millipixels t \<and> wf_y f = te_y_millipixels t"
  proof (cases "3 \<le> wf_kind f \<and> wf_kind f \<le> 6")
    case True
    then have "wf_kind f \<noteq> 2" "hardware_of_fields f = Inr m \<longleftrightarrow>
        \<not> wf_payload f > 4294967295 \<and> touch_of_fields f = t"
      by (auto simp: hardware_of_fields_def Touch)
    then show ?thesis using True unfolding word_3_6
      by (cases t; cases "te_phase t") (auto simp: touch_of_fields_def)
  next
    case False
    then have "hardware_of_fields f \<noteq> Inr m"
      unfolding hardware_of_fields_def Touch if_not_P [OF False] by simp
    moreover have "wf_kind f \<noteq> touch_kind (te_phase t)"
      using False unfolding word_3_6 by (cases "te_phase t") auto
    ultimately show ?thesis by blast
  qed
  then show ?thesis unfolding ucast_u32_u64 by (cases f) (auto simp: Touch wire_fields_new_def)
next
  case (FnChanged pressed)
  have "hardware_of_fields f = Inr m \<longleftrightarrow> wf_kind f = 7 \<and> wf_value f \<le> 1 \<and> (wf_value f = 1) = pressed
      \<and> wf_payload f = 0 \<and> wf_x f = 0 \<and> wf_y f = 0"
    unfolding hardware_of_fields_def FnChanged by auto
  then show ?thesis unfolding word_le_1 by (cases f; cases pressed) (auto simp: FnChanged wire_fields_new_def)
qed

interpretation session_codec: message_codec "\<lambda>_. True" "\<lambda>_. True" "\<lambda>m. fields_repr (session_fields m)"
  "\<lambda>m. Inr (fields_message (session_fields m))" "\<lambda>p. receive_session_message (\<lambda>_. Some p)" "\<lambda>_. True"
  by unfold_locales
    (auto simp: fields_message_eq receive_session_message_def receive_fields_iff session_of_fields_iff)

interpretation hardware_codec: message_codec "\<lambda>_. True" "\<lambda>_. True" "\<lambda>m. fields_repr (hardware_fields m)"
  "\<lambda>m. Inr (fields_message (hardware_fields m))" "\<lambda>p. receive_hardware_message (\<lambda>_. Some p)" "\<lambda>_. True"
  by unfold_locales
    (auto simp: fields_message_eq receive_hardware_message_def receive_fields_iff hardware_of_fields_iff)

section \<open>Swapchains\<close>

definition SWAPCHAIN_MAGIC :: "char list" where "SWAPCHAIN_MAGIC = ''TBARHWD1''"
definition SWAPCHAIN_VERSION :: "16 word" where "SWAPCHAIN_VERSION = 1"
definition SWAPCHAIN_HEADER_SIZE :: nat where "SWAPCHAIN_HEADER_SIZE = 48"
definition MIN_SWAPCHAIN_BUFFERS :: nat where "MIN_SWAPCHAIN_BUFFERS = 2"
definition MAX_SWAPCHAIN_BUFFERS :: nat where "MAX_SWAPCHAIN_BUFFERS = 3"

datatype output_transform = Identity | QuarterTurn

record hardware_swapchain =
  logical_width :: "32 word"
  logical_height :: "32 word"
  physical_width :: "32 word"
  physical_height :: "32 word"
  sc_format :: "32 word"
  pitch :: "32 word"
  buffer_size :: "64 word"
  buffer_count :: "16 word"

definition checked_mul :: "'a::len word \<Rightarrow> 'a word \<Rightarrow> 'a word option" where
  "checked_mul a b = (if unat a * unat b < 2 ^ LENGTH('a) then Some (a * b) else None)"

definition swapchain_validate :: "hardware_swapchain \<Rightarrow> (hardware_error, hardware_swapchain) result" where
  "swapchain_validate s =
     (if \<not> (MIN_SWAPCHAIN_BUFFERS \<le> unat (buffer_count s) \<and> unat (buffer_count s) \<le> MAX_SWAPCHAIN_BUFFERS)
      then Inl (InvalidData ''swapchain must contain two or three buffers'')
      else if logical_width s = 0 \<or> logical_height s = 0 \<or> physical_width s = 0 \<or> physical_height s = 0
      then Inl (InvalidData ''swapchain dimensions must be nonzero'')
      else if logical_width s > 16384 \<or> logical_height s > 16384 \<or> physical_width s > 16384
        \<or> physical_height s > 16384
      then Inl (InvalidData ''swapchain dimensions exceed protocol limits'')
      else
        rbind (ok_or (InvalidData ''swapchain pitch overflow'') (checked_mul (physical_width s) 4))
          (\<lambda>minimum_pitch.
             if pitch s < minimum_pitch
             then Inl (InvalidData ''swapchain pitch is smaller than one XRGB row'')
             else
               rbind (ok_or (InvalidData ''swapchain size overflow'')
                       (checked_mul (ucast (pitch s)) (ucast (physical_height s))))
                 (\<lambda>minimum_size.
                    if buffer_size s < minimum_size
                    then Inl (InvalidData ''swapchain buffer is smaller than its layout'')
                    else Inr s)))"

definition swapchain_transform :: "hardware_swapchain \<Rightarrow> output_transform option" where
  "swapchain_transform s =
     (if physical_width s = logical_width s \<and> physical_height s = logical_height s then Some Identity
      else if physical_width s = logical_height s \<and> physical_height s = logical_width s
      then Some QuarterTurn else None)"

definition swapchain_header :: "hardware_swapchain \<Rightarrow> char list" where
  "swapchain_header s =
     put_u64 40 (buffer_size s) (put_u32 32 (pitch s) (put_u32 28 (sc_format s)
       (put_u32 24 (physical_height s) (put_u32 20 (physical_width s) (put_u32 16 (logical_height s)
         (put_u32 12 (logical_width s) (put_u16 10 (buffer_count s) (put_u16 8 SWAPCHAIN_VERSION
           (put_slice 0 SWAPCHAIN_MAGIC (replicate SWAPCHAIN_HEADER_SIZE (char_of (0 :: nat))))))))))))"

definition swapchain_encode :: "hardware_swapchain \<Rightarrow> (hardware_error, char list) result" where
  "swapchain_encode s = rmap swapchain_header (swapchain_validate s)"

definition header_fields :: "char list \<Rightarrow> hardware_swapchain" where
  "header_fields h =
     \<lparr>logical_width = get_u32 12 h, logical_height = get_u32 16 h, physical_width = get_u32 20 h,
      physical_height = get_u32 24 h, sc_format = get_u32 28 h, pitch = get_u32 32 h,
      buffer_size = get_u64 40 h, buffer_count = get_u16 10 h\<rparr>"

definition swapchain_decode :: "char list \<Rightarrow> (hardware_error, hardware_swapchain) result" where
  "swapchain_decode h =
     (if slice 0 8 h \<noteq> SWAPCHAIN_MAGIC then Inl (InvalidData ''invalid hardware swapchain magic'')
      else if get_u16 8 h \<noteq> SWAPCHAIN_VERSION
      then Inl (InvalidData ''unsupported hardware swapchain protocol version'')
      else swapchain_validate (header_fields h))"

definition send_hardware_swapchain ::
  "(char list \<Rightarrow> int list \<Rightarrow> nat option) \<Rightarrow> hardware_swapchain \<Rightarrow> int list \<Rightarrow> (hardware_error, unit) result" where
  "send_hardware_swapchain send s fds =
     rbind (swapchain_encode s)
       (\<lambda>h. if length fds \<noteq> unat (buffer_count s)
            then Inl (InvalidData ''descriptor count does not match swapchain header'')
            else (case send h fds of
                    None \<Rightarrow> Inl OsError
                  | Some n \<Rightarrow>
                      if n \<noteq> length h then Inl (WriteZero ''short ADP swapchain descriptor message'')
                      else Inr ()))"

text \<open>A control message of \<^verbatim>\<open>recvmsg\<close>: whether it is \<^verbatim>\<open>SCM_RIGHTS\<close> at the socket level, its length and
  the descriptors stored in it; \<open>header_len\<close> is \<^verbatim>\<open>CMSG_LEN(0)\<close>.\<close>

record control_message =
  cm_rights :: bool
  cm_len :: nat
  cm_descriptor :: "nat \<Rightarrow> int"

fun collect_descriptors :: "nat \<Rightarrow> control_message list \<Rightarrow> int list \<Rightarrow> (hardware_error, int list) result" where
  "collect_descriptors header_len [] fds = Inr fds"
| "collect_descriptors header_len (c # cs) fds =
     (if \<not> cm_rights c then Inl (InvalidData ''unexpected swapchain ancillary message'')
      else if cm_len c < header_len then Inl (InvalidData ''malformed descriptor control message'')
      else if (cm_len c - header_len) mod 4 \<noteq> 0 then Inl (InvalidData ''malformed descriptor payload'')
      else collect_descriptors header_len cs
             (fds @ map (cm_descriptor c) [0 ..< (cm_len c - header_len) div 4]))"

record received_message =
  rm_bytes :: "char list"
  rm_truncated :: bool
  rm_control :: "control_message list"

definition receive_hardware_swapchain ::
  "nat \<Rightarrow> received_message option \<Rightarrow> (hardware_error, hardware_swapchain \<times> int list) result" where
  "receive_hardware_swapchain header_len msg =
     (case msg of
        None \<Rightarrow> Inl OsError
      | Some r \<Rightarrow>
          rbind (collect_descriptors header_len (rm_control r) [])
            (\<lambda>fds.
               if rm_truncated r then Inl (InvalidData ''truncated ADP swapchain message'')
               else if length (rm_bytes r) = 0
               then Inl (UnexpectedEof ''presenter closed before sending a swapchain'')
               else if length (rm_bytes r) \<noteq> SWAPCHAIN_HEADER_SIZE
               then Inl (UnexpectedEof ''short ADP swapchain header'')
               else
                 rbind (swapchain_decode (rm_bytes r))
                   (\<lambda>s. if length fds \<noteq> unat (buffer_count s)
                        then Inl (InvalidData ''received descriptor count does not match header'')
                        else Inr (s, fds))))"

section \<open>Properties\<close>

lemma fields_repr_inject [simp]: "fields_repr f = fields_repr g \<longleftrightarrow> f = g"
  using receive_fields_iff [of "\<lambda>_. Some (fields_repr f)" f] receive_fields_iff [of "\<lambda>_. Some (fields_repr f)" g]
  by auto

text \<open>(C27) Each side of the privilege boundary accepts exactly the 32-byte messages its peer can send,
  reads them as they were sent, and no message is accepted in both directions: a session can never
  speak with the authority of the hardware daemon, nor the daemon with that of a session.\<close>

theorem hardware_boundary_exact:
  "(receive_session_message recv = Inr m \<longleftrightarrow>
      recv MESSAGE_SIZE = Some (fields_message (session_fields m)))
   \<and> (receive_hardware_message recv = Inr n \<longleftrightarrow>
      recv MESSAGE_SIZE = Some (fields_message (hardware_fields n)))
   \<and> \<not> (receive_session_message recv = Inr m \<and> receive_hardware_message recv = Inr n)"
proof -
  have "wf_kind (session_fields m) \<noteq> wf_kind (hardware_fields n)"
  proof -
    have "touch_kind p \<notin> {1, 8}" for p by (cases p) simp_all
    then show ?thesis by (cases m; cases n) (auto simp: wire_fields_new_def)
  qed
  then have "session_fields m \<noteq> hardware_fields n" by (rule contrapos_nn) simp
  then show ?thesis
    by (auto simp: receive_session_message_def receive_hardware_message_def fields_message_eq
        receive_fields_iff session_of_fields_iff hardware_of_fields_iff)
qed

definition swapchain_repr :: "hardware_swapchain \<Rightarrow> char list" where
  "swapchain_repr s =
     SWAPCHAIN_MAGIC @ word_bytes 2 SWAPCHAIN_VERSION @ word_bytes 2 (buffer_count s)
     @ word_bytes 4 (logical_width s) @ word_bytes 4 (logical_height s) @ word_bytes 4 (physical_width s)
     @ word_bytes 4 (physical_height s) @ word_bytes 4 (sc_format s) @ word_bytes 4 (pitch s)
     @ replicate 4 (char_of (0 :: nat)) @ word_bytes 8 (buffer_size s)"

lemma length_swapchain_magic [simp]: "length SWAPCHAIN_MAGIC = 8"
  by (simp add: SWAPCHAIN_MAGIC_def)

lemma put_slice_gap:
  "length pre = base \<Longrightarrow> base + gap = off \<Longrightarrow> gap + length new + k = m \<Longrightarrow>
     put_slice off new (pre @ replicate m z) = (pre @ replicate gap z @ new) @ replicate k z"
  by (auto simp: put_slice_def replicate_add)

lemma swapchain_header_eq: "swapchain_header s = swapchain_repr s"
  unfolding swapchain_header_def put_defs SWAPCHAIN_HEADER_SIZE_def
  using put_slice_next [of "[]" 0 SWAPCHAIN_MAGIC 40 48 "char_of (0 :: nat)"]
  by (simp add: put_slice_next put_slice_gap [where gap = 4 and base = 36] swapchain_repr_def
      del: append_assoc)

lemma header_fields_repr: "header_fields (swapchain_repr s) = s"
  by (simp add: header_fields_def swapchain_repr_def get_defs slice_def word_value_eq_iff)

lemma swapchain_validate_same: "swapchain_validate s = Inr t \<Longrightarrow> t = s"
  by (auto simp: swapchain_validate_def Let_def split: if_splits)

lemma swapchain_decode_repr: "swapchain_decode (swapchain_repr s) = swapchain_validate s"
proof -
  have "slice 0 8 (swapchain_repr s) = SWAPCHAIN_MAGIC" "get_u16 8 (swapchain_repr s) = SWAPCHAIN_VERSION"
    by (simp_all add: swapchain_repr_def get_defs slice_def word_value_eq_iff)
  then show ?thesis by (simp add: swapchain_decode_def header_fields_repr)
qed

lemma checked_mul_le:
  "checked_mul a b = Some c \<Longrightarrow> \<not> d < c \<Longrightarrow> unat a * unat b \<le> unat d"
  by (auto simp: checked_mul_def word_less_nat_alt unat_word_ariths split: if_splits)

lemma unat_ucast_wide: "unat (ucast w :: 64 word) = unat w" for w :: "32 word"
  using unsigned_less [of w, where 'a = nat] by (simp add: unsigned_ucast_eq take_bit_eq_mod)

lemma validated_pixels:
  assumes v: "swapchain_validate s = Inr t"
    and "x < unat (physical_width s)" and "y < unat (physical_height s)"
  shows "y * unat (pitch s) + 4 * x + 4 \<le> unat (buffer_size s)"
proof -
  have pitch: "4 * unat (physical_width s) \<le> unat (pitch s)"
    and size: "unat (pitch s) * unat (physical_height s) \<le> unat (buffer_size s)"
    using v checked_mul_le [of "physical_width s" 4 _ "pitch s"]
      checked_mul_le [of "ucast (pitch s)" "ucast (physical_height s)" _ "buffer_size s"]
    by (auto simp: swapchain_validate_def unat_ucast_wide mult.commute split: if_splits option.splits)
  have "y * unat (pitch s) + 4 * x + 4 \<le> y * unat (pitch s) + unat (pitch s)"
    using pitch assms(2) by simp
  also have "\<dots> = Suc y * unat (pitch s)" by simp
  also have "\<dots> \<le> unat (physical_height s) * unat (pitch s)" using assms(3) by (intro mult_le_mono1) simp
  finally show ?thesis using size by (simp add: mult.commute)
qed


text \<open>A swapchain header that is sent is the one that is received, with its own descriptors; and
  every received swapchain has two or three descriptors, as many as it announces, and keeps all of
  its pixels (four bytes each, in rows of the announced pitch) inside the announced buffer.\<close>

theorem swapchain_exact:
  "(send_hardware_swapchain (\<lambda>h fds. Some (length h)) s fds = Inr () \<longrightarrow>
      receive_hardware_swapchain header_len (Some
        \<lparr>rm_bytes = swapchain_header s, rm_truncated = False,
         rm_control = [\<lparr>cm_rights = True, cm_len = header_len + 4 * length fds, cm_descriptor = nth fds\<rparr>]\<rparr>) =
      Inr (s, fds))
   \<and> (receive_hardware_swapchain header_len msg = Inr (t, ds) \<longrightarrow>
      length ds \<in> {2, 3} \<and> length ds = unat (buffer_count t)
      \<and> (\<forall>x y. x < unat (physical_width t) \<and> y < unat (physical_height t) \<longrightarrow>
           y * unat (pitch t) + 4 * x + 4 \<le> unat (buffer_size t)))"
proof (intro conjI impI)
  assume "send_hardware_swapchain (\<lambda>h fds. Some (length h)) s fds = Inr ()"
  then have "swapchain_validate s = Inr s" "length fds = unat (buffer_count s)"
    using swapchain_validate_same by (auto simp: send_hardware_swapchain_def swapchain_encode_def split: if_splits)
  moreover have "length (swapchain_repr s) = SWAPCHAIN_HEADER_SIZE"
    by (simp add: swapchain_repr_def SWAPCHAIN_HEADER_SIZE_def)
  moreover have "map (nth fds) [0 ..< length fds] = fds" by (rule map_nth)
  ultimately show "receive_hardware_swapchain header_len (Some
        \<lparr>rm_bytes = swapchain_header s, rm_truncated = False,
         rm_control = [\<lparr>cm_rights = True, cm_len = header_len + 4 * length fds, cm_descriptor = nth fds\<rparr>]\<rparr>) =
      Inr (s, fds)"
    by (simp add: receive_hardware_swapchain_def swapchain_header_eq swapchain_decode_repr SWAPCHAIN_HEADER_SIZE_def)
next
  assume "receive_hardware_swapchain header_len msg = Inr (t, ds)"
  then obtain h where "swapchain_decode h = Inr t" and len: "length ds = unat (buffer_count t)"
    by (auto simp: receive_hardware_swapchain_def split: option.splits if_splits)
  then have v: "swapchain_validate t = Inr t"
    using swapchain_validate_same by (fastforce simp: swapchain_decode_def split: if_splits)
  then have "2 \<le> unat (buffer_count t)" "unat (buffer_count t) \<le> 3"
    by (auto simp: swapchain_validate_def MIN_SWAPCHAIN_BUFFERS_def MAX_SWAPCHAIN_BUFFERS_def split: if_splits)
  then show "length ds \<in> {2, 3}" using len by auto
  show "length ds = unat (buffer_count t)" by (rule len)
  show "\<forall>x y. x < unat (physical_width t) \<and> y < unat (physical_height t) \<longrightarrow>
      y * unat (pitch t) + 4 * x + 4 \<le> unat (buffer_size t)"
    using validated_pixels [OF v] by blast
qed

definition demo_swapchain :: hardware_swapchain where
  "demo_swapchain =
     \<lparr>logical_width = 2008, logical_height = 60, physical_width = 60, physical_height = 2008,
      sc_format = 875713112, pitch = 256, buffer_size = 514048, buffer_count = 2\<rparr>"

theorem swapchain_exact_witness:
  "receive_hardware_swapchain 16 (Some
     \<lparr>rm_bytes = swapchain_header demo_swapchain, rm_truncated = False,
      rm_control = [\<lparr>cm_rights = True, cm_len = 16 + 4 * length [7, 9 :: int], cm_descriptor = nth [7, 9]\<rparr>]\<rparr>) =
   Inr (demo_swapchain, [7, 9])"
proof -
  have "send_hardware_swapchain (\<lambda>h fds. Some (length h)) demo_swapchain [7, 9] = Inr ()" by code_simp
  then show ?thesis using swapchain_exact [of demo_swapchain "[7, 9]" 16] by blast
qed

end
