(* ===== verification/Presentation.thy ===== *)
theory Presentation
  imports Profile_Correct
begin

text \<open>
  Temporary presentations (\<^verbatim>\<open>touchbar-sessiond/src/presentation.rs\<close>). A surface that is shown
  expanded is either anchored as a popover over its compact item, spliced into the bar at the place of
  that item, put in the place of a profile slot, or given the whole bar. Splicing rewrites the nested
  groups of the active bar along a path of indices and removes the presented items everywhere else, so
  that one surface is never placed twice.
\<close>

section \<open>Popovers\<close>

record anchor =
  anchor_x :: nat
  anchor_width :: nat

text \<open>\<open>None\<close> is the panic of \<^verbatim>\<open>expect\<close> on a layout without placements, or of the subtraction.\<close>

definition resolve_popover ::
  "anchor \<Rightarrow> item_spec \<Rightarrow> nat \<Rightarrow> (layout_error, placement) outcome" where
  "resolve_popover a it available_width =
     pbind (resolve \<lparr>bar_elements = [Item it], principal_item = None\<rparr> available_width [])
       (\<lambda>layout.
          case placements layout of
            [] \<Rightarrow> None
          | p # _ \<Rightarrow>
              let center = min (anchor_x a + anchor_width a div 2) u32_max in
              map_option (\<lambda>room. Inr (p\<lparr>pl_x := min (center - pl_width p div 2) room\<rparr>))
                (csub available_width (pl_width p)))"

section \<open>Pruning\<close>

text \<open>What \<^verbatim>\<open>if let Some(element) = ... { push(element) }\<close> appends.\<close>

definition opt_list :: "'a option \<Rightarrow> 'a list" where
  "opt_list m = (case m of Some e \<Rightarrow> [e] | None \<Rightarrow> [])"

lemma opt_list_simps [simp]: "opt_list None = []" "opt_list (Some e) = [e]"
  by (simp_all add: opt_list_def)

fun prune_group_element :: "item_id set \<Rightarrow> group_element \<Rightarrow> group_element option"
and prune_group :: "item_id set \<Rightarrow> group_spec \<Rightarrow> group_spec" where
  "prune_group_element items (GItem it) = (if item_id it \<in> items then None else Some (GItem it))"
| "prune_group_element items (GGroup g) = Some (GGroup (prune_group items g))"
| "prune_group items (GroupSpec gid es lay sp vp cp) =
     GroupSpec gid (List.map_filter (prune_group_element items) es) lay sp vp cp"

fun prune_element :: "item_id set \<Rightarrow> element \<Rightarrow> element option" where
  "prune_element items (Item it) = (if item_id it \<in> items then None else Some (Item it))"
| "prune_element items (Group g) = Some (Group (prune_group items g))"
| "prune_element items (FixedSpace w) = Some (FixedSpace w)"
| "prune_element items (FlexibleSpace w weight) = Some (FlexibleSpace w weight)"

section \<open>Rewriting\<close>

datatype presentation_error =
    SourceNotActive
  | NoSlot slot_id
  | InvalidSlotSpan
  | InvalidSlotPath
  | PathNotGroup
  | SpaceInGroup

fun element_to_group_element :: "element \<Rightarrow> (presentation_error, group_element) result" where
  "element_to_group_element (Item it) = Inr (GItem it)"
| "element_to_group_element (Group g) = Inr (GGroup g)"
| "element_to_group_element (FixedSpace _) = Inl SpaceInGroup"
| "element_to_group_element (FlexibleSpace _ _) = Inl SpaceInGroup"

text \<open>The loop over \<^verbatim>\<open>0..=len\<close> that \<^verbatim>\<open>rewrite_top_range\<close> and \<^verbatim>\<open>rewrite_group\<close> share.\<close>

definition rewrite_range ::
  "('e \<Rightarrow> 'e option) \<Rightarrow> nat \<Rightarrow> nat \<Rightarrow> 'e list \<Rightarrow> 'e list \<Rightarrow> 'e list" where
  "rewrite_range prune start stop replacement els =
     concat (map (\<lambda>index.
         (if index = start then replacement else [])
         @ (if index = length els \<or> (start \<le> index \<and> index < stop) then []
            else opt_list (prune (els ! index))))
       [0..<Suc (length els)])"

definition rewrite_top_range ::
  "element list \<Rightarrow> nat \<Rightarrow> nat \<Rightarrow> element list \<Rightarrow> item_id set \<Rightarrow> element list" where
  "rewrite_top_range els start stop replacement items =
     rewrite_range (prune_element items) start stop replacement els"

fun rewrite_group ::
  "group_spec \<Rightarrow> nat list \<Rightarrow> nat \<Rightarrow> nat \<Rightarrow> group_element list \<Rightarrow> item_id set \<Rightarrow>
   (presentation_error, group_spec) result" where
  "rewrite_group (GroupSpec gid es lay sp vp cp) [] start stop replacement items =
     (if start > stop \<or> stop > length es then Inl InvalidSlotSpan
      else Inr (GroupSpec gid (rewrite_range (prune_group_element items) start stop replacement es)
                  lay sp vp cp))"
| "rewrite_group (GroupSpec gid es lay sp vp cp) (target # path) start stop replacement items =
     (if target \<ge> length es then Inl InvalidSlotPath
      else
        rmap (\<lambda>ess. GroupSpec gid (concat ess) lay sp vp cp)
          (rmap_list (\<lambda>ie.
               if fst ie = target then
                 (case snd ie of
                    GGroup child \<Rightarrow>
                      rmap (\<lambda>g. [GGroup g]) (rewrite_group child path start stop replacement items)
                  | GItem _ \<Rightarrow> Inl PathNotGroup)
               else
                 Inr (opt_list (prune_group_element items (snd ie))))
             (enumerate 0 es)))"

definition rewrite_bar ::
  "element list \<Rightarrow> nat list \<Rightarrow> nat \<Rightarrow> nat \<Rightarrow> element list \<Rightarrow> item_id set \<Rightarrow>
   (presentation_error, element list) result" where
  "rewrite_bar els target_path start stop replacement items =
     (case target_path of
        [] \<Rightarrow>
          if start > stop \<or> stop > length els then Inl InvalidSlotSpan
          else Inr (rewrite_top_range els start stop replacement items)
      | target # path \<Rightarrow>
          rbind (rmap_list element_to_group_element replacement) (\<lambda>grouped.
            if target \<ge> length els then Inl InvalidSlotPath
            else
              rmap concat
                (rmap_list (\<lambda>ie.
                     if fst ie = target then
                       (case snd ie of
                          Group g \<Rightarrow> rmap (\<lambda>g'. [Group g']) (rewrite_group g path start stop grouped items)
                        | _ \<Rightarrow> Inl PathNotGroup)
                     else
                       Inr (opt_list (prune_element items (snd ie))))
                   (enumerate 0 els))))"

section \<open>Finding the source\<close>

fun find_item_in_group :: "group_spec \<Rightarrow> item_id \<Rightarrow> nat list \<Rightarrow> (nat list \<times> nat) option"
and find_item_in_elements ::
  "nat \<Rightarrow> group_element list \<Rightarrow> item_id \<Rightarrow> nat list \<Rightarrow> (nat list \<times> nat) option" where
  "find_item_in_group (GroupSpec gid es lay sp vp cp) source path = find_item_in_elements 0 es source path"
| "find_item_in_elements index [] source path = None"
| "find_item_in_elements index (GItem it # es) source path =
     (if item_id it = source then Some (path, index)
      else find_item_in_elements (Suc index) es source path)"
| "find_item_in_elements index (GGroup g # es) source path =
     (case find_item_in_group g source (path @ [index]) of
        Some found \<Rightarrow> Some found
      | None \<Rightarrow> find_item_in_elements (Suc index) es source path)"

fun find_item_container :: "nat \<Rightarrow> element list \<Rightarrow> item_id \<Rightarrow> (nat list \<times> nat) option" where
  "find_item_container index [] source = None"
| "find_item_container index (Item it # els) source =
     (if item_id it = source then Some ([], index) else find_item_container (Suc index) els source)"
| "find_item_container index (Group g # els) source =
     (case find_item_in_group g source [index] of
        Some found \<Rightarrow> Some found
      | None \<Rightarrow> find_item_container (Suc index) els source)"
| "find_item_container index (_ # els) source = find_item_container (Suc index) els source"

section \<open>Presentation bars\<close>

definition item_ids_from_elements :: "element list \<Rightarrow> item_id set" where
  "item_ids_from_elements els = set (concat (map collect_item_ids els))"

definition presented_bar :: "bar_spec \<Rightarrow> bar_spec \<Rightarrow> element list \<Rightarrow> bar_spec" where
  "presented_bar compact content els =
     \<lparr>bar_elements = els,
      principal_item =
        (case principal_item content of
           Some p \<Rightarrow> Some p
         | None \<Rightarrow>
             (case principal_item compact of
                Some p \<Rightarrow> if p \<in> item_ids_from_elements els then Some p else None
              | None \<Rightarrow> None))\<rparr>"

definition in_place_content_bar ::
  "bar_spec \<Rightarrow> item_id \<Rightarrow> bar_spec \<Rightarrow> (presentation_error, bar_spec) result" where
  "in_place_content_bar compact source content =
     rbind (ok_or SourceNotActive (find_item_container 0 (bar_elements compact) source)) (\<lambda>found.
       rmap (presented_bar compact content)
         (rewrite_bar (bar_elements compact) (fst found) (snd found) (snd found + 1)
            (bar_elements content) (item_ids_from_elements (bar_elements content))))"

definition in_place_bar ::
  "bar_spec \<Rightarrow> item_id \<Rightarrow> item_spec \<Rightarrow> (presentation_error, bar_spec) result" where
  "in_place_bar compact source expanded =
     in_place_content_bar compact source
       \<lparr>bar_elements = [Item (expanded\<lparr>item_id := source\<rparr>)], principal_item = None\<rparr>"

definition slot_content_bar ::
  "bar_spec \<Rightarrow> composed_slot list \<Rightarrow> slot_id \<Rightarrow> bar_spec \<Rightarrow> (presentation_error, bar_spec) result" where
  "slot_content_bar compact slots target content =
     rbind (ok_or (NoSlot target) (find (\<lambda>s. cslot_id s = target) slots)) (\<lambda>slot.
       rmap (presented_bar compact content)
         (rewrite_bar (bar_elements compact) (cslot_path slot) (cslot_start slot) (cslot_end slot)
            (bar_elements content) (item_ids_from_elements (bar_elements content))))"

definition slot_bar ::
  "bar_spec \<Rightarrow> composed_slot list \<Rightarrow> slot_id \<Rightarrow> item_id \<Rightarrow> item_spec \<Rightarrow>
   (presentation_error, bar_spec) result" where
  "slot_bar compact slots target source expanded =
     slot_content_bar compact slots target
       \<lparr>bar_elements = [Item (expanded\<lparr>item_id := source\<rparr>)], principal_item = None\<rparr>"

definition full_bar :: "item_id \<Rightarrow> nat \<Rightarrow> bar_spec" where
  "full_bar source available_width =
     \<lparr>bar_elements = [Item (new_item source available_width available_width available_width)],
      principal_item = Some source\<rparr>"

section \<open>Splicing lists\<close>

lemma map_filter_opt_list: "List.map_filter f xs = concat (map (\<lambda>x. opt_list (f x)) xs)"
  by (induction xs) (auto simp: map_filter_simps split: option.splits)

lemma concat_at_start:
  "start < n \<Longrightarrow> concat (map (\<lambda>i. (if i = start then r else []) @ g i) [start..<n]) = r @ concat (map g [start..<n])"
  by (simp add: upt_conv_Cons) (rule arg_cong [of _ _ concat], simp)

lemma concat_before:
  "concat (map (\<lambda>i. (if i = start then r else []) @ g i) [0..<start]) = concat (map g [0..<start])"
  by (rule arg_cong [of _ _ concat]) simp

lemma rewrite_range_split:
  assumes "start \<le> stop" and "stop \<le> length els"
  shows "rewrite_range prune start stop replacement els =
    List.map_filter prune (take start els) @ replacement @ List.map_filter prune (drop stop els)"
proof -
  let ?n = "length els"
  define g where "g i = (if i = ?n \<or> (start \<le> i \<and> i < stop) then [] else opt_list (prune (els ! i)))" for i
  have "rewrite_range prune start stop replacement els
      = concat (map (\<lambda>i. (if i = start then replacement else []) @ g i) ([0..<start] @ [start..<Suc ?n]))"
    using assms upt_add_eq_append [of 0 start "Suc ?n - start"]
    unfolding rewrite_range_def g_def by (simp del: upt_Suc)
  also have "\<dots> = concat (map g [0..<start]) @ replacement @ concat (map g [start..<Suc ?n])"
    using assms by (simp add: concat_before concat_at_start del: upt_Suc)
  also have "[start..<Suc ?n] = [start..<stop] @ [stop..<?n] @ [?n]"
    using assms upt_add_eq_append [of start stop "?n - stop"] by simp
  also have "concat (map g [0..<start]) = List.map_filter prune (take start els)"
  proof -
    have "map g [0..<start] = map (\<lambda>x. opt_list (prune x)) (take start els)"
      using assms by (intro nth_equalityI) (simp_all add: g_def)
    then show ?thesis by (simp add: map_filter_opt_list)
  qed
  also have "concat (map g ([start..<stop] @ [stop..<?n] @ [?n])) = List.map_filter prune (drop stop els)"
  proof -
    have "concat (map g [start..<stop]) = []" "g ?n = []"
      by (auto simp: g_def)
    moreover have "map g [stop..<?n] = map (\<lambda>x. opt_list (prune x)) (drop stop els)"
      using assms by (auto simp: g_def intro!: nth_equalityI)
    ultimately show ?thesis by (simp add: map_filter_opt_list)
  qed
  finally show ?thesis .
qed

lemma rmap_list_enumerate_at:
  assumes "n \<le> target" and "target < n + length els"
  shows "rmap_list (\<lambda>ie. if fst ie = target then h (snd ie) else Inr (f (snd ie))) (enumerate n els)
    = rmap (\<lambda>new. map f (take (target - n) els) @ new # map f (drop (Suc (target - n)) els))
        (h (els ! (target - n)))"
  using assms
proof (induction els arbitrary: n)
  case (Cons x els)
  have rest: "rmap_list (\<lambda>ie. if fst ie = target then h (snd ie) else Inr (f (snd ie))) (enumerate m els)
      = Inr (map f els)" if "target < m" for m
    using that
  proof (induction els arbitrary: m)
    case (Cons y ys)
    then show ?case using Cons.IH [of "Suc m"] by simp
  qed simp
  show ?case
  proof (cases "n = target")
    case True
    then show ?thesis using rest [of "Suc n"] by (cases "h x") simp_all
  next
    case False
    then have "target - n = Suc (target - Suc n)" using Cons.prems by simp
    then show ?thesis using Cons.IH [of "Suc n"] Cons.prems False
      by (cases "h (els ! (target - Suc n))") simp_all
  qed
qed simp

section \<open>The items a range addresses\<close>

text \<open>The identifiers before, inside and after the range of elements that a path and a pair of bounds
  address, in the order of the bar.\<close>

abbreviation ids_of :: "group_element list \<Rightarrow> item_id list" where
  "ids_of es \<equiv> concat (map group_element_ids es)"

fun group_span :: "group_spec \<Rightarrow> nat list \<Rightarrow> nat \<Rightarrow> nat \<Rightarrow> (item_id list \<times> item_id list \<times> item_id list) option" where
  "group_span (GroupSpec gid es lay sp vp cp) [] start stop =
     (if start \<le> stop \<and> stop \<le> length es
      then Some (ids_of (take start es), ids_of (take (stop - start) (drop start es)), ids_of (drop stop es))
      else None)"
| "group_span (GroupSpec gid es lay sp vp cp) (target # path) start stop =
     (if target < length es
      then (case es ! target of
              GGroup g \<Rightarrow> map_option (\<lambda>(a, mid, b). (ids_of (take target es) @ a, mid, b @ ids_of (drop (Suc target) es)))
                (group_span g path start stop)
            | GItem _ \<Rightarrow> None)
      else None)"

text \<open>What pruning and recursion into groups promise about identifiers, for the elements of a group
  and for those of a bar alike.\<close>

locale splice_elements =
  fixes ids :: "'e \<Rightarrow> item_id list"
    and prune :: "item_id set \<Rightarrow> 'e \<Rightarrow> 'e option"
    and child :: "'e \<Rightarrow> group_spec option"
    and wrap :: "group_spec \<Rightarrow> 'e"
  assumes prune_ids: "concat (map ids (opt_list (prune items e))) = filter (\<lambda>i. i \<notin> items) (ids e)"
    and child_ids: "child e = Some g \<Longrightarrow> ids e = collect_group_item_ids g"
    and wrap_ids: "ids (wrap g) = collect_group_item_ids g"
begin

abbreviation all_ids :: "'e list \<Rightarrow> item_id list" where
  "all_ids es \<equiv> concat (map ids es)"

lemma pruned_ids: "all_ids (List.map_filter (prune items) es) = filter (\<lambda>i. i \<notin> items) (all_ids es)"
  by (induction es) (auto simp: map_filter_opt_list prune_ids)

lemma rewrite_range_ids:
  assumes "start \<le> stop" and "stop \<le> length es"
  shows "all_ids (rewrite_range (prune items) start stop replacement es) =
    filter (\<lambda>i. i \<notin> items) (all_ids (take start es)) @ all_ids replacement
    @ filter (\<lambda>i. i \<notin> items) (all_ids (drop stop es))"
  using assms by (simp add: rewrite_range_split pruned_ids)

lemma split_range_ids:
  assumes "start \<le> stop" and "stop \<le> length es"
  shows "all_ids es = all_ids (take start es) @ all_ids (take (stop - start) (drop start es)) @ all_ids (drop stop es)"
proof -
  have "es = take start es @ take (stop - start) (drop start es) @ drop stop es"
    using assms by (metis append_take_drop_id drop_drop le_add_diff_inverse2)
  then show ?thesis by (metis concat_append map_append)
qed

lemma split_at_ids:
  assumes "target < length es" and "child (es ! target) = Some g"
  shows "all_ids es = all_ids (take target es) @ collect_group_item_ids g @ all_ids (drop (Suc target) es)"
proof -
  have "es = take target es @ es ! target # drop (Suc target) es"
    using assms(1) by (simp add: id_take_nth_drop)
  then have "all_ids es = all_ids (take target es @ es ! target # drop (Suc target) es)" by simp
  then show ?thesis using child_ids [OF assms(2)] by simp
qed

lemma rewrite_at_ids:
  "all_ids (concat (map (\<lambda>x. opt_list (prune items x)) es)) = filter (\<lambda>i. i \<notin> items) (all_ids es)"
  using pruned_ids by (simp add: map_filter_opt_list)

end

lemma pruned_group_ids:
  "ids_of (opt_list (prune_group_element items e)) = filter (\<lambda>i. i \<notin> items) (group_element_ids e)"
  "collect_group_item_ids (prune_group items g) = filter (\<lambda>i. i \<notin> items) (collect_group_item_ids g)"
proof (induction items e and items g rule: prune_group_element_prune_group.induct)
  case (3 items gid es lay sp vp cp)
  then show ?case by (induction es) (auto simp: map_filter_opt_list)
qed simp_all

fun group_child :: "group_element \<Rightarrow> group_spec option" where
  "group_child (GGroup g) = Some g"
| "group_child (GItem _) = None"

fun bar_child :: "element \<Rightarrow> group_spec option" where
  "bar_child (Group g) = Some g"
| "bar_child _ = None"

interpretation in_group: splice_elements group_element_ids prune_group_element group_child GGroup
proof
  show "ids_of (opt_list (prune_group_element items e)) = filter (\<lambda>i. i \<notin> items) (group_element_ids e)" for items e
    by (rule pruned_group_ids)
qed (auto elim: group_child.elims)

interpretation in_bar: splice_elements collect_item_ids prune_element bar_child Group
proof
  show "concat (map collect_item_ids (opt_list (prune_element items e))) = filter (\<lambda>i. i \<notin> items) (collect_item_ids e)" for items e
    by (cases e) (simp_all add: pruned_group_ids)
qed (auto elim: bar_child.elims)

lemma group_span_ids: "group_span g path start stop = Some (a, mid, b) \<Longrightarrow> collect_group_item_ids g = a @ mid @ b"
proof (induction g path start stop arbitrary: a b rule: group_span.induct)
  case (1 gid es lay sp vp cp start stop)
  then show ?case using in_group.split_range_ids [of start stop es] by (auto split: if_splits)
next
  case (2 gid es lay sp vp cp target path start stop)
  then obtain g a' b' where g: "target < length es" "es ! target = GGroup g"
    "group_span g path start stop = Some (a', mid, b')"
    "a = ids_of (take target es) @ a'" "b = b' @ ids_of (drop (Suc target) es)"
    by (auto split: if_splits group_element.splits)
  then have "collect_group_item_ids g = a' @ mid @ b'" using "2.IH" by blast
  then show ?case using g in_group.split_at_ids [of target es g] by simp
qed

lemma rewrite_group_ids:
  assumes "rewrite_group g path start stop replacement items = Inr g'"
  shows "\<exists>a mid b. group_span g path start stop = Some (a, mid, b)
    \<and> collect_group_item_ids g' =
        filter (\<lambda>i. i \<notin> items) a @ ids_of replacement @ filter (\<lambda>i. i \<notin> items) b"
  using assms
proof (induction g path start stop replacement items arbitrary: g' rule: rewrite_group.induct)
  case (1 gid es lay sp vp cp start stop replacement items)
  then show ?case by (auto simp: in_group.rewrite_range_ids split: if_splits)
next
  case (2 gid es lay sp vp cp target path start stop replacement items)
  let ?f = "\<lambda>e. opt_list (prune_group_element items e)"
  from "2.prems" have target: "target < length es" by (auto split: if_splits)
  with "2.prems" obtain child new where child: "es ! target = GGroup child"
    "rewrite_group child path start stop replacement items = Inr new"
    "g' = GroupSpec gid (concat (map ?f (take target es) @ [GGroup new] # map ?f (drop (Suc target) es))) lay sp vp cp"
    using rmap_list_enumerate_at [of 0 target es "\<lambda>e. case e of
          GGroup child \<Rightarrow> rmap (\<lambda>g. [GGroup g]) (rewrite_group child path start stop replacement items)
        | GItem _ \<Rightarrow> Inl PathNotGroup" ?f]
    by (auto split: group_element.splits)
  moreover have "fst (target, es ! target) = target" and "(target, es ! target) \<in> set (enumerate 0 es)"
    using target by (auto simp: in_set_enumerate_eq)
  ultimately obtain a mid b where "group_span child path start stop = Some (a, mid, b)"
    "collect_group_item_ids new = filter (\<lambda>i. i \<notin> items) a @ ids_of replacement @ filter (\<lambda>i. i \<notin> items) b"
    using "2.IH" [of "(target, es ! target)" child new] target by fastforce
  then show ?case using target child by (simp add: in_group.rewrite_at_ids)
qed

lemma rewrite_group_total:
  assumes "group_container g path = Some n" and "start \<le> stop" and "stop \<le> n"
  shows "\<exists>g'. rewrite_group g path start stop replacement items = Inr g'"
  using assms
proof (induction g path rule: group_container.induct)
  case (2 gid es lay sp vp cp target path)
  then obtain child where child: "target < length es" "es ! target = GGroup child" "group_container child path = Some n"
    by (auto split: if_splits group_element.splits)
  then obtain new where "rewrite_group child path start stop replacement items = Inr new"
    using "2.IH" "2.prems" by blast
  then show ?case
    using child rmap_list_enumerate_at [of 0 target es "\<lambda>e. case e of
          GGroup child \<Rightarrow> rmap (\<lambda>g. [GGroup g]) (rewrite_group child path start stop replacement items)
        | GItem _ \<Rightarrow> Inl PathNotGroup" "\<lambda>e. opt_list (prune_group_element items e)"]
    by simp
qed auto

abbreviation bar_ids_of :: "element list \<Rightarrow> item_id list" where
  "bar_ids_of els \<equiv> concat (map collect_item_ids els)"

definition bar_span :: "element list \<Rightarrow> nat list \<Rightarrow> nat \<Rightarrow> nat \<Rightarrow> (item_id list \<times> item_id list \<times> item_id list) option" where
  "bar_span els path start stop =
     (case path of
        [] \<Rightarrow>
          if start \<le> stop \<and> stop \<le> length els
          then Some (bar_ids_of (take start els), bar_ids_of (take (stop - start) (drop start els)), bar_ids_of (drop stop els))
          else None
      | target # path' \<Rightarrow>
          if target < length els
          then (case els ! target of
                  Group g \<Rightarrow> map_option (\<lambda>(a, mid, b). (bar_ids_of (take target els) @ a, mid, b @ bar_ids_of (drop (Suc target) els)))
                    (group_span g path' start stop)
                | _ \<Rightarrow> None)
          else None)"

lemma bar_span_ids:
  assumes "bar_span els path start stop = Some (a, mid, b)"
  shows "bar_ids_of els = a @ mid @ b"
proof (cases path)
  case Nil
  then show ?thesis using assms in_bar.split_range_ids [of start stop els]
    by (auto simp: bar_span_def split: if_splits)
next
  case (Cons target path')
  then obtain g a' b' where g: "target < length els" "els ! target = Group g"
    "group_span g path' start stop = Some (a', mid, b')"
    "a = bar_ids_of (take target els) @ a'" "b = b' @ bar_ids_of (drop (Suc target) els)"
    using assms by (auto simp: bar_span_def split: if_splits element.splits)
  then show ?thesis using in_bar.split_at_ids [of target els g] group_span_ids [OF g(3)] by simp
qed

lemma grouped_ids:
  assumes "rmap_list element_to_group_element els = Inr grouped"
  shows "ids_of grouped = bar_ids_of els"
  using assms
proof (induction els arbitrary: grouped)
  case (Cons e els)
  then show ?case by (cases e) auto
qed simp

lemma grouped_total:
  "list_all is_content els \<Longrightarrow> \<exists>grouped. rmap_list element_to_group_element els = Inr grouped"
proof (induction els)
  case (Cons e els)
  then show ?case by (cases e) auto
qed simp

lemma grouped_error:
  "\<not> list_all is_content els \<Longrightarrow> rmap_list element_to_group_element els = Inl SpaceInGroup"
proof (induction els)
  case (Cons e els)
  then show ?case by (cases e) (auto simp: rbind_eq_Inl rbind_def split: sum.splits)
qed simp

lemma rewrite_bar_ids:
  assumes "rewrite_bar els path start stop replacement items = Inr els'"
  shows "\<exists>a mid b. bar_span els path start stop = Some (a, mid, b)
    \<and> bar_ids_of els' =
        filter (\<lambda>i. i \<notin> items) a @ bar_ids_of replacement @ filter (\<lambda>i. i \<notin> items) b"
proof (cases path)
  case Nil
  then show ?thesis using assms
    by (auto simp: rewrite_bar_def bar_span_def rewrite_top_range_def in_bar.rewrite_range_ids split: if_splits)
next
  case (Cons target path')
  let ?f = "\<lambda>e. opt_list (prune_element items e)"
  from assms Cons obtain grouped where
    grouped: "rmap_list element_to_group_element replacement = Inr grouped" and target: "target < length els"
    by (auto simp: rewrite_bar_def split: if_splits)
  with assms Cons obtain g new where g: "els ! target = Group g"
    "rewrite_group g path' start stop grouped items = Inr new"
    "els' = concat (map ?f (take target els) @ [Group new] # map ?f (drop (Suc target) els))"
    using rmap_list_enumerate_at [of 0 target els "\<lambda>e. case e of
          Group g \<Rightarrow> rmap (\<lambda>g'. [Group g']) (rewrite_group g path' start stop grouped items)
        | _ \<Rightarrow> Inl PathNotGroup" ?f]
    by (auto simp: rewrite_bar_def split: element.splits)
  from rewrite_group_ids [OF g(2)] show ?thesis
    using Cons target g grouped_ids [OF grouped] by (auto simp: bar_span_def in_bar.rewrite_at_ids)
qed

lemma rewrite_bar_total:
  assumes "bar_container els path = Some n" and "start \<le> stop" and "stop \<le> n"
    and "path = [] \<or> list_all is_content replacement"
  shows "\<exists>els'. rewrite_bar els path start stop replacement items = Inr els'"
proof (cases path)
  case Nil
  then show ?thesis using assms by (auto simp: rewrite_bar_def)
next
  case (Cons target path')
  then obtain g grouped where g: "target < length els" "els ! target = Group g" "group_container g path' = Some n"
    and grouped: "rmap_list element_to_group_element replacement = Inr grouped"
    using assms grouped_total by (auto split: if_splits element.splits)
  obtain new where "rewrite_group g path' start stop grouped items = Inr new"
    using rewrite_group_total [OF g(3) assms(2,3)] by blast
  then show ?thesis
    using Cons g grouped rmap_list_enumerate_at [of 0 target els "\<lambda>e. case e of
          Group g \<Rightarrow> rmap (\<lambda>g'. [Group g']) (rewrite_group g path' start stop grouped items)
        | _ \<Rightarrow> Inl PathNotGroup" "\<lambda>e. opt_list (prune_element items e)"]
    by (simp add: rewrite_bar_def)
qed

section \<open>The source is found where it stands\<close>

lemma find_item_in_group_None:
  "find_item_in_group g source path = None \<Longrightarrow> source \<notin> set (collect_group_item_ids g)"
  "find_item_in_elements index es source path = None \<Longrightarrow> source \<notin> set (ids_of es)"
  by (induction g source path and index es source path rule: find_item_in_group_find_item_in_elements.induct)
    (auto split: if_splits option.splits)

lemma find_item_in_group_Some:
  "find_item_in_group g source path = Some (q, i) \<Longrightarrow>
     \<exists>p a b. q = path @ p \<and> group_span g p i (i + 1) = Some (a, [source], b) \<and> source \<notin> set a"
  "find_item_in_elements index es source path = Some (q, i) \<Longrightarrow> index = length pre \<Longrightarrow> source \<notin> set (ids_of pre) \<Longrightarrow>
     \<exists>p a b. q = path @ p
       \<and> group_span (GroupSpec gid (pre @ es) lay sp vp cp) p i (i + 1) = Some (a, [source], b) \<and> source \<notin> set a"
proof (induction g source path and index es source path arbitrary: q i and q i pre gid lay sp vp cp
    rule: find_item_in_group_find_item_in_elements.induct)
  case (1 gid es lay sp vp cp source path)
  from "1.IH" [of q i "[]" gid lay sp vp cp] "1.prems" show ?case by simp
next
  case (3 index it es source path)
  show ?case
  proof (cases "item_id it = source")
    case True
    then show ?thesis using "3.prems" by auto
  next
    case False
    then show ?thesis using "3.IH" [of q i "pre @ [GItem it]" gid lay sp vp cp] "3.prems" by simp
  qed
next
  case (4 index g es source path)
  show ?case
  proof (cases "find_item_in_group g source (path @ [index])")
    case None
    then show ?thesis
      using "4.IH"(2) [of q i "pre @ [GGroup g]" gid lay sp vp cp] "4.prems" find_item_in_group_None(1) [OF None]
      by simp
  next
    case (Some found)
    then have "find_item_in_group g source (path @ [index]) = Some (q, i)" using "4.prems" by simp
    from "4.IH"(1) [OF this] obtain p a b where
      "q = path @ index # p" "group_span g p i (i + 1) = Some (a, [source], b)" "source \<notin> set a"
      by auto
    then show ?thesis using "4.prems" by (intro exI [of _ "index # p"]) auto
  qed
qed simp_all

lemma find_item_container_None: "find_item_container index els source = None \<Longrightarrow> source \<notin> set (bar_ids_of els)"
  by (induction index els source rule: find_item_container.induct)
    (auto split: if_splits option.splits dest: find_item_in_group_None)

lemma find_item_container_Some:
  assumes "find_item_container (length pre) els source = Some (q, i)" and "source \<notin> set (bar_ids_of pre)"
  shows "\<exists>a b. bar_span (pre @ els) q i (i + 1) = Some (a, [source], b) \<and> source \<notin> set a"
  using assms
proof (induction els arbitrary: pre)
  case (Cons e els)
  have skip: ?case
    if "find_item_container (Suc (length pre)) els source = Some (q, i)" "source \<notin> set (collect_item_ids e)"
    using that Cons.IH [of "pre @ [e]"] Cons.prems(2) by simp
  show ?case
  proof (cases e)
    case (Item it)
    then show ?thesis
    proof (cases "item_id it = source")
      case True
      then show ?thesis using Cons.prems Item by (auto simp: bar_span_def)
    qed (use Cons.prems skip in simp)
  next
    case (Group g)
    show ?thesis
    proof (cases "find_item_in_group g source [length pre]")
      case None
      then show ?thesis using skip Cons.prems Group find_item_in_group_None(1) [OF None] by simp
    next
      case (Some found)
      then have "find_item_in_group g source [length pre] = Some (q, i)" using Cons.prems Group by simp
      from find_item_in_group_Some(1) [OF this] obtain p a b where
        "q = length pre # p" "group_span g p i (i + 1) = Some (a, [source], b)" "source \<notin> set a"
        by auto
      then show ?thesis using Cons.prems Group by (auto simp: bar_span_def)
    qed
  qed (use Cons.prems skip in simp_all)
qed simp

lemma bar_span_container:
  "bar_span els path start stop \<noteq> None \<longleftrightarrow>
     (\<exists>n. bar_container els path = Some n \<and> start \<le> stop \<and> stop \<le> n)"
proof -
  have group: "group_span g p start stop \<noteq> None \<longleftrightarrow> (\<exists>n. group_container g p = Some n \<and> start \<le> stop \<and> stop \<le> n)"
    for g p
    by (induction g p rule: group_container.induct) (auto split: group_element.splits)
  show ?thesis
    by (cases path) (auto simp: bar_span_def group simp del: not_None_eq split: element.splits)
qed

end
