(* ===== verification/Presentation_Correct.thy ===== *)
theory Presentation_Correct
  imports Presentation
begin

text \<open>
  What a presentation does to the bar: the items it shows take the place of the source item or of the
  slot, every other item keeps its place, and no surface is placed twice. Popovers are placed inside the
  bar when the item's minimum fits it.
\<close>

section \<open>A bar of one item\<close>

lemma one_item_steps:
  assumes "item_ok it"
  shows "visibility_units \<lparr>bar_elements = [Item it], principal_item = None\<rparr> [] = Inr [\<lparr>vu_group = visibility_group it,
            vu_elements = [0], vu_priority = item_visibility_priority it, vu_trailing = 0, vu_required = False\<rparr>]"
   "validate_bar \<lparr>bar_elements = [Item it], principal_item = None\<rparr> [] = Inr ()"
  using assms
  by (simp_all add: visibility_units_def find_unit_def validate_bar_def validate_item_def item_ok_def split: option.splits)

lemma one_item_flexible: "distribute_flexible_space \<lparr>bar_elements = [Item it], principal_item = None\<rparr> ws [0..<Suc 0] extra = Some ws"
  by (simp add: distribute_flexible_space_def flexible_spaces_def Let_def)

lemma one_item_compress:
  "mn \<le> w \<Longrightarrow> mn \<le> avail \<Longrightarrow> compress_to_fit \<lparr>bar_elements = [Item it], principal_item = None\<rparr> [True] [\<lparr>minimum = mn, preferred = w, maximum = mx\<rparr>] [w] avail
  = Some [min w avail]"
  by (auto simp: compress_to_fit_def compression_candidates_def Let_def min_def passert_def)

lemma one_item_layout:
  assumes "item_ok it" "avail \<le> u32_max" 
  shows "resolve \<lparr>bar_elements = [Item it], principal_item = None\<rparr> avail [] =
   Some (Inr (if min_width it \<le> avail then \<lparr>placements = [\<lparr>pl_id = item_id it, pl_x = 0, pl_width = min (preferred_width it) avail\<rparr>], hidden_items = [],
      content_width = min (preferred_width it) avail\<rparr> else \<lparr>placements = [], hidden_items = [item_id it], content_width = 0\<rparr>))"
proof (cases "min_width it \<le> avail")
  case True
  moreover have "min_width it \<le> preferred_width it" using assms(1) by (simp add: item_ok_def)
  ultimately show ?thesis using assms
  by (simp add: resolve_def one_item_steps item_sizing_def total_width_def unit_order_def find_principal_def one_item_compress one_item_flexible place_element_def
    place_item_def u32_try_from_def pinned_def Let_def min_def del: upt_Suc)
next
  case False
  then show ?thesis using assms
  by (simp add: resolve_def one_item_steps item_sizing_def total_width_def unit_order_def find_principal_def compress_to_fit_def compression_candidates_def one_item_flexible place_element_def
    place_item_def u32_try_from_def pinned_def Let_def min_def del: upt_Suc)
qed
section \<open>Presented bars\<close>

lemma spliced_distinct:
  assumes "distinct (a @ mid @ b)" and "distinct c"
  shows "distinct (filter (\<lambda>i. i \<notin> set c) a @ c @ filter (\<lambda>i. i \<notin> set c) b)"
  using assms by auto

lemma presented_principal:
  assumes "\<And>p. principal_item content = Some p \<Longrightarrow> p \<in> set (bar_item_ids content)"
    and "set (bar_item_ids content) \<subseteq> set (bar_ids_of els)"
    and "principal_item (presented_bar compact content els) = Some p"
  shows "p \<in> set (bar_item_ids (presented_bar compact content els))"
  using assms
  by (auto simp: presented_bar_def bar_item_ids_def item_ids_from_elements_def split: option.splits if_splits)

lemma presented_ids: "bar_item_ids (presented_bar compact content els) = bar_ids_of els"
  by (simp add: presented_bar_def bar_item_ids_def)

lemma content_items: "item_ids_from_elements (bar_elements bar) = set (bar_item_ids bar)"
  by (simp add: item_ids_from_elements_def bar_item_ids_def)

text \<open>The bar that shows \<open>content\<close> in the place of the items \<open>mid\<close>: the items of the content stand
  together, those before and after keep their order, none is repeated, and the principal item is in
  the bar.\<close>

definition splices :: "bar_spec \<Rightarrow> item_id list \<Rightarrow> item_id list \<Rightarrow> bar_spec \<Rightarrow> item_id list \<Rightarrow> bar_spec \<Rightarrow> bool" where
  "splices compact a mid content b bar \<longleftrightarrow>
     bar_item_ids compact = a @ mid @ b
     \<and> bar_item_ids bar =
         filter (\<lambda>i. i \<notin> set (bar_item_ids content)) a @ bar_item_ids content
         @ filter (\<lambda>i. i \<notin> set (bar_item_ids content)) b
     \<and> (\<forall>p. principal_item bar = Some p \<longrightarrow> p \<in> set (bar_item_ids bar))"

lemma splices_distinct:
  assumes "splices compact a mid content b bar" and "distinct (bar_item_ids compact)"
    and "distinct (bar_item_ids content)"
  shows "distinct (bar_item_ids bar)"
  using assms spliced_distinct [of a mid b "bar_item_ids content"] by (simp add: splices_def)

lemma rewritten_splices:
  assumes "rewrite_bar (bar_elements compact) path start stop (bar_elements content)
      (item_ids_from_elements (bar_elements content)) = Inr els"
    and "\<And>p. principal_item content = Some p \<Longrightarrow> p \<in> set (bar_item_ids content)"
  shows "\<exists>a mid b. bar_span (bar_elements compact) path start stop = Some (a, mid, b)
    \<and> splices compact a mid content b (presented_bar compact content els)"
proof -
  obtain a mid b where span: "bar_span (bar_elements compact) path start stop = Some (a, mid, b)"
    and ids: "bar_ids_of els = filter (\<lambda>i. i \<notin> set (bar_item_ids content)) a @ bar_item_ids content
      @ filter (\<lambda>i. i \<notin> set (bar_item_ids content)) b"
    using rewrite_bar_ids [OF assms(1)] by (auto simp: content_items) (auto simp: bar_item_ids_def)
  have "\<forall>p. principal_item (presented_bar compact content els) = Some p \<longrightarrow>
      p \<in> set (bar_item_ids (presented_bar compact content els))"
    using presented_principal [OF assms(2)] ids by (metis le_supI1 le_supI2 set_append subset_refl)
  then show ?thesis
    using span ids bar_span_ids [OF span]
    by (auto simp: splices_def presented_ids) (auto simp: bar_item_ids_def)
qed

lemma found_container:
  assumes "find_item_container 0 els source = Some (path, i)"
  shows "\<exists>a b. bar_span els path i (i + 1) = Some (a, [source], b) \<and> source \<notin> set a"
    and "\<exists>n. bar_container els path = Some n \<and> i + 1 \<le> n"
proof -
  show *: "\<exists>a b. bar_span els path i (i + 1) = Some (a, [source], b) \<and> source \<notin> set a"
    using find_item_container_Some [of "[]" els source path i] assms by simp
  then have "bar_span els path i (i + 1) \<noteq> None" by auto
  then show "\<exists>n. bar_container els path = Some n \<and> i + 1 \<le> n"
    unfolding bar_span_container by blast
qed

lemma grouped_source:
  assumes "find_item_container 0 els source = Some (target # path, i)"
  shows "\<exists>g. Group g \<in> set els \<and> source \<in> set (collect_group_item_ids g)"
proof -
  obtain a b where "bar_span els (target # path) i (i + 1) = Some (a, [source], b)"
    using found_container(1) [OF assms] by blast
  then obtain g a' b' where g: "target < length els" "els ! target = Group g"
    "group_span g path i (i + 1) = Some (a', [source], b')"
    by (auto simp: bar_span_def split: if_splits element.splits)
  then have "Group g \<in> set els" by (metis nth_mem)
  then show ?thesis using group_span_ids [OF g(3)] by auto
qed

lemma rewrite_bar_error:
  assumes "rewrite_bar els path start stop replacement items = Inl e"
    and "bar_container els path = Some n" and "start \<le> stop" and "stop \<le> n"
  shows "e = SpaceInGroup \<and> path \<noteq> [] \<and> \<not> list_all is_content replacement"
proof -
  have *: "path \<noteq> []" "\<not> list_all is_content replacement"
    using rewrite_bar_total [OF assms(2-4)] assms(1) by (metis Inl_Inr_False)+
  then show ?thesis
    using assms(1) grouped_error [of replacement] by (auto simp: rewrite_bar_def split: list.splits)
qed

lemma in_place_splices:
  assumes "in_place_content_bar compact source content = Inr bar"
    and "\<And>p. principal_item content = Some p \<Longrightarrow> p \<in> set (bar_item_ids content)"
  shows "\<exists>a b. splices compact a [source] content b bar"
proof -
  obtain path i els where found: "find_item_container 0 (bar_elements compact) source = Some (path, i)"
    and els: "rewrite_bar (bar_elements compact) path i (i + 1) (bar_elements content)
      (item_ids_from_elements (bar_elements content)) = Inr els"
    and bar: "bar = presented_bar compact content els"
    using assms(1) by (auto simp: in_place_content_bar_def)
  show ?thesis
    using rewritten_splices [OF els assms(2)] found_container(1) [OF found] unfolding bar by fastforce
qed

section \<open>Properties\<close>

text \<open>(C36) Presenting content in place of a source item succeeds unless the source is not in the bar,
  or it stands in a group and the content has a space at its top level; then the content's items
  stand together where the source stood, the other items keep their order, and no surface appears
  twice.\<close>

theorem in_place_exact:
  assumes "distinct (bar_item_ids compact)" and "distinct (bar_item_ids content)"
    and "\<And>p. principal_item content = Some p \<Longrightarrow> p \<in> set (bar_item_ids content)"
  shows "case in_place_content_bar compact source content of
      Inr bar \<Rightarrow> distinct (bar_item_ids bar) \<and> (\<exists>a b. splices compact a [source] content b bar)
    | Inl e \<Rightarrow>
        e = SourceNotActive \<and> source \<notin> set (bar_item_ids compact)
        \<or> e = SpaceInGroup \<and> \<not> list_all is_content (bar_elements content)
          \<and> (\<exists>g. Group g \<in> set (bar_elements compact) \<and> source \<in> set (collect_group_item_ids g))"
proof (cases "find_item_container 0 (bar_elements compact) source")
  case None
  then show ?thesis
    using find_item_container_None [OF None] by (simp add: in_place_content_bar_def bar_item_ids_def)
next
  case (Some found)
  obtain path i where found: "find_item_container 0 (bar_elements compact) source = Some (path, i)"
    using Some by (cases found) simp
  obtain n where n: "bar_container (bar_elements compact) path = Some n" "i \<le> i + 1" "i + 1 \<le> n"
    using found_container(2) [OF found] by auto
  let ?r = "rewrite_bar (bar_elements compact) path i (i + 1) (bar_elements content)
      (item_ids_from_elements (bar_elements content))"
  have eq: "in_place_content_bar compact source content = rmap (presented_bar compact content) ?r"
    using found by (simp add: in_place_content_bar_def)
  show ?thesis
  proof (cases ?r)
    case (Inl e)
    then have e: "e = SpaceInGroup" "path \<noteq> []" "\<not> list_all is_content (bar_elements content)"
      using rewrite_bar_error [OF Inl n] by simp_all
    then have "\<exists>g. Group g \<in> set (bar_elements compact) \<and> source \<in> set (collect_group_item_ids g)"
      using found grouped_source by (auto simp: neq_Nil_conv)
    moreover have "in_place_content_bar compact source content = Inl e" using eq Inl by simp
    ultimately show ?thesis using e by simp
  next
    case (Inr els)
    then have *: "in_place_content_bar compact source content = Inr (presented_bar compact content els)"
      using eq by simp
    then obtain a b where "splices compact a [source] content b (presented_bar compact content els)"
      using in_place_splices [OF _ assms(3)] by blast
    then show ?thesis using * splices_distinct [OF _ assms(1,2)] by auto
  qed
qed

definition compact_demo :: bar_spec where
  "compact_demo =
     \<lparr>bar_elements =
        [Item (new_item ''left'' 40 80 120), FlexibleSpace 8 1,
         Group (GroupSpec ''tray'' [GItem (new_item ''source'' 40 80 120), GItem (new_item ''status'' 40 80 120)]
           Natural 4 0 0)],
      principal_item = Some ''source''\<rparr>"

definition content_demo :: bar_spec where
  "content_demo =
     \<lparr>bar_elements = [Item (new_item ''status'' 60 90 200), Item (new_item ''extra'' 60 90 200)],
      principal_item = None\<rparr>"

theorem in_place_exact_witness:
  "\<exists>bar. in_place_content_bar compact_demo ''source'' content_demo = Inr bar
    \<and> distinct (bar_item_ids bar) \<and> bar_item_ids bar = [''left'', ''status'', ''extra'']"
proof -
  have "case in_place_content_bar compact_demo ''source'' content_demo of
      Inr bar \<Rightarrow> bar_item_ids bar = [''left'', ''status'', ''extra''] | Inl _ \<Rightarrow> False"
    by code_simp
  moreover have "distinct (bar_item_ids compact_demo)" "distinct (bar_item_ids content_demo)"
    by code_simp+
  ultimately show ?thesis
    using in_place_exact [of compact_demo content_demo "''source''"]
    by (cases "in_place_content_bar compact_demo ''source'' content_demo") (auto simp: content_demo_def)
qed

text \<open>Every slot of a composed profile can be replaced by content without top-level spaces: the
  content stands where the slot's items stood, and no surface appears twice.\<close>

theorem slot_presentation:
  assumes "registry_ok reg" and "profile_compose cat reg pid ctx = Some (Inr pc)"
    and "s \<in> set (pcomp_slots pc)" and "list_all is_content (bar_elements content)"
    and "distinct (bar_item_ids content)"
    and "\<And>p. principal_item content = Some p \<Longrightarrow> p \<in> set (bar_item_ids content)"
  shows "\<exists>bar a mid b. slot_content_bar (pcomp_bar pc) (pcomp_slots pc) (cslot_id s) content = Inr bar
    \<and> splices (pcomp_bar pc) a mid content b bar \<and> distinct (bar_item_ids bar)"
proof -
  obtain t where t: "find (\<lambda>t. cslot_id t = cslot_id s) (pcomp_slots pc) = Some t"
    using assms(3) by (cases "find (\<lambda>t. cslot_id t = cslot_id s) (pcomp_slots pc)") (auto simp: find_None_iff)
  then have "t \<in> set (pcomp_slots pc)" using find_SomeD by fast
  then have "slot_ok (bar_elements (pcomp_bar pc)) t" and dist: "distinct (bar_item_ids (pcomp_bar pc))"
    using composition_well_formed [OF assms(1,2)] by blast+
  then obtain els where els: "rewrite_bar (bar_elements (pcomp_bar pc)) (cslot_path t) (cslot_start t)
      (cslot_end t) (bar_elements content) (item_ids_from_elements (bar_elements content)) = Inr els"
    using rewrite_bar_total assms(4) unfolding slot_ok_def by metis
  obtain a mid b where sp: "splices (pcomp_bar pc) a mid content b (presented_bar (pcomp_bar pc) content els)"
    using rewritten_splices [OF els assms(6)] by blast
  have "slot_content_bar (pcomp_bar pc) (pcomp_slots pc) (cslot_id s) content
      = Inr (presented_bar (pcomp_bar pc) content els)"
    using t els by (simp add: slot_content_bar_def)
  then show ?thesis using sp splices_distinct [OF sp dist assms(5)] by blast
qed

theorem slot_presentation_witness:
  "\<exists>bar. slot_content_bar (pcomp_bar demo_profile_composition) (pcomp_slots demo_profile_composition)
      ''right'' content_demo = Inr bar
    \<and> distinct (bar_item_ids bar)"
proof -
  have "\<lparr>cslot_id = ''right'', cslot_path = [2, 0], cslot_start = 0, cslot_end = 1\<rparr>
      \<in> set (pcomp_slots demo_profile_composition)"
    by code_simp
  moreover have "list_all is_content (bar_elements content_demo)" "distinct (bar_item_ids content_demo)"
    by code_simp+
  ultimately show ?thesis
    using slot_presentation [OF demo_registry_ok demo_profile_compose, where content = content_demo]
    by (force simp: content_demo_def)
qed

text \<open>(C38) A popover of a valid item is placed at the width the item prefers, cut to the bar, centred on
  its anchor and pushed inside the bar; the code panics exactly when the item's minimum is wider than
  the bar.\<close>

theorem popover_exact:
  assumes "item_ok it" and "available_width \<le> u32_max"
  shows "resolve_popover a it available_width =
    (if min_width it \<le> available_width
     then let w = min (preferred_width it) available_width in
       Some (Inr \<lparr>pl_id = item_id it,
         pl_x = min (min (anchor_x a + anchor_width a div 2) u32_max - w div 2) (available_width - w),
         pl_width = w\<rparr>)
     else None)"
  using assms by (simp add: resolve_popover_def one_item_layout Let_def)

theorem popover_exact_witness:
  "resolve_popover \<lparr>anchor_x = 400, anchor_width = 80\<rparr> (new_item ''x'' 200 360 500) 1004
     = Some (Inr \<lparr>pl_id = ''x'', pl_x = 260, pl_width = 360\<rparr>)
   \<and> resolve_popover \<lparr>anchor_x = 400, anchor_width = 80\<rparr> (new_item ''x'' 1005 1100 1200) 1004 = None"
  using popover_exact [of "new_item ''x'' 200 360 500" 1004 "\<lparr>anchor_x = 400, anchor_width = 80\<rparr>"]
    popover_exact [of "new_item ''x'' 1005 1100 1200" 1004 "\<lparr>anchor_x = 400, anchor_width = 80\<rparr>"]
  by (simp add: new_item_def item_ok_def u32_max_def)

text \<open>A popover narrower than its anchor starts to the right of it, so the difference
  \<^verbatim>\<open>compact.x - placement.x\<close> that the session daemon sends to the client is negative.\<close>

lemma popover_right_of_anchor:
  "resolve_popover \<lparr>anchor_x = 100, anchor_width = 200\<rparr> (new_item ''x'' 20 60 500) 1004
     = Some (Inr \<lparr>pl_id = ''x'', pl_x = 170, pl_width = 60\<rparr>)"
  by code_simp

text \<open>The full-bar presentation gives the whole bar to its surface.\<close>

lemma full_bar_ids: "bar_item_ids (full_bar source w) = [source]"
  by (simp add: full_bar_def bar_item_ids_def new_item_def)

end
