(* ===== verification/Broker_Types.thy ===== *)
theory Broker_Types
  imports Rust_Strings
begin

text \<open>
  The vocabulary of \<^verbatim>\<open>touchbar-protocol/src/broker_ipc.rs\<close> that the supervisor shares
  with its component hosts: callback phases, activation envelopes, error codes, results and
  the messages in both directions.  Strings are UTF-8 byte strings, payloads byte lists.
\<close>

datatype callback_phase = PhItems | PhRender | PhInput | PhHostEvent | PhLifecycle

datatype activation_origin = Physical | TrustedControl | Synthetic

record activation_context =
  ac_origin :: activation_origin
  ac_surface_instance :: nat
  ac_item_id :: string
  ac_widget_id :: nat
  ac_input_sequence :: nat
  ac_deadline_monotonic_micros :: nat

datatype wire_capability_status =
  WGranted | WDenied | WNeedsConsent | WUnsupported | WDisclosureOnly

record capability_state =
  cs_capability :: string
  cs_required :: bool
  cs_status :: wire_capability_status

datatype broker_error_code =
    Unavailable | Denied | OutOfScope | InvalidRequest | InvalidPhase | ActivationRequired
  | QuotaExceeded | RateLimited | Timeout | Cancelled | Unsupported | BackendFailed | Internal

datatype broker_result = Success "char list" | Error broker_error_code

datatype host_message =
    GetCapabilities nat
  | Request nat callback_phase string string "char list" "activation_context option"
  | Cancel nat nat
  | Close nat nat

fun host_request_id :: "host_message \<Rightarrow> nat" where
  "host_request_id (GetCapabilities i) = i"
| "host_request_id (Request i _ _ _ _ _) = i"
| "host_request_id (Cancel i _) = i"
| "host_request_id (Close i _) = i"

datatype supervisor_message =
    Capabilities nat nat "capability_state list"
  | Response nat broker_result
  | CapabilityChanged nat capability_state
  | Shutdown nat broker_error_code
  | Overflow nat nat
  | ResourceEvent nat nat broker_result

end
