(* ===== verification/Activation.thy ===== *)
theory Activation
  imports Broker_Types
begin

text \<open>
  \<^verbatim>\<open>touchbar-plugin-supervisor/src/activation.rs\<close>: the ledger that lets a physical or
  trusted activation authorise at most one privileged operation.  The consumed input
  sequences are a finite set; \<open>ledger_run\<close> is a connection's sequence of \<^verbatim>\<open>consume\<close> calls
  and collects the sequences that were accepted.
\<close>

record activation_expectation =
  ae_surface_instance :: nat
  ae_item_id :: string
  ae_widget_id :: nat
  ae_now_monotonic_micros :: nat

record activation_ledger =
  consumed_sequences :: "nat set"
  maximum_consumed_sequences :: nat

definition ledger_new :: "nat \<Rightarrow> activation_ledger" where
  "ledger_new m = \<lparr>consumed_sequences = {}, maximum_consumed_sequences = m\<rparr>"

definition consume :: "activation_context option \<Rightarrow> activation_expectation \<Rightarrow> activation_ledger
    \<Rightarrow> (broker_error_code, activation_origin) result \<times> activation_ledger" where
  "consume activation expected l =
     (case activation of
        None \<Rightarrow> (Inl ActivationRequired, l)
      | Some a \<Rightarrow>
          if ac_origin a = Synthetic
           \<or> ac_surface_instance a \<noteq> ae_surface_instance expected
           \<or> ac_item_id a \<noteq> ae_item_id expected
           \<or> ac_widget_id a \<noteq> ae_widget_id expected
           \<or> ac_deadline_monotonic_micros a < ae_now_monotonic_micros expected
           \<or> ac_input_sequence a = 0
           \<or> ac_input_sequence a \<in> consumed_sequences l
          then (Inl ActivationRequired, l)
          else if maximum_consumed_sequences l \<le> card (consumed_sequences l)
          then (Inl QuotaExceeded, l)
          else (Inr (ac_origin a),
                l\<lparr>consumed_sequences := insert (ac_input_sequence a) (consumed_sequences l)\<rparr>))"

definition ledger_clear :: "activation_ledger \<Rightarrow> activation_ledger" where
  "ledger_clear l = l\<lparr>consumed_sequences := {}\<rparr>"

fun ledger_run :: "(activation_context option \<times> activation_expectation) list \<Rightarrow> activation_ledger
    \<Rightarrow> nat list \<times> activation_ledger" where
  "ledger_run [] l = ([], l)"
| "ledger_run ((a, e) # calls) l =
     (case consume a e l of
        (Inl _, l') \<Rightarrow> ledger_run calls l'
      | (Inr _, l') \<Rightarrow>
          (let (accepted, l'') = ledger_run calls l'
           in ((case a of Some c \<Rightarrow> [ac_input_sequence c] | None \<Rightarrow> []) @ accepted, l'')))"

definition ledger_ok :: "activation_ledger \<Rightarrow> bool" where
  "ledger_ok l \<longleftrightarrow> finite (consumed_sequences l)
     \<and> card (consumed_sequences l) \<le> maximum_consumed_sequences l \<and> 0 \<notin> consumed_sequences l"

lemma consume_Inl_state: "consume a e l = (Inl err, l') \<Longrightarrow> l' = l"
  by (auto simp: consume_def split: option.splits if_splits)

lemma consume_Inr:
  assumes "consume a e l = (Inr orig, l')"
  obtains c where "a = Some c" and "orig = ac_origin c" and "ac_origin c \<noteq> Synthetic"
    and "ac_input_sequence c \<notin> consumed_sequences l" and "ac_input_sequence c \<noteq> 0"
    and "ac_surface_instance c = ae_surface_instance e" and "ac_item_id c = ae_item_id e"
    and "ac_widget_id c = ae_widget_id e"
    and "ae_now_monotonic_micros e \<le> ac_deadline_monotonic_micros c"
    and "card (consumed_sequences l) < maximum_consumed_sequences l"
    and "l' = l\<lparr>consumed_sequences := insert (ac_input_sequence c) (consumed_sequences l)\<rparr>"
  using assms by (auto simp: consume_def split: option.splits if_splits)

lemma consume_ok [invar_intro]: "ledger_ok l \<Longrightarrow> ledger_ok (snd (consume a e l))"
  by (auto simp: consume_def ledger_ok_def card_insert_if split: option.splits)

lemma ledger_run_accepted:
  assumes "ledger_ok l" and "ledger_run calls l = (accepted, l')"
  shows "ledger_ok l' \<and> distinct accepted \<and> set accepted \<inter> consumed_sequences l = {}
    \<and> consumed_sequences l' = consumed_sequences l \<union> set accepted
    \<and> maximum_consumed_sequences l' = maximum_consumed_sequences l"
  using assms
proof (induction calls l arbitrary: accepted l' rule: ledger_run.induct)
  case (1 l)
  then show ?case by simp
next
  case (2 a e calls l)
  obtain r m where rm: "consume a e l = (r, m)" by fastforce
  show ?case
  proof (cases r)
    case (Inl err)
    have m: "m = l" using rm Inl by (auto dest: consume_Inl_state)
    have "ledger_run calls m = (accepted, l')" using 2(4) rm Inl by simp
    with 2(1) [OF rm [symmetric] Inl] 2(3) show ?thesis unfolding m by blast
  next
    case (Inr orig)
    with rm obtain c where c: "a = Some c" "ac_input_sequence c \<notin> consumed_sequences l"
      and m: "m = l\<lparr>consumed_sequences := insert (ac_input_sequence c) (consumed_sequences l)\<rparr>"
      by (auto elim: consume_Inr)
    obtain acc where acc: "ledger_run calls m = (acc, l')" "accepted = ac_input_sequence c # acc"
      using 2(4) rm Inr c by (auto split: prod.splits)
    have "ledger_ok m" using consume_ok [OF 2(3), of a e] rm by simp
    from 2(2) [OF rm [symmetric] Inr this acc(1)]
    have IH: "ledger_ok l'" "distinct acc" "set acc \<inter> consumed_sequences m = {}"
      "consumed_sequences l' = consumed_sequences m \<union> set acc"
      "maximum_consumed_sequences l' = maximum_consumed_sequences m" by blast+
    then show ?thesis unfolding acc(2) m using c(2) by auto
  qed
qed

section \<open>Properties\<close>

text \<open>Replay protection: over any sequence of \<^verbatim>\<open>consume\<close> calls on a fresh ledger, no
  input sequence authorises two operations, none is zero, and at most the configured number
  of activations is ever accepted.\<close>

theorem activation_no_replay:
  assumes "ledger_run calls (ledger_new m) = (accepted, l')"
  shows "distinct accepted \<and> 0 \<notin> set accepted \<and> length accepted \<le> m"
proof -
  have "ledger_ok (ledger_new m)" by (simp add: ledger_ok_def ledger_new_def)
  from ledger_run_accepted [OF this assms]
  have "ledger_ok l'" "distinct accepted" "consumed_sequences l' = set accepted"
    "maximum_consumed_sequences l' = m"
    by (simp_all add: ledger_new_def)
  then show ?thesis
    by (auto simp: ledger_ok_def distinct_card)
qed

theorem activation_no_replay_witness:
  "ledger_run
     [(Some \<lparr>ac_origin = Physical, ac_surface_instance = 1, ac_item_id = ''main'', ac_widget_id = 2,
             ac_input_sequence = 9, ac_deadline_monotonic_micros = 100\<rparr>,
       \<lparr>ae_surface_instance = 1, ae_item_id = ''main'', ae_widget_id = 2, ae_now_monotonic_micros = 50\<rparr>),
      (Some \<lparr>ac_origin = Physical, ac_surface_instance = 1, ac_item_id = ''main'', ac_widget_id = 2,
             ac_input_sequence = 9, ac_deadline_monotonic_micros = 100\<rparr>,
       \<lparr>ae_surface_instance = 1, ae_item_id = ''main'', ae_widget_id = 2, ae_now_monotonic_micros = 60\<rparr>)]
     (ledger_new 4) = ([9], \<lparr>consumed_sequences = {9}, maximum_consumed_sequences = 4\<rparr>)
   \<and> distinct [9::nat] \<and> 0 \<notin> set [9::nat] \<and> length [9::nat] \<le> 4"
proof -
  have r: "ledger_run
     [(Some \<lparr>ac_origin = Physical, ac_surface_instance = 1, ac_item_id = ''main'', ac_widget_id = 2,
             ac_input_sequence = 9, ac_deadline_monotonic_micros = 100\<rparr>,
       \<lparr>ae_surface_instance = 1, ae_item_id = ''main'', ae_widget_id = 2, ae_now_monotonic_micros = 50\<rparr>),
      (Some \<lparr>ac_origin = Physical, ac_surface_instance = 1, ac_item_id = ''main'', ac_widget_id = 2,
             ac_input_sequence = 9, ac_deadline_monotonic_micros = 100\<rparr>,
       \<lparr>ae_surface_instance = 1, ae_item_id = ''main'', ae_widget_id = 2, ae_now_monotonic_micros = 60\<rparr>)]
     (ledger_new 4) = ([9], \<lparr>consumed_sequences = {9}, maximum_consumed_sequences = 4\<rparr>)"
    by (simp add: consume_def ledger_new_def)
  show ?thesis using r activation_no_replay [OF r] by simp
qed

text \<open>An activation is accepted only when it is not synthetic, matches the expected
  surface, item and widget exactly and has not expired; the reported origin is the real one.\<close>

theorem activation_accepts_only_matching:
  assumes "consume a e l = (Inr orig, l')"
  shows "\<exists>c. a = Some c \<and> orig = ac_origin c \<and> orig \<noteq> Synthetic
    \<and> ac_surface_instance c = ae_surface_instance e \<and> ac_item_id c = ae_item_id e
    \<and> ac_widget_id c = ae_widget_id e
    \<and> ae_now_monotonic_micros e \<le> ac_deadline_monotonic_micros c
    \<and> ac_input_sequence c \<in> consumed_sequences l' - consumed_sequences l"
  using assms by (auto elim!: consume_Inr)

theorem activation_accepts_only_matching_witness:
  "fst (consume (Some \<lparr>ac_origin = TrustedControl, ac_surface_instance = 1, ac_item_id = ''main'',
       ac_widget_id = 2, ac_input_sequence = 9, ac_deadline_monotonic_micros = 100\<rparr>)
     \<lparr>ae_surface_instance = 1, ae_item_id = ''main'', ae_widget_id = 2, ae_now_monotonic_micros = 50\<rparr>
     (ledger_new 4)) = Inr TrustedControl \<and> TrustedControl \<noteq> Synthetic"
proof -
  have r: "consume (Some \<lparr>ac_origin = TrustedControl, ac_surface_instance = 1, ac_item_id = ''main'',
       ac_widget_id = 2, ac_input_sequence = 9, ac_deadline_monotonic_micros = 100\<rparr>)
     \<lparr>ae_surface_instance = 1, ae_item_id = ''main'', ae_widget_id = 2, ae_now_monotonic_micros = 50\<rparr>
     (ledger_new 4) = (Inr TrustedControl, \<lparr>consumed_sequences = {9}, maximum_consumed_sequences = 4\<rparr>)"
    by (simp add: consume_def ledger_new_def)
  show ?thesis using r activation_accepts_only_matching [OF r] by auto
qed

end
