(* ===== verification/Capability_Id.thy ===== *)
theory Capability_Id
  imports Rust_Strings
begin

text \<open>
  Capability identifiers of \<^verbatim>\<open>touchbar-policy/src/capability.rs\<close>: the enumeration, its
  textual form (\<^verbatim>\<open>Display\<close>, \<^verbatim>\<open>FromStr\<close>) and the registry of capabilities a broker
  supports.
\<close>

datatype capability_id =
    ContextReadV1 | FilesystemReadV1 | FilesystemWriteV1 | HttpRequestV1 | DbusCallV1
  | DbusSubscribeV1 | CommandRunV1 | ClipboardReadV1 | ClipboardWriteV1 | SecretReadV1
  | NotificationSendV1 | UriOpenV1 | LocalConnectV1 | AppearanceProvideV1
  | Unknown string

definition is_known :: "capability_id \<Rightarrow> bool" where
  "is_known c \<longleftrightarrow> (case c of Unknown _ \<Rightarrow> False | _ \<Rightarrow> True)"

fun capability_to_string :: "capability_id \<Rightarrow> string" where
  "capability_to_string ContextReadV1 = ''context.read.v1''"
| "capability_to_string FilesystemReadV1 = ''filesystem.read.v1''"
| "capability_to_string FilesystemWriteV1 = ''filesystem.write.v1''"
| "capability_to_string HttpRequestV1 = ''http.request.v1''"
| "capability_to_string DbusCallV1 = ''dbus.call.v1''"
| "capability_to_string DbusSubscribeV1 = ''dbus.subscribe.v1''"
| "capability_to_string CommandRunV1 = ''command.run.v1''"
| "capability_to_string ClipboardReadV1 = ''clipboard.read.v1''"
| "capability_to_string ClipboardWriteV1 = ''clipboard.write.v1''"
| "capability_to_string SecretReadV1 = ''secret.read.v1''"
| "capability_to_string NotificationSendV1 = ''notification.send.v1''"
| "capability_to_string UriOpenV1 = ''uri.open.v1''"
| "capability_to_string LocalConnectV1 = ''local.connect.v1''"
| "capability_to_string AppearanceProvideV1 = ''appearance.provide.v1''"
| "capability_to_string (Unknown value) = value"

fun has_double_dash :: "string \<Rightarrow> bool" where
  "has_double_dash (a # b # cs) = (a = CHR ''-'' \<and> b = CHR ''-'' \<or> has_double_dash (b # cs))"
| "has_double_dash _ = False"

definition valid_kebab_id :: "string \<Rightarrow> bool" where
  "valid_kebab_id v \<longleftrightarrow>
     v \<noteq> [] \<and> length v \<le> 64 \<and> is_ascii_lowercase (hd v)
   \<and> hd v \<noteq> CHR ''-'' \<and> last v \<noteq> CHR ''-'' \<and> \<not> has_double_dash v
   \<and> list_all (\<lambda>b. is_ascii_lowercase b \<or> is_ascii_digit b \<or> b = CHR ''-'') v"

definition valid_dotted_id :: "string \<Rightarrow> bool" where
  "valid_dotted_id v \<longleftrightarrow>
     length v \<le> 128 \<and> list_all valid_kebab_id (str_split CHR ''.'' v) \<and> CHR ''.'' \<in> set v"

definition capability_from_str :: "string \<Rightarrow> (string, capability_id) result" where
  "capability_from_str v =
     (if v = ''context.read.v1'' then Inr ContextReadV1
      else if v = ''filesystem.read.v1'' then Inr FilesystemReadV1
      else if v = ''filesystem.write.v1'' then Inr FilesystemWriteV1
      else if v = ''http.request.v1'' then Inr HttpRequestV1
      else if v = ''dbus.call.v1'' then Inr DbusCallV1
      else if v = ''dbus.subscribe.v1'' then Inr DbusSubscribeV1
      else if v = ''command.run.v1'' then Inr CommandRunV1
      else if v = ''clipboard.read.v1'' then Inr ClipboardReadV1
      else if v = ''clipboard.write.v1'' then Inr ClipboardWriteV1
      else if v = ''secret.read.v1'' then Inr SecretReadV1
      else if v = ''notification.send.v1'' then Inr NotificationSendV1
      else if v = ''uri.open.v1'' then Inr UriOpenV1
      else if v = ''local.connect.v1'' then Inr LocalConnectV1
      else if v = ''appearance.provide.v1'' then Inr AppearanceProvideV1
      else if valid_dotted_id v then Inr (Unknown v)
      else Inl ''capability must be a lowercase dotted identifier'')"

definition registry_v1 :: "capability_id set" where
  "registry_v1 = {ContextReadV1, FilesystemReadV1, FilesystemWriteV1, HttpRequestV1, DbusCallV1,
     DbusSubscribeV1, CommandRunV1, ClipboardReadV1, ClipboardWriteV1, SecretReadV1,
     NotificationSendV1, UriOpenV1, LocalConnectV1, AppearanceProvideV1}"

definition registry_supports :: "capability_id set \<Rightarrow> capability_id \<Rightarrow> bool" where
  "registry_supports r c \<longleftrightarrow> is_known c \<and> c \<in> r"

text \<open>The identifiers the parser can produce: an unknown capability never has a known name.\<close>

definition parsed_capability :: "capability_id \<Rightarrow> bool" where
  "parsed_capability c \<longleftrightarrow> capability_from_str (capability_to_string c) = Inr c"

lemma capability_from_str_known:
  "is_known c \<Longrightarrow> capability_from_str (capability_to_string c) = Inr c"
  by (cases c) (simp_all add: is_known_def capability_from_str_def)

lemma capability_from_str_to_string:
  "capability_from_str v = Inr c \<Longrightarrow> capability_to_string c = v"
  by (auto simp: capability_from_str_def split: if_splits)

lemma registry_v1_known: "registry_supports registry_v1 c \<longleftrightarrow> is_known c"
  by (cases c) (simp_all add: registry_supports_def registry_v1_def is_known_def)

lemma parsed_capability_inj:
  "parsed_capability a \<Longrightarrow> parsed_capability b \<Longrightarrow>
   capability_to_string a = capability_to_string b \<longleftrightarrow> a = b"
  by (metis parsed_capability_def sum.inject(2))

end
