(* ===== verification/Capability_Scope.thy ===== *)
theory Capability_Scope
  imports Capability_Id Ordered_Map "HOL-Library.Product_Lexorder"
begin

text \<open>
  Capability scopes of \<^verbatim>\<open>touchbar-policy/src/capability.rs\<close>: the typed scopes, which scope fits which
  capability, when one scope asks for no more authority than another (\<^verbatim>\<open>is_subset_of\<close>), and the risk
  classes.  A \<^verbatim>\<open>BTreeSet\<close> is the list of its elements in ascending order.
\<close>

section \<open>Order of capabilities\<close>

text \<open>The derived order of \<^verbatim>\<open>CapabilityId\<close>: by variant, unknown capabilities last and by name.\<close>

fun capability_rank :: "capability_id \<Rightarrow> nat \<times> string" where
  "capability_rank ContextReadV1 = (0, [])"
| "capability_rank FilesystemReadV1 = (1, [])"
| "capability_rank FilesystemWriteV1 = (2, [])"
| "capability_rank HttpRequestV1 = (3, [])"
| "capability_rank DbusCallV1 = (4, [])"
| "capability_rank DbusSubscribeV1 = (5, [])"
| "capability_rank CommandRunV1 = (6, [])"
| "capability_rank ClipboardReadV1 = (7, [])"
| "capability_rank ClipboardWriteV1 = (8, [])"
| "capability_rank SecretReadV1 = (9, [])"
| "capability_rank NotificationSendV1 = (10, [])"
| "capability_rank UriOpenV1 = (11, [])"
| "capability_rank LocalConnectV1 = (12, [])"
| "capability_rank AppearanceProvideV1 = (13, [])"
| "capability_rank (Unknown s) = (14, s)"

lemma capability_rank_inject: "capability_rank a = capability_rank b \<Longrightarrow> a = b"
  by (cases a; cases b) simp_all

instantiation capability_id :: linorder
begin

definition less_eq_capability_id :: "capability_id \<Rightarrow> capability_id \<Rightarrow> bool" where
  "less_eq_capability_id a b \<longleftrightarrow> capability_rank a \<le> capability_rank b"

definition less_capability_id :: "capability_id \<Rightarrow> capability_id \<Rightarrow> bool" where
  "less_capability_id a b \<longleftrightarrow> capability_rank a < capability_rank b"

instance
  by standard (auto simp: less_eq_capability_id_def less_capability_id_def intro: capability_rank_inject)

end

section \<open>Scopes\<close>

type_synonym 'a btree_set = "'a list"

record filesystem_mount_request =
  fm_label :: string
  fm_suggested_location :: "string option"

record context_read_scope =
  cr_facts :: "string btree_set"
  cr_maximum_updates_per_second :: nat

datatype file_kind = RegularFile | Directory

record filesystem_read_scope =
  fr_mounts :: "filesystem_mount_request btree_set"
  fr_kinds :: "file_kind btree_set"
  fr_maximum_file_bytes :: nat
  fr_enumerate :: bool

datatype write_operation = WCreate | WReplace | WAppend | WDelete | WRename | WCreateDirectory

record filesystem_write_scope =
  fw_mounts :: "filesystem_mount_request btree_set"
  fw_operations :: "write_operation btree_set"
  fw_maximum_file_bytes :: nat
  fw_maximum_total_bytes_per_hour :: nat

record http_origin_rule =
  ho_scheme :: string
  ho_host :: string
  ho_port :: nat
  ho_path_prefixes :: "string btree_set"

datatype http_method = HGet | HHead | HPost | HPut | HPatch | HDelete

record http_request_scope =
  hr_origins :: "http_origin_rule btree_set"
  hr_methods :: "http_method btree_set"
  hr_private_network :: bool
  hr_maximum_request_bytes :: nat
  hr_maximum_response_bytes :: nat
  hr_maximum_requests_per_minute :: nat

datatype dbus_bus = SessionBus | SystemBus

record dbus_argument_constraint =
  da_index :: nat
  da_equals_string :: "string option"
  da_one_of_strings :: "string btree_set option"

record dbus_call_rule =
  dc_bus :: dbus_bus
  dc_destination :: string
  dc_path :: string
  dc_interface :: string
  dc_member :: string
  dc_signature :: string
  dc_arguments :: "dbus_argument_constraint list"
  dc_allow_service_activation :: bool
  dc_requires_user_activation :: bool

record dbus_signal_rule =
  ds_bus :: dbus_bus
  ds_sender :: string
  ds_path :: string
  ds_interface :: string
  ds_member :: string
  ds_signature :: string
  ds_argument_zero :: "string option"

record dbus_subscribe_scope =
  dss_rules :: "dbus_signal_rule btree_set"
  dss_maximum_events_per_second :: nat

datatype command_argument =
    ArgLiteral string
  | ArgBoundedInteger string int int
  | ArgFixedEnum string "string btree_set"
  | ArgBoundedText string nat
  | ArgApprovedFile string string
  | ArgUrl string "string btree_set"

record command_rule =
  cmd_id :: string
  cmd_executable :: string
  cmd_arguments :: "command_argument list"
  cmd_environment :: "(string, string) btree"
  cmd_working_directory :: "string option"
  cmd_maximum_output_bytes :: nat
  cmd_timeout_milliseconds :: nat

record command_run_scope =
  crs_commands :: "command_rule btree_set"
  crs_maximum_parallel_processes :: nat

record clipboard_scope =
  cl_mime_types :: "string btree_set"
  cl_maximum_bytes :: nat
  cl_maximum_operations_per_minute :: nat

datatype notification_urgency = NLow | NNormal | NCritical

record notification_scope =
  no_categories :: "string btree_set"
  no_urgency :: "notification_urgency btree_set"
  no_actions :: bool
  no_maximum_per_minute :: nat

record uri_open_scope =
  uo_schemes :: "string btree_set"
  uo_origins :: "http_origin_rule btree_set"

record local_endpoint_request =
  le_label :: string
  le_protocol :: string
  le_suggested_endpoint :: "string option"

record local_connect_scope =
  lc_endpoints :: "local_endpoint_request btree_set"
  lc_maximum_frame_bytes :: nat
  lc_maximum_bytes_per_minute :: nat

record appearance_provide_scope =
  ap_providers :: "string btree_set"
  ap_mounts :: "filesystem_mount_request btree_set"
  ap_maximum_file_bytes :: nat
  ap_maximum_updates_per_second :: nat

datatype capability_scope =
    SContextRead context_read_scope
  | SFilesystemRead filesystem_read_scope
  | SFilesystemWrite filesystem_write_scope
  | SHttpRequest http_request_scope
  | SDbusCall "dbus_call_rule btree_set"
  | SDbusSubscribe dbus_subscribe_scope
  | SCommandRun command_run_scope
  | SClipboard clipboard_scope
  | SSecretRead "string btree_set"
  | SNotificationSend notification_scope
  | SUriOpen uri_open_scope
  | SLocalConnect local_connect_scope
  | SAppearanceProvide appearance_provide_scope
  | SUnknown string

record capability_request =
  req_capability :: capability_id
  req_required :: bool
  req_reason :: string
  req_scope :: capability_scope

fun matches_capability :: "capability_scope \<Rightarrow> capability_id \<Rightarrow> bool" where
  "matches_capability (SContextRead _) c \<longleftrightarrow> c = ContextReadV1"
| "matches_capability (SFilesystemRead _) c \<longleftrightarrow> c = FilesystemReadV1"
| "matches_capability (SFilesystemWrite _) c \<longleftrightarrow> c = FilesystemWriteV1"
| "matches_capability (SHttpRequest _) c \<longleftrightarrow> c = HttpRequestV1"
| "matches_capability (SDbusCall _) c \<longleftrightarrow> c = DbusCallV1"
| "matches_capability (SDbusSubscribe _) c \<longleftrightarrow> c = DbusSubscribeV1"
| "matches_capability (SCommandRun _) c \<longleftrightarrow> c = CommandRunV1"
| "matches_capability (SClipboard _) c \<longleftrightarrow> c = ClipboardReadV1 \<or> c = ClipboardWriteV1"
| "matches_capability (SSecretRead _) c \<longleftrightarrow> c = SecretReadV1"
| "matches_capability (SNotificationSend _) c \<longleftrightarrow> c = NotificationSendV1"
| "matches_capability (SUriOpen _) c \<longleftrightarrow> c = UriOpenV1"
| "matches_capability (SLocalConnect _) c \<longleftrightarrow> c = LocalConnectV1"
| "matches_capability (SAppearanceProvide _) c \<longleftrightarrow> c = AppearanceProvideV1"
| "matches_capability (SUnknown _) c \<longleftrightarrow> \<not> is_known c"

section \<open>Subsets\<close>

definition bts_subset :: "'a btree_set \<Rightarrow> 'a btree_set \<Rightarrow> bool" where
  "bts_subset new old = list_all (\<lambda>x. x \<in> set old) new"

definition bool_authority_subset :: "bool \<Rightarrow> bool \<Rightarrow> bool" where
  "bool_authority_subset new old \<longleftrightarrow> \<not> new \<or> old"

definition activation_requirement_subset :: "bool \<Rightarrow> bool \<Rightarrow> bool" where
  "activation_requirement_subset new old \<longleftrightarrow> \<not> old \<or> new"

definition path_prefixes_subset :: "string btree_set \<Rightarrow> string btree_set \<Rightarrow> bool" where
  "path_prefixes_subset new old \<longleftrightarrow>
     (if old = [] then True
      else new \<noteq> [] \<and> list_all (\<lambda>p. list_ex (\<lambda>prefix. starts_with p prefix) old) new)"

definition origin_subset :: "http_origin_rule \<Rightarrow> http_origin_rule \<Rightarrow> bool" where
  "origin_subset new old \<longleftrightarrow>
     ho_scheme new = ho_scheme old \<and> ho_host new = ho_host old \<and> ho_port new = ho_port old
     \<and> path_prefixes_subset (ho_path_prefixes new) (ho_path_prefixes old)"

definition origins_subset :: "http_origin_rule btree_set \<Rightarrow> http_origin_rule btree_set \<Rightarrow> bool" where
  "origins_subset new old = list_all (\<lambda>o'. list_ex (origin_subset o') old) new"

definition mount_labels_subset ::
  "filesystem_mount_request btree_set \<Rightarrow> filesystem_mount_request btree_set \<Rightarrow> bool" where
  "mount_labels_subset new old = list_all (\<lambda>m. list_ex (\<lambda>a. fm_label a = fm_label m) old) new"

definition endpoint_labels_subset ::
  "local_endpoint_request btree_set \<Rightarrow> local_endpoint_request btree_set \<Rightarrow> bool" where
  "endpoint_labels_subset new old =
     list_all (\<lambda>e. list_ex (\<lambda>a. le_label a = le_label e \<and> le_protocol a = le_protocol e) old) new"

definition strip_suffix :: "string \<Rightarrow> string \<Rightarrow> string option" where
  "strip_suffix suffix s =
     (if length suffix \<le> length s \<and> drop (length s - length suffix) s = suffix
      then Some (take (length s - length suffix) s) else None)"

definition strip_prefix :: "string \<Rightarrow> string \<Rightarrow> string option" where
  "strip_prefix prefix s = (if starts_with s prefix then Some (drop (length prefix) s) else None)"

definition dotted_name_subset :: "string \<Rightarrow> string \<Rightarrow> bool" where
  "dotted_name_subset new old \<longleftrightarrow>
     (case strip_suffix ''.*'' old of
        Some prefix \<Rightarrow>
          new = old \<or>
          (case strip_prefix prefix new of Some suffix \<Rightarrow> starts_with suffix ''.'' | None \<Rightarrow> False)
      | None \<Rightarrow> new = old)"

definition dbus_argument_subset :: "dbus_argument_constraint \<Rightarrow> dbus_argument_constraint \<Rightarrow> bool" where
  "dbus_argument_subset requested approved \<longleftrightarrow>
     da_index requested = da_index approved
     \<and> (case (da_equals_string requested, da_one_of_strings requested,
              da_equals_string approved, da_one_of_strings approved) of
          (Some new, None, Some old, None) \<Rightarrow> new = old
        | (Some new, None, None, Some old) \<Rightarrow> new \<in> set old
        | (None, Some new, None, Some old) \<Rightarrow> bts_subset new old
        | _ \<Rightarrow> False)"

definition dbus_arguments_subset ::
  "dbus_argument_constraint list \<Rightarrow> dbus_argument_constraint list \<Rightarrow> bool" where
  "dbus_arguments_subset new old =
     list_all (\<lambda>approved. list_ex (\<lambda>requested. dbus_argument_subset requested approved) new) old"

definition dbus_call_rule_subset :: "dbus_call_rule \<Rightarrow> dbus_call_rule \<Rightarrow> bool" where
  "dbus_call_rule_subset new old \<longleftrightarrow>
     dc_bus new = dc_bus old \<and> dotted_name_subset (dc_destination new) (dc_destination old)
     \<and> dc_path new = dc_path old \<and> dc_interface new = dc_interface old \<and> dc_member new = dc_member old
     \<and> dc_signature new = dc_signature old \<and> dbus_arguments_subset (dc_arguments new) (dc_arguments old)
     \<and> bool_authority_subset (dc_allow_service_activation new) (dc_allow_service_activation old)
     \<and> activation_requirement_subset (dc_requires_user_activation new) (dc_requires_user_activation old)"

fun command_argument_subset :: "command_argument \<Rightarrow> command_argument \<Rightarrow> bool" where
  "command_argument_subset (ArgLiteral new) (ArgLiteral old) \<longleftrightarrow> new = old"
| "command_argument_subset (ArgBoundedInteger n nmin nmax) (ArgBoundedInteger m omin omax) \<longleftrightarrow>
     n = m \<and> nmin \<ge> omin \<and> nmax \<le> omax"
| "command_argument_subset (ArgFixedEnum n new) (ArgFixedEnum m old) \<longleftrightarrow> n = m \<and> bts_subset new old"
| "command_argument_subset (ArgBoundedText n nmax) (ArgBoundedText m omax) \<longleftrightarrow> n = m \<and> nmax \<le> omax"
| "command_argument_subset (ArgApprovedFile n new) (ArgApprovedFile m old) \<longleftrightarrow> n = m \<and> new = old"
| "command_argument_subset (ArgUrl n new) (ArgUrl m old) \<longleftrightarrow> n = m \<and> bts_subset new old"
| "command_argument_subset _ _ \<longleftrightarrow> False"

definition command_rule_subset :: "command_rule \<Rightarrow> command_rule \<Rightarrow> bool" where
  "command_rule_subset new old \<longleftrightarrow>
     cmd_id new = cmd_id old \<and> cmd_executable new = cmd_executable old
     \<and> length (cmd_arguments new) = length (cmd_arguments old)
     \<and> list_all (\<lambda>(n, o'). command_argument_subset n o') (zip (cmd_arguments new) (cmd_arguments old))
     \<and> cmd_environment new = cmd_environment old
     \<and> cmd_working_directory new = cmd_working_directory old
     \<and> cmd_maximum_output_bytes new \<le> cmd_maximum_output_bytes old
     \<and> cmd_timeout_milliseconds new \<le> cmd_timeout_milliseconds old"

fun is_subset_of :: "capability_scope \<Rightarrow> capability_scope \<Rightarrow> bool" where
  "is_subset_of (SContextRead new) approved \<longleftrightarrow>
     (case approved of
        SContextRead old \<Rightarrow>
          bts_subset (cr_facts new) (cr_facts old)
       \<and> cr_maximum_updates_per_second new \<le> cr_maximum_updates_per_second old
      | _ \<Rightarrow> False)"
| "is_subset_of (SFilesystemRead new) approved \<longleftrightarrow>
     (case approved of
        SFilesystemRead old \<Rightarrow>
          mount_labels_subset (fr_mounts new) (fr_mounts old) \<and> bts_subset (fr_kinds new) (fr_kinds old)
       \<and> fr_maximum_file_bytes new \<le> fr_maximum_file_bytes old
       \<and> bool_authority_subset (fr_enumerate new) (fr_enumerate old)
      | _ \<Rightarrow> False)"
| "is_subset_of (SFilesystemWrite new) approved \<longleftrightarrow>
     (case approved of
        SFilesystemWrite old \<Rightarrow>
          mount_labels_subset (fw_mounts new) (fw_mounts old) \<and> bts_subset (fw_operations new) (fw_operations old)
       \<and> fw_maximum_file_bytes new \<le> fw_maximum_file_bytes old
       \<and> fw_maximum_total_bytes_per_hour new \<le> fw_maximum_total_bytes_per_hour old
      | _ \<Rightarrow> False)"
| "is_subset_of (SHttpRequest new) approved \<longleftrightarrow>
     (case approved of
        SHttpRequest old \<Rightarrow>
          bts_subset (hr_methods new) (hr_methods old)
       \<and> bool_authority_subset (hr_private_network new) (hr_private_network old)
       \<and> hr_maximum_request_bytes new \<le> hr_maximum_request_bytes old
       \<and> hr_maximum_response_bytes new \<le> hr_maximum_response_bytes old
       \<and> hr_maximum_requests_per_minute new \<le> hr_maximum_requests_per_minute old
       \<and> origins_subset (hr_origins new) (hr_origins old)
      | _ \<Rightarrow> False)"
| "is_subset_of (SDbusCall new) approved \<longleftrightarrow>
     (case approved of
        SDbusCall old \<Rightarrow>
          list_all (\<lambda>r. list_ex (dbus_call_rule_subset r) old) new
      | _ \<Rightarrow> False)"
| "is_subset_of (SDbusSubscribe new) approved \<longleftrightarrow>
     (case approved of
        SDbusSubscribe old \<Rightarrow>
          bts_subset (dss_rules new) (dss_rules old)
       \<and> dss_maximum_events_per_second new \<le> dss_maximum_events_per_second old
      | _ \<Rightarrow> False)"
| "is_subset_of (SCommandRun new) approved \<longleftrightarrow>
     (case approved of
        SCommandRun old \<Rightarrow>
          crs_maximum_parallel_processes new \<le> crs_maximum_parallel_processes old
       \<and> list_all (\<lambda>c. list_ex (command_rule_subset c) (crs_commands old)) (crs_commands new)
      | _ \<Rightarrow> False)"
| "is_subset_of (SClipboard new) approved \<longleftrightarrow>
     (case approved of
        SClipboard old \<Rightarrow>
          bts_subset (cl_mime_types new) (cl_mime_types old)
       \<and> cl_maximum_bytes new \<le> cl_maximum_bytes old
       \<and> cl_maximum_operations_per_minute new \<le> cl_maximum_operations_per_minute old
      | _ \<Rightarrow> False)"
| "is_subset_of (SSecretRead new) approved \<longleftrightarrow>
     (case approved of
        SSecretRead old \<Rightarrow>
          bts_subset new old
      | _ \<Rightarrow> False)"
| "is_subset_of (SNotificationSend new) approved \<longleftrightarrow>
     (case approved of
        SNotificationSend old \<Rightarrow>
          bts_subset (no_categories new) (no_categories old) \<and> bts_subset (no_urgency new) (no_urgency old)
       \<and> bool_authority_subset (no_actions new) (no_actions old)
       \<and> no_maximum_per_minute new \<le> no_maximum_per_minute old
      | _ \<Rightarrow> False)"
| "is_subset_of (SUriOpen new) approved \<longleftrightarrow>
     (case approved of
        SUriOpen old \<Rightarrow>
          bts_subset (uo_schemes new) (uo_schemes old) \<and> origins_subset (uo_origins new) (uo_origins old)
      | _ \<Rightarrow> False)"
| "is_subset_of (SLocalConnect new) approved \<longleftrightarrow>
     (case approved of
        SLocalConnect old \<Rightarrow>
          endpoint_labels_subset (lc_endpoints new) (lc_endpoints old)
       \<and> lc_maximum_frame_bytes new \<le> lc_maximum_frame_bytes old
       \<and> lc_maximum_bytes_per_minute new \<le> lc_maximum_bytes_per_minute old
      | _ \<Rightarrow> False)"
| "is_subset_of (SAppearanceProvide new) approved \<longleftrightarrow>
     (case approved of
        SAppearanceProvide old \<Rightarrow>
          bts_subset (ap_providers new) (ap_providers old) \<and> mount_labels_subset (ap_mounts new) (ap_mounts old)
       \<and> ap_maximum_file_bytes new \<le> ap_maximum_file_bytes old
       \<and> ap_maximum_updates_per_second new \<le> ap_maximum_updates_per_second old
      | _ \<Rightarrow> False)"
| "is_subset_of (SUnknown new) approved \<longleftrightarrow>
     (case approved of
        SUnknown old \<Rightarrow>
          new = old
      | _ \<Rightarrow> False)"

section \<open>Paths\<close>

text \<open>\<^verbatim>\<open>Path::components\<close>: empty segments and inner dots are skipped, a leading dot is kept.\<close>

datatype path_component = RootDir | CurDir | ParentDir | Normal string

definition path_is_absolute :: "string \<Rightarrow> bool" where
  "path_is_absolute p \<longleftrightarrow> starts_with p ''/''"

definition inner_component :: "string \<Rightarrow> path_component option" where
  "inner_component seg =
     (if seg = [] \<or> seg = ''.'' then None else if seg = ''..'' then Some ParentDir else Some (Normal seg))"

definition path_components :: "string \<Rightarrow> path_component list" where
  "path_components p =
     (if path_is_absolute p then RootDir # List.map_filter inner_component (str_split CHR ''/'' p)
      else (case str_split CHR ''/'' p of
              [] \<Rightarrow> []
            | seg # segs \<Rightarrow>
                (if seg = ''.'' then [CurDir] else List.map_filter inner_component [seg])
                @ List.map_filter inner_component segs))"

fun is_normal :: "path_component \<Rightarrow> bool" where
  "is_normal (Normal _) = True"
| "is_normal _ = False"

definition normalized_absolute_path :: "string \<Rightarrow> bool" where
  "normalized_absolute_path p \<longleftrightarrow>
     path_is_absolute p \<and> list_all (\<lambda>c. c = RootDir \<or> is_normal c) (path_components p)"

definition path_file_name :: "string \<Rightarrow> string option" where
  "path_file_name p =
     (case rev (path_components p) of Normal n # _ \<Rightarrow> Some n | _ \<Rightarrow> None)"

section \<open>Risk\<close>

datatype risk_class =
  Isolated | Limited | Connected | Sensitive | Controlling | EffectivelyTrusted | UnrestrictedNative

fun risk_rank :: "risk_class \<Rightarrow> nat" where
  "risk_rank Isolated = 0"
| "risk_rank Limited = 1"
| "risk_rank Connected = 2"
| "risk_rank Sensitive = 3"
| "risk_rank Controlling = 4"
| "risk_rank EffectivelyTrusted = 5"
| "risk_rank UnrestrictedNative = 6"

lemma risk_rank_inject: "risk_rank a = risk_rank b \<Longrightarrow> a = b"
  by (cases a; cases b) simp_all

instantiation risk_class :: linorder
begin

definition less_eq_risk_class :: "risk_class \<Rightarrow> risk_class \<Rightarrow> bool" where
  "less_eq_risk_class a b \<longleftrightarrow> risk_rank a \<le> risk_rank b"

definition less_risk_class :: "risk_class \<Rightarrow> risk_class \<Rightarrow> bool" where
  "less_risk_class a b \<longleftrightarrow> risk_rank a < risk_rank b"

instance
  by standard (auto simp: less_eq_risk_class_def less_risk_class_def intro: risk_rank_inject)

end

datatype runtime_kind = Component | Native

record trust_summary =
  trust_class :: risk_class
  trust_warnings :: "string set"

definition context_fact_is_public :: "string \<Rightarrow> bool" where
  "context_fact_is_public f \<longleftrightarrow>
     f \<in> {''application.id'', ''workspace.id'', ''monitor.id'', ''recording.active'',
       ''media.playback-status'', ''power.profile'', ''power.on-battery''}"

definition command_is_interpreter :: "command_rule \<Rightarrow> bool" where
  "command_is_interpreter c =
     (case path_file_name (cmd_executable c) of
        None \<Rightarrow> True
      | Some name \<Rightarrow>
          name \<in> {''sh'', ''bash'', ''zsh'', ''fish'', ''dash'', ''env'', ''python'', ''python3'',
            ''node'', ''ruby'', ''perl''})"

fun scope_risk :: "capability_id \<Rightarrow> capability_scope \<Rightarrow> risk_class" where
  "scope_risk ContextReadV1 scope =
     (case scope of
        SContextRead s \<Rightarrow> if list_all context_fact_is_public (cr_facts s) then Limited else Sensitive
      | _ \<Rightarrow> Sensitive)"
| "scope_risk DbusSubscribeV1 scope = Sensitive"
| "scope_risk HttpRequestV1 scope = Connected"
| "scope_risk FilesystemReadV1 scope = Sensitive"
| "scope_risk ClipboardReadV1 scope = Sensitive"
| "scope_risk SecretReadV1 scope = Sensitive"
| "scope_risk FilesystemWriteV1 scope = Controlling"
| "scope_risk DbusCallV1 scope = Controlling"
| "scope_risk ClipboardWriteV1 scope = Controlling"
| "scope_risk NotificationSendV1 scope = Controlling"
| "scope_risk UriOpenV1 scope = Controlling"
| "scope_risk AppearanceProvideV1 scope = Controlling"
| "scope_risk CommandRunV1 scope =
     (case scope of
        SCommandRun s \<Rightarrow> if list_ex command_is_interpreter (crs_commands s) then EffectivelyTrusted else Controlling
      | _ \<Rightarrow> Controlling)"
| "scope_risk LocalConnectV1 scope = EffectivelyTrusted"
| "scope_risk (Unknown _) scope = EffectivelyTrusted"

definition sensitive_read :: "capability_id \<Rightarrow> bool" where
  "sensitive_read c \<longleftrightarrow> c \<in> {FilesystemReadV1, ClipboardReadV1, SecretReadV1}"

text \<open>One turn of the loop: the class so far, whether the network and whether sensitive data is read.\<close>

definition trust_step :: "capability_request \<Rightarrow> risk_class \<times> bool \<times> bool \<Rightarrow> risk_class \<times> bool \<times> bool" where
  "trust_step grant st =
     (case st of (cls, network, sensitive) \<Rightarrow>
        (max cls (scope_risk (req_capability grant) (req_scope grant)),
         network \<or> req_capability grant = HttpRequestV1,
         sensitive \<or> sensitive_read (req_capability grant)))"

definition summarize_trust :: "runtime_kind \<Rightarrow> capability_request list \<Rightarrow> trust_summary" where
  "summarize_trust runtime grants =
     (if runtime = Native then
        \<lparr>trust_class = UnrestrictedNative,
         trust_warnings = {''native permission declarations are disclosure only''}\<rparr>
      else
        (case fold trust_step grants (Isolated, False, False) of (cls, network, sensitive) \<Rightarrow>
           if network \<and> sensitive then
             \<lparr>trust_class = max cls Sensitive,
              trust_warnings = {''network egress can expose data from sensitive read capabilities''}\<rparr>
           else \<lparr>trust_class = cls, trust_warnings = {}\<rparr>))"

section \<open>Subset is transitive\<close>

text \<open>The contract of a comparison of authority, and its lift to sets of rules: every new rule is
  covered by an approved one.\<close>

locale authority_order =
  fixes sub :: "'a \<Rightarrow> 'a \<Rightarrow> bool"
  assumes sub_trans: "sub a b \<Longrightarrow> sub b c \<Longrightarrow> sub a c"
begin

lemma covers_trans:
  "list_all (\<lambda>x. list_ex (sub x) ys) xs \<Longrightarrow> list_all (\<lambda>y. list_ex (sub y) zs) ys \<Longrightarrow>
     list_all (\<lambda>x. list_ex (sub x) zs) xs"
  unfolding list_all_iff list_ex_iff using sub_trans by meson

end

lemma bts_subset_trans: "bts_subset a b \<Longrightarrow> bts_subset b c \<Longrightarrow> bts_subset a c"
  by (auto simp: bts_subset_def list_all_iff)

lemma bool_authority_trans: "bool_authority_subset a b \<Longrightarrow> bool_authority_subset b c \<Longrightarrow> bool_authority_subset a c"
  by (auto simp: bool_authority_subset_def)

lemma starts_with_iff: "starts_with s p \<longleftrightarrow> (\<exists>t. s = p @ t)"
  by (auto simp: starts_with_def intro: exI [of _ "drop (length p) s"]) (metis append_take_drop_id)

lemma path_prefixes_trans: "path_prefixes_subset a b \<Longrightarrow> path_prefixes_subset b c \<Longrightarrow> path_prefixes_subset a c"
  unfolding path_prefixes_subset_def list_all_iff list_ex_iff starts_with_iff
  by (auto split: if_splits) (metis append_assoc)+

interpretation origins: authority_order origin_subset
  by unfold_locales (auto simp: origin_subset_def intro: path_prefixes_trans)

interpretation mounts: authority_order "\<lambda>m a. fm_label a = fm_label m"
  by unfold_locales simp

interpretation endpoints: authority_order "\<lambda>e a. le_label a = le_label e \<and> le_protocol a = le_protocol e"
  by unfold_locales simp

lemma dbus_argument_trans:
  "dbus_argument_subset a b \<Longrightarrow> dbus_argument_subset b c \<Longrightarrow> dbus_argument_subset a c"
  by (auto simp: dbus_argument_subset_def bts_subset_def list_all_iff split: option.splits)

interpretation dbus_arguments: authority_order "\<lambda>approved requested. dbus_argument_subset requested approved"
  by unfold_locales (rule dbus_argument_trans)

lemma dotted_name_iff:
  "dotted_name_subset new old \<longleftrightarrow> new = old \<or> (\<exists>p r. old = p @ ''.*'' \<and> new = p @ ''.'' @ r)"
proof -
  have suffix: "strip_suffix ''.*'' old = Some p \<longleftrightarrow> old = p @ ''.*''" for p
    unfolding strip_suffix_def by (auto simp: append_eq_conv_conj) (metis append_take_drop_id)
  show ?thesis
  proof (cases "strip_suffix ''.*'' old")
    case None
    then have "\<nexists>p. old = p @ ''.*''" using suffix by simp
    then show ?thesis using None by (auto simp: dotted_name_subset_def)
  next
    case (Some p)
    then have "old = p @ ''.*''" using suffix by simp
    then show ?thesis
      using Some by (auto simp: dotted_name_subset_def strip_prefix_def starts_with_iff split: if_splits)
  qed
qed

lemma dotted_name_trans: "dotted_name_subset a b \<Longrightarrow> dotted_name_subset b c \<Longrightarrow> dotted_name_subset a c"
proof -
  assume ab: "dotted_name_subset a b" and bc: "dotted_name_subset b c"
  show ?thesis
  proof (cases "a = b \<or> b = c")
    case False
    then obtain q s p r where b: "b = q @ ''.*''" "a = q @ ''.'' @ s" and c: "c = p @ ''.*''" "b = p @ ''.'' @ r"
      using ab bc unfolding dotted_name_iff by blast
    have "b \<noteq> c" using False by blast
    from b(1) c(2) have "q @ ''.*'' = p @ ''.'' @ r" by simp
    then obtain u where "q = p @ u \<and> u @ ''.*'' = ''.'' @ r \<or> q @ u = p \<and> ''.*'' = u @ ''.'' @ r"
      by (auto simp: append_eq_append_conv2)
    then show ?thesis
    proof
      assume u: "q = p @ u \<and> u @ ''.*'' = ''.'' @ r"
      then show ?thesis using b c \<open>b \<noteq> c\<close> unfolding dotted_name_iff by (cases u) auto
    next
      assume "q @ u = p \<and> ''.*'' = u @ ''.'' @ r"
      then have "u = [] \<and> p = q \<and> r = ''*''" by (cases u) (auto simp: Cons_eq_append_conv)
      then show ?thesis using b c by (auto simp: dotted_name_iff)
    qed
  qed (use ab bc in auto)
qed

lemma dbus_call_rule_trans:
  "dbus_call_rule_subset a b \<Longrightarrow> dbus_call_rule_subset b c \<Longrightarrow> dbus_call_rule_subset a c"
  unfolding dbus_call_rule_subset_def dbus_arguments_subset_def activation_requirement_subset_def
  using dotted_name_trans [of "dc_destination a" "dc_destination b" "dc_destination c"]
    dbus_arguments.covers_trans [of "dc_arguments b" "dc_arguments c" "dc_arguments a"] bool_authority_trans
  by auto

interpretation dbus_rules: authority_order dbus_call_rule_subset
  by unfold_locales (rule dbus_call_rule_trans)

lemma command_argument_trans:
  "command_argument_subset a b \<Longrightarrow> command_argument_subset b c \<Longrightarrow> command_argument_subset a c"
  by (cases a; cases b; cases c) (auto intro: bts_subset_trans)

lemma command_rule_trans:
  "command_rule_subset a b \<Longrightarrow> command_rule_subset b c \<Longrightarrow> command_rule_subset a c"
  unfolding command_rule_subset_def list_all_length
  using command_argument_trans by fastforce

interpretation command_rules: authority_order command_rule_subset
  by unfold_locales (rule command_rule_trans)

lemma origins_trans: "origins_subset a b \<Longrightarrow> origins_subset b c \<Longrightarrow> origins_subset a c"
  unfolding origins_subset_def by (rule origins.covers_trans)

lemma mount_labels_trans: "mount_labels_subset a b \<Longrightarrow> mount_labels_subset b c \<Longrightarrow> mount_labels_subset a c"
  unfolding mount_labels_subset_def by (rule mounts.covers_trans)

lemma endpoint_labels_trans:
  "endpoint_labels_subset a b \<Longrightarrow> endpoint_labels_subset b c \<Longrightarrow> endpoint_labels_subset a c"
  unfolding endpoint_labels_subset_def by (rule endpoints.covers_trans)

lemmas scope_trans = bts_subset_trans bool_authority_trans origins_trans mount_labels_trans
  endpoint_labels_trans dbus_rules.covers_trans command_rules.covers_trans

lemma is_subset_of_trans: "is_subset_of a b \<Longrightarrow> is_subset_of b c \<Longrightarrow> is_subset_of a c"
  by (cases a; cases b; simp; cases c; simp) (auto intro: scope_trans)

interpretation scopes: authority_order is_subset_of
  by unfold_locales (rule is_subset_of_trans)

lemma scope_risk_mono: "is_subset_of a b \<Longrightarrow> scope_risk c a \<le> scope_risk c b"
proof (cases c)
  case ContextReadV1
  assume "is_subset_of a b"
  then show ?thesis
    unfolding ContextReadV1
    by (cases a; simp split: capability_scope.splits)
      (auto simp: bts_subset_def list_all_iff less_eq_risk_class_def)
next
  case CommandRunV1
  assume "is_subset_of a b"
  moreover have "command_is_interpreter y" if "command_rule_subset x y" "command_is_interpreter x" for x y
    using that by (simp add: command_rule_subset_def command_is_interpreter_def)
  ultimately show ?thesis
    unfolding CommandRunV1
    by (cases a; simp split: capability_scope.splits)
      (auto simp: list_all_iff list_ex_iff less_eq_risk_class_def, meson)
qed (simp_all add: less_eq_risk_class_def)

end
