(* ===== verification/Scope_Validation.thy ===== *)
theory Scope_Validation
  imports Capability_Scope
begin

text \<open>
  \<^verbatim>\<open>validate_scope\<close> of \<^verbatim>\<open>touchbar-policy/src/capability.rs\<close>: the host limits of every scope, as the list
  of issues in the order in which the code reports them.  Collecting the issues with a closure is
  appending the lists.  The parser of IP addresses of the standard library is modelled as a
  recogniser.
\<close>

section \<open>Strings\<close>

fun digits_of :: "nat \<Rightarrow> nat \<Rightarrow> string" where
  "digits_of 0 n = []"
| "digits_of (Suc fuel) n =
     (if n < 10 then [char_of (48 + n)] else digits_of fuel (n div 10) @ [char_of (48 + n mod 10)])"

definition show_nat :: "nat \<Rightarrow> string" where
  "show_nat n = digits_of (Suc n) n"

fun contains_str :: "string \<Rightarrow> string \<Rightarrow> bool" where
  "contains_str [] p \<longleftrightarrow> p = []"
| "contains_str (c # s) p \<longleftrightarrow> starts_with (c # s) p \<or> contains_str s p"

definition ends_with_char :: "string \<Rightarrow> char \<Rightarrow> bool" where
  "ends_with_char s c \<longleftrightarrow> s \<noteq> [] \<and> last s = c"

definition starts_with_char :: "string \<Rightarrow> char \<Rightarrow> bool" where
  "starts_with_char s c \<longleftrightarrow> s \<noteq> [] \<and> hd s = c"

definition str_is_ascii :: "string \<Rightarrow> bool" where
  "str_is_ascii s = list_all (\<lambda>c. of_char c < (128 :: nat)) s"

definition is_ascii_alphabetic :: "char \<Rightarrow> bool" where
  "is_ascii_alphabetic c \<longleftrightarrow> is_ascii_lowercase c \<or> is_ascii_uppercase c"

definition is_ascii_space_or_control :: "char \<Rightarrow> bool" where
  "is_ascii_space_or_control c \<longleftrightarrow> (of_char c :: nat) \<le> 32 \<or> (of_char c :: nat) = 127"

section \<open>IP addresses\<close>

definition is_hex_digit :: "char \<Rightarrow> bool" where
  "is_hex_digit c \<longleftrightarrow> is_ascii_digit c \<or> CHR ''a'' \<le> c \<and> c \<le> CHR ''f'' \<or> CHR ''A'' \<le> c \<and> c \<le> CHR ''F''"

definition decimal_value :: "string \<Rightarrow> nat" where
  "decimal_value ds = foldl (\<lambda>n c. 10 * n + (of_char c - 48)) 0 ds"

definition read_octet :: "string \<Rightarrow> string option" where
  "read_octet s =
     (let ds = takeWhile is_ascii_digit s in
      if ds = [] \<or> length ds > 3 \<or> (hd ds = CHR ''0'' \<and> length ds > 1) \<or> decimal_value ds > 255 then None
      else Some (dropWhile is_ascii_digit s))"

definition read_group :: "string \<Rightarrow> string option" where
  "read_group s =
     (let ds = takeWhile is_hex_digit s in
      if ds = [] \<or> length ds > 4 then None else Some (dropWhile is_hex_digit s))"

definition read_separator :: "char \<Rightarrow> nat \<Rightarrow> (string \<Rightarrow> string option) \<Rightarrow> string \<Rightarrow> string option" where
  "read_separator c i reader s =
     (if i = 0 then reader s
      else (case s of [] \<Rightarrow> None | x # s' \<Rightarrow> if x = c then reader s' else None))"

definition read_ipv4 :: "string \<Rightarrow> string option" where
  "read_ipv4 s =
     Option.bind (read_separator CHR ''.'' 0 read_octet s) (\<lambda>s.
     Option.bind (read_separator CHR ''.'' 1 read_octet s) (\<lambda>s.
     Option.bind (read_separator CHR ''.'' 2 read_octet s) (\<lambda>s.
     read_separator CHR ''.'' 3 read_octet s)))"

text \<open>The groups read so far, whether the last two came from an embedded IPv4 address, and the rest.\<close>

function read_groups :: "nat \<Rightarrow> nat \<Rightarrow> string \<Rightarrow> nat \<times> bool \<times> string" where
  "read_groups i limit s =
     (if i < limit then
        (case (if i < limit - 1 then read_separator CHR '':'' i read_ipv4 s else None) of
           Some rest \<Rightarrow> (i + 2, True, rest)
         | None \<Rightarrow>
             (case read_separator CHR '':'' i read_group s of
                Some rest \<Rightarrow> read_groups (Suc i) limit rest
              | None \<Rightarrow> (i, False, s)))
      else (limit, False, s))"
  by auto
termination by (relation "measure (\<lambda>(i, limit, _). limit - i)") auto

declare read_groups.simps [simp del]

definition read_ipv6 :: "string \<Rightarrow> string option" where
  "read_ipv6 s =
     (case read_groups 0 8 s of (n, v4, r) \<Rightarrow>
        if n = 8 then Some r
        else if v4 then None
        else (case r of
                a # b # r' \<Rightarrow>
                  if a = CHR '':'' \<and> b = CHR '':'' then Some (snd (snd (read_groups 0 (8 - (n + 1)) r')))
                  else None
              | _ \<Rightarrow> None))"

definition parses_ip_addr :: "string \<Rightarrow> bool" where
  "parses_ip_addr s \<longleftrightarrow>
     (case read_ipv4 s of
        Some r \<Rightarrow> r = []
      | None \<Rightarrow> (case read_ipv6 s of Some r \<Rightarrow> r = [] | None \<Rightarrow> False))"

section \<open>Checks\<close>

definition require_nonempty :: "'a list \<Rightarrow> string \<Rightarrow> string list" where
  "require_nonempty vs name = (if vs = [] then [name @ '' must not be empty''] else [])"

definition require_nonzero :: "nat \<Rightarrow> string \<Rightarrow> string list" where
  "require_nonzero v name = (if v = 0 then [name @ '' must be nonzero''] else [])"

definition require_at_most :: "nat \<Rightarrow> nat \<Rightarrow> string \<Rightarrow> string list" where
  "require_at_most v maximum name =
     (if v > maximum then [name @ '' exceeds host maximum '' @ show_nat maximum] else [])"

definition require_collection_limit :: "nat \<Rightarrow> nat \<Rightarrow> string \<Rightarrow> string list" where
  "require_collection_limit n maximum name =
     (if n > maximum
      then [name @ '' contains '' @ show_nat n @ '' entries; maximum is '' @ show_nat maximum] else [])"

definition validate_rate :: "nat \<Rightarrow> string list" where
  "validate_rate v = (if v = 0 then [''rate must be nonzero''] else [])"

definition validate_kebab_set :: "string btree_set \<Rightarrow> string \<Rightarrow> string list" where
  "validate_kebab_set vs label =
     map (\<lambda>v. ''invalid '' @ label @ '' '' @ v) (filter (\<lambda>v. \<not> valid_kebab_id v) vs)"

definition valid_dotted_name :: "string \<Rightarrow> bool" where
  "valid_dotted_name v \<longleftrightarrow>
     CHR ''.'' \<in> set v
     \<and> list_all (\<lambda>part. part \<noteq> [] \<and> list_all (\<lambda>b. is_ascii_alphanumeric b \<or> b = CHR ''_'') part)
         (str_split CHR ''.'' v)"

definition valid_member :: "string \<Rightarrow> bool" where
  "valid_member v \<longleftrightarrow>
     v \<noteq> [] \<and> is_ascii_alphabetic (hd v) \<and> list_all (\<lambda>b. is_ascii_alphanumeric b \<or> b = CHR ''_'') v"

definition valid_environment_name :: "string \<Rightarrow> bool" where
  "valid_environment_name v \<longleftrightarrow>
     v \<noteq> [] \<and> (is_ascii_alphabetic (hd v) \<or> hd v = CHR ''_'')
     \<and> list_all (\<lambda>b. is_ascii_alphanumeric b \<or> b = CHR ''_'') v"

definition valid_scheme :: "string \<Rightarrow> bool" where
  "valid_scheme v \<longleftrightarrow>
     v \<noteq> [] \<and> is_ascii_lowercase (hd v)
     \<and> list_all (\<lambda>b. is_ascii_lowercase b \<or> is_ascii_digit b \<or> b \<in> set ''+-.'') v"

definition dangerous_environment_name :: "string \<Rightarrow> bool" where
  "dangerous_environment_name name \<longleftrightarrow>
     starts_with name ''LD_'' \<or> starts_with name ''DYLD_''
     \<or> name \<in> {''GCONV_PATH'', ''GETCONF_DIR'', ''GLIBC_TUNABLES'', ''HOSTALIASES'', ''LOCPATH''}"

fun mount_issues :: "string set \<Rightarrow> filesystem_mount_request list \<Rightarrow> string list" where
  "mount_issues labels [] = []"
| "mount_issues labels (m # ms) =
     (if \<not> valid_kebab_id (fm_label m) then [''invalid mount label '' @ fm_label m] else [])
     @ (if fm_label m \<in> labels then [''duplicate mount label '' @ fm_label m] else [])
     @ mount_issues (insert (fm_label m) labels) ms"

definition validate_mounts :: "filesystem_mount_request btree_set \<Rightarrow> string list" where
  "validate_mounts ms =
     require_nonempty ms ''mounts'' @ require_collection_limit (length ms) 32 ''mounts'' @ mount_issues {} ms"

definition valid_canonical_http_host :: "string \<Rightarrow> bool" where
  "valid_canonical_http_host host \<longleftrightarrow>
     (if parses_ip_addr host then True
      else if length host > 253 \<or> starts_with_char host CHR ''.'' \<or> ends_with_char host CHR ''.''
        \<or> contains_str host ''..'' \<or> list_all (\<lambda>c. is_ascii_digit c \<or> c = CHR ''.'') host
      then False
      else list_all
        (\<lambda>label. label \<noteq> [] \<and> length label \<le> 63 \<and> \<not> starts_with_char label CHR ''-''
           \<and> \<not> ends_with_char label CHR ''-''
           \<and> list_all (\<lambda>b. is_ascii_alphanumeric b \<or> b = CHR ''-'') label)
        (str_split CHR ''.'' host))"

definition bad_path_prefix :: "string \<Rightarrow> bool" where
  "bad_path_prefix prefix \<longleftrightarrow>
     \<not> starts_with_char prefix CHR ''/'' \<or> CHR ''?'' \<in> set prefix \<or> CHR ''#'' \<in> set prefix
     \<or> CHR ''%'' \<in> set prefix \<or> CHR 0x5C \<in> set prefix \<or> contains_str prefix ''//''
     \<or> list_ex (\<lambda>c. c = ''.'' \<or> c = ''..'') (str_split CHR ''/'' prefix)
     \<or> (prefix \<noteq> ''/'' \<and> \<not> ends_with_char prefix CHR ''/'')"

definition validate_http_origin :: "http_origin_rule \<Rightarrow> string list" where
  "validate_http_origin o' =
     (if ho_scheme o' \<noteq> ''https'' \<and> ho_scheme o' \<noteq> ''http''
      then [''unsupported HTTP scheme '' @ ho_scheme o'] else [])
     @ (if ho_host o' = [] \<or> \<not> str_is_ascii (ho_host o') \<or> list_ex is_ascii_uppercase (ho_host o')
          \<or> \<not> valid_canonical_http_host (ho_host o')
        then [''HTTP host '' @ ho_host o' @ '' is not canonical''] else [])
     @ (if ho_port o' = 0 then [''HTTP origin port must be nonzero''] else [])
     @ map (\<lambda>p. ''HTTP path prefix '' @ p @ '' must be an absolute directory prefix ending in /'')
         (filter bad_path_prefix (ho_path_prefixes o'))"

definition validate_dbus_rule :: "string \<Rightarrow> string \<Rightarrow> string \<Rightarrow> string \<Rightarrow> string list" where
  "validate_dbus_rule destination path interface member =
     (if starts_with_char destination CHR '':''
        \<or> \<not> (valid_dotted_name destination
              \<or> (case strip_suffix ''.*'' destination of Some p \<Rightarrow> valid_dotted_name p | None \<Rightarrow> False))
      then [''invalid D-Bus well-known name '' @ destination] else [])
     @ (if \<not> starts_with_char path CHR ''/'' \<or> contains_str path ''//'' \<or> CHR ''*'' \<in> set path
        then [''invalid D-Bus object path '' @ path] else [])
     @ (if \<not> valid_dotted_name interface \<or> \<not> valid_member member
        then [''invalid D-Bus interface or member '' @ interface @ ''.'' @ member] else [])"

fun constraint_issues :: "nat set \<Rightarrow> dbus_argument_constraint list \<Rightarrow> string list" where
  "constraint_issues indices [] = []"
| "constraint_issues indices (a # as) =
     (if da_index a \<in> indices then [''duplicate D-Bus argument constraint '' @ show_nat (da_index a)] else [])
     @ (if (da_equals_string a \<noteq> None) = (da_one_of_strings a \<noteq> None)
        then [''D-Bus argument constraint requires exactly one matcher''] else [])
     @ (if da_one_of_strings a = Some []
        then [''D-Bus argument one_of_strings must not be empty''] else [])
     @ constraint_issues (insert (da_index a) indices) as"

fun validate_command_argument :: "command_argument \<Rightarrow> string list" where
  "validate_command_argument (ArgLiteral v) =
     (if length v > 4096 \<or> CHR 0x00 \<in> set v then [''invalid literal command argument''] else [])"
| "validate_command_argument (ArgBoundedInteger name minimum maximum) =
     (if \<not> valid_kebab_id name \<or> minimum > maximum
      then [''invalid bounded integer argument '' @ name] else [])"
| "validate_command_argument (ArgFixedEnum name vs) =
     (if \<not> valid_kebab_id name \<or> vs = [] \<or> length vs > 64
        \<or> list_ex (\<lambda>v. length v > 4096 \<or> CHR 0x00 \<in> set v) vs
      then [''invalid fixed enum argument '' @ name] else [])"
| "validate_command_argument (ArgBoundedText name maximum) =
     (if \<not> valid_kebab_id name \<or> maximum = 0 \<or> maximum > 4096
      then [''invalid bounded text argument '' @ name] else [])"
| "validate_command_argument (ArgApprovedFile name mount) =
     (if \<not> valid_kebab_id name \<or> \<not> valid_kebab_id mount
      then [''invalid approved file argument '' @ name] else [])"
| "validate_command_argument (ArgUrl name schemes) =
     (if \<not> valid_kebab_id name \<or> schemes = [] \<or> \<not> list_all valid_scheme schemes
      then [''invalid URL argument '' @ name] else [])"

fun command_argument_name :: "command_argument \<Rightarrow> string option" where
  "command_argument_name (ArgLiteral _) = None"
| "command_argument_name (ArgBoundedInteger name _ _) = Some name"
| "command_argument_name (ArgFixedEnum name _) = Some name"
| "command_argument_name (ArgBoundedText name _) = Some name"
| "command_argument_name (ArgApprovedFile name _) = Some name"
| "command_argument_name (ArgUrl name _) = Some name"

fun argument_issues :: "string set \<Rightarrow> command_argument list \<Rightarrow> string list" where
  "argument_issues names [] = []"
| "argument_issues names (a # as) =
     validate_command_argument a
     @ (case command_argument_name a of
          None \<Rightarrow> argument_issues names as
        | Some name \<Rightarrow>
            (if name \<in> names then [''duplicate command argument name '' @ name] else [])
            @ argument_issues (insert name names) as)"

definition environment_issues :: "string \<times> string \<Rightarrow> string list" where
  "environment_issues nv =
     (case nv of (name, v) \<Rightarrow>
        (if \<not> valid_environment_name name \<or> dangerous_environment_name name
         then [''invalid environment name '' @ name] else [])
        @ (if length v > 4096 \<or> CHR 0x00 \<in> set v
           then [''invalid environment value for '' @ name] else []))"

definition command_issues :: "string set \<Rightarrow> command_rule \<Rightarrow> string list" where
  "command_issues ids c =
     (if \<not> valid_kebab_id (cmd_id c) \<or> cmd_id c \<in> ids then [''invalid command id '' @ cmd_id c] else [])
     @ (if \<not> normalized_absolute_path (cmd_executable c)
        then [''command executable '' @ cmd_executable c @ '' must be an absolute normalized path''] else [])
     @ require_nonzero (cmd_maximum_output_bytes c) ''maximum_output_bytes''
     @ require_nonzero (cmd_timeout_milliseconds c) ''timeout_milliseconds''
     @ require_at_most (cmd_maximum_output_bytes c) (1024 * 1024) ''maximum_output_bytes''
     @ require_at_most (cmd_timeout_milliseconds c) 60000 ''timeout_milliseconds''
     @ require_collection_limit (length (cmd_arguments c)) 32 ''command arguments''
     @ argument_issues {} (cmd_arguments c)
     @ require_collection_limit (length (cmd_environment c)) 16 ''command environment''
     @ concat (map environment_issues (bt_entries (cmd_environment c)))
     @ (case cmd_working_directory c of
          None \<Rightarrow> []
        | Some d \<Rightarrow>
            if \<not> normalized_absolute_path d
            then [''command working_directory must be an absolute normalized path''] else [])"

text \<open>An identifier is only recorded when it is well formed: the code tests it before inserting it.\<close>

fun commands_issues :: "string set \<Rightarrow> command_rule list \<Rightarrow> string list" where
  "commands_issues ids [] = []"
| "commands_issues ids (c # cs) =
     command_issues ids c
     @ commands_issues (if valid_kebab_id (cmd_id c) then insert (cmd_id c) ids else ids) cs"

definition bad_mime_type :: "string \<Rightarrow> bool" where
  "bad_mime_type mime \<longleftrightarrow>
     mime = [] \<or> length mime > 128 \<or> \<not> str_is_ascii mime \<or> CHR ''/'' \<notin> set mime
     \<or> list_ex is_ascii_space_or_control mime"

section \<open>Scopes\<close>

definition context_read_issues :: "context_read_scope \<Rightarrow> string list" where
  "context_read_issues s =
     require_nonempty (cr_facts s) ''facts'' @ require_collection_limit (length (cr_facts s)) 32 ''facts''
     @ validate_rate (cr_maximum_updates_per_second s)
     @ require_at_most (cr_maximum_updates_per_second s) 60 ''maximum_updates_per_second''
     @ map (\<lambda>f. ''invalid context fact '' @ f) (filter (\<lambda>f. \<not> valid_dotted_id f) (cr_facts s))"

definition filesystem_read_issues :: "filesystem_read_scope \<Rightarrow> string list" where
  "filesystem_read_issues s =
     validate_mounts (fr_mounts s) @ require_nonzero (fr_maximum_file_bytes s) ''maximum_file_bytes''
     @ require_at_most (fr_maximum_file_bytes s) (64 * 1024 * 1024) ''maximum_file_bytes''"

definition filesystem_write_issues :: "filesystem_write_scope \<Rightarrow> string list" where
  "filesystem_write_issues s =
     validate_mounts (fw_mounts s) @ require_nonempty (fw_operations s) ''operations''
     @ require_nonzero (fw_maximum_file_bytes s) ''maximum_file_bytes''
     @ require_nonzero (fw_maximum_total_bytes_per_hour s) ''maximum_total_bytes_per_hour''
     @ require_at_most (fw_maximum_file_bytes s) (64 * 1024 * 1024) ''maximum_file_bytes''
     @ require_at_most (fw_maximum_total_bytes_per_hour s) (1024 * 1024 * 1024) ''maximum_total_bytes_per_hour''"

definition http_request_issues :: "http_request_scope \<Rightarrow> string list" where
  "http_request_issues s =
     require_nonempty (hr_origins s) ''origins'' @ require_nonempty (hr_methods s) ''methods''
     @ require_nonzero (hr_maximum_request_bytes s) ''maximum_request_bytes''
     @ require_nonzero (hr_maximum_response_bytes s) ''maximum_response_bytes''
     @ validate_rate (hr_maximum_requests_per_minute s)
     @ require_at_most (hr_maximum_request_bytes s) (4 * 1024 * 1024) ''maximum_request_bytes''
     @ require_at_most (hr_maximum_response_bytes s) (32 * 1024 * 1024) ''maximum_response_bytes''
     @ require_at_most (hr_maximum_requests_per_minute s) 600 ''maximum_requests_per_minute''
     @ concat (map validate_http_origin (hr_origins s))"

definition dbus_call_issues :: "dbus_call_rule btree_set \<Rightarrow> string list" where
  "dbus_call_issues rules =
     require_nonempty rules ''rules'' @ require_collection_limit (length rules) 64 ''rules''
     @ concat (map (\<lambda>r. validate_dbus_rule (dc_destination r) (dc_path r) (dc_interface r) (dc_member r)
                        @ constraint_issues {} (dc_arguments r)) rules)"

definition dbus_subscribe_issues :: "dbus_subscribe_scope \<Rightarrow> string list" where
  "dbus_subscribe_issues s =
     require_nonempty (dss_rules s) ''rules'' @ validate_rate (dss_maximum_events_per_second s)
     @ require_at_most (dss_maximum_events_per_second s) 120 ''maximum_events_per_second''
     @ require_collection_limit (length (dss_rules s)) 64 ''rules''
     @ concat (map (\<lambda>r. validate_dbus_rule (ds_sender r) (ds_path r) (ds_interface r) (ds_member r)) (dss_rules s))"

definition command_run_issues :: "command_run_scope \<Rightarrow> string list" where
  "command_run_issues s =
     require_nonempty (crs_commands s) ''commands''
     @ (if crs_maximum_parallel_processes s = 0 then [''maximum_parallel_processes must be nonzero''] else [])
     @ require_at_most (crs_maximum_parallel_processes s) 4 ''maximum_parallel_processes''
     @ require_collection_limit (length (crs_commands s)) 32 ''commands''
     @ commands_issues {} (crs_commands s)"

definition clipboard_issues :: "clipboard_scope \<Rightarrow> string list" where
  "clipboard_issues s =
     require_nonempty (cl_mime_types s) ''mime_types''
     @ require_collection_limit (length (cl_mime_types s)) 16 ''mime_types''
     @ require_nonzero (cl_maximum_bytes s) ''maximum_bytes''
     @ require_at_most (cl_maximum_bytes s) (4 * 1024 * 1024) ''maximum_bytes''
     @ validate_rate (cl_maximum_operations_per_minute s)
     @ require_at_most (cl_maximum_operations_per_minute s) 60 ''maximum_operations_per_minute''
     @ map (\<lambda>m. ''invalid MIME type '' @ m) (filter bad_mime_type (cl_mime_types s))"

definition secret_read_issues :: "string btree_set \<Rightarrow> string list" where
  "secret_read_issues names =
     require_nonempty names ''logical_names'' @ validate_kebab_set names ''secret''"

definition notification_send_issues :: "notification_scope \<Rightarrow> string list" where
  "notification_send_issues s =
     require_nonempty (no_categories s) ''categories'' @ require_nonempty (no_urgency s) ''urgency''
     @ validate_rate (no_maximum_per_minute s)
     @ require_at_most (no_maximum_per_minute s) 60 ''maximum_per_minute''
     @ validate_kebab_set (no_categories s) ''notification category''"

definition uri_open_issues :: "uri_open_scope \<Rightarrow> string list" where
  "uri_open_issues s =
     require_nonempty (uo_schemes s) ''schemes''
     @ map (\<lambda>v. ''invalid URI scheme '' @ v) (filter (\<lambda>v. \<not> valid_scheme v) (uo_schemes s))
     @ concat (map validate_http_origin (uo_origins s))"

definition local_connect_issues :: "local_connect_scope \<Rightarrow> string list" where
  "local_connect_issues s =
     require_nonempty (lc_endpoints s) ''endpoints''
     @ require_nonzero (lc_maximum_frame_bytes s) ''maximum_frame_bytes''
     @ require_nonzero (lc_maximum_bytes_per_minute s) ''maximum_bytes_per_minute''
     @ require_at_most (lc_maximum_frame_bytes s) (1024 * 1024) ''maximum_frame_bytes''
     @ require_at_most (lc_maximum_bytes_per_minute s) (64 * 1024 * 1024) ''maximum_bytes_per_minute''
     @ map (\<lambda>e. ''invalid local endpoint '' @ le_label e)
         (filter (\<lambda>e. \<not> valid_kebab_id (le_label e) \<or> \<not> valid_dotted_id (le_protocol e)) (lc_endpoints s))"

definition appearance_provide_issues :: "appearance_provide_scope \<Rightarrow> string list" where
  "appearance_provide_issues s =
     require_nonempty (ap_providers s) ''providers''
     @ require_collection_limit (length (ap_providers s)) 8 ''providers''
     @ validate_mounts (ap_mounts s)
     @ require_nonzero (ap_maximum_file_bytes s) ''maximum_file_bytes''
     @ require_at_most (ap_maximum_file_bytes s) (1024 * 1024) ''maximum_file_bytes''
     @ validate_rate (ap_maximum_updates_per_second s)
     @ require_at_most (ap_maximum_updates_per_second s) 30 ''maximum_updates_per_second''
     @ validate_kebab_set (ap_providers s) ''appearance provider''"

fun scope_issues :: "capability_scope \<Rightarrow> string list" where
  "scope_issues (SContextRead s) = context_read_issues s"
| "scope_issues (SFilesystemRead s) = filesystem_read_issues s"
| "scope_issues (SFilesystemWrite s) = filesystem_write_issues s"
| "scope_issues (SHttpRequest s) = http_request_issues s"
| "scope_issues (SDbusCall rules) = dbus_call_issues rules"
| "scope_issues (SDbusSubscribe s) = dbus_subscribe_issues s"
| "scope_issues (SCommandRun s) = command_run_issues s"
| "scope_issues (SClipboard s) = clipboard_issues s"
| "scope_issues (SSecretRead names) = secret_read_issues names"
| "scope_issues (SNotificationSend s) = notification_send_issues s"
| "scope_issues (SUriOpen s) = uri_open_issues s"
| "scope_issues (SLocalConnect s) = local_connect_issues s"
| "scope_issues (SAppearanceProvide s) = appearance_provide_issues s"
| "scope_issues (SUnknown _) = []"

record normalization_error =
  ne_field :: string
  ne_message :: string

definition validate_scope :: "capability_id \<Rightarrow> capability_scope \<Rightarrow> string \<Rightarrow> normalization_error list" where
  "validate_scope capability scope field =
     map (\<lambda>message. \<lparr>ne_field = field, ne_message = message\<rparr>)
       (scope_issues scope
        @ (if \<not> matches_capability scope capability then [''scope type does not match capability''] else []))"

definition validate_capability_scope ::
  "capability_id \<Rightarrow> capability_scope \<Rightarrow> (normalization_error list, unit) result" where
  "validate_capability_scope capability scope =
     (let errors = validate_scope capability scope ''scope''
            @ (case scope of
                 SUnknown encoded \<Rightarrow>
                   if length encoded > 64 * 1024
                   then [\<lparr>ne_field = ''scope'', ne_message = ''encoded scope exceeds 64 KiB''\<rparr>] else []
               | _ \<Rightarrow> []) in
      if errors = [] then Inr () else Inl errors)"

end
