(* ===== verification/Grants.thy ===== *)
theory Grants
  imports Scope_Validation
begin

text \<open>
  \<^verbatim>\<open>touchbar-policy/src/grant.rs\<close> and the in-memory part of \<^verbatim>\<open>store.rs\<close>: grant records and their
  bindings, session and persistent grants, the effective policy of a package, and the permission
  difference of an update.  A \<^verbatim>\<open>GithubSource\<close> is the pair of owner and repository; versions, which
  the code only stores, are strings.
\<close>

section \<open>Records\<close>

type_synonym github_source = "string \<times> string"

datatype provenance = VerifiedRelease | UnverifiedRelease | LocalDevelopment

datatype reuse_policy = VerifiedSameSource | ExactDigest

datatype decision = Allow | Deny

record package_instance =
  pkg_source :: github_source
  pkg_version :: string
  pkg_digest :: string
  pkg_provenance :: provenance
  pkg_runtime :: runtime_kind

datatype secret_binding = SecretServiceItem string

datatype local_endpoint_binding = UnixStream string

datatype clipboard_binding = WaylandDataControl string

datatype standard_directory_binding = Home | XdgConfig | XdgData | XdgState | XdgCache | XdgRuntime

datatype filesystem_mount_binding =
    MountPath string
  | StandardDirectory standard_directory_binding string

record grant_bindings =
  gb_filesystem_mounts :: "(string, filesystem_mount_binding) btree"
  gb_secrets :: "(string, secret_binding) btree"
  gb_local_endpoints :: "(string, local_endpoint_binding) btree"
  gb_clipboard :: "clipboard_binding option"

definition no_bindings :: grant_bindings where
  "no_bindings = \<lparr>gb_filesystem_mounts = [], gb_secrets = [], gb_local_endpoints = [], gb_clipboard = None\<rparr>"

record grant_record =
  gr_source :: github_source
  gr_capability :: capability_id
  gr_approved_scope :: capability_scope
  gr_bindings :: grant_bindings
  gr_decision :: decision
  gr_reuse :: reuse_policy
  gr_approved_version :: string
  gr_approved_digest :: string

section \<open>Validation\<close>

definition normalized_relative_suffix :: "string \<Rightarrow> bool" where
  "normalized_relative_suffix p \<longleftrightarrow>
     \<not> (path_is_absolute p \<or> list_ex (\<lambda>c. \<not> is_normal c) (path_components p) \<or> CHR 0x00 \<in> set p)"

definition standard_directory ::
  "standard_directory_binding \<Rightarrow> string \<Rightarrow> (string, filesystem_mount_binding) result" where
  "standard_directory directory relative =
     (if \<not> normalized_relative_suffix relative
      then Inl ''standard directory suffix is not normalized and relative''
      else Inr (StandardDirectory directory relative))"

definition valid_dbus_object_path :: "string \<Rightarrow> bool" where
  "valid_dbus_object_path v \<longleftrightarrow>
     (if v = ''/'' then True
      else starts_with_char v CHR ''/'' \<and> \<not> ends_with_char v CHR ''/''
        \<and> list_all (\<lambda>seg. seg \<noteq> [] \<and> list_all (\<lambda>b. is_ascii_alphanumeric b \<or> b = CHR ''_'') seg)
            (str_split CHR ''/'' (tl v)))"

definition validate_digest :: "string \<Rightarrow> (string, unit) result" where
  "validate_digest digest =
     (case strip_prefix ''sha256:'' digest of
        None \<Rightarrow> Inl ''artifact digest must use sha256:<64 lowercase hex>''
      | Some v \<Rightarrow>
          if length v \<noteq> 64 \<or> \<not> list_all (\<lambda>b. is_hex_digit b \<and> \<not> is_ascii_uppercase b) v
          then Inl ''artifact digest must use sha256:<64 lowercase hex>''
          else Inr ())"

fun approved_file_mount :: "command_argument \<Rightarrow> string option" where
  "approved_file_mount (ArgApprovedFile _ mount) = Some mount"
| "approved_file_mount _ = None"

definition expected_filesystem :: "capability_scope \<Rightarrow> string set" where
  "expected_filesystem scope =
     (case scope of
        SFilesystemRead s \<Rightarrow> set (map fm_label (fr_mounts s))
      | SFilesystemWrite s \<Rightarrow> set (map fm_label (fw_mounts s))
      | SCommandRun s \<Rightarrow>
          set (List.map_filter approved_file_mount (concat (map cmd_arguments (crs_commands s))))
      | SAppearanceProvide s \<Rightarrow> set (map fm_label (ap_mounts s))
      | _ \<Rightarrow> {})"

definition expected_secrets :: "capability_scope \<Rightarrow> string set" where
  "expected_secrets scope = (case scope of SSecretRead names \<Rightarrow> set names | _ \<Rightarrow> {})"

definition expected_endpoints :: "capability_scope \<Rightarrow> string set" where
  "expected_endpoints scope = (case scope of SLocalConnect s \<Rightarrow> set (map le_label (lc_endpoints s)) | _ \<Rightarrow> {})"

fun validate_mount_binding :: "filesystem_mount_binding \<Rightarrow> (string, unit) result" where
  "validate_mount_binding (MountPath p) =
     (if \<not> normalized_absolute_path p \<or> CHR 0x00 \<in> set p
      then Inl ''filesystem grant roots must be normalized absolute paths'' else Inr ())"
| "validate_mount_binding (StandardDirectory _ relative) =
     (if \<not> normalized_relative_suffix relative
      then Inl ''standard directory suffixes must be normalized and relative'' else Inr ())"

fun validate_secret_binding :: "secret_binding \<Rightarrow> (string, unit) result" where
  "validate_secret_binding (SecretServiceItem p) =
     (if length p \<le> 1024 \<and> valid_dbus_object_path p then Inr ()
      else Inl ''secret item bindings must be valid D-Bus object paths'')"

definition valid_socket_path :: "string \<Rightarrow> bool" where
  "valid_socket_path p \<longleftrightarrow> normalized_absolute_path p \<and> CHR 0x00 \<notin> set p \<and> length p \<le> 107"

fun validate_endpoint_binding :: "local_endpoint_binding \<Rightarrow> (string, unit) result" where
  "validate_endpoint_binding (UnixStream p) =
     (if valid_socket_path p then Inr ()
      else Inl ''local endpoint bindings must use normalized absolute paths'')"

fun validate_clipboard_binding :: "clipboard_binding \<Rightarrow> (string, unit) result" where
  "validate_clipboard_binding (WaylandDataControl socket) =
     (if valid_socket_path socket then Inr ()
      else Inl ''clipboard socket bindings must be normalized absolute paths'')"

definition check :: "bool \<Rightarrow> string \<Rightarrow> (string, unit) result" where
  "check ok message = (if ok then Inr () else Inl message)"

definition check_all :: "('a \<Rightarrow> (string, unit) result) \<Rightarrow> 'a list \<Rightarrow> (string, unit) result" where
  "check_all f xs = rfold (\<lambda>_. f) () xs"

definition validate_bindings :: "grant_record \<Rightarrow> (string, unit) result" where
  "validate_bindings r =
     (let scope = gr_approved_scope r; b = gr_bindings r in
      if gr_decision r = Deny then
        check (b = no_bindings) ''denied grants cannot retain authority bindings''
      else
        rbind (check (set (bt_keys (gb_filesystem_mounts b)) = expected_filesystem scope)
                ''filesystem grant bindings must exactly match approved mount labels'') (\<lambda>_.
        rbind (check_all validate_mount_binding (bt_values (gb_filesystem_mounts b))) (\<lambda>_.
        rbind (check (set (bt_keys (gb_secrets b)) = expected_secrets scope)
                ''secret grant bindings must exactly match approved logical names'') (\<lambda>_.
        rbind (check_all validate_secret_binding (bt_values (gb_secrets b))) (\<lambda>_.
        rbind (check (set (bt_keys (gb_local_endpoints b)) = expected_endpoints scope)
                ''local endpoint bindings must exactly match approved labels'') (\<lambda>_.
        rbind (check_all validate_endpoint_binding (bt_values (gb_local_endpoints b))) (\<lambda>_.
        rbind (check ((gb_clipboard b \<noteq> None) = (gr_capability r \<in> {ClipboardReadV1, ClipboardWriteV1}))
                ''clipboard grant bindings must exist exactly for clipboard capabilities'') (\<lambda>_.
        (case gb_clipboard b of None \<Rightarrow> Inr () | Some c \<Rightarrow> validate_clipboard_binding c)))))))))"

fun join_errors :: "normalization_error list \<Rightarrow> string" where
  "join_errors [] = []"
| "join_errors [e] = ne_field e @ '': '' @ ne_message e"
| "join_errors (e # es) = ne_field e @ '': '' @ ne_message e @ ''; '' @ join_errors es"

definition grant_validate :: "grant_record \<Rightarrow> (string, unit) result" where
  "grant_validate r =
     rbind (check (matches_capability (gr_approved_scope r) (gr_capability r))
             ''approved scope does not match capability'') (\<lambda>_.
     rbind (case validate_capability_scope (gr_capability r) (gr_approved_scope r) of
              Inl errors \<Rightarrow> Inl (join_errors errors) | Inr _ \<Rightarrow> Inr ()) (\<lambda>_.
     rbind (validate_digest (gr_approved_digest r)) (\<lambda>_.
     rbind (validate_bindings r) (\<lambda>_.
     check (\<not> (gr_reuse r = VerifiedSameSource \<and> \<not> is_known (gr_capability r)))
       ''unknown capabilities cannot use verified-source grant reuse''))))"

section \<open>Stores\<close>

text \<open>\<^verbatim>\<open>SessionGrants\<close> and \<^verbatim>\<open>GrantStore\<close> hold the same map; only a valid record enters it.\<close>

type_synonym grant_map = "(github_source \<times> capability_id, grant_record) btree"

definition grants_insert :: "grant_record \<Rightarrow> grant_map \<Rightarrow> (string, grant_record option \<times> grant_map) result" where
  "grants_insert r records =
     rmap (\<lambda>_. (bt_get records (gr_source r, gr_capability r),
                bt_insert (gr_source r, gr_capability r) r records))
       (grant_validate r)"

definition grants_get :: "grant_map \<Rightarrow> github_source \<Rightarrow> capability_id \<Rightarrow> grant_record option" where
  "grants_get records source capability = bt_get records (source, capability)"

definition session_from_records :: "grant_record list \<Rightarrow> (string, grant_map) result" where
  "session_from_records rs = rfold (\<lambda>records r. rmap snd (grants_insert r records)) [] rs"

text \<open>The records of a parsed document; \<^verbatim>\<open>toml\<close> has read it into a version and a list of records.\<close>

definition store_from_document :: "nat \<Rightarrow> grant_record list \<Rightarrow> (string, grant_map) result" where
  "store_from_document schema_version rs =
     (if schema_version \<noteq> 1
      then Inl (''unsupported schema version '' @ show_nat schema_version @ ''; expected 1'')
      else rfold (\<lambda>records r.
             rbind (grant_validate r)
               (\<lambda>_. if bt_get records (gr_source r, gr_capability r) \<noteq> None
                    then Inl ''duplicate source and capability decision''
                    else Inr (bt_insert (gr_source r, gr_capability r) r records))) [] rs)"

definition store_remove :: "github_source \<Rightarrow> capability_id \<Rightarrow> grant_map \<Rightarrow> grant_record option \<times> grant_map" where
  "store_remove source capability records =
     (bt_get records (source, capability), bt_remove (source, capability) records)"

text \<open>\<^verbatim>\<open>update_records\<close> on the loaded store: all records are checked before any is inserted.\<close>

definition store_update ::
  "grant_record list \<Rightarrow> grant_map \<Rightarrow> (string, grant_record option list \<times> grant_map) result" where
  "store_update rs records =
     rbind (check_all grant_validate rs) (\<lambda>_.
     rfold (\<lambda>acc r. rmap (\<lambda>p. (fst acc @ [fst p], snd p)) (grants_insert r (snd acc))) ([], records) rs)"

section \<open>Effective policy\<close>

datatype capability_status = Granted | StatusDenied | NeedsConsent | StatusUnsupported | DisclosureOnly

record effective_grant =
  eg_request :: capability_request
  eg_status :: capability_status
  eg_approved_scope :: "capability_scope option"
  eg_bindings :: grant_bindings
  eg_from_session :: bool

definition eg_allows :: "effective_grant \<Rightarrow> bool" where
  "eg_allows g \<longleftrightarrow> eg_status g = Granted"

record effective_policy =
  ep_grants :: "effective_grant list"
  ep_blocked :: bool
  ep_trust :: trust_summary

definition status_for_record :: "package_instance \<Rightarrow> capability_request \<Rightarrow> grant_record \<Rightarrow> capability_status" where
  "status_for_record package request r =
     (if gr_decision r = Deny then StatusDenied
      else
        let provenance_allows =
          (case gr_reuse r of
             VerifiedSameSource \<Rightarrow> pkg_provenance package = VerifiedRelease
           | ExactDigest \<Rightarrow> pkg_digest package = gr_approved_digest r) in
        if provenance_allows \<and> is_subset_of (req_scope request) (gr_approved_scope r) then Granted
        else NeedsConsent)"

definition effective_for ::
  "package_instance \<Rightarrow> grant_map \<Rightarrow> grant_map \<Rightarrow> capability_id set \<Rightarrow> capability_request \<Rightarrow> effective_grant" where
  "effective_for package persistent session registry request =
     (let (record, from_session) =
            (case grants_get session (pkg_source package) (req_capability request) of
               Some r \<Rightarrow> (Some r, True)
             | None \<Rightarrow> (grants_get persistent (pkg_source package) (req_capability request), False));
          status =
            (if pkg_runtime package = Native then DisclosureOnly
             else if \<not> registry_supports registry (req_capability request) then StatusUnsupported
             else (case record of
                     None \<Rightarrow> NeedsConsent
                   | Some r \<Rightarrow> status_for_record package request r)) in
      \<lparr>eg_request = request, eg_status = status,
       eg_approved_scope = map_option gr_approved_scope record,
       eg_bindings = (case record of None \<Rightarrow> no_bindings | Some r \<Rightarrow> gr_bindings r),
       eg_from_session = from_session\<rparr>)"

definition calculate_effective_policy ::
  "package_instance \<Rightarrow> capability_request list \<Rightarrow> grant_map \<Rightarrow> grant_map \<Rightarrow> capability_id set \<Rightarrow>
   effective_policy" where
  "calculate_effective_policy package requests persistent session registry =
     (let effective = map (effective_for package persistent session registry) requests in
      \<lparr>ep_grants = effective,
       ep_blocked = (pkg_runtime package = Component
         \<and> list_ex (\<lambda>g. req_required (eg_request g) \<and> \<not> eg_allows g) effective),
       ep_trust = summarize_trust (pkg_runtime package) (map eg_request (filter eg_allows effective))\<rparr>)"

section \<open>Updates\<close>

datatype permission_change_kind = Added | Removed | Expanded | Narrowed | RequirementChanged | Unchanged

record permission_change =
  pc_capability :: capability_id
  pc_kind :: permission_change_kind
  pc_old :: "capability_request option"
  pc_new :: "capability_request option"

definition requires_consent :: "permission_change \<Rightarrow> bool" where
  "requires_consent c \<longleftrightarrow> pc_kind c = Added \<or> pc_kind c = Expanded"

definition request_map :: "capability_request list \<Rightarrow> (capability_id, capability_request) btree" where
  "request_map rs = foldl (\<lambda>m r. bt_insert (req_capability r) r m) [] rs"

fun change_kind :: "capability_request option \<Rightarrow> capability_request option \<Rightarrow> permission_change_kind option" where
  "change_kind None (Some _) = Some Added"
| "change_kind (Some _) None = Some Removed"
| "change_kind (Some old) (Some new) =
     (if \<not> is_subset_of (req_scope new) (req_scope old) then Some Expanded
      else if \<not> is_subset_of (req_scope old) (req_scope new) then Some Narrowed
      else if req_required old \<noteq> req_required new then Some RequirementChanged
      else Some Unchanged)"
| "change_kind None None = None"

definition permission_change_for ::
  "(capability_id, capability_request) btree \<Rightarrow> (capability_id, capability_request) btree \<Rightarrow> capability_id \<Rightarrow>
   permission_change option" where
  "permission_change_for old new c =
     map_option (\<lambda>kind. \<lparr>pc_capability = c, pc_kind = kind, pc_old = bt_get old c, pc_new = bt_get new c\<rparr>)
       (change_kind (bt_get old c) (bt_get new c))"

text \<open>\<open>None\<close> is the \<^verbatim>\<open>unreachable!\<close> branch.\<close>

definition diff_permissions ::
  "capability_request list \<Rightarrow> capability_request list \<Rightarrow> permission_change list option" where
  "diff_permissions old new =
     (let o' = request_map old; n = request_map new in
      those (map (permission_change_for o' n) (sorted_list_of_set (set (bt_keys o' @ bt_keys n)))))"

end
