(* ===== verification/Broker_Executor.thy ===== *)
theory Broker_Executor
  imports Activation Grants
begin

text \<open>
  The worker pool of a supervisor connection (\<^verbatim>\<open>touchbar-plugin-supervisor/src/executor.rs\<close>). Accepted
  jobs wait in a bounded queue, a worker takes a job, runs its backend, looks at the cancellation token
  and sends the result to the completion channel. The supervisor thread keeps the table of active
  operations; it shares one cancellation flag with every job.

  The flags are a store: \<open>ex_flags\<close> holds the addresses of the flags that are set, and a job and its
  entry in the table name the same address. What a backend does is not part of the executor: the
  authorisation of a submitted request and the outcome of running it are arguments of the operations.
  Instants are nanoseconds of the monotonic clock.
\<close>

section \<open>State\<close>

record connection_identity =
  ci_instance_id :: nat
  ci_package :: package_instance

record executor_limits =
  xl_workers :: nat
  xl_queued_operations :: nat
  xl_maximum_active_operations :: nat

definition default_executor_limits :: executor_limits where
  "default_executor_limits =
     \<lparr>xl_workers = 2, xl_queued_operations = 32, xl_maximum_active_operations = 32\<rparr>"

record backend_request =
  brq_identity :: connection_identity
  brq_request_id :: nat
  brq_capability :: capability_id
  brq_authorized_scope :: capability_scope
  brq_bindings :: grant_bindings
  brq_activation :: "activation_context option"
  brq_operation :: string
  brq_payload :: "char list"

record backend_completion =
  bc_request_id :: nat
  bc_capability :: capability_id
  bc_result :: broker_result

record cancellation_token =
  ct_flag :: nat
  ct_deadline :: nat

record active_operation =
  ao_capability :: capability_id
  ao_flag :: nat

record job =
  job_request :: backend_request
  job_cancellation :: cancellation_token

text \<open>A running job carries the result it has decided to send.\<close>

record executor =
  ex_backends :: "capability_id set"
  ex_queue :: "job list"
  ex_running :: "(job \<times> broker_result option) list"
  ex_completions :: "backend_completion list"
  ex_active :: "(nat, active_operation) btree"
  ex_maximum_active_operations :: nat
  ex_queued_operations :: nat
  ex_workers :: nat
  ex_flags :: "nat set"
  ex_next_flag :: nat

definition executor_new :: "executor_limits \<Rightarrow> (string, executor) result" where
  "executor_new limits =
     (if xl_workers limits = 0 \<or> xl_queued_operations limits = 0 \<or> xl_maximum_active_operations limits = 0
      then Inl ''executor limits must be nonzero''
      else Inr \<lparr>ex_backends = {}, ex_queue = [], ex_running = [], ex_completions = [], ex_active = [],
        ex_maximum_active_operations = xl_maximum_active_operations limits,
        ex_queued_operations = xl_queued_operations limits, ex_workers = xl_workers limits,
        ex_flags = {}, ex_next_flag = 0\<rparr>)"

definition executor_register :: "capability_id \<Rightarrow> executor \<Rightarrow> executor" where
  "executor_register capability ex = ex\<lparr>ex_backends := insert capability (ex_backends ex)\<rparr>"

section \<open>Cancellation tokens\<close>

text \<open>\<^verbatim>\<open>Instant::checked_add\<close>: seconds are kept in 63 bits.\<close>

definition instant_checked_add :: "nat \<Rightarrow> nat \<Rightarrow> nat option" where
  "instant_checked_add now d = (if (now + d) div 1000000000 < 2 ^ 63 then Some (now + d) else None)"

definition token_new :: "nat \<Rightarrow> nat \<Rightarrow> nat \<Rightarrow> (broker_error_code, cancellation_token) result" where
  "token_new flag now timeout =
     rmap (\<lambda>deadline. \<lparr>ct_flag = flag, ct_deadline = deadline\<rparr>)
       (ok_or InvalidRequest (instant_checked_add now timeout))"

definition token_reason :: "nat set \<Rightarrow> nat \<Rightarrow> cancellation_token \<Rightarrow> broker_error_code option" where
  "token_reason flags now token =
     (if ct_flag token \<in> flags then Some Cancelled
      else if ct_deadline token \<le> now then Some Timeout
      else None)"

section \<open>The supervisor's side\<close>

type_synonym backend_authorize = "activation_ledger \<Rightarrow> (broker_error_code, unit) result \<times> activation_ledger"

definition executor_submit ::
  "backend_authorize \<Rightarrow> backend_request \<Rightarrow> nat \<Rightarrow> nat \<Rightarrow> activation_ledger \<Rightarrow> executor \<Rightarrow>
   (broker_error_code, unit) result \<times> activation_ledger \<times> executor" where
  "executor_submit authorize request now timeout activations ex =
     (if brq_request_id request = 0 \<or> bt_get (ex_active ex) (brq_request_id request) \<noteq> None
      then (Inl InvalidRequest, activations, ex)
      else if length (ex_active ex) \<ge> ex_maximum_active_operations ex
      then (Inl QuotaExceeded, activations, ex)
      else if brq_capability request \<notin> ex_backends ex then (Inl Unavailable, activations, ex)
      else
        case authorize activations of
          (Inl e, activations') \<Rightarrow> (Inl e, activations', ex)
        | (Inr _, activations') \<Rightarrow>
            let flag = ex_next_flag ex; ex' = ex\<lparr>ex_next_flag := Suc flag\<rparr> in
            (case token_new flag now timeout of
               Inl e \<Rightarrow> (Inl e, activations', ex')
             | Inr token \<Rightarrow>
                 if length (ex_queue ex') < ex_queued_operations ex' then
                   (Inr (), activations',
                    ex'\<lparr>ex_queue := ex_queue ex' @ [\<lparr>job_request = request, job_cancellation = token\<rparr>],
                        ex_active := bt_insert (brq_request_id request)
                          \<lparr>ao_capability = brq_capability request, ao_flag = flag\<rparr> (ex_active ex')\<rparr>)
                 else (Inl QuotaExceeded, activations', ex')))"

definition executor_cancel :: "nat \<Rightarrow> executor \<Rightarrow> bool \<times> executor" where
  "executor_cancel request_id ex =
     (case bt_get (ex_active ex) request_id of
        None \<Rightarrow> (False, ex)
      | Some operation \<Rightarrow> (True, ex\<lparr>ex_flags := insert (ao_flag operation) (ex_flags ex)\<rparr>))"

definition executor_revoke :: "capability_id \<Rightarrow> executor \<Rightarrow> nat list \<times> executor" where
  "executor_revoke capability ex =
     (let revoked = filter (\<lambda>e. ao_capability (snd e) = capability) (bt_entries (ex_active ex)) in
      (map fst revoked, ex\<lparr>ex_flags := ex_flags ex \<union> set (map (ao_flag \<circ> snd) revoked)\<rparr>))"

definition executor_cancel_all :: "executor \<Rightarrow> nat list \<times> executor" where
  "executor_cancel_all ex =
     (bt_keys (ex_active ex),
      ex\<lparr>ex_flags := ex_flags ex \<union> set (map ao_flag (bt_values (ex_active ex)))\<rparr>)"

definition try_completion :: "executor \<Rightarrow> backend_completion option \<times> executor" where
  "try_completion ex =
     (case ex_completions ex of
        [] \<Rightarrow> (None, ex)
      | c # cs \<Rightarrow>
          (Some c, ex\<lparr>ex_completions := cs, ex_active := bt_remove (bc_request_id c) (ex_active ex)\<rparr>))"

section \<open>The workers' side\<close>

text \<open>One turn of the loop of \<^verbatim>\<open>worker\<close> is three steps: receive a job, run it and look at the token, send
  the result. \<open>outcome\<close> is what the backend returns, \<open>None\<close> when it panics.\<close>

definition worker_take :: "executor \<Rightarrow> executor" where
  "worker_take ex =
     (case ex_queue ex of
        [] \<Rightarrow> ex
      | j # js \<Rightarrow>
          if length (ex_running ex) < ex_workers ex
          then ex\<lparr>ex_queue := js, ex_running := ex_running ex @ [(j, None)]\<rparr>
          else ex)"

definition worker_result :: "nat set \<Rightarrow> nat \<Rightarrow> broker_result option \<Rightarrow> job \<Rightarrow> broker_result" where
  "worker_result flags now outcome j =
     (let result = (case outcome of Some r \<Rightarrow> r | None \<Rightarrow> Error BackendFailed) in
      case token_reason flags now (job_cancellation j) of Some e \<Rightarrow> Error e | None \<Rightarrow> result)"

definition worker_run :: "nat \<Rightarrow> nat \<Rightarrow> broker_result option \<Rightarrow> executor \<Rightarrow> executor" where
  "worker_run w now outcome ex =
     (if w < length (ex_running ex) \<and> snd (ex_running ex ! w) = None then
        let j = fst (ex_running ex ! w) in
        ex\<lparr>ex_running := (ex_running ex)[w := (j, Some (worker_result (ex_flags ex) now outcome j))]\<rparr>
      else ex)"

definition worker_send :: "nat \<Rightarrow> executor \<Rightarrow> executor" where
  "worker_send w ex =
     (if w < length (ex_running ex) then
        (case ex_running ex ! w of
           (j, Some r) \<Rightarrow>
             ex\<lparr>ex_running := take w (ex_running ex) @ drop (Suc w) (ex_running ex),
                ex_completions := ex_completions ex
                  @ [\<lparr>bc_request_id = brq_request_id (job_request j),
                      bc_capability = brq_capability (job_request j), bc_result = r\<rparr>]\<rparr>
         | (j, None) \<Rightarrow> ex)
      else ex)"

inductive worker_step :: "executor \<Rightarrow> executor \<Rightarrow> bool" where
  take_job: "worker_step ex (worker_take ex)"
| run_job: "worker_step ex (worker_run w now outcome ex)"
| send_result: "worker_step ex (worker_send w ex)"

section \<open>No operation is lost or duplicated\<close>

definition job_id :: "job \<Rightarrow> nat" where
  "job_id j = brq_request_id (job_request j)"

definition job_flag :: "job \<Rightarrow> nat" where
  "job_flag j = ct_flag (job_cancellation j)"

definition live_jobs :: "executor \<Rightarrow> job list" where
  "live_jobs ex = ex_queue ex @ map fst (ex_running ex)"

definition pipeline :: "executor \<Rightarrow> nat list" where
  "pipeline ex = map job_id (live_jobs ex) @ map bc_request_id (ex_completions ex)"

definition exec_inv :: "executor \<Rightarrow> bool" where
  "exec_inv ex \<longleftrightarrow>
     bt_ok (ex_active ex)
     \<and> mset (pipeline ex) = mset (bt_keys (ex_active ex))
     \<and> length (ex_active ex) \<le> ex_maximum_active_operations ex
     \<and> 0 \<notin> set (bt_keys (ex_active ex))
     \<and> (\<forall>j\<in>set (live_jobs ex). bt_get (ex_active ex) (job_id j) =
          Some \<lparr>ao_capability = brq_capability (job_request j), ao_flag = job_flag j\<rparr>)
     \<and> (\<forall>a\<in>set (bt_values (ex_active ex)). ao_flag a < ex_next_flag ex)
     \<and> (\<forall>f\<in>ex_flags ex. f < ex_next_flag ex)
     \<and> distinct (map ao_flag (bt_values (ex_active ex)))"

lemma bt_keys_insert_mset:
  "bt_ok m \<Longrightarrow> bt_get m k = None \<Longrightarrow> mset (bt_keys (bt_insert k v m)) = add_mset k (mset (bt_keys m))"
  using arg_cong [OF bt.mset_ins_fresh [of m k v], of "image_mset fst"]
  by (simp add: bt_keys_def bt_entries_def)

lemma bt_values_insert_mset:
  "bt_ok m \<Longrightarrow> bt_get m k = None \<Longrightarrow> mset (bt_values (bt_insert k v m)) = add_mset v (mset (bt_values m))"
  using arg_cong [OF bt.mset_ins_fresh [of m k v], of "image_mset snd"]
  by (simp add: bt_values_def bt_entries_def)

lemma bt_keys_remove_mset:
  "bt_ok m \<Longrightarrow> bt_get m k = Some v \<Longrightarrow> mset (bt_keys m) = add_mset k (mset (bt_keys (bt_remove k m)))"
  using arg_cong [OF bt.mset_del_present [of m k v], of "image_mset fst"]
  by (simp add: bt_keys_def bt_entries_def)

lemma bt_values_remove_mset:
  "bt_ok m \<Longrightarrow> bt_get m k = Some v \<Longrightarrow> mset (bt_values m) = add_mset v (mset (bt_values (bt_remove k m)))"
  using arg_cong [OF bt.mset_del_present [of m k v], of "image_mset snd"]
  by (simp add: bt_values_def bt_entries_def)

lemma bt_key_get: "k \<in> set (bt_keys m) \<longleftrightarrow> (\<exists>v. bt_get m k = Some v)"
  using bt_get_None_keys [of m k] by (cases "bt_get m k") auto

lemma bt_distinct_keys: "bt_ok m \<Longrightarrow> distinct (bt_keys m)"
  by (simp add: bt_ok_def bt_keys_def)

lemma exec_inv_pipeline:
  assumes "exec_inv ex"
  shows "distinct (pipeline ex)" and "set (pipeline ex) = set (bt_keys (ex_active ex))"
proof -
  have "mset (pipeline ex) = mset (bt_keys (ex_active ex))" "distinct (bt_keys (ex_active ex))"
    using assms by (simp_all add: exec_inv_def bt_distinct_keys)
  then show "distinct (pipeline ex)" "set (pipeline ex) = set (bt_keys (ex_active ex))"
    using mset_eq_imp_distinct_iff mset_eq_setD by blast+
qed

lemma exec_inv_new [invar_intro]: "executor_new limits = Inr ex \<Longrightarrow> exec_inv ex"
  by (auto simp: executor_new_def exec_inv_def pipeline_def live_jobs_def bt_keys_def bt_values_def split: if_splits)

lemma exec_inv_register [invar_intro]: "exec_inv ex \<Longrightarrow> exec_inv (executor_register c ex)"
  by (simp add: executor_register_def exec_inv_def pipeline_def live_jobs_def)

lemma exec_inv_next_flag: "exec_inv ex \<Longrightarrow> exec_inv (ex\<lparr>ex_next_flag := Suc (ex_next_flag ex)\<rparr>)"
  by (auto simp: exec_inv_def pipeline_def live_jobs_def less_Suc_eq)

lemma exec_inv_flags:
  "exec_inv ex \<Longrightarrow> fs \<subseteq> ao_flag ` set (bt_values (ex_active ex)) \<Longrightarrow> exec_inv (ex\<lparr>ex_flags := ex_flags ex \<union> fs\<rparr>)"
  by (auto simp: exec_inv_def pipeline_def live_jobs_def)

lemma exec_inv_accept:
  assumes inv: "exec_inv ex" and fresh: "bt_get (ex_active ex) (job_id j) = None" "job_id j \<noteq> 0"
    and room: "length (ex_active ex) < ex_maximum_active_operations ex" and flag: "job_flag j = ex_next_flag ex"
  shows "exec_inv (ex\<lparr>ex_next_flag := Suc (ex_next_flag ex), ex_queue := ex_queue ex @ [j],
      ex_active := bt_insert (job_id j)
        \<lparr>ao_capability = brq_capability (job_request j), ao_flag = job_flag j\<rparr> (ex_active ex)\<rparr>)"
    (is "exec_inv ?ex")
proof -
  let ?a = "\<lparr>ao_capability = brq_capability (job_request j), ao_flag = job_flag j\<rparr>"
  have ok: "bt_ok (ex_active ex)" using inv by (simp add: exec_inv_def)
  have keys: "mset (bt_keys (ex_active ?ex)) = add_mset (job_id j) (mset (bt_keys (ex_active ex)))"
    using bt_keys_insert_mset [OF ok fresh(1), of ?a] by simp
  have vals: "mset (bt_values (ex_active ?ex)) = add_mset ?a (mset (bt_values (ex_active ex)))"
    using bt_values_insert_mset [OF ok fresh(1), of ?a] by simp
  have old: "j' \<in> set (live_jobs ex) \<Longrightarrow> job_id j' \<noteq> job_id j" for j'
    using inv fresh(1) by (auto simp: exec_inv_def)
  have valset: "set (bt_values (ex_active ?ex)) = insert ?a (set (bt_values (ex_active ex)))"
    using mset_eq_setD [OF vals [unfolded mset.simps(2) [symmetric]]] by simp
  have flags: "distinct (map ao_flag (bt_values (ex_active ?ex)))"
  proof -
    have "mset (map ao_flag (bt_values (ex_active ?ex))) = mset (job_flag j # map ao_flag (bt_values (ex_active ex)))"
      using arg_cong [OF vals, of "image_mset ao_flag"] by simp
    moreover have "distinct (job_flag j # map ao_flag (bt_values (ex_active ex)))"
      using inv flag by (auto simp: exec_inv_def)
    ultimately show ?thesis using mset_eq_imp_distinct_iff by blast
  qed
  have "length (ex_active ?ex) = Suc (length (ex_active ex))"
    using bt.length_ins_fresh [OF ok fresh(1)] by (simp add: bt_entries_def)
  moreover have "set (bt_keys (ex_active ?ex)) = insert (job_id j) (set (bt_keys (ex_active ex)))"
    using bt_insert_keys [of "job_id j" ?a "ex_active ex"] by (simp add: bt_keys_def)
  moreover have "mset (pipeline ?ex) = add_mset (job_id j) (mset (pipeline ex))"
    by (simp add: pipeline_def live_jobs_def)
  ultimately show ?thesis
    unfolding exec_inv_def using inv keys ok old flags fresh(2) room valset flag
    by (auto simp: exec_inv_def live_jobs_def less_Suc_eq)
qed

lemma executor_submit_cases:
  obtains (rejected) e l ex' where "executor_submit authorize request now timeout l0 ex = (Inl e, l, ex')"
      "ex' = ex \<or> ex' = ex\<lparr>ex_next_flag := Suc (ex_next_flag ex)\<rparr>"
      "l = l0 \<or> (\<exists>r. authorize l0 = (r, l))"
  | (accepted) l j where "job_request j = request" "job_flag j = ex_next_flag ex"
      "bt_get (ex_active ex) (job_id j) = None" "job_id j \<noteq> 0"
      "length (ex_active ex) < ex_maximum_active_operations ex" "authorize l0 = (Inr (), l)"
      "brq_capability request \<in> ex_backends ex"
      "executor_submit authorize request now timeout l0 ex = (Inr (), l,
         ex\<lparr>ex_next_flag := Suc (ex_next_flag ex), ex_queue := ex_queue ex @ [j],
           ex_active := bt_insert (job_id j)
             \<lparr>ao_capability = brq_capability (job_request j), ao_flag = job_flag j\<rparr> (ex_active ex)\<rparr>)"
proof -
  obtain r l ex' where eq: "executor_submit authorize request now timeout l0 ex = (r, l, ex')"
    by (metis surj_pair)
  show ?thesis
  proof (cases r)
    case (Inl e)
    have "(ex' = ex \<or> ex' = ex\<lparr>ex_next_flag := Suc (ex_next_flag ex)\<rparr>) \<and> (l = l0 \<or> (\<exists>r. authorize l0 = (r, l)))"
      using eq [unfolded executor_submit_def Inl Let_def] by (auto split: if_splits prod.splits sum.splits)
    then show ?thesis using rejected eq Inl by blast
  next
    case (Inr u)
    then obtain token where token: "authorize l0 = (Inr (), l)" "token_new (ex_next_flag ex) now timeout = Inr token"
      "brq_request_id request \<noteq> 0" "bt_get (ex_active ex) (brq_request_id request) = None"
      "length (ex_active ex) < ex_maximum_active_operations ex" "brq_capability request \<in> ex_backends ex"
      "length (ex_queue ex) < ex_queued_operations ex"
      using eq [unfolded executor_submit_def Let_def] by (auto split: if_splits prod.splits sum.splits)
    let ?j = "\<lparr>job_request = request, job_cancellation = token\<rparr>"
    have "ct_flag token = ex_next_flag ex" using token(2) by (auto simp: token_new_def)
    then show ?thesis
      using token by (intro accepted [of ?j l]) (auto simp: job_id_def job_flag_def executor_submit_def Let_def)
  qed
qed

lemma exec_inv_submit [invar_intro]:
  assumes "exec_inv ex"
  shows "exec_inv (snd (snd (executor_submit authorize request now timeout l ex)))"
proof (rule executor_submit_cases [of authorize request now timeout l ex])
  fix e l' ex'
  assume "executor_submit authorize request now timeout l ex = (Inl e, l', ex')"
    "ex' = ex \<or> ex' = ex\<lparr>ex_next_flag := Suc (ex_next_flag ex)\<rparr>"
  then show ?thesis using assms exec_inv_next_flag by auto
next
  fix l' j
  assume "bt_get (ex_active ex) (job_id j) = None" "job_id j \<noteq> 0" "job_flag j = ex_next_flag ex"
    "length (ex_active ex) < ex_maximum_active_operations ex" "job_request j = request"
    "executor_submit authorize request now timeout l ex = (Inr (), l',
       ex\<lparr>ex_next_flag := Suc (ex_next_flag ex), ex_queue := ex_queue ex @ [j],
         ex_active := bt_insert (job_id j)
           \<lparr>ao_capability = brq_capability (job_request j), ao_flag = job_flag j\<rparr> (ex_active ex)\<rparr>)"
  then show ?thesis using exec_inv_accept [OF assms, of j] by simp
qed

lemma exec_inv_cancel [invar_intro]: "exec_inv ex \<Longrightarrow> exec_inv (snd (executor_cancel i ex))"
  using exec_inv_flags [of ex "{ao_flag a}" for a] bt_get_Some_value [of "ex_active ex" i]
  by (auto simp: executor_cancel_def exec_inv_def split: option.splits)

lemma exec_inv_revoke [invar_intro]: "exec_inv ex \<Longrightarrow> exec_inv (snd (executor_revoke c ex))"
  unfolding executor_revoke_def Let_def snd_conv
  by (rule exec_inv_flags) (auto simp: bt_values_entries)

lemma exec_inv_cancel_all [invar_intro]: "exec_inv ex \<Longrightarrow> exec_inv (snd (executor_cancel_all ex))"
  unfolding executor_cancel_all_def snd_conv by (rule exec_inv_flags) simp_all

lemma exec_inv_completion [invar_intro]:
  assumes inv: "exec_inv ex"
  shows "exec_inv (snd (try_completion ex))"
proof (cases "ex_completions ex")
  case (Cons c cs)
  let ?i = "bc_request_id c" and ?ex = "snd (try_completion ex)"
  have ex: "?ex = ex\<lparr>ex_completions := cs, ex_active := bt_remove ?i (ex_active ex)\<rparr>"
    by (simp add: try_completion_def Cons)
  have ok: "bt_ok (ex_active ex)" using inv by (simp add: exec_inv_def)
  have pipe: "pipeline ex = map job_id (live_jobs ex) @ ?i # map bc_request_id cs"
    by (simp add: pipeline_def Cons)
  then have notin: "?i \<notin> job_id ` set (live_jobs ex)"
    using exec_inv_pipeline(1) [OF inv] by auto
  obtain a where a: "bt_get (ex_active ex) ?i = Some a"
    using exec_inv_pipeline(2) [OF inv] pipe bt_key_get [of ?i "ex_active ex"] by auto
  note keys = bt_keys_remove_mset [OF ok a] and vals = bt_values_remove_mset [OF ok a]
  have "mset (pipeline ex) = add_mset ?i (mset (pipeline ?ex))"
    using pipe by (simp add: ex pipeline_def live_jobs_def)
  then have "mset (pipeline ?ex) = mset (bt_keys (ex_active ?ex))"
    using inv keys by (simp add: exec_inv_def ex)
  moreover have "length (ex_active ?ex) \<le> ex_maximum_active_operations ex"
    using inv bt.length_del_present [OF ok a] by (simp add: exec_inv_def ex bt_entries_def)
  moreover have "set (bt_keys (ex_active ?ex)) \<subseteq> set (bt_keys (ex_active ex))"
    "set (bt_values (ex_active ?ex)) \<subseteq> set (bt_values (ex_active ex))"
    by (auto simp: ex bt_keys_def bt_values_def bt_remove_def)
  moreover have "distinct (map ao_flag (bt_values (ex_active ?ex)))"
    using inv unfolding ex exec_inv_def bt_values_def bt_remove_def
    by (simp add: distinct_map_filter comp_def)
  moreover have "\<forall>j\<in>set (live_jobs ?ex). bt_get (ex_active ?ex) (job_id j) =
      Some \<lparr>ao_capability = brq_capability (job_request j), ao_flag = job_flag j\<rparr>"
  proof
    fix j
    assume "j \<in> set (live_jobs ?ex)"
    then have j: "j \<in> set (live_jobs ex)" by (simp add: ex live_jobs_def)
    then have "job_id j \<noteq> ?i" using notin by force
    then show "bt_get (ex_active ?ex) (job_id j) =
        Some \<lparr>ao_capability = brq_capability (job_request j), ao_flag = job_flag j\<rparr>"
      using inv ok j by (simp add: exec_inv_def ex)
  qed
  ultimately show ?thesis
    unfolding exec_inv_def using inv ok by (auto simp: exec_inv_def ex)
qed (use assms in \<open>simp add: try_completion_def\<close>)

text \<open>Moving jobs along the pipeline keeps the invariant.\<close>

lemma exec_inv_move:
  assumes "exec_inv ex" and "mset (pipeline ex') = mset (pipeline ex)"
    and "set (live_jobs ex') \<subseteq> set (live_jobs ex)" and "ex_active ex' = ex_active ex"
    and "ex_maximum_active_operations ex' = ex_maximum_active_operations ex"
    and "ex_flags ex' = ex_flags ex" and "ex_next_flag ex' = ex_next_flag ex"
  shows "exec_inv ex'"
  using assms unfolding exec_inv_def by auto

lemma exec_inv_take: "exec_inv ex \<Longrightarrow> exec_inv (worker_take ex)"
  by (rule exec_inv_move [of ex]) (auto simp: worker_take_def pipeline_def live_jobs_def split: list.splits)

lemma exec_inv_run: "exec_inv ex \<Longrightarrow> exec_inv (worker_run w now outcome ex)"
proof (rule exec_inv_move [of ex])
  have "map fst ((ex_running ex)[w := (fst (ex_running ex ! w), r)]) = map fst (ex_running ex)" for r
    by (metis fst_conv list_update_id map_update)
  then have "live_jobs (worker_run w now outcome ex) = live_jobs ex"
    by (simp add: worker_run_def live_jobs_def Let_def)
  moreover have "ex_completions (worker_run w now outcome ex) = ex_completions ex"
    by (simp add: worker_run_def Let_def)
  ultimately show "mset (pipeline (worker_run w now outcome ex)) = mset (pipeline ex)"
    "set (live_jobs (worker_run w now outcome ex)) \<subseteq> set (live_jobs ex)"
    by (simp_all add: pipeline_def)
qed (simp_all add: worker_run_def Let_def)

lemma exec_inv_send: "exec_inv ex \<Longrightarrow> exec_inv (worker_send w ex)"
proof (rule exec_inv_move [of ex])
  show "mset (pipeline (worker_send w ex)) = mset (pipeline ex)"
    and "set (live_jobs (worker_send w ex)) \<subseteq> set (live_jobs ex)"
  proof -
    consider "worker_send w ex = ex"
      | j r where "w < length (ex_running ex)" "ex_running ex ! w = (j, Some r)"
      by (cases "w < length (ex_running ex)"; cases "ex_running ex ! w"; cases "snd (ex_running ex ! w)")
        (auto simp: worker_send_def)
    then have "mset (pipeline (worker_send w ex)) = mset (pipeline ex)
      \<and> set (live_jobs (worker_send w ex)) \<subseteq> set (live_jobs ex)"
    proof cases
      case (2 j r)
      then have split: "ex_running ex = take w (ex_running ex) @ (j, Some r) # drop (Suc w) (ex_running ex)"
        by (metis id_take_nth_drop)
      then have "mset (ex_running ex)
          = mset (take w (ex_running ex) @ (j, Some r) # drop (Suc w) (ex_running ex))" by simp
      then have "mset (map (job_id \<circ> fst) (ex_running ex))
          = mset (map (job_id \<circ> fst) (take w (ex_running ex) @ (j, Some r) # drop (Suc w) (ex_running ex)))"
        by (metis mset_map)
      then show ?thesis
        using 2 by (auto simp: worker_send_def pipeline_def live_jobs_def job_id_def comp_def
            dest: in_set_takeD in_set_dropD)
    qed simp
    then show "mset (pipeline (worker_send w ex)) = mset (pipeline ex)"
      "set (live_jobs (worker_send w ex)) \<subseteq> set (live_jobs ex)" by simp_all
  qed
qed (auto simp: worker_send_def split: prod.splits option.splits)

lemma exec_inv_step [invar_intro]: "worker_step ex ex' \<Longrightarrow> exec_inv ex \<Longrightarrow> exec_inv ex'"
  by (induction rule: worker_step.induct) (simp_all add: exec_inv_take exec_inv_run exec_inv_send)

end
