(* ===== verification/Host_Events.thy ===== *)
theory Host_Events
  imports Ordered_Map Broker_Types
begin

text \<open>
  \<^verbatim>\<open>touchbar-plugin-supervisor/src/events.rs\<close>: the bounded queue between the supervisor
  and a component host.  Capability changes are coalesced per capability, edge events
  (completions and resource events) are a bounded FIFO, and what does not fit is counted and
  reported once.  \<open>drain\<close> is the loop of \<^verbatim>\<open>flush_events\<close>: pop until the queue is empty.
\<close>

datatype host_event =
    HE_CapabilityChanged nat capability_state
  | HE_Completion nat broker_result
  | HE_ResourceEvent nat nat broker_result
  | HE_Overflow nat nat

fun into_message :: "host_event \<Rightarrow> supervisor_message" where
  "into_message (HE_CapabilityChanged generation state) = CapabilityChanged generation state"
| "into_message (HE_Completion request_id result) = Response request_id result"
| "into_message (HE_ResourceEvent resource_id sequence result) = ResourceEvent resource_id sequence result"
| "into_message (HE_Overflow generation dropped) = Overflow generation dropped"

record host_event_queue =
  heq_maximum_state_events :: nat
  heq_maximum_edge_events :: nat
  heq_state_events :: "(string, nat \<times> capability_state) btree"
  heq_edge_events :: "host_event list"
  heq_dropped_edge_events :: nat
  heq_overflow_generation :: nat

definition queue_new :: "nat \<Rightarrow> nat \<Rightarrow> host_event_queue" where
  "queue_new maximum_state maximum_edge =
     \<lparr>heq_maximum_state_events = maximum_state, heq_maximum_edge_events = maximum_edge,
      heq_state_events = [], heq_edge_events = [], heq_dropped_edge_events = 0,
      heq_overflow_generation = 0\<rparr>"

definition push_capability :: "nat \<Rightarrow> capability_state \<Rightarrow> host_event_queue
    \<Rightarrow> (broker_error_code, unit) result \<times> host_event_queue" where
  "push_capability generation state q =
     (if bt_get (heq_state_events q) (cs_capability state) = None
       \<and> heq_maximum_state_events q \<le> length (heq_state_events q)
      then (Inl QuotaExceeded, q)
      else (Inr (), q\<lparr>heq_state_events :=
              bt_insert (cs_capability state) (generation, state) (heq_state_events q)\<rparr>))"

definition record_dropped :: "nat \<Rightarrow> nat \<Rightarrow> host_event_queue \<Rightarrow> host_event_queue" where
  "record_dropped dropped generation q =
     q\<lparr>heq_dropped_edge_events := saturating_add (heq_dropped_edge_events q) dropped,
       heq_overflow_generation := max (heq_overflow_generation q) generation\<rparr>"

definition push_edge :: "host_event \<Rightarrow> nat \<Rightarrow> host_event_queue \<Rightarrow> host_event_queue" where
  "push_edge event generation q =
     (if length (heq_edge_events q) = heq_maximum_edge_events q
      then record_dropped 1 generation q
      else q\<lparr>heq_edge_events := heq_edge_events q @ [event]\<rparr>)"

definition push_completion :: "nat \<Rightarrow> broker_result \<Rightarrow> nat \<Rightarrow> host_event_queue \<Rightarrow> host_event_queue" where
  "push_completion request_id result generation = push_edge (HE_Completion request_id result) generation"

definition push_resource :: "nat \<Rightarrow> nat \<Rightarrow> broker_result \<Rightarrow> nat \<Rightarrow> host_event_queue \<Rightarrow> host_event_queue" where
  "push_resource resource_id sequence result generation =
     push_edge (HE_ResourceEvent resource_id sequence result) generation"

definition queue_pop :: "host_event_queue \<Rightarrow> host_event option \<times> host_event_queue" where
  "queue_pop q =
     (case bt_keys (heq_state_events q) of
        capability # _ \<Rightarrow>
          (case bt_get (heq_state_events q) capability of
             Some (generation, state) \<Rightarrow>
               (Some (HE_CapabilityChanged generation state),
                q\<lparr>heq_state_events := bt_remove capability (heq_state_events q)\<rparr>)
           | None \<Rightarrow> (None, q))
      | [] \<Rightarrow>
          (case heq_edge_events q of
             event # rest \<Rightarrow> (Some event, q\<lparr>heq_edge_events := rest\<rparr>)
           | [] \<Rightarrow>
               if 0 < heq_dropped_edge_events q
               then (Some (HE_Overflow (heq_overflow_generation q) (heq_dropped_edge_events q)),
                     q\<lparr>heq_dropped_edge_events := 0, heq_overflow_generation := 0\<rparr>)
               else (None, q)))"

definition queue_is_empty :: "host_event_queue \<Rightarrow> bool" where
  "queue_is_empty q \<longleftrightarrow>
     heq_state_events q = [] \<and> heq_edge_events q = [] \<and> heq_dropped_edge_events q = 0"

definition queue_measure :: "host_event_queue \<Rightarrow> nat" where
  "queue_measure q = length (heq_state_events q) + length (heq_edge_events q) + min 1 (heq_dropped_edge_events q)"

lemma queue_pop_state:
  "heq_state_events q = (k, g, st) # rest \<Longrightarrow> queue_pop q =
     (Some (HE_CapabilityChanged g st), q\<lparr>heq_state_events := bt_remove k (heq_state_events q)\<rparr>)"
  by (simp add: queue_pop_def bt_keys_def bt_get_def)

lemma queue_pop_edge:
  "heq_state_events q = [] \<Longrightarrow> heq_edge_events q = e # es \<Longrightarrow>
   queue_pop q = (Some e, q\<lparr>heq_edge_events := es\<rparr>)"
  by (simp add: queue_pop_def bt_keys_def)

lemma queue_pop_overflow:
  "heq_state_events q = [] \<Longrightarrow> heq_edge_events q = [] \<Longrightarrow> 0 < heq_dropped_edge_events q \<Longrightarrow>
   queue_pop q = (Some (HE_Overflow (heq_overflow_generation q) (heq_dropped_edge_events q)),
     q\<lparr>heq_dropped_edge_events := 0, heq_overflow_generation := 0\<rparr>)"
  by (simp add: queue_pop_def bt_keys_def)

lemma queue_pop_decreases:
  assumes "queue_pop q = (Some e, q')"
  shows "queue_measure q' < queue_measure q"
proof (cases "heq_state_events q")
  case (Cons entry rest)
  obtain k g st where entry: "entry = (k, g, st)" by (cases entry) auto
  have "length (bt_remove k (heq_state_events q)) < length (heq_state_events q)"
    unfolding Cons entry bt_remove_def using length_filter_le [of _ rest] by (simp add: le_imp_less_Suc)
  then show ?thesis
    using assms queue_pop_state [OF Cons [unfolded entry]] by (auto simp: queue_measure_def)
next
  case Nil
  then show ?thesis
    using assms by (auto simp: queue_pop_def bt_keys_def queue_measure_def split: list.splits if_splits)
qed

function drain :: "host_event_queue \<Rightarrow> host_event list \<times> host_event_queue" where
  "drain q =
     (case queue_pop q of
        (None, q') \<Rightarrow> ([], q')
      | (Some e, q') \<Rightarrow> (let (es, q'') = drain q' in (e # es, q'')))"
  by pat_completeness auto
termination
  by (relation "measure queue_measure") (auto dest: queue_pop_decreases [OF sym])

declare drain.simps [simp del]

definition queue_inv :: "host_event_queue \<Rightarrow> bool" where
  "queue_inv q \<longleftrightarrow> bt_ok (heq_state_events q)
     \<and> length (heq_state_events q) \<le> heq_maximum_state_events q
     \<and> length (heq_edge_events q) \<le> heq_maximum_edge_events q
     \<and> heq_dropped_edge_events q \<le> u64_max
     \<and> (\<forall>k g st. (k, g, st) \<in> set (heq_state_events q) \<longrightarrow> cs_capability st = k)"

inductive queue_step :: "host_event_queue \<Rightarrow> host_event_queue \<Rightarrow> bool" where
  q_capability: "queue_step q (snd (push_capability g st q))"
| q_completion: "queue_step q (push_completion i r g q)"
| q_resource: "queue_step q (push_resource i n r g q)"
| q_dropped: "queue_step q (record_dropped n g q)"
| q_pop: "queue_step q (snd (queue_pop q))"

section \<open>Invariant\<close>

lemma bt_remove_head: "bt_ok ((k, v) # m) \<Longrightarrow> bt_remove k ((k, v) # m) = m"
  by (auto simp: bt_ok_def bt_remove_def intro!: filter_True)

lemma set_bt_insert: "set (bt_insert k v m) \<subseteq> insert (k, v) (set m)"
  by (induction k v m rule: bt_insert.induct) auto

lemma length_bt_insert_le: "bt_ok m \<Longrightarrow> length (bt_insert k v m) \<le> Suc (length m)"
  using bt.length_ins_le by (simp add: bt_entries_def)

lemma length_bt_insert_present:
  "bt_ok m \<Longrightarrow> bt_get m k \<noteq> None \<Longrightarrow> length (bt_insert k v m) = length m"
  using bt.length_ins_present by (auto simp: bt_entries_def)

lemma queue_inv_new: "queue_inv (queue_new a b)"
  by (simp add: queue_inv_def queue_new_def)

lemma queue_inv_push_capability [invar_intro]:
  assumes "queue_inv q"
  shows "queue_inv (snd (push_capability g st q))"
proof -
  have "length (bt_insert (cs_capability st) (g, st) (heq_state_events q)) \<le> heq_maximum_state_events q"
    if "\<not> (bt_get (heq_state_events q) (cs_capability st) = None
       \<and> heq_maximum_state_events q \<le> length (heq_state_events q))"
    using that assms length_bt_insert_le [of "heq_state_events q" "cs_capability st" "(g, st)"]
      length_bt_insert_present [of "heq_state_events q" "cs_capability st" "(g, st)"]
    by (cases "bt_get (heq_state_events q) (cs_capability st)") (auto simp: queue_inv_def)
  then show ?thesis
    using assms set_bt_insert [of "cs_capability st" "(g, st)" "heq_state_events q"]
    by (auto simp: queue_inv_def push_capability_def)
qed

lemma queue_inv_record_dropped [invar_intro]: "queue_inv q \<Longrightarrow> queue_inv (record_dropped n g q)"
  by (simp add: queue_inv_def record_dropped_def saturating_add_le)

lemma queue_inv_push_edge [invar_intro]: "queue_inv q \<Longrightarrow> queue_inv (push_edge e g q)"
  unfolding push_edge_def by (auto intro: queue_inv_record_dropped) (auto simp: queue_inv_def)

lemma queue_inv_pop [invar_intro]:
  assumes "queue_inv q"
  shows "queue_inv (snd (queue_pop q))"
proof (cases "heq_state_events q")
  case (Cons entry rest)
  obtain k g st where entry: "entry = (k, g, st)" by (cases entry) auto
  have "bt_ok ((k, g, st) # rest)" using assms Cons entry by (simp add: queue_inv_def)
  then show ?thesis
    using assms queue_pop_state [OF Cons [unfolded entry]] Cons entry
    by (auto simp: queue_inv_def bt_remove_head bt_ok_def)
next
  case Nil
  then show ?thesis
    using assms by (auto simp: queue_pop_def bt_keys_def queue_inv_def split: list.splits)
qed

lemma queue_step_inv: "queue_step q q' \<Longrightarrow> queue_inv q \<Longrightarrow> queue_inv q'"
  by (induction rule: queue_step.induct)
    (auto simp: push_completion_def push_resource_def intro: invar_intro)

lemma queue_steps_inv: "queue_step\<^sup>*\<^sup>* q q' \<Longrightarrow> queue_inv q \<Longrightarrow> queue_inv q'"
  by (induction rule: rtranclp_induct) (auto intro: queue_step_inv)

section \<open>Draining\<close>

definition pending_events :: "host_event_queue \<Rightarrow> host_event list" where
  "pending_events q =
     map (\<lambda>(k, g, st). HE_CapabilityChanged g st) (heq_state_events q) @ heq_edge_events q
   @ (if 0 < heq_dropped_edge_events q
      then [HE_Overflow (heq_overflow_generation q) (heq_dropped_edge_events q)] else [])"

lemma queue_pop_pending:
  assumes "queue_inv q"
  shows "queue_pop q = (case pending_events q of
      [] \<Rightarrow> (None, q)
    | e # es \<Rightarrow> (Some e, snd (queue_pop q))) \<and> pending_events (snd (queue_pop q)) = tl (pending_events q)"
proof (cases "heq_state_events q")
  case (Cons entry rest)
  obtain k g st where entry: "entry = (k, g, st)" by (cases entry) auto
  have "bt_ok ((k, g, st) # rest)" using assms Cons entry by (simp add: queue_inv_def)
  then show ?thesis
    using queue_pop_state [OF Cons [unfolded entry]] Cons entry
    by (simp add: pending_events_def bt_remove_head)
next
  case Nil
  then show ?thesis
    by (auto simp: queue_pop_def bt_keys_def pending_events_def split: list.splits)
qed

lemma drain_pending: "queue_inv q \<Longrightarrow> fst (drain q) = pending_events q \<and> pending_events (snd (drain q)) = []"
proof (induction q rule: drain.induct)
  case (1 q)
  note pop = queue_pop_pending [OF 1(2)]
  show ?case
  proof (cases "pending_events q")
    case Nil
    then show ?thesis using pop by (subst (1 2) drain.simps) simp
  next
    case (Cons e es)
    obtain q' where q': "queue_pop q = (Some e, q')" "pending_events q' = es"
      using pop Cons by (cases "queue_pop q") auto
    have "queue_inv q'" using queue_inv_pop [OF 1(2)] q' by simp
    with 1(1) [OF q'(1) [symmetric] refl] q'
    have "fst (drain q') = es \<and> pending_events (snd (drain q')) = []" by simp
    then show ?thesis using q' Cons by (subst (1 2) drain.simps) (auto split: prod.splits)
  qed
qed

lemma pending_events_empty: "pending_events q = [] \<longleftrightarrow> queue_is_empty q"
  by (auto simp: pending_events_def queue_is_empty_def)

section \<open>Properties\<close>

text \<open>Flushing any reachable queue terminates, empties it, and delivers first the coalesced
  capability changes in capability order, then the edge events in the order they were
  accepted, then one overflow report if anything was dropped.\<close>

theorem drain_order:
  assumes "queue_step\<^sup>*\<^sup>* (queue_new a b) q"
  shows "fst (drain q) =
      map (\<lambda>(k, g, st). HE_CapabilityChanged g st) (heq_state_events q) @ heq_edge_events q
      @ (if 0 < heq_dropped_edge_events q
         then [HE_Overflow (heq_overflow_generation q) (heq_dropped_edge_events q)] else [])
    \<and> sorted (map fst (heq_state_events q)) \<and> distinct (map fst (heq_state_events q))
    \<and> queue_is_empty (snd (drain q))"
proof -
  have "queue_inv q" by (rule queue_steps_inv [OF assms queue_inv_new])
  then show ?thesis
    using drain_pending [of q] by (simp add: pending_events_def pending_events_empty [symmetric] queue_inv_def bt_ok_def)
qed

theorem drain_order_witness:
  "fst (drain (push_completion 2 (Success []) 5 (push_completion 1 (Success []) 4 (queue_new 3 1))))
     = [HE_Completion 1 (Success []), HE_Overflow 5 1]"
proof -
  let ?q = "push_completion 2 (Success []) 5 (push_completion 1 (Success []) 4 (queue_new 3 1))"
  have "queue_step\<^sup>*\<^sup>* (queue_new 3 1) ?q"
    by (rule rtranclp.rtrancl_into_rtrancl [OF r_into_rtranclp]) (rule q_completion)+
  from drain_order [OF this] show ?thesis
    by (simp add: push_completion_def push_edge_def queue_new_def record_dropped_def saturating_add_def u64_max_def)
qed

text \<open>Queue memory is bounded in every reachable state, and pushing a batch of edge events
  keeps the longest prefix that fits, in order, and counts every event it could not keep.\<close>

theorem push_edges_bounded:
  assumes "queue_step\<^sup>*\<^sup>* (queue_new a b) q" and "free = b - length (heq_edge_events q)"
    and "heq_dropped_edge_events q + length es \<le> u64_max"
  shows "heq_edge_events (fold (\<lambda>e. push_edge e g) es q) = heq_edge_events q @ take free es
    \<and> heq_dropped_edge_events (fold (\<lambda>e. push_edge e g) es q) = heq_dropped_edge_events q + (length es - free)
    \<and> length (heq_edge_events q) \<le> b \<and> length (heq_state_events q) \<le> a"
proof -
  have steps: "heq_maximum_edge_events q = b \<and> heq_maximum_state_events q = a"
    using assms(1)
  proof (induction rule: rtranclp_induct)
    case (step q q')
    from step(2) have "heq_maximum_edge_events q' = heq_maximum_edge_events q
        \<and> heq_maximum_state_events q' = heq_maximum_state_events q"
      by (induction rule: queue_step.induct)
        (auto simp: push_capability_def push_completion_def push_resource_def push_edge_def
          record_dropped_def queue_pop_def split: list.splits option.splits)
    with step(3) show ?case by simp
  qed (simp add: queue_new_def)
  have inv: "queue_inv q" by (rule queue_steps_inv [OF assms(1) queue_inv_new])
  have "heq_edge_events (fold (\<lambda>e. push_edge e g) es q) = heq_edge_events q @ take (b - length (heq_edge_events q)) es
    \<and> heq_dropped_edge_events (fold (\<lambda>e. push_edge e g) es q)
      = heq_dropped_edge_events q + (length es - (b - length (heq_edge_events q)))"
    if "length (heq_edge_events q) \<le> b" "heq_maximum_edge_events q = b"
      "heq_dropped_edge_events q + length es \<le> u64_max" for q
    using that
  proof (induction es arbitrary: q)
    case (Cons e es)
    show ?case
    proof (cases "length (heq_edge_events q) = b")
      case True
      then show ?thesis
        using Cons.IH [of "push_edge e g q"] Cons.prems
        by (simp add: push_edge_def record_dropped_def saturating_add_def)
    next
      case False
      then show ?thesis
        using Cons.IH [of "push_edge e g q"] Cons.prems
        by (simp add: push_edge_def take_Cons' Suc_diff_Suc)
    qed
  qed simp
  then show ?thesis using inv steps assms(2,3) by (simp add: queue_inv_def)
qed

theorem push_edges_bounded_witness:
  "heq_dropped_edge_events (fold (\<lambda>e. push_edge e 1)
     [HE_Completion 1 (Success []), HE_Completion 2 (Success [])] (queue_new 3 1)) = 1"
  using push_edges_bounded [of 3 1 "queue_new 3 1" 1
      "[HE_Completion 1 (Success []), HE_Completion 2 (Success [])]" 1]
  by (simp add: queue_new_def u64_max_def)

text \<open>A capability change is never lost to coalescing: after it is accepted, the latest
  state of that capability is the one queued, and the other capabilities keep theirs.\<close>

theorem push_capability_latest_wins:
  assumes "queue_step\<^sup>*\<^sup>* (queue_new a b) q" and "push_capability g st q = (Inr (), q')"
  shows "bt_get (heq_state_events q') k =
      (if k = cs_capability st then Some (g, st) else bt_get (heq_state_events q) k)
    \<and> heq_edge_events q' = heq_edge_events q"
proof -
  have "queue_inv q" by (rule queue_steps_inv [OF assms(1) queue_inv_new])
  then show ?thesis
    using assms(2) by (auto simp: push_capability_def queue_inv_def split: if_splits)
qed

theorem push_capability_latest_wins_witness:
  "bt_get (heq_state_events (snd (push_capability 2 \<lparr>cs_capability = ''a.b'', cs_required = False, cs_status = WDenied\<rparr>
      (queue_new 1 1)))) ''a.b'' = Some (2, \<lparr>cs_capability = ''a.b'', cs_required = False, cs_status = WDenied\<rparr>)"
proof -
  let ?st = "\<lparr>cs_capability = ''a.b'', cs_required = False, cs_status = WDenied\<rparr>"
  have p: "push_capability 2 ?st (queue_new 1 1) = (Inr (), snd (push_capability 2 ?st (queue_new 1 1)))"
    by (simp add: push_capability_def queue_new_def)
  show ?thesis using push_capability_latest_wins [OF rtranclp.rtrancl_refl p, of "''a.b''"] by simp
qed

end
