(* ===== verification/Broker_Wire.thy ===== *)
theory Broker_Wire
  imports Wire Broker_Types
begin

text \<open>
  The packets of \<^verbatim>\<open>touchbar-protocol/src/broker_ipc.rs\<close>: \<^verbatim>\<open>Encoder\<close>, \<^verbatim>\<open>Decoder\<close>, the code tables and
  \<^verbatim>\<open>encode_host\<close>, \<^verbatim>\<open>decode_host\<close>, \<^verbatim>\<open>encode_supervisor\<close>, \<^verbatim>\<open>decode_supervisor\<close>, with the length checks
  of \<^verbatim>\<open>Seqpacket\<close> around the system calls.

  An encoder is the byte list written so far.  A decoder keeps the packet and an offset, as the
  code does.  \<open>reads\<close> relates a decoder before and after a field to the bytes of that field; each
  field of the decoder is an instance of the locale \<open>wire_field\<close>.
\<close>

section \<open>Limits and errors\<close>

definition BROKER_PROTOCOL_VERSION :: nat where "BROKER_PROTOCOL_VERSION = 1"
definition MAX_BROKER_PACKET_BYTES :: nat where "MAX_BROKER_PACKET_BYTES = 64 * 1024"
definition MAX_INLINE_PAYLOAD_BYTES :: nat where "MAX_INLINE_PAYLOAD_BYTES = 60 * 1024"
definition MAX_CAPABILITY_ID_BYTES :: nat where "MAX_CAPABILITY_ID_BYTES = 128"
definition MAX_OPERATION_ID_BYTES :: nat where "MAX_OPERATION_ID_BYTES = 128"
definition BROKER_MAGIC :: "char list" where "BROKER_MAGIC = ''OTBP''"

lemmas broker_limits = BROKER_PROTOCOL_VERSION_def MAX_BROKER_PACKET_BYTES_def
  MAX_INLINE_PAYLOAD_BYTES_def MAX_CAPABILITY_ID_BYTES_def MAX_OPERATION_ID_BYTES_def

datatype io_error_kind = BrokenPipe | ConnectionAborted | ConnectionReset | NotConnected | WouldBlock | OtherError

datatype transport_error =
    Io io_error_kind
  | Disconnected
  | Oversized
  | Malformed string
  | UnsupportedVersion nat

fun transport_error_from :: "io_error_kind \<Rightarrow> transport_error" where
  "transport_error_from BrokenPipe = Disconnected"
| "transport_error_from ConnectionAborted = Disconnected"
| "transport_error_from ConnectionReset = Disconnected"
| "transport_error_from NotConnected = Disconnected"
| "transport_error_from WouldBlock = Io WouldBlock"
| "transport_error_from OtherError = Io OtherError"

section \<open>Codes\<close>

fun phase_code :: "callback_phase \<Rightarrow> nat" where
  "phase_code PhItems = 1"
| "phase_code PhRender = 2"
| "phase_code PhInput = 3"
| "phase_code PhHostEvent = 4"
| "phase_code PhLifecycle = 5"

definition decode_phase :: "nat \<Rightarrow> (transport_error, callback_phase) result" where
  "decode_phase v =
     (if v = 1 then Inr PhItems else if v = 2 then Inr PhRender else if v = 3 then Inr PhInput
      else if v = 4 then Inr PhHostEvent else if v = 5 then Inr PhLifecycle
      else Inl (Malformed ''invalid callback phase''))"

fun origin_code :: "activation_origin \<Rightarrow> nat" where
  "origin_code Physical = 1"
| "origin_code TrustedControl = 2"
| "origin_code Synthetic = 3"

definition decode_origin :: "nat \<Rightarrow> (transport_error, activation_origin) result" where
  "decode_origin v =
     (if v = 1 then Inr Physical else if v = 2 then Inr TrustedControl else if v = 3 then Inr Synthetic
      else Inl (Malformed ''invalid activation origin''))"

fun status_code :: "wire_capability_status \<Rightarrow> nat" where
  "status_code WGranted = 1"
| "status_code WDenied = 2"
| "status_code WNeedsConsent = 3"
| "status_code WUnsupported = 4"
| "status_code WDisclosureOnly = 5"

definition decode_status :: "nat \<Rightarrow> (transport_error, wire_capability_status) result" where
  "decode_status v =
     (if v = 1 then Inr WGranted else if v = 2 then Inr WDenied else if v = 3 then Inr WNeedsConsent
      else if v = 4 then Inr WUnsupported else if v = 5 then Inr WDisclosureOnly
      else Inl (Malformed ''invalid capability status''))"

fun error_code :: "broker_error_code \<Rightarrow> nat" where
  "error_code Unavailable = 1"
| "error_code Denied = 2"
| "error_code OutOfScope = 3"
| "error_code InvalidRequest = 4"
| "error_code InvalidPhase = 5"
| "error_code ActivationRequired = 6"
| "error_code QuotaExceeded = 7"
| "error_code RateLimited = 8"
| "error_code Timeout = 9"
| "error_code Cancelled = 10"
| "error_code Unsupported = 11"
| "error_code BackendFailed = 12"
| "error_code Internal = 13"

definition decode_error :: "nat \<Rightarrow> (transport_error, broker_error_code) result" where
  "decode_error v =
     (if v = 1 then Inr Unavailable else if v = 2 then Inr Denied else if v = 3 then Inr OutOfScope
      else if v = 4 then Inr InvalidRequest else if v = 5 then Inr InvalidPhase
      else if v = 6 then Inr ActivationRequired else if v = 7 then Inr QuotaExceeded
      else if v = 8 then Inr RateLimited else if v = 9 then Inr Timeout
      else if v = 10 then Inr Cancelled else if v = 11 then Inr Unsupported
      else if v = 12 then Inr BackendFailed else if v = 13 then Inr Internal
      else Inl (Malformed ''invalid broker error code''))"

section \<open>Encoder\<close>

type_synonym encoder = "char list"

definition enc_u8 :: "nat \<Rightarrow> encoder \<Rightarrow> encoder" where
  "enc_u8 v e = e @ le_bytes 1 v"

definition enc_u16 :: "nat \<Rightarrow> encoder \<Rightarrow> encoder" where
  "enc_u16 v e = e @ le_bytes 2 v"

definition enc_u32 :: "nat \<Rightarrow> encoder \<Rightarrow> encoder" where
  "enc_u32 v e = e @ le_bytes 4 v"

definition enc_u64 :: "nat \<Rightarrow> encoder \<Rightarrow> encoder" where
  "enc_u64 v e = e @ le_bytes 8 v"

definition encoder_new :: "nat \<Rightarrow> encoder" where
  "encoder_new kind = enc_u8 0 (enc_u8 kind (enc_u16 BROKER_PROTOCOL_VERSION BROKER_MAGIC))"

definition enc_string :: "string \<Rightarrow> nat \<Rightarrow> encoder \<Rightarrow> (transport_error, encoder) result" where
  "enc_string v maximum e =
     (if v = [] \<or> length v > maximum \<or> length v > 65535
      then Inl (Malformed ''string length is outside its limit'')
      else Inr (enc_u16 (length v) e @ v))"

definition enc_bytes :: "char list \<Rightarrow> encoder \<Rightarrow> (transport_error, encoder) result" where
  "enc_bytes v e = (if length v > u32_max then Inl Oversized else Inr (enc_u32 (length v) e @ v))"

definition enc_state :: "capability_state \<Rightarrow> encoder \<Rightarrow> (transport_error, encoder) result" where
  "enc_state s e =
     rbind (enc_string (cs_capability s) MAX_CAPABILITY_ID_BYTES e)
       (\<lambda>e. Inr (enc_u8 (status_code (cs_status s)) (enc_u8 (of_bool (cs_required s)) e)))"

definition enc_states :: "capability_state list \<Rightarrow> encoder \<Rightarrow> (transport_error, encoder) result" where
  "enc_states ss e =
     (if length ss > 64 then Inl (Malformed ''too many capability states'')
      else rfold (\<lambda>e s. enc_state s e) (enc_u16 (length ss) e) ss)"

definition encoder_finish :: "encoder \<Rightarrow> (transport_error, char list) result" where
  "encoder_finish e = (if length e > MAX_BROKER_PACKET_BYTES then Inl Oversized else Inr e)"

fun encode_result :: "broker_result \<Rightarrow> encoder \<Rightarrow> (transport_error, encoder) result" where
  "encode_result (Success payload) e =
     (if length payload > MAX_INLINE_PAYLOAD_BYTES then Inl Oversized
      else enc_bytes payload (enc_u8 0 e))"
| "encode_result (Error code) e = Inr (enc_u8 (error_code code) (enc_u8 1 e))"

definition enc_activation :: "activation_context option \<Rightarrow> encoder \<Rightarrow> (transport_error, encoder) result" where
  "enc_activation activation e =
     (case activation of
        None \<Rightarrow> Inr (enc_u8 0 e)
      | Some a \<Rightarrow>
          rbind (enc_string (ac_item_id a) 256
                  (enc_u64 (ac_surface_instance a) (enc_u8 (origin_code (ac_origin a)) (enc_u8 1 e))))
            (\<lambda>e. Inr (enc_u64 (ac_deadline_monotonic_micros a)
                       (enc_u64 (ac_input_sequence a) (enc_u64 (ac_widget_id a) e)))))"

fun host_kind :: "host_message \<Rightarrow> nat" where
  "host_kind (GetCapabilities _) = 1"
| "host_kind (Request _ _ _ _ _ _) = 2"
| "host_kind (Cancel _ _) = 3"
| "host_kind (Close _ _) = 4"

fun host_body :: "host_message \<Rightarrow> encoder \<Rightarrow> (transport_error, encoder) result" where
  "host_body (GetCapabilities _) e = Inr e"
| "host_body (Request _ phase capability operation payload activation) e =
     (if length payload > MAX_INLINE_PAYLOAD_BYTES then Inl Oversized
      else
        rbind (enc_string capability MAX_CAPABILITY_ID_BYTES (enc_u8 (phase_code phase) e))
          (\<lambda>e. rbind (enc_string operation MAX_OPERATION_ID_BYTES e)
             (\<lambda>e. rbind (enc_bytes payload e) (enc_activation activation))))"
| "host_body (Cancel _ target) e = Inr (enc_u64 target e)"
| "host_body (Close _ resource) e = Inr (enc_u64 resource e)"

definition encode_host :: "host_message \<Rightarrow> (transport_error, char list) result" where
  "encode_host m =
     rbind (host_body m (enc_u64 (host_request_id m) (encoder_new (host_kind m)))) encoder_finish"

fun supervisor_kind :: "supervisor_message \<Rightarrow> nat" where
  "supervisor_kind (Capabilities _ _ _) = 101"
| "supervisor_kind (Response _ _) = 102"
| "supervisor_kind (CapabilityChanged _ _) = 103"
| "supervisor_kind (Shutdown _ _) = 104"
| "supervisor_kind (Overflow _ _) = 105"
| "supervisor_kind (ResourceEvent _ _ _) = 106"

fun supervisor_body :: "supervisor_message \<Rightarrow> encoder \<Rightarrow> (transport_error, encoder) result" where
  "supervisor_body (Capabilities request generation states) e =
     enc_states states (enc_u64 generation (enc_u64 request e))"
| "supervisor_body (Response request r) e = encode_result r (enc_u64 request e)"
| "supervisor_body (CapabilityChanged generation state) e = enc_state state (enc_u64 generation e)"
| "supervisor_body (Shutdown generation reason) e =
     Inr (enc_u8 (error_code reason) (enc_u64 generation e))"
| "supervisor_body (Overflow generation dropped) e = Inr (enc_u64 dropped (enc_u64 generation e))"
| "supervisor_body (ResourceEvent resource sequence r) e =
     encode_result r (enc_u64 sequence (enc_u64 resource e))"

definition encode_supervisor :: "supervisor_message \<Rightarrow> (transport_error, char list) result" where
  "encode_supervisor m = rbind (supervisor_body m (encoder_new (supervisor_kind m))) encoder_finish"

section \<open>Decoder\<close>

record decoder =
  dec_packet :: "char list"
  dec_offset :: nat

definition decoder_new :: "char list \<Rightarrow> (transport_error, nat \<times> decoder) result" where
  "decoder_new p =
     (if length p < 8 \<or> take 4 p \<noteq> BROKER_MAGIC then Inl (Malformed ''bad header magic'')
      else
        let version = le_value [p ! 4, p ! 5] in
        if version \<noteq> BROKER_PROTOCOL_VERSION then Inl (UnsupportedVersion version)
        else if p ! 7 \<noteq> char_of (0 :: nat) then Inl (Malformed ''nonzero reserved header byte'')
        else Inr (of_char (p ! 6), \<lparr>dec_packet = p, dec_offset = 8\<rparr>))"

definition dec_take :: "nat \<Rightarrow> decoder \<Rightarrow> (transport_error, char list \<times> decoder) result" where
  "dec_take n d =
     rbind (ok_or (Malformed ''length overflow'') (checked_add (dec_offset d) n))
       (\<lambda>stop. if stop \<le> length (dec_packet d)
               then Inr (take n (drop (dec_offset d) (dec_packet d)), d\<lparr>dec_offset := stop\<rparr>)
               else Inl (Malformed ''truncated packet''))"

definition dec_uint :: "nat \<Rightarrow> decoder \<Rightarrow> (transport_error, nat \<times> decoder) result" where
  "dec_uint n d = rmap (\<lambda>(bs, d). (le_value bs, d)) (dec_take n d)"

definition dec_u8 where "dec_u8 = dec_uint 1"
definition dec_u16 where "dec_u16 = dec_uint 2"
definition dec_u32 where "dec_u32 = dec_uint 4"
definition dec_u64 where "dec_u64 = dec_uint 8"

definition dec_string :: "nat \<Rightarrow> decoder \<Rightarrow> (transport_error, string \<times> decoder) result" where
  "dec_string maximum d =
     rbind (dec_u16 d) (\<lambda>(n, d).
       if n = 0 \<or> n > maximum then Inl (Malformed ''string length is outside its limit'')
       else rbind (dec_take n d) (\<lambda>(v, d).
         if utf8 v then Inr (v, d) else Inl (Malformed ''string is not UTF-8'')))"

definition dec_bytes :: "nat \<Rightarrow> decoder \<Rightarrow> (transport_error, char list \<times> decoder) result" where
  "dec_bytes maximum d =
     rbind (dec_u32 d) (\<lambda>(n, d). if n > maximum then Inl Oversized else dec_take n d)"

text \<open>A one-byte code followed by its table lookup, \<^verbatim>\<open>decode_phase(decoder.u8()?)?\<close> and the like.\<close>

definition dec_code ::
  "(nat \<Rightarrow> (transport_error, 'a) result) \<Rightarrow> decoder \<Rightarrow> (transport_error, 'a \<times> decoder) result" where
  "dec_code table d = rbind (dec_u8 d) (\<lambda>(v, d). rmap (\<lambda>x. (x, d)) (table v))"

definition dec_required :: "nat \<Rightarrow> (transport_error, bool) result" where
  "dec_required v =
     (if v = 0 then Inr False else if v = 1 then Inr True
      else Inl (Malformed ''invalid required marker''))"

definition dec_state :: "decoder \<Rightarrow> (transport_error, capability_state \<times> decoder) result" where
  "dec_state d =
     rbind (dec_string MAX_CAPABILITY_ID_BYTES d) (\<lambda>(capability, d).
     rbind (dec_code dec_required d) (\<lambda>(required, d).
     rbind (dec_code decode_status d) (\<lambda>(status, d).
       Inr (\<lparr>cs_capability = capability, cs_required = required, cs_status = status\<rparr>, d))))"

fun dec_state_list :: "nat \<Rightarrow> decoder \<Rightarrow> (transport_error, capability_state list \<times> decoder) result" where
  "dec_state_list 0 d = Inr ([], d)"
| "dec_state_list (Suc n) d =
     rbind (dec_state d) (\<lambda>(s, d). rbind (dec_state_list n d) (\<lambda>(ss, d). Inr (s # ss, d)))"

definition dec_states :: "decoder \<Rightarrow> (transport_error, capability_state list \<times> decoder) result" where
  "dec_states d =
     rbind (dec_u16 d) (\<lambda>(n, d).
       if n > 64 then Inl (Malformed ''too many capability states'') else dec_state_list n d)"

definition dec_finish :: "decoder \<Rightarrow> (transport_error, unit) result" where
  "dec_finish d =
     (if dec_offset d = length (dec_packet d) then Inr () else Inl (Malformed ''trailing packet bytes''))"

definition decode_result :: "string \<Rightarrow> decoder \<Rightarrow> (transport_error, broker_result \<times> decoder) result" where
  "decode_result unknown d =
     rbind (dec_u8 d) (\<lambda>(tag, d).
       if tag = 0 then rmap (\<lambda>(v, d). (Success v, d)) (dec_bytes MAX_INLINE_PAYLOAD_BYTES d)
       else if tag = 1 then rmap (\<lambda>(c, d). (Error c, d)) (dec_code decode_error d)
       else Inl (Malformed unknown))"

definition dec_activation_context :: "decoder \<Rightarrow> (transport_error, activation_context \<times> decoder) result" where
  "dec_activation_context d =
     rbind (dec_code decode_origin d) (\<lambda>(origin, d).
     rbind (dec_u64 d) (\<lambda>(surface, d).
     rbind (dec_string 256 d) (\<lambda>(item, d).
     rbind (dec_u64 d) (\<lambda>(widget, d).
     rbind (dec_u64 d) (\<lambda>(sequence, d).
     rbind (dec_u64 d) (\<lambda>(deadline, d).
       Inr (\<lparr>ac_origin = origin, ac_surface_instance = surface, ac_item_id = item,
             ac_widget_id = widget, ac_input_sequence = sequence,
             ac_deadline_monotonic_micros = deadline\<rparr>, d)))))))"

definition dec_activation :: "decoder \<Rightarrow> (transport_error, activation_context option \<times> decoder) result" where
  "dec_activation d =
     rbind (dec_u8 d) (\<lambda>(tag, d).
       if tag = 0 then Inr (None, d)
       else if tag = 1 then rmap (\<lambda>(a, d). (Some a, d)) (dec_activation_context d)
       else Inl (Malformed ''invalid activation marker''))"

definition dec_request :: "nat \<Rightarrow> decoder \<Rightarrow> (transport_error, host_message \<times> decoder) result" where
  "dec_request request d =
     rbind (dec_code decode_phase d) (\<lambda>(phase, d).
     rbind (dec_string MAX_CAPABILITY_ID_BYTES d) (\<lambda>(capability, d).
     rbind (dec_string MAX_OPERATION_ID_BYTES d) (\<lambda>(operation, d).
     rbind (dec_bytes MAX_INLINE_PAYLOAD_BYTES d) (\<lambda>(payload, d).
     rbind (dec_activation d) (\<lambda>(activation, d).
       Inr (Request request phase capability operation payload activation, d))))))"

definition host_fields :: "nat \<Rightarrow> nat \<Rightarrow> decoder \<Rightarrow> (transport_error, host_message \<times> decoder) result" where
  "host_fields kind request d =
     (if kind = 1 then Inr (GetCapabilities request, d)
      else if kind = 2 then dec_request request d
      else if kind = 3 then rmap (\<lambda>(target, d). (Cancel request target, d)) (dec_u64 d)
      else if kind = 4 then rmap (\<lambda>(resource, d). (Close request resource, d)) (dec_u64 d)
      else Inl (Malformed ''unknown host message kind''))"

definition decode_host :: "char list \<Rightarrow> (transport_error, host_message) result" where
  "decode_host p =
     rbind (decoder_new p) (\<lambda>(kind, d).
     rbind (dec_u64 d) (\<lambda>(request, d).
     rbind (host_fields kind request d) (\<lambda>(m, d).
     rbind (dec_finish d) (\<lambda>_. Inr m))))"

text \<open>Two \<^verbatim>\<open>u64\<close> fields in a row.\<close>

definition dec_u64_pair :: "decoder \<Rightarrow> (transport_error, (nat \<times> nat) \<times> decoder) result" where
  "dec_u64_pair d = rbind (dec_u64 d) (\<lambda>(a, d). rmap (\<lambda>(b, d). ((a, b), d)) (dec_u64 d))"

definition supervisor_fields :: "nat \<Rightarrow> decoder \<Rightarrow> (transport_error, supervisor_message \<times> decoder) result" where
  "supervisor_fields kind d =
     (if kind = 101 then
        rbind (dec_u64_pair d) (\<lambda>((request, generation), d).
          rmap (\<lambda>(states, d). (Capabilities request generation states, d)) (dec_states d))
      else if kind = 102 then
        rbind (dec_u64 d) (\<lambda>(request, d).
          rmap (\<lambda>(r, d). (Response request r, d)) (decode_result ''invalid response result'' d))
      else if kind = 103 then
        rbind (dec_u64 d) (\<lambda>(generation, d).
          rmap (\<lambda>(s, d). (CapabilityChanged generation s, d)) (dec_state d))
      else if kind = 104 then
        rbind (dec_u64 d) (\<lambda>(generation, d).
          rmap (\<lambda>(c, d). (Shutdown generation c, d)) (dec_code decode_error d))
      else if kind = 105 then
        rmap (\<lambda>((generation, dropped), d). (Overflow generation dropped, d)) (dec_u64_pair d)
      else if kind = 106 then
        rbind (dec_u64_pair d) (\<lambda>((resource, sequence), d).
          rmap (\<lambda>(r, d). (ResourceEvent resource sequence r, d))
            (decode_result ''invalid broker result'' d))
      else Inl (Malformed ''unknown supervisor message kind''))"

definition decode_supervisor :: "char list \<Rightarrow> (transport_error, supervisor_message) result" where
  "decode_supervisor p =
     rbind (decoder_new p) (\<lambda>(kind, d).
     rbind (supervisor_fields kind d) (\<lambda>(m, d).
     rbind (dec_finish d) (\<lambda>_. Inr m)))"

section \<open>Packets\<close>

text \<open>The socket is a parameter: \<open>send\<close> the outcome of the system call for a packet, \<open>recv\<close> the
  bytes it stores for given flags and buffer size.\<close>

datatype syscall = Failed io_error_kind | Transferred nat

definition send_packet :: "(char list \<Rightarrow> syscall) \<Rightarrow> char list \<Rightarrow> (transport_error, unit) result" where
  "send_packet send p =
     (if length p > MAX_BROKER_PACKET_BYTES then Inl Oversized
      else (case send p of
              Failed k \<Rightarrow> Inl (transport_error_from k)
            | Transferred n \<Rightarrow>
                if n \<noteq> length p then Inl (Malformed ''partial sequenced packet send'') else Inr ()))"

type_synonym recv_call = "bool \<Rightarrow> nat \<Rightarrow> (io_error_kind, char list) result"

definition recv_packet_with_flags ::
  "recv_call \<Rightarrow> bool \<Rightarrow> (transport_error, char list option) result" where
  "recv_packet_with_flags recv dontwait =
     (case recv dontwait (MAX_BROKER_PACKET_BYTES + 1) of
        Inl k \<Rightarrow> if k = WouldBlock then Inr None else Inl (transport_error_from k)
      | Inr p \<Rightarrow>
          if length p = 0 then Inl Disconnected
          else if length p > MAX_BROKER_PACKET_BYTES then Inl Oversized
          else Inr (Some p))"

definition recv_packet :: "recv_call \<Rightarrow> (transport_error, char list) result" where
  "recv_packet recv =
     rbind (recv_packet_with_flags recv False)
       (\<lambda>p. ok_or (Malformed ''blocking receive returned no packet'') p)"

definition send_host :: "(char list \<Rightarrow> syscall) \<Rightarrow> host_message \<Rightarrow> (transport_error, unit) result" where
  "send_host send m = rbind (encode_host m) (send_packet send)"

definition recv_host :: "recv_call \<Rightarrow> (transport_error, host_message) result" where
  "recv_host recv = rbind (recv_packet recv) decode_host"

definition send_supervisor :: "(char list \<Rightarrow> syscall) \<Rightarrow> supervisor_message \<Rightarrow> (transport_error, unit) result" where
  "send_supervisor send m = rbind (encode_supervisor m) (send_packet send)"

definition recv_supervisor :: "recv_call \<Rightarrow> (transport_error, supervisor_message) result" where
  "recv_supervisor recv = rbind (recv_packet recv) decode_supervisor"

definition try_recv_supervisor :: "recv_call \<Rightarrow> (transport_error, supervisor_message option) result" where
  "try_recv_supervisor recv =
     rbind (recv_packet_with_flags recv True)
       (\<lambda>p. case p of None \<Rightarrow> Inr None | Some p \<Rightarrow> rmap Some (decode_supervisor p))"

section \<open>Reading back\<close>

definition reads :: "decoder \<Rightarrow> char list \<Rightarrow> decoder \<Rightarrow> bool" where
  "reads d bs d' \<longleftrightarrow>
     d' = d\<lparr>dec_offset := dec_offset d + length bs\<rparr>
     \<and> (bs \<noteq> [] \<longrightarrow> dec_offset d' \<le> u64_max \<and> dec_offset d' \<le> length (dec_packet d))
     \<and> take (length bs) (drop (dec_offset d) (dec_packet d)) = bs"

lemma reads_Nil [simp]: "reads d [] d' \<longleftrightarrow> d' = d"
  by (auto simp: reads_def)

lemma reads_append: "reads d (a @ b) d2 \<longleftrightarrow> (\<exists>d1. reads d a d1 \<and> reads d1 b d2)"
proof -
  have "take (length (a @ b)) (drop n p) = a @ b \<longleftrightarrow>
      take (length a) (drop n p) = a \<and> take (length b) (drop (n + length a) p) = b"
    if "a \<noteq> [] \<or> b \<noteq> [] \<longrightarrow> n + length (a @ b) \<le> length p" for n and p :: "char list"
    using that by (auto simp: take_add add.commute [of n])
  then show ?thesis by (auto simp: reads_def)
qed

lemma dec_take_iff:
  assumes "n = 0 \<longrightarrow> dec_offset d \<le> u64_max \<and> dec_offset d \<le> length (dec_packet d)"
  shows "dec_take n d = Inr (bs, d') \<longleftrightarrow> length bs = n \<and> reads d bs d'"
  using assms by (auto simp: dec_take_def reads_def checked_add_eq_Some)

lemma reads_bounds:
  "reads d bs d' \<Longrightarrow> bs \<noteq> [] \<Longrightarrow> dec_offset d' \<le> u64_max \<and> dec_offset d' \<le> length (dec_packet d')"
  by (auto simp: reads_def)

lemma dec_uint_iff:
  "0 < n \<Longrightarrow> dec_uint n d = Inr (v, d') \<longleftrightarrow> v < 256 ^ n \<and> reads d (le_bytes n v) d'"
  unfolding dec_uint_def using le_value_eq_iff
  by (fastforce simp: dec_take_iff)

locale wire_field =
  fixes typed :: "'a \<Rightarrow> bool"
    and sendable :: "'a \<Rightarrow> bool"
    and repr :: "'a \<Rightarrow> char list"
    and put :: "'a \<Rightarrow> encoder \<Rightarrow> (transport_error, encoder) result"
    and get :: "decoder \<Rightarrow> (transport_error, 'a \<times> decoder) result"
  assumes put_iff: "put v e = Inr e' \<longleftrightarrow> sendable v \<and> e' = e @ repr v"
    and get_iff: "get d = Inr (v, d') \<longleftrightarrow> typed v \<and> sendable v \<and> reads d (repr v) d'"
begin

lemma put_ok: "sendable v \<Longrightarrow> put v e = Inr (e @ repr v)"
  by (simp add: put_iff)

lemma read_back:
  assumes "typed v" and "put v e = Inr e'" and "length e' \<le> u64_max"
  shows "get \<lparr>dec_packet = e' @ rest, dec_offset = length e\<rparr> =
    Inr (v, \<lparr>dec_packet = e' @ rest, dec_offset = length e'\<rparr>)"
  using assms by (auto simp: put_iff get_iff reads_def)

end

definition uint_typed :: "nat \<Rightarrow> nat \<Rightarrow> bool" where
  "uint_typed n v \<longleftrightarrow> v < 256 ^ n"

lemma uint_field:
  assumes "0 < n"
  shows "wire_field (uint_typed n) (\<lambda>_. True) (le_bytes n) (\<lambda>v e. Inr (e @ le_bytes n v)) (dec_uint n)"
  by unfold_locales (auto simp: dec_uint_iff [OF assms] uint_typed_def)

interpretation u8: wire_field "uint_typed 1" "\<lambda>_. True" "le_bytes 1" "\<lambda>v e. Inr (enc_u8 v e)" dec_u8
  unfolding enc_u8_def dec_u8_def by (rule uint_field) simp

interpretation u16: wire_field "uint_typed 2" "\<lambda>_. True" "le_bytes 2" "\<lambda>v e. Inr (enc_u16 v e)" dec_u16
  unfolding enc_u16_def dec_u16_def by (rule uint_field) simp

interpretation u32: wire_field "uint_typed 4" "\<lambda>_. True" "le_bytes 4" "\<lambda>v e. Inr (enc_u32 v e)" dec_u32
  unfolding enc_u32_def dec_u32_def by (rule uint_field) simp

interpretation u64: wire_field "uint_typed 8" "\<lambda>_. True" "le_bytes 8" "\<lambda>v e. Inr (enc_u64 v e)" dec_u64
  unfolding enc_u64_def dec_u64_def by (rule uint_field) simp

lemmas uint_get_iff = u8.get_iff u16.get_iff u32.get_iff u64.get_iff

lemma of_typed_8 [simp]: "uint_typed 8 v \<longleftrightarrow> v \<le> u64_max"
  by (auto simp: uint_typed_def u64_max_def)

lemma le_bytes_not_Nil [simp]: "0 < n \<Longrightarrow> le_bytes n v \<noteq> []"
  using length_le_bytes [of n v] by (metis length_0_conv less_irrefl)

definition string_repr :: "string \<Rightarrow> char list" where
  "string_repr s = le_bytes 2 (length s) @ s"

definition string_sendable :: "nat \<Rightarrow> string \<Rightarrow> bool" where
  "string_sendable maximum s \<longleftrightarrow> s \<noteq> [] \<and> length s \<le> maximum"

lemma string_field:
  assumes "maximum \<le> 65535"
  shows "wire_field utf8 (string_sendable maximum) string_repr (\<lambda>v. enc_string v maximum) (dec_string maximum)"
proof unfold_locales
  fix v e e'
  show "enc_string v maximum e = Inr e' \<longleftrightarrow> string_sendable maximum v \<and> e' = e @ string_repr v"
    using assms by (auto simp: enc_string_def string_sendable_def string_repr_def enc_u16_def)
next
  fix d v d'
  have "dec_string maximum d = Inr (v, d') \<longleftrightarrow>
    (\<exists>d1. uint_typed 2 (length v) \<and> reads d (le_bytes 2 (length v)) d1 \<and> v \<noteq> [] \<and> length v \<le> maximum
       \<and> reads d1 v d' \<and> utf8 v)"
    by (auto simp: dec_string_def uint_get_iff dec_take_iff
        intro!: exI [of _ "length v"] exI [of _ v] split: if_splits)
  then show "dec_string maximum d = Inr (v, d') \<longleftrightarrow>
      utf8 v \<and> string_sendable maximum v \<and> reads d (string_repr v) d'"
    using assms by (auto simp: string_sendable_def string_repr_def reads_append uint_typed_def)
qed

interpretation cap_id: wire_field utf8 "string_sendable MAX_CAPABILITY_ID_BYTES" string_repr
  "\<lambda>v. enc_string v MAX_CAPABILITY_ID_BYTES" "dec_string MAX_CAPABILITY_ID_BYTES"
  by (rule string_field) (simp add: broker_limits)

interpretation op_id: wire_field utf8 "string_sendable MAX_OPERATION_ID_BYTES" string_repr
  "\<lambda>v. enc_string v MAX_OPERATION_ID_BYTES" "dec_string MAX_OPERATION_ID_BYTES"
  by (rule string_field) (simp add: broker_limits)

interpretation item: wire_field utf8 "string_sendable 256" string_repr "\<lambda>v. enc_string v 256" "dec_string 256"
  by (rule string_field) simp

definition bytes_repr :: "char list \<Rightarrow> char list" where
  "bytes_repr v = le_bytes 4 (length v) @ v"

definition payload_sendable :: "char list \<Rightarrow> bool" where
  "payload_sendable v \<longleftrightarrow> length v \<le> MAX_INLINE_PAYLOAD_BYTES"

interpretation payload: wire_field "\<lambda>_. True" payload_sendable bytes_repr
  "\<lambda>v e. if length v > MAX_INLINE_PAYLOAD_BYTES then Inl Oversized else enc_bytes v e"
  "dec_bytes MAX_INLINE_PAYLOAD_BYTES"
proof unfold_locales
  fix v e e'
  show "(if length v > MAX_INLINE_PAYLOAD_BYTES then Inl Oversized else enc_bytes v e) = Inr e' \<longleftrightarrow>
      payload_sendable v \<and> e' = e @ bytes_repr v"
    by (auto simp: enc_bytes_def enc_u32_def payload_sendable_def bytes_repr_def broker_limits u32_max_def)
next
  fix d v d'
  have take: "dec_take n d1 = Inr (bs, d') \<longleftrightarrow> length bs = n \<and> reads d1 bs d'"
    if "reads d (le_bytes 4 n) d1" for n d1 bs
    using reads_bounds [OF that] by (intro dec_take_iff) simp
  have "dec_bytes MAX_INLINE_PAYLOAD_BYTES d = Inr (v, d') \<longleftrightarrow>
    (\<exists>d1. uint_typed 4 (length v) \<and> reads d (le_bytes 4 (length v)) d1
       \<and> length v \<le> MAX_INLINE_PAYLOAD_BYTES \<and> reads d1 v d')"
    by (auto simp: dec_bytes_def uint_get_iff take intro!: exI [of _ "length v"] split: if_splits)
  then show "dec_bytes MAX_INLINE_PAYLOAD_BYTES d = Inr (v, d') \<longleftrightarrow>
      True \<and> payload_sendable v \<and> reads d (bytes_repr v) d'"
    by (auto simp: payload_sendable_def bytes_repr_def reads_append uint_typed_def broker_limits)
qed

text \<open>A code table and its inverse give a one-byte field.\<close>

lemma code_field:
  assumes "\<And>v x. table v = Inr x \<longleftrightarrow> v = code x" and "\<And>x. code x < 256"
  shows "wire_field (\<lambda>_. True) (\<lambda>_. True) (\<lambda>x. le_bytes 1 (code x)) (\<lambda>x e. Inr (enc_u8 (code x) e))
    (dec_code table)"
  by unfold_locales (use assms in \<open>auto simp: dec_code_def uint_get_iff enc_u8_def uint_typed_def\<close>)

lemma decode_phase_iff: "decode_phase v = Inr x \<longleftrightarrow> v = phase_code x"
  by (cases x) (auto simp: decode_phase_def)

lemma decode_origin_iff: "decode_origin v = Inr x \<longleftrightarrow> v = origin_code x"
  by (cases x) (auto simp: decode_origin_def)

lemma decode_status_iff: "decode_status v = Inr x \<longleftrightarrow> v = status_code x"
  by (cases x) (auto simp: decode_status_def)

lemma decode_error_iff: "decode_error v = Inr x \<longleftrightarrow> v = error_code x"
  by (cases x) (auto simp: decode_error_def)

lemma dec_required_iff: "dec_required v = Inr x \<longleftrightarrow> v = of_bool x"
  by (cases x) (auto simp: dec_required_def)

lemma codes_small: "phase_code p < 256" "origin_code o' < 256" "status_code s < 256" "error_code c < 256"
  "of_bool b < (256 :: nat)"
  by ((cases p; simp), (cases o'; simp), (cases s; simp), (cases c; simp), (cases b; simp))

interpretation phase: wire_field "\<lambda>_. True" "\<lambda>_. True" "\<lambda>x. le_bytes 1 (phase_code x)"
  "\<lambda>x e. Inr (enc_u8 (phase_code x) e)" "dec_code decode_phase"
  by (rule code_field [OF decode_phase_iff codes_small(1)])

interpretation origin: wire_field "\<lambda>_. True" "\<lambda>_. True" "\<lambda>x. le_bytes 1 (origin_code x)"
  "\<lambda>x e. Inr (enc_u8 (origin_code x) e)" "dec_code decode_origin"
  by (rule code_field [OF decode_origin_iff codes_small(2)])

interpretation status: wire_field "\<lambda>_. True" "\<lambda>_. True" "\<lambda>x. le_bytes 1 (status_code x)"
  "\<lambda>x e. Inr (enc_u8 (status_code x) e)" "dec_code decode_status"
  by (rule code_field [OF decode_status_iff codes_small(3)])

interpretation err: wire_field "\<lambda>_. True" "\<lambda>_. True" "\<lambda>x. le_bytes 1 (error_code x)"
  "\<lambda>x e. Inr (enc_u8 (error_code x) e)" "dec_code decode_error"
  by (rule code_field [OF decode_error_iff codes_small(4)])

interpretation required: wire_field "\<lambda>_. True" "\<lambda>_. True" "\<lambda>x. le_bytes 1 (of_bool x)"
  "\<lambda>x e. Inr (enc_u8 (of_bool x) e)" "dec_code dec_required"
  by (rule code_field [OF dec_required_iff codes_small(5)])

lemmas field_get_iff = uint_get_iff cap_id.get_iff op_id.get_iff item.get_iff payload.get_iff
  phase.get_iff origin.get_iff status.get_iff err.get_iff required.get_iff

lemmas field_put_iff = cap_id.put_iff op_id.put_iff item.put_iff

lemmas enc_defs = enc_u8_def enc_u16_def enc_u32_def enc_u64_def

section \<open>Composite fields\<close>

text \<open>A tag byte 0 or 1 that selects what follows.\<close>

lemma dec_tag_iff:
  "rbind (dec_u8 d) (\<lambda>(tag, d). if tag = 0 then f d else if tag = 1 then g d else Inl e) = Inr r \<longleftrightarrow>
     (\<exists>d1. reads d (le_bytes 1 0) d1 \<and> f d1 = Inr r) \<or> (\<exists>d1. reads d (le_bytes 1 1) d1 \<and> g d1 = Inr r)"
  (is "?l = _ \<longleftrightarrow> ?r")
proof
  assume "?l = Inr r"
  then show ?r by (auto simp: uint_get_iff split: if_splits)
next
  assume ?r
  then show "?l = Inr r"
  proof
    assume "\<exists>d1. reads d (le_bytes 1 0) d1 \<and> f d1 = Inr r"
    then obtain d1 where "dec_u8 d = Inr (0, d1)" "f d1 = Inr r" by (auto simp: uint_get_iff uint_typed_def)
    then show ?thesis by simp
  next
    assume "\<exists>d1. reads d (le_bytes 1 1) d1 \<and> g d1 = Inr r"
    then obtain d1 where "dec_u8 d = Inr (1, d1)" "g d1 = Inr r" by (auto simp: uint_get_iff uint_typed_def)
    then show ?thesis by simp
  qed
qed

definition state_typed :: "capability_state \<Rightarrow> bool" where
  "state_typed s \<longleftrightarrow> utf8 (cs_capability s)"

definition state_sendable :: "capability_state \<Rightarrow> bool" where
  "state_sendable s \<longleftrightarrow> string_sendable MAX_CAPABILITY_ID_BYTES (cs_capability s)"

definition state_repr :: "capability_state \<Rightarrow> char list" where
  "state_repr s = string_repr (cs_capability s) @ le_bytes 1 (of_bool (cs_required s))
     @ le_bytes 1 (status_code (cs_status s))"

interpretation state: wire_field state_typed state_sendable state_repr enc_state dec_state
proof unfold_locales
  fix v e e'
  show "enc_state v e = Inr e' \<longleftrightarrow> state_sendable v \<and> e' = e @ state_repr v"
    by (auto simp: enc_state_def field_put_iff state_sendable_def state_repr_def enc_defs)
next
  fix d v d'
  show "dec_state d = Inr (v, d') \<longleftrightarrow> state_typed v \<and> state_sendable v \<and> reads d (state_repr v) d'"
    by (cases v) (auto simp: dec_state_def field_get_iff state_typed_def state_sendable_def state_repr_def
        reads_append)
qed

definition states_typed :: "capability_state list \<Rightarrow> bool" where
  "states_typed ss \<longleftrightarrow> list_all state_typed ss"

definition states_sendable :: "capability_state list \<Rightarrow> bool" where
  "states_sendable ss \<longleftrightarrow> length ss \<le> 64 \<and> list_all state_sendable ss"

definition states_repr :: "capability_state list \<Rightarrow> char list" where
  "states_repr ss = le_bytes 2 (length ss) @ concat (map state_repr ss)"

lemma dec_state_list_iff:
  "dec_state_list n d = Inr (ss, d') \<longleftrightarrow>
     length ss = n \<and> list_all state_typed ss \<and> list_all state_sendable ss
     \<and> reads d (concat (map state_repr ss)) d'"
proof (induction n arbitrary: d ss)
  case (Suc n)
  show ?case by (cases ss) (auto simp: Suc state.get_iff reads_append)
qed auto

interpretation states: wire_field states_typed states_sendable states_repr enc_states dec_states
proof unfold_locales
  fix v e e'
  have "rfold (\<lambda>e s. enc_state s e) e ss = Inr e' \<longleftrightarrow>
      list_all state_sendable ss \<and> e' = e @ concat (map state_repr ss)" for e ss
    by (induction ss arbitrary: e) (auto simp: state.put_iff)
  then show "enc_states v e = Inr e' \<longleftrightarrow> states_sendable v \<and> e' = e @ states_repr v"
    by (auto simp: enc_states_def states_sendable_def states_repr_def enc_defs)
next
  fix d v d'
  show "dec_states d = Inr (v, d') \<longleftrightarrow> states_typed v \<and> states_sendable v \<and> reads d (states_repr v) d'"
    by (auto simp: dec_states_def field_get_iff dec_state_list_iff states_typed_def states_sendable_def
        states_repr_def reads_append uint_typed_def split: if_splits intro!: exI [of _ "length v"])
qed

fun result_sendable :: "broker_result \<Rightarrow> bool" where
  "result_sendable (Success payload) = payload_sendable payload"
| "result_sendable (Error _) = True"

fun result_repr :: "broker_result \<Rightarrow> char list" where
  "result_repr (Success payload) = le_bytes 1 0 @ bytes_repr payload"
| "result_repr (Error code) = le_bytes 1 1 @ le_bytes 1 (error_code code)"

lemma result_field:
  "wire_field (\<lambda>_. True) result_sendable result_repr encode_result (decode_result unknown)"
proof unfold_locales
  fix v e e'
  show "encode_result v e = Inr e' \<longleftrightarrow> result_sendable v \<and> e' = e @ result_repr v"
  proof (cases v)
    case (Success p)
    then show ?thesis using payload.put_iff [of p "enc_u8 0 e" e'] by (auto simp: enc_u8_def)
  qed (auto simp: enc_u8_def)
next
  fix d v d'
  show "decode_result unknown d = Inr (v, d') \<longleftrightarrow> True \<and> result_sendable v \<and> reads d (result_repr v) d'"
    unfolding decode_result_def dec_tag_iff by (cases v) (auto simp: field_get_iff reads_append)
qed

interpretation response_result: wire_field "\<lambda>_. True" result_sendable result_repr encode_result
  "decode_result ''invalid response result''"
  by (rule result_field)

interpretation event_result: wire_field "\<lambda>_. True" result_sendable result_repr encode_result
  "decode_result ''invalid broker result''"
  by (rule result_field)

fun activation_typed :: "activation_context option \<Rightarrow> bool" where
  "activation_typed None = True"
| "activation_typed (Some a) =
     (ac_surface_instance a \<le> u64_max \<and> utf8 (ac_item_id a) \<and> ac_widget_id a \<le> u64_max
      \<and> ac_input_sequence a \<le> u64_max \<and> ac_deadline_monotonic_micros a \<le> u64_max)"

fun activation_sendable :: "activation_context option \<Rightarrow> bool" where
  "activation_sendable None = True"
| "activation_sendable (Some a) = string_sendable 256 (ac_item_id a)"

definition context_repr :: "activation_context \<Rightarrow> char list" where
  "context_repr a =
     le_bytes 1 (origin_code (ac_origin a)) @ le_bytes 8 (ac_surface_instance a)
     @ string_repr (ac_item_id a) @ le_bytes 8 (ac_widget_id a) @ le_bytes 8 (ac_input_sequence a)
     @ le_bytes 8 (ac_deadline_monotonic_micros a)"

fun activation_repr :: "activation_context option \<Rightarrow> char list" where
  "activation_repr None = le_bytes 1 0"
| "activation_repr (Some a) = le_bytes 1 1 @ context_repr a"

lemma dec_activation_context_iff:
  "dec_activation_context d = Inr (a, d') \<longleftrightarrow>
     activation_typed (Some a) \<and> activation_sendable (Some a) \<and> reads d (context_repr a) d'"
  by (cases a) (simp add: dec_activation_context_def field_get_iff reads_append context_repr_def, blast)

interpretation activation: wire_field activation_typed activation_sendable activation_repr
  enc_activation dec_activation
proof unfold_locales
  fix v e e'
  show "enc_activation v e = Inr e' \<longleftrightarrow> activation_sendable v \<and> e' = e @ activation_repr v"
    by (cases v) (auto simp: enc_activation_def field_put_iff enc_defs context_repr_def)
next
  fix d v d'
  show "dec_activation d = Inr (v, d') \<longleftrightarrow>
      activation_typed v \<and> activation_sendable v \<and> reads d (activation_repr v) d'"
  proof (cases v)
    case None
    then show ?thesis unfolding dec_activation_def dec_tag_iff by auto
  next
    case (Some a)
    then show ?thesis
      unfolding dec_activation_def dec_tag_iff
      by (auto simp: dec_activation_context_iff reads_append)
  qed
qed

section \<open>Messages\<close>

definition header_repr :: "nat \<Rightarrow> char list" where
  "header_repr kind = BROKER_MAGIC @ le_bytes 2 BROKER_PROTOCOL_VERSION @ le_bytes 1 kind @ le_bytes 1 0"

lemma length_header [simp]: "length (header_repr kind) = 8"
  by (simp add: header_repr_def BROKER_MAGIC_def)

lemma encoder_new_eq: "encoder_new kind = header_repr kind"
  by (simp add: encoder_new_def header_repr_def enc_defs)

lemma le_bytes_1: "le_bytes (Suc 0) v = [char_of (v mod 256)]"
  by (simp add: le_bytes.simps)

lemma header_bytes:
  "header_repr kind = [CHR ''O'', CHR ''T'', CHR ''B'', CHR ''P'', char_of (1 :: nat), char_of (0 :: nat),
     char_of (kind mod 256), char_of (0 :: nat)]"
  by (simp add: header_repr_def BROKER_MAGIC_def BROKER_PROTOCOL_VERSION_def le_bytes.simps numeral_2_eq_2)

lemma list_8_split:
  assumes "8 \<le> length p"
  shows "p = take 4 p @ [p ! 4, p ! 5] @ [p ! 6] @ [p ! 7] @ drop 8 p"
proof -
  have "drop 4 p = p ! 4 # p ! 5 # p ! 6 # p ! 7 # drop 8 p"
    using assms Cons_nth_drop_Suc [of 4 p] Cons_nth_drop_Suc [of 5 p] Cons_nth_drop_Suc [of 6 p]
      Cons_nth_drop_Suc [of 7 p] by simp
  then show ?thesis using append_take_drop_id [of 4 p] by simp
qed

lemma decoder_new_iff:
  "decoder_new p = Inr (kind, d) \<longleftrightarrow>
     kind < 256 \<and> d = \<lparr>dec_packet = p, dec_offset = 8\<rparr> \<and> (\<exists>rest. p = header_repr kind @ rest)"
proof
  assume dec: "decoder_new p = Inr (kind, d)"
  then have len: "8 \<le> length p" and magic: "take 4 p = BROKER_MAGIC"
    and version: "le_value [p ! 4, p ! 5] = BROKER_PROTOCOL_VERSION"
    and zero: "p ! 7 = char_of (0 :: nat)" and kind: "kind = of_char (p ! 6)"
    and d: "d = \<lparr>dec_packet = p, dec_offset = 8\<rparr>"
    by (auto simp: decoder_new_def Let_def split: if_splits)
  have "[p ! 4, p ! 5] = le_bytes 2 BROKER_PROTOCOL_VERSION"
    using version le_bytes_le_value [of "[p ! 4, p ! 5]" 2] by simp
  moreover have "[p ! 6] = le_bytes 1 kind" "[p ! 7] = le_bytes 1 0"
    using kind zero by (simp_all add: le_bytes_1)
  ultimately have "p = header_repr kind @ drop 8 p"
    using list_8_split [OF len] magic by (simp add: header_repr_def)
  then show "kind < 256 \<and> d = \<lparr>dec_packet = p, dec_offset = 8\<rparr> \<and> (\<exists>rest. p = header_repr kind @ rest)"
    using kind d by auto
next
  assume "kind < 256 \<and> d = \<lparr>dec_packet = p, dec_offset = 8\<rparr> \<and> (\<exists>rest. p = header_repr kind @ rest)"
  then obtain rest where p: "p = header_repr kind @ rest" and kd: "kind < 256"
      "d = \<lparr>dec_packet = p, dec_offset = 8\<rparr>" by blast
  have "\<not> length p < 8" "take 4 p = BROKER_MAGIC" "le_value [p ! 4, p ! 5] = BROKER_PROTOCOL_VERSION"
    "p ! 7 = char_of (0 :: nat)" "of_char (p ! 6) = kind"
    using kd(1) by (simp_all add: p header_bytes BROKER_MAGIC_def BROKER_PROTOCOL_VERSION_def)
  then show "decoder_new p = Inr (kind, d)" by (simp add: decoder_new_def kd(2))
qed

lemma whole_packet:
  "reads \<lparr>dec_packet = header_repr kind @ rest, dec_offset = 8\<rparr> bs d' \<and> dec_finish d' = Inr () \<longleftrightarrow>
    rest = bs \<and> (bs \<noteq> [] \<longrightarrow> 8 + length bs \<le> u64_max)
    \<and> d' = \<lparr>dec_packet = header_repr kind @ rest, dec_offset = 8 + length bs\<rparr>" (is "?l \<longleftrightarrow> ?r")
proof
  assume ?l
  then have "length bs = length rest" "take (length bs) rest = bs"
    by (simp_all add: reads_def dec_finish_def split: if_splits)
  then have "rest = bs" by simp
  then show ?r using \<open>?l\<close> by (auto simp: reads_def)
next
  assume ?r
  then show ?l by (simp add: reads_def dec_finish_def)
qed

fun host_body_typed :: "host_message \<Rightarrow> bool" where
  "host_body_typed (GetCapabilities _) = True"
| "host_body_typed (Request _ _ capability operation _ activation) =
     (utf8 capability \<and> utf8 operation \<and> activation_typed activation)"
| "host_body_typed (Cancel _ target) = (target \<le> u64_max)"
| "host_body_typed (Close _ resource) = (resource \<le> u64_max)"

text \<open>What the types of the code guarantee of a message: its integers are 64 bits wide and its
  strings are UTF-8.\<close>

definition host_typed :: "host_message \<Rightarrow> bool" where
  "host_typed m \<longleftrightarrow> host_request_id m \<le> u64_max \<and> host_body_typed m"

fun host_sendable :: "host_message \<Rightarrow> bool" where
  "host_sendable (Request _ _ capability operation payload activation) =
     (string_sendable MAX_CAPABILITY_ID_BYTES capability \<and> string_sendable MAX_OPERATION_ID_BYTES operation
      \<and> payload_sendable payload \<and> activation_sendable activation)"
| "host_sendable _ = True"

fun host_body_repr :: "host_message \<Rightarrow> char list" where
  "host_body_repr (GetCapabilities _) = []"
| "host_body_repr (Request _ phase capability operation payload activation) =
     le_bytes 1 (phase_code phase) @ string_repr capability @ string_repr operation
     @ bytes_repr payload @ activation_repr activation"
| "host_body_repr (Cancel _ target) = le_bytes 8 target"
| "host_body_repr (Close _ resource) = le_bytes 8 resource"

definition host_repr :: "host_message \<Rightarrow> char list" where
  "host_repr m = header_repr (host_kind m) @ le_bytes 8 (host_request_id m) @ host_body_repr m"

lemma host_body_iff: "host_body m e = Inr e' \<longleftrightarrow> host_sendable m \<and> e' = e @ host_body_repr m"
proof (cases m)
  case (Request i phase capability operation payload activation)
  have "enc_bytes payload e = Inr (e @ bytes_repr payload)" if "payload_sendable payload" for e
    using payload.put_ok [OF that, of e] that by (simp add: payload_sendable_def)
  then show ?thesis
    by (auto simp: Request field_put_iff activation.put_iff enc_defs payload_sendable_def)
qed (auto simp: enc_defs)

lemma dec_request_iff:
  "dec_request request d = Inr (m, d') \<longleftrightarrow>
     host_kind m = 2 \<and> host_request_id m = request \<and> host_body_typed m \<and> host_sendable m
     \<and> reads d (host_body_repr m) d'"
  by (cases m) (simp_all add: dec_request_def field_get_iff activation.get_iff reads_append, blast)

lemma host_fields_iff:
  "host_fields kind request d = Inr (m, d') \<longleftrightarrow>
     kind = host_kind m \<and> host_request_id m = request \<and> host_body_typed m \<and> host_sendable m
     \<and> reads d (host_body_repr m) d'"
  by (cases m) (auto simp: host_fields_def dec_request_iff field_get_iff)

lemma encode_host_iff:
  "encode_host m = Inr p \<longleftrightarrow>
     host_sendable m \<and> p = host_repr m \<and> length p \<le> MAX_BROKER_PACKET_BYTES"
  by (auto simp: encode_host_def host_body_iff encoder_finish_def encoder_new_eq host_repr_def enc_defs
      split: if_splits)

lemma kinds_small: "host_kind m < 256" "supervisor_kind s < 256"
  by ((cases m; simp), (cases s; simp))

lemma packet_limit: "MAX_BROKER_PACKET_BYTES \<le> u64_max"
  by (simp add: broker_limits u64_max_def)

lemma whole_packet_ex:
  assumes "length p \<le> MAX_BROKER_PACKET_BYTES"
  shows "(\<exists>rest d'. p = header_repr kind @ rest \<and> reads \<lparr>dec_packet = p, dec_offset = 8\<rparr> bs d'
      \<and> dec_finish d' = Inr ()) \<longleftrightarrow> p = header_repr kind @ bs" (is "?l \<longleftrightarrow> ?r")
proof
  assume ?l
  then show ?r using whole_packet [of kind _ bs] by blast
next
  assume r: ?r
  then have "8 + length bs \<le> u64_max" using assms packet_limit by simp
  then show ?l using r whole_packet [of kind bs bs] by blast
qed

lemma decode_host_iff:
  assumes "length p \<le> MAX_BROKER_PACKET_BYTES"
  shows "decode_host p = Inr m \<longleftrightarrow> host_typed m \<and> host_sendable m \<and> p = host_repr m"
proof -
  have "decode_host p = Inr m \<longleftrightarrow>
    (\<exists>rest d'. p = header_repr (host_kind m) @ rest \<and> host_typed m \<and> host_sendable m
       \<and> reads \<lparr>dec_packet = p, dec_offset = 8\<rparr> (le_bytes 8 (host_request_id m) @ host_body_repr m) d'
       \<and> dec_finish d' = Inr ())" (is "_ \<longleftrightarrow> (\<exists>rest d'. ?packet rest d')")
  proof
    assume "decode_host p = Inr m"
    then show "\<exists>rest d'. ?packet rest d'"
      unfolding reads_append
      by (auto simp: decode_host_def decoder_new_iff field_get_iff host_fields_iff host_typed_def)
  next
    assume "\<exists>rest d'. ?packet rest d'"
    then obtain rest d1 d' where p: "p = header_repr (host_kind m) @ rest" and m: "host_typed m" "host_sendable m"
      and r: "reads \<lparr>dec_packet = p, dec_offset = 8\<rparr> (le_bytes 8 (host_request_id m)) d1"
        "reads d1 (host_body_repr m) d'" "dec_finish d' = Inr ()"
      unfolding reads_append by blast
    have "decoder_new p = Inr (host_kind m, \<lparr>dec_packet = p, dec_offset = 8\<rparr>)"
      unfolding decoder_new_iff using p kinds_small(1) by blast
    moreover have "dec_u64 \<lparr>dec_packet = p, dec_offset = 8\<rparr> = Inr (host_request_id m, d1)"
      using r(1) m(1) by (simp add: field_get_iff host_typed_def)
    moreover have "host_fields (host_kind m) (host_request_id m) d1 = Inr (m, d')"
      using r(2) m by (simp add: host_fields_iff host_typed_def)
    ultimately show "decode_host p = Inr m" using r(3) by (simp add: decode_host_def)
  qed
  also have "\<dots> \<longleftrightarrow> host_typed m \<and> host_sendable m
      \<and> p = header_repr (host_kind m) @ le_bytes 8 (host_request_id m) @ host_body_repr m"
    using whole_packet_ex [OF assms, of "host_kind m" "le_bytes 8 (host_request_id m) @ host_body_repr m"]
    by blast
  finally show ?thesis by (simp add: host_repr_def)
qed

interpretation host_codec: message_codec host_typed host_sendable host_repr encode_host decode_host
  "\<lambda>p. length p \<le> MAX_BROKER_PACKET_BYTES"
  by unfold_locales (simp_all add: encode_host_iff decode_host_iff)

fun supervisor_typed :: "supervisor_message \<Rightarrow> bool" where
  "supervisor_typed (Capabilities request generation states) =
     (request \<le> u64_max \<and> generation \<le> u64_max \<and> states_typed states)"
| "supervisor_typed (Response request _) = (request \<le> u64_max)"
| "supervisor_typed (CapabilityChanged generation state) = (generation \<le> u64_max \<and> state_typed state)"
| "supervisor_typed (Shutdown generation _) = (generation \<le> u64_max)"
| "supervisor_typed (Overflow generation dropped) = (generation \<le> u64_max \<and> dropped \<le> u64_max)"
| "supervisor_typed (ResourceEvent resource sequence _) = (resource \<le> u64_max \<and> sequence \<le> u64_max)"

fun supervisor_sendable :: "supervisor_message \<Rightarrow> bool" where
  "supervisor_sendable (Capabilities _ _ states) = states_sendable states"
| "supervisor_sendable (Response _ r) = result_sendable r"
| "supervisor_sendable (CapabilityChanged _ state) = state_sendable state"
| "supervisor_sendable (ResourceEvent _ _ r) = result_sendable r"
| "supervisor_sendable _ = True"

fun supervisor_body_repr :: "supervisor_message \<Rightarrow> char list" where
  "supervisor_body_repr (Capabilities request generation states) =
     le_bytes 8 request @ le_bytes 8 generation @ states_repr states"
| "supervisor_body_repr (Response request r) = le_bytes 8 request @ result_repr r"
| "supervisor_body_repr (CapabilityChanged generation state) = le_bytes 8 generation @ state_repr state"
| "supervisor_body_repr (Shutdown generation reason) =
     le_bytes 8 generation @ le_bytes 1 (error_code reason)"
| "supervisor_body_repr (Overflow generation dropped) = le_bytes 8 generation @ le_bytes 8 dropped"
| "supervisor_body_repr (ResourceEvent resource sequence r) =
     le_bytes 8 resource @ le_bytes 8 sequence @ result_repr r"

definition supervisor_repr :: "supervisor_message \<Rightarrow> char list" where
  "supervisor_repr m = header_repr (supervisor_kind m) @ supervisor_body_repr m"

lemma supervisor_body_iff:
  "supervisor_body m e = Inr e' \<longleftrightarrow> supervisor_sendable m \<and> e' = e @ supervisor_body_repr m"
  by (cases m) (auto simp: states.put_iff state.put_iff response_result.put_iff enc_defs)

lemma supervisor_fields_iff:
  "supervisor_fields kind d = Inr (m, d') \<longleftrightarrow>
     kind = supervisor_kind m \<and> supervisor_typed m \<and> supervisor_sendable m
     \<and> reads d (supervisor_body_repr m) d'"
  by (cases m)
    (auto simp: supervisor_fields_def dec_u64_pair_def field_get_iff states.get_iff state.get_iff
      response_result.get_iff event_result.get_iff reads_append)

lemma encode_supervisor_iff:
  "encode_supervisor m = Inr p \<longleftrightarrow>
     supervisor_sendable m \<and> p = supervisor_repr m \<and> length p \<le> MAX_BROKER_PACKET_BYTES"
  by (auto simp: encode_supervisor_def supervisor_body_iff encoder_finish_def encoder_new_eq
      supervisor_repr_def split: if_splits)

lemma decode_supervisor_iff:
  assumes "length p \<le> MAX_BROKER_PACKET_BYTES"
  shows "decode_supervisor p = Inr m \<longleftrightarrow> supervisor_typed m \<and> supervisor_sendable m \<and> p = supervisor_repr m"
proof -
  have "decode_supervisor p = Inr m \<longleftrightarrow>
    (\<exists>rest d'. p = header_repr (supervisor_kind m) @ rest \<and> supervisor_typed m \<and> supervisor_sendable m
       \<and> reads \<lparr>dec_packet = p, dec_offset = 8\<rparr> (supervisor_body_repr m) d' \<and> dec_finish d' = Inr ())"
    by (auto simp: decode_supervisor_def decoder_new_iff supervisor_fields_iff kinds_small
        intro!: exI [of _ "supervisor_kind m"] exI [of _ m])
  also have "\<dots> \<longleftrightarrow> supervisor_typed m \<and> supervisor_sendable m
      \<and> p = header_repr (supervisor_kind m) @ supervisor_body_repr m"
    using whole_packet_ex [OF assms, of "supervisor_kind m" "supervisor_body_repr m"] by blast
  finally show ?thesis by (simp add: supervisor_repr_def)
qed

interpretation supervisor_codec: message_codec supervisor_typed supervisor_sendable supervisor_repr
  encode_supervisor decode_supervisor "\<lambda>p. length p \<le> MAX_BROKER_PACKET_BYTES"
  by unfold_locales (simp_all add: encode_supervisor_iff decode_supervisor_iff)

section \<open>Properties\<close>

lemma recv_packet_iff:
  "recv_packet recv = Inr p \<longleftrightarrow>
     recv False (MAX_BROKER_PACKET_BYTES + 1) = Inr p \<and> p \<noteq> [] \<and> length p \<le> MAX_BROKER_PACKET_BYTES"
  by (auto simp: recv_packet_def recv_packet_with_flags_def split: sum.splits if_splits)

lemma packet_not_Nil: "header_repr kind @ bs \<noteq> []"
  using length_header [of kind] by (metis append_is_Nil_conv list.size(3) zero_neq_numeral)

text \<open>(C25) The supervisor accepts a request exactly when the packet that arrived is the encoding of a
  well-typed message, and then reads that message: what a host sends is what is received, and no
  two packets stand for the same message, whatever a compromised host puts on the socket.\<close>

theorem host_wire_exact:
  "recv_host recv = Inr m \<longleftrightarrow>
     (\<exists>p. recv False (MAX_BROKER_PACKET_BYTES + 1) = Inr p \<and> host_typed m \<and> encode_host m = Inr p)"
proof -
  have "recv_host recv = Inr m \<longleftrightarrow>
    (\<exists>p. recv False (MAX_BROKER_PACKET_BYTES + 1) = Inr p \<and> p \<noteq> []
       \<and> length p \<le> MAX_BROKER_PACKET_BYTES \<and> host_typed m \<and> encode_host m = Inr p)"
    unfolding recv_host_def rbind_eq_Inr recv_packet_iff using host_codec.codec_iff by blast
  then show ?thesis
    using packet_not_Nil by (auto simp: encode_host_iff host_repr_def)
qed

text \<open>(C26) The host accepts a supervisor packet, waiting or polling, exactly when it is the encoding of a
  well-typed supervisor message; and no packet is accepted in both directions.\<close>

theorem supervisor_wire_exact:
  "(recv_supervisor recv = Inr m \<longleftrightarrow>
      (\<exists>p. recv False (MAX_BROKER_PACKET_BYTES + 1) = Inr p \<and> supervisor_typed m
         \<and> encode_supervisor m = Inr p))
   \<and> (try_recv_supervisor recv = Inr (Some m) \<longleftrightarrow>
      (\<exists>p. recv True (MAX_BROKER_PACKET_BYTES + 1) = Inr p \<and> supervisor_typed m
         \<and> encode_supervisor m = Inr p))
   \<and> \<not> (recv_supervisor recv = Inr m \<and> recv_host recv = Inr h)"
proof -
  have nonempty: "p \<noteq> [] \<and> length p \<le> MAX_BROKER_PACKET_BYTES" if "encode_supervisor m = Inr p" for p
    using that packet_not_Nil by (auto simp: encode_supervisor_iff supervisor_repr_def)
  have wait: "recv_supervisor recv = Inr m \<longleftrightarrow>
      (\<exists>p. recv False (MAX_BROKER_PACKET_BYTES + 1) = Inr p \<and> supervisor_typed m
         \<and> encode_supervisor m = Inr p)"
    unfolding recv_supervisor_def rbind_eq_Inr recv_packet_iff
    using supervisor_codec.codec_iff nonempty by blast
  have "try_recv_supervisor recv = Inr (Some m) \<longleftrightarrow>
      (\<exists>p. recv True (MAX_BROKER_PACKET_BYTES + 1) = Inr p \<and> p \<noteq> []
         \<and> length p \<le> MAX_BROKER_PACKET_BYTES \<and> decode_supervisor p = Inr m)"
    by (auto simp: try_recv_supervisor_def recv_packet_with_flags_def
        split: sum.splits if_splits option.splits)
  then have poll: "try_recv_supervisor recv = Inr (Some m) \<longleftrightarrow>
      (\<exists>p. recv True (MAX_BROKER_PACKET_BYTES + 1) = Inr p \<and> supervisor_typed m
         \<and> encode_supervisor m = Inr p)"
    using supervisor_codec.codec_iff nonempty by blast
  have "host_kind h \<noteq> supervisor_kind m" by (cases h; cases m) simp_all
  moreover have "host_kind h = supervisor_kind m"
    if "decode_supervisor p = Inr m" "decode_host p = Inr h" for p
  proof -
    have "\<exists>d. decoder_new p = Inr (supervisor_kind m, d)" "\<exists>d. decoder_new p = Inr (host_kind h, d)"
      using that by (auto simp: decode_supervisor_def decode_host_def supervisor_fields_iff host_fields_iff)
    then show ?thesis by auto
  qed
  ultimately have "\<not> (recv_supervisor recv = Inr m \<and> recv_host recv = Inr h)"
    by (auto simp: recv_supervisor_def recv_host_def)
  then show ?thesis using wait poll by blast
qed

end
