(* ===== verification/Broker_Resources.thy ===== *)
theory Broker_Resources
  imports Broker_Executor Host_Events Broker_Wire
begin

text \<open>
  Long-lived resources of a connection (\<^verbatim>\<open>touchbar-plugin-supervisor/src/resources.rs\<close>): subscriptions
  and streams. A backend emits events through a sink, from a thread of its own, into one bounded queue
  that all resources of the connection share; the supervisor thread pumps the queue into the host event
  queue and numbers the events of each resource.

  A sink and its managed resource share a \<^verbatim>\<open>finished\<close> flag and a terminal result: they are the entry of
  \<open>rm_sinks\<close> at the resource's id, which outlives the managed resource. The handle of a resource is the
  request it was opened with. Lock poisoning is not modelled: no code panics while it holds one of these
  locks.
\<close>

section \<open>State\<close>

definition MAX_RESOURCE_EVENT_BYTES :: nat where
  "MAX_RESOURCE_EVENT_BYTES = 16 * 1024"

record resource_limits =
  rl_reserved_buffered_bytes :: nat
  rl_maximum_events_per_second :: nat

record resource_sink =
  snk_finished :: bool
  snk_terminal :: "broker_result option"
  snk_maximum_events_per_second :: nat
  snk_window_started :: nat
  snk_window_emitted :: nat

record managed_resource =
  mr_handle :: backend_request
  mr_next_sequence :: nat

record resource_manager =
  rm_backends :: "capability_id \<Rightarrow> (backend_request \<Rightarrow> resource_limits option) option"
  rm_incoming :: "(nat \<times> broker_result) list"
  rm_maximum_queued_events :: nat
  rm_dropped :: nat
  rm_resources :: "(nat, managed_resource) btree"
  rm_sinks :: "nat \<Rightarrow> resource_sink option"

section \<open>The backend's side\<close>

definition update_sink :: "nat \<Rightarrow> (resource_sink \<Rightarrow> resource_sink) \<Rightarrow> resource_manager \<Rightarrow> resource_manager" where
  "update_sink i f rm = rm\<lparr>rm_sinks := (rm_sinks rm)(i := map_option f (rm_sinks rm i))\<rparr>"

definition sink_is_finished :: "nat \<Rightarrow> resource_manager \<Rightarrow> bool" where
  "sink_is_finished i rm = (case rm_sinks rm i of None \<Rightarrow> False | Some s \<Rightarrow> snk_finished s)"

definition set_terminal ::
  "nat \<Rightarrow> broker_result \<Rightarrow> resource_manager \<Rightarrow> (broker_error_code, unit) result \<times> resource_manager" where
  "set_terminal i r rm =
     (if sink_is_finished i rm then (Inl Unavailable, rm)
      else (Inr (), update_sink i (\<lambda>s. s\<lparr>snk_terminal := Some r, snk_finished := True\<rparr>) rm))"

definition sink_finish :: "nat \<Rightarrow> broker_error_code \<Rightarrow> resource_manager \<Rightarrow> resource_manager" where
  "sink_finish i e rm = snd (set_terminal i (Error e) rm)"

definition oversized_event :: "char list \<Rightarrow> bool" where
  "oversized_event payload \<longleftrightarrow>
     length payload > MAX_RESOURCE_EVENT_BYTES \<or> length payload > MAX_INLINE_PAYLOAD_BYTES"

definition sink_complete ::
  "nat \<Rightarrow> char list \<Rightarrow> resource_manager \<Rightarrow> (broker_error_code, unit) result \<times> resource_manager" where
  "sink_complete i payload rm =
     (if oversized_event payload then (Inl QuotaExceeded, sink_finish i QuotaExceeded rm)
      else set_terminal i (Success payload) rm)"

text \<open>The rate window of one second, in nanoseconds.\<close>

definition take_rate_slot :: "nat \<Rightarrow> nat \<Rightarrow> resource_manager \<Rightarrow> bool \<times> resource_manager" where
  "take_rate_slot i now rm =
     (case rm_sinks rm i of
        None \<Rightarrow> (False, rm)
      | Some s \<Rightarrow>
          let s' = (if now - snk_window_started s \<ge> 1000000000
                    then s\<lparr>snk_window_started := now, snk_window_emitted := 0\<rparr> else s) in
          if snk_window_emitted s' \<ge> snk_maximum_events_per_second s'
          then (False, update_sink i (\<lambda>_. s') rm)
          else (True, update_sink i (\<lambda>_. s'\<lparr>snk_window_emitted := snk_window_emitted s' + 1\<rparr>) rm))"

definition record_drop :: "resource_manager \<Rightarrow> resource_manager" where
  "record_drop rm = rm\<lparr>rm_dropped := wrapping_succ (rm_dropped rm)\<rparr>"

definition sink_try_send ::
  "nat \<Rightarrow> broker_result \<Rightarrow> resource_manager \<Rightarrow> (broker_error_code, unit) result \<times> resource_manager" where
  "sink_try_send i r rm =
     (if length (rm_incoming rm) < rm_maximum_queued_events rm
      then (Inr (), rm\<lparr>rm_incoming := rm_incoming rm @ [(i, r)]\<rparr>)
      else (Inl QuotaExceeded, record_drop rm))"

definition sink_emit ::
  "nat \<Rightarrow> char list \<Rightarrow> nat \<Rightarrow> resource_manager \<Rightarrow> (broker_error_code, unit) result \<times> resource_manager" where
  "sink_emit i payload now rm =
     (if sink_is_finished i rm then (Inl Unavailable, rm)
      else if oversized_event payload then (Inl QuotaExceeded, sink_finish i QuotaExceeded rm)
      else
        case take_rate_slot i now rm of
          (False, rm1) \<Rightarrow> (Inl RateLimited, record_drop rm1)
        | (True, rm1) \<Rightarrow>
            (case sink_try_send i (Success payload) rm1 of
               (Inr _, rm2) \<Rightarrow> (Inr (), rm2)
             | (Inl e, rm2) \<Rightarrow> (Inl e, sink_finish i e rm2)))"

text \<open>\<^verbatim>\<open>emit_buffered\<close> waits for room in the queue: its checks come first, then it attempts to send until
  an attempt returns; \<open>None\<close> is an attempt that parks and tries again.\<close>

definition emit_buffered_checks ::
  "nat \<Rightarrow> char list \<Rightarrow> nat \<Rightarrow> resource_manager \<Rightarrow> (broker_error_code, unit) result \<times> resource_manager" where
  "emit_buffered_checks i payload now rm =
     (if oversized_event payload then (Inl QuotaExceeded, sink_finish i QuotaExceeded rm)
      else
        case take_rate_slot i now rm of
          (False, rm1) \<Rightarrow> (Inl RateLimited, sink_finish i RateLimited rm1)
        | (True, rm1) \<Rightarrow> (Inr (), rm1))"

definition emit_buffered_attempt ::
  "nat \<Rightarrow> char list \<Rightarrow> resource_manager \<Rightarrow> (broker_error_code, unit) result option \<times> resource_manager" where
  "emit_buffered_attempt i payload rm =
     (if sink_is_finished i rm then (Some (Inl Unavailable), rm)
      else if length (rm_incoming rm) < rm_maximum_queued_events rm
      then (Some (Inr ()), rm\<lparr>rm_incoming := rm_incoming rm @ [(i, Success payload)]\<rparr>)
      else (None, rm))"

text \<open>What the threads of the backends can do between two steps of the supervisor thread. A send may come
  after the supervisor has closed the resource, when the check of \<^verbatim>\<open>finished\<close> came before it.\<close>

inductive sink_step :: "resource_manager \<Rightarrow> resource_manager \<Rightarrow> bool" where
  step_emit: "sink_step rm (snd (sink_emit i payload now rm))"
| step_checks: "sink_step rm (snd (emit_buffered_checks i payload now rm))"
| step_attempt: "sink_step rm (snd (emit_buffered_attempt i payload rm))"
| step_send: "sink_step rm (snd (sink_try_send i r rm))"
| step_complete: "sink_step rm (snd (sink_complete i payload rm))"
| step_finish: "sink_step rm (sink_finish i e rm)"

section \<open>The supervisor's side\<close>

definition manager_new :: "nat \<Rightarrow> (string, resource_manager) result" where
  "manager_new maximum_queued_events =
     (if maximum_queued_events = 0 then Inl ''resource event capacity must be nonzero''
      else Inr \<lparr>rm_backends = Map.empty, rm_incoming = [], rm_maximum_queued_events = maximum_queued_events,
        rm_dropped = 0, rm_resources = [], rm_sinks = Map.empty\<rparr>)"

definition manager_register ::
  "capability_id \<Rightarrow> (backend_request \<Rightarrow> resource_limits option) \<Rightarrow> resource_manager \<Rightarrow> resource_manager" where
  "manager_register capability limits rm = rm\<lparr>rm_backends := (rm_backends rm)(capability \<mapsto> limits)\<rparr>"

definition manager_limits :: "resource_manager \<Rightarrow> backend_request \<Rightarrow> resource_limits option" where
  "manager_limits rm request =
     (case rm_backends rm (brq_capability request) of None \<Rightarrow> None | Some limits \<Rightarrow> limits request)"

definition fresh_sink :: "resource_limits \<Rightarrow> nat \<Rightarrow> resource_sink" where
  "fresh_sink limits now =
     \<lparr>snk_finished = False, snk_terminal = None,
      snk_maximum_events_per_second = rl_maximum_events_per_second limits,
      snk_window_started = now, snk_window_emitted = 0\<rparr>"

definition manager_open ::
  "backend_authorize \<Rightarrow> (broker_error_code, char list) result \<Rightarrow> nat \<Rightarrow> nat \<Rightarrow> backend_request \<Rightarrow>
   resource_limits \<Rightarrow> activation_ledger \<Rightarrow> resource_manager \<Rightarrow>
   (broker_error_code, char list) result \<times> activation_ledger \<times> resource_manager" where
  "manager_open authorize opened now resource_id request limits activations rm =
     (if resource_id = 0 \<or> rl_maximum_events_per_second limits = 0 \<or> bt_get (rm_resources rm) resource_id \<noteq> None
      then (Inl InvalidRequest, activations, rm)
      else
        case rm_backends rm (brq_capability request) of
          None \<Rightarrow> (Inl Unavailable, activations, rm)
        | Some backend_limits \<Rightarrow>
            if backend_limits request \<noteq> Some limits then (Inl InvalidRequest, activations, rm)
            else
              case authorize activations of
                (Inl e, activations') \<Rightarrow> (Inl e, activations', rm)
              | (Inr _, activations') \<Rightarrow>
                  let rm' = rm\<lparr>rm_sinks := (rm_sinks rm)(resource_id \<mapsto> fresh_sink limits now)\<rparr> in
                  (case opened of
                     Inl e \<Rightarrow> (Inl e, activations', rm')
                   | Inr payload \<Rightarrow>
                       if length payload > MAX_INLINE_PAYLOAD_BYTES then (Inl QuotaExceeded, activations', rm')
                       else (Inr payload, activations',
                         rm'\<lparr>rm_resources := bt_insert resource_id
                           \<lparr>mr_handle = request, mr_next_sequence = 1\<rparr> (rm_resources rm')\<rparr>)))"

definition manager_close :: "nat \<Rightarrow> resource_manager \<Rightarrow> bool \<times> resource_manager" where
  "manager_close i rm =
     (case bt_get (rm_resources rm) i of
        None \<Rightarrow> (False, rm)
      | Some _ \<Rightarrow>
          (True, update_sink i (\<lambda>s. s\<lparr>snk_finished := True\<rparr>)
             (rm\<lparr>rm_resources := bt_remove i (rm_resources rm)\<rparr>)))"

definition close_many :: "nat list \<Rightarrow> resource_manager \<Rightarrow> resource_manager" where
  "close_many ids rm = fold (\<lambda>i rm. snd (manager_close i rm)) ids rm"

fun manager_revoke ::
  "nat list \<Rightarrow> nat \<Rightarrow> host_event_queue \<times> resource_manager \<Rightarrow> host_event_queue \<times> resource_manager" where
  "manager_revoke [] generation st = st"
| "manager_revoke (i # ids) generation (events, rm) =
     (let events' = (case bt_get (rm_resources rm) i of
            None \<Rightarrow> events
          | Some r \<Rightarrow> push_resource i (mr_next_sequence r) (Error Denied) generation events) in
      manager_revoke ids generation (events', snd (manager_close i rm)))"

text \<open>One numbered event of a managed resource.\<close>

definition pump_event ::
  "nat \<Rightarrow> nat \<Rightarrow> broker_result \<Rightarrow> host_event_queue \<times> resource_manager \<Rightarrow> host_event_queue \<times> resource_manager" where
  "pump_event generation i result st =
     (case bt_get (rm_resources (snd st)) i of
        None \<Rightarrow> st
      | Some r \<Rightarrow>
          (push_resource i (mr_next_sequence r) result generation (fst st),
           (snd st)\<lparr>rm_resources := bt_insert i
             (r\<lparr>mr_next_sequence := saturating_add (mr_next_sequence r) 1\<rparr>) (rm_resources (snd st))\<rparr>))"

definition pump_incoming ::
  "nat \<Rightarrow> host_event_queue \<times> resource_manager \<Rightarrow> host_event_queue \<times> resource_manager" where
  "pump_incoming generation st =
     fold (\<lambda>(i, r) st. pump_event generation i r st) (rm_incoming (snd st))
       (fst st, (snd st)\<lparr>rm_incoming := []\<rparr>)"

definition finished_resources :: "resource_manager \<Rightarrow> nat list" where
  "finished_resources rm = filter (\<lambda>i. sink_is_finished i rm) (bt_keys (rm_resources rm))"

definition pump_terminal ::
  "nat \<Rightarrow> nat \<Rightarrow> host_event_queue \<times> resource_manager \<Rightarrow> host_event_queue \<times> resource_manager" where
  "pump_terminal generation i st =
     (if bt_get (rm_resources (snd st)) i = None then st
      else
        let terminal = (case rm_sinks (snd st) i of Some s \<Rightarrow> snk_terminal s | None \<Rightarrow> None);
            result = (case terminal of Some r \<Rightarrow> r | None \<Rightarrow> Error Internal) in
        pump_event generation i result
          (fst st, update_sink i (\<lambda>s. s\<lparr>snk_terminal := None\<rparr>) (snd st)))"

text \<open>\<open>between\<close> is what the backends do after the queue was found empty and before the finished resources are
  looked up.\<close>

definition manager_pump ::
  "(resource_manager \<Rightarrow> resource_manager) \<Rightarrow> nat \<Rightarrow> host_event_queue \<Rightarrow> resource_manager \<Rightarrow>
   nat list \<times> host_event_queue \<times> resource_manager" where
  "manager_pump between generation events rm =
     (let st1 = pump_incoming generation (events, rm);
          rm1 = between (snd st1);
          finished = finished_resources rm1;
          st2 = fold (pump_terminal generation) finished (fst st1, rm1);
          dropped = rm_dropped (snd st2);
          rm3 = (snd st2)\<lparr>rm_dropped := 0\<rparr>;
          events3 = (if dropped > 0 then record_dropped dropped generation (fst st2) else fst st2) in
      (finished, events3, close_many finished rm3))"

section \<open>The open resources\<close>

text \<open>The abstract view of the manager: the request each open resource was opened with.\<close>

definition handles :: "resource_manager \<Rightarrow> nat \<Rightarrow> backend_request option" where
  "handles rm i = map_option mr_handle (bt_get (rm_resources rm) i)"

definition manager_ok :: "resource_manager \<Rightarrow> bool" where
  "manager_ok rm \<longleftrightarrow> bt_ok (rm_resources rm)"

lemma handles_eq:
  "rm_resources rm' = rm_resources rm \<Longrightarrow> handles rm' = handles rm"
  "rm_resources rm' = rm_resources rm \<Longrightarrow> manager_ok rm' = manager_ok rm"
  by (simp_all add: handles_def manager_ok_def fun_eq_iff)

lemma update_sink_frame [simp]:
  "rm_resources (update_sink i f rm) = rm_resources rm"
  "rm_incoming (update_sink i f rm) = rm_incoming rm"
  "rm_dropped (update_sink i f rm) = rm_dropped rm"
  "rm_backends (update_sink i f rm) = rm_backends rm"
  "rm_maximum_queued_events (update_sink i f rm) = rm_maximum_queued_events rm"
  by (simp_all add: update_sink_def)

lemma sink_finish_frame [simp]:
  "rm_resources (sink_finish i e rm) = rm_resources rm"
  "rm_backends (sink_finish i e rm) = rm_backends rm"
  by (simp_all add: sink_finish_def set_terminal_def)

lemma sink_step_frame:
  "sink_step rm rm' \<Longrightarrow> rm_resources rm' = rm_resources rm \<and> rm_backends rm' = rm_backends rm"
  by (induction rule: sink_step.induct)
    (auto simp: sink_emit_def emit_buffered_checks_def emit_buffered_attempt_def sink_complete_def
      set_terminal_def sink_try_send_def record_drop_def take_rate_slot_def Let_def
      split: option.splits prod.splits bool.splits sum.splits if_splits)

definition sinks_only :: "(resource_manager \<Rightarrow> resource_manager) \<Rightarrow> bool" where
  "sinks_only f \<longleftrightarrow> (\<forall>rm. sink_step\<^sup>*\<^sup>* rm (f rm))"

lemma sinks_only_frame:
  assumes "sinks_only f"
  shows "rm_resources (f rm) = rm_resources rm" and "rm_backends (f rm) = rm_backends rm"
proof -
  have "sink_step\<^sup>*\<^sup>* rm (f rm)" using assms by (simp add: sinks_only_def)
  then have "rm_resources (f rm) = rm_resources rm \<and> rm_backends (f rm) = rm_backends rm"
    by (induction rule: rtranclp_induct) (auto dest: sink_step_frame)
  then show "rm_resources (f rm) = rm_resources rm" "rm_backends (f rm) = rm_backends rm" by simp_all
qed

lemma sinks_only_id [simp]: "sinks_only (\<lambda>rm. rm)"
  by (simp add: sinks_only_def)

lemma manager_new_ok [simp]: "manager_new n = Inr rm \<Longrightarrow> manager_ok rm \<and> handles rm = Map.empty"
  by (auto simp: manager_new_def manager_ok_def handles_def fun_eq_iff split: if_splits)

lemma manager_close_spec:
  assumes "manager_ok rm"
  shows "manager_ok (snd (manager_close i rm))"
    and "handles (snd (manager_close i rm)) = (handles rm)(i := None)"
    and "fst (manager_close i rm) \<longleftrightarrow> handles rm i \<noteq> None"
    and "rm_backends (snd (manager_close i rm)) = rm_backends rm"
  using assms by (auto simp: manager_close_def manager_ok_def handles_def fun_eq_iff split: option.splits)

lemma close_many_spec:
  assumes "manager_ok rm"
  shows "manager_ok (close_many ids rm)" and "handles (close_many ids rm) = handles rm |` (- set ids)"
    and "rm_backends (close_many ids rm) = rm_backends rm"
proof -
  have "manager_ok (close_many ids rm) \<and> handles (close_many ids rm) = handles rm |` (- set ids)
      \<and> rm_backends (close_many ids rm) = rm_backends rm"
    using assms
  proof (induction ids arbitrary: rm)
    case (Cons i ids)
    then show ?case
      using Cons.IH [OF manager_close_spec(1) [OF Cons.prems, of i]] manager_close_spec [OF Cons.prems, of i]
      by (auto simp: close_many_def fun_eq_iff restrict_map_def)
  qed (simp add: close_many_def restrict_map_def fun_eq_iff)
  then show "manager_ok (close_many ids rm)" "handles (close_many ids rm) = handles rm |` (- set ids)"
    "rm_backends (close_many ids rm) = rm_backends rm" by simp_all
qed

lemma manager_revoke_close_many: "snd (manager_revoke ids g (q, rm)) = close_many ids rm"
  by (induction ids arbitrary: q rm) (simp_all add: close_many_def)

text \<open>The answers waiting in the event queue.\<close>

definition completion_ids :: "host_event_queue \<Rightarrow> nat list" where
  "completion_ids q = concat (map (\<lambda>e. case e of HE_Completion i r \<Rightarrow> [i] | _ \<Rightarrow> []) (heq_edge_events q))"

lemma completion_ids_frame [simp]:
  "completion_ids (push_resource i n r g q) = completion_ids q"
  "completion_ids (record_dropped n g q) = completion_ids q"
  "heq_maximum_edge_events (push_resource i n r g q) = heq_maximum_edge_events q"
  "heq_maximum_edge_events (record_dropped n g q) = heq_maximum_edge_events q"
  "heq_maximum_edge_events (push_completion i r g q) = heq_maximum_edge_events q"
  by (simp_all add: completion_ids_def push_resource_def push_completion_def push_edge_def record_dropped_def)

lemma manager_revoke_events:
  assumes "queue_inv q"
  shows "queue_inv (fst (manager_revoke ids g (q, rm)))"
    and "completion_ids (fst (manager_revoke ids g (q, rm))) = completion_ids q"
    and "heq_maximum_edge_events (fst (manager_revoke ids g (q, rm))) = heq_maximum_edge_events q"
proof -
  have "queue_inv (fst (manager_revoke ids g (q, rm)))
      \<and> completion_ids (fst (manager_revoke ids g (q, rm))) = completion_ids q
      \<and> heq_maximum_edge_events (fst (manager_revoke ids g (q, rm))) = heq_maximum_edge_events q"
    using assms
  proof (induction ids arbitrary: q rm)
    case (Cons i ids)
    have "queue_inv (push_resource i n r g q)" for n r
      using Cons.prems by (simp add: push_resource_def queue_inv_push_edge)
    then show ?case using Cons by (simp split: option.splits)
  qed simp
  then show "queue_inv (fst (manager_revoke ids g (q, rm)))"
    "completion_ids (fst (manager_revoke ids g (q, rm))) = completion_ids q"
    "heq_maximum_edge_events (fst (manager_revoke ids g (q, rm))) = heq_maximum_edge_events q" by simp_all
qed

definition same_resources :: "host_event_queue \<times> resource_manager \<Rightarrow> host_event_queue \<times> resource_manager \<Rightarrow> bool" where
  "same_resources st st' \<longleftrightarrow>
     (manager_ok (snd st) \<longrightarrow> manager_ok (snd st') \<and> handles (snd st') = handles (snd st))
     \<and> (queue_inv (fst st) \<longrightarrow> queue_inv (fst st')) \<and> rm_backends (snd st') = rm_backends (snd st)
     \<and> completion_ids (fst st') = completion_ids (fst st)
     \<and> heq_maximum_edge_events (fst st') = heq_maximum_edge_events (fst st)"

lemma same_resources_refl [simp]: "same_resources st st"
  by (simp add: same_resources_def)

lemma same_resources_trans: "same_resources a b \<Longrightarrow> same_resources b c \<Longrightarrow> same_resources a c"
  by (auto simp: same_resources_def)

lemma same_resources_fold:
  "(\<And>x st. same_resources st (f x st)) \<Longrightarrow> same_resources st (fold f xs st)"
proof (induction xs arbitrary: st)
  case (Cons x xs)
  have "same_resources (f x st) (fold f xs (f x st))" by (rule Cons.IH [OF Cons.prems])
  then show ?case using same_resources_trans [OF Cons.prems [of st x]] by simp
qed simp

lemma pump_event_same: "same_resources st (pump_event g i r st)"
proof -
  have "queue_inv q \<Longrightarrow> queue_inv (push_resource i n r g q)" for n q
    by (simp add: push_resource_def queue_inv_push_edge)
  then show ?thesis
    by (auto simp: same_resources_def pump_event_def manager_ok_def handles_def fun_eq_iff split: option.splits)
qed

lemma pump_incoming_same: "same_resources st (pump_incoming g st)"
proof -
  have "same_resources st (fst st, (snd st)\<lparr>rm_incoming := []\<rparr>)"
    by (simp add: same_resources_def manager_ok_def handles_def fun_eq_iff)
  moreover have "same_resources (fst st, (snd st)\<lparr>rm_incoming := []\<rparr>) (pump_incoming g st)"
    unfolding pump_incoming_def by (rule same_resources_fold) (auto simp: pump_event_same split: prod.splits)
  ultimately show ?thesis by (rule same_resources_trans)
qed

lemma pump_terminal_same: "same_resources st (pump_terminal g i st)"
proof -
  have frame: "same_resources st (fst st, update_sink i f (snd st))" for f
    by (simp add: same_resources_def handles_eq [of "update_sink i f (snd st)" "snd st"])
  show ?thesis
  proof (cases "bt_get (rm_resources (snd st)) i = None")
    case False
    then show ?thesis
      unfolding pump_terminal_def Let_def
      using same_resources_trans [OF frame pump_event_same] by simp
  qed (simp add: pump_terminal_def)
qed

lemma finished_resources_handles: "set (finished_resources rm) \<subseteq> {i. handles rm i \<noteq> None}"
  by (auto simp: finished_resources_def handles_def bt_key_get)

lemma manager_pump_spec:
  assumes "manager_ok rm" and "queue_inv q" and "manager_pump between g q rm = (finished, q', rm')"
    and between: "sinks_only between"
  shows "manager_ok rm'" and "queue_inv q'" and "handles rm' = handles rm |` (- set finished)"
    and "set finished \<subseteq> {i. handles rm i \<noteq> None}" and "rm_backends rm' = rm_backends rm"
    and "completion_ids q' = completion_ids q" and "heq_maximum_edge_events q' = heq_maximum_edge_events q"
proof -
  let ?st0 = "pump_incoming g (q, rm)"
  let ?st1 = "(fst ?st0, between (snd ?st0))"
  let ?st2 = "fold (pump_terminal g) finished ?st1"
  have fin: "finished = finished_resources (snd ?st1)"
    and q': "q' = (if rm_dropped (snd ?st2) > 0 then record_dropped (rm_dropped (snd ?st2)) g (fst ?st2) else fst ?st2)"
    and rm': "rm' = close_many finished ((snd ?st2)\<lparr>rm_dropped := 0\<rparr>)"
    using assms(3) by (auto simp: manager_pump_def Let_def)
  have "same_resources ?st0 ?st1"
    using sinks_only_frame [OF between, of "snd ?st0"] handles_eq [of "between (snd ?st0)" "snd ?st0"]
    by (simp add: same_resources_def)
  with pump_incoming_same have 1: "same_resources (q, rm) ?st1" by (rule same_resources_trans)
  have "same_resources ?st1 ?st2" by (rule same_resources_fold) (rule pump_terminal_same)
  with 1 have 2: "same_resources (q, rm) ?st2" by (rule same_resources_trans)
  then have ok: "manager_ok ((snd ?st2)\<lparr>rm_dropped := 0\<rparr>)"
    "handles ((snd ?st2)\<lparr>rm_dropped := 0\<rparr>) = handles rm"
    using assms(1) handles_eq [of "(snd ?st2)\<lparr>rm_dropped := 0\<rparr>" "snd ?st2"]
    by (simp_all add: same_resources_def)
  show "manager_ok rm'" "handles rm' = handles rm |` (- set finished)" "rm_backends rm' = rm_backends rm"
    using close_many_spec [OF ok(1), of finished] ok(2) 2 by (simp_all add: rm' same_resources_def)
  show "queue_inv q'" "completion_ids q' = completion_ids q" "heq_maximum_edge_events q' = heq_maximum_edge_events q"
    using 2 assms(2) by (simp_all add: q' same_resources_def queue_inv_record_dropped)
  show "set finished \<subseteq> {i. handles rm i \<noteq> None}"
    using finished_resources_handles [of "snd ?st1"] 1 assms(1) by (auto simp: fin same_resources_def)
qed

lemma manager_open_cases:
  assumes "manager_ok rm"
  obtains (refused) e l' rm' where
      "manager_open authorize opened now i request limits l rm = (Inl e, l', rm')"
      "manager_ok rm'" "handles rm' = handles rm" "rm_backends rm' = rm_backends rm"
      "l' = l \<or> (\<exists>r. authorize l = (r, l'))"
  | (opened) payload l' rm' where
      "manager_open authorize opened now i request limits l rm = (Inr payload, l', rm')"
      "manager_ok rm'" "handles rm i = None" "handles rm' = (handles rm)(i \<mapsto> request)" "i \<noteq> 0"
      "authorize l = (Inr (), l')" "length payload \<le> MAX_INLINE_PAYLOAD_BYTES" "rm_backends rm' = rm_backends rm"
proof -
  obtain r l' rm' where eq: "manager_open authorize opened now i request limits l rm = (r, l', rm')"
    by (metis surj_pair)
  show ?thesis
  proof (cases r)
    case (Inl e)
    have "rm_resources rm' = rm_resources rm \<and> rm_backends rm' = rm_backends rm \<and> (l' = l \<or> (\<exists>r. authorize l = (r, l')))"
      using eq [unfolded manager_open_def Inl Let_def] by (auto split: if_splits option.splits prod.splits sum.splits)
    then show ?thesis
      using refused [of e l' rm'] eq Inl assms handles_eq [of rm' rm] by simp
  next
    case (Inr payload)
    then have *: "i \<noteq> 0" "bt_get (rm_resources rm) i = None" "authorize l = (Inr (), l')"
      "length payload \<le> MAX_INLINE_PAYLOAD_BYTES" "rm_backends rm' = rm_backends rm"
      "rm_resources rm' = bt_insert i \<lparr>mr_handle = request, mr_next_sequence = 1\<rparr> (rm_resources rm)"
      using eq [unfolded manager_open_def Let_def]
      by (auto split: if_splits option.splits prod.splits sum.splits)
    then show ?thesis
      using opened [of payload l' rm'] eq Inr assms by (simp add: manager_ok_def handles_def fun_eq_iff)
  qed
qed

section \<open>A stream can lose its last chunk\<close>

definition race_request :: backend_request where
  "race_request =
     \<lparr>brq_identity = \<lparr>ci_instance_id = 1, ci_package = \<lparr>pkg_source = (''acme'', ''reader''), pkg_version = ''1.0.0'',
        pkg_digest = [], pkg_provenance = VerifiedRelease, pkg_runtime = Component\<rparr>\<rparr>,
      brq_request_id = 1, brq_capability = FilesystemReadV1, brq_authorized_scope = SUnknown ''filesystem.read.v1'',
      brq_bindings = no_bindings, brq_activation = None, brq_operation = ''read-stream'', brq_payload = []\<rparr>"

definition race_manager :: resource_manager where
  "race_manager =
     \<lparr>rm_backends = Map.empty, rm_incoming = [], rm_maximum_queued_events = 8, rm_dropped = 0,
      rm_resources = [(1, \<lparr>mr_handle = race_request, mr_next_sequence = 1\<rparr>)],
      rm_sinks = Map.empty(1 \<mapsto> fresh_sink \<lparr>rl_reserved_buffered_bytes = 0, rl_maximum_events_per_second = 10\<rparr> 0)\<rparr>"

definition race :: "resource_manager \<Rightarrow> resource_manager" where
  "race rm = snd (sink_complete 1 ''end'' (snd (emit_buffered_attempt 1 ''chunk'' rm)))"

text \<open>The producer of a stream may send a chunk and complete the stream after the pump has found the queue
  empty and before it looks up the finished resources. The completion is then delivered and the resource
  closed, the accepted chunk stays behind in the queue, and the next pump discards it because its resource
  is gone.\<close>

lemma stream_chunk_lost:
  "sinks_only race
   \<and> fst (emit_buffered_attempt 1 ''chunk'' race_manager) = Some (Inr ())
   \<and> (case manager_pump race 1 (queue_new 4 4) race_manager of
        (finished, q, rm) \<Rightarrow>
          finished = [1] \<and> heq_edge_events q = [HE_ResourceEvent 1 1 (Success ''end'')] \<and> heq_dropped_edge_events q = 0
          \<and> rm_incoming rm = [(1, Success ''chunk'')]
          \<and> fst (snd (manager_pump (\<lambda>rm. rm) 1 q rm)) = q)"
proof (intro conjI)
  have "sink_step\<^sup>*\<^sup>* rm (race rm)" for rm
    unfolding race_def by (rule rtranclp_trans [OF r_into_rtranclp r_into_rtranclp]) (rule step_attempt step_complete)+
  then show "sinks_only race" by (simp add: sinks_only_def)
  show "fst (emit_buffered_attempt 1 ''chunk'' race_manager) = Some (Inr ())" by code_simp
  show "case manager_pump race 1 (queue_new 4 4) race_manager of
        (finished, q, rm) \<Rightarrow>
          finished = [1] \<and> heq_edge_events q = [HE_ResourceEvent 1 1 (Success ''end'')] \<and> heq_dropped_edge_events q = 0
          \<and> rm_incoming rm = [(1, Success ''chunk'')]
          \<and> fst (snd (manager_pump (\<lambda>rm. rm) 1 q rm)) = q"
    by code_simp
qed

end
