(* ===== verification/Lifecycle.thy ===== *)
theory Lifecycle
  imports Ordered_Map Capability_Id Broker_Types
begin

text \<open>
  \<^verbatim>\<open>touchbar-plugin-supervisor/src/lifecycle.rs\<close>: the quota bookkeeping of one plugin
  connection.  Pending operations and open resources are ordered maps keyed by their ids; the
  state also counts the bytes reserved by the resources.  Every operation is a function from
  the state to its result and the new state; \<open>lifecycle_step\<close> is the relation of all of them
  and \<open>lifecycle_reachable\<close> the states a connection can be in.
\<close>

record lifecycle_limits =
  maximum_pending_operations :: nat
  maximum_resources :: nat
  maximum_buffered_bytes :: nat

definition default_lifecycle_limits :: lifecycle_limits where
  "default_lifecycle_limits = \<lparr>maximum_pending_operations = 32, maximum_resources = 16,
     maximum_buffered_bytes = 4 * 1024 * 1024\<rparr>"

record pending_operation =
  po_request_id :: nat
  po_capability :: capability_id
  po_deadline_monotonic_micros :: nat

record broker_resource =
  br_resource_id :: nat
  br_capability :: capability_id
  br_buffered_bytes :: nat

record revocation_effect =
  cancelled_requests :: "nat list"
  closed_resources :: "nat list"
  released_buffered_bytes :: nat

record lifecycle_state =
  ls_limits :: lifecycle_limits
  ls_pending :: "(nat, pending_operation) btree"
  ls_resources :: "(nat, broker_resource) btree"
  ls_buffered_bytes :: nat
  ls_next_resource_id :: nat

definition lifecycle_new :: "lifecycle_limits \<Rightarrow> lifecycle_state" where
  "lifecycle_new limits = \<lparr>ls_limits = limits, ls_pending = [], ls_resources = [],
     ls_buffered_bytes = 0, ls_next_resource_id = 1\<rparr>"

definition lifecycle_begin :: "nat \<Rightarrow> capability_id \<Rightarrow> nat \<Rightarrow> lifecycle_state
    \<Rightarrow> (broker_error_code, unit) result \<times> lifecycle_state" where
  "lifecycle_begin request_id capability deadline s =
     (if request_id = 0 \<or> bt_get (ls_pending s) request_id \<noteq> None then (Inl InvalidRequest, s)
      else if maximum_pending_operations (ls_limits s) \<le> length (ls_pending s) then (Inl QuotaExceeded, s)
      else (Inr (), s\<lparr>ls_pending := bt_insert request_id
        \<lparr>po_request_id = request_id, po_capability = capability,
         po_deadline_monotonic_micros = deadline\<rparr> (ls_pending s)\<rparr>))"

definition lifecycle_finish :: "nat \<Rightarrow> lifecycle_state \<Rightarrow> pending_operation option \<times> lifecycle_state" where
  "lifecycle_finish request_id s =
     (bt_get (ls_pending s) request_id, s\<lparr>ls_pending := bt_remove request_id (ls_pending s)\<rparr>)"

definition lifecycle_cancel :: "nat \<Rightarrow> lifecycle_state \<Rightarrow> bool \<times> lifecycle_state" where
  "lifecycle_cancel request_id s =
     (bt_get (ls_pending s) request_id \<noteq> None, s\<lparr>ls_pending := bt_remove request_id (ls_pending s)\<rparr>)"

definition lifecycle_expire :: "nat \<Rightarrow> lifecycle_state \<Rightarrow> nat list \<times> lifecycle_state" where
  "lifecycle_expire now s =
     (let expired = map po_request_id
            (filter (\<lambda>p. po_deadline_monotonic_micros p \<le> now) (bt_values (ls_pending s)))
      in (expired, s\<lparr>ls_pending := fold bt_remove expired (ls_pending s)\<rparr>))"

definition allocate_resource :: "capability_id \<Rightarrow> nat \<Rightarrow> lifecycle_state
    \<Rightarrow> (broker_error_code, nat) result \<times> lifecycle_state" where
  "allocate_resource capability buffered_bytes s =
     (if maximum_resources (ls_limits s) \<le> length (ls_resources s)
       \<or> (case checked_add (ls_buffered_bytes s) buffered_bytes of
            None \<Rightarrow> True
          | Some amount \<Rightarrow> maximum_buffered_bytes (ls_limits s) < amount)
      then (Inl QuotaExceeded, s)
      else case checked_add (ls_next_resource_id s) 1 of
          None \<Rightarrow> (Inl QuotaExceeded, s)
        | Some next_id \<Rightarrow>
            (Inr (ls_next_resource_id s),
             s\<lparr>ls_next_resource_id := next_id,
               ls_buffered_bytes := ls_buffered_bytes s + buffered_bytes,
               ls_resources := bt_insert (ls_next_resource_id s)
                 \<lparr>br_resource_id = ls_next_resource_id s, br_capability = capability,
                  br_buffered_bytes = buffered_bytes\<rparr> (ls_resources s)\<rparr>))"

definition close_resource :: "nat \<Rightarrow> lifecycle_state \<Rightarrow> bool \<times> lifecycle_state" where
  "close_resource resource_id s =
     (case bt_get (ls_resources s) resource_id of
        None \<Rightarrow> (False, s)
      | Some r \<Rightarrow> (True, s\<lparr>ls_resources := bt_remove resource_id (ls_resources s),
                          ls_buffered_bytes := ls_buffered_bytes s - br_buffered_bytes r\<rparr>))"

fun remove_resources :: "nat list \<Rightarrow> (nat, broker_resource) btree \<Rightarrow> nat
    \<Rightarrow> (nat, broker_resource) btree \<times> nat" where
  "remove_resources [] resources released = (resources, released)"
| "remove_resources (i # ids) resources released =
     (case bt_get resources i of
        None \<Rightarrow> remove_resources ids resources released
      | Some r \<Rightarrow> remove_resources ids (bt_remove i resources) (released + br_buffered_bytes r))"

definition lifecycle_revoke :: "capability_id \<Rightarrow> lifecycle_state \<Rightarrow> revocation_effect \<times> lifecycle_state" where
  "lifecycle_revoke capability s =
     (let cancelled = map po_request_id
            (filter (\<lambda>p. po_capability p = capability) (bt_values (ls_pending s)));
          closed = map br_resource_id
            (filter (\<lambda>r. br_capability r = capability) (bt_values (ls_resources s)));
          (resources, released) = remove_resources closed (ls_resources s) 0
      in (\<lparr>cancelled_requests = cancelled, closed_resources = closed,
           released_buffered_bytes = released\<rparr>,
          s\<lparr>ls_pending := fold bt_remove cancelled (ls_pending s),
            ls_resources := resources,
            ls_buffered_bytes := ls_buffered_bytes s - released\<rparr>))"

definition lifecycle_revoke_all :: "lifecycle_state \<Rightarrow> revocation_effect \<times> lifecycle_state" where
  "lifecycle_revoke_all s =
     (\<lparr>cancelled_requests = bt_keys (ls_pending s), closed_resources = bt_keys (ls_resources s),
       released_buffered_bytes = ls_buffered_bytes s\<rparr>,
      s\<lparr>ls_pending := [], ls_resources := [], ls_buffered_bytes := 0\<rparr>)"

inductive lifecycle_step :: "lifecycle_state \<Rightarrow> lifecycle_state \<Rightarrow> bool" where
  step_begin: "lifecycle_step s (snd (lifecycle_begin i c d s))"
| step_finish: "lifecycle_step s (snd (lifecycle_finish i s))"
| step_cancel: "lifecycle_step s (snd (lifecycle_cancel i s))"
| step_expire: "lifecycle_step s (snd (lifecycle_expire now s))"
| step_allocate: "lifecycle_step s (snd (allocate_resource c n s))"
| step_close: "lifecycle_step s (snd (close_resource i s))"
| step_revoke: "lifecycle_step s (snd (lifecycle_revoke c s))"
| step_revoke_all: "lifecycle_step s (snd (lifecycle_revoke_all s))"

inductive lifecycle_reachable :: "lifecycle_limits \<Rightarrow> lifecycle_state \<Rightarrow> bool" for limits where
  reach_new: "lifecycle_reachable limits (lifecycle_new limits)"
| reach_step: "lifecycle_reachable limits s \<Longrightarrow> lifecycle_step s t \<Longrightarrow> lifecycle_reachable limits t"

definition reserved_bytes :: "(nat, broker_resource) btree \<Rightarrow> nat" where
  "reserved_bytes rs = sum_list (map (br_buffered_bytes \<circ> snd) (bt_entries rs))"

definition lifecycle_inv :: "lifecycle_limits \<Rightarrow> lifecycle_state \<Rightarrow> bool" where
  "lifecycle_inv limits s \<longleftrightarrow>
     ls_limits s = limits
   \<and> bt_ok (ls_pending s) \<and> bt_ok (ls_resources s)
   \<and> (\<forall>k p. bt_get (ls_pending s) k = Some p \<longrightarrow> po_request_id p = k \<and> k \<noteq> 0)
   \<and> (\<forall>k r. bt_get (ls_resources s) k = Some r \<longrightarrow> br_resource_id r = k \<and> 0 < k \<and> k < ls_next_resource_id s)
   \<and> ls_buffered_bytes s = reserved_bytes (ls_resources s)
   \<and> length (ls_pending s) \<le> maximum_pending_operations limits
   \<and> length (ls_resources s) \<le> maximum_resources limits
   \<and> ls_buffered_bytes s \<le> maximum_buffered_bytes limits
   \<and> 0 < ls_next_resource_id s \<and> ls_next_resource_id s \<le> u64_max"

section \<open>Shared lemmas\<close>

lemma bt_length_remove_le: "length (bt_remove k m) \<le> length m"
  by (simp add: bt_remove_def)

lemma bt_length_fold_remove_le: "length (fold bt_remove ks m) \<le> length m"
  by (induction ks arbitrary: m) (auto intro: order_trans bt_length_remove_le)

lemma bt_length_insert_fresh:
  "bt_ok m \<Longrightarrow> bt_get m k = None \<Longrightarrow> length (bt_insert k v m) = Suc (length m)"
  using bt.length_ins_fresh by (simp add: bt_entries_def)

lemma reserved_insert:
  "bt_ok m \<Longrightarrow> bt_get m k = None \<Longrightarrow>
   reserved_bytes (bt_insert k r m) = br_buffered_bytes r + reserved_bytes m"
  unfolding reserved_bytes_def by (rule bt.sum_ins_fresh)

lemma reserved_remove:
  "bt_ok m \<Longrightarrow> bt_get m k = Some r \<Longrightarrow>
   reserved_bytes m = br_buffered_bytes r + reserved_bytes (bt_remove k m)"
  unfolding reserved_bytes_def by (rule bt.sum_del_present)

lemma remove_resources_spec:
  assumes "bt_ok m" and "remove_resources ids m n = (m', n')"
  shows "bt_ok m'" and "bt_get m' = (bt_get m) |` (- set ids)"
    and "length m' \<le> length m" and "n' + reserved_bytes m' = n + reserved_bytes m"
proof -
  have "bt_ok m' \<and> bt_get m' = (bt_get m) |` (- set ids) \<and> length m' \<le> length m
      \<and> n' + reserved_bytes m' = n + reserved_bytes m"
    using assms
  proof (induction ids m n rule: remove_resources.induct)
    case (1 m n)
    then show ?case by (auto simp: fun_eq_iff restrict_map_def)
  next
    case (2 i ids m n)
    show ?case
    proof (cases "bt_get m i")
      case None
      with 2 have "bt_ok m' \<and> bt_get m' = (bt_get m) |` (- set ids) \<and> length m' \<le> length m
          \<and> n' + reserved_bytes m' = n + reserved_bytes m" by simp
      with None show ?thesis by (auto simp: fun_eq_iff restrict_map_def)
    next
      case (Some r)
      have ok: "bt_ok (bt_remove i m)"
        and rest: "remove_resources ids (bt_remove i m) (n + br_buffered_bytes r) = (m', n')"
        using 2(3,4) Some by simp_all
      from 2(2) [OF Some ok rest] have IH: "bt_ok m'"
          "bt_get m' = (bt_get (bt_remove i m)) |` (- set ids)"
          "length m' \<le> length (bt_remove i m)"
          "n' + reserved_bytes m' = n + br_buffered_bytes r + reserved_bytes (bt_remove i m)"
        by blast+
      have "(bt_get (bt_remove i m)) |` (- set ids) = (bt_get m) |` (- set (i # ids))"
        using 2(3) by (auto simp: restrict_map_def)
      with IH(2) have "bt_get m' = (bt_get m) |` (- set (i # ids))" by (rule trans)
      with IH(1,3,4) show ?thesis
        using bt_length_remove_le [of i m] reserved_remove [OF 2(3) Some] by simp
    qed
  qed
  then show "bt_ok m'" and "bt_get m' = (bt_get m) |` (- set ids)"
    and "length m' \<le> length m" and "n' + reserved_bytes m' = n + reserved_bytes m" by auto
qed

section \<open>The invariant\<close>

lemma lifecycle_inv_new: "lifecycle_inv limits (lifecycle_new limits)"
  by (simp add: lifecycle_inv_def lifecycle_new_def reserved_bytes_def bt_entries_def u64_max_def)

lemma lifecycle_inv_pending_subset:
  assumes "lifecycle_inv limits s" and "bt_ok m" and "length m \<le> length (ls_pending s)"
    and "\<And>k p. bt_get m k = Some p \<Longrightarrow> bt_get (ls_pending s) k = Some p"
  shows "lifecycle_inv limits (s\<lparr>ls_pending := m\<rparr>)"
  using assms by (auto simp: lifecycle_inv_def)

lemma lifecycle_inv_begin [invar_intro]:
  "lifecycle_inv limits s \<Longrightarrow> lifecycle_inv limits (snd (lifecycle_begin i c d s))"
  by (auto simp: lifecycle_begin_def lifecycle_inv_def bt_length_insert_fresh)

lemma lifecycle_inv_remove_pending [invar_intro]:
  assumes "lifecycle_inv limits s"
  shows "lifecycle_inv limits (s\<lparr>ls_pending := fold bt_remove ks (ls_pending s)\<rparr>)"
proof -
  have ok: "bt_ok (ls_pending s)" using assms by (simp add: lifecycle_inv_def)
  then show ?thesis
    by (intro lifecycle_inv_pending_subset [OF assms])
      (auto simp: bt_length_fold_remove_le fold_bt_remove_get restrict_map_def split: if_splits)
qed

lemma lifecycle_inv_remove_one [invar_intro]:
  "lifecycle_inv limits s \<Longrightarrow> lifecycle_inv limits (s\<lparr>ls_pending := bt_remove k (ls_pending s)\<rparr>)"
  using lifecycle_inv_remove_pending [of limits s "[k]"] by simp

lemma lifecycle_inv_allocate [invar_intro]:
  assumes "lifecycle_inv limits s"
  shows "lifecycle_inv limits (snd (allocate_resource c n s))"
proof -
  have fresh: "bt_get (ls_resources s) (ls_next_resource_id s) = None"
    using assms by (cases "bt_get (ls_resources s) (ls_next_resource_id s)") (auto simp: lifecycle_inv_def)
  show ?thesis
    using assms fresh
    by (auto simp: allocate_resource_def lifecycle_inv_def checked_add_def reserved_insert
        bt_length_insert_fresh less_Suc_eq split: option.splits if_splits)
qed

lemma lifecycle_inv_resource_subset:
  assumes "lifecycle_inv limits s" and "bt_ok m" and "length m \<le> length (ls_resources s)"
    and "\<And>k p. bt_get m k = Some p \<Longrightarrow> bt_get (ls_resources s) k = Some p"
    and "n + reserved_bytes m = reserved_bytes (ls_resources s)"
  shows "lifecycle_inv limits (s\<lparr>ls_resources := m, ls_buffered_bytes := ls_buffered_bytes s - n\<rparr>)"
  using assms by (auto simp: lifecycle_inv_def)

lemma lifecycle_inv_close [invar_intro]:
  assumes "lifecycle_inv limits s"
  shows "lifecycle_inv limits (snd (close_resource i s))"
proof (cases "bt_get (ls_resources s) i")
  case None
  then show ?thesis using assms by (simp add: close_resource_def)
next
  case (Some r)
  have ok: "bt_ok (ls_resources s)" using assms by (simp add: lifecycle_inv_def)
  have "lifecycle_inv limits (s\<lparr>ls_resources := bt_remove i (ls_resources s),
      ls_buffered_bytes := ls_buffered_bytes s - br_buffered_bytes r\<rparr>)"
    using ok reserved_remove [OF ok Some]
    by (intro lifecycle_inv_resource_subset [OF assms]) (auto simp: bt_length_remove_le split: if_splits)
  then show ?thesis using Some by (simp add: close_resource_def)
qed

lemma lifecycle_inv_revoke [invar_intro]:
  assumes "lifecycle_inv limits s"
  shows "lifecycle_inv limits (snd (lifecycle_revoke c s))"
proof -
  let ?closed = "map br_resource_id (filter (\<lambda>r. br_capability r = c) (bt_values (ls_resources s)))"
  let ?cancelled = "map po_request_id (filter (\<lambda>p. po_capability p = c) (bt_values (ls_pending s)))"
  obtain m n where rr: "remove_resources ?closed (ls_resources s) 0 = (m, n)"
    by fastforce
  have inv: "lifecycle_inv limits (s\<lparr>ls_pending := fold bt_remove ?cancelled (ls_pending s)\<rparr>)"
    using assms by (rule lifecycle_inv_remove_pending)
  have ok: "bt_ok (ls_resources s)" using assms by (simp add: lifecycle_inv_def)
  note spec = remove_resources_spec [OF ok rr]
  have "lifecycle_inv limits (s\<lparr>ls_pending := fold bt_remove ?cancelled (ls_pending s),
      ls_resources := m, ls_buffered_bytes := ls_buffered_bytes s - n\<rparr>)"
  proof -
    have "bt_get (ls_resources s) k = Some p" if "bt_get m k = Some p" for k p
      using that unfolding spec(2) by (simp add: restrict_map_def split: if_splits)
    then show ?thesis
      using lifecycle_inv_resource_subset [OF inv spec(1), of n] spec(3,4) by simp
  qed
  then show ?thesis using rr by (simp add: lifecycle_revoke_def Let_def)
qed

lemma lifecycle_inv_revoke_all [invar_intro]:
  "lifecycle_inv limits s \<Longrightarrow> lifecycle_inv limits (snd (lifecycle_revoke_all s))"
  by (simp add: lifecycle_revoke_all_def lifecycle_inv_def reserved_bytes_def bt_entries_def)

lemma lifecycle_step_inv: "lifecycle_step s t \<Longrightarrow> lifecycle_inv limits s \<Longrightarrow> lifecycle_inv limits t"
  by (induction rule: lifecycle_step.induct)
    (simp_all add: lifecycle_finish_def lifecycle_cancel_def lifecycle_expire_def Let_def invar_intro)

lemma lifecycle_reachable_inv: "lifecycle_reachable limits s \<Longrightarrow> lifecycle_inv limits s"
  by (induction rule: lifecycle_reachable.induct) (auto intro: lifecycle_inv_new lifecycle_step_inv)

section \<open>What the operations do\<close>

lemma pending_key:
  "lifecycle_inv limits s \<Longrightarrow> p \<in> set (bt_values (ls_pending s)) \<longleftrightarrow>
     bt_get (ls_pending s) (po_request_id p) = Some p"
  unfolding lifecycle_inv_def by (metis bt_get_Some_value bt_value_get)

lemma resource_key:
  "lifecycle_inv limits s \<Longrightarrow> r \<in> set (bt_values (ls_resources s)) \<longleftrightarrow>
     bt_get (ls_resources s) (br_resource_id r) = Some r"
  unfolding lifecycle_inv_def by (metis bt_get_Some_value bt_value_get)

lemma filtered_pending_ids:
  assumes "lifecycle_inv limits s"
  shows "i \<in> set (map po_request_id (filter P (bt_values (ls_pending s)))) \<longleftrightarrow>
     (\<exists>p. bt_get (ls_pending s) i = Some p \<and> P p)"
proof
  assume "i \<in> set (map po_request_id (filter P (bt_values (ls_pending s))))"
  then show "\<exists>p. bt_get (ls_pending s) i = Some p \<and> P p"
    using assms by (auto simp: pending_key)
next
  assume "\<exists>p. bt_get (ls_pending s) i = Some p \<and> P p"
  then obtain p where p: "bt_get (ls_pending s) i = Some p" "P p" by blast
  then have "po_request_id p = i" using assms by (simp add: lifecycle_inv_def)
  then show "i \<in> set (map po_request_id (filter P (bt_values (ls_pending s))))"
    using assms p pending_key [OF assms, of p] by force
qed

lemma filtered_resource_ids:
  assumes "lifecycle_inv limits s"
  shows "i \<in> set (map br_resource_id (filter P (bt_values (ls_resources s)))) \<longleftrightarrow>
     (\<exists>r. bt_get (ls_resources s) i = Some r \<and> P r)"
proof
  assume "i \<in> set (map br_resource_id (filter P (bt_values (ls_resources s))))"
  then show "\<exists>r. bt_get (ls_resources s) i = Some r \<and> P r"
    using assms by (auto simp: resource_key)
next
  assume "\<exists>r. bt_get (ls_resources s) i = Some r \<and> P r"
  then obtain r where r: "bt_get (ls_resources s) i = Some r" "P r" by blast
  then have "br_resource_id r = i" using assms by (simp add: lifecycle_inv_def)
  then show "i \<in> set (map br_resource_id (filter P (bt_values (ls_resources s))))"
    using assms r resource_key [OF assms, of r] by force
qed

lemma next_id_mono: "lifecycle_step s t \<Longrightarrow> ls_next_resource_id s \<le> ls_next_resource_id t"
  by (induction rule: lifecycle_step.induct)
    (auto simp: lifecycle_begin_def lifecycle_finish_def lifecycle_cancel_def lifecycle_expire_def
      allocate_resource_def close_resource_def lifecycle_revoke_def lifecycle_revoke_all_def
      checked_add_def Let_def split: option.splits prod.splits)

lemma revoke_state:
  assumes "lifecycle_inv limits s" and "lifecycle_revoke c s = (eff, t)"
  shows "bt_get (ls_pending t) i = (case bt_get (ls_pending s) i of None \<Rightarrow> None
           | Some p \<Rightarrow> if po_capability p = c then None else Some p)"
    and "bt_get (ls_resources t) i = (case bt_get (ls_resources s) i of None \<Rightarrow> None
           | Some r \<Rightarrow> if br_capability r = c then None else Some r)"
    and "released_buffered_bytes eff + reserved_bytes (ls_resources t) = reserved_bytes (ls_resources s)"
    and "i \<in> set (cancelled_requests eff) \<longleftrightarrow> (\<exists>p. bt_get (ls_pending s) i = Some p \<and> po_capability p = c)"
    and "i \<in> set (closed_resources eff) \<longleftrightarrow> (\<exists>r. bt_get (ls_resources s) i = Some r \<and> br_capability r = c)"
proof -
  let ?closed = "map br_resource_id (filter (\<lambda>r. br_capability r = c) (bt_values (ls_resources s)))"
  let ?cancelled = "map po_request_id (filter (\<lambda>p. po_capability p = c) (bt_values (ls_pending s)))"
  obtain m n where rr: "remove_resources ?closed (ls_resources s) 0 = (m, n)"
    by fastforce
  have ok: "bt_ok (ls_resources s)" "bt_ok (ls_pending s)"
    using assms(1) by (simp_all add: lifecycle_inv_def)
  note spec = remove_resources_spec [OF ok(1) rr]
  have t: "ls_pending t = fold bt_remove ?cancelled (ls_pending s)" "ls_resources t = m"
    and eff: "cancelled_requests eff = ?cancelled" "closed_resources eff = ?closed"
      "released_buffered_bytes eff = n"
    using assms(2) rr by (auto simp: lifecycle_revoke_def Let_def)
  have canc: "i \<in> set ?cancelled \<longleftrightarrow> (\<exists>p. bt_get (ls_pending s) i = Some p \<and> po_capability p = c)" for i
    using assms(1) by (rule filtered_pending_ids)
  have clos: "i \<in> set ?closed \<longleftrightarrow> (\<exists>r. bt_get (ls_resources s) i = Some r \<and> br_capability r = c)" for i
    using assms(1) by (rule filtered_resource_ids)
  show "bt_get (ls_pending t) i = (case bt_get (ls_pending s) i of None \<Rightarrow> None
           | Some p \<Rightarrow> if po_capability p = c then None else Some p)"
    unfolding t(1) fold_bt_remove_get [OF ok(2)] restrict_map_def Compl_iff canc
    by (auto split: option.splits)
  show "bt_get (ls_resources t) i = (case bt_get (ls_resources s) i of None \<Rightarrow> None
           | Some r \<Rightarrow> if br_capability r = c then None else Some r)"
    unfolding t(2) spec(2) restrict_map_def Compl_iff clos by (auto split: option.splits)
  show "released_buffered_bytes eff + reserved_bytes (ls_resources t) = reserved_bytes (ls_resources s)"
    unfolding t(2) eff(3) using spec(4) by simp
  show "i \<in> set (cancelled_requests eff) \<longleftrightarrow> (\<exists>p. bt_get (ls_pending s) i = Some p \<and> po_capability p = c)"
    unfolding eff by (rule canc)
  show "i \<in> set (closed_resources eff) \<longleftrightarrow> (\<exists>r. bt_get (ls_resources s) i = Some r \<and> br_capability r = c)"
    unfolding eff by (rule clos)
qed

lemma next_id_mono_star:
  "lifecycle_step\<^sup>*\<^sup>* s t \<Longrightarrow> ls_next_resource_id s \<le> ls_next_resource_id t"
  by (induction rule: rtranclp_induct) (auto dest: next_id_mono)

section \<open>Properties\<close>

text \<open>In every state a connection can reach, the pending operations, open resources and
  reserved bytes are within the configured limits, and the byte counter is exactly the sum of
  what the open resources reserve (so the saturating subtractions never hide a mismatch).\<close>

theorem lifecycle_quotas:
  assumes "lifecycle_reachable limits s"
  shows "length (ls_pending s) \<le> maximum_pending_operations limits
    \<and> length (ls_resources s) \<le> maximum_resources limits
    \<and> ls_buffered_bytes s \<le> maximum_buffered_bytes limits
    \<and> ls_buffered_bytes s = sum_list (map br_buffered_bytes (bt_values (ls_resources s)))"
  using lifecycle_reachable_inv [OF assms]
  by (simp add: lifecycle_inv_def reserved_bytes_def bt_values_entries)

theorem lifecycle_quotas_witness:
  "ls_buffered_bytes (snd (allocate_resource HttpRequestV1 100 (lifecycle_new default_lifecycle_limits)))
     \<le> 4 * 1024 * 1024"
proof -
  have "lifecycle_reachable default_lifecycle_limits
      (snd (allocate_resource HttpRequestV1 100 (lifecycle_new default_lifecycle_limits)))"
    by (rule reach_step [OF reach_new step_allocate])
  from lifecycle_quotas [OF this] show ?thesis
    by (simp add: default_lifecycle_limits_def)
qed

text \<open>Revoking a capability removes exactly the pending operations and open resources that
  belong to it, reports exactly those ids, keeps every other entry unchanged and gives back
  exactly the bytes the closed resources had reserved.\<close>

theorem revoke_exact:
  assumes "lifecycle_reachable limits s" and "lifecycle_revoke c s = (eff, t)"
  shows "(\<forall>i. bt_get (ls_pending t) i = (case bt_get (ls_pending s) i of None \<Rightarrow> None
             | Some p \<Rightarrow> if po_capability p = c then None else Some p))
    \<and> (\<forall>i. bt_get (ls_resources t) i = (case bt_get (ls_resources s) i of None \<Rightarrow> None
             | Some r \<Rightarrow> if br_capability r = c then None else Some r))
    \<and> set (cancelled_requests eff) = {i. \<exists>p. bt_get (ls_pending s) i = Some p \<and> po_capability p = c}
    \<and> set (closed_resources eff) = {i. \<exists>r. bt_get (ls_resources s) i = Some r \<and> br_capability r = c}
    \<and> released_buffered_bytes eff + ls_buffered_bytes t = ls_buffered_bytes s"
proof -
  have inv: "lifecycle_inv limits s" using assms(1) by (rule lifecycle_reachable_inv)
  then have "lifecycle_inv limits t"
    using lifecycle_inv_revoke [of limits s c] assms(2) by simp
  then show ?thesis
    using inv revoke_state [OF inv assms(2)] by (auto simp: lifecycle_inv_def)
qed

theorem revoke_exact_witness:
  "bt_get (ls_pending (snd (lifecycle_revoke HttpRequestV1
     (snd (lifecycle_begin 7 HttpRequestV1 50 (lifecycle_new default_lifecycle_limits)))))) 7 = None"
proof -
  let ?s = "snd (lifecycle_begin 7 HttpRequestV1 50 (lifecycle_new default_lifecycle_limits))"
  have r: "lifecycle_reachable default_lifecycle_limits ?s"
    by (rule reach_step [OF reach_new step_begin])
  have "bt_get (ls_pending ?s) 7 = Some \<lparr>po_request_id = 7, po_capability = HttpRequestV1,
      po_deadline_monotonic_micros = 50\<rparr>"
    by (simp add: lifecycle_begin_def lifecycle_new_def default_lifecycle_limits_def bt_get_def)
  then show ?thesis
    using revoke_exact [OF r prod.collapse [symmetric], of HttpRequestV1] by simp
qed

text \<open>Resource ids are never reused: an id handed out later in the life of a connection,
  after any operations in between, is strictly larger.\<close>

theorem resource_ids_increase:
  assumes "allocate_resource c n s = (Inr i, t)" and "lifecycle_step\<^sup>*\<^sup>* t u"
    and "allocate_resource c' n' u = (Inr j, v)"
  shows "i < j"
proof -
  have "i < ls_next_resource_id t"
    using assms(1) by (auto simp: allocate_resource_def checked_add_def split: if_splits option.splits)
  moreover have "j = ls_next_resource_id u"
    using assms(3) by (auto simp: allocate_resource_def split: if_splits option.splits)
  ultimately show ?thesis using next_id_mono_star [OF assms(2)] by simp
qed

theorem resource_ids_increase_witness:
  "\<exists>t u v. allocate_resource HttpRequestV1 1 (lifecycle_new default_lifecycle_limits) = (Inr 1, t)
     \<and> lifecycle_step\<^sup>*\<^sup>* t u \<and> allocate_resource DbusCallV1 1 u = (Inr 2, v) \<and> (1::nat) < 2"
proof -
  let ?t = "snd (allocate_resource HttpRequestV1 1 (lifecycle_new default_lifecycle_limits))"
  have 1: "allocate_resource HttpRequestV1 1 (lifecycle_new default_lifecycle_limits) = (Inr 1, ?t)"
    by (simp add: allocate_resource_def lifecycle_new_def default_lifecycle_limits_def checked_add_def u64_max_def)
  have 2: "lifecycle_step\<^sup>*\<^sup>* ?t (snd (close_resource 1 ?t))"
    by (rule r_into_rtranclp) (rule step_close)
  have 3: "allocate_resource DbusCallV1 1 (snd (close_resource 1 ?t))
      = (Inr 2, snd (allocate_resource DbusCallV1 1 (snd (close_resource 1 ?t))))"
    by (simp add: allocate_resource_def close_resource_def lifecycle_new_def default_lifecycle_limits_def
        checked_add_def u64_max_def bt_get_def bt_remove_def)
  show ?thesis using 1 2 3 resource_ids_increase [OF 1 2 3] by blast
qed

text \<open>Expiry cancels exactly the pending operations whose deadline has passed: afterwards
  an operation is pending iff it was and its deadline is still ahead.\<close>

theorem expire_exact:
  assumes "lifecycle_reachable limits s" and "lifecycle_expire now s = (expired, t)"
  shows "bt_get (ls_pending t) i = (case bt_get (ls_pending s) i of None \<Rightarrow> None
           | Some p \<Rightarrow> if po_deadline_monotonic_micros p \<le> now then None else Some p)
    \<and> (i \<in> set expired \<longleftrightarrow> (\<exists>p. bt_get (ls_pending s) i = Some p \<and> po_deadline_monotonic_micros p \<le> now))
    \<and> ls_resources t = ls_resources s \<and> ls_buffered_bytes t = ls_buffered_bytes s"
proof -
  have inv: "lifecycle_inv limits s" using assms(1) by (rule lifecycle_reachable_inv)
  then have ok: "bt_ok (ls_pending s)" by (simp add: lifecycle_inv_def)
  have e: "expired = map po_request_id
      (filter (\<lambda>p. po_deadline_monotonic_micros p \<le> now) (bt_values (ls_pending s)))"
    and t: "t = s\<lparr>ls_pending := fold bt_remove expired (ls_pending s)\<rparr>"
    using assms(2) by (auto simp: lifecycle_expire_def Let_def)
  have m: "i \<in> set expired \<longleftrightarrow> (\<exists>p. bt_get (ls_pending s) i = Some p \<and> po_deadline_monotonic_micros p \<le> now)" for i
    unfolding e using inv by (rule filtered_pending_ids)
  show ?thesis
    unfolding t using m ok by (auto simp: fold_bt_remove_get restrict_map_def split: option.splits)
qed

theorem expire_exact_witness:
  "(7::nat) \<in> set (fst (lifecycle_expire 60
     (snd (lifecycle_begin 7 HttpRequestV1 50 (lifecycle_new default_lifecycle_limits)))))"
proof -
  let ?s = "snd (lifecycle_begin 7 HttpRequestV1 50 (lifecycle_new default_lifecycle_limits))"
  have r: "lifecycle_reachable default_lifecycle_limits ?s"
    by (rule reach_step [OF reach_new step_begin])
  show ?thesis
    using expire_exact [OF r prod.collapse [symmetric], where now = 60 and i = 7]
    by (simp add: lifecycle_begin_def lifecycle_new_def default_lifecycle_limits_def bt_get_def)
qed

end
