(* ===== verification/Broker_Runtime.thy ===== *)
theory Broker_Runtime
  imports Broker_Resources Lifecycle
begin

text \<open>
  The composition of worker pool, quotas, event queue and resources of one connection
  (\<^verbatim>\<open>touchbar-plugin-supervisor/src/runtime.rs\<close>). Two bookkeepings run side by side: the lifecycle
  counts pending operations and resources against the quotas, the executor and the resource manager
  hold the operations and resources themselves. The invariant relates them: every pending operation is
  active, an active operation that is no longer pending has been cancelled, and the lifecycle and the
  manager know the same resources, which is what the code asserts when it closes one.
\<close>

record broker_runtime =
  rt_executor :: executor
  rt_lifecycle :: lifecycle_state
  rt_events :: host_event_queue
  rt_resources :: resource_manager

definition runtime_new ::
  "executor_limits \<Rightarrow> lifecycle_limits \<Rightarrow> nat \<Rightarrow> nat \<Rightarrow> (string, broker_runtime) result" where
  "runtime_new executor_limits lifecycle_limits maximum_state_events maximum_edge_events =
     rbind (executor_new executor_limits) (\<lambda>ex.
     rbind (manager_new maximum_edge_events) (\<lambda>rm.
       Inr \<lparr>rt_executor = ex, rt_lifecycle = lifecycle_new lifecycle_limits,
         rt_events = queue_new maximum_state_events maximum_edge_events, rt_resources = rm\<rparr>))"

definition runtime_register :: "capability_id \<Rightarrow> broker_runtime \<Rightarrow> broker_runtime" where
  "runtime_register capability rt = rt\<lparr>rt_executor := executor_register capability (rt_executor rt)\<rparr>"

definition runtime_register_resource ::
  "capability_id \<Rightarrow> (backend_request \<Rightarrow> resource_limits option) \<Rightarrow> broker_runtime \<Rightarrow> broker_runtime" where
  "runtime_register_resource capability limits rt =
     rt\<lparr>rt_resources := manager_register capability limits (rt_resources rt)\<rparr>"

definition runtime_submit ::
  "backend_authorize \<Rightarrow> backend_request \<Rightarrow> nat \<Rightarrow> nat \<Rightarrow> nat \<Rightarrow> activation_ledger \<Rightarrow> broker_runtime \<Rightarrow>
   (broker_error_code, unit) result \<times> activation_ledger \<times> broker_runtime" where
  "runtime_submit authorize request now timeout deadline activations rt =
     (let request_id = brq_request_id request in
      case lifecycle_begin request_id (brq_capability request) deadline (rt_lifecycle rt) of
        (Inl e, lc) \<Rightarrow> (Inl e, activations, rt\<lparr>rt_lifecycle := lc\<rparr>)
      | (Inr _, lc) \<Rightarrow>
          (case executor_submit authorize request now timeout activations (rt_executor rt) of
             (Inl e, activations', ex) \<Rightarrow>
               (Inl e, activations',
                rt\<lparr>rt_executor := ex, rt_lifecycle := snd (lifecycle_finish request_id lc)\<rparr>)
           | (Inr _, activations', ex) \<Rightarrow>
               (Inr (), activations', rt\<lparr>rt_executor := ex, rt_lifecycle := lc\<rparr>)))"

definition runtime_cancel :: "nat \<Rightarrow> broker_runtime \<Rightarrow> bool \<times> broker_runtime" where
  "runtime_cancel request_id rt =
     (let (found, ex) = executor_cancel request_id (rt_executor rt) in (found, rt\<lparr>rt_executor := ex\<rparr>))"

definition runtime_resource_limits :: "broker_runtime \<Rightarrow> backend_request \<Rightarrow> resource_limits option" where
  "runtime_resource_limits rt request = manager_limits (rt_resources rt) request"

definition open_resource ::
  "backend_authorize \<Rightarrow> (broker_error_code, char list) result \<Rightarrow> nat \<Rightarrow> backend_request \<Rightarrow>
   activation_ledger \<Rightarrow> broker_runtime \<Rightarrow>
   (broker_error_code, nat \<times> char list) result \<times> activation_ledger \<times> broker_runtime" where
  "open_resource authorize opened now request activations rt =
     (case manager_limits (rt_resources rt) request of
        None \<Rightarrow> (Inl Unavailable, activations, rt)
      | Some limits \<Rightarrow>
          (case allocate_resource (brq_capability request) (rl_reserved_buffered_bytes limits) (rt_lifecycle rt) of
             (Inl e, lc) \<Rightarrow> (Inl e, activations, rt\<lparr>rt_lifecycle := lc\<rparr>)
           | (Inr resource_id, lc) \<Rightarrow>
               (case manager_open authorize opened now resource_id request limits activations (rt_resources rt) of
                  (Inr payload, activations', rm) \<Rightarrow>
                    (Inr (resource_id, payload), activations', rt\<lparr>rt_lifecycle := lc, rt_resources := rm\<rparr>)
                | (Inl e, activations', rm) \<Rightarrow>
                    (Inl e, activations',
                     rt\<lparr>rt_lifecycle := snd (close_resource resource_id lc), rt_resources := rm\<rparr>))))"

text \<open>\<open>None\<close> is a failed \<^verbatim>\<open>debug_assert_eq!\<close>.\<close>

definition runtime_close_resource :: "nat \<Rightarrow> broker_runtime \<Rightarrow> (bool \<times> broker_runtime) option" where
  "runtime_close_resource resource_id rt =
     (let (managed, rm) = manager_close resource_id (rt_resources rt);
          (tracked, lc) = close_resource resource_id (rt_lifecycle rt) in
      do { passert (managed = tracked);
           Some (managed \<and> tracked, rt\<lparr>rt_resources := rm, rt_lifecycle := lc\<rparr>) })"

definition runtime_revoke :: "capability_id \<Rightarrow> nat \<Rightarrow> broker_runtime \<Rightarrow> revocation_effect \<times> broker_runtime" where
  "runtime_revoke capability generation rt =
     (let ex = snd (executor_revoke capability (rt_executor rt));
          (effect, lc) = lifecycle_revoke capability (rt_lifecycle rt);
          (events, rm) = manager_revoke (closed_resources effect) generation (rt_events rt, rt_resources rt) in
      (effect, rt\<lparr>rt_executor := ex, rt_lifecycle := lc, rt_events := events, rt_resources := rm\<rparr>))"

definition runtime_revoke_all :: "broker_runtime \<Rightarrow> revocation_effect \<times> broker_runtime" where
  "runtime_revoke_all rt =
     (let ex = snd (executor_cancel_all (rt_executor rt));
          (effect, lc) = lifecycle_revoke_all (rt_lifecycle rt);
          rm = close_many (closed_resources effect) (rt_resources rt) in
      (effect, rt\<lparr>rt_executor := ex, rt_lifecycle := lc, rt_resources := rm\<rparr>))"

text \<open>The loop of \<^verbatim>\<open>pump_completions\<close>; it ends because only workers add completions, and they do so in steps of
  their own.\<close>

function pump_loop :: "nat \<Rightarrow> nat \<Rightarrow> broker_runtime \<Rightarrow> nat \<times> broker_runtime" where
  "pump_loop generation pumped rt =
     (case try_completion (rt_executor rt) of
        (None, ex) \<Rightarrow> (pumped, rt\<lparr>rt_executor := ex\<rparr>)
      | (Some c, ex) \<Rightarrow>
          pump_loop generation (pumped + 1)
            (rt\<lparr>rt_executor := ex,
                rt_lifecycle := snd (lifecycle_finish (bc_request_id c) (rt_lifecycle rt)),
                rt_events := push_completion (bc_request_id c) (bc_result c) generation (rt_events rt)\<rparr>))"
  by pat_completeness auto
termination
  by (relation "measure (\<lambda>(_, _, rt). length (ex_completions (rt_executor rt)))")
    (auto simp: try_completion_def split: list.splits)

text \<open>\<open>signal_ok\<close> says whether the event descriptor could be drained.\<close>

definition pump_completions :: "bool \<Rightarrow> nat \<Rightarrow> broker_runtime \<Rightarrow> (broker_error_code, nat) result \<times> broker_runtime" where
  "pump_completions signal_ok generation rt =
     (if \<not> signal_ok then (Inl BackendFailed, rt)
      else let (pumped, rt') = pump_loop generation 0 rt in (Inr pumped, rt'))"

definition pump_resource_events ::
  "(resource_manager \<Rightarrow> resource_manager) \<Rightarrow> nat \<Rightarrow> broker_runtime \<Rightarrow> nat \<times> broker_runtime" where
  "pump_resource_events between generation rt =
     (let (finished, events, rm) = manager_pump between generation (rt_events rt) (rt_resources rt);
          lc = fold (\<lambda>i lc. snd (close_resource i lc)) finished (rt_lifecycle rt) in
      (length finished, rt\<lparr>rt_events := events, rt_resources := rm, rt_lifecycle := lc\<rparr>))"

definition pop_event :: "broker_runtime \<Rightarrow> host_event option \<times> broker_runtime" where
  "pop_event rt = (let (e, q) = queue_pop (rt_events rt) in (e, rt\<lparr>rt_events := q\<rparr>))"

section \<open>The two bookkeepings agree\<close>

definition pending_agree :: "executor \<Rightarrow> lifecycle_state \<Rightarrow> bool" where
  "pending_agree ex lc \<longleftrightarrow>
     (\<forall>i p. bt_get (ls_pending lc) i = Some p \<longrightarrow>
        (\<exists>a. bt_get (ex_active ex) i = Some a \<and> ao_capability a = po_capability p))
     \<and> (\<forall>i a. bt_get (ex_active ex) i = Some a \<and> bt_get (ls_pending lc) i = None \<longrightarrow> ao_flag a \<in> ex_flags ex)"

definition resources_agree :: "lifecycle_state \<Rightarrow> resource_manager \<Rightarrow> bool" where
  "resources_agree lc rm \<longleftrightarrow>
     (\<forall>i. map_option br_capability (bt_get (ls_resources lc) i) = map_option brq_capability (handles rm i))"

definition runtime_inv :: "lifecycle_limits \<Rightarrow> broker_runtime \<Rightarrow> bool" where
  "runtime_inv limits rt \<longleftrightarrow>
     exec_inv (rt_executor rt) \<and> lifecycle_inv limits (rt_lifecycle rt) \<and> queue_inv (rt_events rt)
     \<and> manager_ok (rt_resources rt)
     \<and> pending_agree (rt_executor rt) (rt_lifecycle rt) \<and> resources_agree (rt_lifecycle rt) (rt_resources rt)"

lemma runtime_inv_new [invar_intro]:
  assumes "runtime_new xl ll a b = Inr rt"
  shows "runtime_inv ll rt"
proof -
  obtain ex rm where "executor_new xl = Inr ex" "manager_new b = Inr rm"
    "rt = \<lparr>rt_executor = ex, rt_lifecycle = lifecycle_new ll, rt_events = queue_new a b, rt_resources = rm\<rparr>"
    using assms by (auto simp: runtime_new_def)
  moreover from this(1) have "ex_active ex = []" by (auto simp: executor_new_def split: if_splits)
  ultimately show ?thesis
    using manager_new_ok [of b rm] lifecycle_inv_new [of ll]
    by (simp add: runtime_inv_def exec_inv_new queue_inv_new pending_agree_def resources_agree_def)
      (simp add: lifecycle_new_def)
qed

lemma pending_agree_flags:
  "pending_agree ex lc \<Longrightarrow> ex_flags ex \<subseteq> fs \<Longrightarrow> pending_agree (ex\<lparr>ex_flags := fs\<rparr>) lc"
  by (auto simp: pending_agree_def)

lemma pending_agree_active:
  "ex_active ex' = ex_active ex \<Longrightarrow> ex_flags ex' = ex_flags ex \<Longrightarrow> ls_pending lc' = ls_pending lc \<Longrightarrow>
   pending_agree ex' lc' = pending_agree ex lc"
  by (simp add: pending_agree_def)

lemma runtime_inv_submit [invar_intro]:
  assumes inv: "runtime_inv limits rt"
  shows "runtime_inv limits (snd (snd (runtime_submit authorize request now timeout deadline l rt)))"
proof -
  let ?i = "brq_request_id request" and ?ex = "rt_executor rt" and ?lc = "rt_lifecycle rt"
  have ok: "bt_ok (ls_pending ?lc)" "bt_ok (ex_active ?ex)"
    using inv by (simp_all add: runtime_inv_def lifecycle_inv_def exec_inv_def)
  have agree: "pending_agree ?ex ?lc" using inv by (simp add: runtime_inv_def)
  obtain r lc where started: "lifecycle_begin ?i (brq_capability request) deadline ?lc = (r, lc)"
    by fastforce
  show ?thesis
  proof (cases r)
    case (Inl e)
    then have "lc = ?lc" using started by (auto simp: lifecycle_begin_def split: if_splits)
    then show ?thesis using inv started Inl by (simp add: runtime_submit_def Let_def)
  next
    case (Inr u)
    then have fresh: "bt_get (ls_pending ?lc) ?i = None"
      and lc: "lc = ?lc\<lparr>ls_pending := bt_insert ?i \<lparr>po_request_id = ?i, po_capability = brq_capability request,
         po_deadline_monotonic_micros = deadline\<rparr> (ls_pending ?lc)\<rparr>"
      using started by (auto simp: lifecycle_begin_def split: if_splits)
    have lci: "lifecycle_inv limits lc"
      using lifecycle_inv_begin [of limits ?lc ?i "brq_capability request" deadline] inv started
      by (simp add: runtime_inv_def)
    show ?thesis
    proof (rule executor_submit_cases [of authorize request now timeout l ?ex])
      fix e l' ex'
      assume sub: "executor_submit authorize request now timeout l ?ex = (Inl e, l', ex')"
        and ex': "ex' = ?ex \<or> ex' = ?ex\<lparr>ex_next_flag := Suc (ex_next_flag ?ex)\<rparr>"
      have get: "bt_get (bt_remove ?i (ls_pending lc)) = bt_get (ls_pending ?lc)"
        using ok(1) fresh by (auto simp: lc fun_eq_iff)
      then have "pending_agree ex' (snd (lifecycle_finish ?i lc))"
        using agree ex' by (auto simp: pending_agree_def lifecycle_finish_def)
      then show ?thesis
        using inv sub started Inr ex' exec_inv_next_flag lifecycle_inv_remove_one [OF lci, of ?i]
        by (auto simp: runtime_submit_def Let_def runtime_inv_def lifecycle_finish_def resources_agree_def lc)
    next
      fix l' j
      let ?a = "\<lparr>ao_capability = brq_capability (job_request j), ao_flag = job_flag j\<rparr>"
      assume j: "job_request j = request" "job_flag j = ex_next_flag ?ex"
        "bt_get (ex_active ?ex) (job_id j) = None" "job_id j \<noteq> 0"
        "length (ex_active ?ex) < ex_maximum_active_operations ?ex"
        and sub: "executor_submit authorize request now timeout l ?ex = (Inr (), l',
           ?ex\<lparr>ex_next_flag := Suc (ex_next_flag ?ex), ex_queue := ex_queue ?ex @ [j],
             ex_active := bt_insert (job_id j) ?a (ex_active ?ex)\<rparr>)"
      have id: "job_id j = ?i" by (simp add: job_id_def j)
      let ?ex' = "?ex\<lparr>ex_next_flag := Suc (ex_next_flag ?ex), ex_queue := ex_queue ?ex @ [j],
             ex_active := bt_insert (job_id j) ?a (ex_active ?ex)\<rparr>"
      have "pending_agree ?ex' lc"
        using agree ok j(1) by (auto simp: pending_agree_def lc id)
      moreover have "exec_inv ?ex'" using exec_inv_accept [of ?ex j] j inv by (simp add: runtime_inv_def)
      ultimately show ?thesis
        using inv sub started Inr lci
        by (simp add: runtime_submit_def Let_def runtime_inv_def resources_agree_def lc)
    qed
  qed
qed

lemma close_resource_spec:
  assumes "bt_ok (ls_resources lc)"
  shows "bt_get (ls_resources (snd (close_resource i lc))) = (bt_get (ls_resources lc))(i := None)"
    and "fst (close_resource i lc) \<longleftrightarrow> bt_get (ls_resources lc) i \<noteq> None"
    and "ls_pending (snd (close_resource i lc)) = ls_pending lc"
  using assms by (auto simp: close_resource_def fun_eq_iff split: option.splits)

lemma runtime_invD:
  assumes "runtime_inv limits rt"
  shows "exec_inv (rt_executor rt)" "lifecycle_inv limits (rt_lifecycle rt)" "queue_inv (rt_events rt)"
    "manager_ok (rt_resources rt)" "pending_agree (rt_executor rt) (rt_lifecycle rt)"
    "resources_agree (rt_lifecycle rt) (rt_resources rt)"
    "bt_ok (ls_resources (rt_lifecycle rt))" "bt_ok (ls_pending (rt_lifecycle rt))" "bt_ok (ex_active (rt_executor rt))"
  using assms by (simp_all add: runtime_inv_def lifecycle_inv_def exec_inv_def)

lemma runtime_inv_executor:
  assumes "runtime_inv limits rt" and "exec_inv ex" and "pending_agree ex (rt_lifecycle rt)"
  shows "runtime_inv limits (rt\<lparr>rt_executor := ex\<rparr>)"
  using assms by (simp add: runtime_inv_def)

lemma runtime_inv_register [invar_intro]:
  assumes "runtime_inv limits rt"
  shows "runtime_inv limits (runtime_register c rt)"
proof -
  have "pending_agree (executor_register c (rt_executor rt)) (rt_lifecycle rt)"
    using assms by (simp add: runtime_inv_def pending_agree_def executor_register_def)
  then show ?thesis
    using assms unfolding runtime_register_def
    by (intro runtime_inv_executor) (simp_all add: runtime_inv_def exec_inv_register)
qed

lemma runtime_inv_register_resource [invar_intro]:
  "runtime_inv limits rt \<Longrightarrow> runtime_inv limits (runtime_register_resource c f rt)"
  by (simp add: runtime_register_resource_def manager_register_def runtime_inv_def manager_ok_def
      resources_agree_def handles_def)

lemma runtime_inv_cancel [invar_intro]:
  assumes "runtime_inv limits rt"
  shows "runtime_inv limits (snd (runtime_cancel i rt))"
proof -
  have "pending_agree (snd (executor_cancel i (rt_executor rt))) (rt_lifecycle rt)"
    using pending_agree_flags [OF runtime_invD(5) [OF assms]] runtime_invD(5) [OF assms]
    by (auto simp: executor_cancel_def split: option.splits)
  then show ?thesis
    using runtime_inv_executor [OF assms exec_inv_cancel [OF runtime_invD(1) [OF assms], of i]]
    by (cases "executor_cancel i (rt_executor rt)") (simp add: runtime_cancel_def)
qed

lemma worker_step_frame:
  "worker_step ex ex' \<Longrightarrow> ex_active ex' = ex_active ex \<and> ex_flags ex' = ex_flags ex \<and> ex_backends ex' = ex_backends ex"
  by (induction rule: worker_step.induct)
    (auto simp: worker_take_def worker_run_def worker_send_def Let_def split: list.splits prod.splits option.splits)

lemma runtime_inv_worker [invar_intro]:
  assumes "runtime_inv limits rt" and "worker_step (rt_executor rt) ex"
  shows "runtime_inv limits (rt\<lparr>rt_executor := ex\<rparr>)"
  using runtime_inv_executor [OF assms(1) exec_inv_step [OF assms(2) runtime_invD(1) [OF assms(1)]]]
    worker_step_frame [OF assms(2)] runtime_invD(5) [OF assms(1)]
  by (simp add: pending_agree_def)

lemma runtime_inv_sink [invar_intro]:
  assumes "runtime_inv limits rt" and "sink_step (rt_resources rt) rm"
  shows "runtime_inv limits (rt\<lparr>rt_resources := rm\<rparr>)"
  using assms(1) sink_step_frame [OF assms(2)] handles_eq [of rm "rt_resources rt"]
  by (simp add: runtime_inv_def resources_agree_def)

lemma runtime_close_resource_spec:
  assumes inv: "runtime_inv limits rt"
  shows "\<exists>found rt'. runtime_close_resource i rt = Some (found, rt') \<and> runtime_inv limits rt'
    \<and> found = (handles (rt_resources rt) i \<noteq> None) \<and> handles (rt_resources rt') = (handles (rt_resources rt))(i := None)
    \<and> rt_executor rt' = rt_executor rt \<and> rt_events rt' = rt_events rt"
proof -
  note d = runtime_invD [OF inv]
  note mc = manager_close_spec [OF d(4), of i] and lc = close_resource_spec [OF d(7), of i]
  have same: "fst (manager_close i (rt_resources rt)) = fst (close_resource i (rt_lifecycle rt))"
    using d(6) by (simp add: mc lc resources_agree_def del: not_None_eq) (metis option.map_disc_iff)
  let ?rt = "rt\<lparr>rt_resources := snd (manager_close i (rt_resources rt)),
      rt_lifecycle := snd (close_resource i (rt_lifecycle rt))\<rparr>"
  have "runtime_inv limits ?rt"
    using inv mc lc lifecycle_inv_close [OF d(2), of i]
    by (simp add: runtime_inv_def resources_agree_def pending_agree_def)
  then show ?thesis
    using same mc
    by (auto simp: runtime_close_resource_def Let_def passert_def split: prod.splits)
qed

lemma runtime_inv_revoke [invar_intro]:
  assumes inv: "runtime_inv limits rt"
  shows "runtime_inv limits (snd (runtime_revoke c g rt))"
    and "handles (rt_resources (snd (runtime_revoke c g rt))) i =
      (case handles (rt_resources rt) i of None \<Rightarrow> None
       | Some r \<Rightarrow> if brq_capability r = c then None else Some r)"
    and "ex_flags (rt_executor (snd (runtime_revoke c g rt))) =
      ex_flags (rt_executor rt) \<union> {ao_flag a | k a. bt_get (ex_active (rt_executor rt)) k = Some a \<and> ao_capability a = c}"
proof -
  note d = runtime_invD [OF inv]
  obtain eff lc where eff: "lifecycle_revoke c (rt_lifecycle rt) = (eff, lc)" by fastforce
  note rs = revoke_state [OF d(2) eff]
  let ?rm = "close_many (closed_resources eff) (rt_resources rt)"
  let ?ex = "snd (executor_revoke c (rt_executor rt))"
  let ?rt = "snd (runtime_revoke c g rt)"
  have rt: "rt_executor ?rt = ?ex" "rt_lifecycle ?rt = lc" "rt_resources ?rt = ?rm"
    "rt_events ?rt = fst (manager_revoke (closed_resources eff) g (rt_events rt, rt_resources rt))"
    using manager_revoke_close_many [of "closed_resources eff" g "rt_events rt" "rt_resources rt"]
    by (cases "manager_revoke (closed_resources eff) g (rt_events rt, rt_resources rt)";
        simp add: runtime_revoke_def eff Let_def)+
  have fs: "ex_flags ?ex = ex_flags (rt_executor rt) \<union>
      {ao_flag a | k a. bt_get (ex_active (rt_executor rt)) k = Some a \<and> ao_capability a = c}"
    using bt.entries_set [OF d(9)] by (force simp: executor_revoke_def Let_def)
  have agree: "map_option br_capability (bt_get (ls_resources (rt_lifecycle rt)) k)
      = map_option brq_capability (handles (rt_resources rt) k)" for k
    using d(6) by (simp add: resources_agree_def)
  have closed: "k \<in> set (closed_resources eff) \<longleftrightarrow> (\<exists>r. handles (rt_resources rt) k = Some r \<and> brq_capability r = c)" for k
    using rs(5) [of k] agree [of k] by (auto simp: map_option_case split: option.splits)
  show handles: "handles (rt_resources ?rt) i =
      (case handles (rt_resources rt) i of None \<Rightarrow> None
       | Some r \<Rightarrow> if brq_capability r = c then None else Some r)" for i
    using close_many_spec(2) [OF d(4), of "closed_resources eff"] closed [of i]
    by (auto simp: rt restrict_map_def split: option.splits)
  show "ex_flags (rt_executor ?rt) = ex_flags (rt_executor rt) \<union>
      {ao_flag a | k a. bt_get (ex_active (rt_executor rt)) k = Some a \<and> ao_capability a = c}"
    using fs by (simp add: rt)
  have active: "ex_active ?ex = ex_active (rt_executor rt)" by (simp add: executor_revoke_def Let_def)
  have "pending_agree ?ex lc"
    unfolding pending_agree_def active fs
  proof (intro conjI allI impI)
    fix k p
    assume "bt_get (ls_pending lc) k = Some p"
    then show "\<exists>a. bt_get (ex_active (rt_executor rt)) k = Some a \<and> ao_capability a = po_capability p"
      using rs(1) [of k] d(5) by (auto simp: pending_agree_def split: option.splits if_splits)
  next
    fix k a
    assume a: "bt_get (ex_active (rt_executor rt)) k = Some a \<and> bt_get (ls_pending lc) k = None"
    show "ao_flag a \<in> ex_flags (rt_executor rt) \<union>
        {ao_flag a | k a. bt_get (ex_active (rt_executor rt)) k = Some a \<and> ao_capability a = c}"
    proof (cases "bt_get (ls_pending (rt_lifecycle rt)) k")
      case None
      then show ?thesis using a d(5) unfolding pending_agree_def by blast
    next
      case (Some p)
      then have "po_capability p = c" using a rs(1) [of k] by (auto split: if_splits)
      moreover have "ao_capability a = po_capability p" using a Some d(5) by (force simp: pending_agree_def)
      ultimately show ?thesis using a by blast
    qed
  qed
  moreover have "resources_agree lc ?rm"
    unfolding resources_agree_def
  proof
    fix k
    show "map_option br_capability (bt_get (ls_resources lc) k) = map_option brq_capability (handles ?rm k)"
      using rs(2) [of k] agree [of k] handles [of k]
      by (auto simp: rt map_option_case split: option.splits if_splits)
  qed
  moreover have "lifecycle_inv limits lc" using lifecycle_inv_revoke [OF d(2), of c] eff by simp
  ultimately show "runtime_inv limits ?rt"
    using exec_inv_revoke [OF d(1), of c] manager_revoke_events [OF d(3)] close_many_spec(1) [OF d(4)]
    by (simp add: runtime_inv_def rt)
qed

end
