(* ===== verification/Runtime_Correct.thy ===== *)
theory Runtime_Correct
  imports Broker_Runtime
begin

text \<open>
  What every operation of the runtime does to the two views the connection is about: the requests that
  still owe the host an answer (\<open>outstanding\<close>) and the requests a backend may still be working for
  (\<open>live_requests\<close>). With them, the rest of the invariant.
\<close>

definition outstanding :: "broker_runtime \<Rightarrow> nat multiset" where
  "outstanding rt = mset (bt_keys (ex_active (rt_executor rt))) + mset (completion_ids (rt_events rt))"

definition live_requests :: "broker_runtime \<Rightarrow> backend_request set" where
  "live_requests rt =
     job_request ` {j \<in> set (live_jobs (rt_executor rt)). job_flag j \<notin> ex_flags (rt_executor rt)}
     \<union> ran (handles (rt_resources rt))"

text \<open>The capacities never change, and \<open>runtime_fits\<close> is what the connection checks of them.\<close>

definition same_capacity :: "broker_runtime \<Rightarrow> broker_runtime \<Rightarrow> bool" where
  "same_capacity rt rt' \<longleftrightarrow>
     ex_maximum_active_operations (rt_executor rt') = ex_maximum_active_operations (rt_executor rt)
     \<and> heq_maximum_edge_events (rt_events rt') = heq_maximum_edge_events (rt_events rt)"

definition runtime_fits :: "nat \<Rightarrow> nat \<Rightarrow> broker_runtime \<Rightarrow> bool" where
  "runtime_fits operations edges rt \<longleftrightarrow>
     ex_maximum_active_operations (rt_executor rt) = operations
     \<and> heq_maximum_edge_events (rt_events rt) = edges \<and> operations \<le> edges"

lemma same_capacity_fits: "same_capacity rt rt' \<Longrightarrow> runtime_fits m n rt' = runtime_fits m n rt"
  by (simp add: same_capacity_def runtime_fits_def)

lemma same_capacity_refl [simp]: "same_capacity rt rt"
  by (simp add: same_capacity_def)

section \<open>Submitting and cancelling\<close>

lemma runtime_submit_cases:
  assumes "runtime_submit authorize request now timeout deadline l rt = (r, l', rt')"
  obtains (rejected) e where "r = Inl e" "rt_events rt' = rt_events rt" "rt_resources rt' = rt_resources rt"
      "rt_executor rt' = rt_executor rt
       \<or> rt_executor rt' = (rt_executor rt)\<lparr>ex_next_flag := Suc (ex_next_flag (rt_executor rt))\<rparr>"
  | (accepted) j where "r = Inr ()" "rt_events rt' = rt_events rt" "rt_resources rt' = rt_resources rt"
      "job_request j = request" "bt_get (ex_active (rt_executor rt)) (job_id j) = None"
      "rt_executor rt' = (rt_executor rt)\<lparr>ex_next_flag := Suc (ex_next_flag (rt_executor rt)),
         ex_queue := ex_queue (rt_executor rt) @ [j],
         ex_active := bt_insert (job_id j)
           \<lparr>ao_capability = brq_capability (job_request j), ao_flag = job_flag j\<rparr> (ex_active (rt_executor rt))\<rparr>"
proof -
  obtain q lc where started:
    "lifecycle_begin (brq_request_id request) (brq_capability request) deadline (rt_lifecycle rt) = (q, lc)"
    by fastforce
  show ?thesis
  proof (cases q)
    case (Inl e)
    then show ?thesis using assms started by (intro rejected) (auto simp: runtime_submit_def Let_def)
  next
    case (Inr u)
    show ?thesis
    proof (rule executor_submit_cases [of authorize request now timeout l "rt_executor rt"])
      fix e l1 ex1
      assume "executor_submit authorize request now timeout l (rt_executor rt) = (Inl e, l1, ex1)"
        "ex1 = rt_executor rt \<or> ex1 = (rt_executor rt)\<lparr>ex_next_flag := Suc (ex_next_flag (rt_executor rt))\<rparr>"
      then show ?thesis using assms started Inr by (intro rejected) (auto simp: runtime_submit_def Let_def)
    next
      fix l1 j
      let ?ex' = "(rt_executor rt)\<lparr>ex_next_flag := Suc (ex_next_flag (rt_executor rt)),
         ex_queue := ex_queue (rt_executor rt) @ [j],
         ex_active := bt_insert (job_id j)
           \<lparr>ao_capability = brq_capability (job_request j), ao_flag = job_flag j\<rparr> (ex_active (rt_executor rt))\<rparr>"
      assume "job_request j = request" "bt_get (ex_active (rt_executor rt)) (job_id j) = None"
        "executor_submit authorize request now timeout l (rt_executor rt) = (Inr (), l1, ?ex')"
      then show ?thesis
        using assms started Inr by (intro accepted [of j]) (auto simp: runtime_submit_def Let_def)
    qed
  qed
qed

lemma submit_effect:
  assumes "runtime_submit authorize request now timeout deadline l rt = (r, l', rt')"
    and inv: "runtime_inv limits rt"
  shows "rt_events rt' = rt_events rt" and "same_capacity rt rt'" and "rt_resources rt' = rt_resources rt"
    and "r = Inr () \<Longrightarrow> outstanding rt' = add_mset (brq_request_id request) (outstanding rt)"
    and "r = Inr () \<Longrightarrow> live_requests rt' \<subseteq> insert request (live_requests rt)"
    and "r = Inl e \<Longrightarrow> outstanding rt' = outstanding rt \<and> live_requests rt' = live_requests rt"
proof -
  let ?ex = "rt_executor rt"
  have ok: "bt_ok (ex_active ?ex)" using inv by (rule runtime_invD)
  show "rt_events rt' = rt_events rt" "rt_resources rt' = rt_resources rt"
    using assms(1) by (cases rule: runtime_submit_cases; simp)+
  show "same_capacity rt rt'" using assms(1) by (cases rule: runtime_submit_cases) (auto simp: same_capacity_def)
  show "outstanding rt' = add_mset (brq_request_id request) (outstanding rt)" if "r = Inr ()"
    using assms(1)
  proof (cases rule: runtime_submit_cases)
    case (accepted j)
    then show ?thesis
      using bt_keys_insert_mset [OF ok accepted(5)] by (simp add: outstanding_def job_id_def)
  qed (use that in simp)
  show "live_requests rt' \<subseteq> insert request (live_requests rt)" if "r = Inr ()"
    using assms(1)
  proof (cases rule: runtime_submit_cases)
    case (accepted j)
    then show ?thesis by (auto simp: live_requests_def live_jobs_def)
  qed (use that in simp)
  show "outstanding rt' = outstanding rt \<and> live_requests rt' = live_requests rt" if "r = Inl e"
    using assms(1)
  proof (cases rule: runtime_submit_cases)
    case (rejected e')
    from rejected(4) show ?thesis
      by (elim disjE) (simp_all add: outstanding_def live_requests_def live_jobs_def rejected(2,3))
  qed (use that in simp)
qed

lemma register_effect:
  "outstanding (runtime_register c rt) = outstanding rt" "live_requests (runtime_register c rt) = live_requests rt"
  "same_capacity rt (runtime_register c rt)" "rt_events (runtime_register c rt) = rt_events rt"
  by (simp_all add: runtime_register_def executor_register_def outstanding_def live_requests_def live_jobs_def
      same_capacity_def)

lemma register_resource_effect:
  "outstanding (runtime_register_resource c f rt) = outstanding rt"
  "live_requests (runtime_register_resource c f rt) = live_requests rt"
  "same_capacity rt (runtime_register_resource c f rt)" "rt_events (runtime_register_resource c f rt) = rt_events rt"
  using handles_eq(1) [of "manager_register c f (rt_resources rt)" "rt_resources rt"]
  by (simp_all add: runtime_register_resource_def manager_register_def outstanding_def live_requests_def
      same_capacity_def)

lemma cancel_effect:
  "outstanding (snd (runtime_cancel i rt)) = outstanding rt"
  "live_requests (snd (runtime_cancel i rt)) \<subseteq> live_requests rt"
  "same_capacity rt (snd (runtime_cancel i rt))" "rt_events (snd (runtime_cancel i rt)) = rt_events rt"
  by (auto simp: runtime_cancel_def executor_cancel_def outstanding_def live_requests_def live_jobs_def
      same_capacity_def split: option.splits)

lemma worker_effect:
  assumes "worker_step (rt_executor rt) ex"
  shows "outstanding (rt\<lparr>rt_executor := ex\<rparr>) = outstanding rt"
    and "live_requests (rt\<lparr>rt_executor := ex\<rparr>) \<subseteq> live_requests rt"
    and "same_capacity rt (rt\<lparr>rt_executor := ex\<rparr>)"
proof -
  have "set (live_jobs ex) \<subseteq> set (live_jobs (rt_executor rt))
      \<and> ex_maximum_active_operations ex = ex_maximum_active_operations (rt_executor rt)"
    using assms
  proof (cases rule: worker_step.cases)
    case take_job
    then show ?thesis by (auto simp: worker_take_def live_jobs_def split: list.splits)
  next
    case (run_job w now outcome)
    then show ?thesis
      by (cases "ex_running (rt_executor rt) ! w")
        (auto simp: worker_run_def live_jobs_def Let_def in_set_conv_nth map_update,
          metis (no_types, lifting) fst_conv image_eqI nth_list_update nth_mem)
  next
    case (send_result w)
    then show ?thesis
      by (auto simp: worker_send_def live_jobs_def dest: in_set_takeD in_set_dropD split: prod.splits option.splits)
  qed
  then show "outstanding (rt\<lparr>rt_executor := ex\<rparr>) = outstanding rt"
    "live_requests (rt\<lparr>rt_executor := ex\<rparr>) \<subseteq> live_requests rt"
    "same_capacity rt (rt\<lparr>rt_executor := ex\<rparr>)"
    using worker_step_frame [OF assms] by (auto simp: outstanding_def live_requests_def same_capacity_def)
qed

lemma sink_effect:
  assumes "sink_step (rt_resources rt) rm"
  shows "outstanding (rt\<lparr>rt_resources := rm\<rparr>) = outstanding rt"
    and "live_requests (rt\<lparr>rt_resources := rm\<rparr>) = live_requests rt"
    and "same_capacity rt (rt\<lparr>rt_resources := rm\<rparr>)"
  using sink_step_frame [OF assms] handles_eq [of rm "rt_resources rt"]
  by (auto simp: outstanding_def live_requests_def same_capacity_def)

section \<open>Resources\<close>

lemma allocate_cases:
  assumes "lifecycle_inv limits lc"
  obtains (refused) e where "allocate_resource c n lc = (Inl e, lc)"
  | (allocated) i lc' r where "allocate_resource c n lc = (Inr i, lc')" "lifecycle_inv limits lc'"
      "bt_get (ls_resources lc) i = None" "ls_resources lc' = bt_insert i r (ls_resources lc)"
      "br_capability r = c" "ls_pending lc' = ls_pending lc"
proof -
  have fresh: "bt_get (ls_resources lc) (ls_next_resource_id lc) = None"
    using assms by (cases "bt_get (ls_resources lc) (ls_next_resource_id lc)") (auto simp: lifecycle_inv_def)
  have inv: "lifecycle_inv limits (snd (allocate_resource c n lc))" using assms by (rule lifecycle_inv_allocate)
  obtain q lc' where eq: "allocate_resource c n lc = (q, lc')" by fastforce
  show ?thesis
  proof (cases q)
    case (Inl e)
    then have "lc' = lc"
      using eq [unfolded allocate_resource_def] by (auto split: if_splits option.splits)
    then show ?thesis using refused eq Inl by simp
  next
    case (Inr i)
    then have *: "i = ls_next_resource_id lc" "ls_pending lc' = ls_pending lc"
      "ls_resources lc' = bt_insert i \<lparr>br_resource_id = i, br_capability = c, br_buffered_bytes = n\<rparr> (ls_resources lc)"
      using eq [unfolded allocate_resource_def] by (auto split: if_splits option.splits)
    then show ?thesis using allocated eq Inr inv fresh by auto
  qed
qed

lemma open_effect:
  assumes eq: "open_resource authorize opened now request l rt = (r, l', rt')" and inv: "runtime_inv limits rt"
  shows "runtime_inv limits rt'" and "rt_events rt' = rt_events rt" and "rt_executor rt' = rt_executor rt"
    and "r = Inr x \<Longrightarrow> live_requests rt' \<subseteq> insert request (live_requests rt)"
    and "r = Inl e \<Longrightarrow> live_requests rt' = live_requests rt"
    and "r = Inr (i, payload) \<Longrightarrow> handles (rt_resources rt) i = None
          \<and> handles (rt_resources rt') = (handles (rt_resources rt))(i \<mapsto> request)"
proof -
  note d = runtime_invD [OF inv]
  define good where "good \<longleftrightarrow> runtime_inv limits rt' \<and> rt_events rt' = rt_events rt \<and> rt_executor rt' = rt_executor rt"
  consider (refused) e where "r = Inl e" "good" "handles (rt_resources rt') = handles (rt_resources rt)"
    | (opened) k payload where "r = Inr (k, payload)" "good" "handles (rt_resources rt) k = None"
      "handles (rt_resources rt') = (handles (rt_resources rt))(k \<mapsto> request)"
  proof (cases "manager_limits (rt_resources rt) request")
    case None
    then show ?thesis using eq inv refused by (auto simp: open_resource_def good_def)
  next
    case (Some lim)
    show ?thesis
      using d(2)
    proof (cases rule: allocate_cases [of limits _ "brq_capability request" "rl_reserved_buffered_bytes lim"])
      case (refused e)
      then show ?thesis using eq inv Some that(1) by (auto simp: open_resource_def good_def)
    next
      case (allocated k lc' res)
      note a = this
      have fresh: "handles (rt_resources rt) k = None"
        using d(6) a(3) by (metis option.map_disc_iff resources_agree_def)
      show ?thesis
        using d(4)
      proof (cases rule: manager_open_cases [of _ authorize opened now k request lim l])
        case (refused e l1 rm1)
        let ?lc = "snd (close_resource k lc')"
        have ok: "bt_ok (ls_resources lc')" using a(2) by (simp add: lifecycle_inv_def)
        have get: "bt_get (ls_resources ?lc) = bt_get (ls_resources (rt_lifecycle rt))"
          using close_resource_spec(1) [OF ok, of k] a(3,4) d(7) by (auto simp: fun_eq_iff)
        have "rt' = rt\<lparr>rt_lifecycle := ?lc, rt_resources := rm1\<rparr>" "r = Inl e"
          using eq Some a(1) refused(1) by (auto simp: open_resource_def)
        moreover have "runtime_inv limits (rt\<lparr>rt_lifecycle := ?lc, rt_resources := rm1\<rparr>)"
          using d lifecycle_inv_close [OF a(2), of k] refused close_resource_spec(3) [OF ok, of k] a(6) get
          by (simp add: runtime_inv_def pending_agree_def resources_agree_def)
        ultimately show ?thesis using that(1) refused by (simp add: good_def)
      next
        case (opened payload l1 rm1)
        have "rt' = rt\<lparr>rt_lifecycle := lc', rt_resources := rm1\<rparr>" "r = Inr (k, payload)"
          using eq Some a(1) opened(1) by (auto simp: open_resource_def)
        moreover have "runtime_inv limits (rt\<lparr>rt_lifecycle := lc', rt_resources := rm1\<rparr>)"
          using d a opened by (simp add: runtime_inv_def pending_agree_def resources_agree_def)
        ultimately show ?thesis using that(2) opened fresh by (simp add: good_def)
      qed
    qed
  qed
  then have cases: "good \<and> ((\<exists>e. r = Inl e) \<and> handles (rt_resources rt') = handles (rt_resources rt)
      \<or> (\<exists>k payload. r = Inr (k, payload) \<and> handles (rt_resources rt) k = None
          \<and> handles (rt_resources rt') = (handles (rt_resources rt))(k \<mapsto> request)))"
    by cases auto
  then show "runtime_inv limits rt'" "rt_events rt' = rt_events rt" "rt_executor rt' = rt_executor rt"
    by (simp_all add: good_def)
  show "live_requests rt' \<subseteq> insert request (live_requests rt)" if "r = Inr x"
    using cases that by (auto simp: good_def live_requests_def ran_def split: if_splits)
  show "live_requests rt' = live_requests rt" if "r = Inl e"
    using cases that by (auto simp: good_def live_requests_def)
  show "handles (rt_resources rt) i = None
          \<and> handles (rt_resources rt') = (handles (rt_resources rt))(i \<mapsto> request)" if "r = Inr (i, payload)"
    using cases that by auto
qed

lemma open_effect_frame:
  assumes "rt_events rt' = rt_events rt" and "rt_executor rt' = rt_executor rt"
  shows "outstanding rt' = outstanding rt" and "same_capacity rt rt'"
  using assms by (simp_all add: outstanding_def same_capacity_def)

lemma close_effect:
  assumes "runtime_inv limits rt"
  obtains found rt' where "runtime_close_resource i rt = Some (found, rt')" "runtime_inv limits rt'"
    "outstanding rt' = outstanding rt" "live_requests rt' \<subseteq> live_requests rt" "same_capacity rt rt'"
    "rt_events rt' = rt_events rt"
proof -
  obtain found rt' where *: "runtime_close_resource i rt = Some (found, rt')" "runtime_inv limits rt'"
    "handles (rt_resources rt') = (handles (rt_resources rt))(i := None)"
    "rt_executor rt' = rt_executor rt" "rt_events rt' = rt_events rt"
    using runtime_close_resource_spec [OF assms, of i] by blast
  have "live_requests rt' \<subseteq> live_requests rt"
    using * by (auto simp: live_requests_def ran_def)
  then show ?thesis using * open_effect_frame [of rt' rt] by (intro that [of found rt']) simp_all
qed

section \<open>Revocation\<close>

lemma live_job_active:
  assumes "exec_inv ex" and "j \<in> set (live_jobs ex)"
  shows "bt_get (ex_active ex) (job_id j) =
    Some \<lparr>ao_capability = brq_capability (job_request j), ao_flag = job_flag j\<rparr>"
  using assms by (simp add: exec_inv_def)

lemma runtime_revoke_frame:
  "live_jobs (rt_executor (snd (runtime_revoke c g rt))) = live_jobs (rt_executor rt)"
  "ex_active (rt_executor (snd (runtime_revoke c g rt))) = ex_active (rt_executor rt)"
  "ex_maximum_active_operations (rt_executor (snd (runtime_revoke c g rt)))
     = ex_maximum_active_operations (rt_executor rt)"
  by (cases "lifecycle_revoke c (rt_lifecycle rt)";
      cases "manager_revoke (closed_resources (fst (lifecycle_revoke c (rt_lifecycle rt)))) g (rt_events rt, rt_resources rt)";
      simp add: runtime_revoke_def executor_revoke_def live_jobs_def Let_def)+

lemma revoke_effect:
  assumes inv: "runtime_inv limits rt"
  shows "outstanding (snd (runtime_revoke c g rt)) = outstanding rt"
    and "live_requests (snd (runtime_revoke c g rt)) \<subseteq> {r \<in> live_requests rt. brq_capability r \<noteq> c}"
    and "same_capacity rt (snd (runtime_revoke c g rt))"
proof -
  let ?rt = "snd (runtime_revoke c g rt)"
  note d = runtime_invD [OF inv] and frame = runtime_revoke_frame [of c g rt]
  obtain eff lc where eff: "lifecycle_revoke c (rt_lifecycle rt) = (eff, lc)" by fastforce
  have "rt_events ?rt = fst (manager_revoke (closed_resources eff) g (rt_events rt, rt_resources rt))"
    by (cases "manager_revoke (closed_resources eff) g (rt_events rt, rt_resources rt)")
      (simp add: runtime_revoke_def eff Let_def)
  then have ev: "completion_ids (rt_events ?rt) = completion_ids (rt_events rt)"
    "heq_maximum_edge_events (rt_events ?rt) = heq_maximum_edge_events (rt_events rt)"
    using manager_revoke_events(2,3) [OF d(3)] by simp_all
  then show "outstanding ?rt = outstanding rt" "same_capacity rt ?rt"
    using frame by (simp_all add: outstanding_def same_capacity_def)
  show "live_requests ?rt \<subseteq> {r \<in> live_requests rt. brq_capability r \<noteq> c}"
  proof
    fix r
    assume "r \<in> live_requests ?rt"
    then consider j where "r = job_request j" "j \<in> set (live_jobs (rt_executor ?rt))" "job_flag j \<notin> ex_flags (rt_executor ?rt)"
      | i where "handles (rt_resources ?rt) i = Some r"
      by (auto simp: live_requests_def ran_def)
    then show "r \<in> {r \<in> live_requests rt. brq_capability r \<noteq> c}"
    proof cases
      case (1 j)
      have "job_flag j \<in> ex_flags (rt_executor ?rt)" if "brq_capability r = c"
        using that 1 live_job_active [OF d(1), of j] frame(1) runtime_inv_revoke(3) [OF inv, of c g] by fastforce
      then have "job_flag j \<notin> ex_flags (rt_executor rt)" "brq_capability r \<noteq> c"
        using 1 runtime_inv_revoke(3) [OF inv, of c g] by auto
      then show ?thesis using 1 frame(1) by (auto simp: live_requests_def)
    next
      case (2 i)
      then have "handles (rt_resources rt) i = Some r \<and> brq_capability r \<noteq> c"
        using runtime_inv_revoke(2) [OF inv, of c g i] by (auto split: option.splits if_splits)
      then show ?thesis by (auto simp: live_requests_def ran_def)
    qed
  qed
qed

lemma revoke_all_effect:
  assumes inv: "runtime_inv limits rt"
  shows "runtime_inv limits (snd (runtime_revoke_all rt))"
    and "outstanding (snd (runtime_revoke_all rt)) = outstanding rt"
    and "live_requests (snd (runtime_revoke_all rt)) = {}"
    and "same_capacity rt (snd (runtime_revoke_all rt))"
    and "rt_events (snd (runtime_revoke_all rt)) = rt_events rt"
proof -
  note d = runtime_invD [OF inv]
  let ?rt = "snd (runtime_revoke_all rt)" and ?ex = "snd (executor_cancel_all (rt_executor rt))"
  let ?closed = "bt_keys (ls_resources (rt_lifecycle rt))"
  have rt: "rt_executor ?rt = ?ex" "rt_events ?rt = rt_events rt"
    "rt_lifecycle ?rt = snd (lifecycle_revoke_all (rt_lifecycle rt))"
    "rt_resources ?rt = close_many ?closed (rt_resources rt)"
    by (simp_all add: runtime_revoke_all_def lifecycle_revoke_all_def Let_def)
  have ex: "ex_active ?ex = ex_active (rt_executor rt)" "live_jobs ?ex = live_jobs (rt_executor rt)"
    "ex_maximum_active_operations ?ex = ex_maximum_active_operations (rt_executor rt)"
    "ex_flags ?ex = ex_flags (rt_executor rt) \<union> set (map ao_flag (bt_values (ex_active (rt_executor rt))))"
    by (simp_all add: executor_cancel_all_def live_jobs_def)
  have "bt_get (ls_resources (rt_lifecycle rt)) i = None \<longleftrightarrow> handles (rt_resources rt) i = None" for i
    using d(6) by (metis option.map_disc_iff resources_agree_def)
  then have none: "handles (rt_resources ?rt) = Map.empty"
    using close_many_spec(2) [OF d(4), of ?closed]
    by (auto simp: rt fun_eq_iff restrict_map_def bt_key_get)
  have flagged: "ao_flag a \<in> ex_flags ?ex" if "bt_get (ex_active (rt_executor rt)) i = Some a" for i a
    using bt_get_Some_value [OF d(9) that] by (simp add: ex)
  show "outstanding ?rt = outstanding rt" "same_capacity rt ?rt" "rt_events ?rt = rt_events rt"
    by (simp_all add: outstanding_def same_capacity_def rt ex)
  have "job_flag j \<in> ex_flags ?ex" if "j \<in> set (live_jobs (rt_executor rt))" for j
    using flagged [OF live_job_active [OF d(1) that]] by simp
  then show "live_requests ?rt = {}"
    using none by (auto simp: live_requests_def rt(1) ex(2))
  have "pending_agree ?ex (rt_lifecycle ?rt)"
    using flagged by (auto simp: pending_agree_def rt lifecycle_revoke_all_def ex(1))
  moreover have "resources_agree (rt_lifecycle ?rt) (rt_resources ?rt)"
    using none by (simp add: resources_agree_def rt(3) lifecycle_revoke_all_def)
  ultimately show "runtime_inv limits ?rt"
    using d exec_inv_cancel_all [OF d(1)] lifecycle_inv_revoke_all [OF d(2)] close_many_spec(1) [OF d(4), of ?closed]
    by (simp add: runtime_inv_def rt(1,2)) (simp add: rt)
qed

section \<open>Pumping\<close>

lemma finish_pending:
  assumes "bt_ok (ls_pending lc)"
  shows "bt_get (ls_pending (snd (lifecycle_finish i lc))) = (bt_get (ls_pending lc))(i := None)"
    and "ls_resources (snd (lifecycle_finish i lc)) = ls_resources lc"
  using assms by (auto simp: lifecycle_finish_def fun_eq_iff)

lemma pump_step_inv:
  assumes inv: "runtime_inv limits rt" and some: "try_completion (rt_executor rt) = (Some c, ex)"
  shows "runtime_inv limits (rt\<lparr>rt_executor := ex,
      rt_lifecycle := snd (lifecycle_finish (bc_request_id c) (rt_lifecycle rt)),
      rt_events := push_completion (bc_request_id c) (bc_result c) g (rt_events rt)\<rparr>)"
proof -
  note d = runtime_invD [OF inv]
  let ?lc = "snd (lifecycle_finish (bc_request_id c) (rt_lifecycle rt))"
  have ex: "ex_active ex = bt_remove (bc_request_id c) (ex_active (rt_executor rt))" "ex_flags ex = ex_flags (rt_executor rt)"
    using some by (auto simp: try_completion_def split: list.splits)
  note fin = finish_pending [OF d(8), of "bc_request_id c"]
  have "pending_agree ex ?lc"
    using d(5,9) by (auto simp: pending_agree_def ex fin split: if_splits)
  moreover have "exec_inv ex" using exec_inv_completion [OF d(1)] some by simp
  moreover have "lifecycle_inv limits ?lc"
    using lifecycle_inv_remove_one [OF d(2)] by (simp add: lifecycle_finish_def)
  ultimately show ?thesis
    using d by (simp add: runtime_inv_def push_completion_def queue_inv_push_edge resources_agree_def fin(2))
qed

lemma push_completion_fits:
  "length (heq_edge_events q) < heq_maximum_edge_events q \<Longrightarrow>
   completion_ids (push_completion i r g q) = completion_ids q @ [i]
   \<and> length (heq_edge_events (push_completion i r g q)) = Suc (length (heq_edge_events q))"
  by (simp add: push_completion_def push_edge_def completion_ids_def)

lemma pump_loop_effect:
  assumes "runtime_inv limits rt" and "pump_loop g n rt = (m, rt')"
    and "length (heq_edge_events (rt_events rt)) + length (ex_active (rt_executor rt))
      \<le> heq_maximum_edge_events (rt_events rt)"
  shows "runtime_inv limits rt' \<and> outstanding rt' = outstanding rt \<and> live_requests rt' \<subseteq> live_requests rt
    \<and> same_capacity rt rt' \<and> ex_completions (rt_executor rt') = []
    \<and> m = n + length (ex_completions (rt_executor rt))"
  using assms
proof (induction g n rt arbitrary: m rt' rule: pump_loop.induct)
  case (1 g n rt)
  show ?case
  proof (cases "ex_completions (rt_executor rt)")
    case Nil
    then show ?thesis using "1.prems" by (auto simp: try_completion_def)
  next
    case (Cons c cs)
    let ?i = "bc_request_id c"
    let ?ex = "(rt_executor rt)\<lparr>ex_completions := cs, ex_active := bt_remove ?i (ex_active (rt_executor rt))\<rparr>"
    let ?rt = "rt\<lparr>rt_executor := ?ex, rt_lifecycle := snd (lifecycle_finish ?i (rt_lifecycle rt)),
      rt_events := push_completion ?i (bc_result c) g (rt_events rt)\<rparr>"
    have tc: "try_completion (rt_executor rt) = (Some c, ?ex)" by (simp add: try_completion_def Cons)
    note d = runtime_invD [OF "1.prems"(1)]
    have "?i \<in> set (bt_keys (ex_active (rt_executor rt)))"
      using exec_inv_pipeline(2) [OF d(1)] by (auto simp: pipeline_def Cons)
    then obtain a where a: "bt_get (ex_active (rt_executor rt)) ?i = Some a" by (auto simp: bt_key_get)
    have len: "length (ex_active (rt_executor rt)) = Suc (length (ex_active ?ex))"
      using bt.length_del_present [OF d(9) a] by (simp add: bt_entries_def)
    note push = push_completion_fits [of "rt_events rt" ?i "bc_result c" g]
    have "outstanding ?rt = outstanding rt"
      using push "1.prems"(3) len bt_keys_remove_mset [OF d(9) a] by (simp add: outstanding_def)
    moreover have "live_requests ?rt = live_requests rt" "same_capacity rt ?rt"
      by (simp_all add: live_requests_def live_jobs_def same_capacity_def)
    moreover have "length (heq_edge_events (rt_events ?rt)) + length (ex_active (rt_executor ?rt))
        \<le> heq_maximum_edge_events (rt_events ?rt)"
      using push "1.prems"(3) len by simp
    moreover have "pump_loop g (n + 1) ?rt = (m, rt')" using "1.prems"(2) tc by simp
    ultimately show ?thesis
      using "1.IH" [OF tc [symmetric] refl pump_step_inv [OF "1.prems"(1) tc]] Cons
      by (auto simp: same_capacity_def)
  qed
qed

lemma fold_close_resources:
  assumes "lifecycle_inv limits lc"
  shows "lifecycle_inv limits (fold (\<lambda>i lc. snd (close_resource i lc)) ids lc)
    \<and> bt_get (ls_resources (fold (\<lambda>i lc. snd (close_resource i lc)) ids lc)) = bt_get (ls_resources lc) |` (- set ids)
    \<and> ls_pending (fold (\<lambda>i lc. snd (close_resource i lc)) ids lc) = ls_pending lc"
  using assms
proof (induction ids arbitrary: lc)
  case (Cons i ids)
  have "bt_ok (ls_resources lc)" using Cons.prems by (simp add: lifecycle_inv_def)
  then show ?case
    using Cons.IH [OF lifecycle_inv_close [OF Cons.prems, of i]] close_resource_spec [of lc i]
    by (auto simp: fun_eq_iff restrict_map_def)
qed (simp add: restrict_map_def)

lemma pump_resources_effect:
  assumes inv: "runtime_inv limits rt" and between: "sinks_only between"
  shows "runtime_inv limits (snd (pump_resource_events between g rt))"
    and "outstanding (snd (pump_resource_events between g rt)) = outstanding rt"
    and "live_requests (snd (pump_resource_events between g rt)) \<subseteq> live_requests rt"
    and "same_capacity rt (snd (pump_resource_events between g rt))"
proof -
  note d = runtime_invD [OF inv]
  obtain fin q rm where pump: "manager_pump between g (rt_events rt) (rt_resources rt) = (fin, q, rm)" by (metis surj_pair)
  note spec = manager_pump_spec [OF d(4,3) pump between] and fold = fold_close_resources [OF d(2), of fin]
  let ?lc = "fold (\<lambda>i lc. snd (close_resource i lc)) fin (rt_lifecycle rt)"
  have rt: "snd (pump_resource_events between g rt) = rt\<lparr>rt_events := q, rt_resources := rm, rt_lifecycle := ?lc\<rparr>"
    by (simp add: pump_resource_events_def pump)
  have "resources_agree ?lc rm"
    using d(6) spec(3) fold by (auto simp: resources_agree_def restrict_map_def)
  then show "runtime_inv limits (snd (pump_resource_events between g rt))"
    using d spec fold by (simp add: rt runtime_inv_def pending_agree_def)
  show "outstanding (snd (pump_resource_events between g rt)) = outstanding rt" "same_capacity rt (snd (pump_resource_events between g rt))"
    using spec by (simp_all add: rt outstanding_def same_capacity_def)
  show "live_requests (snd (pump_resource_events between g rt)) \<subseteq> live_requests rt"
    using spec(3) by (auto simp: rt live_requests_def ran_def restrict_map_def split: if_splits)
qed

lemma pop_effect:
  assumes inv: "runtime_inv limits rt" and eq: "pop_event rt = (e, rt')"
  shows "runtime_inv limits rt'" and "live_requests rt' = live_requests rt" and "same_capacity rt rt'"
    and "outstanding rt = (case e of Some (HE_Completion i r) \<Rightarrow> {#i#} | _ \<Rightarrow> {#}) + outstanding rt'"
    and "e = None \<Longrightarrow> queue_is_empty (rt_events rt')"
    and "rt_executor rt' = rt_executor rt"
proof -
  note d = runtime_invD [OF inv]
  obtain q where q: "queue_pop (rt_events rt) = (e, q)" and rt': "rt' = rt\<lparr>rt_events := q\<rparr>"
    using eq by (auto simp: pop_event_def split: prod.splits)
  note pend = queue_pop_pending [OF d(3), unfolded q]
  have "queue_inv q" using queue_inv_pop [OF d(3)] q by simp
  then show "runtime_inv limits rt'" using inv by (simp add: rt' runtime_inv_def)
  show "live_requests rt' = live_requests rt" "rt_executor rt' = rt_executor rt"
    by (simp_all add: rt' live_requests_def)
  have ids: "mset (completion_ids (rt_events rt)) = (case e of Some (HE_Completion i r) \<Rightarrow> {#i#} | _ \<Rightarrow> {#})
      + mset (completion_ids q) \<and> heq_maximum_edge_events q = heq_maximum_edge_events (rt_events rt)"
    using q by (auto simp: queue_pop_def completion_ids_def
        split: list.splits option.splits if_splits host_event.splits prod.splits)
  then show "same_capacity rt rt'"
    "outstanding rt = (case e of Some (HE_Completion i r) \<Rightarrow> {#i#} | _ \<Rightarrow> {#}) + outstanding rt'"
    by (simp_all add: rt' outstanding_def same_capacity_def)
  show "queue_is_empty (rt_events rt')" if "e = None"
    using pend that pending_events_empty [of q] by (auto simp: rt' split: list.splits)
qed

end
