(* ===== verification/Broker_Audit.thy ===== *)
theory Broker_Audit
  imports Grants Broker_Types
begin

text \<open>
  The in-memory audit log of a supervisor connection
  (\<^verbatim>\<open>touchbar-plugin-supervisor/src/audit.rs\<close>). An input carries no payload, path or URL, so that a
  record cannot hold one. The durable audit file is an argument of the connection.
\<close>

datatype audit_decision =
  AdAllowed | AdDenied | AdOutOfScope | AdUnavailable | AdPolicyBlocked | AdInvalid

datatype audit_activation = AaNone | AaPhysical | AaTrustedControl | AaSyntheticRejected

fun audit_activation_from :: "activation_origin option \<Rightarrow> audit_activation" where
  "audit_activation_from None = AaNone"
| "audit_activation_from (Some Physical) = AaPhysical"
| "audit_activation_from (Some TrustedControl) = AaTrustedControl"
| "audit_activation_from (Some Synthetic) = AaSyntheticRejected"

datatype audit_result =
    ArSuccess | ArUnavailable | ArDenied | ArOutOfScope | ArInvalidRequest | ArInvalidPhase
  | ArActivationRequired | ArQuotaExceeded | ArRateLimited | ArTimeout | ArCancelled | ArUnsupported
  | ArBackendFailed | ArInternal

fun audit_result_from :: "broker_error_code option \<Rightarrow> audit_result" where
  "audit_result_from None = ArSuccess"
| "audit_result_from (Some Unavailable) = ArUnavailable"
| "audit_result_from (Some Denied) = ArDenied"
| "audit_result_from (Some OutOfScope) = ArOutOfScope"
| "audit_result_from (Some InvalidRequest) = ArInvalidRequest"
| "audit_result_from (Some InvalidPhase) = ArInvalidPhase"
| "audit_result_from (Some ActivationRequired) = ArActivationRequired"
| "audit_result_from (Some QuotaExceeded) = ArQuotaExceeded"
| "audit_result_from (Some RateLimited) = ArRateLimited"
| "audit_result_from (Some Timeout) = ArTimeout"
| "audit_result_from (Some Cancelled) = ArCancelled"
| "audit_result_from (Some Unsupported) = ArUnsupported"
| "audit_result_from (Some BackendFailed) = ArBackendFailed"
| "audit_result_from (Some Internal) = ArInternal"

record audit_record =
  ar_sequence :: nat
  ar_wall_clock_unix_millis :: nat
  ar_source :: github_source
  ar_version :: string
  ar_artifact_digest :: string
  ar_instance_id :: nat
  ar_capability :: string
  ar_operation :: string
  ar_activation :: audit_activation
  ar_decision :: audit_decision
  ar_result :: audit_result
  ar_duration_micros :: nat
  ar_request_bytes :: nat
  ar_response_bytes :: nat
  ar_resource_count :: nat

record audit_input =
  ai_wall_clock_unix_millis :: nat
  ai_capability :: string
  ai_operation :: string
  ai_activation :: "activation_origin option"
  ai_decision :: audit_decision
  ai_error :: "broker_error_code option"
  ai_duration_micros :: nat
  ai_request_bytes :: nat
  ai_response_bytes :: nat
  ai_resource_count :: nat

record audit_log =
  al_source :: github_source
  al_version :: string
  al_artifact_digest :: string
  al_instance_id :: nat
  al_maximum_records :: nat
  al_next_sequence :: nat
  al_records :: "audit_record list"

definition audit_log_new :: "github_source \<Rightarrow> string \<Rightarrow> string \<Rightarrow> nat \<Rightarrow> nat \<Rightarrow> audit_log" where
  "audit_log_new source version artifact_digest instance_id maximum_records =
     \<lparr>al_source = source, al_version = version, al_artifact_digest = artifact_digest,
      al_instance_id = instance_id, al_maximum_records = maximum_records, al_next_sequence = 1, al_records = []\<rparr>"

definition audit_push :: "audit_input \<Rightarrow> audit_log \<Rightarrow> audit_record \<times> audit_log" where
  "audit_push input l =
     (let l1 = (if al_maximum_records l = 0 then l\<lparr>al_maximum_records := 1\<rparr> else l);
          l2 = (if length (al_records l1) = al_maximum_records l1 then l1\<lparr>al_records := tl (al_records l1)\<rparr> else l1);
          record = \<lparr>ar_sequence = al_next_sequence l2, ar_wall_clock_unix_millis = ai_wall_clock_unix_millis input,
            ar_source = al_source l2, ar_version = al_version l2, ar_artifact_digest = al_artifact_digest l2,
            ar_instance_id = al_instance_id l2, ar_capability = ai_capability input,
            ar_operation = ai_operation input, ar_activation = audit_activation_from (ai_activation input),
            ar_decision = ai_decision input, ar_result = audit_result_from (ai_error input),
            ar_duration_micros = ai_duration_micros input, ar_request_bytes = ai_request_bytes input,
            ar_response_bytes = ai_response_bytes input, ar_resource_count = ai_resource_count input\<rparr> in
      (record, l2\<lparr>al_next_sequence := saturating_add (al_next_sequence l2) 1,
                  al_records := al_records l2 @ [record]\<rparr>))"

section \<open>The log is the newest records\<close>

definition audit_pushes :: "audit_input list \<Rightarrow> audit_log \<Rightarrow> audit_log" where
  "audit_pushes inputs l = fold (\<lambda>i l. snd (audit_push i l)) inputs l"

text \<open>The records that would be written without a bound.\<close>

definition audit_entry :: "audit_log \<Rightarrow> nat \<Rightarrow> audit_input \<Rightarrow> audit_record" where
  "audit_entry l n input =
     \<lparr>ar_sequence = n, ar_wall_clock_unix_millis = ai_wall_clock_unix_millis input,
      ar_source = al_source l, ar_version = al_version l, ar_artifact_digest = al_artifact_digest l,
      ar_instance_id = al_instance_id l, ar_capability = ai_capability input,
      ar_operation = ai_operation input, ar_activation = audit_activation_from (ai_activation input),
      ar_decision = ai_decision input, ar_result = audit_result_from (ai_error input),
      ar_duration_micros = ai_duration_micros input, ar_request_bytes = ai_request_bytes input,
      ar_response_bytes = ai_response_bytes input, ar_resource_count = ai_resource_count input\<rparr>"

definition last_n :: "nat \<Rightarrow> 'a list \<Rightarrow> 'a list" where
  "last_n n xs = drop (length xs - n) xs"

lemma last_n_snoc:
  "0 < n \<Longrightarrow> last_n n (xs @ [x]) = (if length (last_n n xs) = n then tl (last_n n xs) else last_n n xs) @ [x]"
  by (cases "n \<le> length xs") (auto simp: last_n_def tl_drop Suc_diff_le drop_Suc [symmetric])

lemma audit_push_state:
  "al_records (snd (audit_push i l)) =
     (if length (al_records l) = max 1 (al_maximum_records l) then tl (al_records l) else al_records l)
       @ [audit_entry l (al_next_sequence l) i]"
  "al_next_sequence (snd (audit_push i l)) = saturating_add (al_next_sequence l) 1"
  "max 1 (al_maximum_records (snd (audit_push i l))) = max 1 (al_maximum_records l)"
  "audit_entry (snd (audit_push i l)) = audit_entry l"
  by (auto simp: audit_push_def audit_entry_def Let_def fun_eq_iff)

lemma audit_pushes_state:
  assumes "length inputs < u64_max" and l0: "l0 = audit_log_new s v d i m"
  shows "al_next_sequence (audit_pushes inputs l0) = Suc (length inputs)
    \<and> max 1 (al_maximum_records (audit_pushes inputs l0)) = max 1 m
    \<and> audit_entry (audit_pushes inputs l0) = audit_entry l0
    \<and> al_records (audit_pushes inputs l0) =
        last_n (max 1 m) (map2 (audit_entry l0) [1..<Suc (length inputs)] inputs)"
  using assms(1)
proof (induction inputs rule: rev_induct)
  case Nil
  then show ?case by (simp add: audit_pushes_def l0 audit_log_new_def last_n_def)
next
  case (snoc x xs)
  let ?l = "audit_pushes xs l0"
  have IH: "al_next_sequence ?l = Suc (length xs)" "max 1 (al_maximum_records ?l) = max 1 m"
    "audit_entry ?l = audit_entry l0"
    "al_records ?l = last_n (max 1 m) (map2 (audit_entry l0) [1..<Suc (length xs)] xs)"
    using snoc by simp_all
  have step: "audit_pushes (xs @ [x]) l0 = snd (audit_push x ?l)" by (simp add: audit_pushes_def)
  have all: "map2 (audit_entry l0) [1..<Suc (length (xs @ [x]))] (xs @ [x])
      = map2 (audit_entry l0) [1..<Suc (length xs)] xs @ [audit_entry l0 (Suc (length xs)) x]"
    using upt_Suc_append [of 1 "Suc (length xs)"] by (simp del: upt_Suc)
  show ?case
    using IH snoc.prems last_n_snoc [of "max 1 m" "map2 (audit_entry l0) [1..<Suc (length xs)] xs"]
    unfolding step all audit_push_state by (simp add: saturating_add_def del: upt_Suc)
qed

section \<open>Properties\<close>

text \<open>The audit log of a connection always holds exactly the newest records, at least one and at
  most the configured number, in the order they were written, numbered without a gap from 1 and
  attributed to the package instance of the connection.\<close>

theorem audit_log_newest:
  assumes "length inputs < u64_max"
  shows "al_records (audit_pushes inputs (audit_log_new s v d i m)) =
    last_n (max 1 m) (map2 (audit_entry (audit_log_new s v d i m)) [1..<Suc (length inputs)] inputs)"
  using audit_pushes_state [OF assms refl] by blast

definition sample_input :: audit_input where
  "sample_input = \<lparr>ai_wall_clock_unix_millis = 7, ai_capability = ''uri.open.v1'', ai_operation = ''open'',
     ai_activation = Some Physical, ai_decision = AdAllowed, ai_error = None, ai_duration_micros = 3,
     ai_request_bytes = 2, ai_response_bytes = 1, ai_resource_count = 0\<rparr>"

theorem audit_log_newest_witness:
  "map ar_sequence (al_records (audit_pushes [sample_input, sample_input, sample_input]
     (audit_log_new (''alice'', ''media'') ''1.0.0'' ''sha256'' 4 2))) = [2, 3]"
proof -
  have "length [sample_input, sample_input, sample_input] < u64_max" by (simp add: u64_max_def)
  from audit_log_newest [OF this, of "(''alice'', ''media'')" "''1.0.0''" "''sha256''" 4 2] show ?thesis
    by (simp add: last_n_def audit_entry_def upt_rec)
qed

end
