(* ===== verification/Health.thy ===== *)
theory Health
  imports TB_Prelude
begin

text \<open>
  \<^verbatim>\<open>touchbar-plugin-supervisor/src/health.rs\<close>: the circuit breaker of a plugin host.
  Failures are recorded with their time; enough of them within the window schedule a restart
  with exponential back-off, and enough restarts disable the plugin for good.  The
  \<^verbatim>\<open>VecDeque\<close> of failure times is a list with its front first.
\<close>

datatype health_event = GuestTrap | TimeoutFailure | ProtocolViolation | QuotaViolation | CleanRun

datatype health_state = Healthy | RestartAfter nat | Disabled

record health_policy =
  window_millis :: nat
  failures_before_restart :: nat
  restarts_before_disable :: nat
  initial_backoff_millis :: nat
  maximum_backoff_millis :: nat

definition default_health_policy :: health_policy where
  "default_health_policy = \<lparr>window_millis = 60000, failures_before_restart = 3,
     restarts_before_disable = 5, initial_backoff_millis = 250, maximum_backoff_millis = 30000\<rparr>"

record health_tracker =
  ht_policy :: health_policy
  ht_failures :: "nat list"
  ht_restart_count :: nat
  ht_state :: health_state

definition health_new :: "health_policy \<Rightarrow> health_tracker" where
  "health_new p = \<lparr>ht_policy = p, ht_failures = [], ht_restart_count = 0, ht_state = Healthy\<rparr>"

definition health_record :: "health_event \<Rightarrow> nat \<Rightarrow> health_tracker \<Rightarrow> health_state \<times> health_tracker" where
  "health_record event now t =
     (if event = CleanRun then
        (let t' = t\<lparr>ht_failures := [],
                    ht_state := (if ht_state t \<noteq> Disabled then Healthy else ht_state t)\<rparr>
         in (ht_state t', t'))
      else
        (let policy = ht_policy t;
             failures = dropWhile (\<lambda>time. window_millis policy < now - time) (ht_failures t) @ [now]
         in if length failures < failures_before_restart policy
            then (ht_state t, t\<lparr>ht_failures := failures\<rparr>)
            else
              (let count = saturating_add (ht_restart_count t) 1
               in if restarts_before_disable policy \<le> count
                  then (Disabled, t\<lparr>ht_failures := [], ht_restart_count := count, ht_state := Disabled\<rparr>)
                  else
                    (let exponent = min (count - 1) 31;
                         backoff = min (saturating_mul (initial_backoff_millis policy) (2 ^ exponent))
                                       (maximum_backoff_millis policy)
                     in (RestartAfter backoff,
                         t\<lparr>ht_failures := [], ht_restart_count := count,
                           ht_state := RestartAfter backoff\<rparr>)))))"

definition acknowledge_restart :: "health_tracker \<Rightarrow> health_tracker" where
  "acknowledge_restart t = (if ht_state t \<noteq> Disabled then t\<lparr>ht_state := Healthy\<rparr> else t)"

inductive health_step :: "health_tracker \<Rightarrow> health_tracker \<Rightarrow> bool" where
  step_record: "health_step t (snd (health_record event now t))"
| step_acknowledge: "health_step t (acknowledge_restart t)"

inductive_simps health_step_simps: "health_step t u"

lemmas health_defs = health_record_def acknowledge_restart_def Let_def

lemma health_step_policy: "health_step t u \<Longrightarrow> ht_policy u = ht_policy t"
  by (auto simp: health_step_simps health_defs)

lemma health_step_disabled: "health_step t u \<Longrightarrow> ht_state t = Disabled \<Longrightarrow>
    restarts_before_disable (ht_policy t) \<le> ht_restart_count t \<Longrightarrow> ht_restart_count t \<le> u64_max \<Longrightarrow>
    ht_state u = Disabled \<and> restarts_before_disable (ht_policy u) \<le> ht_restart_count u
      \<and> ht_restart_count u \<le> u64_max"
  by (auto simp: health_step_simps health_defs saturating_add_def)

definition health_inv :: "health_policy \<Rightarrow> health_tracker \<Rightarrow> bool" where
  "health_inv p t \<longleftrightarrow> ht_policy t = p \<and> ht_restart_count t \<le> u64_max
     \<and> (ht_failures t = [] \<or> length (ht_failures t) < failures_before_restart p)
     \<and> (case ht_state t of
          Disabled \<Rightarrow> restarts_before_disable p \<le> ht_restart_count t
        | RestartAfter b \<Rightarrow> 0 < ht_restart_count t \<and> ht_restart_count t < restarts_before_disable p
            \<and> b = min (saturating_mul (initial_backoff_millis p) (2 ^ min (ht_restart_count t - 1) 31))
                      (maximum_backoff_millis p)
        | Healthy \<Rightarrow> ht_restart_count t = 0 \<or> ht_restart_count t < restarts_before_disable p)"

lemma health_inv_new: "health_inv p (health_new p)"
  by (simp add: health_inv_def health_new_def)

lemma length_dropWhile_snoc_le: "length (dropWhile P xs @ [x]) \<le> Suc (length xs)"
  using length_dropWhile_le [of P xs] by simp

lemma health_inv_record [invar_intro]:
  assumes "health_inv p t"
  shows "health_inv p (snd (health_record event now t))"
proof (cases "event = CleanRun")
  case True
  then show ?thesis using assms
    by (cases "ht_state t") (auto simp: health_inv_def health_record_def)
next
  case False
  let ?fs = "dropWhile (\<lambda>time. window_millis p < now - time) (ht_failures t) @ [now]"
  show ?thesis
  proof (cases "length ?fs < failures_before_restart p")
    case True
    then show ?thesis using False assms
      by (auto simp: health_inv_def health_record_def Let_def split: health_state.splits)
  next
    case long: False
    show ?thesis using False long assms
      by (auto simp: health_inv_def health_record_def Let_def saturating_add_def u64_max_def
          split: health_state.splits)
  qed
qed

lemma health_inv_acknowledge [invar_intro]:
  "health_inv p t \<Longrightarrow> health_inv p (acknowledge_restart t)"
  by (auto simp: health_inv_def acknowledge_restart_def split: health_state.splits)

lemma health_step_inv: "health_step t u \<Longrightarrow> health_inv p t \<Longrightarrow> health_inv p u"
  by (auto simp: health_step_simps intro: invar_intro)

lemma health_steps_inv: "health_step\<^sup>*\<^sup>* t u \<Longrightarrow> health_inv p t \<Longrightarrow> health_inv p u"
  by (induction rule: rtranclp_induct) (auto intro: health_step_inv)

lemma dropWhile_window:
  "sorted fs \<Longrightarrow> dropWhile (\<lambda>t. w < now - t) fs = filter (\<lambda>t. now - t \<le> w) fs" for now :: nat
proof (induction fs)
  case (Cons t fs)
  show ?case
  proof (cases "w < now - t")
    case True
    then show ?thesis using Cons by simp
  next
    case False
    then have "\<forall>u\<in>set (t # fs). now - u \<le> w" using Cons.prems by (auto intro: le_trans diff_le_mono2)
    then show ?thesis using False by (simp add: filter_id_conv)
  qed
qed simp

section \<open>Properties\<close>

text \<open>Once a plugin is disabled, no sequence of events, clean runs or acknowledgements
  brings it back.\<close>

theorem health_disabled_is_final:
  assumes "health_step\<^sup>*\<^sup>* (health_new p) t" and "ht_state t = Disabled" and "health_step\<^sup>*\<^sup>* t u"
  shows "ht_state u = Disabled"
proof -
  have "health_inv p t" by (rule health_steps_inv [OF assms(1) health_inv_new])
  then have "restarts_before_disable (ht_policy t) \<le> ht_restart_count t" "ht_restart_count t \<le> u64_max"
    using assms(2) by (auto simp: health_inv_def)
  with assms(3,2) have "ht_state u = Disabled \<and> restarts_before_disable (ht_policy u) \<le> ht_restart_count u
      \<and> ht_restart_count u \<le> u64_max"
    by (induction rule: rtranclp_induct) (auto dest: health_step_disabled)
  then show ?thesis ..
qed

theorem health_disabled_is_final_witness:
  "ht_state (snd (health_record CleanRun 9 (snd (health_record GuestTrap 5
     (health_new (default_health_policy\<lparr>failures_before_restart := 1, restarts_before_disable := 1\<rparr>)))))) = Disabled"
proof -
  let ?p = "default_health_policy\<lparr>failures_before_restart := 1, restarts_before_disable := 1\<rparr>"
  let ?t = "snd (health_record GuestTrap 5 (health_new ?p))"
  have 1: "health_step\<^sup>*\<^sup>* (health_new ?p) ?t" by (rule r_into_rtranclp) (rule step_record)
  have 2: "ht_state ?t = Disabled"
    by (simp add: health_defs health_new_def default_health_policy_def saturating_add_def u64_max_def)
  have 3: "health_step\<^sup>*\<^sup>* ?t (snd (health_record CleanRun 9 ?t))" by (rule r_into_rtranclp) (rule step_record)
  show ?thesis by (rule health_disabled_is_final [OF 1 2 3])
qed

text \<open>Every restart delay is the exponential back-off of the restarts so far, capped by
  the policy's maximum, and a plugin is restarted fewer times than the disabling threshold.\<close>

theorem health_backoff:
  assumes "health_step\<^sup>*\<^sup>* (health_new p) t" and "ht_state t = RestartAfter b"
  shows "b \<le> maximum_backoff_millis p \<and> ht_restart_count t < restarts_before_disable p
    \<and> b = min (min (initial_backoff_millis p * 2 ^ min (ht_restart_count t - 1) 31) u64_max)
              (maximum_backoff_millis p)"
  using health_steps_inv [OF assms(1) health_inv_new] assms(2)
  by (simp add: health_inv_def saturating_mul_def)

theorem health_backoff_witness:
  "ht_state (snd (health_record GuestTrap 5
     (health_new (default_health_policy\<lparr>failures_before_restart := 1\<rparr>)))) = RestartAfter 250
   \<and> (250::nat) \<le> 30000"
proof -
  let ?p = "default_health_policy\<lparr>failures_before_restart := 1\<rparr>"
  let ?t = "snd (health_record GuestTrap 5 (health_new ?p))"
  have 1: "health_step\<^sup>*\<^sup>* (health_new ?p) ?t" by (rule r_into_rtranclp) (rule step_record)
  have "saturating_add 0 1 = 1" "saturating_mul 250 1 = 250"
    by (simp_all add: saturating_add_def saturating_mul_def u64_max_def)
  then have 2: "ht_state ?t = RestartAfter 250"
    by (simp add: health_defs health_new_def default_health_policy_def)
  have "(250::nat) \<le> maximum_backoff_millis ?p" using health_backoff [OF 1 2] by (rule conjunct1)
  then have "(250::nat) \<le> 30000" by (simp add: default_health_policy_def)
  with 2 show ?thesis by (rule conjI)
qed

text \<open>With failure times recorded in order, a failure trips the breaker exactly when the
  failures inside the window, this one included, reach the threshold; otherwise the state is
  unchanged and exactly the failures inside the window are remembered.\<close>

theorem health_trips_exactly:
  assumes "event \<noteq> CleanRun" and "sorted (ht_failures t)"
    and "recent = filter (\<lambda>time. now - time \<le> window_millis (ht_policy t)) (ht_failures t) @ [now]"
  shows "if length recent < failures_before_restart (ht_policy t)
         then health_record event now t = (ht_state t, t\<lparr>ht_failures := recent\<rparr>)
         else ht_failures (snd (health_record event now t)) = []
            \<and> ht_restart_count (snd (health_record event now t)) = min (ht_restart_count t + 1) u64_max
            \<and> fst (health_record event now t) \<noteq> Healthy
            \<and> (fst (health_record event now t) = Disabled \<longleftrightarrow>
                restarts_before_disable (ht_policy t) \<le> min (ht_restart_count t + 1) u64_max)"
proof -
  have keep: "dropWhile (\<lambda>time. window_millis (ht_policy t) < now - time) (ht_failures t) @ [now] = recent"
    unfolding assms(3) dropWhile_window [OF assms(2)] ..
  show ?thesis
    unfolding health_record_def Let_def keep saturating_add_def using assms(1) by simp
qed

theorem health_trips_exactly_witness:
  "health_record QuotaViolation 100 (health_new default_health_policy)
     = (Healthy, (health_new default_health_policy)\<lparr>ht_failures := [100]\<rparr>)"
  using health_trips_exactly [of QuotaViolation "health_new default_health_policy" "[100]" 100]
  by (simp add: health_new_def default_health_policy_def)

end
