(* ===== verification/Connection.thy ===== *)
theory Connection
  imports Runtime_Correct Broker_Audit Health
begin

text \<open>
  The supervisor's end of a broker connection (\<^verbatim>\<open>touchbar-plugin-supervisor/src/lib.rs\<close>): it checks the
  requests of a component host against the effective policy, hands them to the runtime, answers them,
  and replaces the policy while operations run.

  \<open>con_sent\<close> is what has gone over the channel. Clock readings, the outcomes of system calls and what
  the backends decide are arguments (\<open>request_inputs\<close>, \<open>send\<close>, \<open>finished\<close>); \<open>finished n\<close> is the instant at
  which audit record \<open>n\<close> is written. Instants and durations are in nanoseconds.
\<close>

section \<open>Configuration and state\<close>

record connection_limits =
  cl_maximum_audit_records :: nat
  cl_maximum_consumed_activations :: nat
  cl_maximum_activation_lifetime :: nat
  cl_maximum_state_events :: nat
  cl_maximum_edge_events :: nat
  cl_executor :: executor_limits
  cl_backend_timeout :: nat
  cl_lifecycle :: lifecycle_limits
  cl_health :: health_policy

definition default_connection_limits :: connection_limits where
  "default_connection_limits =
     \<lparr>cl_maximum_audit_records = 1024, cl_maximum_consumed_activations = 4096,
      cl_maximum_activation_lifetime = 2 * 1000000000, cl_maximum_state_events = 64,
      cl_maximum_edge_events = 256, cl_executor = default_executor_limits,
      cl_backend_timeout = 5 * 1000000000, cl_lifecycle = default_lifecycle_limits,
      cl_health = default_health_policy\<rparr>"

record pending_audit =
  pa_started :: nat
  pa_wall_clock_unix_millis :: nat
  pa_capability :: string
  pa_operation :: string
  pa_activation :: "activation_origin option"
  pa_request_bytes :: nat

datatype audit_file_error = AuditIo io_error_kind | AuditEncode | AuditInvalid

record supervisor_connection =
  con_identity :: connection_identity
  con_policy :: effective_policy
  con_generation :: nat
  con_limits :: connection_limits
  con_last_request_id :: nat
  con_runtime :: broker_runtime
  con_activations :: activation_ledger
  con_audit :: audit_log
  con_audit_file :: "(audit_record \<Rightarrow> (audit_file_error, unit) result) option"
  con_pending_audit :: "(nat, pending_audit) btree"
  con_health :: health_tracker
  con_stopped :: bool
  con_sent :: "supervisor_message list"

definition connection_new ::
  "(transport_error, nat) result \<Rightarrow> nat \<Rightarrow> connection_identity \<Rightarrow> effective_policy \<Rightarrow> connection_limits \<Rightarrow>
   (transport_error, supervisor_connection) result" where
  "connection_new peer_uid current_uid identity policy limits =
     (if cl_maximum_edge_events limits < xl_maximum_active_operations (cl_executor limits)
      then Inl (Malformed ''edge event capacity must cover every active backend operation'')
      else if cl_backend_timeout limits = 0
      then Inl (Malformed ''backend timeout must be greater than zero'')
      else if cl_maximum_activation_lifetime limits = 0
      then Inl (Malformed ''activation lifetime must be greater than zero'')
      else rbind peer_uid (\<lambda>uid.
        if uid \<noteq> current_uid then Inl (Malformed ''broker peer has a different user'')
        else
          case runtime_new (cl_executor limits) (cl_lifecycle limits) (cl_maximum_state_events limits)
              (cl_maximum_edge_events limits) of
            Inl e \<Rightarrow> Inl (Malformed e)
          | Inr rt \<Rightarrow> Inr \<lparr>con_identity = identity, con_policy = policy, con_generation = 1,
              con_limits = limits, con_last_request_id = 0, con_runtime = rt,
              con_activations = ledger_new (cl_maximum_consumed_activations limits),
              con_audit = audit_log_new (pkg_source (ci_package identity)) (pkg_version (ci_package identity))
                (pkg_digest (ci_package identity)) (ci_instance_id identity) (cl_maximum_audit_records limits),
              con_audit_file = None, con_pending_audit = [], con_health = health_new (cl_health limits),
              con_stopped = False, con_sent = []\<rparr>))"

definition set_audit_file ::
  "(audit_record \<Rightarrow> (audit_file_error, unit) result) \<Rightarrow> supervisor_connection \<Rightarrow> supervisor_connection" where
  "set_audit_file audit_file con = con\<lparr>con_audit_file := Some audit_file\<rparr>"

definition register_backend :: "capability_id \<Rightarrow> supervisor_connection \<Rightarrow> supervisor_connection" where
  "register_backend capability con = con\<lparr>con_runtime := runtime_register capability (con_runtime con)\<rparr>"

definition register_resource_backend ::
  "capability_id \<Rightarrow> (backend_request \<Rightarrow> resource_limits option) \<Rightarrow> supervisor_connection \<Rightarrow> supervisor_connection" where
  "register_resource_backend capability limits con =
     con\<lparr>con_runtime := runtime_register_resource capability limits (con_runtime con)\<rparr>"

section \<open>Wire views of the policy\<close>

fun wire_status :: "capability_status \<Rightarrow> wire_capability_status" where
  "wire_status Granted = WGranted"
| "wire_status StatusDenied = WDenied"
| "wire_status NeedsConsent = WNeedsConsent"
| "wire_status StatusUnsupported = WUnsupported"
| "wire_status DisclosureOnly = WDisclosureOnly"

definition capability_states :: "effective_policy \<Rightarrow> capability_state list" where
  "capability_states policy =
     map (\<lambda>g. \<lparr>cs_capability = capability_to_string (req_capability (eg_request g)),
       cs_required = req_required (eg_request g), cs_status = wire_status (eg_status g)\<rparr>) (ep_grants policy)"

definition valid_wire_segment :: "string \<Rightarrow> bool" where
  "valid_wire_segment s \<longleftrightarrow>
     s \<noteq> [] \<and> is_ascii_lowercase (hd s) \<and> is_ascii_alphanumeric (last s)
   \<and> list_all (\<lambda>b. is_ascii_lowercase b \<or> is_ascii_digit b \<or> b = CHR ''-'') s"

definition valid_wire_identifier :: "string \<Rightarrow> bool" where
  "valid_wire_identifier v \<longleftrightarrow> v \<noteq> [] \<and> length v \<le> 128 \<and> list_all valid_wire_segment (str_split CHR ''.'' v)"

definition audit_identifier :: "string \<Rightarrow> string" where
  "audit_identifier v = (if valid_wire_identifier v then v else ''invalid'')"

fun audit_decision_of :: "broker_error_code \<Rightarrow> audit_decision" where
  "audit_decision_of Unavailable = AdUnavailable"
| "audit_decision_of Unsupported = AdUnavailable"
| "audit_decision_of Denied = AdDenied"
| "audit_decision_of ActivationRequired = AdDenied"
| "audit_decision_of OutOfScope = AdOutOfScope"
| "audit_decision_of InvalidRequest = AdInvalid"
| "audit_decision_of InvalidPhase = AdInvalid"
| "audit_decision_of QuotaExceeded = AdPolicyBlocked"
| "audit_decision_of RateLimited = AdPolicyBlocked"
| "audit_decision_of Timeout = AdPolicyBlocked"
| "audit_decision_of Cancelled = AdPolicyBlocked"
| "audit_decision_of BackendFailed = AdPolicyBlocked"
| "audit_decision_of Internal = AdPolicyBlocked"

fun audit_transport_error :: "audit_file_error \<Rightarrow> transport_error" where
  "audit_transport_error (AuditIo e) = Io e"
| "audit_transport_error AuditEncode = Malformed ''durable audit write failed''"
| "audit_transport_error AuditInvalid = Malformed ''durable audit write failed''"

section \<open>Time\<close>

definition duration_micros :: "nat \<Rightarrow> nat" where
  "duration_micros d = min (d div 1000) u64_max"

definition elapsed_millis :: "nat \<Rightarrow> nat" where
  "elapsed_millis d = min (d div 1000000) u64_max"

text \<open>\<open>None\<close> is a wall clock before 1970.\<close>

definition wall_clock_unix_millis :: "nat option \<Rightarrow> nat" where
  "wall_clock_unix_millis since_epoch =
     min ((case since_epoch of None \<Rightarrow> 0 | Some d \<Rightarrow> d) div 1000000) u64_max"

text \<open>What one request reads from outside: the time since the connection started, the instant and the wall
  clock of its audit, the monotonic clock (\<open>None\<close> when it cannot be read) at the check of the envelope and
  at the dispatch, the instant at which a token or a sink is made, and the decisions of the backend.\<close>

record request_inputs =
  ri_elapsed :: nat
  ri_started :: nat
  ri_wall_clock :: "nat option"
  ri_envelope_micros :: "nat option"
  ri_monotonic_micros :: "nat option"
  ri_instant :: nat
  ri_authorize :: "backend_request \<Rightarrow> nat \<Rightarrow> backend_authorize"
  ri_opened :: "backend_request \<Rightarrow> (broker_error_code, char list) result"

section \<open>Sending\<close>

type_synonym channel = "nat \<Rightarrow> char list \<Rightarrow> syscall"

definition con_send ::
  "channel \<Rightarrow> supervisor_message \<Rightarrow> supervisor_connection \<Rightarrow> (transport_error, unit) result \<times> supervisor_connection" where
  "con_send send m con =
     (case send_supervisor (send (length (con_sent con))) m of
        Inl e \<Rightarrow> (Inl e, con)
      | Inr _ \<Rightarrow> (Inr (), con\<lparr>con_sent := con_sent con @ [m]\<rparr>))"

definition push_audit ::
  "(nat \<Rightarrow> nat) \<Rightarrow> pending_audit \<Rightarrow> audit_decision \<Rightarrow> broker_error_code option \<Rightarrow> nat \<Rightarrow> supervisor_connection \<Rightarrow>
   (transport_error, unit) result \<times> supervisor_connection" where
  "push_audit finished audit decision error response_bytes con =
     (let (record, log) = audit_push
            \<lparr>ai_wall_clock_unix_millis = pa_wall_clock_unix_millis audit, ai_capability = pa_capability audit,
             ai_operation = pa_operation audit, ai_activation = pa_activation audit, ai_decision = decision,
             ai_error = error,
             ai_duration_micros = duration_micros (finished (al_next_sequence (con_audit con)) - pa_started audit),
             ai_request_bytes = pa_request_bytes audit, ai_response_bytes = response_bytes,
             ai_resource_count = length (ls_resources (rt_lifecycle (con_runtime con))) mod 2 ^ 32\<rparr> (con_audit con);
          con' = con\<lparr>con_audit := log\<rparr> in
      case con_audit_file con of
        None \<Rightarrow> (Inr (), con')
      | Some audit_file \<Rightarrow>
          (case audit_file record of Inl e \<Rightarrow> (Inl (audit_transport_error e), con') | Inr _ \<Rightarrow> (Inr (), con')))"

text \<open>The body of the loop of \<^verbatim>\<open>flush_events\<close> before it sends the event.\<close>

definition audit_completion ::
  "(nat \<Rightarrow> nat) \<Rightarrow> host_event \<Rightarrow> supervisor_connection \<Rightarrow> (transport_error, unit) result \<times> supervisor_connection" where
  "audit_completion finished event con =
     (case event of
        HE_Completion request_id result \<Rightarrow>
          (case bt_get (con_pending_audit con) request_id of
             None \<Rightarrow> (Inr (), con)
           | Some audit \<Rightarrow>
               let con' = con\<lparr>con_pending_audit := bt_remove request_id (con_pending_audit con)\<rparr>;
                   (error, response_bytes) =
                     (case result of Success payload \<Rightarrow> (None, length payload) | Error e \<Rightarrow> (Some e, 0)) in
               push_audit finished audit AdAllowed error response_bytes con')
      | _ \<Rightarrow> (Inr (), con))"

lemma con_send_frame [simp]:
  "con_runtime (snd (con_send send m con)) = con_runtime con"
  "con_policy (snd (con_send send m con)) = con_policy con"
  "con_limits (snd (con_send send m con)) = con_limits con"
  "con_stopped (snd (con_send send m con)) = con_stopped con"
  "con_identity (snd (con_send send m con)) = con_identity con"
  "con_last_request_id (snd (con_send send m con)) = con_last_request_id con"
  by (simp_all add: con_send_def split: sum.splits)

lemma push_audit_frame [simp]:
  "con_runtime (snd (push_audit f a d e n con)) = con_runtime con"
  "con_policy (snd (push_audit f a d e n con)) = con_policy con"
  "con_limits (snd (push_audit f a d e n con)) = con_limits con"
  "con_stopped (snd (push_audit f a d e n con)) = con_stopped con"
  "con_identity (snd (push_audit f a d e n con)) = con_identity con"
  "con_last_request_id (snd (push_audit f a d e n con)) = con_last_request_id con"
  "con_sent (snd (push_audit f a d e n con)) = con_sent con"
  by (simp_all add: push_audit_def audit_push_def Let_def split: option.splits sum.splits)

lemma audit_completion_frame [simp]:
  "con_runtime (snd (audit_completion f ev con)) = con_runtime con"
  "con_policy (snd (audit_completion f ev con)) = con_policy con"
  "con_limits (snd (audit_completion f ev con)) = con_limits con"
  "con_stopped (snd (audit_completion f ev con)) = con_stopped con"
  "con_identity (snd (audit_completion f ev con)) = con_identity con"
  "con_last_request_id (snd (audit_completion f ev con)) = con_last_request_id con"
  "con_sent (snd (audit_completion f ev con)) = con_sent con"
  by (simp_all add: audit_completion_def Let_def split: host_event.splits option.splits broker_result.splits)

section \<open>Flushing and pumping\<close>

function flush_events ::
  "channel \<Rightarrow> (nat \<Rightarrow> nat) \<Rightarrow> supervisor_connection \<Rightarrow> (transport_error, unit) result \<times> supervisor_connection" where
  "flush_events send finished con =
     (case pop_event (con_runtime con) of
        (None, rt) \<Rightarrow> (Inr (), con\<lparr>con_runtime := rt\<rparr>)
      | (Some event, rt) \<Rightarrow>
          (case audit_completion finished event (con\<lparr>con_runtime := rt\<rparr>) of
             (Inl e, con1) \<Rightarrow> (Inl e, con1)
           | (Inr _, con1) \<Rightarrow>
               (case con_send send (into_message event) con1 of
                  (Inl e, con2) \<Rightarrow> (Inl e, con2)
                | (Inr _, con2) \<Rightarrow> flush_events send finished con2)))"
  by pat_completeness auto
termination
proof (relation "measure (\<lambda>(_, _, con). queue_measure (rt_events (con_runtime con)))", goal_cases)
  case (2 send finished con e rt event r con1 a r2 con2)
  have "con_runtime con1 = rt"
    using audit_completion_frame(1) [of finished event "con\<lparr>con_runtime := rt\<rparr>"] unfolding 2(3) [symmetric] by simp
  then have "con_runtime con2 = rt"
    using con_send_frame(1) [of send "into_message event" con1] unfolding 2(5) [symmetric] by simp
  moreover have "queue_pop (rt_events (con_runtime con)) = (Some event, rt_events rt)"
    using 2(1,2) by (auto simp: pop_event_def split: prod.splits)
  ultimately show ?case using queue_pop_decreases by simp
qed simp

definition con_pump_completions ::
  "bool \<Rightarrow> supervisor_connection \<Rightarrow> (transport_error, unit) result \<times> supervisor_connection" where
  "con_pump_completions signal_ok con =
     (case pump_completions signal_ok (con_generation con) (con_runtime con) of
        (Inl _, rt) \<Rightarrow> (Inl (Malformed ''broker completion channel failed''), con\<lparr>con_runtime := rt\<rparr>)
      | (Inr _, rt) \<Rightarrow> (Inr (), con\<lparr>con_runtime := rt\<rparr>))"

definition con_pump_resource_events ::
  "(resource_manager \<Rightarrow> resource_manager) \<Rightarrow> supervisor_connection \<Rightarrow> supervisor_connection" where
  "con_pump_resource_events between con =
     con\<lparr>con_runtime := snd (pump_resource_events between (con_generation con) (con_runtime con))\<rparr>"

section \<open>Requests\<close>

definition authorize_request ::
  "effective_policy \<Rightarrow> callback_phase \<Rightarrow> string \<Rightarrow> string \<Rightarrow>
   (broker_error_code, capability_id \<times> capability_scope \<times> grant_bindings) result" where
  "authorize_request policy phase capability operation =
     (if phase = PhItems \<or> phase = PhRender then Inl InvalidPhase
      else if \<not> valid_wire_identifier operation then Inl InvalidRequest
      else
        case capability_from_str capability of
          Inl _ \<Rightarrow> Inl InvalidRequest
        | Inr c \<Rightarrow>
            (case find (\<lambda>g. req_capability (eg_request g) = c) (ep_grants policy) of
               None \<Rightarrow> Inl Denied
             | Some g \<Rightarrow>
                 (case eg_status g of
                    Granted \<Rightarrow> Inr (c, req_scope (eg_request g), eg_bindings g)
                  | StatusUnsupported \<Rightarrow> Inl Unsupported
                  | StatusDenied \<Rightarrow> Inl Denied
                  | NeedsConsent \<Rightarrow> Inl Denied
                  | DisclosureOnly \<Rightarrow> Inl Unsupported)))"

definition validate_activation_envelope ::
  "connection_limits \<Rightarrow> callback_phase \<Rightarrow> activation_context option \<Rightarrow> nat option \<Rightarrow> (broker_error_code, unit) result" where
  "validate_activation_envelope limits phase activation clock =
     (case activation of
        None \<Rightarrow> Inr ()
      | Some a \<Rightarrow>
          if phase \<noteq> PhInput then Inl InvalidPhase
          else if ac_surface_instance a = 0 \<or> ac_input_sequence a = 0 \<or> \<not> valid_wire_identifier (ac_item_id a)
          then Inl InvalidRequest
          else if ac_origin a = Synthetic then Inl ActivationRequired
          else
            case clock of
              None \<Rightarrow> Inl Internal
            | Some now \<Rightarrow>
                if ac_deadline_monotonic_micros a < now then Inl ActivationRequired
                else if ac_deadline_monotonic_micros a - now
                    > duration_micros (cl_maximum_activation_lifetime limits)
                then Inl InvalidRequest
                else Inr ())"

definition dispatch_request ::
  "request_inputs \<Rightarrow> backend_request \<Rightarrow> supervisor_connection \<Rightarrow>
   (broker_error_code, char list option) result \<times> supervisor_connection" where
  "dispatch_request inp request con =
     (let deadline = saturating_add (duration_micros (ri_elapsed inp))
            (duration_micros (cl_backend_timeout (con_limits con))) in
      case ri_monotonic_micros inp of
        None \<Rightarrow> (Inl Internal, con)
      | Some now \<Rightarrow>
          if runtime_resource_limits (con_runtime con) request \<noteq> None then
            (case open_resource (ri_authorize inp request now) (ri_opened inp request) (ri_instant inp) request
                 (con_activations con) (con_runtime con) of
               (Inl e, l, rt) \<Rightarrow> (Inl e, con\<lparr>con_activations := l, con_runtime := rt\<rparr>)
             | (Inr (_, payload), l, rt) \<Rightarrow>
                 (Inr (Some payload), con\<lparr>con_activations := l, con_runtime := rt\<rparr>))
          else
            (case runtime_submit (ri_authorize inp request now) request (ri_instant inp)
                 (cl_backend_timeout (con_limits con)) deadline (con_activations con) (con_runtime con) of
               (Inl e, l, rt) \<Rightarrow> (Inl e, con\<lparr>con_activations := l, con_runtime := rt\<rparr>)
             | (Inr _, l, rt) \<Rightarrow> (Inr None, con\<lparr>con_activations := l, con_runtime := rt\<rparr>)))"

definition start_request ::
  "request_inputs \<Rightarrow> nat \<Rightarrow> callback_phase \<Rightarrow> string \<Rightarrow> string \<Rightarrow> char list \<Rightarrow> activation_context option \<Rightarrow>
   supervisor_connection \<Rightarrow> (broker_error_code, char list option) result \<times> supervisor_connection" where
  "start_request inp request_id phase capability operation payload activation con =
     (case rbind (authorize_request (con_policy con) phase capability operation) (\<lambda>authorized.
         rmap (\<lambda>_. authorized)
           (validate_activation_envelope (con_limits con) phase activation (ri_envelope_micros inp))) of
        Inl e \<Rightarrow> (Inl e, con)
      | Inr (c, authorized_scope, bindings) \<Rightarrow>
          dispatch_request inp
            \<lparr>brq_identity = con_identity con, brq_request_id = request_id, brq_capability = c,
             brq_authorized_scope = authorized_scope, brq_bindings = bindings, brq_activation = activation,
             brq_operation = operation, brq_payload = payload\<rparr> con)"

definition handle_broker_request ::
  "channel \<Rightarrow> (nat \<Rightarrow> nat) \<Rightarrow> request_inputs \<Rightarrow> nat \<Rightarrow> callback_phase \<Rightarrow> string \<Rightarrow> string \<Rightarrow> char list \<Rightarrow>
   activation_context option \<Rightarrow> supervisor_connection \<Rightarrow>
   (transport_error, unit) result \<times> supervisor_connection" where
  "handle_broker_request send finished inp request_id phase capability operation payload activation con =
     (let audit = \<lparr>pa_started = ri_started inp, pa_wall_clock_unix_millis = wall_clock_unix_millis (ri_wall_clock inp),
            pa_capability = audit_identifier capability, pa_operation = audit_identifier operation,
            pa_activation = map_option ac_origin activation, pa_request_bytes = length payload\<rparr> in
      case start_request inp request_id phase capability operation payload activation con of
        (Inr None, con1) \<Rightarrow>
          (Inr (), con1\<lparr>con_pending_audit := bt_insert request_id audit (con_pending_audit con1)\<rparr>)
      | (Inr (Some response), con1) \<Rightarrow>
          (case push_audit finished audit AdAllowed None (length response) con1 of
             (Inl e, con2) \<Rightarrow> (Inl e, con2)
           | (Inr _, con2) \<Rightarrow> con_send send (Response request_id (Success response)) con2)
      | (Inl error, con1) \<Rightarrow>
          (case push_audit finished audit (audit_decision_of error) (Some error) 0 con1 of
             (Inl e, con2) \<Rightarrow> (Inl e, con2)
           | (Inr _, con2) \<Rightarrow> con_send send (Response request_id (Error error)) con2))"

text \<open>\<open>None\<close> is the failed assertion of \<^verbatim>\<open>close_resource\<close>.\<close>

definition handle_request ::
  "channel \<Rightarrow> (nat \<Rightarrow> nat) \<Rightarrow> request_inputs \<Rightarrow> host_message \<Rightarrow> supervisor_connection \<Rightarrow>
   ((transport_error, unit) result \<times> supervisor_connection) option" where
  "handle_request send finished inp request con =
     (if host_request_id request = 0 \<or> host_request_id request \<le> con_last_request_id con then
        Some (con_send send (Response (host_request_id request) (Error InvalidRequest))
          (con\<lparr>con_health := snd (health_record ProtocolViolation (elapsed_millis (ri_elapsed inp)) (con_health con))\<rparr>))
      else
        let con1 = con\<lparr>con_last_request_id := host_request_id request\<rparr> in
        case request of
          GetCapabilities request_id \<Rightarrow>
            Some (con_send send (Capabilities request_id (con_generation con1) (capability_states (con_policy con1))) con1)
        | Request request_id phase capability operation payload activation \<Rightarrow>
            Some (handle_broker_request send finished inp request_id phase capability operation payload activation con1)
        | Cancel request_id target \<Rightarrow>
            (let (found, rt) = runtime_cancel target (con_runtime con1) in
             Some (con_send send (Response request_id (if found then Success [] else Error InvalidRequest))
               (con1\<lparr>con_runtime := rt\<rparr>)))
        | Close request_id resource_id \<Rightarrow>
            (case runtime_close_resource resource_id (con_runtime con1) of
               None \<Rightarrow> None
             | Some (found, rt) \<Rightarrow>
                 Some (con_send send (Response request_id (if found then Success [] else Error InvalidRequest))
                   (con1\<lparr>con_runtime := rt\<rparr>))))"

section \<open>Policy updates\<close>

definition same_grant :: "effective_grant \<Rightarrow> effective_grant \<Rightarrow> bool" where
  "same_grant old new \<longleftrightarrow>
     req_capability (eg_request new) = req_capability (eg_request old) \<and> eg_status new = Granted
   \<and> req_scope (eg_request new) = req_scope (eg_request old) \<and> eg_bindings new = eg_bindings old"

definition revoked_capabilities :: "effective_policy \<Rightarrow> effective_policy \<Rightarrow> capability_id list" where
  "revoked_capabilities old new =
     map (\<lambda>g. req_capability (eg_request g))
       (filter (\<lambda>g. \<not> list_ex (same_grant g) (ep_grants new))
         (filter (\<lambda>g. eg_status g = Granted) (ep_grants old)))"

fun push_states ::
  "nat \<Rightarrow> capability_state list \<Rightarrow> capability_id list \<Rightarrow> capability_state list \<Rightarrow> host_event_queue \<Rightarrow>
   (broker_error_code, unit) result \<times> host_event_queue" where
  "push_states generation old revoked [] q = (Inr (), q)"
| "push_states generation old revoked (state # states) q =
     (if state \<notin> set old \<or> list_ex (\<lambda>c. capability_to_string c = cs_capability state) revoked then
        (case push_capability generation state q of
           (Inl e, q') \<Rightarrow> (Inl e, q')
         | (Inr _, q') \<Rightarrow> push_states generation old revoked states q')
      else push_states generation old revoked states q)"

definition revoke_each :: "nat \<Rightarrow> capability_id list \<Rightarrow> broker_runtime \<Rightarrow> broker_runtime" where
  "revoke_each generation revoked rt = fold (\<lambda>c rt. snd (runtime_revoke c generation rt)) revoked rt"

definition replace_policy ::
  "channel \<Rightarrow> (nat \<Rightarrow> nat) \<Rightarrow> effective_policy \<Rightarrow> supervisor_connection \<Rightarrow>
   (transport_error, unit) result \<times> supervisor_connection" where
  "replace_policy send finished policy con =
     (let old = capability_states (con_policy con);
          new = capability_states policy;
          revoked = revoked_capabilities (con_policy con) policy;
          next_generation = saturating_add (con_generation con) 1;
          con1 = con\<lparr>con_runtime := revoke_each next_generation revoked (con_runtime con),
            con_policy := policy, con_generation := next_generation\<rparr> in
      if ep_blocked policy then
        con_send send (Shutdown next_generation Denied)
          (con1\<lparr>con_runtime := snd (runtime_revoke_all (con_runtime con1)),
                con_activations := ledger_clear (con_activations con1), con_stopped := True\<rparr>)
      else
        case push_states next_generation old revoked new (rt_events (con_runtime con1)) of
          (Inl _, q) \<Rightarrow>
            (Inl (Malformed ''capability event queue exhausted''),
             con1\<lparr>con_runtime := (con_runtime con1)\<lparr>rt_events := q\<rparr>\<rparr>)
        | (Inr _, q) \<Rightarrow>
            flush_events send finished (con1\<lparr>con_runtime := (con_runtime con1)\<lparr>rt_events := q\<rparr>\<rparr>))"

section \<open>Serving\<close>

definition then_ok ::
  "(transport_error, unit) result \<times> 'c \<Rightarrow> ('c \<Rightarrow> (transport_error, unit) result \<times> 'c) \<Rightarrow>
   (transport_error, unit) result \<times> 'c" where
  "then_ok r f = (case r of (Inl e, c) \<Rightarrow> (Inl e, c) | (Inr _, c) \<Rightarrow> f c)"

definition record_violation :: "nat \<Rightarrow> transport_error \<Rightarrow> supervisor_connection \<Rightarrow> supervisor_connection" where
  "record_violation elapsed e con =
     (case e of
        Malformed _ \<Rightarrow> con\<lparr>con_health := snd (health_record ProtocolViolation (elapsed_millis elapsed) (con_health con))\<rparr>
      | Oversized \<Rightarrow> con\<lparr>con_health := snd (health_record ProtocolViolation (elapsed_millis elapsed) (con_health con))\<rparr>
      | _ \<Rightarrow> con)"

definition pump_all ::
  "channel \<Rightarrow> (nat \<Rightarrow> nat) \<Rightarrow> (resource_manager \<Rightarrow> resource_manager) \<Rightarrow> bool \<Rightarrow> supervisor_connection \<Rightarrow>
   (transport_error, unit) result \<times> supervisor_connection" where
  "pump_all send finished between signal_ok con =
     then_ok (con_pump_completions signal_ok con)
       (\<lambda>con. flush_events send finished (con_pump_resource_events between con))"

definition serve_one ::
  "recv_call \<Rightarrow> channel \<Rightarrow> (nat \<Rightarrow> nat) \<Rightarrow> request_inputs \<Rightarrow> (resource_manager \<Rightarrow> resource_manager) \<Rightarrow> bool \<Rightarrow>
   supervisor_connection \<Rightarrow> ((transport_error, unit) result \<times> supervisor_connection) option" where
  "serve_one recv send finished inp between signal_ok con =
     (if con_stopped con then Some (Inl Disconnected, con)
      else
        case recv_host recv of
          Inl e \<Rightarrow> Some (Inl e, record_violation (ri_elapsed inp) e con)
        | Inr request \<Rightarrow>
            map_option (\<lambda>r. then_ok r (pump_all send finished between signal_ok)) (handle_request send finished inp request con))"

text \<open>One turn of the loop. The four descriptors are the channel, the completion signal, the policy update
  (absent when \<open>ti_reload\<close> is \<open>None\<close>) and the resource signal. \<open>ti_environment\<close> is what workers and
  backends do between the points at which the turn looks, \<open>ti_between\<close> what backends do during a pump.\<close>

datatype connection_exit = HostDisconnected | PolicyBlocked

datatype turn = Again | Stop "(transport_error, connection_exit) result"

record poll_events =
  pe_in :: bool
  pe_error :: bool
  pe_hangup :: bool

datatype poll_outcome =
    PollInterrupted
  | PollFailed io_error_kind
  | Ready poll_events poll_events poll_events poll_events

record turn_inputs =
  ti_poll :: poll_outcome
  ti_reload :: "(transport_error, effective_policy option) result option"
  ti_recv :: recv_call
  ti_request :: request_inputs
  ti_send :: channel
  ti_finished :: "nat \<Rightarrow> nat"
  ti_signal :: "nat \<Rightarrow> bool"
  ti_between :: "nat \<Rightarrow> resource_manager \<Rightarrow> resource_manager"
  ti_environment :: "nat \<Rightarrow> supervisor_connection \<Rightarrow> supervisor_connection"

definition turn_of :: "(transport_error, unit) result \<times> supervisor_connection \<Rightarrow> (turn \<times> supervisor_connection) option" where
  "turn_of r = Some (case r of (Inl e, c) \<Rightarrow> (Stop (Inl e), c) | (Inr _, c) \<Rightarrow> (Again, c))"

definition turn_then ::
  "(turn \<times> supervisor_connection) option \<Rightarrow> (supervisor_connection \<Rightarrow> (turn \<times> supervisor_connection) option) \<Rightarrow>
   (turn \<times> supervisor_connection) option" where
  "turn_then t f = (case t of None \<Rightarrow> None | Some (Again, c) \<Rightarrow> f c | Some (Stop r, c) \<Rightarrow> Some (Stop r, c))"

definition signal_broken :: "poll_events \<Rightarrow> bool" where
  "signal_broken p \<longleftrightarrow> pe_error p \<or> pe_hangup p"

definition turn_policy :: "turn_inputs \<Rightarrow> poll_events \<Rightarrow> supervisor_connection \<Rightarrow> (turn \<times> supervisor_connection) option" where
  "turn_policy inp p con =
     (if \<not> pe_in p then Some (Again, con)
      else
        case ti_reload inp of
          None \<Rightarrow> None
        | Some (Inl e) \<Rightarrow> Some (Stop (Inl e), con)
        | Some (Inr None) \<Rightarrow> Some (Again, con)
        | Some (Inr (Some policy)) \<Rightarrow>
            turn_then (turn_of (replace_policy (ti_send inp) (ti_finished inp) policy con))
              (\<lambda>con. if con_stopped con then Some (Stop (Inr PolicyBlocked), con) else Some (Again, con)))"

definition turn_completions :: "turn_inputs \<Rightarrow> poll_events \<Rightarrow> supervisor_connection \<Rightarrow> (turn \<times> supervisor_connection) option" where
  "turn_completions inp p con =
     (if \<not> pe_in p then Some (Again, con)
      else turn_of (then_ok (con_pump_completions (ti_signal inp 1) con) (flush_events (ti_send inp) (ti_finished inp))))"

definition turn_resources :: "turn_inputs \<Rightarrow> poll_events \<Rightarrow> supervisor_connection \<Rightarrow> (turn \<times> supervisor_connection) option" where
  "turn_resources inp p con =
     (if \<not> pe_in p then Some (Again, con)
      else turn_of (flush_events (ti_send inp) (ti_finished inp) (con_pump_resource_events (ti_between inp 1) con)))"

definition turn_channel :: "turn_inputs \<Rightarrow> poll_events \<Rightarrow> supervisor_connection \<Rightarrow> (turn \<times> supervisor_connection) option" where
  "turn_channel inp p con =
     (if \<not> pe_in p then Some (Again, con)
      else
        case recv_host (ti_recv inp) of
          Inl Disconnected \<Rightarrow> Some (Stop (Inr HostDisconnected), con)
        | Inl e \<Rightarrow> Some (Stop (Inl e), record_violation (ri_elapsed (ti_request inp)) e con)
        | Inr request \<Rightarrow>
            (case handle_request (ti_send inp) (ti_finished inp) (ti_request inp) request con of
               None \<Rightarrow> None
             | Some r \<Rightarrow>
                 turn_then (turn_of r)
                   (\<lambda>con. turn_of (pump_all (ti_send inp) (ti_finished inp) (ti_between inp 2) (ti_signal inp 2) (ti_environment inp 5 con)))))"

definition turn_hangup :: "poll_events \<Rightarrow> supervisor_connection \<Rightarrow> (turn \<times> supervisor_connection) option" where
  "turn_hangup p con =
     Some (if pe_error p then (Stop (Inl (Malformed ''broker socket poll failed'')), con)
           else if pe_hangup p \<and> \<not> pe_in p then (Stop (Inr HostDisconnected), con)
           else (Again, con))"

definition serve_turn :: "turn_inputs \<Rightarrow> supervisor_connection \<Rightarrow> (turn \<times> supervisor_connection) option" where
  "serve_turn inp con =
     turn_then (turn_of (pump_all (ti_send inp) (ti_finished inp) (ti_between inp 0) (ti_signal inp 0) (ti_environment inp 0 con))) (\<lambda>con.
       case ti_poll inp of
         PollInterrupted \<Rightarrow> Some (Again, con)
       | PollFailed k \<Rightarrow> Some (Stop (Inl (transport_error_from k)), con)
       | Ready channel completion update resource \<Rightarrow>
           if signal_broken completion then Some (Stop (Inl (Malformed ''broker completion signal failed'')), con)
           else if signal_broken update then Some (Stop (Inl (Malformed ''broker policy update signal failed'')), con)
           else if signal_broken resource then Some (Stop (Inl (Malformed ''broker resource event signal failed'')), con)
           else
             turn_then (turn_policy inp update (ti_environment inp 1 con)) (\<lambda>con.
             turn_then (turn_completions inp completion (ti_environment inp 2 con)) (\<lambda>con.
             turn_then (turn_resources inp resource (ti_environment inp 3 con)) (\<lambda>con.
             turn_then (turn_channel inp channel (ti_environment inp 4 con)) (turn_hangup channel)))))"

text \<open>The loop, over the inputs of the turns it has made so far: \<open>Again\<close> says that it is still serving.\<close>

fun serve_loop :: "turn_inputs list \<Rightarrow> supervisor_connection \<Rightarrow> (turn \<times> supervisor_connection) option" where
  "serve_loop [] con = Some (if con_stopped con then Stop (Inr PolicyBlocked) else Again, con)"
| "serve_loop (inp # inps) con =
     (if con_stopped con then Some (Stop (Inr PolicyBlocked), con)
      else turn_then (serve_turn inp con) (serve_loop inps))"

end
