(* ===== verification/Connection_Correct.thy ===== *)
theory Connection_Correct
  imports Connection
begin

text \<open>
  Correctness of a connection while it is served. \<open>serves limits received con\<close> holds of the states a
  connection can be in between two actions of the supervisor thread, after the host messages
  \<open>received\<close>, with workers and backends taking steps at any point. The loop of the source is such a
  sequence of actions (\<open>serve_loop_serves\<close>).
\<close>

section \<open>Between two actions\<close>

fun answer_id :: "supervisor_message \<Rightarrow> nat list" where
  "answer_id (Response i r) = [i]"
| "answer_id (Capabilities i g states) = [i]"
| "answer_id _ = []"

definition answered :: "supervisor_connection \<Rightarrow> nat list" where
  "answered con = concat (map answer_id (con_sent con))"

definition granted_by :: "effective_policy \<Rightarrow> backend_request \<Rightarrow> bool" where
  "granted_by policy r \<longleftrightarrow>
     (\<exists>g\<in>set (ep_grants policy). eg_status g = Granted \<and> req_capability (eg_request g) = brq_capability r
        \<and> req_scope (eg_request g) = brq_authorized_scope r \<and> eg_bindings g = brq_bindings r)"

inductive env_step :: "supervisor_connection \<Rightarrow> supervisor_connection \<Rightarrow> bool" where
  env_worker: "worker_step (rt_executor (con_runtime con)) ex \<Longrightarrow>
    env_step con (con\<lparr>con_runtime := (con_runtime con)\<lparr>rt_executor := ex\<rparr>\<rparr>)"
| env_sink: "sink_step (rt_resources (con_runtime con)) rm \<Longrightarrow>
    env_step con (con\<lparr>con_runtime := (con_runtime con)\<lparr>rt_resources := rm\<rparr>\<rparr>)"

inductive serves :: "connection_limits \<Rightarrow> host_message list \<Rightarrow> supervisor_connection \<Rightarrow> bool" for limits where
  accepted: "connection_new peer uid identity policy limits = Inr con \<Longrightarrow> serves limits [] con"
| audit_file: "serves limits ms con \<Longrightarrow> serves limits ms (set_audit_file file con)"
| backend: "serves limits ms con \<Longrightarrow> serves limits ms (register_backend c con)"
| resource_backend: "serves limits ms con \<Longrightarrow> serves limits ms (register_resource_backend c f con)"
| environment: "serves limits ms con \<Longrightarrow> env_step con con' \<Longrightarrow> serves limits ms con'"
| pump: "serves limits ms con \<Longrightarrow> \<not> con_stopped con \<Longrightarrow>
    sinks_only between \<Longrightarrow>
    pump_all send finished between ok con = (Inr (), con') \<Longrightarrow> serves limits ms con'"
| completions: "serves limits ms con \<Longrightarrow> \<not> con_stopped con \<Longrightarrow>
    then_ok (con_pump_completions ok con) (flush_events send finished) = (Inr (), con') \<Longrightarrow> serves limits ms con'"
| resources: "serves limits ms con \<Longrightarrow> \<not> con_stopped con \<Longrightarrow> sinks_only between \<Longrightarrow>
    flush_events send finished (con_pump_resource_events between con) = (Inr (), con') \<Longrightarrow> serves limits ms con'"
| policy: "serves limits ms con \<Longrightarrow> \<not> con_stopped con \<Longrightarrow>
    replace_policy send finished p con = (Inr (), con') \<Longrightarrow> serves limits ms con'"
| request: "serves limits ms con \<Longrightarrow> \<not> con_stopped con \<Longrightarrow>
    handle_request send finished inp m con = Some (Inr (), con') \<Longrightarrow> serves limits (ms @ [m]) con'"

definition con_ok :: "connection_limits \<Rightarrow> supervisor_connection \<Rightarrow> bool" where
  "con_ok limits con \<longleftrightarrow>
     runtime_inv (cl_lifecycle limits) (con_runtime con)
   \<and> runtime_fits (xl_maximum_active_operations (cl_executor limits)) (cl_maximum_edge_events limits)
       (con_runtime con)
   \<and> con_limits con = limits
   \<and> (\<forall>r\<in>live_requests (con_runtime con). granted_by (con_policy con) r \<and> brq_identity r = con_identity con)
   \<and> (if con_stopped con then live_requests (con_runtime con) = {}
      else heq_edge_events (rt_events (con_runtime con)) = [])"

definition balanced :: "host_message list \<Rightarrow> supervisor_connection \<Rightarrow> bool" where
  "balanced received con \<longleftrightarrow>
     mset (map host_request_id received) = mset (answered con) + outstanding (con_runtime con)"

text \<open>The parts of a connection that only a policy update or a new request changes.\<close>

definition same_config :: "supervisor_connection \<Rightarrow> supervisor_connection \<Rightarrow> bool" where
  "same_config con con' \<longleftrightarrow>
     con_policy con' = con_policy con \<and> con_limits con' = con_limits con \<and> con_stopped con' = con_stopped con
   \<and> con_identity con' = con_identity con"

lemma con_send_answered:
  "fst (con_send send m con) = Inr () \<Longrightarrow> answered (snd (con_send send m con)) = answered con @ answer_id m"
  by (auto simp: con_send_def answered_def split: sum.splits)

lemma same_config_refl [simp]: "same_config con con"
  by (simp add: same_config_def)

lemma flush_effect:
  assumes "runtime_inv L (con_runtime con)" and "flush_events send finished con = (r, con')"
  shows "runtime_inv L (con_runtime con') \<and> live_requests (con_runtime con') = live_requests (con_runtime con)
    \<and> same_capacity (con_runtime con) (con_runtime con') \<and> same_config con con'
    \<and> (r = Inr () \<longrightarrow> queue_is_empty (rt_events (con_runtime con'))
        \<and> mset (answered con') + outstanding (con_runtime con') = mset (answered con) + outstanding (con_runtime con))"
  using assms
proof (induction send finished con arbitrary: r con' rule: flush_events.induct)
  case (1 send finished con)
  obtain e rt where pop: "pop_event (con_runtime con) = (e, rt)" by fastforce
  note effect = pop_effect [OF "1.prems"(1) pop]
  show ?case
  proof (cases e)
    case None
    then have "r = Inr ()" "con' = con\<lparr>con_runtime := rt\<rparr>" using "1.prems"(2) pop by auto
    then show ?thesis using effect None by (simp add: same_config_def answered_def)
  next
    case (Some ev)
    let ?con0 = "con\<lparr>con_runtime := rt\<rparr>"
    obtain ra con1 where audit: "audit_completion finished ev ?con0 = (ra, con1)" by fastforce
    have con1: "con_runtime con1 = rt" "same_config con con1" "con_sent con1 = con_sent con"
      using audit_completion_frame [of finished ev ?con0] unfolding audit by (simp_all add: same_config_def)
    show ?thesis
    proof (cases ra)
      case (Inl x)
      then have "r = Inl x" "con' = con1" using "1.prems"(2) pop Some audit by auto
      then show ?thesis using effect con1 by simp
    next
      case (Inr u)
      obtain rs con2 where send: "con_send send (into_message ev) con1 = (rs, con2)" by fastforce
      have con2: "con_runtime con2 = rt" "same_config con con2"
        using con_send_frame [of send "into_message ev" con1] con1 unfolding send by (simp_all add: same_config_def)
      show ?thesis
      proof (cases rs)
        case (Inl x)
        then have "r = Inl x" "con' = con2" using "1.prems"(2) pop Some audit Inr send by auto
        then show ?thesis using effect con2 by simp
      next
        case (Inr u')
        have ans: "mset (answered con2) = mset (answered con) + mset (answer_id (into_message ev))"
          using con_send_answered [of send "into_message ev" con1] send Inr con1(3) by (simp add: answered_def)
        have "outstanding (con_runtime con) = mset (answer_id (into_message ev)) + outstanding rt"
          using effect(4) by (cases ev) (simp_all add: Some)
        moreover have "flush_events send finished con2 = (r, con')"
          using "1.prems"(2) pop Some audit \<open>ra = Inr u\<close> send Inr by simp
        ultimately show ?thesis
          using "1.IH" [OF pop [symmetric] Some audit [symmetric] \<open>ra = Inr u\<close> send [symmetric] Inr, of r con'] effect
            ans con2 by (auto simp: same_config_def same_capacity_def)
      qed
    qed
  qed
qed

section \<open>Pumping\<close>

text \<open>What every action that keeps the policy does.\<close>

definition calm :: "connection_limits \<Rightarrow> supervisor_connection \<Rightarrow> supervisor_connection \<Rightarrow> bool" where
  "calm limits con con' \<longleftrightarrow>
     runtime_inv (cl_lifecycle limits) (con_runtime con')
   \<and> live_requests (con_runtime con') \<subseteq> live_requests (con_runtime con)
   \<and> same_capacity (con_runtime con) (con_runtime con') \<and> same_config con con'
   \<and> mset (answered con') + outstanding (con_runtime con') = mset (answered con) + outstanding (con_runtime con)"

lemma calm_refl: "runtime_inv (cl_lifecycle limits) (con_runtime con) \<Longrightarrow> calm limits con con"
  by (simp add: calm_def)

lemma calm_trans: "calm limits a b \<Longrightarrow> calm limits b c \<Longrightarrow> calm limits a c"
  by (auto simp: calm_def same_config_def same_capacity_def)

lemma calm_ok:
  assumes "con_ok limits con" and "calm limits con con'"
    and "\<not> con_stopped con \<Longrightarrow> heq_edge_events (rt_events (con_runtime con')) = []"
  shows "con_ok limits con'"
  using assms same_capacity_fits [of "con_runtime con" "con_runtime con'"]
  by (auto simp: con_ok_def calm_def same_config_def)

lemma calm_balanced: "balanced ms con \<Longrightarrow> calm limits con con' \<Longrightarrow> balanced ms con'"
  by (simp add: balanced_def calm_def)

lemma calm_step:
  assumes "con_ok limits con \<and> balanced ms con" and "calm limits con con'"
    and "rt_events (con_runtime con') = rt_events (con_runtime con)"
  shows "con_ok limits con' \<and> balanced ms con'"
proof
  show "con_ok limits con'" using assms by (intro calm_ok [of limits con con']) (simp_all add: con_ok_def)
  show "balanced ms con'" using assms calm_balanced by blast
qed

lemma flush_calm:
  assumes "runtime_inv (cl_lifecycle limits) (con_runtime con)" and "flush_events send finished con = (Inr (), con')"
  shows "calm limits con con' \<and> heq_edge_events (rt_events (con_runtime con')) = []"
  using flush_effect [OF assms] by (simp add: calm_def queue_is_empty_def)

lemma completions_calm:
  assumes ok: "con_ok limits con" and "\<not> con_stopped con" and "con_pump_completions sig con = (Inr (), con')"
  shows "calm limits con con'"
proof -
  let ?rt = "con_runtime con"
  obtain n rt where loop: "pump_loop (con_generation con) 0 ?rt = (n, rt)" by fastforce
  have con': "con' = con\<lparr>con_runtime := rt\<rparr>"
    using assms(3) loop by (auto simp: con_pump_completions_def pump_completions_def split: if_splits)
  have inv: "runtime_inv (cl_lifecycle limits) ?rt" using ok by (simp add: con_ok_def)
  have "length (ex_active (rt_executor ?rt)) \<le> ex_maximum_active_operations (rt_executor ?rt)"
    using runtime_invD(1) [OF inv] by (simp add: exec_inv_def)
  then have "length (heq_edge_events (rt_events ?rt)) + length (ex_active (rt_executor ?rt))
      \<le> heq_maximum_edge_events (rt_events ?rt)"
    using ok assms(2) by (simp add: con_ok_def runtime_fits_def)
  from pump_loop_effect [OF inv loop this] show ?thesis
    by (simp add: con' calm_def same_config_def answered_def)
qed

lemma resources_calm:
  assumes "runtime_inv (cl_lifecycle limits) (con_runtime con)" and "sinks_only between"
  shows "calm limits con (con_pump_resource_events between con)"
  using pump_resources_effect [OF assms, of "con_generation con"]
  by (simp add: con_pump_resource_events_def calm_def same_config_def answered_def)

lemma then_ok_Inr: "then_ok r f = (Inr (), c) \<longleftrightarrow> (\<exists>c0. r = (Inr (), c0) \<and> f c0 = (Inr (), c))"
  by (cases r; cases "fst r") (auto simp: then_ok_def)

text \<open>Each kind of pump leaves a calm connection whose edge events have been sent.\<close>

lemma pump_then_flush:
  assumes "con_ok limits con" and "calm limits con con1" and "flush_events send finished con1 = (Inr (), con')"
  shows "con_ok limits con' \<and> calm limits con con'"
proof -
  have "runtime_inv (cl_lifecycle limits) (con_runtime con1)" using assms(2) by (simp add: calm_def)
  from flush_calm [OF this assms(3)] have *: "calm limits con1 con'" "heq_edge_events (rt_events (con_runtime con')) = []"
    by simp_all
  then show ?thesis using calm_ok [OF assms(1)] calm_trans [OF assms(2)] by blast
qed

lemma pump_all_calm:
  assumes "con_ok limits con" and "\<not> con_stopped con" and "pump_all send finished between sig con = (Inr (), con')"
    and "sinks_only between"
  shows "con_ok limits con' \<and> calm limits con con'"
proof -
  obtain con0 where pump: "con_pump_completions sig con = (Inr (), con0)"
    and flush: "flush_events send finished (con_pump_resource_events between con0) = (Inr (), con')"
    using assms(3) by (auto simp: pump_all_def then_ok_Inr)
  have calm: "calm limits con con0" by (rule completions_calm [OF assms(1,2) pump])
  then have "calm limits con0 (con_pump_resource_events between con0)"
    using assms(4) by (intro resources_calm) (simp_all add: calm_def)
  from pump_then_flush [OF assms(1) calm_trans [OF calm this] flush] show ?thesis .
qed

lemma env_calm:
  assumes "env_step con con'" and "con_ok limits con"
  shows "calm limits con con'" and "rt_events (con_runtime con') = rt_events (con_runtime con)"
proof -
  have inv: "runtime_inv (cl_lifecycle limits) (con_runtime con)" using assms(2) by (simp add: con_ok_def)
  show "calm limits con con'"
    using assms(1)
  proof (cases rule: env_step.cases)
    case (env_worker ex)
    then show ?thesis
      using runtime_inv_worker [OF inv env_worker(2)] worker_effect [OF env_worker(2)]
      by (simp add: calm_def same_config_def answered_def)
  next
    case (env_sink rm)
    then show ?thesis
      using runtime_inv_sink [OF inv env_sink(2)] sink_effect [OF env_sink(2)]
      by (simp add: calm_def same_config_def answered_def)
  qed
  show "rt_events (con_runtime con') = rt_events (con_runtime con)"
    using assms(1) by (cases rule: env_step.cases) simp_all
qed

section \<open>Policy updates\<close>

lemma revoke_each_effect:
  assumes "runtime_inv L rt"
  shows "runtime_inv L (revoke_each g cs rt) \<and> outstanding (revoke_each g cs rt) = outstanding rt
    \<and> live_requests (revoke_each g cs rt) \<subseteq> {r \<in> live_requests rt. brq_capability r \<notin> set cs}
    \<and> same_capacity rt (revoke_each g cs rt)"
  using assms
proof (induction cs arbitrary: rt)
  case (Cons c cs)
  let ?rt = "snd (runtime_revoke c g rt)"
  have "revoke_each g (c # cs) rt = revoke_each g cs ?rt" by (simp add: revoke_each_def)
  then show ?case
    using Cons.IH [OF runtime_inv_revoke(1) [OF Cons.prems, of c g]] revoke_effect [OF Cons.prems, of c g]
    by (auto simp: same_capacity_def)
qed (simp add: revoke_each_def)

lemma push_states_frame:
  assumes "queue_inv q"
  shows "queue_inv (snd (push_states g old cs new q))"
    and "heq_edge_events (snd (push_states g old cs new q)) = heq_edge_events q"
    and "heq_maximum_edge_events (snd (push_states g old cs new q)) = heq_maximum_edge_events q"
proof -
  have "queue_inv (snd (push_states g old cs new q))
    \<and> heq_edge_events (snd (push_states g old cs new q)) = heq_edge_events q
    \<and> heq_maximum_edge_events (snd (push_states g old cs new q)) = heq_maximum_edge_events q"
    using assms
  proof (induction new arbitrary: q)
    case (Cons st new)
    obtain r q' where push: "push_capability g st q = (r, q')" by fastforce
    have "queue_inv q'" using queue_inv_push_capability [OF Cons.prems, of g st] push by simp
    moreover have "heq_edge_events q' = heq_edge_events q" "heq_maximum_edge_events q' = heq_maximum_edge_events q"
      using push by (auto simp: push_capability_def split: if_splits)
    ultimately show ?case using Cons.IH [of q] Cons.IH [of q'] Cons.prems by (simp add: push split: sum.splits)
  qed simp
  then show "queue_inv (snd (push_states g old cs new q))"
    "heq_edge_events (snd (push_states g old cs new q)) = heq_edge_events q"
    "heq_maximum_edge_events (snd (push_states g old cs new q)) = heq_maximum_edge_events q" by simp_all
qed

text \<open>A request granted by the old policy is granted by the new one, or its capability is revoked.\<close>

lemma granted_or_revoked:
  assumes "granted_by old r"
  shows "granted_by new r \<or> brq_capability r \<in> set (revoked_capabilities old new)"
proof -
  obtain g where g: "g \<in> set (ep_grants old)" "eg_status g = Granted" "req_capability (eg_request g) = brq_capability r"
    "req_scope (eg_request g) = brq_authorized_scope r" "eg_bindings g = brq_bindings r"
    using assms by (auto simp: granted_by_def)
  show ?thesis
  proof (cases "list_ex (same_grant g) (ep_grants new)")
    case True
    then show ?thesis using g(3-5) by (auto simp: list_ex_iff same_grant_def granted_by_def)
  next
    case False
    then have "brq_capability r \<in> set (revoked_capabilities old new)"
      using g(1-3) by (force simp: revoked_capabilities_def)
    then show ?thesis by simp
  qed
qed

lemma replace_policy_effect:
  assumes ok: "con_ok limits con" and "\<not> con_stopped con"
    and eq: "replace_policy send finished policy con = (Inr (), con')"
  shows "con_ok limits con'" and "balanced ms con \<Longrightarrow> balanced ms con'" and "con_policy con' = policy"
proof -
  let ?g = "saturating_add (con_generation con) 1" and ?rev = "revoked_capabilities (con_policy con) policy"
  let ?rt = "revoke_each ?g ?rev (con_runtime con)"
  let ?con1 = "con\<lparr>con_runtime := ?rt, con_policy := policy, con_generation := ?g\<rparr>"
  have inv: "runtime_inv (cl_lifecycle limits) (con_runtime con)" using ok by (simp add: con_ok_def)
  note rev = revoke_each_effect [OF inv, of ?g ?rev]
  have fits: "runtime_fits (xl_maximum_active_operations (cl_executor limits)) (cl_maximum_edge_events limits) ?rt" using ok rev same_capacity_fits by (auto simp: con_ok_def)
  have grants: "granted_by policy r \<and> brq_identity r = con_identity con" if "r \<in> live_requests ?rt" for r
    using that rev ok granted_or_revoked [of "con_policy con" r policy] by (auto simp: con_ok_def)
  show "con_ok limits con'" "balanced ms con \<Longrightarrow> balanced ms con'" "con_policy con' = policy"
  proof (atomize (full), cases "ep_blocked policy")
    case True
    let ?con2 = "?con1\<lparr>con_runtime := snd (runtime_revoke_all ?rt),
      con_activations := ledger_clear (con_activations con), con_stopped := True\<rparr>"
    have send: "con_send send (Shutdown ?g Denied) ?con2 = (Inr (), con')"
      using eq True by (simp add: replace_policy_def Let_def)
    note frame = con_send_frame [of send "Shutdown ?g Denied" ?con2, unfolded send snd_conv]
    have "mset (answered con') = mset (answered con)"
      using con_send_answered [of send "Shutdown ?g Denied" ?con2] send by (simp add: answered_def)
    then show "con_ok limits con' \<and> (balanced ms con \<longrightarrow> balanced ms con') \<and> con_policy con' = policy"
      using frame revoke_all_effect [of "cl_lifecycle limits" ?rt] rev ok fits
        same_capacity_fits [of ?rt "snd (runtime_revoke_all ?rt)"]
      by (simp add: con_ok_def balanced_def)
  next
    case False
    obtain r q where push: "push_states ?g (capability_states (con_policy con)) ?rev (capability_states policy) (rt_events ?rt) = (r, q)"
      by fastforce
    let ?con2 = "?con1\<lparr>con_runtime := ?rt\<lparr>rt_events := q\<rparr>\<rparr>"
    have flush: "flush_events send finished ?con2 = (Inr (), con')"
      using eq False push by (cases r) (auto simp: replace_policy_def Let_def)
    have "queue_inv (rt_events ?rt)" using rev runtime_invD(3) by blast
    note frame = push_states_frame [OF this, of ?g "capability_states (con_policy con)" ?rev "capability_states policy",
        unfolded push snd_conv]
    have inv2: "runtime_inv (cl_lifecycle limits) (con_runtime ?con2)"
      using rev frame(1) by (simp add: runtime_inv_def)
    have live2: "live_requests (con_runtime ?con2) = live_requests ?rt"
      and out2: "outstanding (con_runtime ?con2) = outstanding (con_runtime con)"
      and fits2: "runtime_fits (xl_maximum_active_operations (cl_executor limits)) (cl_maximum_edge_events limits) (con_runtime ?con2)"
      using rev fits frame by (simp_all add: live_requests_def outstanding_def completion_ids_def runtime_fits_def)
    have *: "calm limits ?con2 con'" "heq_edge_events (rt_events (con_runtime con')) = []"
      using flush_calm [OF inv2 flush] by simp_all
    then have "con_ok limits con'"
      using fits2 same_capacity_fits [of "con_runtime ?con2" "con_runtime con'"] grants live2 ok assms(2)
      unfolding calm_def same_config_def con_ok_def by auto
    moreover have "balanced ms con \<Longrightarrow> balanced ms con'"
      using * out2 by (simp add: calm_def balanced_def answered_def)
    ultimately show "con_ok limits con' \<and> (balanced ms con \<longrightarrow> balanced ms con') \<and> con_policy con' = policy"
      using * by (simp add: calm_def same_config_def)
  qed
qed

section \<open>Requests\<close>

lemma authorize_request_grant:
  assumes "authorize_request policy phase capability operation = Inr (c, scope, bindings)"
  shows "phase \<noteq> PhItems \<and> phase \<noteq> PhRender \<and> capability_to_string c = capability
    \<and> (\<exists>g\<in>set (ep_grants policy). eg_status g = Granted \<and> req_capability (eg_request g) = c
        \<and> req_scope (eg_request g) = scope \<and> eg_bindings g = bindings)"
  using assms
  by (auto simp: authorize_request_def capability_from_str_to_string find_Some_iff
      split: if_splits sum.splits option.splits capability_status.splits dest!: find_SomeD)

lemma dispatch_effect:
  assumes inv: "runtime_inv (cl_lifecycle limits) (con_runtime con)"
    and eq: "dispatch_request inp request con = (r, con')"
  shows "runtime_inv (cl_lifecycle limits) (con_runtime con')"
    and "same_capacity (con_runtime con) (con_runtime con')" and "same_config con con'"
    and "rt_events (con_runtime con') = rt_events (con_runtime con)" and "con_sent con' = con_sent con"
    and "live_requests (con_runtime con') \<subseteq> insert request (live_requests (con_runtime con))"
    and "outstanding (con_runtime con') =
      (if r = Inr None then {#brq_request_id request#} else {#}) + outstanding (con_runtime con)"
    and "r = Inl e \<Longrightarrow> live_requests (con_runtime con') = live_requests (con_runtime con)"
proof -
  let ?rt = "con_runtime con" and ?rt' = "con_runtime con'"
  define good where "good \<longleftrightarrow> runtime_inv (cl_lifecycle limits) ?rt' \<and> same_capacity ?rt ?rt' \<and> same_config con con'
    \<and> rt_events ?rt' = rt_events ?rt \<and> con_sent con' = con_sent con
    \<and> live_requests ?rt' \<subseteq> insert request (live_requests ?rt)
    \<and> outstanding ?rt' = (if r = Inr None then {#brq_request_id request#} else {#}) + outstanding ?rt
    \<and> ((\<exists>e. r = Inl e) \<longrightarrow> live_requests ?rt' = live_requests ?rt)"
  have good
  proof (cases "ri_monotonic_micros inp")
    case None
    then have "con' = con" "r = Inl Internal" using eq by (simp_all add: dispatch_request_def)
    then show ?thesis using inv by (auto simp: good_def)
  next
    case (Some now)
    show ?thesis
    proof (cases "runtime_resource_limits ?rt request = None")
      case False
      obtain ro l rt where op: "open_resource (ri_authorize inp request now) (ri_opened inp request) (ri_instant inp)
          request (con_activations con) ?rt = (ro, l, rt)" by (metis surj_pair)
      note effect = open_effect [OF op inv] and frame = open_effect_frame [OF open_effect(2,3) [OF op inv]]
      have con': "con' = con\<lparr>con_activations := l, con_runtime := rt\<rparr>"
        and r: "r = (case ro of Inl e \<Rightarrow> Inl e | Inr x \<Rightarrow> Inr (Some (snd x)))"
        using eq Some False op by (auto simp: dispatch_request_def Let_def split: sum.splits)
      show ?thesis using effect frame r by (cases ro) (auto simp: good_def con' same_config_def)
    next
      case True
      obtain ro l rt where sub: "runtime_submit (ri_authorize inp request now) request (ri_instant inp)
          (cl_backend_timeout (con_limits con)) (saturating_add (duration_micros (ri_elapsed inp))
            (duration_micros (cl_backend_timeout (con_limits con)))) (con_activations con) ?rt = (ro, l, rt)"
        by (metis surj_pair)
      note effect = submit_effect [OF sub inv]
      have inv': "runtime_inv (cl_lifecycle limits) rt" using runtime_inv_submit [OF inv] sub by (metis snd_conv)
      have con': "con' = con\<lparr>con_activations := l, con_runtime := rt\<rparr>"
        and r: "r = (case ro of Inl e \<Rightarrow> Inl e | Inr x \<Rightarrow> Inr None)"
        using eq Some True sub by (auto simp: dispatch_request_def Let_def split: sum.splits)
      show ?thesis using effect inv' r by (cases ro) (auto simp: good_def con' same_config_def)
    qed
  qed
  then show "runtime_inv (cl_lifecycle limits) ?rt'" "same_capacity ?rt ?rt'" "same_config con con'"
    "rt_events ?rt' = rt_events ?rt" "con_sent con' = con_sent con"
    "live_requests ?rt' \<subseteq> insert request (live_requests ?rt)"
    "outstanding ?rt' = (if r = Inr None then {#brq_request_id request#} else {#}) + outstanding ?rt"
    "r = Inl e \<Longrightarrow> live_requests ?rt' = live_requests ?rt"
    by (auto simp: good_def)
qed

text \<open>What handling a request does: \<open>i\<close> is answered or becomes outstanding, and only a granted request
  becomes live.\<close>

definition progress :: "connection_limits \<Rightarrow> nat list \<Rightarrow> supervisor_connection \<Rightarrow> supervisor_connection \<Rightarrow> bool" where
  "progress limits ids con con' \<longleftrightarrow>
     runtime_inv (cl_lifecycle limits) (con_runtime con')
   \<and> same_capacity (con_runtime con) (con_runtime con') \<and> same_config con con'
   \<and> rt_events (con_runtime con') = rt_events (con_runtime con)
   \<and> (\<forall>r\<in>live_requests (con_runtime con') - live_requests (con_runtime con).
        granted_by (con_policy con) r \<and> brq_identity r = con_identity con)
   \<and> mset (answered con') + outstanding (con_runtime con') =
        mset ids + (mset (answered con) + outstanding (con_runtime con))"

lemma progress_ok: "con_ok limits con \<Longrightarrow> \<not> con_stopped con \<Longrightarrow> progress limits ids con con' \<Longrightarrow> con_ok limits con'"
  using same_capacity_fits [of "con_runtime con" "con_runtime con'"]
  by (auto simp: con_ok_def progress_def same_config_def)

lemma start_progress:
  assumes inv: "runtime_inv (cl_lifecycle limits) (con_runtime con)"
    and eq: "start_request inp i phase capability operation payload activation con = (r, con')"
  shows "progress limits (if r = Inr None then [i] else []) con con'" and "con_sent con' = con_sent con"
    and "r = Inl e \<Longrightarrow> live_requests (con_runtime con') = live_requests (con_runtime con)"
proof -
  let ?auth = "rbind (authorize_request (con_policy con) phase capability operation) (\<lambda>authorized.
    rmap (\<lambda>_. authorized) (validate_activation_envelope (con_limits con) phase activation (ri_envelope_micros inp)))"
  have "progress limits (if r = Inr None then [i] else []) con con' \<and> con_sent con' = con_sent con
    \<and> (r = Inl e \<longrightarrow> live_requests (con_runtime con') = live_requests (con_runtime con))"
  proof (cases ?auth)
    case (Inl x)
    then have "r = Inl x" "con' = con" using eq by (simp_all add: start_request_def)
    then show ?thesis using inv by (simp add: progress_def)
  next
    case (Inr a)
    then obtain c scope bindings where a: "a = (c, scope, bindings)"
      and auth: "authorize_request (con_policy con) phase capability operation = Inr (c, scope, bindings)"
      by (cases a) (auto simp: rbind_def rmap_def split: sum.splits)
    let ?req = "\<lparr>brq_identity = con_identity con, brq_request_id = i, brq_capability = c,
             brq_authorized_scope = scope, brq_bindings = bindings, brq_activation = activation,
             brq_operation = operation, brq_payload = payload\<rparr>"
    have disp: "dispatch_request inp ?req con = (r, con')" using eq Inr a by (simp add: start_request_def)
    have "granted_by (con_policy con) ?req"
      using authorize_request_grant [OF auth] by (simp add: granted_by_def)
    then show ?thesis
      using dispatch_effect [OF inv disp] by (auto simp: progress_def answered_def)
  qed
  then show "progress limits (if r = Inr None then [i] else []) con con'" "con_sent con' = con_sent con"
    "r = Inl e \<Longrightarrow> live_requests (con_runtime con') = live_requests (con_runtime con)" by blast+
qed

lemma progress_answer:
  assumes "progress limits [] con con1" and "con_send send m con1 = (Inr (), con')" and "answer_id m = [i]"
  shows "progress limits [i] con con'"
  using assms con_send_frame [of send m con1] con_send_answered [of send m con1]
  by (simp add: progress_def same_config_def)

lemma progress_frame:
  assumes "progress limits ids con con1" and "con_runtime con2 = con_runtime con1" and "same_config con1 con2"
    and "con_sent con2 = con_sent con1"
  shows "progress limits ids con con2"
  using assms by (simp add: progress_def same_config_def answered_def)

lemma push_audit_config: "same_config con (snd (push_audit f a d e n con))"
  by (simp add: same_config_def)

lemma broker_request_progress:
  assumes inv: "runtime_inv (cl_lifecycle limits) (con_runtime con)"
    and eq: "handle_broker_request send finished inp i phase capability operation payload activation con = (Inr (), con')"
  shows "progress limits [i] con con'"
proof -
  obtain r con1 where start: "start_request inp i phase capability operation payload activation con = (r, con1)"
    by fastforce
  note p = start_progress [OF inv start]
  have audited: "progress limits [] con con2"
    if "r \<noteq> Inr None" "push_audit finished a d e n con1 = (Inr (), con2)" for a d e n con2
    using p that push_audit_frame [of finished a d e n con1] push_audit_config [of con1 finished a d e n]
      progress_frame [of limits "[]" con con1 con2] by simp
  show ?thesis
  proof (cases "r = Inr None")
    case True
    then show ?thesis
      using eq start p(1) progress_frame [of limits "[i]" con con1 con']
      by (auto simp: handle_broker_request_def same_config_def)
  next
    case False
    then obtain a d e n con2 m where "push_audit finished a d e n con1 = (Inr (), con2)"
      "con_send send m con2 = (Inr (), con')" "answer_id m = [i]"
      using eq start
      by (auto simp: handle_broker_request_def Let_def split: sum.splits option.splits prod.splits)
    then show ?thesis using audited [OF False] progress_answer by blast
  qed
qed

lemma handle_request_progress:
  assumes ok: "con_ok limits con" and eq: "handle_request send finished inp m con = Some (Inr (), con')"
  shows "progress limits [host_request_id m] con con'"
proof -
  have inv: "runtime_inv (cl_lifecycle limits) (con_runtime con)" using ok by (simp add: con_ok_def)
  let ?con1 = "con\<lparr>con_last_request_id := host_request_id m\<rparr>"
  have base: "progress limits [] con con" "progress limits [] con ?con1"
    using inv by (simp_all add: progress_def same_config_def answered_def)
  have base': "progress limits ids con c" if "progress limits ids ?con1 c" for ids c
    using that by (simp add: progress_def same_config_def answered_def)
  show ?thesis
  proof (cases "host_request_id m = 0 \<or> host_request_id m \<le> con_last_request_id con")
    case True
    let ?h = "con\<lparr>con_health := snd (health_record ProtocolViolation (elapsed_millis (ri_elapsed inp)) (con_health con))\<rparr>"
    have "progress limits [] con ?h" using base(1) by (simp add: progress_def same_config_def answered_def)
    then show ?thesis
      using progress_answer eq True by (fastforce simp: handle_request_def)
  next
    case False
    show ?thesis
    proof (cases m)
      case (GetCapabilities i)
      then show ?thesis
        using eq False progress_answer [OF base(2)] by (fastforce simp: handle_request_def Let_def)
    next
      case (Request i phase capability operation payload activation)
      then have "handle_broker_request send finished inp i phase capability operation payload activation ?con1 = (Inr (), con')"
        using eq False by (simp add: handle_request_def Let_def)
      from broker_request_progress [OF _ this, of limits] show ?thesis using inv base' Request by simp
    next
      case (Cancel i target)
      let ?con2 = "?con1\<lparr>con_runtime := snd (runtime_cancel target (con_runtime con))\<rparr>"
      have "progress limits [] con ?con2"
        using runtime_inv_cancel [OF inv, of target] cancel_effect [where i = target and rt = "con_runtime con"]
        by (auto simp: progress_def same_config_def answered_def)
      then show ?thesis
        using eq False Cancel progress_answer [of limits con ?con2]
        by (cases "runtime_cancel target (con_runtime con)") (force simp: handle_request_def Let_def)
    next
      case (Close i resource_id)
      obtain found rt where close: "runtime_close_resource resource_id (con_runtime con) = Some (found, rt)"
        "runtime_inv (cl_lifecycle limits) rt" "outstanding rt = outstanding (con_runtime con)"
        "live_requests rt \<subseteq> live_requests (con_runtime con)" "same_capacity (con_runtime con) rt"
        "rt_events rt = rt_events (con_runtime con)"
        using close_effect [OF inv] .
      then have "progress limits [] con (?con1\<lparr>con_runtime := rt\<rparr>)"
        by (auto simp: progress_def same_config_def answered_def)
      then show ?thesis
        using eq False Close close(1) progress_answer [of limits con "?con1\<lparr>con_runtime := rt\<rparr>"]
        by (force simp: handle_request_def Let_def)
    qed
  qed
qed

section \<open>Served connections\<close>

lemma connection_new_ok:
  assumes "connection_new peer uid identity policy limits = Inr con"
  shows "con_ok limits con" and "balanced [] con"
proof -
  obtain rt where rt: "runtime_new (cl_executor limits) (cl_lifecycle limits) (cl_maximum_state_events limits)
      (cl_maximum_edge_events limits) = Inr rt"
    and con: "con_runtime con = rt" "con_limits con = limits" "con_stopped con = False" "con_sent con = []"
    and fits: "xl_maximum_active_operations (cl_executor limits) \<le> cl_maximum_edge_events limits"
    using assms by (auto simp: connection_new_def rbind_def split: if_splits sum.splits)
  have start: "ex_maximum_active_operations (rt_executor rt) = xl_maximum_active_operations (cl_executor limits)"
    "ex_active (rt_executor rt) = []" "live_jobs (rt_executor rt) = []" "handles (rt_resources rt) = Map.empty"
    "rt_events rt = queue_new (cl_maximum_state_events limits) (cl_maximum_edge_events limits)"
    using rt manager_new_ok
    by (auto simp: runtime_new_def rbind_def executor_new_def live_jobs_def split: sum.splits if_splits)
  then have live: "live_requests rt = {}" and out: "outstanding rt = {#}"
    by (auto simp: live_requests_def outstanding_def completion_ids_def queue_new_def bt_keys_def)
  show "con_ok limits con"
    using runtime_inv_new [OF rt] live start fits by (simp add: con_ok_def con runtime_fits_def queue_new_def)
  show "balanced [] con" using out by (simp add: balanced_def con answered_def)
qed

lemma serves_ok: "serves limits ms con \<Longrightarrow> con_ok limits con \<and> balanced ms con"
proof (induction rule: serves.induct)
  case (accepted peer uid identity policy con)
  then show ?case using connection_new_ok by blast
next
  case (audit_file ms con f)
  then show ?case by (simp add: set_audit_file_def con_ok_def balanced_def answered_def)
next
  case (backend ms con c)
  then have "calm limits con (register_backend c con)"
    using runtime_inv_register [of "cl_lifecycle limits" "con_runtime con" c]
    by (simp add: register_backend_def con_ok_def calm_def same_config_def answered_def register_effect)
  from calm_step [OF backend.IH this] show ?case by (simp add: register_backend_def register_effect)
next
  case (resource_backend ms con c f)
  then have "calm limits con (register_resource_backend c f con)"
    using runtime_inv_register_resource [of "cl_lifecycle limits" "con_runtime con" c f]
    by (simp add: register_resource_backend_def con_ok_def calm_def same_config_def answered_def
        register_resource_effect)
  from calm_step [OF resource_backend.IH this] show ?case
    by (simp add: register_resource_backend_def register_resource_effect)
next
  case (environment ms con con')
  then show ?case using env_calm [OF environment(2), of limits] by (intro calm_step [OF environment.IH]) simp_all
next
  case (pump ms con between send finished sig con')
  then show ?case using pump_all_calm calm_balanced by blast
next
  case (completions ms con sig send finished con')
  then obtain con0 where "con_pump_completions sig con = (Inr (), con0)" "flush_events send finished con0 = (Inr (), con')"
    by (auto simp: then_ok_Inr)
  then show ?case using completions completions_calm pump_then_flush calm_balanced by blast
next
  case (resources ms con between send finished con')
  then have "calm limits con (con_pump_resource_events between con)" by (intro resources_calm) (simp_all add: con_ok_def)
  then show ?case using resources pump_then_flush calm_balanced by blast
next
  case (policy ms con send finished p con')
  then show ?case using replace_policy_effect by blast
next
  case (request ms con send finished inp m con')
  then have p: "progress limits [host_request_id m] con con'" by (intro handle_request_progress) simp_all
  then show ?case
    using request progress_ok [OF _ _ p] by (simp add: balanced_def progress_def)
qed

section \<open>The loop makes served steps\<close>

lemma env_steps_serve: "env_step\<^sup>*\<^sup>* con con' \<Longrightarrow> serves limits ms con \<Longrightarrow> serves limits ms con'"
  by (induction rule: rtranclp_induct) (auto intro: serves.environment)

lemma env_steps_stopped: "env_step\<^sup>*\<^sup>* con con' \<Longrightarrow> con_stopped con' = con_stopped con"
proof (induction rule: rtranclp_induct)
  case (step c c')
  from step(2) show ?case using step(3) by (cases rule: env_step.cases) simp_all
qed simp

definition env_ok :: "turn_inputs \<Rightarrow> bool" where
  "env_ok inp \<longleftrightarrow> (\<forall>k con. env_step\<^sup>*\<^sup>* con (ti_environment inp k con)) \<and> (\<forall>k. sinks_only (ti_between inp k))"

text \<open>\<open>running limits ms con\<close>: a state in which the loop continues, with some more messages received.\<close>

definition running :: "connection_limits \<Rightarrow> host_message list \<Rightarrow> supervisor_connection \<Rightarrow> bool" where
  "running limits ms con \<longleftrightarrow> \<not> con_stopped con \<and> (\<exists>more. serves limits (ms @ more) con)"

lemma running_env: "env_ok inp \<Longrightarrow> running limits ms con \<Longrightarrow> running limits ms (ti_environment inp k con)"
  using env_steps_serve env_steps_stopped unfolding env_ok_def running_def by metis

lemma running_ok: "running limits ms con \<Longrightarrow> con_ok limits con \<and> \<not> con_stopped con"
  using serves_ok by (auto simp: running_def)

lemma calm_running:
  "running limits ms con \<Longrightarrow> (\<And>more. serves limits (ms @ more) con \<Longrightarrow> serves limits (ms @ more) con')
   \<Longrightarrow> con_stopped con' = con_stopped con \<Longrightarrow> running limits ms con'"
  by (auto simp: running_def)

lemma calm_stopped: "calm limits con con' \<Longrightarrow> con_stopped con' = con_stopped con"
  by (simp add: calm_def same_config_def)

lemma running_pump:
  assumes "running limits ms con" and "pump_all send finished between sig con = (Inr (), con')" and "sinks_only between"
  shows "running limits ms con'"
  using assms running_ok [OF assms(1)] pump_all_calm [OF _ _ assms(2,3)] calm_stopped
  by (intro calm_running [OF assms(1)]) (auto intro: serves.pump)

lemma turn_of_Again: "turn_of r = Some (Again, c) \<longleftrightarrow> r = (Inr (), c)"
  by (cases r; cases "fst r") (auto simp: turn_of_def)

lemma turn_then_Again: "turn_then t f = Some (Again, c) \<longleftrightarrow> (\<exists>c0. t = Some (Again, c0) \<and> f c0 = Some (Again, c))"
  by (auto simp: turn_then_def split: option.splits prod.splits turn.splits)

lemma turn_policy_running:
  assumes "running limits ms con" and "turn_policy inp p con = Some (Again, con')"
  shows "running limits ms con'"
proof (cases "con' = con")
  case False
  then obtain policy where "replace_policy (ti_send inp) (ti_finished inp) policy con = (Inr (), con')" "\<not> con_stopped con'"
    using assms(2) by (auto simp: turn_policy_def turn_then_Again turn_of_Again split: if_splits option.splits sum.splits)
  then show ?thesis using assms(1) by (auto simp: running_def intro: serves.policy)
qed (use assms in simp)

lemma turn_completions_running:
  assumes "running limits ms con" and "turn_completions inp p con = Some (Again, con')"
  shows "running limits ms con'"
proof (cases "pe_in p")
  case True
  then have step: "then_ok (con_pump_completions (ti_signal inp 1) con) (flush_events (ti_send inp) (ti_finished inp)) = (Inr (), con')"
    using assms(2) by (simp add: turn_completions_def turn_of_Again)
  then obtain con0 where "con_pump_completions (ti_signal inp 1) con = (Inr (), con0)"
    "flush_events (ti_send inp) (ti_finished inp) con0 = (Inr (), con')" by (auto simp: then_ok_Inr)
  then have "calm limits con con'" using running_ok [OF assms(1)] completions_calm pump_then_flush by blast
  then show ?thesis
    using assms(1) step by (intro calm_running [OF assms(1)]) (auto simp: running_def calm_stopped intro: serves.completions)
qed (use assms in \<open>simp add: turn_completions_def\<close>)

lemma turn_resources_running:
  assumes "running limits ms con" and "turn_resources inp p con = Some (Again, con')" and "env_ok inp"
  shows "running limits ms con'"
proof (cases "pe_in p")
  case True
  then have step: "flush_events (ti_send inp) (ti_finished inp) (con_pump_resource_events (ti_between inp 1) con) = (Inr (), con')"
    using assms(2) by (simp add: turn_resources_def turn_of_Again)
  have between: "sinks_only (ti_between inp 1)" using assms(3) by (simp add: env_ok_def)
  have ok: "con_ok limits con" using running_ok [OF assms(1)] by simp
  then have "calm limits con (con_pump_resource_events (ti_between inp 1) con)"
    using between by (intro resources_calm) (simp_all add: con_ok_def)
  from pump_then_flush [OF ok this step] have "calm limits con con'" by simp
  then show ?thesis
    using assms(1) step between
    by (intro calm_running [OF assms(1)]) (auto simp: running_def calm_stopped intro: serves.resources)
qed (use assms in \<open>simp add: turn_resources_def\<close>)

lemma turn_channel_running:
  assumes "env_ok inp" and "running limits ms con" and "turn_channel inp p con = Some (Again, con')"
  shows "running limits ms con'"
proof (cases "pe_in p")
  case True
  then obtain m con0 where step: "handle_request (ti_send inp) (ti_finished inp) (ti_request inp) m con = Some (Inr (), con0)"
    and pump: "pump_all (ti_send inp) (ti_finished inp) (ti_between inp 2) (ti_signal inp 2) (ti_environment inp 5 con0) = (Inr (), con')"
    using assms(3) by (auto simp: turn_channel_def turn_then_Again turn_of_Again
        split: sum.splits option.splits transport_error.splits)
  have "progress limits [host_request_id m] con con0"
    using running_ok [OF assms(2)] by (intro handle_request_progress [OF _ step]) simp
  then have "con_stopped con0 = con_stopped con" by (simp add: progress_def same_config_def)
  then have "running limits ms con0"
    using assms(2) serves.request [OF _ _ step] by (fastforce simp: running_def)
  then show ?thesis using running_pump [OF running_env [OF assms(1)] pump] assms(1) by (simp add: env_ok_def)
qed (use assms in \<open>simp add: turn_channel_def\<close>)

lemma serve_turn_running:
  assumes env: "env_ok inp" and run: "running limits ms con" and eq: "serve_turn inp con = Some (Again, con')"
  shows "running limits ms con'"
proof -
  note step = running_env [OF env]
  obtain con0 where pump: "pump_all (ti_send inp) (ti_finished inp) (ti_between inp 0) (ti_signal inp 0) (ti_environment inp 0 con) = (Inr (), con0)"
    and rest: "(case ti_poll inp of
         PollInterrupted \<Rightarrow> Some (Again, con0)
       | PollFailed k \<Rightarrow> Some (Stop (Inl (transport_error_from k)), con0)
       | Ready channel completion update resource \<Rightarrow>
           if signal_broken completion then Some (Stop (Inl (Malformed ''broker completion signal failed'')), con0)
           else if signal_broken update then Some (Stop (Inl (Malformed ''broker policy update signal failed'')), con0)
           else if signal_broken resource then Some (Stop (Inl (Malformed ''broker resource event signal failed'')), con0)
           else
             turn_then (turn_policy inp update (ti_environment inp 1 con0)) (\<lambda>con.
             turn_then (turn_completions inp completion (ti_environment inp 2 con)) (\<lambda>con.
             turn_then (turn_resources inp resource (ti_environment inp 3 con)) (\<lambda>con.
             turn_then (turn_channel inp channel (ti_environment inp 4 con)) (turn_hangup channel))))) = Some (Again, con')"
    using eq by (auto simp: serve_turn_def turn_then_Again turn_of_Again)
  have run0: "running limits ms con0" using running_pump [OF step [OF run] pump] env by (simp add: env_ok_def)
  show ?thesis
  proof (cases "ti_poll inp")
    case (Ready channel completion update resource)
    then obtain c1 c2 c3 where "turn_policy inp update (ti_environment inp 1 con0) = Some (Again, c1)"
      "turn_completions inp completion (ti_environment inp 2 c1) = Some (Again, c2)"
      "turn_resources inp resource (ti_environment inp 3 c2) = Some (Again, c3)"
      "turn_channel inp channel (ti_environment inp 4 c3) = Some (Again, con')"
      using rest by (auto simp: turn_then_Again turn_hangup_def split: if_splits)
    then show ?thesis
      using run0 step turn_policy_running turn_completions_running turn_resources_running [OF _ _ env] turn_channel_running [OF env]
      by metis
  qed (use rest run0 in auto)
qed

lemma serve_loop_running:
  assumes "list_all env_ok inps" and "running limits ms con" and "serve_loop inps con = Some (Again, con')"
  shows "running limits ms con'"
  using assms
proof (induction inps arbitrary: con)
  case (Cons inp inps)
  then obtain c where "serve_turn inp con = Some (Again, c)" "serve_loop inps c = Some (Again, con')"
    by (auto simp: turn_then_Again split: if_splits)
  then show ?case using Cons.IH [of c] Cons.prems serve_turn_running [of inp limits ms con c] by simp
qed (auto split: if_splits)

end
