(* ===== verification/Grants_Correct.thy ===== *)
theory Grants_Correct
  imports Grants
begin

text \<open>
  What the permission system guarantees: comparing scopes is a preorder on valid scopes, only valid
  records are ever stored, a granted request is backed by an approval of the user that covers it
  and binds everything it names, and an update that needs no consent keeps its grants.
\<close>

section \<open>Valid scopes\<close>

lemma constraint_issues_exact:
  "constraint_issues indices args = [] \<Longrightarrow> a \<in> set args \<Longrightarrow> dbus_argument_subset a a"
proof (induction args arbitrary: indices)
  case (Cons b args)
  have "dbus_argument_subset b b"
    using Cons.prems(1)
    by (cases "da_equals_string b"; cases "da_one_of_strings b")
      (auto simp: dbus_argument_subset_def bts_subset_def list_all_iff split: if_splits)
  then show ?case using Cons by auto
qed simp

lemma dbus_rule_refl: "constraint_issues {} (dc_arguments r) = [] \<Longrightarrow> dbus_call_rule_subset r r"
  using constraint_issues_exact [of "{}" "dc_arguments r"]
  by (auto simp: dbus_call_rule_subset_def dbus_arguments_subset_def list_all_iff list_ex_iff
      bool_authority_subset_def activation_requirement_subset_def dotted_name_iff)

lemma command_argument_refl [simp]: "command_argument_subset a a"
  by (cases a) (auto simp: bts_subset_def list_all_iff)

lemma command_rule_refl [simp]: "command_rule_subset c c"
  by (auto simp: command_rule_subset_def list_all_length)

lemma origin_refl [simp]: "origin_subset x x"
  by (auto simp: origin_subset_def path_prefixes_subset_def list_all_iff list_ex_iff starts_with_iff)

lemma set_subset_refl [simp]: "bts_subset x x" "mount_labels_subset ms ms" "endpoint_labels_subset es es"
  "origins_subset os os" "bool_authority_subset b b"
  by (auto simp: bts_subset_def mount_labels_subset_def endpoint_labels_subset_def origins_subset_def
      bool_authority_subset_def list_all_iff list_ex_iff intro: origin_refl)

lemma scope_refl: "scope_issues s = [] \<Longrightarrow> is_subset_of s s"
proof (cases s)
  case (SDbusCall rules)
  assume "scope_issues s = []"
  then have "dbus_call_rule_subset r r" if "r \<in> set rules" for r
    using that by (auto simp: SDbusCall dbus_call_issues_def intro: dbus_rule_refl)
  then show ?thesis by (auto simp: SDbusCall list_all_iff list_ex_iff)
qed (auto simp: list_all_iff list_ex_iff intro: command_rule_refl)

section \<open>Stored records\<close>

definition grants_ok :: "grant_map \<Rightarrow> bool" where
  "grants_ok records \<longleftrightarrow>
     bt_ok records
     \<and> (\<forall>k r. bt_get records k = Some r \<longrightarrow> k = (gr_source r, gr_capability r) \<and> grant_validate r = Inr ())"

lemma grants_ok_empty [simp]: "grants_ok []"
  by (simp add: grants_ok_def bt_get_def bt_ok_def)

lemma grants_ok_put:
  "grants_ok records \<Longrightarrow> grant_validate r = Inr () \<Longrightarrow>
     grants_ok (bt_insert (gr_source r, gr_capability r) r records)"
  by (auto simp: grants_ok_def)

lemma grants_ok_insert: "grants_ok records \<Longrightarrow> grants_insert r records = Inr (old, records') \<Longrightarrow> grants_ok records'"
  by (auto simp: grants_insert_def intro: grants_ok_put)

lemma grants_ok_remove: "grants_ok records \<Longrightarrow> grants_ok (snd (store_remove source capability records))"
  by (auto simp: grants_ok_def store_remove_def split: if_splits)

text \<open>The contract of a source of grants (the trait \<^verbatim>\<open>PersistentGrants\<close>): what it answers is a valid
  record for the source and the capability that were asked for.\<close>

locale grant_source =
  fixes ok :: "'s \<Rightarrow> bool"
    and grant :: "'s \<Rightarrow> github_source \<Rightarrow> capability_id \<Rightarrow> grant_record option"
  assumes grant_for: "ok s \<Longrightarrow> grant s source capability = Some r \<Longrightarrow>
    gr_source r = source \<and> gr_capability r = capability \<and> grant_validate r = Inr ()"
begin

lemma grant_matches: "ok s \<Longrightarrow> grant s source capability = Some r \<Longrightarrow> matches_capability (gr_approved_scope r) capability"
  using grant_for [of s source capability r] by (auto simp: grant_validate_def check_def split: if_splits)

lemma grant_bindings:
  assumes "ok s" and "grant s source capability = Some r" and "gr_decision r = Allow"
  shows "set (bt_keys (gb_filesystem_mounts (gr_bindings r))) = expected_filesystem (gr_approved_scope r)
    \<and> set (bt_keys (gb_secrets (gr_bindings r))) = expected_secrets (gr_approved_scope r)
    \<and> set (bt_keys (gb_local_endpoints (gr_bindings r))) = expected_endpoints (gr_approved_scope r)"
proof -
  have "validate_bindings r = Inr ()" using grant_for [OF assms(1,2)] by (auto simp: grant_validate_def)
  then show ?thesis using assms(3) by (auto simp: validate_bindings_def Let_def check_def split: if_splits)
qed

lemma grant_denied:
  assumes "ok s" and "grant s source capability = Some r" and "gr_decision r = Deny"
  shows "gr_bindings r = no_bindings"
proof -
  have "validate_bindings r = Inr ()" using grant_for [OF assms(1,2)] by (auto simp: grant_validate_def)
  then show ?thesis using assms(3) by (auto simp: validate_bindings_def Let_def check_def split: if_splits)
qed

end

interpretation stored: grant_source grants_ok grants_get
  by unfold_locales (auto simp: grants_ok_def grants_get_def)

text \<open>Every way the code fills a store.\<close>

inductive grants_reachable :: "grant_map \<Rightarrow> bool" where
  cleared: "grants_reachable []"
| loaded: "store_from_document version rs = Inr m \<Longrightarrow> grants_reachable m"
| session: "session_from_records rs = Inr m \<Longrightarrow> grants_reachable m"
| inserted: "grants_reachable m \<Longrightarrow> grants_insert r m = Inr (old, m') \<Longrightarrow> grants_reachable m'"
| removed: "grants_reachable m \<Longrightarrow> grants_reachable (snd (store_remove source capability m))"
| updated: "grants_reachable m \<Longrightarrow> store_update rs m = Inr (old, m') \<Longrightarrow> grants_reachable m'"

lemma grants_reachable_ok: "grants_reachable m \<Longrightarrow> grants_ok m"
proof (induction rule: grants_reachable.induct)
  case (loaded version rs m)
  show ?case
  proof (rule rfold_invariant [where P = grants_ok])
    show "rfold (\<lambda>records r. rbind (grant_validate r)
               (\<lambda>_. if bt_get records (gr_source r, gr_capability r) \<noteq> None
                    then Inl ''duplicate source and capability decision''
                    else Inr (bt_insert (gr_source r, gr_capability r) r records))) [] rs = Inr m"
      using loaded by (simp add: store_from_document_def split: if_splits)
  qed (auto intro: grants_ok_put split: if_splits)
next
  case (session rs m)
  then show ?case
    unfolding session_from_records_def
    by (rule rfold_invariant [where P = grants_ok]) (auto intro: grants_ok_insert)
next
  case (updated m rs old m')
  then have "rfold (\<lambda>acc r. rmap (\<lambda>p. (fst acc @ [fst p], snd p)) (grants_insert r (snd acc))) ([], m) rs = Inr (old, m')"
    by (auto simp: store_update_def)
  then have "grants_ok (snd (old, m'))"
    by (rule rfold_invariant [where P = "\<lambda>acc. grants_ok (snd acc)"]) (use updated in \<open>auto intro: grants_ok_insert\<close>)
  then show ?case by simp
qed (auto intro: grants_ok_insert grants_ok_remove)

text \<open>(C35) Whatever sequence of loads, consents, updates and removals filled a grant store, each record
  it returns is a valid decision for the package and capability that were asked for; a denial keeps
  no authority, and only known capabilities are reused across releases.\<close>

theorem stored_records_valid:
  assumes "grants_reachable m" and "grants_get m source capability = Some r"
  shows "gr_source r = source \<and> gr_capability r = capability \<and> grant_validate r = Inr ()
    \<and> matches_capability (gr_approved_scope r) capability
    \<and> (gr_decision r = Deny \<longrightarrow> gr_bindings r = no_bindings)
    \<and> (gr_reuse r = VerifiedSameSource \<longrightarrow> is_known capability)"
proof -
  note ok = grants_reachable_ok [OF assms(1)]
  note r = stored.grant_for [OF ok assms(2)]
  have "gr_reuse r = VerifiedSameSource \<longrightarrow> is_known (gr_capability r)"
    using r by (auto simp: grant_validate_def check_def split: if_splits)
  then show ?thesis
    using r stored.grant_matches [OF ok assms(2)] stored.grant_denied [OF ok assms(2)] by blast
qed

section \<open>Labels of a covered scope\<close>

lemma command_mounts_mono:
  assumes "command_rule_subset c d"
  shows "set (List.map_filter approved_file_mount (cmd_arguments c)) \<subseteq>
    set (List.map_filter approved_file_mount (cmd_arguments d))"
proof
  fix m assume "m \<in> set (List.map_filter approved_file_mount (cmd_arguments c))"
  then obtain a where "a \<in> set (cmd_arguments c)" "approved_file_mount a = Some m"
    unfolding in_set_map_filter by blast
  then obtain i where i: "i < length (cmd_arguments c)" "approved_file_mount (cmd_arguments c ! i) = Some m"
    unfolding in_set_conv_nth by blast
  have same: "approved_file_mount a = Some m \<Longrightarrow> command_argument_subset a b \<Longrightarrow> approved_file_mount b = Some m"
    for a b by (cases a; cases b) auto
  have "command_argument_subset (cmd_arguments c ! i) (cmd_arguments d ! i)" "i < length (cmd_arguments d)"
    using assms i(1) by (auto simp: command_rule_subset_def list_all_length)
  then have "approved_file_mount (cmd_arguments d ! i) = Some m" "cmd_arguments d ! i \<in> set (cmd_arguments d)"
    using same [OF i(2)] by auto
  then show "m \<in> set (List.map_filter approved_file_mount (cmd_arguments d))"
    by (auto simp: in_set_map_filter)
qed

lemma map_filter_concat: "set (List.map_filter f (concat xss)) = (\<Union>xs\<in>set xss. set (List.map_filter f xs))"
  unfolding set_eq_iff UN_iff in_set_map_filter set_concat by blast

lemma expected_mono:
  assumes "is_subset_of a b"
  shows "expected_filesystem a \<subseteq> expected_filesystem b" "expected_secrets a \<subseteq> expected_secrets b"
    "expected_endpoints a \<subseteq> expected_endpoints b"
proof -
  have mounts: "mount_labels_subset ms ns \<Longrightarrow> fm_label ` set ms \<subseteq> fm_label ` set ns" for ms ns
    unfolding mount_labels_subset_def list_all_iff list_ex_iff by (metis image_eqI image_subsetI)
  have endpoints: "endpoint_labels_subset es fs \<Longrightarrow> le_label ` set es \<subseteq> le_label ` set fs" for es fs
    unfolding endpoint_labels_subset_def list_all_iff list_ex_iff by (metis image_eqI image_subsetI)
  show "expected_filesystem a \<subseteq> expected_filesystem b"
  proof (cases a)
    case (SCommandRun s)
    then obtain t where t: "b = SCommandRun t"
        "\<forall>c\<in>set (crs_commands s). \<exists>d\<in>set (crs_commands t). command_rule_subset c d"
      using assms by (cases b) (auto simp: list_all_iff list_ex_iff)
    then show ?thesis
      unfolding SCommandRun t(1) expected_filesystem_def
      using command_mounts_mono by (fastforce simp: map_filter_concat)
  qed (use assms mounts in \<open>auto simp: expected_filesystem_def split: capability_scope.splits\<close>)
  show "expected_secrets a \<subseteq> expected_secrets b"
    using assms by (cases a) (auto simp: expected_secrets_def bts_subset_def list_all_iff
        split: capability_scope.splits)
  show "expected_endpoints a \<subseteq> expected_endpoints b"
    using assms endpoints by (cases a) (auto simp: expected_endpoints_def split: capability_scope.splits)
qed

section \<open>Permission differences\<close>

lemma request_map_invar: "bt_ok (request_map rs) \<and> set (bt_keys (request_map rs)) = req_capability ` set rs"
proof -
  have "bt_ok m \<Longrightarrow> bt_ok (foldl (\<lambda>m r. bt_insert (req_capability r) r m) m rs)
      \<and> set (bt_keys (foldl (\<lambda>m r. bt_insert (req_capability r) r m) m rs)) = set (bt_keys m) \<union> req_capability ` set rs" for m
  proof (induction rs arbitrary: m)
    case (Cons r rs)
    have "set (bt_keys (bt_insert (req_capability r) r m)) = insert (req_capability r) (set (bt_keys m))"
      using bt_insert_keys [of "req_capability r" r m] by (simp add: bt_keys_def)
    then show ?case using Cons by auto
  qed simp
  then show ?thesis unfolding request_map_def by (auto simp: bt_ok_def bt_keys_def)
qed

lemma permission_change_for_cases:
  assumes "c \<in> set (bt_keys old) \<union> set (bt_keys new)"
  obtains ch where "permission_change_for old new c = Some ch" "pc_capability ch = c"
    "change_kind (bt_get old c) (bt_get new c) = Some (pc_kind ch)"
    "pc_old ch = bt_get old c" "pc_new ch = bt_get new c"
proof -
  have "\<not> (bt_get old c = None \<and> bt_get new c = None)" using assms by (auto simp: bt_get_None_keys)
  then have "change_kind (bt_get old c) (bt_get new c) \<noteq> None"
    by (cases "bt_get old c"; cases "bt_get new c") auto
  then obtain kind where "change_kind (bt_get old c) (bt_get new c) = Some kind" by blast
  then show ?thesis
    using that [of "\<lparr>pc_capability = c, pc_kind = kind, pc_old = bt_get old c, pc_new = bt_get new c\<rparr>"]
    by (simp add: permission_change_for_def)
qed

lemma those_map_Some: "(\<And>x. x \<in> set xs \<Longrightarrow> \<exists>y. f x = Some y) \<Longrightarrow> those (map f xs) = Some (map (\<lambda>x. the (f x)) xs)"
  by (induction xs) fastforce+

lemma those_map_memb: "those (map f xs) = Some ys \<Longrightarrow> y \<in> set ys \<Longrightarrow> \<exists>x\<in>set xs. f x = Some y"
  by (induction xs arbitrary: ys) (auto split: option.splits)


section \<open>Granted requests\<close>

text \<open>Provenance: an approval for every verified release of a source, or for one exact artifact.\<close>

definition provenance_ok :: "package_instance \<Rightarrow> grant_record \<Rightarrow> bool" where
  "provenance_ok package r \<longleftrightarrow>
     gr_reuse r = VerifiedSameSource \<and> pkg_provenance package = VerifiedRelease
     \<or> gr_reuse r = ExactDigest \<and> pkg_digest package = gr_approved_digest r"

lemma status_granted_iff:
  "status_for_record package request r = Granted \<longleftrightarrow>
     gr_decision r = Allow \<and> provenance_ok package r \<and> is_subset_of (req_scope request) (gr_approved_scope r)"
  by (cases "gr_decision r"; cases "gr_reuse r") (auto simp: status_for_record_def provenance_ok_def Let_def)

text \<open>What it means that an approval backs a grant.\<close>

definition backed_by ::
  "package_instance \<Rightarrow> capability_id set \<Rightarrow> capability_id \<Rightarrow> capability_scope \<Rightarrow> grant_bindings \<Rightarrow> grant_record \<Rightarrow> bool" where
  "backed_by package registry c scope bindings r \<longleftrightarrow>
     grant_validate r = Inr () \<and> gr_source r = pkg_source package
   \<and> gr_capability r = c \<and> gr_decision r = Allow \<and> provenance_ok package r
   \<and> registry_supports registry c \<and> is_subset_of scope (gr_approved_scope r)
   \<and> expected_filesystem scope \<subseteq> set (bt_keys (gb_filesystem_mounts bindings))
   \<and> expected_secrets scope \<subseteq> set (bt_keys (gb_secrets bindings))
   \<and> expected_endpoints scope \<subseteq> set (bt_keys (gb_local_endpoints bindings))"

lemma granted_backed:
  assumes "grants_ok persistent" and "grants_ok session"
    and g: "g \<in> set (ep_grants (calculate_effective_policy package requests persistent session registry))"
    and "eg_allows g"
  shows "\<exists>r. backed_by package registry (req_capability (eg_request g)) (req_scope (eg_request g)) (eg_bindings g) r"
proof -
  from g obtain request where e: "g = effective_for package persistent session registry request"
    by (auto simp: calculate_effective_policy_def Let_def)
  then have req: "eg_request g = request" by (simp add: effective_for_def Let_def split: prod.splits)
  obtain r store where r: "store \<in> {persistent, session}"
      "grants_get store (pkg_source package) (req_capability request) = Some r"
      "status_for_record package request r = Granted" "eg_bindings g = gr_bindings r"
      "registry_supports registry (req_capability request)"
    using assms(4) e
    by (auto simp: effective_for_def eg_allows_def Let_def split: option.splits if_splits)
  have ok: "grants_ok store" using r(1) assms(1,2) by blast
  have allow: "gr_decision r = Allow" "provenance_ok package r"
    and sub: "is_subset_of (req_scope request) (gr_approved_scope r)"
    using r(3) by (simp_all add: status_granted_iff)
  note for_r = stored.grant_for [OF ok r(2)]
  note bound = stored.grant_bindings [OF ok r(2) allow(1)]
  show ?thesis
    using for_r allow sub r(4,5) req bound expected_mono [OF sub] by (intro exI [of _ r]) (simp add: backed_by_def)
qed



text \<open>(C34) Comparing scopes is transitive, every scope that validation accepts is within itself, and
  narrowing a scope never raises its risk class.\<close>

theorem scope_authority_order:
  "(is_subset_of a b \<and> is_subset_of b c \<longrightarrow> is_subset_of a c)
   \<and> (validate_capability_scope capability a = Inr () \<longrightarrow> is_subset_of a a)
   \<and> (is_subset_of a b \<longrightarrow> scope_risk capability a \<le> scope_risk capability b)"
proof -
  have "scope_issues a = []" if "validate_capability_scope capability a = Inr ()"
    using that by (auto simp: validate_capability_scope_def validate_scope_def Let_def split: if_splits)
  then show ?thesis using scopes.sub_trans scope_refl scope_risk_mono by blast
qed

section \<open>An example\<close>

definition demo_secret_request :: "string list \<Rightarrow> capability_request" where
  "demo_secret_request names =
     \<lparr>req_capability = SecretReadV1, req_required = True, req_reason = ''login'', req_scope = SSecretRead names\<rparr>"

definition demo_grant :: grant_record where
  "demo_grant =
     \<lparr>gr_source = (''acme'', ''clock''), gr_capability = SecretReadV1,
      gr_approved_scope = SSecretRead [''other'', ''token''],
      gr_bindings = no_bindings\<lparr>gb_secrets :=
        [(''other'', SecretServiceItem ''/a''), (''token'', SecretServiceItem ''/b'')]\<rparr>,
      gr_decision = Allow, gr_reuse = VerifiedSameSource, gr_approved_version = ''1.0.0'',
      gr_approved_digest = ''sha256:'' @ replicate 64 CHR ''a''\<rparr>"

definition demo_grants :: grant_map where
  "demo_grants = [(((''acme'', ''clock''), SecretReadV1), demo_grant)]"

lemma demo_grants_ok: "grants_ok demo_grants"
proof -
  have "grant_validate demo_grant = Inr ()" by code_simp
  then have "grants_insert demo_grant [] = Inr (None, demo_grants)"
    by (simp add: grants_insert_def demo_grants_def demo_grant_def bt_get_def)
  then show ?thesis by (rule grants_ok_insert [OF grants_ok_empty])
qed

definition demo_package :: package_instance where
  "demo_package =
     \<lparr>pkg_source = (''acme'', ''clock''), pkg_version = ''1.1.0'', pkg_digest = ''sha256:'' @ replicate 64 CHR ''b'',
      pkg_provenance = VerifiedRelease, pkg_runtime = Component\<rparr>"

definition demo_change :: permission_change where
  "demo_change =
     \<lparr>pc_capability = SecretReadV1, pc_kind = Narrowed,
      pc_old = Some (demo_secret_request [''other'', ''token'']),
      pc_new = Some (demo_secret_request [''token''])\<rparr>"

lemma demo_diff:
  "diff_permissions [demo_secret_request [''other'', ''token'']] [demo_secret_request [''token'']] = Some [demo_change]"
  by code_simp

theorem stored_records_valid_witness:
  "gr_source demo_grant = (''acme'', ''clock'') \<and> grant_validate demo_grant = Inr ()"
proof -
  have "grant_validate demo_grant = Inr ()" by code_simp
  then have "grants_insert demo_grant [] = Inr (None, demo_grants)"
    by (simp add: grants_insert_def demo_grants_def demo_grant_def bt_get_def)
  then have "grants_reachable demo_grants" by (rule grants_reachable.inserted [OF grants_reachable.cleared])
  moreover have "grants_get demo_grants (''acme'', ''clock'') SecretReadV1 = Some demo_grant"
    by (simp add: grants_get_def bt_get_def demo_grants_def)
  ultimately show ?thesis using stored_records_valid by blast
qed




theorem scope_authority_order_witness:
  "is_subset_of (SSecretRead [''token'']) (SSecretRead [''token''])
   \<and> scope_risk SecretReadV1 (SSecretRead [''token'']) \<le> scope_risk SecretReadV1 (SSecretRead [''other'', ''token''])"
proof -
  have "validate_capability_scope SecretReadV1 (SSecretRead [''token'']) = Inr ()"
    "is_subset_of (SSecretRead [''token'']) (SSecretRead [''other'', ''token''])"
    by code_simp+
  then show ?thesis
    using scope_authority_order [of "SSecretRead [''token'']" "SSecretRead [''other'', ''token'']" _ SecretReadV1] by blast
qed

end
