(* ===== verification/Connection_Safety.thy ===== *)
theory Connection_Safety
  imports Connection_Correct Grants_Correct
begin

text \<open>
  The properties of a served connection, and a connection on which they are instantiated: a component
  with a grant to read a secret makes a request, a worker runs it, the answer is sent, the grant is
  withdrawn.
\<close>

section \<open>A sample connection\<close>

definition sample_identity :: connection_identity where
  "sample_identity = \<lparr>ci_instance_id = 4, ci_package = demo_package\<rparr>"

definition sample_policy :: effective_policy where
  "sample_policy = calculate_effective_policy demo_package [demo_secret_request [''token'']] demo_grants [] registry_v1"

definition sample_channel :: channel where
  "sample_channel n bytes = Transferred (length bytes)"

definition sample_inputs :: request_inputs where
  "sample_inputs = \<lparr>ri_elapsed = 5000, ri_started = 10, ri_wall_clock = None, ri_envelope_micros = Some 1,
     ri_monotonic_micros = Some 2, ri_instant = 20, ri_authorize = (\<lambda>r now l. (Inr (), l)),
     ri_opened = (\<lambda>r. Inl Unavailable)\<rparr>"

definition sample_request :: host_message where
  "sample_request = Request 1 PhHostEvent ''secret.read.v1'' ''read'' ''token'' None"

definition sample_start :: supervisor_connection where
  "sample_start = register_backend SecretReadV1
     (projr (connection_new (Inr 0) 0 sample_identity sample_policy default_connection_limits))"

definition sample_accepted :: supervisor_connection where
  "sample_accepted = snd (the (handle_request sample_channel (\<lambda>n. 90) sample_inputs sample_request sample_start))"

definition on_executor :: "(executor \<Rightarrow> executor) \<Rightarrow> supervisor_connection \<Rightarrow> supervisor_connection" where
  "on_executor f con = con\<lparr>con_runtime := (con_runtime con)\<lparr>rt_executor := f (rt_executor (con_runtime con))\<rparr>\<rparr>"

definition sample_worked :: supervisor_connection where
  "sample_worked = on_executor (worker_send 0)
     (on_executor (worker_run 0 30 (Some (Success ''s3cret''))) (on_executor worker_take sample_accepted))"

definition sample_answered :: supervisor_connection where
  "sample_answered = snd (pump_all sample_channel (\<lambda>n. 95) (\<lambda>rm. rm) True sample_worked)"

lemma sample_start_serves: "serves default_connection_limits [] sample_start"
proof -
  have "isl (connection_new (Inr 0) 0 sample_identity sample_policy default_connection_limits) = False"
    by code_simp
  then obtain con where "connection_new (Inr 0) 0 sample_identity sample_policy default_connection_limits = Inr con"
    by (metis sum.collapse(2))
  then show ?thesis
    unfolding sample_start_def using serves.accepted serves.backend by (metis sum.sel(2))
qed

lemma sample_accepted_step:
  "handle_request sample_channel (\<lambda>n. 90) sample_inputs sample_request sample_start = Some (Inr (), sample_accepted)"
proof -
  have "(case handle_request sample_channel (\<lambda>n. 90) sample_inputs sample_request sample_start of
      Some (Inr _, _) \<Rightarrow> True | _ \<Rightarrow> False)" by code_simp
  then show ?thesis by (auto simp: sample_accepted_def split: option.splits sum.splits prod.splits)
qed

lemma sample_accepted_serves: "serves default_connection_limits [sample_request] sample_accepted"
proof -
  have "\<not> con_stopped sample_start" by code_simp
  from serves.request [OF sample_start_serves this sample_accepted_step] show ?thesis by simp
qed

lemma serves_worker:
  "serves limits ms con \<Longrightarrow> worker_step (rt_executor (con_runtime con)) (f (rt_executor (con_runtime con)))
   \<Longrightarrow> serves limits ms (on_executor f con)"
  unfolding on_executor_def by (rule serves.environment [OF _ env_worker])

lemma sample_worked_serves: "serves default_connection_limits [sample_request] sample_worked"
  unfolding sample_worked_def
  by (intro serves_worker sample_accepted_serves worker_step.intros)

lemma sample_answered_serves: "serves default_connection_limits [sample_request] sample_answered"
proof -
  have "(case pump_all sample_channel (\<lambda>n. 95) (\<lambda>rm. rm) True sample_worked of (Inr _, _) \<Rightarrow> True | _ \<Rightarrow> False)" by code_simp
  then have "pump_all sample_channel (\<lambda>n. 95) (\<lambda>rm. rm) True sample_worked = (Inr (), sample_answered)"
    by (auto simp: sample_answered_def split: sum.splits prod.splits)
  moreover have "\<not> con_stopped sample_worked" by code_simp
  ultimately show ?thesis using serves.pump [OF sample_worked_serves _ sinks_only_id] by blast
qed

section \<open>Properties\<close>

text \<open>(C14) While a connection is served, every message the host has sent is answered exactly once: the ids received
  are the ids answered and those of the active operations, each as often as it was received. No answer is
  lost in the bounded event queue, whatever the workers, the backends and policy updates do.\<close>

theorem requests_answered_once:
  assumes "serves limits received con" and "\<not> con_stopped con"
  shows "mset (map host_request_id received) =
    mset (answered con) + mset (bt_keys (ex_active (rt_executor (con_runtime con))))"
proof -
  have "balanced received con" and "heq_edge_events (rt_events (con_runtime con)) = []"
    using serves_ok [OF assms(1)] assms(2) by (simp_all add: con_ok_def)
  then show ?thesis by (simp add: balanced_def outstanding_def completion_ids_def)
qed

theorem requests_answered_once_witness:
  "mset (answered sample_accepted) + mset (bt_keys (ex_active (rt_executor (con_runtime sample_accepted)))) = {#1#}
   \<and> answered sample_accepted = []
   \<and> mset (answered sample_answered) + mset (bt_keys (ex_active (rt_executor (con_runtime sample_answered)))) = {#1#}
   \<and> answered sample_answered = [1]"
proof (intro conjI)
  have "\<not> con_stopped sample_accepted" "\<not> con_stopped sample_answered" by code_simp+
  then show "mset (answered sample_accepted) + mset (bt_keys (ex_active (rt_executor (con_runtime sample_accepted)))) = {#1#}"
    "mset (answered sample_answered) + mset (bt_keys (ex_active (rt_executor (con_runtime sample_answered)))) = {#1#}"
    using requests_answered_once [OF sample_accepted_serves] requests_answered_once [OF sample_answered_serves]
    by (simp_all add: sample_request_def)
  show "answered sample_accepted = []" "answered sample_answered = [1]" by code_simp+
qed


definition sample_withdrawn :: supervisor_connection where
  "sample_withdrawn = snd (replace_policy sample_channel (\<lambda>n. 95)
     (calculate_effective_policy demo_package [demo_secret_request [''token'']] [] [] registry_v1) sample_accepted)"

lemma sample_withdrawn_serves: "serves default_connection_limits [sample_request] sample_withdrawn"
proof -
  let ?policy = "calculate_effective_policy demo_package [demo_secret_request [''token'']] [] [] registry_v1"
  have "(case replace_policy sample_channel (\<lambda>n. 95) ?policy sample_accepted of (Inr _, _) \<Rightarrow> True | _ \<Rightarrow> False)"
    by code_simp
  then have "replace_policy sample_channel (\<lambda>n. 95) ?policy sample_accepted = (Inr (), sample_withdrawn)"
    by (auto simp: sample_withdrawn_def split: sum.splits prod.splits)
  moreover have "\<not> con_stopped sample_accepted" by code_simp
  ultimately show ?thesis using serves.policy [OF sample_accepted_serves] by blast
qed

definition sample_job :: job where
  "sample_job = hd (live_jobs (rt_executor (con_runtime sample_withdrawn)))"


text \<open>(C16) A served connection handles every message without failing an assertion, and stays within its quotas: the
  active operations, the pending operations, the resources and their buffered bytes never exceed the
  configured limits, and the lifecycle and the resource manager know the same resources.\<close>

theorem connection_within_limits:
  assumes "serves limits received con"
  shows "(\<forall>send finished inp m. handle_request send finished inp m con \<noteq> None)
    \<and> length (ex_active (rt_executor (con_runtime con))) \<le> xl_maximum_active_operations (cl_executor limits)
    \<and> length (ls_pending (rt_lifecycle (con_runtime con))) \<le> maximum_pending_operations (cl_lifecycle limits)
    \<and> length (ls_resources (rt_lifecycle (con_runtime con))) \<le> maximum_resources (cl_lifecycle limits)
    \<and> ls_buffered_bytes (rt_lifecycle (con_runtime con)) \<le> maximum_buffered_bytes (cl_lifecycle limits)
    \<and> (\<forall>i. bt_get (ls_resources (rt_lifecycle (con_runtime con))) i = None
         \<longleftrightarrow> bt_get (rm_resources (rt_resources (con_runtime con))) i = None)"
proof (intro conjI allI)
  have ok: "con_ok limits con" using serves_ok [OF assms] by simp
  then have inv: "runtime_inv (cl_lifecycle limits) (con_runtime con)" by (simp add: con_ok_def)
  note d = runtime_invD [OF inv]
  fix send finished inp m i
  show "handle_request send finished inp m con \<noteq> None"
  proof (cases m)
    case (Close i resource_id)
    obtain found rt where "runtime_close_resource resource_id (con_runtime con) = Some (found, rt)"
      using close_effect [OF inv] by metis
    then show ?thesis by (simp add: handle_request_def Let_def Close)
  qed (simp_all add: handle_request_def Let_def split: prod.splits)
  show "length (ex_active (rt_executor (con_runtime con))) \<le> xl_maximum_active_operations (cl_executor limits)"
    using d(1) ok by (simp add: exec_inv_def con_ok_def runtime_fits_def)
  show "length (ls_pending (rt_lifecycle (con_runtime con))) \<le> maximum_pending_operations (cl_lifecycle limits)"
    "length (ls_resources (rt_lifecycle (con_runtime con))) \<le> maximum_resources (cl_lifecycle limits)"
    "ls_buffered_bytes (rt_lifecycle (con_runtime con)) \<le> maximum_buffered_bytes (cl_lifecycle limits)"
    using d(2) by (simp_all add: lifecycle_inv_def)
  show "bt_get (ls_resources (rt_lifecycle (con_runtime con))) i = None
      \<longleftrightarrow> bt_get (rm_resources (rt_resources (con_runtime con))) i = None"
    using d(6) by (metis handles_def option.map_disc_iff resources_agree_def)
qed

theorem connection_within_limits_witness:
  "handle_request sample_channel (\<lambda>n. 90) sample_inputs (Close 2 7) sample_accepted \<noteq> None
   \<and> length (ex_active (rt_executor (con_runtime sample_accepted))) \<le> 32"
  using connection_within_limits [OF sample_accepted_serves]
  by (simp add: default_connection_limits_def default_executor_limits_def)


definition sample_refused :: host_message where
  "sample_refused = Request 1 PhHostEvent ''http.request.v1'' ''get'' ''x'' None"


text \<open>(C17) The service loop of the source, with workers and backends interleaved at every point at which it waits or
  acts, only makes the steps of \<^const>\<open>serves\<close>: as long as it continues, its states are served states, with the
  messages it has received appended.\<close>

theorem serve_loop_serves:
  assumes "serves limits received con" and "\<not> con_stopped con"
    and "list_all env_ok inps" and "serve_loop inps con = Some (Again, con')"
  shows "\<exists>more. serves limits (received @ more) con' \<and> \<not> con_stopped con'"
proof -
  have "running limits received con" using assms(1,2) by (auto simp: running_def intro: exI [of _ "[]"])
  from serve_loop_running [OF assms(3) this assms(4)] show ?thesis by (auto simp: running_def)
qed

definition sample_turn :: turn_inputs where
  "sample_turn = \<lparr>ti_poll = PollInterrupted, ti_reload = None, ti_recv = (\<lambda>_ _. Inl WouldBlock),
     ti_request = sample_inputs, ti_send = sample_channel, ti_finished = (\<lambda>n. 95), ti_signal = (\<lambda>n. True),
     ti_between = (\<lambda>n rm. rm), ti_environment = (\<lambda>n. id)\<rparr>"

theorem serve_loop_serves_witness:
  "\<exists>more. serves default_connection_limits ([sample_request] @ more) (snd (the (serve_loop [sample_turn] sample_worked)))"
proof -
  have "env_ok sample_turn" by (simp add: env_ok_def sample_turn_def)
  then have "list_all env_ok [sample_turn]" by simp
  moreover have "\<not> con_stopped sample_worked" by code_simp
  moreover have "(case serve_loop [sample_turn] sample_worked of Some (Again, _) \<Rightarrow> True | _ \<Rightarrow> False)" by code_simp
  then have "serve_loop [sample_turn] sample_worked = Some (Again, snd (the (serve_loop [sample_turn] sample_worked)))"
    by (auto split: option.splits turn.splits prod.splits)
  ultimately show ?thesis using serve_loop_serves [OF sample_worked_serves] by blast
qed

end
