(* ===== verification/Payload_Codec.thy ===== *)
theory Payload_Codec
  imports Wire
begin

text \<open>
  The encoder and decoder under every capability payload
  (\<^verbatim>\<open>touchbar-broker-schema/src/lib.rs\<close>, \<^verbatim>\<open>Encoder\<close> and \<^verbatim>\<open>Decoder\<close>). A write returns the bytes it appends or an
  error, \<open>puts\<close> makes writes one after another and \<open>finish_payload\<close> prepends the magic and checks the
  size; a decoder is the rest of the payload.

  The lemmas of the collection \<open>payload\<close> describe each read as the inverse of its write, so that a whole
  message is compared with its encoding by rewriting. The locale \<open>payload_codec\<close> is the contract of a
  message: a payload decodes to a value exactly if it is the encoding of that value.
\<close>

named_theorems payload \<open>reads of the payload decoder as inverses of the writes\<close>

datatype schema_error = SchMalformed | SchLimitExceeded

type_synonym payload_write = "(schema_error, char list) result"
type_synonym 'a payload_read = "(schema_error, 'a \<times> char list) result"

definition MAX_PAYLOAD_BYTES :: nat where "MAX_PAYLOAD_BYTES = 64 * 1024"
definition MAX_STRING_BYTES :: nat where "MAX_STRING_BYTES = 4096"

section \<open>Writing\<close>

definition put_byte :: "nat \<Rightarrow> payload_write" where
  "put_byte v = Inr [char_of v]"

definition put_u16 :: "nat \<Rightarrow> payload_write" where
  "put_u16 v = Inr (le_bytes 2 v)"

definition put_u32 :: "nat \<Rightarrow> payload_write" where
  "put_u32 v = Inr (le_bytes 4 v)"

definition put_u64 :: "nat \<Rightarrow> payload_write" where
  "put_u64 v = Inr (le_bytes 8 v)"

definition put_raw :: "char list \<Rightarrow> payload_write" where
  "put_raw bs = Inr bs"

text \<open>\<^verbatim>\<open>to_le_bytes\<close> of a signed integer of \<open>n\<close> bytes.\<close>

definition signed_bytes :: "nat \<Rightarrow> int \<Rightarrow> char list" where
  "signed_bytes n v = le_bytes n (nat (v mod 256 ^ n))"

definition put_signed :: "nat \<Rightarrow> int \<Rightarrow> payload_write" where
  "put_signed n v = Inr (signed_bytes n v)"

definition put_string :: "string \<Rightarrow> payload_write" where
  "put_string v =
     (if length v > MAX_STRING_BYTES \<or> length v > 65535 then Inl SchLimitExceeded
      else Inr (le_bytes 2 (length v) @ v))"

definition put_blob :: "char list \<Rightarrow> payload_write" where
  "put_blob v = (if length v < 2 ^ 32 then Inr (le_bytes 4 (length v) @ v) else Inl SchLimitExceeded)"

fun puts :: "payload_write list \<Rightarrow> payload_write" where
  "puts [] = Inr []"
| "puts (w # ws) = rbind w (\<lambda>x. rbind (puts ws) (\<lambda>y. Inr (x @ y)))"

definition put_bool :: "bool \<Rightarrow> payload_write" where
  "put_bool b = put_byte (if b then 1 else 0)"

definition put_optional :: "('a \<Rightarrow> payload_write) \<Rightarrow> 'a option \<Rightarrow> payload_write" where
  "put_optional put v = (case v of None \<Rightarrow> puts [put_byte 0] | Some x \<Rightarrow> puts [put_byte 1, put x])"

definition finish_payload :: "string \<Rightarrow> payload_write \<Rightarrow> payload_write" where
  "finish_payload magic w =
     rbind w (\<lambda>bs. if length (magic @ bs) > MAX_PAYLOAD_BYTES then Inl SchLimitExceeded else Inr (magic @ bs))"

section \<open>Reading\<close>

definition payload_new :: "string \<Rightarrow> char list \<Rightarrow> (schema_error, char list) result" where
  "payload_new magic bytes =
     (if length bytes > MAX_PAYLOAD_BYTES \<or> \<not> starts_with bytes magic then
        Inl (if length bytes > MAX_PAYLOAD_BYTES then SchLimitExceeded else SchMalformed)
      else Inr (drop (length magic) bytes))"

definition get_take :: "nat \<Rightarrow> char list \<Rightarrow> (char list) payload_read" where
  "get_take n d = (if n \<le> length d then Inr (take n d, drop n d) else Inl SchMalformed)"

definition get_byte :: "char list \<Rightarrow> nat payload_read" where
  "get_byte d = (case d of [] \<Rightarrow> Inl SchMalformed | b # rest \<Rightarrow> Inr (of_char b, rest))"

definition get_uint :: "nat \<Rightarrow> char list \<Rightarrow> nat payload_read" where
  "get_uint n d = rbind (get_take n d) (\<lambda>(bs, d). Inr (le_value bs, d))"

definition get_u16 where "get_u16 = get_uint 2"
definition get_u32 where "get_u32 = get_uint 4"
definition get_u64 where "get_u64 = get_uint 8"

definition signed_value :: "char list \<Rightarrow> int" where
  "signed_value bs =
     (let v = int (le_value bs); m = 256 ^ length bs in if 2 * v < m then v else v - m)"

definition get_signed :: "nat \<Rightarrow> char list \<Rightarrow> int payload_read" where
  "get_signed n d = rbind (get_take n d) (\<lambda>(bs, d). Inr (signed_value bs, d))"

definition get_string :: "char list \<Rightarrow> string payload_read" where
  "get_string d =
     rbind (get_u16 d) (\<lambda>(n, d).
       if n > MAX_STRING_BYTES then Inl SchLimitExceeded
       else rbind (get_take n d) (\<lambda>(v, d). if utf8 v then Inr (v, d) else Inl SchMalformed))"

definition get_optional_string :: "char list \<Rightarrow> (string option) payload_read" where
  "get_optional_string d =
     rbind (get_byte d) (\<lambda>(tag, d).
       if tag = 0 then Inr (None, d)
       else if tag = 1 then rbind (get_string d) (\<lambda>(v, d). Inr (Some v, d))
       else Inl SchMalformed)"

definition get_blob :: "nat \<Rightarrow> char list \<Rightarrow> (char list) payload_read" where
  "get_blob maximum d =
     rbind (get_u32 d) (\<lambda>(n, d). if n > maximum then Inl SchLimitExceeded else get_take n d)"

definition get_finish :: "char list \<Rightarrow> (schema_error, unit) result" where
  "get_finish d = (if d = [] then Inr () else Inl SchMalformed)"

text \<open>\<^verbatim>\<open>match decoder.byte()? { 0 => false, 1 => true, _ => Err(Malformed) }\<close>\<close>

definition get_bool :: "char list \<Rightarrow> bool payload_read" where
  "get_bool d =
     rbind (get_byte d) (\<lambda>(v, d).
       if v = 0 then Inr (False, d) else if v = 1 then Inr (True, d) else Inl SchMalformed)"

text \<open>A length of eight bytes, its bound and the bytes, as several messages inline them.\<close>

definition get_sized :: "nat \<Rightarrow> nat \<Rightarrow> char list \<Rightarrow> (char list) payload_read" where
  "get_sized minimum maximum d =
     rbind (get_u64 d) (\<lambda>(n, d). if n < minimum \<or> n > maximum then Inl SchLimitExceeded else get_take n d)"

definition put_sized :: "char list \<Rightarrow> payload_write" where
  "put_sized bs = puts [put_u64 (length bs), put_raw bs]"

text \<open>\<^verbatim>\<open>for _ in 0..count\<close> over a read.\<close>

fun get_times :: "nat \<Rightarrow> (char list \<Rightarrow> 'a payload_read) \<Rightarrow> char list \<Rightarrow> ('a list) payload_read" where
  "get_times 0 g d = Inr ([], d)"
| "get_times (Suc n) g d = rbind (g d) (\<lambda>(x, d). rbind (get_times n g d) (\<lambda>(xs, d). Inr (x # xs, d)))"

section \<open>Reads are inverses of writes\<close>

lemma if_eq_Inr [payload]: "(if c then a else b) = Inr x \<longleftrightarrow> (c \<and> a = Inr x) \<or> (\<not> c \<and> b = Inr x)"
  by simp

lemmas [payload] = ex_disj_distrib conj_disj_distribL conj_disj_distribR

lemma starts_with_prefix: "starts_with s p \<longleftrightarrow> (\<exists>t. s = p @ t)"
  by (auto simp: starts_with_def) (metis append_take_drop_id)

lemma payload_new_iff [payload]:
  "payload_new magic bytes = Inr d \<longleftrightarrow> length bytes \<le> MAX_PAYLOAD_BYTES \<and> bytes = magic @ d"
  by (auto simp: payload_new_def starts_with_prefix)

lemma finish_payload_iff [payload]:
  "finish_payload magic w = Inr bytes \<longleftrightarrow> (\<exists>bs. w = Inr bs \<and> bytes = magic @ bs \<and> length bytes \<le> MAX_PAYLOAD_BYTES)"
  by (auto simp: finish_payload_def if_eq_Inr)

lemma get_finish_iff [payload]: "get_finish d = Inr u \<longleftrightarrow> d = []"
  by (simp add: get_finish_def)

lemma get_take_iff [payload]: "get_take n d = Inr (bs, d') \<longleftrightarrow> length bs = n \<and> d = bs @ d'"
  by (auto simp: get_take_def)

lemma put_simps [payload]:
  "put_byte v = Inr bs \<longleftrightarrow> bs = [char_of v]" "put_u16 v = Inr bs \<longleftrightarrow> bs = le_bytes 2 v"
  "put_u32 v = Inr bs \<longleftrightarrow> bs = le_bytes 4 v" "put_u64 v = Inr bs \<longleftrightarrow> bs = le_bytes 8 v"
  "put_raw v' = Inr bs \<longleftrightarrow> bs = v'" "put_signed n i = Inr bs \<longleftrightarrow> bs = signed_bytes n i"
  "put_bool b = Inr bs \<longleftrightarrow> bs = [char_of (if b then 1 else 0 :: nat)]"
  by (auto simp: put_byte_def put_u16_def put_u32_def put_u64_def put_raw_def put_signed_def put_bool_def)

lemma puts_simps [payload]:
  "puts [] = Inr bs \<longleftrightarrow> bs = []"
  "puts (w # ws) = Inr bs \<longleftrightarrow> (\<exists>x y. w = Inr x \<and> puts ws = Inr y \<and> bs = x @ y)"
  by auto

lemma get_byte_iff [payload]: "get_byte d = Inr (v, d') \<longleftrightarrow> v < 256 \<and> d = char_of v # d'"
  by (auto simp: get_byte_def of_char_of split: list.splits)

lemma get_uint_iff: "get_uint n d = Inr (v, d') \<longleftrightarrow> v < 256 ^ n \<and> d = le_bytes n v @ d'"
  by (auto simp: get_uint_def get_take_iff le_value_bound)

lemma get_ints_iff [payload]:
  "get_u16 d = Inr (v, d') \<longleftrightarrow> v < 65536 \<and> d = le_bytes 2 v @ d'"
  "get_u32 d = Inr (v, d') \<longleftrightarrow> v < 4294967296 \<and> d = le_bytes 4 v @ d'"
  "get_u64 d = Inr (v, d') \<longleftrightarrow> v < 18446744073709551616 \<and> d = le_bytes 8 v @ d'"
  by (simp_all add: get_u16_def get_u32_def get_u64_def get_uint_iff)

text \<open>The range of an unsigned integer of \<open>n\<close> bytes.\<close>

definition uint_ok :: "nat \<Rightarrow> nat \<Rightarrow> bool" where
  "uint_ok n v \<longleftrightarrow> v < 256 ^ n"

lemma uint_ok_simps [payload]:
  "uint_ok 1 v \<longleftrightarrow> v < 256" "uint_ok (Suc 0) v \<longleftrightarrow> v < 256" "uint_ok 2 v \<longleftrightarrow> v < 65536"
  "uint_ok 4 v \<longleftrightarrow> v < 4294967296" "uint_ok 8 v \<longleftrightarrow> v < 18446744073709551616"
  by (simp_all add: uint_ok_def)

definition signed_typed :: "nat \<Rightarrow> int \<Rightarrow> bool" where
  "signed_typed n v \<longleftrightarrow> - (256 ^ n) \<le> 2 * v \<and> 2 * v < 256 ^ n"

lemma signed_mod:
  assumes "- m \<le> 2 * v" and "2 * v < (m :: int)"
  shows "v mod m = (if 0 \<le> v then v else v + m)"
proof (cases "0 \<le> v")
  case False
  then have "(v + m) mod m = v + m" using assms by (intro mod_pos_pos_trivial) simp_all
  then show ?thesis using False by simp
qed (use assms in simp)

lemma signed_value_bytes:
  assumes "signed_typed n v"
  shows "signed_value (signed_bytes n v) = v"
proof -
  let ?m = "256 ^ n :: int"
  have "nat (v mod ?m) < 256 ^ n" by (simp add: nat_less_iff)
  then have "int (le_value (signed_bytes n v)) = v mod ?m" by (simp add: signed_bytes_def)
  then show ?thesis
    using assms signed_mod [of ?m v]
    by (auto simp: signed_value_def signed_typed_def Let_def signed_bytes_def split: if_splits)
qed

lemma signed_bytes_value:
  "signed_typed (length bs) (signed_value bs) \<and> bs = signed_bytes (length bs) (signed_value bs)"
proof -
  define V m where "V = int (le_value bs)" and "m = (256 ^ length bs :: int)"
  have "V < m" "0 \<le> V"
    using le_value_bound [of bs] by (auto simp: V_def m_def)
  then have typed: "signed_typed (length bs) (signed_value bs)" and "signed_value bs mod m = V"
    by (auto simp: signed_value_def signed_typed_def Let_def V_def [symmetric] m_def [symmetric])
  then have "signed_bytes (length bs) (signed_value bs) = bs"
    by (simp add: signed_bytes_def m_def V_def)
  then show ?thesis using typed by simp
qed

lemma length_signed_bytes [simp]: "length (signed_bytes n v) = n"
  by (simp add: signed_bytes_def)

lemma get_signed_iff [payload]:
  "get_signed n d = Inr (v, d') \<longleftrightarrow> signed_typed n v \<and> d = signed_bytes n v @ d'"
proof
  assume "get_signed n d = Inr (v, d')"
  then obtain bs where "length bs = n" "d = bs @ d'" "v = signed_value bs"
    by (auto simp: get_signed_def get_take_iff)
  then show "signed_typed n v \<and> d = signed_bytes n v @ d'" using signed_bytes_value [of bs] by simp
next
  assume "signed_typed n v \<and> d = signed_bytes n v @ d'"
  then show "get_signed n d = Inr (v, d')"
    by (simp add: get_signed_def get_take_def signed_value_bytes)
qed

definition string_typed :: "string \<Rightarrow> bool" where
  "string_typed s \<longleftrightarrow> utf8 s"

lemma put_string_iff [payload]:
  "put_string v = Inr bs \<longleftrightarrow> length v \<le> MAX_STRING_BYTES \<and> bs = le_bytes 2 (length v) @ v"
  by (auto simp: put_string_def MAX_STRING_BYTES_def)

lemma get_string_iff [payload]:
  "get_string d = Inr (v, d') \<longleftrightarrow>
     string_typed v \<and> length v \<le> MAX_STRING_BYTES \<and> d = le_bytes 2 (length v) @ v @ d'"
  by (auto simp: get_string_def payload string_typed_def MAX_STRING_BYTES_def)

lemma put_blob_iff [payload]:
  "put_blob v = Inr bs \<longleftrightarrow> length v < 4294967296 \<and> bs = le_bytes 4 (length v) @ v"
  by (auto simp: put_blob_def)

lemma get_blob_iff [payload]:
  "get_blob maximum d = Inr (v, d') \<longleftrightarrow>
     length v \<le> maximum \<and> length v < 4294967296 \<and> d = le_bytes 4 (length v) @ v @ d'"
  by (auto simp: get_blob_def payload)

lemma get_bool_iff [payload]:
  "get_bool d = Inr (b, d') \<longleftrightarrow> d = char_of (if b then 1 else 0 :: nat) # d'"
  by (auto simp: get_bool_def payload)

lemma get_sized_iff [payload]:
  "get_sized minimum maximum d = Inr (v, d') \<longleftrightarrow>
     minimum \<le> length v \<and> length v \<le> maximum \<and> length v < 18446744073709551616 \<and> d = le_bytes 8 (length v) @ v @ d'"
  by (auto simp: get_sized_def payload)

lemma put_sized_iff [payload]: "put_sized v = Inr bs \<longleftrightarrow> bs = le_bytes 8 (length v) @ v"
  by (auto simp: put_sized_def payload)

lemma put_optional_string_iff [payload]:
  "put_optional put_string v = Inr bs \<longleftrightarrow> (case v of None \<Rightarrow> bs = [char_of (0 :: nat)]
     | Some s \<Rightarrow> length s \<le> MAX_STRING_BYTES \<and> bs = char_of (1 :: nat) # le_bytes 2 (length s) @ s)"
  by (auto simp: put_optional_def payload split: option.splits)

lemma get_optional_string_iff [payload]:
  "get_optional_string d = Inr (v, d') \<longleftrightarrow> (case v of None \<Rightarrow> d = char_of (0 :: nat) # d'
     | Some s \<Rightarrow> string_typed s \<and> length s \<le> MAX_STRING_BYTES \<and> d = char_of (1 :: nat) # le_bytes 2 (length s) @ s @ d')"
  by (cases v) (auto simp: get_optional_string_def payload)

section \<open>Contracts\<close>

text \<open>The contract of one element of a message, and of a sequence of them.\<close>

locale element_codec =
  fixes typed :: "'a \<Rightarrow> bool"
    and put :: "'a \<Rightarrow> payload_write"
    and get :: "char list \<Rightarrow> 'a payload_read"
  assumes get_iff: "get d = Inr (x, d') \<longleftrightarrow> typed x \<and> (\<exists>bs. put x = Inr bs \<and> d = bs @ d')"
begin

lemma get_times_iff:
  "get_times n get d = Inr (xs, d') \<longleftrightarrow>
     length xs = n \<and> list_all typed xs \<and> (\<exists>bs. puts (map put xs) = Inr bs \<and> d = bs @ d')"
proof (induction n arbitrary: d xs)
  case (Suc n)
  show ?case
    by (cases xs) (auto simp: get_iff Suc.IH)
qed auto

end

text \<open>The contract of a message.\<close>

locale payload_codec =
  fixes typed :: "'m \<Rightarrow> bool"
    and encode :: "'m \<Rightarrow> payload_write"
    and decode :: "char list \<Rightarrow> (schema_error, 'm) result"
  assumes exact: "decode p = Inr m \<longleftrightarrow> typed m \<and> encode m = Inr p"
begin

lemma received_as_sent: "typed m \<Longrightarrow> encode m = Inr p \<Longrightarrow> decode p = Inr m"
  by (simp add: exact)

lemma canonical: "decode p = Inr m \<Longrightarrow> decode q = Inr m \<Longrightarrow> p = q"
  by (simp add: exact)

end

end
