(* ===== verification/Payload_Filesystem.thy ===== *)
theory Payload_Filesystem
  imports Payload_Codec
begin

text \<open>
  The payloads of the filesystem capabilities (\<^verbatim>\<open>touchbar-broker-schema/src/lib.rs\<close>): reading, streaming,
  listing, writing and renaming. Each message is a record or a datatype with the encoder and the decoder of
  the source, the ranges of its machine integers (\<open>typed\<close>), and the interpretation that compares them.
\<close>

definition MAX_FILE_CHUNK_BYTES :: nat where "MAX_FILE_CHUNK_BYTES = 48 * 1024"
definition MAX_FILE_WRITE_BYTES :: nat where "MAX_FILE_WRITE_BYTES = 48 * 1024"
definition MAX_FILE_WRITE_STREAM_CHUNK_BYTES :: nat where "MAX_FILE_WRITE_STREAM_CHUNK_BYTES = 12 * 1024"
definition MAX_FILE_STREAM_BYTES :: nat where "MAX_FILE_STREAM_BYTES = 64 * 1024 * 1024"
definition MAX_FILE_STREAM_CHUNK_BYTES :: nat where "MAX_FILE_STREAM_CHUNK_BYTES = 12 * 1024"
definition MAX_DIRECTORY_ENTRIES :: nat where "MAX_DIRECTORY_ENTRIES = 256"

lemmas file_limits =
  MAX_FILE_CHUNK_BYTES_def MAX_FILE_WRITE_BYTES_def MAX_FILE_WRITE_STREAM_CHUNK_BYTES_def
  MAX_FILE_STREAM_BYTES_def MAX_FILE_STREAM_CHUNK_BYTES_def MAX_DIRECTORY_ENTRIES_def

section \<open>Writing\<close>

record filesystem_write_file =
  fwf_mount :: string
  fwf_path :: string
  fwf_bytes :: "char list"

definition filesystem_write_file_typed :: "filesystem_write_file \<Rightarrow> bool" where
  "filesystem_write_file_typed v \<longleftrightarrow>
     string_typed (fwf_mount v)
     \<and> string_typed (fwf_path v)"

definition filesystem_write_file_encode :: "filesystem_write_file \<Rightarrow> payload_write" where
  "filesystem_write_file_encode v =
     (if length (fwf_bytes v) > MAX_FILE_WRITE_BYTES
      then Inl SchLimitExceeded
      else finish_payload ''OMFSWRT1''
       (puts [put_string (fwf_mount v), put_string (fwf_path v), put_sized (fwf_bytes v)]))"

definition filesystem_write_file_decode :: "char list \<Rightarrow> (schema_error, filesystem_write_file) result" where
  "filesystem_write_file_decode bytes =
     rbind (payload_new ''OMFSWRT1'' bytes) (\<lambda>d.
     rbind (get_string d) (\<lambda>(mount, d).
     rbind (get_string d) (\<lambda>(path, d).
     rbind (get_sized 0 MAX_FILE_WRITE_BYTES d) (\<lambda>(bytes, d).
     rbind (get_finish d) (\<lambda>_.
       Inr \<lparr>fwf_mount = mount, fwf_path = path, fwf_bytes = bytes\<rparr>)))))"

interpretation filesystem_write_file: payload_codec filesystem_write_file_typed
  filesystem_write_file_encode filesystem_write_file_decode
proof
  fix p m
  show "filesystem_write_file_decode p = Inr m
    \<longleftrightarrow> filesystem_write_file_typed m \<and> filesystem_write_file_encode m = Inr p"
    by (cases m)
      (auto simp: filesystem_write_file_decode_def filesystem_write_file_typed_def
        filesystem_write_file_encode_def
        payload file_limits)
qed

record filesystem_write_stream =
  fws_mount :: string
  fws_path :: string
  fws_expected_bytes :: nat

definition filesystem_write_stream_typed :: "filesystem_write_stream \<Rightarrow> bool" where
  "filesystem_write_stream_typed v \<longleftrightarrow>
     string_typed (fws_mount v)
     \<and> string_typed (fws_path v)
     \<and> uint_ok 8 (fws_expected_bytes v)"

definition filesystem_write_stream_encode :: "filesystem_write_stream \<Rightarrow> payload_write" where
  "filesystem_write_stream_encode v =
     (if fws_expected_bytes v > MAX_FILE_STREAM_BYTES
      then Inl SchLimitExceeded
      else finish_payload ''OMFSWSQ1''
       (puts [put_string (fws_mount v), put_string (fws_path v), put_u64 (fws_expected_bytes v)]))"

definition filesystem_write_stream_decode :: "char list \<Rightarrow> (schema_error, filesystem_write_stream) result" where
  "filesystem_write_stream_decode bytes =
     rbind (payload_new ''OMFSWSQ1'' bytes) (\<lambda>d.
     rbind (get_string d) (\<lambda>(mount, d).
     rbind (get_string d) (\<lambda>(path, d).
     rbind (get_u64 d) (\<lambda>(expected_bytes, d).
     rbind (get_finish d) (\<lambda>_.
       if expected_bytes > MAX_FILE_STREAM_BYTES then Inl SchLimitExceeded
       else Inr \<lparr>fws_mount = mount, fws_path = path, fws_expected_bytes = expected_bytes\<rparr>)))))"

interpretation filesystem_write_stream: payload_codec filesystem_write_stream_typed
  filesystem_write_stream_encode filesystem_write_stream_decode
proof
  fix p m
  show "filesystem_write_stream_decode p = Inr m
    \<longleftrightarrow> filesystem_write_stream_typed m \<and> filesystem_write_stream_encode m = Inr p"
    by (cases m)
      (auto simp: filesystem_write_stream_decode_def filesystem_write_stream_typed_def
        filesystem_write_stream_encode_def
        payload file_limits)
qed

record filesystem_write_stream_opened =
  fwo_resource_id :: nat
  fwo_maximum_chunk_bytes :: nat

definition filesystem_write_stream_opened_typed :: "filesystem_write_stream_opened \<Rightarrow> bool" where
  "filesystem_write_stream_opened_typed v \<longleftrightarrow>
     uint_ok 8 (fwo_resource_id v)
     \<and> uint_ok 4 (fwo_maximum_chunk_bytes v)"

definition filesystem_write_stream_opened_encode :: "filesystem_write_stream_opened \<Rightarrow> payload_write" where
  "filesystem_write_stream_opened_encode v =
     (if fwo_resource_id v = 0 \<or> fwo_maximum_chunk_bytes v = 0 \<or> fwo_maximum_chunk_bytes v > MAX_FILE_WRITE_STREAM_CHUNK_BYTES
      then Inl SchMalformed
      else finish_payload ''OMFSWSO1''
       (puts [put_u64 (fwo_resource_id v), put_u32 (fwo_maximum_chunk_bytes v)]))"

definition filesystem_write_stream_opened_decode :: "char list \<Rightarrow> (schema_error, filesystem_write_stream_opened) result" where
  "filesystem_write_stream_opened_decode bytes =
     rbind (payload_new ''OMFSWSO1'' bytes) (\<lambda>d.
     rbind (get_u64 d) (\<lambda>(resource_id, d).
     rbind (get_u32 d) (\<lambda>(maximum_chunk_bytes, d).
     rbind (get_finish d) (\<lambda>_.
       if resource_id = 0 \<or> maximum_chunk_bytes = 0 \<or> maximum_chunk_bytes > MAX_FILE_WRITE_STREAM_CHUNK_BYTES then Inl SchMalformed
       else Inr \<lparr>fwo_resource_id = resource_id, fwo_maximum_chunk_bytes = maximum_chunk_bytes\<rparr>))))"

interpretation filesystem_write_stream_opened: payload_codec filesystem_write_stream_opened_typed
  filesystem_write_stream_opened_encode filesystem_write_stream_opened_decode
proof
  fix p m
  show "filesystem_write_stream_opened_decode p = Inr m
    \<longleftrightarrow> filesystem_write_stream_opened_typed m \<and> filesystem_write_stream_opened_encode m = Inr p"
    by (cases m)
      (auto simp: filesystem_write_stream_opened_decode_def filesystem_write_stream_opened_typed_def
        filesystem_write_stream_opened_encode_def
        payload file_limits)
qed

record filesystem_write_stream_chunk =
  fwc_resource_id :: nat
  fwc_offset :: nat
  fwc_bytes :: "char list"

definition filesystem_write_stream_chunk_typed :: "filesystem_write_stream_chunk \<Rightarrow> bool" where
  "filesystem_write_stream_chunk_typed v \<longleftrightarrow> uint_ok 8 (fwc_resource_id v) \<and> uint_ok 8 (fwc_offset v)"

definition filesystem_write_stream_chunk_encode :: "filesystem_write_stream_chunk \<Rightarrow> payload_write" where
  "filesystem_write_stream_chunk_encode v =
     (if fwc_resource_id v = 0 \<or> fwc_bytes v = [] \<or> length (fwc_bytes v) > MAX_FILE_WRITE_STREAM_CHUNK_BYTES
      then Inl SchLimitExceeded
      else finish_payload ''OMFSWSC1''
       (puts [put_u64 (fwc_resource_id v), put_u64 (fwc_offset v), put_u32 (length (fwc_bytes v)), put_raw (fwc_bytes v)]))"

definition filesystem_write_stream_chunk_decode ::
  "char list \<Rightarrow> (schema_error, filesystem_write_stream_chunk) result" where
  "filesystem_write_stream_chunk_decode bytes =
     rbind (payload_new ''OMFSWSC1'' bytes) (\<lambda>d.
     rbind (get_u64 d) (\<lambda>(resource_id, d).
     rbind (get_u64 d) (\<lambda>(offset, d).
     rbind (get_u32 d) (\<lambda>(n, d).
     if resource_id = 0 \<or> n = 0 \<or> n > MAX_FILE_WRITE_STREAM_CHUNK_BYTES then Inl SchLimitExceeded else
     rbind (get_take n d) (\<lambda>(bytes, d).
     rbind (get_finish d) (\<lambda>_.
       Inr \<lparr>fwc_resource_id = resource_id, fwc_offset = offset, fwc_bytes = bytes\<rparr>))))))"

interpretation filesystem_write_stream_chunk: payload_codec filesystem_write_stream_chunk_typed
  filesystem_write_stream_chunk_encode filesystem_write_stream_chunk_decode
proof
  fix p m
  show "filesystem_write_stream_chunk_decode p = Inr m
    \<longleftrightarrow> filesystem_write_stream_chunk_typed m \<and> filesystem_write_stream_chunk_encode m = Inr p"
    by (cases m)
      (auto simp: filesystem_write_stream_chunk_decode_def filesystem_write_stream_chunk_typed_def
        filesystem_write_stream_chunk_encode_def
        payload file_limits)
qed

type_synonym filesystem_write_stream_commit = nat

definition filesystem_write_stream_commit_encode :: "filesystem_write_stream_commit \<Rightarrow> payload_write" where
  "filesystem_write_stream_commit_encode resource_id =
     (if resource_id = 0 then Inl SchMalformed else finish_payload ''OMFSWSM1'' (puts [put_u64 resource_id]))"

definition filesystem_write_stream_commit_decode :: "char list \<Rightarrow> (schema_error, filesystem_write_stream_commit) result" where
  "filesystem_write_stream_commit_decode bytes =
     rbind (payload_new ''OMFSWSM1'' bytes) (\<lambda>d.
     rbind (get_u64 d) (\<lambda>(resource_id, d).
     rbind (get_finish d) (\<lambda>_. if resource_id = 0 then Inl SchMalformed else Inr resource_id)))"

interpretation filesystem_write_stream_commit: payload_codec "uint_ok 8" filesystem_write_stream_commit_encode filesystem_write_stream_commit_decode
  by unfold_locales (auto simp: filesystem_write_stream_commit_decode_def filesystem_write_stream_commit_encode_def payload)

record filesystem_path =
  fpa_mount :: string
  fpa_path :: string

definition filesystem_path_typed :: "filesystem_path \<Rightarrow> bool" where
  "filesystem_path_typed v \<longleftrightarrow>
     string_typed (fpa_mount v)
     \<and> string_typed (fpa_path v)"

definition filesystem_path_encode :: "filesystem_path \<Rightarrow> payload_write" where
  "filesystem_path_encode v =
     (finish_payload ''OMFSPTH1''
       (puts [put_string (fpa_mount v), put_string (fpa_path v)]))"

definition filesystem_path_decode :: "char list \<Rightarrow> (schema_error, filesystem_path) result" where
  "filesystem_path_decode bytes =
     rbind (payload_new ''OMFSPTH1'' bytes) (\<lambda>d.
     rbind (get_string d) (\<lambda>(mount, d).
     rbind (get_string d) (\<lambda>(path, d).
     rbind (get_finish d) (\<lambda>_.
       Inr \<lparr>fpa_mount = mount, fpa_path = path\<rparr>))))"

interpretation filesystem_path: payload_codec filesystem_path_typed
  filesystem_path_encode filesystem_path_decode
proof
  fix p m
  show "filesystem_path_decode p = Inr m
    \<longleftrightarrow> filesystem_path_typed m \<and> filesystem_path_encode m = Inr p"
    by (cases m)
      (auto simp: filesystem_path_decode_def filesystem_path_typed_def
        filesystem_path_encode_def
        payload)
qed

record filesystem_rename =
  fre_mount :: string
  fre_source :: string
  fre_destination :: string

definition filesystem_rename_typed :: "filesystem_rename \<Rightarrow> bool" where
  "filesystem_rename_typed v \<longleftrightarrow>
     string_typed (fre_mount v)
     \<and> string_typed (fre_source v)
     \<and> string_typed (fre_destination v)"

definition filesystem_rename_encode :: "filesystem_rename \<Rightarrow> payload_write" where
  "filesystem_rename_encode v =
     (finish_payload ''OMFSREN1''
       (puts [put_string (fre_mount v), put_string (fre_source v), put_string (fre_destination v)]))"

definition filesystem_rename_decode :: "char list \<Rightarrow> (schema_error, filesystem_rename) result" where
  "filesystem_rename_decode bytes =
     rbind (payload_new ''OMFSREN1'' bytes) (\<lambda>d.
     rbind (get_string d) (\<lambda>(mount, d).
     rbind (get_string d) (\<lambda>(source, d).
     rbind (get_string d) (\<lambda>(destination, d).
     rbind (get_finish d) (\<lambda>_.
       Inr \<lparr>fre_mount = mount, fre_source = source, fre_destination = destination\<rparr>)))))"

interpretation filesystem_rename: payload_codec filesystem_rename_typed
  filesystem_rename_encode filesystem_rename_decode
proof
  fix p m
  show "filesystem_rename_decode p = Inr m
    \<longleftrightarrow> filesystem_rename_typed m \<and> filesystem_rename_encode m = Inr p"
    by (cases m)
      (auto simp: filesystem_rename_decode_def filesystem_rename_typed_def
        filesystem_rename_encode_def
        payload)
qed

record filesystem_mutation_result =
  fmr_bytes_written :: nat
  fmr_resulting_size :: "nat option"

definition filesystem_mutation_result_typed :: "filesystem_mutation_result \<Rightarrow> bool" where
  "filesystem_mutation_result_typed v \<longleftrightarrow>
     uint_ok 8 (fmr_bytes_written v) \<and> pred_option (uint_ok 8) (fmr_resulting_size v)"

definition filesystem_mutation_result_encode :: "filesystem_mutation_result \<Rightarrow> payload_write" where
  "filesystem_mutation_result_encode v =
     finish_payload ''OMFSMUT1'' (puts [put_u64 (fmr_bytes_written v), put_optional put_u64 (fmr_resulting_size v)])"

definition filesystem_mutation_result_decode :: "char list \<Rightarrow> (schema_error, filesystem_mutation_result) result" where
  "filesystem_mutation_result_decode bytes =
     rbind (payload_new ''OMFSMUT1'' bytes) (\<lambda>d.
     rbind (get_u64 d) (\<lambda>(bytes_written, d).
     rbind (get_byte d) (\<lambda>(tag, d).
     rbind
       (if tag = 0 then Inr (None, d)
        else if tag = 1 then rbind (get_u64 d) (\<lambda>(size, d). Inr (Some size, d))
        else Inl SchMalformed) (\<lambda>(resulting_size, d).
     rbind (get_finish d) (\<lambda>_.
       Inr \<lparr>fmr_bytes_written = bytes_written, fmr_resulting_size = resulting_size\<rparr>)))))"

interpretation filesystem_mutation_result: payload_codec filesystem_mutation_result_typed
  filesystem_mutation_result_encode filesystem_mutation_result_decode
proof
  fix p m
  show "filesystem_mutation_result_decode p = Inr m
      \<longleftrightarrow> filesystem_mutation_result_typed m \<and> filesystem_mutation_result_encode m = Inr p"
    by (cases m; cases "fmr_resulting_size m")
      (auto simp: filesystem_mutation_result_decode_def filesystem_mutation_result_typed_def
        filesystem_mutation_result_encode_def put_optional_def payload)
qed

section \<open>Reading\<close>

record filesystem_read_file =
  frf_mount :: string
  frf_path :: string
  frf_offset :: nat
  frf_maximum_bytes :: nat

definition filesystem_read_file_typed :: "filesystem_read_file \<Rightarrow> bool" where
  "filesystem_read_file_typed v \<longleftrightarrow>
     string_typed (frf_mount v)
     \<and> string_typed (frf_path v)
     \<and> uint_ok 8 (frf_offset v)
     \<and> uint_ok 8 (frf_maximum_bytes v)"

definition filesystem_read_file_encode :: "filesystem_read_file \<Rightarrow> payload_write" where
  "filesystem_read_file_encode v =
     (if frf_maximum_bytes v = 0 \<or> frf_maximum_bytes v > MAX_FILE_CHUNK_BYTES
      then Inl SchLimitExceeded
      else finish_payload ''OMFSRED1''
       (puts [put_string (frf_mount v), put_string (frf_path v), put_u64 (frf_offset v), put_u64 (frf_maximum_bytes v)]))"

definition filesystem_read_file_decode :: "char list \<Rightarrow> (schema_error, filesystem_read_file) result" where
  "filesystem_read_file_decode bytes =
     rbind (payload_new ''OMFSRED1'' bytes) (\<lambda>d.
     rbind (get_string d) (\<lambda>(mount, d).
     rbind (get_string d) (\<lambda>(path, d).
     rbind (get_u64 d) (\<lambda>(offset, d).
     rbind (get_u64 d) (\<lambda>(maximum_bytes, d).
     rbind (get_finish d) (\<lambda>_.
       if maximum_bytes = 0 \<or> maximum_bytes > MAX_FILE_CHUNK_BYTES then Inl SchLimitExceeded
       else Inr \<lparr>frf_mount = mount, frf_path = path, frf_offset = offset, frf_maximum_bytes = maximum_bytes\<rparr>))))))"

interpretation filesystem_read_file: payload_codec filesystem_read_file_typed
  filesystem_read_file_encode filesystem_read_file_decode
proof
  fix p m
  show "filesystem_read_file_decode p = Inr m
    \<longleftrightarrow> filesystem_read_file_typed m \<and> filesystem_read_file_encode m = Inr p"
    by (cases m)
      (auto simp: filesystem_read_file_decode_def filesystem_read_file_typed_def
        filesystem_read_file_encode_def
        payload file_limits)
qed

record filesystem_read_stream =
  frs_mount :: string
  frs_path :: string
  frs_offset :: nat
  frs_maximum_bytes :: nat

definition filesystem_read_stream_typed :: "filesystem_read_stream \<Rightarrow> bool" where
  "filesystem_read_stream_typed v \<longleftrightarrow>
     string_typed (frs_mount v)
     \<and> string_typed (frs_path v)
     \<and> uint_ok 8 (frs_offset v)
     \<and> uint_ok 8 (frs_maximum_bytes v)"

definition filesystem_read_stream_encode :: "filesystem_read_stream \<Rightarrow> payload_write" where
  "filesystem_read_stream_encode v =
     (if frs_maximum_bytes v = 0 \<or> frs_maximum_bytes v > MAX_FILE_STREAM_BYTES
      then Inl SchLimitExceeded
      else finish_payload ''OMFSSTQ1''
       (puts [put_string (frs_mount v), put_string (frs_path v), put_u64 (frs_offset v), put_u64 (frs_maximum_bytes v)]))"

definition filesystem_read_stream_decode :: "char list \<Rightarrow> (schema_error, filesystem_read_stream) result" where
  "filesystem_read_stream_decode bytes =
     rbind (payload_new ''OMFSSTQ1'' bytes) (\<lambda>d.
     rbind (get_string d) (\<lambda>(mount, d).
     rbind (get_string d) (\<lambda>(path, d).
     rbind (get_u64 d) (\<lambda>(offset, d).
     rbind (get_u64 d) (\<lambda>(maximum_bytes, d).
     rbind (get_finish d) (\<lambda>_.
       if maximum_bytes = 0 \<or> maximum_bytes > MAX_FILE_STREAM_BYTES then Inl SchLimitExceeded
       else Inr \<lparr>frs_mount = mount, frs_path = path, frs_offset = offset, frs_maximum_bytes = maximum_bytes\<rparr>))))))"

interpretation filesystem_read_stream: payload_codec filesystem_read_stream_typed
  filesystem_read_stream_encode filesystem_read_stream_decode
proof
  fix p m
  show "filesystem_read_stream_decode p = Inr m
    \<longleftrightarrow> filesystem_read_stream_typed m \<and> filesystem_read_stream_encode m = Inr p"
    by (cases m)
      (auto simp: filesystem_read_stream_decode_def filesystem_read_stream_typed_def
        filesystem_read_stream_encode_def
        payload file_limits)
qed

type_synonym filesystem_stream_opened = nat

definition filesystem_stream_opened_encode :: "filesystem_stream_opened \<Rightarrow> payload_write" where
  "filesystem_stream_opened_encode resource_id =
     (if resource_id = 0 then Inl SchMalformed else finish_payload ''OMFSSOP1'' (puts [put_u64 resource_id]))"

definition filesystem_stream_opened_decode :: "char list \<Rightarrow> (schema_error, filesystem_stream_opened) result" where
  "filesystem_stream_opened_decode bytes =
     rbind (payload_new ''OMFSSOP1'' bytes) (\<lambda>d.
     rbind (get_u64 d) (\<lambda>(resource_id, d).
     rbind (get_finish d) (\<lambda>_. if resource_id = 0 then Inl SchMalformed else Inr resource_id)))"

interpretation filesystem_stream_opened: payload_codec "uint_ok 8" filesystem_stream_opened_encode filesystem_stream_opened_decode
  by unfold_locales (auto simp: filesystem_stream_opened_decode_def filesystem_stream_opened_encode_def payload)

datatype filesystem_stream_event =
    FseMetadata nat nat
  | FseChunk nat "char list"
  | FseComplete nat nat bool

fun filesystem_stream_event_encode :: "filesystem_stream_event \<Rightarrow> payload_write" where
  "filesystem_stream_event_encode (FseMetadata offset total_size) =
     finish_payload ''OMFSSTE1'' (puts [put_byte 0, put_u64 offset, put_u64 total_size])"
| "filesystem_stream_event_encode (FseChunk offset bytes) =
     (if bytes = [] \<or> length bytes > MAX_FILE_STREAM_CHUNK_BYTES then Inl SchLimitExceeded
      else finish_payload ''OMFSSTE1'' (puts [put_byte 1, put_u64 offset, put_sized bytes]))"
| "filesystem_stream_event_encode (FseComplete end_offset total_bytes eof) =
     finish_payload ''OMFSSTE1'' (puts [put_byte 2, put_u64 end_offset, put_u64 total_bytes, put_bool eof])"

definition filesystem_stream_event_decode :: "char list \<Rightarrow> (schema_error, filesystem_stream_event) result" where
  "filesystem_stream_event_decode bytes =
     rbind (payload_new ''OMFSSTE1'' bytes) (\<lambda>d.
     rbind (get_byte d) (\<lambda>(tag, d).
     rbind
       (if tag = 0 then
          rbind (get_u64 d) (\<lambda>(offset, d). rbind (get_u64 d) (\<lambda>(total_size, d). Inr (FseMetadata offset total_size, d)))
        else if tag = 1 then
          rbind (get_u64 d) (\<lambda>(offset, d).
          rbind (get_sized 1 MAX_FILE_STREAM_CHUNK_BYTES d) (\<lambda>(bytes, d). Inr (FseChunk offset bytes, d)))
        else if tag = 2 then
          rbind (get_u64 d) (\<lambda>(end_offset, d).
          rbind (get_u64 d) (\<lambda>(total_bytes, d).
          rbind (get_bool d) (\<lambda>(eof, d). Inr (FseComplete end_offset total_bytes eof, d))))
        else Inl SchMalformed) (\<lambda>(event, d).
     rbind (get_finish d) (\<lambda>_. Inr event))))"

fun filesystem_stream_event_typed :: "filesystem_stream_event \<Rightarrow> bool" where
  "filesystem_stream_event_typed (FseMetadata offset total_size) \<longleftrightarrow> uint_ok 8 offset \<and> uint_ok 8 total_size"
| "filesystem_stream_event_typed (FseChunk offset bytes) \<longleftrightarrow> uint_ok 8 offset"
| "filesystem_stream_event_typed (FseComplete end_offset total_bytes eof) \<longleftrightarrow> uint_ok 8 end_offset \<and> uint_ok 8 total_bytes"

interpretation filesystem_stream_event: payload_codec filesystem_stream_event_typed filesystem_stream_event_encode filesystem_stream_event_decode
proof
  fix p m
  show "filesystem_stream_event_decode p = Inr m \<longleftrightarrow> filesystem_stream_event_typed m \<and> filesystem_stream_event_encode m = Inr p"
    by (cases m) (auto simp: filesystem_stream_event_decode_def payload file_limits Suc_le_eq)
qed

record filesystem_file_chunk =
  ffc_offset :: nat
  ffc_total_size :: nat
  ffc_eof :: bool
  ffc_bytes :: "char list"

definition filesystem_file_chunk_typed :: "filesystem_file_chunk \<Rightarrow> bool" where
  "filesystem_file_chunk_typed v \<longleftrightarrow>
     uint_ok 8 (ffc_offset v)
     \<and> uint_ok 8 (ffc_total_size v)"

definition filesystem_file_chunk_encode :: "filesystem_file_chunk \<Rightarrow> payload_write" where
  "filesystem_file_chunk_encode v =
     (if length (ffc_bytes v) > MAX_FILE_CHUNK_BYTES
      then Inl SchLimitExceeded
      else finish_payload ''OMFSRPL1''
       (puts [put_u64 (ffc_offset v), put_u64 (ffc_total_size v), put_bool (ffc_eof v), put_sized (ffc_bytes v)]))"

definition filesystem_file_chunk_decode :: "char list \<Rightarrow> (schema_error, filesystem_file_chunk) result" where
  "filesystem_file_chunk_decode bytes =
     rbind (payload_new ''OMFSRPL1'' bytes) (\<lambda>d.
     rbind (get_u64 d) (\<lambda>(offset, d).
     rbind (get_u64 d) (\<lambda>(total_size, d).
     rbind (get_bool d) (\<lambda>(eof, d).
     rbind (get_sized 0 MAX_FILE_CHUNK_BYTES d) (\<lambda>(bytes, d).
     rbind (get_finish d) (\<lambda>_.
       Inr \<lparr>ffc_offset = offset, ffc_total_size = total_size, ffc_eof = eof, ffc_bytes = bytes\<rparr>))))))"

interpretation filesystem_file_chunk: payload_codec filesystem_file_chunk_typed
  filesystem_file_chunk_encode filesystem_file_chunk_decode
proof
  fix p m
  show "filesystem_file_chunk_decode p = Inr m
    \<longleftrightarrow> filesystem_file_chunk_typed m \<and> filesystem_file_chunk_encode m = Inr p"
    by (cases m)
      (auto simp: filesystem_file_chunk_decode_def filesystem_file_chunk_typed_def
        filesystem_file_chunk_encode_def
        payload file_limits)
qed

record filesystem_list_directory =
  fld_mount :: string
  fld_path :: string
  fld_maximum_entries :: nat

definition filesystem_list_directory_typed :: "filesystem_list_directory \<Rightarrow> bool" where
  "filesystem_list_directory_typed v \<longleftrightarrow>
     string_typed (fld_mount v)
     \<and> string_typed (fld_path v)
     \<and> uint_ok 2 (fld_maximum_entries v)"

definition filesystem_list_directory_encode :: "filesystem_list_directory \<Rightarrow> payload_write" where
  "filesystem_list_directory_encode v =
     (if fld_maximum_entries v = 0 \<or> fld_maximum_entries v > MAX_DIRECTORY_ENTRIES
      then Inl SchLimitExceeded
      else finish_payload ''OMFSLST1''
       (puts [put_string (fld_mount v), put_string (fld_path v), put_u16 (fld_maximum_entries v)]))"

definition filesystem_list_directory_decode :: "char list \<Rightarrow> (schema_error, filesystem_list_directory) result" where
  "filesystem_list_directory_decode bytes =
     rbind (payload_new ''OMFSLST1'' bytes) (\<lambda>d.
     rbind (get_string d) (\<lambda>(mount, d).
     rbind (get_string d) (\<lambda>(path, d).
     rbind (get_u16 d) (\<lambda>(maximum_entries, d).
     rbind (get_finish d) (\<lambda>_.
       if maximum_entries = 0 \<or> maximum_entries > MAX_DIRECTORY_ENTRIES then Inl SchLimitExceeded
       else Inr \<lparr>fld_mount = mount, fld_path = path, fld_maximum_entries = maximum_entries\<rparr>)))))"

interpretation filesystem_list_directory: payload_codec filesystem_list_directory_typed
  filesystem_list_directory_encode filesystem_list_directory_decode
proof
  fix p m
  show "filesystem_list_directory_decode p = Inr m
    \<longleftrightarrow> filesystem_list_directory_typed m \<and> filesystem_list_directory_encode m = Inr p"
    by (cases m)
      (auto simp: filesystem_list_directory_decode_def filesystem_list_directory_typed_def
        filesystem_list_directory_encode_def
        payload file_limits)
qed

datatype filesystem_entry_kind = RegularFile | Directory

record filesystem_entry =
  fen_name :: string
  fen_kind :: filesystem_entry_kind
  fen_size :: nat

definition put_entry :: "filesystem_entry \<Rightarrow> payload_write" where
  "put_entry e =
     puts [put_string (fen_name e), put_byte (case fen_kind e of RegularFile \<Rightarrow> 0 | Directory \<Rightarrow> 1), put_u64 (fen_size e)]"

definition get_entry :: "char list \<Rightarrow> filesystem_entry payload_read" where
  "get_entry d =
     rbind (get_string d) (\<lambda>(name, d).
     rbind (get_byte d) (\<lambda>(tag, d).
     rbind (if tag = 0 then Inr RegularFile else if tag = 1 then Inr Directory else Inl SchMalformed) (\<lambda>kind.
     rbind (get_u64 d) (\<lambda>(size, d). Inr (\<lparr>fen_name = name, fen_kind = kind, fen_size = size\<rparr>, d)))))"

definition entry_typed :: "filesystem_entry \<Rightarrow> bool" where
  "entry_typed e \<longleftrightarrow> string_typed (fen_name e) \<and> uint_ok 8 (fen_size e)"

interpretation entry: element_codec entry_typed put_entry get_entry
proof
  fix d x d'
  show "get_entry d = Inr (x, d') \<longleftrightarrow> entry_typed x \<and> (\<exists>bs. put_entry x = Inr bs \<and> d = bs @ d')"
    by (cases x; cases "fen_kind x") (auto simp: get_entry_def entry_typed_def put_entry_def payload)
qed

record filesystem_directory_entries =
  fde_entries :: "filesystem_entry list"
  fde_truncated :: bool

definition filesystem_directory_entries_typed :: "filesystem_directory_entries \<Rightarrow> bool" where
  "filesystem_directory_entries_typed v \<longleftrightarrow> list_all entry_typed (fde_entries v)"

definition filesystem_directory_entries_encode :: "filesystem_directory_entries \<Rightarrow> payload_write" where
  "filesystem_directory_entries_encode v =
     (if length (fde_entries v) > MAX_DIRECTORY_ENTRIES then Inl SchLimitExceeded
      else finish_payload ''OMFSDIR1''
       (puts [put_bool (fde_truncated v), put_u16 (length (fde_entries v)), puts (map put_entry (fde_entries v))]))"

definition filesystem_directory_entries_decode ::
  "char list \<Rightarrow> (schema_error, filesystem_directory_entries) result" where
  "filesystem_directory_entries_decode bytes =
     rbind (payload_new ''OMFSDIR1'' bytes) (\<lambda>d.
     rbind (get_bool d) (\<lambda>(truncated, d).
     rbind (get_u16 d) (\<lambda>(n, d).
     if n > MAX_DIRECTORY_ENTRIES then Inl SchLimitExceeded else
     rbind (get_times n get_entry d) (\<lambda>(entries, d).
     rbind (get_finish d) (\<lambda>_. Inr \<lparr>fde_entries = entries, fde_truncated = truncated\<rparr>)))))"

interpretation filesystem_directory_entries: payload_codec filesystem_directory_entries_typed
  filesystem_directory_entries_encode filesystem_directory_entries_decode
proof
  fix p m
  show "filesystem_directory_entries_decode p = Inr m
    \<longleftrightarrow> filesystem_directory_entries_typed m \<and> filesystem_directory_entries_encode m = Inr p"
    by (cases m)
      (auto simp: filesystem_directory_entries_decode_def filesystem_directory_entries_typed_def
        filesystem_directory_entries_encode_def
        payload file_limits entry.get_times_iff)
qed

end
