(* ===== verification/Payload_Services.thy ===== *)
theory Payload_Services
  imports Payload_Codec
begin

text \<open>
  The payloads of the D-Bus, HTTP and command capabilities (\<^verbatim>\<open>touchbar-broker-schema/src/lib.rs\<close>), in the
  manner of \<^verbatim>\<open>Payload_Filesystem\<close>. A double is its 64 bits: only finite ones are sent.
\<close>

definition MAX_ARGUMENTS :: nat where "MAX_ARGUMENTS = 32"
definition MAX_PROPERTIES :: nat where "MAX_PROPERTIES = 64"
definition MAX_HTTP_INLINE_BODY_BYTES :: nat where "MAX_HTTP_INLINE_BODY_BYTES = 47 * 1024"
definition MAX_HTTP_STREAM_CHUNK_BYTES :: nat where "MAX_HTTP_STREAM_CHUNK_BYTES = 12 * 1024"
definition MAX_COMMAND_VALUES :: nat where "MAX_COMMAND_VALUES = 32"
definition MAX_COMMAND_OUTPUT_CHUNK_BYTES :: nat where "MAX_COMMAND_OUTPUT_CHUNK_BYTES = 12 * 1024"

lemmas service_limits =
  MAX_ARGUMENTS_def MAX_PROPERTIES_def MAX_HTTP_INLINE_BODY_BYTES_def MAX_HTTP_STREAM_CHUNK_BYTES_def
  MAX_COMMAND_VALUES_def MAX_COMMAND_OUTPUT_CHUNK_BYTES_def

interpretation string: element_codec string_typed put_string get_string
  by unfold_locales (auto simp: payload)

section \<open>Commands\<close>

datatype command_value =
    CvInteger string int
  | CvFixedEnum string string
  | CvText string string
  | CvApprovedFile string string
  | CvUrl string string

fun command_value_name :: "command_value \<Rightarrow> string" where
  "command_value_name (CvInteger name _) = name"
| "command_value_name (CvFixedEnum name _) = name"
| "command_value_name (CvText name _) = name"
| "command_value_name (CvApprovedFile name _) = name"
| "command_value_name (CvUrl name _) = name"

fun put_command_value :: "command_value \<Rightarrow> payload_write" where
  "put_command_value (CvInteger name value) = puts [put_byte 0, put_string name, put_signed 8 value]"
| "put_command_value (CvFixedEnum name value) = puts [put_byte 1, put_string name, put_string value]"
| "put_command_value (CvText name value) = puts [put_byte 2, put_string name, put_string value]"
| "put_command_value (CvApprovedFile name path) = puts [put_byte 3, put_string name, put_string path]"
| "put_command_value (CvUrl name value) = puts [put_byte 4, put_string name, put_string value]"

definition get_command_value :: "char list \<Rightarrow> command_value payload_read" where
  "get_command_value d =
     rbind (get_byte d) (\<lambda>(tag, d).
       if tag = 0 then
         rbind (get_string d) (\<lambda>(name, d). rbind (get_signed 8 d) (\<lambda>(value, d). Inr (CvInteger name value, d)))
       else if tag = 1 then
         rbind (get_string d) (\<lambda>(name, d). rbind (get_string d) (\<lambda>(value, d). Inr (CvFixedEnum name value, d)))
       else if tag = 2 then
         rbind (get_string d) (\<lambda>(name, d). rbind (get_string d) (\<lambda>(value, d). Inr (CvText name value, d)))
       else if tag = 3 then
         rbind (get_string d) (\<lambda>(name, d). rbind (get_string d) (\<lambda>(path, d). Inr (CvApprovedFile name path, d)))
       else if tag = 4 then
         rbind (get_string d) (\<lambda>(name, d). rbind (get_string d) (\<lambda>(value, d). Inr (CvUrl name value, d)))
       else Inl SchMalformed)"

fun command_value_typed :: "command_value \<Rightarrow> bool" where
  "command_value_typed (CvInteger name value) \<longleftrightarrow> string_typed name \<and> signed_typed 8 value"
| "command_value_typed (CvFixedEnum name value) \<longleftrightarrow> string_typed name \<and> string_typed value"
| "command_value_typed (CvText name value) \<longleftrightarrow> string_typed name \<and> string_typed value"
| "command_value_typed (CvApprovedFile name path) \<longleftrightarrow> string_typed name \<and> string_typed path"
| "command_value_typed (CvUrl name value) \<longleftrightarrow> string_typed name \<and> string_typed value"

interpretation command_value: element_codec command_value_typed put_command_value get_command_value
proof
  fix d x d'
  show "get_command_value d = Inr (x, d')
    \<longleftrightarrow> command_value_typed x \<and> (\<exists>bs. put_command_value x = Inr bs \<and> d = bs @ d')"
    by (cases x) (auto simp: get_command_value_def payload simp del: puts.simps)
qed

text \<open>The loops of the request insert every name into a set and stop at a name they have seen.\<close>

fun put_command_values :: "string set \<Rightarrow> command_value list \<Rightarrow> payload_write" where
  "put_command_values names [] = Inr []"
| "put_command_values names (v # vs) =
     (if command_value_name v \<in> names then Inl SchMalformed
      else rbind (put_command_value v) (\<lambda>x.
        rbind (put_command_values (insert (command_value_name v) names) vs) (\<lambda>y. Inr (x @ y))))"

fun get_command_values :: "nat \<Rightarrow> string set \<Rightarrow> char list \<Rightarrow> (command_value list) payload_read" where
  "get_command_values 0 names d = Inr ([], d)"
| "get_command_values (Suc n) names d =
     rbind (get_command_value d) (\<lambda>(v, d).
       if command_value_name v \<in> names then Inl SchMalformed
       else rbind (get_command_values n (insert (command_value_name v) names) d) (\<lambda>(vs, d). Inr (v # vs, d)))"

lemma get_command_values_iff [payload]:
  "get_command_values n names d = Inr (vs, d') \<longleftrightarrow>
     length vs = n \<and> list_all command_value_typed vs
     \<and> (\<exists>bs. put_command_values names vs = Inr bs \<and> d = bs @ d')"
proof (induction n arbitrary: names d vs)
  case (Suc n)
  show ?case by (cases vs) (auto simp: command_value.get_iff Suc.IH if_eq_Inr)
qed auto

record command_run_request =
  crr_command_id :: string
  crr_values :: "command_value list"

definition command_run_request_typed :: "command_run_request \<Rightarrow> bool" where
  "command_run_request_typed v \<longleftrightarrow> string_typed (crr_command_id v) \<and> list_all command_value_typed (crr_values v)"

definition command_run_request_encode :: "command_run_request \<Rightarrow> payload_write" where
  "command_run_request_encode v =
     (if length (crr_values v) > MAX_COMMAND_VALUES then Inl SchLimitExceeded
      else finish_payload ''OMCMDQ01''
       (puts [put_string (crr_command_id v), put_u16 (length (crr_values v)), put_command_values {} (crr_values v)]))"

definition command_run_request_decode :: "char list \<Rightarrow> (schema_error, command_run_request) result" where
  "command_run_request_decode bytes =
     rbind (payload_new ''OMCMDQ01'' bytes) (\<lambda>d.
     rbind (get_string d) (\<lambda>(command_id, d).
     rbind (get_u16 d) (\<lambda>(n, d).
     if n > MAX_COMMAND_VALUES then Inl SchLimitExceeded else
     rbind (get_command_values n {} d) (\<lambda>(vals, d).
     rbind (get_finish d) (\<lambda>_. Inr \<lparr>crr_command_id = command_id, crr_values = vals\<rparr>)))))"

interpretation command_run_request: payload_codec command_run_request_typed
  command_run_request_encode command_run_request_decode
proof
  fix p m
  show "command_run_request_decode p = Inr m
    \<longleftrightarrow> command_run_request_typed m \<and> command_run_request_encode m = Inr p"
    by (cases m)
      (auto simp: command_run_request_decode_def command_run_request_typed_def
        command_run_request_encode_def
        payload service_limits)
qed

type_synonym command_opened = nat

definition command_opened_encode :: "command_opened \<Rightarrow> payload_write" where
  "command_opened_encode resource_id =
     (if resource_id = 0 then Inl SchMalformed else finish_payload ''OMCMDO01'' (puts [put_u64 resource_id]))"

definition command_opened_decode :: "char list \<Rightarrow> (schema_error, command_opened) result" where
  "command_opened_decode bytes =
     rbind (payload_new ''OMCMDO01'' bytes) (\<lambda>d.
     rbind (get_u64 d) (\<lambda>(resource_id, d).
     rbind (get_finish d) (\<lambda>_. if resource_id = 0 then Inl SchMalformed else Inr resource_id)))"

interpretation command_opened: payload_codec "uint_ok 8" command_opened_encode command_opened_decode
  by unfold_locales (auto simp: command_opened_decode_def command_opened_encode_def payload)

datatype command_event =
    CeStdout "char list"
  | CeStderr "char list"
  | CeExited "int option" "int option" nat nat

definition get_optional_i32 :: "char list \<Rightarrow> (int option) payload_read" where
  "get_optional_i32 d =
     rbind (get_byte d) (\<lambda>(tag, d).
       if tag = 0 then Inr (None, d)
       else if tag = 1 then rbind (get_signed 4 d) (\<lambda>(v, d). Inr (Some v, d))
       else Inl SchMalformed)"

lemma get_optional_i32_iff [payload]:
  "get_optional_i32 d = Inr (v, d') \<longleftrightarrow> (case v of None \<Rightarrow> d = char_of (0 :: nat) # d'
     | Some i \<Rightarrow> signed_typed 4 i \<and> d = char_of (1 :: nat) # signed_bytes 4 i @ d')"
  by (cases v) (auto simp: get_optional_i32_def payload)

lemma put_optional_i32_iff [payload]:
  "put_optional (put_signed 4) v = Inr bs \<longleftrightarrow> (case v of None \<Rightarrow> bs = [char_of (0 :: nat)]
     | Some i \<Rightarrow> bs = char_of (1 :: nat) # signed_bytes 4 i)"
  by (cases v) (auto simp: put_optional_def payload)

fun command_event_encode :: "command_event \<Rightarrow> payload_write" where
  "command_event_encode (CeStdout bytes) =
     (if bytes = [] \<or> length bytes > MAX_COMMAND_OUTPUT_CHUNK_BYTES then Inl SchLimitExceeded
      else finish_payload ''OMCMDE01'' (puts [put_byte 0, put_sized bytes]))"
| "command_event_encode (CeStderr bytes) =
     (if bytes = [] \<or> length bytes > MAX_COMMAND_OUTPUT_CHUNK_BYTES then Inl SchLimitExceeded
      else finish_payload ''OMCMDE01'' (puts [put_byte 1, put_sized bytes]))"
| "command_event_encode (CeExited exit_code signal stdout_bytes stderr_bytes) =
     (if (exit_code \<noteq> None) = (signal \<noteq> None) then Inl SchMalformed
      else finish_payload ''OMCMDE01''
       (puts [put_byte 2, put_optional (put_signed 4) exit_code, put_optional (put_signed 4) signal,
         put_u64 stdout_bytes, put_u64 stderr_bytes]))"

definition command_event_decode :: "char list \<Rightarrow> (schema_error, command_event) result" where
  "command_event_decode bytes =
     rbind (payload_new ''OMCMDE01'' bytes) (\<lambda>d.
     rbind (get_byte d) (\<lambda>(tag, d).
     rbind
       (if tag = 0 then
          rbind (get_sized 1 MAX_COMMAND_OUTPUT_CHUNK_BYTES d) (\<lambda>(bytes, d). Inr (CeStdout bytes, d))
        else if tag = 1 then
          rbind (get_sized 1 MAX_COMMAND_OUTPUT_CHUNK_BYTES d) (\<lambda>(bytes, d). Inr (CeStderr bytes, d))
        else if tag = 2 then
          rbind (get_optional_i32 d) (\<lambda>(exit_code, d).
          rbind (get_optional_i32 d) (\<lambda>(signal, d).
          if (exit_code \<noteq> None) = (signal \<noteq> None) then Inl SchMalformed else
          rbind (get_u64 d) (\<lambda>(stdout_bytes, d).
          rbind (get_u64 d) (\<lambda>(stderr_bytes, d). Inr (CeExited exit_code signal stdout_bytes stderr_bytes, d)))))
        else Inl SchMalformed) (\<lambda>(event, d).
     rbind (get_finish d) (\<lambda>_. Inr event))))"

fun command_event_typed :: "command_event \<Rightarrow> bool" where
  "command_event_typed (CeExited exit_code signal stdout_bytes stderr_bytes) \<longleftrightarrow>
     pred_option (signed_typed 4) exit_code \<and> pred_option (signed_typed 4) signal
     \<and> uint_ok 8 stdout_bytes \<and> uint_ok 8 stderr_bytes"
| "command_event_typed _ \<longleftrightarrow> True"

interpretation command_event: payload_codec command_event_typed command_event_encode command_event_decode
proof
  fix p m
  show "command_event_decode p = Inr m \<longleftrightarrow> command_event_typed m \<and> command_event_encode m = Inr p"
    by (cases m) (auto simp: command_event_decode_def payload service_limits Suc_le_eq split: option.splits)
qed

section \<open>HTTP\<close>

datatype http_request_method = HmGet | HmHead | HmPost | HmPut | HmPatch | HmDelete

fun http_method_code :: "http_request_method \<Rightarrow> nat" where
  "http_method_code HmGet = 0"
| "http_method_code HmHead = 1"
| "http_method_code HmPost = 2"
| "http_method_code HmPut = 3"
| "http_method_code HmPatch = 4"
| "http_method_code HmDelete = 5"

definition decode_http_method :: "nat \<Rightarrow> (schema_error, http_request_method) result" where
  "decode_http_method code =
     (if code = 0 then Inr HmGet else if code = 1 then Inr HmHead else if code = 2 then Inr HmPost
      else if code = 3 then Inr HmPut else if code = 4 then Inr HmPatch else if code = 5 then Inr HmDelete
      else Inl SchMalformed)"

lemma decode_http_method_iff [payload]: "decode_http_method c = Inr m \<longleftrightarrow> c = http_method_code m"
  by (cases m) (auto simp: decode_http_method_def)

lemma http_method_code_less: "http_method_code m < 256"
  by (cases m) simp_all

definition get_http_method :: "char list \<Rightarrow> http_request_method payload_read" where
  "get_http_method d = rbind (get_byte d) (\<lambda>(code, d). rbind (decode_http_method code) (\<lambda>method. Inr (method, d)))"

lemma get_http_method_iff [payload]:
  "get_http_method d = Inr (m, d') \<longleftrightarrow> d = char_of (http_method_code m) # d'"
  by (auto simp: get_http_method_def payload http_method_code_less)

record http_request =
  htq_method :: http_request_method
  htq_url :: string
  htq_accept :: "string option"
  htq_content_type :: "string option"
  htq_body :: "char list"

definition http_request_typed :: "http_request \<Rightarrow> bool" where
  "http_request_typed v \<longleftrightarrow>
     string_typed (htq_url v)
     \<and> pred_option string_typed (htq_accept v)
     \<and> pred_option string_typed (htq_content_type v)"

definition http_request_encode :: "http_request \<Rightarrow> payload_write" where
  "http_request_encode v =
     (if length (htq_body v) > MAX_HTTP_INLINE_BODY_BYTES
      then Inl SchLimitExceeded
      else finish_payload ''OMHTTPQ1''
       (puts [put_byte (http_method_code (htq_method v)), put_string (htq_url v), put_optional put_string (htq_accept v), put_optional put_string (htq_content_type v), put_sized (htq_body v)]))"

definition http_request_decode :: "char list \<Rightarrow> (schema_error, http_request) result" where
  "http_request_decode bytes =
     rbind (payload_new ''OMHTTPQ1'' bytes) (\<lambda>d.
     rbind (get_http_method d) (\<lambda>(method, d).
     rbind (get_string d) (\<lambda>(url, d).
     rbind (get_optional_string d) (\<lambda>(accept, d).
     rbind (get_optional_string d) (\<lambda>(content_type, d).
     rbind (get_sized 0 MAX_HTTP_INLINE_BODY_BYTES d) (\<lambda>(body, d).
     rbind (get_finish d) (\<lambda>_.
       Inr \<lparr>htq_method = method, htq_url = url, htq_accept = accept, htq_content_type = content_type, htq_body = body\<rparr>)))))))"

interpretation http_request: payload_codec http_request_typed
  http_request_encode http_request_decode
proof
  fix p m
  show "http_request_decode p = Inr m
    \<longleftrightarrow> http_request_typed m \<and> http_request_encode m = Inr p"
    by (cases m)
      (auto simp: http_request_decode_def http_request_typed_def
        http_request_encode_def
        payload service_limits split: option.splits)
qed

definition http_status_ok :: "nat \<Rightarrow> bool" where
  "http_status_ok status \<longleftrightarrow> 100 \<le> status \<and> status \<le> 599"

record http_response =
  htr_status :: nat
  htr_final_url :: string
  htr_content_type :: "string option"
  htr_etag :: "string option"
  htr_body :: "char list"

definition http_response_typed :: "http_response \<Rightarrow> bool" where
  "http_response_typed v \<longleftrightarrow>
     uint_ok 2 (htr_status v)
     \<and> string_typed (htr_final_url v)
     \<and> pred_option string_typed (htr_content_type v)
     \<and> pred_option string_typed (htr_etag v)"

definition http_response_encode :: "http_response \<Rightarrow> payload_write" where
  "http_response_encode v =
     (if \<not> http_status_ok (htr_status v) \<or> length (htr_body v) > MAX_HTTP_INLINE_BODY_BYTES
      then Inl SchLimitExceeded
      else finish_payload ''OMHTTPR1''
       (puts [put_u16 (htr_status v), put_string (htr_final_url v), put_optional put_string (htr_content_type v), put_optional put_string (htr_etag v), put_sized (htr_body v)]))"

definition http_response_decode :: "char list \<Rightarrow> (schema_error, http_response) result" where
  "http_response_decode bytes =
     rbind (payload_new ''OMHTTPR1'' bytes) (\<lambda>d.
     rbind (get_u16 d) (\<lambda>(status, d).
     if \<not> http_status_ok status then Inl SchMalformed else
     rbind (get_string d) (\<lambda>(final_url, d).
     rbind (get_optional_string d) (\<lambda>(content_type, d).
     rbind (get_optional_string d) (\<lambda>(etag, d).
     rbind (get_sized 0 MAX_HTTP_INLINE_BODY_BYTES d) (\<lambda>(body, d).
     rbind (get_finish d) (\<lambda>_.
       Inr \<lparr>htr_status = status, htr_final_url = final_url, htr_content_type = content_type, htr_etag = etag, htr_body = body\<rparr>)))))))"

interpretation http_response: payload_codec http_response_typed
  http_response_encode http_response_decode
proof
  fix p m
  show "http_response_decode p = Inr m
    \<longleftrightarrow> http_response_typed m \<and> http_response_encode m = Inr p"
    by (cases m)
      (auto simp: http_response_decode_def http_response_typed_def
        http_response_encode_def
        payload service_limits split: option.splits)
qed

type_synonym http_stream_opened = nat

definition http_stream_opened_encode :: "http_stream_opened \<Rightarrow> payload_write" where
  "http_stream_opened_encode resource_id =
     (if resource_id = 0 then Inl SchMalformed else finish_payload ''OMHTTPO1'' (puts [put_u64 resource_id]))"

definition http_stream_opened_decode :: "char list \<Rightarrow> (schema_error, http_stream_opened) result" where
  "http_stream_opened_decode bytes =
     rbind (payload_new ''OMHTTPO1'' bytes) (\<lambda>d.
     rbind (get_u64 d) (\<lambda>(resource_id, d).
     rbind (get_finish d) (\<lambda>_. if resource_id = 0 then Inl SchMalformed else Inr resource_id)))"

interpretation http_stream_opened: payload_codec "uint_ok 8" http_stream_opened_encode http_stream_opened_decode
  by unfold_locales (auto simp: http_stream_opened_decode_def http_stream_opened_encode_def payload)

datatype http_stream_event =
    HseMetadata nat string "string option" "string option"
  | HseChunk "char list"
  | HseComplete nat

fun http_stream_event_encode :: "http_stream_event \<Rightarrow> payload_write" where
  "http_stream_event_encode (HseMetadata status final_url content_type etag) =
     (if \<not> http_status_ok status then Inl SchMalformed
      else finish_payload ''OMHTTPE1''
       (puts [put_byte 0, put_u16 status, put_string final_url, put_optional put_string content_type,
         put_optional put_string etag]))"
| "http_stream_event_encode (HseChunk bytes) =
     (if bytes = [] \<or> length bytes > MAX_HTTP_STREAM_CHUNK_BYTES then Inl SchLimitExceeded
      else finish_payload ''OMHTTPE1'' (puts [put_byte 1, put_sized bytes]))"
| "http_stream_event_encode (HseComplete total_bytes) =
     finish_payload ''OMHTTPE1'' (puts [put_byte 2, put_u64 total_bytes])"

definition http_stream_event_decode :: "char list \<Rightarrow> (schema_error, http_stream_event) result" where
  "http_stream_event_decode bytes =
     rbind (payload_new ''OMHTTPE1'' bytes) (\<lambda>d.
     rbind (get_byte d) (\<lambda>(tag, d).
     rbind
       (if tag = 0 then
          rbind (get_u16 d) (\<lambda>(status, d).
          if \<not> http_status_ok status then Inl SchMalformed else
          rbind (get_string d) (\<lambda>(final_url, d).
          rbind (get_optional_string d) (\<lambda>(content_type, d).
          rbind (get_optional_string d) (\<lambda>(etag, d). Inr (HseMetadata status final_url content_type etag, d)))))
        else if tag = 1 then
          rbind (get_sized 1 MAX_HTTP_STREAM_CHUNK_BYTES d) (\<lambda>(bytes, d). Inr (HseChunk bytes, d))
        else if tag = 2 then rbind (get_u64 d) (\<lambda>(total_bytes, d). Inr (HseComplete total_bytes, d))
        else Inl SchMalformed) (\<lambda>(event, d).
     rbind (get_finish d) (\<lambda>_. Inr event))))"

fun http_stream_event_typed :: "http_stream_event \<Rightarrow> bool" where
  "http_stream_event_typed (HseMetadata status final_url content_type etag) \<longleftrightarrow>
     uint_ok 2 status \<and> string_typed final_url \<and> pred_option string_typed content_type \<and> pred_option string_typed etag"
| "http_stream_event_typed (HseChunk bytes) \<longleftrightarrow> True"
| "http_stream_event_typed (HseComplete total_bytes) \<longleftrightarrow> uint_ok 8 total_bytes"

interpretation http_stream_event: payload_codec http_stream_event_typed http_stream_event_encode http_stream_event_decode
proof
  fix p m
  show "http_stream_event_decode p = Inr m \<longleftrightarrow> http_stream_event_typed m \<and> http_stream_event_encode m = Inr p"
    by (cases m) (auto simp: http_stream_event_decode_def payload service_limits Suc_le_eq split: option.splits)
qed

section \<open>D-Bus\<close>

datatype dbus_bus = DbSession | DbSystem

datatype dbus_reply_kind = DrUnit | DrVariantString | DrVariantI64

fun bus_code :: "dbus_bus \<Rightarrow> nat" where
  "bus_code DbSession = 0"
| "bus_code DbSystem = 1"

definition get_bus :: "char list \<Rightarrow> dbus_bus payload_read" where
  "get_bus d =
     rbind (get_byte d) (\<lambda>(tag, d).
       if tag = 0 then Inr (DbSession, d) else if tag = 1 then Inr (DbSystem, d) else Inl SchMalformed)"

lemma get_bus_iff [payload]: "get_bus d = Inr (b, d') \<longleftrightarrow> d = char_of (bus_code b) # d'"
  by (cases b) (auto simp: get_bus_def payload)

fun reply_code :: "dbus_reply_kind \<Rightarrow> nat" where
  "reply_code DrUnit = 0"
| "reply_code DrVariantString = 1"
| "reply_code DrVariantI64 = 2"

definition get_reply_kind :: "char list \<Rightarrow> dbus_reply_kind payload_read" where
  "get_reply_kind d =
     rbind (get_byte d) (\<lambda>(tag, d).
       if tag = 0 then Inr (DrUnit, d) else if tag = 1 then Inr (DrVariantString, d)
       else if tag = 2 then Inr (DrVariantI64, d) else Inl SchMalformed)"

lemma get_reply_kind_iff [payload]: "get_reply_kind d = Inr (r, d') \<longleftrightarrow> d = char_of (reply_code r) # d'"
  by (cases r) (auto simp: get_reply_kind_def payload)

record dbus_call =
  dca_bus :: dbus_bus
  dca_destination :: string
  dca_path :: string
  dca_interface :: string
  dca_member :: string
  dca_arguments :: "string list"
  dca_reply :: dbus_reply_kind

definition dbus_call_signature :: "dbus_call \<Rightarrow> string" where
  "dbus_call_signature v = concat (replicate (length (dca_arguments v)) ''s'')"

definition dbus_call_typed :: "dbus_call \<Rightarrow> bool" where
  "dbus_call_typed v \<longleftrightarrow>
     string_typed (dca_destination v) \<and> string_typed (dca_path v) \<and> string_typed (dca_interface v)
     \<and> string_typed (dca_member v) \<and> list_all string_typed (dca_arguments v)"

definition dbus_call_encode :: "dbus_call \<Rightarrow> payload_write" where
  "dbus_call_encode v =
     (if length (dca_arguments v) > MAX_ARGUMENTS then Inl SchLimitExceeded
      else finish_payload ''OMDBUSC1''
       (puts [put_byte (bus_code (dca_bus v)), put_string (dca_destination v), put_string (dca_path v),
         put_string (dca_interface v), put_string (dca_member v), put_byte (reply_code (dca_reply v)),
         put_u16 (length (dca_arguments v)), puts (map put_string (dca_arguments v))]))"

definition dbus_call_decode :: "char list \<Rightarrow> (schema_error, dbus_call) result" where
  "dbus_call_decode bytes =
     rbind (payload_new ''OMDBUSC1'' bytes) (\<lambda>d.
     rbind (get_bus d) (\<lambda>(bus, d).
     rbind (get_string d) (\<lambda>(destination, d).
     rbind (get_string d) (\<lambda>(path, d).
     rbind (get_string d) (\<lambda>(interf, d).
     rbind (get_string d) (\<lambda>(member, d).
     rbind (get_reply_kind d) (\<lambda>(reply, d).
     rbind (get_u16 d) (\<lambda>(n, d).
     if n > MAX_ARGUMENTS then Inl SchLimitExceeded else
     rbind (get_times n get_string d) (\<lambda>(arguments, d).
     rbind (get_finish d) (\<lambda>_.
       Inr \<lparr>dca_bus = bus, dca_destination = destination, dca_path = path, dca_interface = interf,
         dca_member = member, dca_arguments = arguments, dca_reply = reply\<rparr>))))))))))"

interpretation dbus_call: payload_codec dbus_call_typed
  dbus_call_encode dbus_call_decode
proof
  fix p m
  show "dbus_call_decode p = Inr m
    \<longleftrightarrow> dbus_call_typed m \<and> dbus_call_encode m = Inr p"
    by (cases m)
      (auto simp: dbus_call_decode_def dbus_call_typed_def
        dbus_call_encode_def
        payload service_limits string.get_times_iff)
qed

record dbus_subscription =
  dsu_bus :: dbus_bus
  dsu_sender :: string
  dsu_path :: string
  dsu_interface :: string
  dsu_member :: string
  dsu_signature :: string
  dsu_argument_zero :: "string option"

definition dbus_subscription_typed :: "dbus_subscription \<Rightarrow> bool" where
  "dbus_subscription_typed v \<longleftrightarrow>
     string_typed (dsu_sender v)
     \<and> string_typed (dsu_path v)
     \<and> string_typed (dsu_interface v)
     \<and> string_typed (dsu_member v)
     \<and> string_typed (dsu_signature v)
     \<and> pred_option string_typed (dsu_argument_zero v)"

definition dbus_subscription_encode :: "dbus_subscription \<Rightarrow> payload_write" where
  "dbus_subscription_encode v =
     (finish_payload ''OMDBUSS1''
       (puts [put_byte (bus_code (dsu_bus v)), put_string (dsu_sender v), put_string (dsu_path v), put_string (dsu_interface v), put_string (dsu_member v), put_string (dsu_signature v), put_optional put_string (dsu_argument_zero v)]))"

definition dbus_subscription_decode :: "char list \<Rightarrow> (schema_error, dbus_subscription) result" where
  "dbus_subscription_decode bytes =
     rbind (payload_new ''OMDBUSS1'' bytes) (\<lambda>d.
     rbind (get_bus d) (\<lambda>(bus, d).
     rbind (get_string d) (\<lambda>(sender, d).
     rbind (get_string d) (\<lambda>(path, d).
     rbind (get_string d) (\<lambda>(interf, d).
     rbind (get_string d) (\<lambda>(member, d).
     rbind (get_string d) (\<lambda>(signature, d).
     rbind (get_optional_string d) (\<lambda>(argument_zero, d).
     rbind (get_finish d) (\<lambda>_.
       Inr \<lparr>dsu_bus = bus, dsu_sender = sender, dsu_path = path, dsu_interface = interf, dsu_member = member, dsu_signature = signature, dsu_argument_zero = argument_zero\<rparr>)))))))))"

interpretation dbus_subscription: payload_codec dbus_subscription_typed
  dbus_subscription_encode dbus_subscription_decode
proof
  fix p m
  show "dbus_subscription_decode p = Inr m
    \<longleftrightarrow> dbus_subscription_typed m \<and> dbus_subscription_encode m = Inr p"
    by (cases m)
      (auto simp: dbus_subscription_decode_def dbus_subscription_typed_def
        dbus_subscription_encode_def
        payload service_limits split: option.splits)
qed

type_synonym dbus_subscription_opened = nat

definition dbus_subscription_opened_encode :: "dbus_subscription_opened \<Rightarrow> payload_write" where
  "dbus_subscription_opened_encode resource_id =
     (if resource_id = 0 then Inl SchMalformed else finish_payload ''OMDBUSO1'' (puts [put_u64 resource_id]))"

definition dbus_subscription_opened_decode :: "char list \<Rightarrow> (schema_error, dbus_subscription_opened) result" where
  "dbus_subscription_opened_decode bytes =
     rbind (payload_new ''OMDBUSO1'' bytes) (\<lambda>d.
     rbind (get_u64 d) (\<lambda>(resource_id, d).
     rbind (get_finish d) (\<lambda>_. if resource_id = 0 then Inl SchMalformed else Inr resource_id)))"

interpretation dbus_subscription_opened: payload_codec "uint_ok 8" dbus_subscription_opened_encode dbus_subscription_opened_decode
  by unfold_locales (auto simp: dbus_subscription_opened_decode_def dbus_subscription_opened_encode_def payload)

datatype dbus_value =
    DvU8 nat
  | DvBool bool
  | DvI16 int
  | DvU16 nat
  | DvI32 int
  | DvU32 nat
  | DvI64 int
  | DvU64 nat
  | DvF64 nat
  | DvString string

text \<open>A double is finite unless all bits of its exponent are set.\<close>

definition f64_is_finite :: "nat \<Rightarrow> bool" where
  "f64_is_finite bits \<longleftrightarrow> (bits div 2 ^ 52) mod 2 ^ 11 \<noteq> 2 ^ 11 - 1"

fun put_value :: "dbus_value \<Rightarrow> payload_write" where
  "put_value (DvU8 v) = puts [put_byte 0, put_byte v]"
| "put_value (DvBool v) = puts [put_byte 1, put_bool v]"
| "put_value (DvI16 v) = puts [put_byte 2, put_signed 2 v]"
| "put_value (DvU16 v) = puts [put_byte 3, put_u16 v]"
| "put_value (DvI32 v) = puts [put_byte 4, put_signed 4 v]"
| "put_value (DvU32 v) = puts [put_byte 5, put_u32 v]"
| "put_value (DvI64 v) = puts [put_byte 6, put_signed 8 v]"
| "put_value (DvU64 v) = puts [put_byte 7, put_u64 v]"
| "put_value (DvF64 bits) = (if f64_is_finite bits then puts [put_byte 8, put_u64 bits] else Inl SchMalformed)"
| "put_value (DvString v) = puts [put_byte 9, put_string v]"

definition get_value :: "char list \<Rightarrow> dbus_value payload_read" where
  "get_value d =
     rbind (get_byte d) (\<lambda>(tag, d).
       if tag = 0 then rbind (get_byte d) (\<lambda>(v, d). Inr (DvU8 v, d))
       else if tag = 1 then rbind (get_bool d) (\<lambda>(v, d). Inr (DvBool v, d))
       else if tag = 2 then rbind (get_signed 2 d) (\<lambda>(v, d). Inr (DvI16 v, d))
       else if tag = 3 then rbind (get_u16 d) (\<lambda>(v, d). Inr (DvU16 v, d))
       else if tag = 4 then rbind (get_signed 4 d) (\<lambda>(v, d). Inr (DvI32 v, d))
       else if tag = 5 then rbind (get_u32 d) (\<lambda>(v, d). Inr (DvU32 v, d))
       else if tag = 6 then rbind (get_signed 8 d) (\<lambda>(v, d). Inr (DvI64 v, d))
       else if tag = 7 then rbind (get_u64 d) (\<lambda>(v, d). Inr (DvU64 v, d))
       else if tag = 8 then
         rbind (get_u64 d) (\<lambda>(bits, d). if f64_is_finite bits then Inr (DvF64 bits, d) else Inl SchMalformed)
       else if tag = 9 then rbind (get_string d) (\<lambda>(v, d). Inr (DvString v, d))
       else Inl SchMalformed)"

fun value_typed :: "dbus_value \<Rightarrow> bool" where
  "value_typed (DvU8 v) \<longleftrightarrow> uint_ok 1 v"
| "value_typed (DvBool v) \<longleftrightarrow> True"
| "value_typed (DvI16 v) \<longleftrightarrow> signed_typed 2 v"
| "value_typed (DvU16 v) \<longleftrightarrow> uint_ok 2 v"
| "value_typed (DvI32 v) \<longleftrightarrow> signed_typed 4 v"
| "value_typed (DvU32 v) \<longleftrightarrow> uint_ok 4 v"
| "value_typed (DvI64 v) \<longleftrightarrow> signed_typed 8 v"
| "value_typed (DvU64 v) \<longleftrightarrow> uint_ok 8 v"
| "value_typed (DvF64 v) \<longleftrightarrow> uint_ok 8 v"
| "value_typed (DvString v) \<longleftrightarrow> string_typed v"

lemma get_value_iff [payload]:
  "get_value d = Inr (x, d') \<longleftrightarrow> value_typed x \<and> (\<exists>bs. put_value x = Inr bs \<and> d = bs @ d')"
  by (cases x) (auto simp: get_value_def payload simp del: puts.simps)

record dbus_property =
  dpr_name :: string
  dpr_value :: dbus_value

definition put_property :: "dbus_property \<Rightarrow> payload_write" where
  "put_property p = puts [put_string (dpr_name p), put_value (dpr_value p)]"

definition get_property :: "char list \<Rightarrow> dbus_property payload_read" where
  "get_property d =
     rbind (get_string d) (\<lambda>(name, d). rbind (get_value d) (\<lambda>(v, d). Inr (\<lparr>dpr_name = name, dpr_value = v\<rparr>, d)))"

definition property_typed :: "dbus_property \<Rightarrow> bool" where
  "property_typed p \<longleftrightarrow> string_typed (dpr_name p) \<and> value_typed (dpr_value p)"

interpretation property: element_codec property_typed put_property get_property
proof
  fix d x d'
  show "get_property d = Inr (x, d') \<longleftrightarrow> property_typed x \<and> (\<exists>bs. put_property x = Inr bs \<and> d = bs @ d')"
    by (cases x) (auto simp: get_property_def put_property_def property_typed_def payload)
qed

record dbus_properties_changed =
  dpc_interface_name :: string
  dpc_changed_properties :: "dbus_property list"
  dpc_invalidated_properties :: "string list"

definition dbus_properties_changed_typed :: "dbus_properties_changed \<Rightarrow> bool" where
  "dbus_properties_changed_typed v \<longleftrightarrow>
     string_typed (dpc_interface_name v) \<and> list_all property_typed (dpc_changed_properties v)
     \<and> list_all string_typed (dpc_invalidated_properties v)"

definition dbus_properties_changed_encode :: "dbus_properties_changed \<Rightarrow> payload_write" where
  "dbus_properties_changed_encode v =
     (if length (dpc_changed_properties v) > MAX_PROPERTIES \<or> length (dpc_invalidated_properties v) > MAX_PROPERTIES
      then Inl SchLimitExceeded
      else finish_payload ''OMDBUSE1''
       (puts [put_string (dpc_interface_name v), put_u16 (length (dpc_changed_properties v)),
         puts (map put_property (dpc_changed_properties v)), put_u16 (length (dpc_invalidated_properties v)),
         puts (map put_string (dpc_invalidated_properties v))]))"

definition dbus_properties_changed_decode :: "char list \<Rightarrow> (schema_error, dbus_properties_changed) result" where
  "dbus_properties_changed_decode bytes =
     rbind (payload_new ''OMDBUSE1'' bytes) (\<lambda>d.
     rbind (get_string d) (\<lambda>(interface_name, d).
     rbind (get_u16 d) (\<lambda>(n, d).
     if n > MAX_PROPERTIES then Inl SchLimitExceeded else
     rbind (get_times n get_property d) (\<lambda>(changed, d).
     rbind (get_u16 d) (\<lambda>(k, d).
     if k > MAX_PROPERTIES then Inl SchLimitExceeded else
     rbind (get_times k get_string d) (\<lambda>(invalidated, d).
     rbind (get_finish d) (\<lambda>_.
       Inr \<lparr>dpc_interface_name = interface_name, dpc_changed_properties = changed,
         dpc_invalidated_properties = invalidated\<rparr>)))))))"

interpretation dbus_properties_changed: payload_codec dbus_properties_changed_typed
  dbus_properties_changed_encode dbus_properties_changed_decode
proof
  fix p m
  show "dbus_properties_changed_decode p = Inr m
    \<longleftrightarrow> dbus_properties_changed_typed m \<and> dbus_properties_changed_encode m = Inr p"
    by (cases m)
      (auto simp: dbus_properties_changed_decode_def dbus_properties_changed_typed_def
        dbus_properties_changed_encode_def
        payload service_limits string.get_times_iff property.get_times_iff)
qed

datatype dbus_reply =
    RepUnit
  | RepString string
  | RepI64 int

fun dbus_reply_encode :: "dbus_reply \<Rightarrow> payload_write" where
  "dbus_reply_encode RepUnit = finish_payload ''OMDBUSR1'' (puts [put_byte 0])"
| "dbus_reply_encode (RepString v) = finish_payload ''OMDBUSR1'' (puts [put_byte 1, put_string v])"
| "dbus_reply_encode (RepI64 v) = finish_payload ''OMDBUSR1'' (puts [put_byte 2, put_signed 8 v])"

definition dbus_reply_decode :: "char list \<Rightarrow> (schema_error, dbus_reply) result" where
  "dbus_reply_decode bytes =
     rbind (payload_new ''OMDBUSR1'' bytes) (\<lambda>d.
     rbind (get_byte d) (\<lambda>(tag, d).
     rbind
       (if tag = 0 then Inr (RepUnit, d)
        else if tag = 1 then rbind (get_string d) (\<lambda>(v, d). Inr (RepString v, d))
        else if tag = 2 then rbind (get_signed 8 d) (\<lambda>(v, d). Inr (RepI64 v, d))
        else Inl SchMalformed) (\<lambda>(reply, d).
     rbind (get_finish d) (\<lambda>_. Inr reply))))"

fun dbus_reply_typed :: "dbus_reply \<Rightarrow> bool" where
  "dbus_reply_typed RepUnit \<longleftrightarrow> True"
| "dbus_reply_typed (RepString v) \<longleftrightarrow> string_typed v"
| "dbus_reply_typed (RepI64 v) \<longleftrightarrow> signed_typed 8 v"

interpretation dbus_reply: payload_codec dbus_reply_typed dbus_reply_encode dbus_reply_decode
proof
  fix p m
  show "dbus_reply_decode p = Inr m \<longleftrightarrow> dbus_reply_typed m \<and> dbus_reply_encode m = Inr p"
    by (cases m) (auto simp: dbus_reply_decode_def payload)
qed

end
