(* ===== verification/Payload_Desktop.thy ===== *)
theory Payload_Desktop
  imports Payload_Codec
begin

text \<open>
  The payloads of the appearance, context, clipboard, secret, local endpoint, URI and notification
  capabilities (\<^verbatim>\<open>touchbar-broker-schema/src/lib.rs\<close>), in the manner of \<^verbatim>\<open>Payload_Filesystem\<close>. A
  \<^verbatim>\<open>BTreeSet\<close> of facts is a strictly sorted list: its decoder accepts the facts in any order, so a request
  has several payloads (\<open>context_read_exact\<close>).
\<close>

definition MAX_URI_BYTES :: nat where "MAX_URI_BYTES = 4096"
definition MAX_NOTIFICATION_TITLE_BYTES :: nat where "MAX_NOTIFICATION_TITLE_BYTES = 256"
definition MAX_NOTIFICATION_BODY_BYTES :: nat where "MAX_NOTIFICATION_BODY_BYTES = 4096"
definition MAX_LOCAL_FRAME_BYTES :: nat where "MAX_LOCAL_FRAME_BYTES = 12 * 1024"
definition MAX_SECRET_BYTES :: nat where "MAX_SECRET_BYTES = 48 * 1024"
definition MAX_SECRET_CONTENT_TYPE_BYTES :: nat where "MAX_SECRET_CONTENT_TYPE_BYTES = 128"
definition MAX_CLIPBOARD_BYTES :: nat where "MAX_CLIPBOARD_BYTES = 48 * 1024"
definition MAX_CLIPBOARD_MIME_BYTES :: nat where "MAX_CLIPBOARD_MIME_BYTES = 128"
definition MAX_CONTEXT_FACTS :: nat where "MAX_CONTEXT_FACTS = 32"
definition MAX_CONTEXT_VALUE_BYTES :: nat where "MAX_CONTEXT_VALUE_BYTES = 256"

lemmas desktop_limits =
  MAX_URI_BYTES_def MAX_NOTIFICATION_TITLE_BYTES_def MAX_NOTIFICATION_BODY_BYTES_def MAX_LOCAL_FRAME_BYTES_def
  MAX_SECRET_BYTES_def MAX_SECRET_CONTENT_TYPE_BYTES_def MAX_CLIPBOARD_BYTES_def MAX_CLIPBOARD_MIME_BYTES_def
  MAX_CONTEXT_FACTS_def MAX_CONTEXT_VALUE_BYTES_def

section \<open>Appearance\<close>

datatype appearance_scheme = Dark | Light

record appearance_color =
  col_red :: nat
  col_green :: nat
  col_blue :: nat

definition put_color :: "appearance_color \<Rightarrow> payload_write" where
  "put_color c = puts [put_byte (col_red c), put_byte (col_green c), put_byte (col_blue c)]"

definition get_color :: "char list \<Rightarrow> appearance_color payload_read" where
  "get_color d =
     rbind (get_byte d) (\<lambda>(red, d).
     rbind (get_byte d) (\<lambda>(green, d).
     rbind (get_byte d) (\<lambda>(blue, d). Inr (\<lparr>col_red = red, col_green = green, col_blue = blue\<rparr>, d))))"

definition color_typed :: "appearance_color \<Rightarrow> bool" where
  "color_typed c \<longleftrightarrow> uint_ok 1 (col_red c) \<and> uint_ok 1 (col_green c) \<and> uint_ok 1 (col_blue c)"

lemma get_color_iff [payload]:
  "get_color d = Inr (c, d') \<longleftrightarrow> color_typed c \<and> (\<exists>bs. put_color c = Inr bs \<and> d = bs @ d')"
  by (cases c) (auto simp: get_color_def put_color_def color_typed_def payload)

fun scheme_code :: "appearance_scheme \<Rightarrow> nat" where
  "scheme_code Dark = 0"
| "scheme_code Light = 1"

definition get_scheme :: "char list \<Rightarrow> appearance_scheme payload_read" where
  "get_scheme d =
     rbind (get_byte d) (\<lambda>(tag, d).
       if tag = 0 then Inr (Dark, d) else if tag = 1 then Inr (Light, d) else Inl SchMalformed)"

lemma get_scheme_iff [payload]: "get_scheme d = Inr (s, d') \<longleftrightarrow> d = char_of (scheme_code s) # d'"
  by (cases s) (auto simp: get_scheme_def payload)

record appearance_publish =
  apu_provider :: string
  apu_scheme :: appearance_scheme
  apu_background :: appearance_color
  apu_foreground :: appearance_color
  apu_accent :: appearance_color
  apu_selection :: appearance_color
  apu_muted :: appearance_color
  apu_destructive :: appearance_color

definition appearance_publish_typed :: "appearance_publish \<Rightarrow> bool" where
  "appearance_publish_typed v \<longleftrightarrow>
     string_typed (apu_provider v) \<and> color_typed (apu_background v) \<and> color_typed (apu_foreground v)
     \<and> color_typed (apu_accent v) \<and> color_typed (apu_selection v) \<and> color_typed (apu_muted v)
     \<and> color_typed (apu_destructive v)"

definition appearance_publish_encode :: "appearance_publish \<Rightarrow> payload_write" where
  "appearance_publish_encode v =
     (if apu_provider v = [] then Inl SchMalformed
      else finish_payload ''OMAPPPB1''
       (puts [put_string (apu_provider v), put_byte (scheme_code (apu_scheme v)), put_color (apu_background v),
         put_color (apu_foreground v), put_color (apu_accent v), put_color (apu_selection v), put_color (apu_muted v),
         put_color (apu_destructive v)]))"

definition appearance_publish_decode :: "char list \<Rightarrow> (schema_error, appearance_publish) result" where
  "appearance_publish_decode bytes =
     rbind (payload_new ''OMAPPPB1'' bytes) (\<lambda>d.
     rbind (get_string d) (\<lambda>(provider, d).
     if provider = [] then Inl SchMalformed else
     rbind (get_scheme d) (\<lambda>(scheme, d).
     rbind (get_color d) (\<lambda>(background, d).
     rbind (get_color d) (\<lambda>(foreground, d).
     rbind (get_color d) (\<lambda>(accent, d).
     rbind (get_color d) (\<lambda>(selection, d).
     rbind (get_color d) (\<lambda>(muted, d).
     rbind (get_color d) (\<lambda>(destructive, d).
     rbind (get_finish d) (\<lambda>_.
       Inr \<lparr>apu_provider = provider, apu_scheme = scheme, apu_background = background, apu_foreground = foreground,
         apu_accent = accent, apu_selection = selection, apu_muted = muted, apu_destructive = destructive\<rparr>))))))))))"

interpretation appearance_publish: payload_codec appearance_publish_typed
  appearance_publish_encode appearance_publish_decode
proof
  fix p m
  show "appearance_publish_decode p = Inr m
    \<longleftrightarrow> appearance_publish_typed m \<and> appearance_publish_encode m = Inr p"
    by (cases m)
      (auto simp: appearance_publish_decode_def appearance_publish_typed_def
        appearance_publish_encode_def
        payload)
qed

section \<open>Context\<close>

type_synonym context_read_request = "string list"

definition context_read_request_encode :: "context_read_request \<Rightarrow> payload_write" where
  "context_read_request_encode facts =
     (if facts = [] then Inl SchMalformed
      else if length facts > MAX_CONTEXT_FACTS then Inl SchLimitExceeded
      else finish_payload ''OMCTXRQ1'' (puts [put_u16 (length facts), puts (map put_string facts)]))"

fun get_facts :: "nat \<Rightarrow> string list \<Rightarrow> char list \<Rightarrow> (string list) payload_read" where
  "get_facts 0 facts d = Inr (facts, d)"
| "get_facts (Suc n) facts d =
     rbind (get_string d) (\<lambda>(fact, d).
       if fact \<in> set facts then Inl SchMalformed else get_facts n (insort fact facts) d)"

definition context_read_request_decode :: "char list \<Rightarrow> (schema_error, context_read_request) result" where
  "context_read_request_decode bytes =
     rbind (payload_new ''OMCTXRQ1'' bytes) (\<lambda>d.
     rbind (get_u16 d) (\<lambda>(n, d).
     if n = 0 then Inl SchMalformed
     else if n > MAX_CONTEXT_FACTS then Inl SchLimitExceeded
     else
     rbind (get_facts n [] d) (\<lambda>(facts, d).
     rbind (get_finish d) (\<lambda>_. Inr facts))))"

lemma get_facts_iff:
  assumes "sorted seen"
  shows "get_facts n seen d = Inr (facts, d') \<longleftrightarrow>
    (\<exists>xs bs. length xs = n \<and> distinct xs \<and> set xs \<inter> set seen = {} \<and> list_all string_typed xs
       \<and> puts (map put_string xs) = Inr bs \<and> d = bs @ d' \<and> facts = sort (xs @ seen))"
  using assms
proof (induction n arbitrary: seen d)
  case 0
  then show ?case by (auto simp: sorted_sort_id)
next
  case (Suc n)
  let ?P = "\<lambda>seen d xs bs. distinct xs \<and> set xs \<inter> set seen = {} \<and> list_all string_typed xs
       \<and> puts (map put_string xs) = Inr bs \<and> d = bs @ d' \<and> facts = sort (xs @ seen)"
  have sort: "sort (xs @ insort x seen) = sort ((x # xs) @ seen)" for x xs
    by (rule properties_for_sort) (simp_all add: sorted_insort)
  show ?case
  proof
    assume "get_facts (Suc n) seen d = Inr (facts, d')"
    then obtain x d1 where x: "get_string d = Inr (x, d1)" "x \<notin> set seen" "get_facts n (insort x seen) d1 = Inr (facts, d')"
      by (auto simp: if_eq_Inr simp del: get_string_iff)
    then obtain xs bs where "length xs = n" "?P (insort x seen) d1 xs bs"
      using Suc.IH [of "insort x seen" d1] Suc.prems by (auto simp: sorted_insort)
    moreover have "string_typed x" "put_string x = Inr (le_bytes 2 (length x) @ x)" "d = le_bytes 2 (length x) @ x @ d1"
      using x(1) by (auto simp: payload)
    ultimately show "\<exists>xs bs. length xs = Suc n \<and> ?P seen d xs bs"
      using x(2) sort by (intro exI [of _ "x # xs"] exI [of _ "(le_bytes 2 (length x) @ x) @ bs"]) (auto simp: set_insort_key)
  next
    assume "\<exists>xs bs. length xs = Suc n \<and> ?P seen d xs bs"
    then obtain x xs bs where xs: "length xs = n" "?P seen d (x # xs) bs"
      by (auto simp: length_Suc_conv)
    then obtain b bs' where b: "put_string x = Inr b" "puts (map put_string xs) = Inr bs'" "bs = b @ bs'" by auto
    then have "get_string d = Inr (x, bs' @ d')" using xs(2) by (auto simp: payload)
    moreover have "get_facts n (insort x seen) (bs' @ d') = Inr (facts, d')"
      using Suc.IH [of "insort x seen" "bs' @ d'"] Suc.prems xs b(2) sort [of xs x]
      by (fastforce simp: sorted_insort set_insort_key)
    ultimately show "get_facts (Suc n) seen d = Inr (facts, d')" using xs(2) by auto
  qed
qed

text \<open>The payloads of a request are those of all orders of its facts.\<close>

lemma context_read_exact:
  "context_read_request_decode p = Inr facts \<longleftrightarrow>
     (\<exists>xs. list_all string_typed xs \<and> distinct xs \<and> facts = sort xs \<and> context_read_request_encode xs = Inr p)"
proof
  assume "context_read_request_decode p = Inr facts"
  then show "\<exists>xs. list_all string_typed xs \<and> distinct xs \<and> facts = sort xs \<and> context_read_request_encode xs = Inr p"
    by (auto simp: context_read_request_decode_def context_read_request_encode_def payload get_facts_iff desktop_limits)
next
  assume "\<exists>xs. list_all string_typed xs \<and> distinct xs \<and> facts = sort xs \<and> context_read_request_encode xs = Inr p"
  then obtain xs where xs: "list_all string_typed xs" "distinct xs" "facts = sort xs" "context_read_request_encode xs = Inr p"
    by blast
  then obtain bs where bs: "puts (map put_string xs) = Inr bs" "p = ''OMCTXRQ1'' @ le_bytes 2 (length xs) @ bs"
    "length p \<le> MAX_PAYLOAD_BYTES" "xs \<noteq> []" "length xs \<le> MAX_CONTEXT_FACTS"
    by (auto simp: context_read_request_encode_def payload)
  have "get_facts (length xs) [] bs = Inr (facts, [])" using xs bs(1) by (fastforce simp: get_facts_iff)
  moreover have "payload_new ''OMCTXRQ1'' p = Inr (le_bytes 2 (length xs) @ bs)" using bs by (simp add: payload_new_iff)
  moreover have "get_u16 (le_bytes 2 (length xs) @ bs) = Inr (length xs, bs)"
    using bs(5) by (simp add: get_ints_iff desktop_limits)
  ultimately show "context_read_request_decode p = Inr facts"
    using bs(4,5) by (simp add: context_read_request_decode_def get_finish_def)
qed

datatype context_fact_value = CfText string | CfBoolean bool

record context_fact =
  cfa_key :: string
  cfa_value :: context_fact_value

record context_snapshot_payload =
  csp_generation :: nat
  csp_facts :: "context_fact list"

fun put_fact_value :: "context_fact_value \<Rightarrow> payload_write" where
  "put_fact_value (CfText value) =
     (if length value > MAX_CONTEXT_VALUE_BYTES then Inl SchLimitExceeded else puts [put_byte 0, put_string value])"
| "put_fact_value (CfBoolean value) = puts [put_byte 1, put_bool value]"

definition get_fact_value :: "char list \<Rightarrow> context_fact_value payload_read" where
  "get_fact_value d =
     rbind (get_byte d) (\<lambda>(tag, d).
       if tag = 0 then
         rbind (get_string d) (\<lambda>(value, d).
           if length value > MAX_CONTEXT_VALUE_BYTES then Inl SchLimitExceeded else Inr (CfText value, d))
       else if tag = 1 then rbind (get_bool d) (\<lambda>(value, d). Inr (CfBoolean value, d))
       else Inl SchMalformed)"

fun fact_value_typed :: "context_fact_value \<Rightarrow> bool" where
  "fact_value_typed (CfText value) \<longleftrightarrow> string_typed value"
| "fact_value_typed (CfBoolean value) \<longleftrightarrow> True"

lemma get_fact_value_iff [payload]:
  "get_fact_value d = Inr (v, d') \<longleftrightarrow> fact_value_typed v \<and> (\<exists>bs. put_fact_value v = Inr bs \<and> d = bs @ d')"
  by (cases v) (auto simp: get_fact_value_def payload simp del: puts.simps)

fun put_context_facts :: "string set \<Rightarrow> context_fact list \<Rightarrow> payload_write" where
  "put_context_facts keys [] = Inr []"
| "put_context_facts keys (f # fs) =
     (if cfa_key f \<in> keys then Inl SchMalformed
      else rbind (put_string (cfa_key f)) (\<lambda>x.
           rbind (put_fact_value (cfa_value f)) (\<lambda>y.
           rbind (put_context_facts (insert (cfa_key f) keys) fs) (\<lambda>z. Inr (x @ y @ z)))))"

fun get_context_facts :: "nat \<Rightarrow> string set \<Rightarrow> char list \<Rightarrow> (context_fact list) payload_read" where
  "get_context_facts 0 keys d = Inr ([], d)"
| "get_context_facts (Suc n) keys d =
     rbind (get_string d) (\<lambda>(key, d).
       if key \<in> keys then Inl SchMalformed else
       rbind (get_fact_value d) (\<lambda>(value, d).
       rbind (get_context_facts n (insert key keys) d) (\<lambda>(fs, d). Inr (\<lparr>cfa_key = key, cfa_value = value\<rparr> # fs, d))))"

definition context_fact_typed :: "context_fact \<Rightarrow> bool" where
  "context_fact_typed f \<longleftrightarrow> string_typed (cfa_key f) \<and> fact_value_typed (cfa_value f)"

lemma get_context_facts_iff [payload]:
  "get_context_facts n keys d = Inr (fs, d') \<longleftrightarrow>
     length fs = n \<and> list_all context_fact_typed fs \<and> (\<exists>bs. put_context_facts keys fs = Inr bs \<and> d = bs @ d')"
proof (induction n arbitrary: keys d fs)
  case (Suc n)
  show ?case
  proof (cases fs)
    case (Cons f gs)
    then show ?thesis
      by (cases f) (auto simp: payload Suc.IH context_fact_typed_def)
  qed auto
qed auto

definition encode_context_snapshot :: "string \<Rightarrow> nat option \<Rightarrow> context_snapshot_payload \<Rightarrow> payload_write" where
  "encode_context_snapshot magic resource_id snapshot =
     (if csp_generation snapshot = 0 then Inl SchMalformed
      else if length (csp_facts snapshot) > MAX_CONTEXT_FACTS then Inl SchLimitExceeded
      else finish_payload magic
       (puts [case resource_id of None \<Rightarrow> Inr [] | Some i \<Rightarrow> put_u64 i, put_u64 (csp_generation snapshot),
         put_u16 (length (csp_facts snapshot)), put_context_facts {} (csp_facts snapshot)]))"

definition decode_context_snapshot ::
  "char list \<Rightarrow> string \<Rightarrow> (schema_error, nat option \<times> context_snapshot_payload) result" where
  "decode_context_snapshot bytes magic =
     rbind (payload_new magic bytes) (\<lambda>d.
     rbind (if magic = ''OMCTXOP1'' then rbind (get_u64 d) (\<lambda>(i, d). Inr (Some i, d)) else Inr (None, d)) (\<lambda>(resource_id, d).
     rbind (get_u64 d) (\<lambda>(generation, d).
     if generation = 0 then Inl SchMalformed else
     rbind (get_u16 d) (\<lambda>(n, d).
     if n > MAX_CONTEXT_FACTS then Inl SchLimitExceeded else
     rbind (get_context_facts n {} d) (\<lambda>(facts, d).
     rbind (get_finish d) (\<lambda>_. Inr (resource_id, \<lparr>csp_generation = generation, csp_facts = facts\<rparr>)))))))"

definition snapshot_typed :: "context_snapshot_payload \<Rightarrow> bool" where
  "snapshot_typed v \<longleftrightarrow> uint_ok 8 (csp_generation v) \<and> list_all context_fact_typed (csp_facts v)"

lemma decode_context_snapshot_iff:
  "decode_context_snapshot p magic = Inr (i, s) \<longleftrightarrow>
     (i \<noteq> None) = (magic = ''OMCTXOP1'') \<and> pred_option (uint_ok 8) i \<and> snapshot_typed s
     \<and> encode_context_snapshot magic i s = Inr p"
  by (cases s; cases i)
    (auto simp: decode_context_snapshot_def encode_context_snapshot_def snapshot_typed_def payload desktop_limits)

definition context_snapshot_encode :: "context_snapshot_payload \<Rightarrow> payload_write" where
  "context_snapshot_encode v = encode_context_snapshot ''OMCTXSN1'' None v"

definition context_snapshot_decode :: "char list \<Rightarrow> (schema_error, context_snapshot_payload) result" where
  "context_snapshot_decode bytes = rmap snd (decode_context_snapshot bytes ''OMCTXSN1'')"

interpretation context_snapshot: payload_codec snapshot_typed context_snapshot_encode context_snapshot_decode
  by unfold_locales
    (auto simp: context_snapshot_decode_def context_snapshot_encode_def decode_context_snapshot_iff rmap_eq_Inr)

record context_subscription_opened =
  cso_resource_id :: nat
  cso_snapshot :: context_snapshot_payload

definition context_subscription_opened_typed :: "context_subscription_opened \<Rightarrow> bool" where
  "context_subscription_opened_typed v \<longleftrightarrow> uint_ok 8 (cso_resource_id v) \<and> snapshot_typed (cso_snapshot v)"

definition context_subscription_opened_encode :: "context_subscription_opened \<Rightarrow> payload_write" where
  "context_subscription_opened_encode v =
     (if cso_resource_id v = 0 then Inl SchMalformed
      else encode_context_snapshot ''OMCTXOP1'' (Some (cso_resource_id v)) (cso_snapshot v))"

definition context_subscription_opened_decode ::
  "char list \<Rightarrow> (schema_error, context_subscription_opened) result" where
  "context_subscription_opened_decode bytes =
     rbind (decode_context_snapshot bytes ''OMCTXOP1'') (\<lambda>(resource_id, snapshot).
     rbind (ok_or SchMalformed resource_id) (\<lambda>resource_id.
     if resource_id = 0 then Inl SchMalformed
     else Inr \<lparr>cso_resource_id = resource_id, cso_snapshot = snapshot\<rparr>))"

interpretation context_subscription_opened: payload_codec context_subscription_opened_typed
  context_subscription_opened_encode context_subscription_opened_decode
proof
  fix p m
  show "context_subscription_opened_decode p = Inr m
    \<longleftrightarrow> context_subscription_opened_typed m \<and> context_subscription_opened_encode m = Inr p"
    by (cases m) (auto simp: context_subscription_opened_decode_def context_subscription_opened_typed_def
        context_subscription_opened_encode_def decode_context_snapshot_iff ok_or_def if_eq_Inr split: option.splits)
qed

section \<open>Clipboard and secrets\<close>

record clipboard_read_request =
  clr_mime_type :: string

definition clipboard_read_request_typed :: "clipboard_read_request \<Rightarrow> bool" where
  "clipboard_read_request_typed v \<longleftrightarrow>
     string_typed (clr_mime_type v)"

definition clipboard_read_request_encode :: "clipboard_read_request \<Rightarrow> payload_write" where
  "clipboard_read_request_encode v =
     (if length (clr_mime_type v) > MAX_CLIPBOARD_MIME_BYTES
      then Inl SchLimitExceeded
      else finish_payload ''OMCLPRQ1''
       (puts [put_string (clr_mime_type v)]))"

definition clipboard_read_request_decode :: "char list \<Rightarrow> (schema_error, clipboard_read_request) result" where
  "clipboard_read_request_decode bytes =
     rbind (payload_new ''OMCLPRQ1'' bytes) (\<lambda>d.
     rbind (get_string d) (\<lambda>(mime_type, d).
     rbind (get_finish d) (\<lambda>_.
       if length (mime_type) > MAX_CLIPBOARD_MIME_BYTES then Inl SchLimitExceeded
       else Inr \<lparr>clr_mime_type = mime_type\<rparr>)))"

interpretation clipboard_read_request: payload_codec clipboard_read_request_typed
  clipboard_read_request_encode clipboard_read_request_decode
proof
  fix p m
  show "clipboard_read_request_decode p = Inr m
    \<longleftrightarrow> clipboard_read_request_typed m \<and> clipboard_read_request_encode m = Inr p"
    by (cases m)
      (auto simp: clipboard_read_request_decode_def clipboard_read_request_typed_def
        clipboard_read_request_encode_def
        payload desktop_limits)
qed

record clipboard_write_request =
  clw_mime_type :: string
  clw_bytes :: "char list"

definition clipboard_write_request_typed :: "clipboard_write_request \<Rightarrow> bool" where
  "clipboard_write_request_typed v \<longleftrightarrow>
     string_typed (clw_mime_type v)"

definition clipboard_write_request_encode :: "clipboard_write_request \<Rightarrow> payload_write" where
  "clipboard_write_request_encode v =
     (if length (clw_mime_type v) > MAX_CLIPBOARD_MIME_BYTES \<or> length (clw_bytes v) > MAX_CLIPBOARD_BYTES
      then Inl SchLimitExceeded
      else finish_payload ''OMCLPWQ1''
       (puts [put_string (clw_mime_type v), put_blob (clw_bytes v)]))"

definition clipboard_write_request_decode :: "char list \<Rightarrow> (schema_error, clipboard_write_request) result" where
  "clipboard_write_request_decode bytes =
     rbind (payload_new ''OMCLPWQ1'' bytes) (\<lambda>d.
     rbind (get_string d) (\<lambda>(mime_type, d).
     rbind (get_blob MAX_CLIPBOARD_BYTES d) (\<lambda>(bytes, d).
     rbind (get_finish d) (\<lambda>_.
       if length (mime_type) > MAX_CLIPBOARD_MIME_BYTES then Inl SchLimitExceeded
       else Inr \<lparr>clw_mime_type = mime_type, clw_bytes = bytes\<rparr>))))"

interpretation clipboard_write_request: payload_codec clipboard_write_request_typed
  clipboard_write_request_encode clipboard_write_request_decode
proof
  fix p m
  show "clipboard_write_request_decode p = Inr m
    \<longleftrightarrow> clipboard_write_request_typed m \<and> clipboard_write_request_encode m = Inr p"
    by (cases m)
      (auto simp: clipboard_write_request_decode_def clipboard_write_request_typed_def
        clipboard_write_request_encode_def
        payload desktop_limits)
qed

record clipboard_value =
  clv_mime_type :: string
  clv_bytes :: "char list"

definition clipboard_value_typed :: "clipboard_value \<Rightarrow> bool" where
  "clipboard_value_typed v \<longleftrightarrow>
     string_typed (clv_mime_type v)"

definition clipboard_value_encode :: "clipboard_value \<Rightarrow> payload_write" where
  "clipboard_value_encode v =
     (if length (clv_mime_type v) > MAX_CLIPBOARD_MIME_BYTES \<or> length (clv_bytes v) > MAX_CLIPBOARD_BYTES
      then Inl SchLimitExceeded
      else finish_payload ''OMCLPVL1''
       (puts [put_string (clv_mime_type v), put_blob (clv_bytes v)]))"

definition clipboard_value_decode :: "char list \<Rightarrow> (schema_error, clipboard_value) result" where
  "clipboard_value_decode bytes =
     rbind (payload_new ''OMCLPVL1'' bytes) (\<lambda>d.
     rbind (get_string d) (\<lambda>(mime_type, d).
     rbind (get_blob MAX_CLIPBOARD_BYTES d) (\<lambda>(bytes, d).
     rbind (get_finish d) (\<lambda>_.
       if length (mime_type) > MAX_CLIPBOARD_MIME_BYTES then Inl SchLimitExceeded
       else Inr \<lparr>clv_mime_type = mime_type, clv_bytes = bytes\<rparr>))))"

interpretation clipboard_value: payload_codec clipboard_value_typed
  clipboard_value_encode clipboard_value_decode
proof
  fix p m
  show "clipboard_value_decode p = Inr m
    \<longleftrightarrow> clipboard_value_typed m \<and> clipboard_value_encode m = Inr p"
    by (cases m)
      (auto simp: clipboard_value_decode_def clipboard_value_typed_def
        clipboard_value_encode_def
        payload desktop_limits)
qed

record secret_read_request =
  ser_logical_name :: string

definition secret_read_request_typed :: "secret_read_request \<Rightarrow> bool" where
  "secret_read_request_typed v \<longleftrightarrow>
     string_typed (ser_logical_name v)"

definition secret_read_request_encode :: "secret_read_request \<Rightarrow> payload_write" where
  "secret_read_request_encode v =
     (finish_payload ''OMSECRQ1''
       (puts [put_string (ser_logical_name v)]))"

definition secret_read_request_decode :: "char list \<Rightarrow> (schema_error, secret_read_request) result" where
  "secret_read_request_decode bytes =
     rbind (payload_new ''OMSECRQ1'' bytes) (\<lambda>d.
     rbind (get_string d) (\<lambda>(logical_name, d).
     rbind (get_finish d) (\<lambda>_.
       Inr \<lparr>ser_logical_name = logical_name\<rparr>)))"

interpretation secret_read_request: payload_codec secret_read_request_typed
  secret_read_request_encode secret_read_request_decode
proof
  fix p m
  show "secret_read_request_decode p = Inr m
    \<longleftrightarrow> secret_read_request_typed m \<and> secret_read_request_encode m = Inr p"
    by (cases m)
      (auto simp: secret_read_request_decode_def secret_read_request_typed_def
        secret_read_request_encode_def
        payload)
qed

record secret_value =
  sev_bytes :: "char list"
  sev_content_type :: string

definition secret_value_typed :: "secret_value \<Rightarrow> bool" where
  "secret_value_typed v \<longleftrightarrow>
     string_typed (sev_content_type v)"

definition secret_value_encode :: "secret_value \<Rightarrow> payload_write" where
  "secret_value_encode v =
     (if length (sev_bytes v) > MAX_SECRET_BYTES \<or> length (sev_content_type v) > MAX_SECRET_CONTENT_TYPE_BYTES
      then Inl SchLimitExceeded
      else finish_payload ''OMSECRV1''
       (puts [put_blob (sev_bytes v), put_string (sev_content_type v)]))"

definition secret_value_decode :: "char list \<Rightarrow> (schema_error, secret_value) result" where
  "secret_value_decode bytes =
     rbind (payload_new ''OMSECRV1'' bytes) (\<lambda>d.
     rbind (get_blob MAX_SECRET_BYTES d) (\<lambda>(bytes, d).
     rbind (get_string d) (\<lambda>(content_type, d).
     rbind (get_finish d) (\<lambda>_.
       if length (content_type) > MAX_SECRET_CONTENT_TYPE_BYTES then Inl SchLimitExceeded
       else Inr \<lparr>sev_bytes = bytes, sev_content_type = content_type\<rparr>))))"

interpretation secret_value: payload_codec secret_value_typed
  secret_value_encode secret_value_decode
proof
  fix p m
  show "secret_value_decode p = Inr m
    \<longleftrightarrow> secret_value_typed m \<and> secret_value_encode m = Inr p"
    by (cases m)
      (auto simp: secret_value_decode_def secret_value_typed_def
        secret_value_encode_def
        payload desktop_limits)
qed

section \<open>Local endpoints\<close>

record local_connect =
  loc_endpoint :: string
  loc_protocol :: string

definition local_connect_typed :: "local_connect \<Rightarrow> bool" where
  "local_connect_typed v \<longleftrightarrow>
     string_typed (loc_endpoint v)
     \<and> string_typed (loc_protocol v)"

definition local_connect_encode :: "local_connect \<Rightarrow> payload_write" where
  "local_connect_encode v =
     (finish_payload ''OMLOCNQ1''
       (puts [put_string (loc_endpoint v), put_string (loc_protocol v)]))"

definition local_connect_decode :: "char list \<Rightarrow> (schema_error, local_connect) result" where
  "local_connect_decode bytes =
     rbind (payload_new ''OMLOCNQ1'' bytes) (\<lambda>d.
     rbind (get_string d) (\<lambda>(endpoint, d).
     rbind (get_string d) (\<lambda>(protocol, d).
     rbind (get_finish d) (\<lambda>_.
       Inr \<lparr>loc_endpoint = endpoint, loc_protocol = protocol\<rparr>))))"

interpretation local_connect: payload_codec local_connect_typed
  local_connect_encode local_connect_decode
proof
  fix p m
  show "local_connect_decode p = Inr m
    \<longleftrightarrow> local_connect_typed m \<and> local_connect_encode m = Inr p"
    by (cases m)
      (auto simp: local_connect_decode_def local_connect_typed_def
        local_connect_encode_def
        payload)
qed

record local_connection_opened =
  loo_resource_id :: nat
  loo_maximum_frame_bytes :: nat

definition local_connection_opened_typed :: "local_connection_opened \<Rightarrow> bool" where
  "local_connection_opened_typed v \<longleftrightarrow>
     uint_ok 8 (loo_resource_id v)
     \<and> uint_ok 4 (loo_maximum_frame_bytes v)"

definition local_connection_opened_encode :: "local_connection_opened \<Rightarrow> payload_write" where
  "local_connection_opened_encode v =
     (if loo_resource_id v = 0 \<or> loo_maximum_frame_bytes v = 0 \<or> loo_maximum_frame_bytes v > MAX_LOCAL_FRAME_BYTES
      then Inl SchMalformed
      else finish_payload ''OMLOCNO1''
       (puts [put_u64 (loo_resource_id v), put_u32 (loo_maximum_frame_bytes v)]))"

definition local_connection_opened_decode :: "char list \<Rightarrow> (schema_error, local_connection_opened) result" where
  "local_connection_opened_decode bytes =
     rbind (payload_new ''OMLOCNO1'' bytes) (\<lambda>d.
     rbind (get_u64 d) (\<lambda>(resource_id, d).
     rbind (get_u32 d) (\<lambda>(maximum_frame_bytes, d).
     rbind (get_finish d) (\<lambda>_.
       if resource_id = 0 \<or> maximum_frame_bytes = 0 \<or> maximum_frame_bytes > MAX_LOCAL_FRAME_BYTES then Inl SchMalformed
       else Inr \<lparr>loo_resource_id = resource_id, loo_maximum_frame_bytes = maximum_frame_bytes\<rparr>))))"

interpretation local_connection_opened: payload_codec local_connection_opened_typed
  local_connection_opened_encode local_connection_opened_decode
proof
  fix p m
  show "local_connection_opened_decode p = Inr m
    \<longleftrightarrow> local_connection_opened_typed m \<and> local_connection_opened_encode m = Inr p"
    by (cases m)
      (auto simp: local_connection_opened_decode_def local_connection_opened_typed_def
        local_connection_opened_encode_def
        payload desktop_limits)
qed

record local_send_frame =
  los_resource_id :: nat
  los_bytes :: "char list"

definition local_send_frame_typed :: "local_send_frame \<Rightarrow> bool" where
  "local_send_frame_typed v \<longleftrightarrow>
     uint_ok 8 (los_resource_id v)"

definition local_send_frame_encode :: "local_send_frame \<Rightarrow> payload_write" where
  "local_send_frame_encode v =
     (if los_resource_id v = 0 \<or> los_bytes v = []
      then Inl SchMalformed
      else if length (los_bytes v) > MAX_LOCAL_FRAME_BYTES
      then Inl SchLimitExceeded
      else finish_payload ''OMLOCNS1''
       (puts [put_u64 (los_resource_id v), put_blob (los_bytes v)]))"

definition local_send_frame_decode :: "char list \<Rightarrow> (schema_error, local_send_frame) result" where
  "local_send_frame_decode bytes =
     rbind (payload_new ''OMLOCNS1'' bytes) (\<lambda>d.
     rbind (get_u64 d) (\<lambda>(resource_id, d).
     rbind (get_blob MAX_LOCAL_FRAME_BYTES d) (\<lambda>(bytes, d).
     rbind (get_finish d) (\<lambda>_.
       if resource_id = 0 \<or> bytes = [] then Inl SchMalformed
       else Inr \<lparr>los_resource_id = resource_id, los_bytes = bytes\<rparr>))))"

interpretation local_send_frame: payload_codec local_send_frame_typed
  local_send_frame_encode local_send_frame_decode
proof
  fix p m
  show "local_send_frame_decode p = Inr m
    \<longleftrightarrow> local_send_frame_typed m \<and> local_send_frame_encode m = Inr p"
    by (cases m)
      (auto simp: local_send_frame_decode_def local_send_frame_typed_def
        local_send_frame_encode_def
        payload desktop_limits)
qed

record local_frame_event =
  loe_bytes :: "char list"

definition local_frame_event_typed :: "local_frame_event \<Rightarrow> bool" where
  "local_frame_event_typed v \<longleftrightarrow>
     True"

definition local_frame_event_encode :: "local_frame_event \<Rightarrow> payload_write" where
  "local_frame_event_encode v =
     (if loe_bytes v = []
      then Inl SchMalformed
      else if length (loe_bytes v) > MAX_LOCAL_FRAME_BYTES
      then Inl SchLimitExceeded
      else finish_payload ''OMLOCNE1''
       (puts [put_blob (loe_bytes v)]))"

definition local_frame_event_decode :: "char list \<Rightarrow> (schema_error, local_frame_event) result" where
  "local_frame_event_decode bytes =
     rbind (payload_new ''OMLOCNE1'' bytes) (\<lambda>d.
     rbind (get_blob MAX_LOCAL_FRAME_BYTES d) (\<lambda>(bytes, d).
     rbind (get_finish d) (\<lambda>_.
       if bytes = [] then Inl SchMalformed
       else Inr \<lparr>loe_bytes = bytes\<rparr>)))"

interpretation local_frame_event: payload_codec local_frame_event_typed
  local_frame_event_encode local_frame_event_decode
proof
  fix p m
  show "local_frame_event_decode p = Inr m
    \<longleftrightarrow> local_frame_event_typed m \<and> local_frame_event_encode m = Inr p"
    by (cases m)
      (auto simp: local_frame_event_decode_def local_frame_event_typed_def
        local_frame_event_encode_def
        payload desktop_limits)
qed

section \<open>Desktop\<close>

record uri_open_request =
  uor_uri :: string

definition uri_open_request_typed :: "uri_open_request \<Rightarrow> bool" where
  "uri_open_request_typed v \<longleftrightarrow>
     string_typed (uor_uri v)"

definition uri_open_request_encode :: "uri_open_request \<Rightarrow> payload_write" where
  "uri_open_request_encode v =
     (if length (uor_uri v) > MAX_URI_BYTES
      then Inl SchLimitExceeded
      else finish_payload ''OMURIOP1''
       (puts [put_string (uor_uri v)]))"

definition uri_open_request_decode :: "char list \<Rightarrow> (schema_error, uri_open_request) result" where
  "uri_open_request_decode bytes =
     rbind (payload_new ''OMURIOP1'' bytes) (\<lambda>d.
     rbind (get_string d) (\<lambda>(uri, d).
     rbind (get_finish d) (\<lambda>_.
       if length (uri) > MAX_URI_BYTES then Inl SchLimitExceeded
       else Inr \<lparr>uor_uri = uri\<rparr>)))"

interpretation uri_open_request: payload_codec uri_open_request_typed
  uri_open_request_encode uri_open_request_decode
proof
  fix p m
  show "uri_open_request_decode p = Inr m
    \<longleftrightarrow> uri_open_request_typed m \<and> uri_open_request_encode m = Inr p"
    by (cases m)
      (auto simp: uri_open_request_decode_def uri_open_request_typed_def
        uri_open_request_encode_def
        payload desktop_limits)
qed

datatype notification_urgency_value = UvLow | UvNormal | UvCritical

fun urgency_code :: "notification_urgency_value \<Rightarrow> nat" where
  "urgency_code UvLow = 0"
| "urgency_code UvNormal = 1"
| "urgency_code UvCritical = 2"

definition get_urgency :: "char list \<Rightarrow> notification_urgency_value payload_read" where
  "get_urgency d =
     rbind (get_byte d) (\<lambda>(tag, d).
       if tag = 0 then Inr (UvLow, d) else if tag = 1 then Inr (UvNormal, d)
       else if tag = 2 then Inr (UvCritical, d) else Inl SchMalformed)"

lemma get_urgency_iff [payload]: "get_urgency d = Inr (u, d') \<longleftrightarrow> d = char_of (urgency_code u) # d'"
  by (cases u) (auto simp: get_urgency_def payload)

record notification_send =
  nos_id :: string
  nos_category :: string
  nos_urgency :: notification_urgency_value
  nos_title :: string
  nos_body :: string

definition notification_send_typed :: "notification_send \<Rightarrow> bool" where
  "notification_send_typed v \<longleftrightarrow>
     string_typed (nos_id v)
     \<and> string_typed (nos_category v)
     \<and> string_typed (nos_title v)
     \<and> string_typed (nos_body v)"

definition notification_send_encode :: "notification_send \<Rightarrow> payload_write" where
  "notification_send_encode v =
     (if length (nos_title v) > MAX_NOTIFICATION_TITLE_BYTES \<or> length (nos_body v) > MAX_NOTIFICATION_BODY_BYTES
      then Inl SchLimitExceeded
      else finish_payload ''OMNOTIF1''
       (puts [put_string (nos_id v), put_string (nos_category v), put_byte (urgency_code (nos_urgency v)), put_string (nos_title v), put_string (nos_body v)]))"

definition notification_send_decode :: "char list \<Rightarrow> (schema_error, notification_send) result" where
  "notification_send_decode bytes =
     rbind (payload_new ''OMNOTIF1'' bytes) (\<lambda>d.
     rbind (get_string d) (\<lambda>(id, d).
     rbind (get_string d) (\<lambda>(category, d).
     rbind (get_urgency d) (\<lambda>(urgency, d).
     rbind (get_string d) (\<lambda>(title, d).
     rbind (get_string d) (\<lambda>(body, d).
     rbind (get_finish d) (\<lambda>_.
       if length (title) > MAX_NOTIFICATION_TITLE_BYTES \<or> length (body) > MAX_NOTIFICATION_BODY_BYTES then Inl SchLimitExceeded
       else Inr \<lparr>nos_id = id, nos_category = category, nos_urgency = urgency, nos_title = title, nos_body = body\<rparr>)))))))"

interpretation notification_send: payload_codec notification_send_typed
  notification_send_encode notification_send_decode
proof
  fix p m
  show "notification_send_decode p = Inr m
    \<longleftrightarrow> notification_send_typed m \<and> notification_send_encode m = Inr p"
    by (cases m)
      (auto simp: notification_send_decode_def notification_send_typed_def
        notification_send_encode_def
        payload desktop_limits)
qed

record notification_remove =
  nor_id :: string

definition notification_remove_typed :: "notification_remove \<Rightarrow> bool" where
  "notification_remove_typed v \<longleftrightarrow>
     string_typed (nor_id v)"

definition notification_remove_encode :: "notification_remove \<Rightarrow> payload_write" where
  "notification_remove_encode v =
     (finish_payload ''OMNOTIR1''
       (puts [put_string (nor_id v)]))"

definition notification_remove_decode :: "char list \<Rightarrow> (schema_error, notification_remove) result" where
  "notification_remove_decode bytes =
     rbind (payload_new ''OMNOTIR1'' bytes) (\<lambda>d.
     rbind (get_string d) (\<lambda>(id, d).
     rbind (get_finish d) (\<lambda>_.
       Inr \<lparr>nor_id = id\<rparr>)))"

interpretation notification_remove: payload_codec notification_remove_typed
  notification_remove_encode notification_remove_decode
proof
  fix p m
  show "notification_remove_decode p = Inr m
    \<longleftrightarrow> notification_remove_typed m \<and> notification_remove_encode m = Inr p"
    by (cases m)
      (auto simp: notification_remove_decode_def notification_remove_typed_def
        notification_remove_encode_def
        payload)
qed

end
