(* ===== verification/Payload_Correct.thy ===== *)
theory Payload_Correct
  imports Payload_Filesystem Payload_Services Payload_Desktop
begin

text \<open>
  The properties of the capability payloads (\<^verbatim>\<open>touchbar-broker-schema/src/lib.rs\<close>): every decoder accepts
  exactly the encodings of its messages, and no payload is accepted by two decoders. The encoder checks and the
  decoder checks are different code; the theorems say that they describe the same set of payloads.
\<close>

section \<open>Exactness\<close>

text \<open>(C28) A filesystem payload decodes to a message exactly if it is the encoding of that
  message and the message is in the range of its types: what was sent is what is received, every accepted
  payload is the only one of its message, and every limit the encoder enforces the decoder enforces too.\<close>

theorem filesystem_payloads_exact:
  "(filesystem_write_file_decode p = Inr m1 \<longleftrightarrow> filesystem_write_file_typed m1 \<and> filesystem_write_file_encode m1 = Inr p)
   \<and> (filesystem_write_stream_decode p = Inr m2 \<longleftrightarrow> filesystem_write_stream_typed m2 \<and> filesystem_write_stream_encode m2 = Inr p)
   \<and> (filesystem_write_stream_opened_decode p = Inr m3 \<longleftrightarrow> filesystem_write_stream_opened_typed m3 \<and> filesystem_write_stream_opened_encode m3 = Inr p)
   \<and> (filesystem_write_stream_chunk_decode p = Inr m4 \<longleftrightarrow> filesystem_write_stream_chunk_typed m4 \<and> filesystem_write_stream_chunk_encode m4 = Inr p)
   \<and> (filesystem_write_stream_commit_decode p = Inr m5 \<longleftrightarrow> uint_ok 8 m5 \<and> filesystem_write_stream_commit_encode m5 = Inr p)
   \<and> (filesystem_path_decode p = Inr m6 \<longleftrightarrow> filesystem_path_typed m6 \<and> filesystem_path_encode m6 = Inr p)
   \<and> (filesystem_rename_decode p = Inr m7 \<longleftrightarrow> filesystem_rename_typed m7 \<and> filesystem_rename_encode m7 = Inr p)
   \<and> (filesystem_mutation_result_decode p = Inr m8 \<longleftrightarrow> filesystem_mutation_result_typed m8 \<and> filesystem_mutation_result_encode m8 = Inr p)
   \<and> (filesystem_read_file_decode p = Inr m9 \<longleftrightarrow> filesystem_read_file_typed m9 \<and> filesystem_read_file_encode m9 = Inr p)
   \<and> (filesystem_read_stream_decode p = Inr m10 \<longleftrightarrow> filesystem_read_stream_typed m10 \<and> filesystem_read_stream_encode m10 = Inr p)
   \<and> (filesystem_stream_opened_decode p = Inr m11 \<longleftrightarrow> uint_ok 8 m11 \<and> filesystem_stream_opened_encode m11 = Inr p)
   \<and> (filesystem_stream_event_decode p = Inr m12 \<longleftrightarrow> filesystem_stream_event_typed m12 \<and> filesystem_stream_event_encode m12 = Inr p)
   \<and> (filesystem_file_chunk_decode p = Inr m13 \<longleftrightarrow> filesystem_file_chunk_typed m13 \<and> filesystem_file_chunk_encode m13 = Inr p)
   \<and> (filesystem_list_directory_decode p = Inr m14 \<longleftrightarrow> filesystem_list_directory_typed m14 \<and> filesystem_list_directory_encode m14 = Inr p)
   \<and> (filesystem_directory_entries_decode p = Inr m15 \<longleftrightarrow> filesystem_directory_entries_typed m15 \<and> filesystem_directory_entries_encode m15 = Inr p)"
  by (intro conjI)
    (rule filesystem_write_file.exact filesystem_write_stream.exact filesystem_write_stream_opened.exact
      filesystem_write_stream_chunk.exact filesystem_write_stream_commit.exact filesystem_path.exact
      filesystem_rename.exact filesystem_mutation_result.exact filesystem_read_file.exact
      filesystem_read_stream.exact filesystem_stream_opened.exact filesystem_stream_event.exact
      filesystem_file_chunk.exact filesystem_list_directory.exact filesystem_directory_entries.exact)+

text \<open>(C29) The same for the D-Bus, HTTP and command payloads, with signed integers, finite
  doubles, optional strings, repeated elements and command values whose names must differ.\<close>

theorem service_payloads_exact:
  "(command_run_request_decode p = Inr m1 \<longleftrightarrow> command_run_request_typed m1 \<and> command_run_request_encode m1 = Inr p)
   \<and> (command_opened_decode p = Inr m2 \<longleftrightarrow> uint_ok 8 m2 \<and> command_opened_encode m2 = Inr p)
   \<and> (command_event_decode p = Inr m3 \<longleftrightarrow> command_event_typed m3 \<and> command_event_encode m3 = Inr p)
   \<and> (http_request_decode p = Inr m4 \<longleftrightarrow> http_request_typed m4 \<and> http_request_encode m4 = Inr p)
   \<and> (http_response_decode p = Inr m5 \<longleftrightarrow> http_response_typed m5 \<and> http_response_encode m5 = Inr p)
   \<and> (http_stream_opened_decode p = Inr m6 \<longleftrightarrow> uint_ok 8 m6 \<and> http_stream_opened_encode m6 = Inr p)
   \<and> (http_stream_event_decode p = Inr m7 \<longleftrightarrow> http_stream_event_typed m7 \<and> http_stream_event_encode m7 = Inr p)
   \<and> (dbus_call_decode p = Inr m8 \<longleftrightarrow> dbus_call_typed m8 \<and> dbus_call_encode m8 = Inr p)
   \<and> (dbus_subscription_decode p = Inr m9 \<longleftrightarrow> dbus_subscription_typed m9 \<and> dbus_subscription_encode m9 = Inr p)
   \<and> (dbus_subscription_opened_decode p = Inr m10 \<longleftrightarrow> uint_ok 8 m10 \<and> dbus_subscription_opened_encode m10 = Inr p)
   \<and> (dbus_properties_changed_decode p = Inr m11 \<longleftrightarrow> dbus_properties_changed_typed m11 \<and> dbus_properties_changed_encode m11 = Inr p)
   \<and> (dbus_reply_decode p = Inr m12 \<longleftrightarrow> dbus_reply_typed m12 \<and> dbus_reply_encode m12 = Inr p)"
  by (intro conjI)
    (rule command_run_request.exact command_opened.exact command_event.exact
      http_request.exact http_response.exact http_stream_opened.exact
      http_stream_event.exact dbus_call.exact dbus_subscription.exact
      dbus_subscription_opened.exact dbus_properties_changed.exact dbus_reply.exact)+


section \<open>No payload has two types\<close>

definition accepts :: "(char list \<Rightarrow> (schema_error, 'm) result) \<Rightarrow> char list \<Rightarrow> bool" where
  "accepts decode p = (case decode p of Inl _ \<Rightarrow> False | Inr _ \<Rightarrow> True)"

definition payload_kinds :: "(string \<times> (char list \<Rightarrow> bool)) list" where
  "payload_kinds = [(''OMFSWRT1'', accepts filesystem_write_file_decode), (''OMFSWSQ1'', accepts filesystem_write_stream_decode),
     (''OMFSWSO1'', accepts filesystem_write_stream_opened_decode), (''OMFSWSC1'', accepts filesystem_write_stream_chunk_decode),
     (''OMFSWSM1'', accepts filesystem_write_stream_commit_decode), (''OMFSPTH1'', accepts filesystem_path_decode),
     (''OMFSREN1'', accepts filesystem_rename_decode), (''OMFSMUT1'', accepts filesystem_mutation_result_decode),
     (''OMFSRED1'', accepts filesystem_read_file_decode), (''OMFSSTQ1'', accepts filesystem_read_stream_decode),
     (''OMFSSOP1'', accepts filesystem_stream_opened_decode), (''OMFSSTE1'', accepts filesystem_stream_event_decode),
     (''OMFSRPL1'', accepts filesystem_file_chunk_decode), (''OMFSLST1'', accepts filesystem_list_directory_decode),
     (''OMFSDIR1'', accepts filesystem_directory_entries_decode), (''OMCMDQ01'', accepts command_run_request_decode),
     (''OMCMDO01'', accepts command_opened_decode), (''OMCMDE01'', accepts command_event_decode),
     (''OMHTTPQ1'', accepts http_request_decode), (''OMHTTPR1'', accepts http_response_decode),
     (''OMHTTPO1'', accepts http_stream_opened_decode), (''OMHTTPE1'', accepts http_stream_event_decode),
     (''OMDBUSC1'', accepts dbus_call_decode), (''OMDBUSS1'', accepts dbus_subscription_decode),
     (''OMDBUSO1'', accepts dbus_subscription_opened_decode), (''OMDBUSE1'', accepts dbus_properties_changed_decode),
     (''OMDBUSR1'', accepts dbus_reply_decode), (''OMAPPPB1'', accepts appearance_publish_decode),
     (''OMCTXSN1'', accepts context_snapshot_decode), (''OMCTXOP1'', accepts context_subscription_opened_decode),
     (''OMCLPRQ1'', accepts clipboard_read_request_decode), (''OMCLPWQ1'', accepts clipboard_write_request_decode),
     (''OMCLPVL1'', accepts clipboard_value_decode), (''OMSECRQ1'', accepts secret_read_request_decode),
     (''OMSECRV1'', accepts secret_value_decode), (''OMLOCNQ1'', accepts local_connect_decode),
     (''OMLOCNO1'', accepts local_connection_opened_decode), (''OMLOCNS1'', accepts local_send_frame_decode),
     (''OMLOCNE1'', accepts local_frame_event_decode), (''OMURIOP1'', accepts uri_open_request_decode),
     (''OMNOTIF1'', accepts notification_send_decode), (''OMNOTIR1'', accepts notification_remove_decode),
     (''OMCTXRQ1'', accepts context_read_request_decode)]"

lemma accepts_magic: "decode p = rbind (payload_new magic p) f \<Longrightarrow> accepts decode p \<Longrightarrow> starts_with p magic"
  by (auto simp: accepts_def payload_new_def split: if_splits)

lemma accepts_snapshot_magic:
  "accepts context_snapshot_decode p \<Longrightarrow> starts_with p ''OMCTXSN1''"
  "accepts context_subscription_opened_decode p \<Longrightarrow> starts_with p ''OMCTXOP1''"
  by (auto simp: accepts_def payload_new_def context_snapshot_decode_def context_subscription_opened_decode_def
      decode_context_snapshot_def split: if_splits sum.splits)

lemmas payload_magics = accepts_snapshot_magic
  accepts_magic [of filesystem_write_file_decode, OF filesystem_write_file_decode_def]
  accepts_magic [of filesystem_write_stream_decode, OF filesystem_write_stream_decode_def]
  accepts_magic [of filesystem_write_stream_opened_decode, OF filesystem_write_stream_opened_decode_def]
  accepts_magic [of filesystem_write_stream_chunk_decode, OF filesystem_write_stream_chunk_decode_def]
  accepts_magic [of filesystem_write_stream_commit_decode, OF filesystem_write_stream_commit_decode_def]
  accepts_magic [of filesystem_path_decode, OF filesystem_path_decode_def]
  accepts_magic [of filesystem_rename_decode, OF filesystem_rename_decode_def]
  accepts_magic [of filesystem_mutation_result_decode, OF filesystem_mutation_result_decode_def]
  accepts_magic [of filesystem_read_file_decode, OF filesystem_read_file_decode_def]
  accepts_magic [of filesystem_read_stream_decode, OF filesystem_read_stream_decode_def]
  accepts_magic [of filesystem_stream_opened_decode, OF filesystem_stream_opened_decode_def]
  accepts_magic [of filesystem_stream_event_decode, OF filesystem_stream_event_decode_def]
  accepts_magic [of filesystem_file_chunk_decode, OF filesystem_file_chunk_decode_def]
  accepts_magic [of filesystem_list_directory_decode, OF filesystem_list_directory_decode_def]
  accepts_magic [of filesystem_directory_entries_decode, OF filesystem_directory_entries_decode_def]
  accepts_magic [of command_run_request_decode, OF command_run_request_decode_def]
  accepts_magic [of command_opened_decode, OF command_opened_decode_def]
  accepts_magic [of command_event_decode, OF command_event_decode_def]
  accepts_magic [of http_request_decode, OF http_request_decode_def]
  accepts_magic [of http_response_decode, OF http_response_decode_def]
  accepts_magic [of http_stream_opened_decode, OF http_stream_opened_decode_def]
  accepts_magic [of http_stream_event_decode, OF http_stream_event_decode_def]
  accepts_magic [of dbus_call_decode, OF dbus_call_decode_def]
  accepts_magic [of dbus_subscription_decode, OF dbus_subscription_decode_def]
  accepts_magic [of dbus_subscription_opened_decode, OF dbus_subscription_opened_decode_def]
  accepts_magic [of dbus_properties_changed_decode, OF dbus_properties_changed_decode_def]
  accepts_magic [of dbus_reply_decode, OF dbus_reply_decode_def]
  accepts_magic [of appearance_publish_decode, OF appearance_publish_decode_def]
  accepts_magic [of clipboard_read_request_decode, OF clipboard_read_request_decode_def]
  accepts_magic [of clipboard_write_request_decode, OF clipboard_write_request_decode_def]
  accepts_magic [of clipboard_value_decode, OF clipboard_value_decode_def]
  accepts_magic [of secret_read_request_decode, OF secret_read_request_decode_def]
  accepts_magic [of secret_value_decode, OF secret_value_decode_def]
  accepts_magic [of local_connect_decode, OF local_connect_decode_def]
  accepts_magic [of local_connection_opened_decode, OF local_connection_opened_decode_def]
  accepts_magic [of local_send_frame_decode, OF local_send_frame_decode_def]
  accepts_magic [of local_frame_event_decode, OF local_frame_event_decode_def]
  accepts_magic [of uri_open_request_decode, OF uri_open_request_decode_def]
  accepts_magic [of notification_send_decode, OF notification_send_decode_def]
  accepts_magic [of notification_remove_decode, OF notification_remove_decode_def]
  accepts_magic [of context_read_request_decode, OF context_read_request_decode_def]

lemma payload_kinds_magic: "(magic, acc) \<in> set payload_kinds \<Longrightarrow> acc p \<Longrightarrow> starts_with p magic"
proof -
  have "list_all (\<lambda>(magic, acc). acc p \<longrightarrow> starts_with p magic) payload_kinds"
    unfolding payload_kinds_def list.pred_inject prod.case
    by (intro conjI impI list.pred_inject(1)) (erule payload_magics)+
  then show "(magic, acc) \<in> set payload_kinds \<Longrightarrow> acc p \<Longrightarrow> starts_with p magic" by (auto simp: list_all_iff)
qed

lemma filter_key_le: "distinct (map fst xs) \<Longrightarrow> length (filter (\<lambda>x. fst x = k) xs) \<le> 1"
  by (induction xs) (auto simp: filter_empty_conv rev_image_eqI)

lemma length_filter_mono: "(\<And>x. x \<in> set xs \<Longrightarrow> P x \<Longrightarrow> Q x) \<Longrightarrow> length (filter P xs) \<le> length (filter Q xs)"
  by (induction xs) auto

text \<open>A payload is accepted by at most one of the 43 decoders, so that a message of one capability can never
  be read as a message of another.\<close>

theorem payload_has_one_type: "length (filter (\<lambda>(magic, acc). acc p) payload_kinds) \<le> 1"
proof -
  have len: "list_all (\<lambda>k. length (fst k) = 8) payload_kinds" and dist: "distinct (map fst payload_kinds)"
    by (simp_all add: payload_kinds_def)
  have "fst k = take 8 p" if "k \<in> set payload_kinds" "snd k p" for k
    using that payload_kinds_magic [of "fst k" "snd k" p] len by (auto simp: list_all_iff starts_with_def)
  then have "length (filter (\<lambda>(magic, acc). acc p) payload_kinds) \<le> length (filter (\<lambda>k. fst k = take 8 p) payload_kinds)"
    by (intro length_filter_mono) auto
  then show ?thesis using filter_key_le [OF dist, of "take 8 p"] by simp
qed

end
