(* ===== verification/Profile_Config.thy ===== *)
theory Profile_Config
  imports Controller
begin

text \<open>
  The user's profile configuration (\<^verbatim>\<open>touchbar-profile-config/src/lib.rs\<close>): the document as it is after parsing,
  its validation, and \<open>document_build\<close>, which turns it into the registry, the catalog and the controller of
  \<^verbatim>\<open>touchbar-model\<close> for the items that are connected.

  Every \<^verbatim>\<open>bail!\<close> of the source is a value of \<open>config_error\<close>; the errors of the model are passed on as
  \<open>CfModel\<close> and \<open>CfProfile\<close>, and the \<^verbatim>\<open>expect\<close> of \<^verbatim>\<open>build\<close> is the panic value.
\<close>

definition PROFILE_CONFIG_VERSION :: nat where "PROFILE_CONFIG_VERSION = 1"
definition MAX_PROFILES :: nat where "MAX_PROFILES = 64"
definition MAX_CONTRIBUTIONS :: nat where "MAX_CONTRIBUTIONS = 256"
definition MAX_RULES :: nat where "MAX_RULES = 256"
definition MAX_REGIONS :: nat where "MAX_REGIONS = 64"
definition MAX_CANVAS_WIDTH :: nat where "MAX_CANVAS_WIDTH = 8192"
definition MAX_ELEMENTS :: nat where "MAX_ELEMENTS = 512"
definition MAX_ITEMS :: nat where "MAX_ITEMS = 256"
definition MAX_PREDICATE_DEPTH :: nat where "MAX_PREDICATE_DEPTH = 8"
definition MAX_PREDICATE_NODES :: nat where "MAX_PREDICATE_NODES = 128"
definition MAX_CONTEXT_KEY_BYTES :: nat where "MAX_CONTEXT_KEY_BYTES = 128"
definition MAX_ID_BYTES :: nat where "MAX_ID_BYTES = 256"
definition MAX_VALUE_BYTES :: nat where "MAX_VALUE_BYTES = 256"

section \<open>The document\<close>

record profile_item_config =
  pic_plugin :: string
  pic_item :: string
  pic_required :: bool

record profile_item_ref_config =
  pir_plugin :: string
  pir_item :: string

datatype predicate_config =
    PcAlways
  | PcPresent string
  | PcTextEquals string string
  | PcBooleanEquals string bool
  | PcAll "predicate_config list"
  | PcAny "predicate_config list"
  | PcNot predicate_config

datatype scope_config = ScGlobal | ScWorkspace | ScApplication | ScWindow

datatype slot_policy_config = SpCollect | SpSelect | SpFixed

datatype group_layout_config = GlNatural | GlEqualWidth

datatype region_anchor = Leading | Center | Trailing

record contribution_config =
  cc_id :: string
  cc_items :: "profile_item_config list"
  cc_scope :: scope_config
  cc_priority :: int
  cc_when :: predicate_config

datatype profile_group_element_config =
    GcSlot string slot_policy_config "string list"
  | GcGroup string group_layout_config nat int int "profile_group_element_config list"

datatype profile_element_config =
    EcSlot string slot_policy_config "string list"
  | EcGroup string group_layout_config nat int int "profile_group_element_config list"
  | EcFixedSpace nat
  | EcFlexibleSpace nat nat

record profile_config =
  pc_id :: string
  pc_elements :: "profile_element_config list"
  pc_principal_item :: "profile_item_ref_config option"

record profile_rule_config =
  prc_profile :: string
  prc_priority :: int
  prc_when :: predicate_config

record region_config =
  rg_id :: string
  rg_anchor :: region_anchor
  rg_x :: nat
  rg_width :: nat

record profile_document =
  doc_version :: nat
  doc_fallback :: string
  doc_contributions :: "contribution_config list"
  doc_profiles :: "profile_config list"
  doc_rules :: "profile_rule_config list"
  doc_regions :: "region_config list"

datatype config_error =
    CfVersion nat
  | CfId string string
  | CfPluginId string string
  | CfFact string
  | CfPredicateBudget
  | CfEmptyPredicate
  | CfProfileCount
  | CfContributionLimit
  | CfRuleLimit
  | CfRegionLimit
  | CfDuplicateRegion string
  | CfRegionBounds string
  | CfRegionCentered string
  | CfDuplicateContribution string
  | CfEmptyContribution string
  | CfRepeatedItem string string string
  | CfItemLimit
  | CfDuplicateProfile string
  | CfEmptyProfile string
  | CfPrincipal string string string
  | CfElementLimit
  | CfFallback string
  | CfRuleProfile string
  | CfFixedSpace
  | CfFlexibleSpace
  | CfRepeatedGroup string string
  | CfGroupDepth string string
  | CfGroupSpacing string string
  | CfEmptyGroup string string
  | CfSlotDepth string string
  | CfRepeatedSlot string string
  | CfEmptySlot string string
  | CfUnknownContribution string string string
  | CfRepeatedBinding string string string
  | CfMissingItems "string list"
  | CfItemKey
  | CfUnknownProfile string
  | CfModel model_error
  | CfProfile profile_error

section \<open>Identifiers\<close>

definition id_start :: "char \<Rightarrow> bool" where
  "id_start b \<longleftrightarrow> is_ascii_lowercase b \<or> is_ascii_digit b"

definition id_char :: "char \<Rightarrow> bool" where
  "id_char b \<longleftrightarrow> is_ascii_lowercase b \<or> is_ascii_digit b \<or> b \<in> {CHR ''-'', CHR ''_'', CHR ''.''}"

definition validate_id :: "string \<Rightarrow> string \<Rightarrow> (config_error, unit) result" where
  "validate_id label value =
     (if value \<noteq> [] \<and> length value \<le> MAX_ID_BYTES \<and> id_start (hd value) \<and> list_all id_char value
      then Inr () else Inl (CfId label value))"

definition validate_plugin_id :: "string \<Rightarrow> string \<Rightarrow> (config_error, unit) result" where
  "validate_plugin_id label value =
     (if value \<noteq> [] \<and> length value \<le> MAX_VALUE_BYTES \<and> id_start (hd value)
         \<and> list_all (\<lambda>b. id_char b \<or> b \<in> {CHR '':'', CHR ''/''}) value
      then Inr () else Inl (CfPluginId label value))"

text \<open>\<^verbatim>\<open>chars().any(|c| c.is_control() || c.is_whitespace())\<close> on the UTF-8 bytes of a string.\<close>

fun control_or_space :: "nat list \<Rightarrow> bool" where
  "control_or_space [] = False"
| "control_or_space (a # bs) =
     (a \<le> 32 \<or> a = 127
      \<or> (case bs of
           [] \<Rightarrow> False
         | b # cs \<Rightarrow>
             a = 0xC2 \<and> 0x80 \<le> b \<and> b \<le> 0xA0
             \<or> (case cs of [] \<Rightarrow> False | c # _ \<Rightarrow> three_byte_space a b c))
      \<or> control_or_space bs)"

definition validate_fact :: "string \<Rightarrow> string \<Rightarrow> nat \<Rightarrow> (config_error, unit) result" where
  "validate_fact label value limit =
     (if value = [] \<or> length value > limit \<or> control_or_space (map of_char value)
      then Inl (CfFact label) else Inr ())"

definition qualified_item_id_unchecked :: "string \<Rightarrow> string \<Rightarrow> string" where
  "qualified_item_id_unchecked plugin item = plugin @ ''#'' @ item"

definition qualified_item_id :: "string \<Rightarrow> string \<Rightarrow> (config_error, string) result" where
  "qualified_item_id plugin item =
     rbind (validate_plugin_id ''plugin id'' plugin) (\<lambda>_.
     rbind (validate_id ''item id'' item) (\<lambda>_.
     Inr (qualified_item_id_unchecked plugin item)))"

definition qualified_name :: "profile_item_config \<Rightarrow> string" where
  "qualified_name it = qualified_item_id_unchecked (pic_plugin it) (pic_item it)"

definition qualified_ref :: "profile_item_ref_config \<Rightarrow> string" where
  "qualified_ref it = qualified_item_id_unchecked (pir_plugin it) (pir_item it)"

section \<open>Validation\<close>

fun validate_predicate :: "predicate_config \<Rightarrow> nat \<Rightarrow> nat \<Rightarrow> (config_error, nat) result" where
  "validate_predicate predicate depth nodes =
     (let nodes = nodes + 1 in
      if depth > MAX_PREDICATE_DEPTH \<or> nodes > MAX_PREDICATE_NODES then Inl CfPredicateBudget
      else (case predicate of
          PcAlways \<Rightarrow> Inr nodes
        | PcPresent key \<Rightarrow> rmap (\<lambda>_. nodes) (validate_fact ''context key'' key MAX_CONTEXT_KEY_BYTES)
        | PcBooleanEquals key _ \<Rightarrow> rmap (\<lambda>_. nodes) (validate_fact ''context key'' key MAX_CONTEXT_KEY_BYTES)
        | PcTextEquals key value \<Rightarrow>
            rbind (validate_fact ''context key'' key MAX_CONTEXT_KEY_BYTES) (\<lambda>_.
            rmap (\<lambda>_. nodes) (validate_fact ''context value'' value MAX_VALUE_BYTES))
        | PcAll ps \<Rightarrow>
            if ps = [] then Inl CfEmptyPredicate else rfold (\<lambda>n p. validate_predicate p (depth + 1) n) nodes ps
        | PcAny ps \<Rightarrow>
            if ps = [] then Inl CfEmptyPredicate else rfold (\<lambda>n p. validate_predicate p (depth + 1) n) nodes ps
        | PcNot p \<Rightarrow> validate_predicate p (depth + 1) nodes))"

declare validate_predicate.simps [simp del]

definition validate_slot_config ::
  "string \<Rightarrow> string list \<Rightarrow> string \<Rightarrow> string set \<Rightarrow> string set \<Rightarrow> (config_error, string set) result" where
  "validate_slot_config sid contributions profile contribution_ids slots =
     rbind (validate_id ''slot id'' sid) (\<lambda>_.
     if sid \<in> slots then Inl (CfRepeatedSlot profile sid)
     else if contributions = [] then Inl (CfEmptySlot profile sid)
     else
       rbind (rfold (\<lambda>bindings c.
           rbind (validate_id ''bound contribution'' c) (\<lambda>_.
           if c \<notin> contribution_ids then Inl (CfUnknownContribution profile sid c)
           else if c \<in> bindings then Inl (CfRepeatedBinding profile sid c)
           else Inr (insert c bindings))) {} contributions)
         (\<lambda>_. Inr (insert sid slots)))"

text \<open>The three accumulators of a profile: its slots, its groups and the number of elements.\<close>

record element_census =
  ec_slots :: "string set"
  ec_groups :: "string set"
  ec_count :: nat

fun validate_group_element_config ::
  "string \<Rightarrow> string set \<Rightarrow> string \<Rightarrow> nat \<Rightarrow> element_census \<Rightarrow> profile_group_element_config \<Rightarrow>
   (config_error, element_census) result"
and validate_group_config ::
  "string \<Rightarrow> string set \<Rightarrow> nat \<Rightarrow> element_census \<Rightarrow> string \<Rightarrow> nat \<Rightarrow> profile_group_element_config list \<Rightarrow>
   (config_error, element_census) result" where
  "validate_group_element_config profile contribution_ids gid depth census (GcSlot sid _ contributions) =
     (let census = census\<lparr>ec_count := ec_count census + 1\<rparr> in
      if depth \<ge> MAX_GROUP_DEPTH then Inl (CfSlotDepth profile gid)
      else rmap (\<lambda>slots. census\<lparr>ec_slots := slots\<rparr>)
             (validate_slot_config sid contributions profile contribution_ids (ec_slots census)))"
| "validate_group_element_config profile contribution_ids gid depth census (GcGroup sub _ sp _ _ els) =
     validate_group_config profile contribution_ids (depth + 1)
       (census\<lparr>ec_count := ec_count census + 1\<rparr>) sub sp els"
| "validate_group_config profile contribution_ids depth census gid sp els =
     rbind (validate_id ''group id'' gid) (\<lambda>_.
     if gid \<in> ec_groups census then Inl (CfRepeatedGroup profile gid)
     else if depth > MAX_GROUP_DEPTH then Inl (CfGroupDepth profile gid)
     else if sp > MAX_CANVAS_WIDTH then Inl (CfGroupSpacing profile gid)
     else if els = [] then Inl (CfEmptyGroup profile gid)
     else rfold (\<lambda>c e. validate_group_element_config profile contribution_ids gid depth c e)
            (census\<lparr>ec_groups := insert gid (ec_groups census)\<rparr>) els)"

definition validate_element_config ::
  "string \<Rightarrow> string set \<Rightarrow> element_census \<Rightarrow> profile_element_config \<Rightarrow> (config_error, element_census) result" where
  "validate_element_config profile contribution_ids census e =
     (let census = census\<lparr>ec_count := ec_count census + 1\<rparr> in
      case e of
        EcSlot sid _ contributions \<Rightarrow>
          rmap (\<lambda>slots. census\<lparr>ec_slots := slots\<rparr>)
            (validate_slot_config sid contributions profile contribution_ids (ec_slots census))
      | EcGroup gid _ sp _ _ els \<Rightarrow> validate_group_config profile contribution_ids 1 census gid sp els
      | EcFixedSpace w \<Rightarrow> if w > MAX_CANVAS_WIDTH then Inl CfFixedSpace else Inr census
      | EcFlexibleSpace least weight \<Rightarrow>
          if least > MAX_CANVAS_WIDTH \<or> weight = 0 then Inl CfFlexibleSpace else Inr census)"

definition validate_region :: "string set \<Rightarrow> region_config \<Rightarrow> (config_error, string set) result" where
  "validate_region ids r =
     rbind (validate_id ''region id'' (rg_id r)) (\<lambda>_.
     if rg_id r \<in> ids then Inl (CfDuplicateRegion (rg_id r))
     else if rg_width r = 0 \<or> rg_x r + rg_width r > u32_max \<or> rg_x r + rg_width r > MAX_CANVAS_WIDTH
       then Inl (CfRegionBounds (rg_id r))
     else if rg_anchor r = Center \<and> rg_x r \<noteq> 0 then Inl (CfRegionCentered (rg_id r))
     else Inr (insert (rg_id r) ids))"

definition validate_item_config ::
  "string \<Rightarrow> string set \<times> string set \<Rightarrow> profile_item_config \<Rightarrow> (config_error, string set \<times> string set) result" where
  "validate_item_config contribution st it =
     rbind (validate_plugin_id ''plugin id'' (pic_plugin it)) (\<lambda>_.
     rbind (validate_id ''item id'' (pic_item it)) (\<lambda>_.
     if qualified_name it \<in> fst st then Inl (CfRepeatedItem contribution (pic_plugin it) (pic_item it))
     else Inr (insert (qualified_name it) (fst st), insert (qualified_name it) (snd st))))"

text \<open>The accumulators of the contributions: identifiers, all items, predicate nodes.\<close>

type_synonym contribution_census = "string set \<times> string set \<times> nat"

definition validate_contribution_config ::
  "contribution_census \<Rightarrow> contribution_config \<Rightarrow> (config_error, contribution_census) result" where
  "validate_contribution_config st c =
     (case st of (ids, items, nodes) \<Rightarrow>
        rbind (validate_id ''contribution id'' (cc_id c)) (\<lambda>_.
        if cc_id c \<in> ids then Inl (CfDuplicateContribution (cc_id c))
        else if cc_items c = [] then Inl (CfEmptyContribution (cc_id c))
        else
          rbind (rfold (validate_item_config (cc_id c)) ({}, items) (cc_items c)) (\<lambda>local.
          rbind (validate_predicate (cc_when c) 1 nodes) (\<lambda>nodes.
          Inr (insert (cc_id c) ids, snd local, nodes)))))"

definition validate_profile_config ::
  "string set \<Rightarrow> string set \<Rightarrow> string set \<times> nat \<Rightarrow> profile_config \<Rightarrow> (config_error, string set \<times> nat) result" where
  "validate_profile_config contribution_ids all_items st p =
     rbind (validate_id ''profile id'' (pc_id p)) (\<lambda>_.
     if pc_id p \<in> fst st then Inl (CfDuplicateProfile (pc_id p))
     else if pc_elements p = [] then Inl (CfEmptyProfile (pc_id p))
     else
       rbind (case pc_principal_item p of
           None \<Rightarrow> Inr ()
         | Some r \<Rightarrow>
             rbind (validate_plugin_id ''principal plugin id'' (pir_plugin r)) (\<lambda>_.
             rbind (validate_id ''principal item id'' (pir_item r)) (\<lambda>_.
             if qualified_ref r \<notin> all_items then Inl (CfPrincipal (pc_id p) (pir_plugin r) (pir_item r))
             else Inr ()))) (\<lambda>_.
       rbind (rfold (validate_element_config (pc_id p) contribution_ids)
                \<lparr>ec_slots = {}, ec_groups = {}, ec_count = snd st\<rparr> (pc_elements p)) (\<lambda>census.
       Inr (insert (pc_id p) (fst st), ec_count census))))"

definition validate_rule_config ::
  "string set \<Rightarrow> nat \<Rightarrow> profile_rule_config \<Rightarrow> (config_error, nat) result" where
  "validate_rule_config profile_ids nodes r =
     (if prc_profile r \<notin> profile_ids then Inl (CfRuleProfile (prc_profile r))
      else validate_predicate (prc_when r) 1 nodes)"

definition document_validate :: "profile_document \<Rightarrow> (config_error, unit) result" where
  "document_validate d =
     (if doc_version d \<noteq> PROFILE_CONFIG_VERSION then Inl (CfVersion (doc_version d)) else
      rbind (validate_id ''fallback'' (doc_fallback d)) (\<lambda>_.
      if doc_profiles d = [] \<or> length (doc_profiles d) > MAX_PROFILES then Inl CfProfileCount
      else if length (doc_contributions d) > MAX_CONTRIBUTIONS then Inl CfContributionLimit
      else if length (doc_rules d) > MAX_RULES then Inl CfRuleLimit
      else if length (doc_regions d) > MAX_REGIONS then Inl CfRegionLimit
      else
        rbind (rfold validate_region {} (doc_regions d)) (\<lambda>_.
        rbind (rfold validate_contribution_config ({}, {}, 0) (doc_contributions d)) (\<lambda>(ids, items, nodes).
        if card items > MAX_ITEMS then Inl CfItemLimit
        else
          rbind (rfold (validate_profile_config ids items) ({}, 0) (doc_profiles d)) (\<lambda>(profile_ids, count).
          if count > MAX_ELEMENTS then Inl CfElementLimit
          else if doc_fallback d \<notin> profile_ids then Inl (CfFallback (doc_fallback d))
          else rmap (\<lambda>_. ()) (rfold (validate_rule_config profile_ids) nodes (doc_rules d)))))))"

section \<open>Reading the document\<close>

text \<open>\<^verbatim>\<open>collect::<BTreeSet<_>>()\<close>.\<close>

definition ordered_set :: "string list \<Rightarrow> string list" where
  "ordered_set xs = sort (remdups xs)"

definition doc_item_ids :: "profile_document \<Rightarrow> string list" where
  "doc_item_ids d = ordered_set (map qualified_name (concat (map cc_items (doc_contributions d))))"

definition required_item_ids :: "profile_document \<Rightarrow> string list" where
  "required_item_ids d =
     ordered_set (map qualified_name (filter pic_required (concat (map cc_items (doc_contributions d)))))"

definition doc_profile_ids :: "profile_document \<Rightarrow> string list" where
  "doc_profile_ids d = map pc_id (doc_profiles d)"

definition doc_region :: "profile_document \<Rightarrow> string \<Rightarrow> nat \<Rightarrow> (nat \<times> nat) option" where
  "doc_region d rid canvas_width =
     map_option (\<lambda>r.
       let width = min (rg_width r) canvas_width; free = canvas_width - width in
       (case rg_anchor r of
          Leading \<Rightarrow> min (rg_x r) free
        | Center \<Rightarrow> free div 2
        | Trailing \<Rightarrow> free - rg_x r, width))
       (find (\<lambda>r. rg_id r = rid) (doc_regions d))"

section \<open>Building the model\<close>

fun scope_into :: "scope_config \<Rightarrow> context_scope" where
  "scope_into ScGlobal = Global"
| "scope_into ScWorkspace = Workspace"
| "scope_into ScApplication = Application"
| "scope_into ScWindow = Window"

fun policy_into :: "slot_policy_config \<Rightarrow> slot_policy" where
  "policy_into SpCollect = Collect"
| "policy_into SpSelect = Select"
| "policy_into SpFixed = Fixed"

fun layout_into :: "group_layout_config \<Rightarrow> group_layout" where
  "layout_into GlNatural = Natural"
| "layout_into GlEqualWidth = EqualWidth"

fun predicate_to_model :: "predicate_config \<Rightarrow> context_predicate" where
  "predicate_to_model PcAlways = Always"
| "predicate_to_model (PcPresent key) = Present key"
| "predicate_to_model (PcTextEquals key value) = Equals key (Text value)"
| "predicate_to_model (PcBooleanEquals key value) = Equals key (Boolean value)"
| "predicate_to_model (PcAll ps) = All (map predicate_to_model ps)"
| "predicate_to_model (PcAny ps) = AnyOf (map predicate_to_model ps)"
| "predicate_to_model (PcNot p) = Negated (predicate_to_model p)"

definition slot_to_model :: "string \<Rightarrow> slot_policy_config \<Rightarrow> string list \<Rightarrow> slot_definition" where
  "slot_to_model sid policy contributions =
     \<lparr>slot_id = sid, slot_policy = policy_into policy,
      slot_bindings =
        map (\<lambda>(k, c). \<lparr>bind_contribution = c, bind_order = int k\<rparr>) (enumerate 0 contributions)\<rparr>"

fun group_element_to_model :: "profile_group_element_config \<Rightarrow> profile_group_element" where
  "group_element_to_model (GcSlot sid policy contributions) = PGSlot (slot_to_model sid policy contributions)"
| "group_element_to_model (GcGroup gid lay sp vp cp els) =
     PGGroup (ProfileGroup gid (map group_element_to_model els) (layout_into lay) sp vp cp)"

fun element_to_model :: "profile_element_config \<Rightarrow> profile_element" where
  "element_to_model (EcSlot sid policy contributions) = PSlot (slot_to_model sid policy contributions)"
| "element_to_model (EcGroup gid lay sp vp cp els) =
     PGroup (ProfileGroup gid (map group_element_to_model els) (layout_into lay) sp vp cp)"
| "element_to_model (EcFixedSpace w) = PFixedSpace w"
| "element_to_model (EcFlexibleSpace m w) = PFlexibleSpace m w"

type_synonym connected_items = "(string, item_spec) btree"

definition is_connected :: "connected_items \<Rightarrow> string \<Rightarrow> bool" where
  "is_connected connected item \<longleftrightarrow> bt_get connected item \<noteq> None"

definition contribution_to_model :: "connected_items \<Rightarrow> contribution_config \<Rightarrow> contribution_definition" where
  "contribution_to_model connected c =
     \<lparr>con_id = cc_id c,
      con_elements = map BItem (filter (is_connected connected) (map qualified_name (cc_items c))),
      con_predicate = predicate_to_model (cc_when c), con_scope = scope_into (cc_scope c),
      con_priority = cc_priority c\<rparr>"

definition profile_to_model :: "connected_items \<Rightarrow> profile_config \<Rightarrow> profile_definition" where
  "profile_to_model connected p =
     \<lparr>prof_id = pc_id p, prof_elements = map element_to_model (pc_elements p),
      prof_principal_item =
        (case pc_principal_item p of
           None \<Rightarrow> None
         | Some r \<Rightarrow> if is_connected connected (qualified_ref r) then Some (qualified_ref r) else None)\<rparr>"

definition doc_selector :: "profile_document \<Rightarrow> profile_selector" where
  "doc_selector d =
     \<lparr>psel_fallback = doc_fallback d,
      psel_rules = map (\<lambda>r. \<lparr>prule_profile = prc_profile r, prule_priority = prc_priority r,
                            prule_predicate = predicate_to_model (prc_when r)\<rparr>) (doc_rules d)\<rparr>"

definition cf :: "('e \<Rightarrow> config_error) \<Rightarrow> ('e, 'a) outcome \<Rightarrow> (config_error, 'a) outcome" where
  "cf err r = map_option (map_sum err id) r"

definition register_item ::
  "connected_items \<Rightarrow> registry \<Rightarrow> string \<Rightarrow> (config_error, registry) outcome" where
  "register_item connected reg item =
     (case bt_get connected item of
        None \<Rightarrow> None
      | Some spec \<Rightarrow>
          if item_id spec \<noteq> item then Some (Inl CfItemKey)
          else cf CfModel (Some (add_item
            \<lparr>idef_layout = spec, idef_label = item, idef_expanded_bar = None, idef_press_and_hold_bar = None\<rparr> reg)))"

record built_profile =
  built_controller :: controller
  built_item_ids :: "string list"
  built_profile_ids :: "string list"

definition document_catalog :: "profile_document \<Rightarrow> connected_items \<Rightarrow> (profile_error, profile_catalog) result" where
  "document_catalog d connected =
     rbind (rfold (\<lambda>cat c. add_contribution (contribution_to_model connected c) cat)
              \<lparr>cat_contributions = [], cat_profiles = []\<rparr> (doc_contributions d))
       (\<lambda>cat. rfold (\<lambda>cat p. add_profile (profile_to_model connected p) cat) cat (doc_profiles d))"

definition document_build ::
  "profile_document \<Rightarrow> connected_items \<Rightarrow> context_snapshot \<Rightarrow> (config_error, built_profile) outcome" where
  "document_build d connected ctx =
     pbind (Some (document_validate d)) (\<lambda>_.
     let missing = filter (\<lambda>i. \<not> is_connected connected i) (required_item_ids d) in
     if missing \<noteq> [] then Some (Inl (CfMissingItems missing))
     else
       pbind (pfold (register_item connected) empty_registry (filter (is_connected connected) (doc_item_ids d))) (\<lambda>reg.
       pbind (cf CfProfile (Some (document_catalog d connected))) (\<lambda>cat.
       pbind (cf CfProfile (controller_new cat reg (doc_selector d) ctx)) (\<lambda>ctl.
       Some (Inr \<lparr>built_controller = ctl, built_item_ids = doc_item_ids d, built_profile_ids = doc_profile_ids d\<rparr>)))))"

end
