(* ===== verification/Profile_Build.thy ===== *)
theory Profile_Build
  imports Profile_Config
begin

text \<open>
  What validation of a profile document buys: a document that passes \<open>document_validate\<close> always builds for the
  connected items, except when the selected profile would show an item twice. The two validations are
  different code in different crates; the lemmas show that the checks of the configuration imply those of the
  model (\<open>catalog_validate\<close>), and that identifiers which pass the configuration never collide in a composed
  bar.
\<close>

section \<open>Identifiers\<close>

lemma id_start_byte: "id_start c \<Longrightarrow> of_char c \<in> {48..57} \<union> {97..(122::nat)}"
  by (auto simp: id_start_def is_ascii_lowercase_def is_ascii_digit_def less_eq_char_def)

lemma id_not_blank:
  assumes "s \<noteq> []" and "id_start (hd s)"
  shows "\<not> str_blank (s @ t)"
proof -
  obtain c r where s: "s = c # r" using assms(1) by (cases s) auto
  define n :: nat where "n = of_char c"
  have n: "32 < n" "n \<le> 122" using assms(2) s id_start_byte [of c] n_def by auto
  then have "\<not> two_byte_space n y" "\<not> three_byte_space n y z" "\<not> (9 \<le> n \<and> n \<le> 13 \<or> n = 32)" for y z
    by (simp_all add: two_byte_space_def three_byte_space_def)
  note space = this
  have "\<not> blank_bytes (n # bs)" for bs
  proof (cases bs)
    case (Cons b cs)
    then show ?thesis using space by (cases cs) (simp_all only: blank_bytes.simps if_False list.case simp_thms)
  qed (simp only: blank_bytes.simps space if_False list.case simp_thms)
  then show ?thesis by (simp add: str_blank_def s n_def [symmetric] del: blank_bytes.simps)
qed

lemma validate_id_Inr:
  "validate_id l v = Inr u \<longleftrightarrow> v \<noteq> [] \<and> length v \<le> MAX_ID_BYTES \<and> id_start (hd v) \<and> list_all id_char v"
  by (simp add: validate_id_def)

lemma valid_id_not_blank: "validate_id l v = Inr u \<Longrightarrow> \<not> str_blank v"
  using id_not_blank [of v "[]"] by (auto simp: validate_id_Inr)

lemma at_not_start: "\<not> id_start (CHR ''@'')"
  by (simp add: id_start_def is_ascii_lowercase_def is_ascii_digit_def less_eq_char_def)

lemma valid_id_not_slot: "validate_id l v = Inr u \<Longrightarrow> \<not> starts_with v ''@slot/''"
  using at_not_start by (cases v) (auto simp: validate_id_Inr starts_with_def)

lemma hash_not_plugin: "validate_plugin_id l v = Inr u \<Longrightarrow> CHR ''#'' \<notin> set v"
  by (auto simp: validate_plugin_id_def list_all_iff id_char_def is_ascii_lowercase_def is_ascii_digit_def
      less_eq_char_def split: if_splits)

lemma hash_split_unique:
  assumes "a @ c # b = a' @ c # b'" and "c \<notin> set a" and "c \<notin> set a'"
  shows "a = a' \<and> b = b'"
proof -
  have cut: "takeWhile (\<lambda>x. x \<noteq> c) (u @ c # v) = u" if "c \<notin> set u" for u v
    using that by (induction u) auto
  have "a = a'" using cut [OF assms(2), of b] cut [OF assms(3), of b'] assms(1) by simp
  then show ?thesis using assms(1) by simp
qed

text \<open>Two runs over the same list: what the second does as long as the first succeeds.\<close>

lemma rfold_sim:
  assumes "rfold f s xs = Inr t" and "\<And>x u v. x \<in> set xs \<Longrightarrow> f u x = Inr v \<Longrightarrow> f' (h u) (k x) = Inr (h v)"
  shows "rfold f' (h s) (map k xs) = Inr (h t)"
  using assms
proof (induction xs arbitrary: s)
  case (Cons x xs)
  then obtain u where u: "f s x = Inr u" "rfold f u xs = Inr t" by auto
  have "f' (h s) (k x) = Inr (h u)" using Cons.prems(2) u(1) by simp
  moreover have "rfold f' (h u) (map k xs) = Inr (h t)" using Cons u(2) by simp
  ultimately show ?case by simp
qed simp

lemma rfold_unit: "(\<And>x. x \<in> set xs \<Longrightarrow> f () x = Inr ()) \<Longrightarrow> rfold f () xs = Inr ()"
  by (induction xs) auto

section \<open>What a valid document contains\<close>

definition item_config_ok :: "profile_item_config \<Rightarrow> bool" where
  "item_config_ok it \<longleftrightarrow> pic_plugin it \<noteq> [] \<and> id_start (hd (pic_plugin it)) \<and> CHR ''#'' \<notin> set (pic_plugin it)"

lemma item_name_ok: "item_config_ok it \<Longrightarrow> qualified_name it \<noteq> [] \<and> \<not> str_blank (qualified_name it)"
  using id_not_blank by (auto simp: item_config_ok_def qualified_name_def qualified_item_id_unchecked_def)

lemma validate_items_spec:
  "rfold (validate_item_config cid) st its = Inr st' \<Longrightarrow>
     snd st' = snd st \<union> set (map qualified_name its) \<and> list_all item_config_ok its"
proof (induction its arbitrary: st)
  case (Cons it its)
  then show ?case
    using hash_not_plugin [of "''plugin id''" "pic_plugin it"]
    by (auto simp: validate_item_config_def validate_plugin_id_def item_config_ok_def split: if_splits)
qed simp

lemma validate_contributions_spec:
  "rfold validate_contribution_config st cs = Inr st' \<Longrightarrow>
     distinct (map cc_id cs) \<and> set (map cc_id cs) \<inter> fst st = {} \<and> fst st' = fst st \<union> set (map cc_id cs)
     \<and> fst (snd st') = fst (snd st) \<union> set (map qualified_name (concat (map cc_items cs)))
     \<and> list_all (\<lambda>c. \<not> str_blank (cc_id c) \<and> list_all item_config_ok (cc_items c)) cs"
proof (induction cs arbitrary: st)
  case (Cons c cs)
  obtain ids items nodes where st: "st = (ids, items, nodes)" by (cases st)
  from Cons.prems obtain u where step: "validate_contribution_config (ids, items, nodes) c = Inr u"
    and fold: "rfold validate_contribution_config u cs = Inr st'" by (auto simp: st)
  from step obtain loc nodes' where one: "validate_id ''contribution id'' (cc_id c) = Inr ()" "cc_id c \<notin> ids"
    "rfold (validate_item_config (cc_id c)) ({}, items) (cc_items c) = Inr loc"
    and u: "u = (insert (cc_id c) ids, snd loc, nodes')"
    by (auto simp: validate_contribution_config_def split: if_splits)
  note rest = fold [unfolded u]
  note valid_id_not_blank [OF one(1)] validate_items_spec [OF one(3)] Cons.IH [OF rest]
  then show ?case using one(2) by (auto simp: st)
qed auto

lemma validate_profiles_spec:
  "rfold (validate_profile_config ids items) st ps = Inr st' \<Longrightarrow>
     distinct (map pc_id ps) \<and> set (map pc_id ps) \<inter> fst st = {} \<and> fst st' = fst st \<union> set (map pc_id ps)
     \<and> (\<forall>p\<in>set ps. \<not> str_blank (pc_id p)
          \<and> (\<exists>n census. rfold (validate_element_config (pc_id p) ids)
                \<lparr>ec_slots = {}, ec_groups = {}, ec_count = n\<rparr> (pc_elements p) = Inr census))"
proof (induction ps arbitrary: st)
  case (Cons p ps)
  from Cons.prems obtain u where step: "validate_profile_config ids items st p = Inr u"
    and fold: "rfold (validate_profile_config ids items) u ps = Inr st'" by auto
  from step obtain census where one: "validate_id ''profile id'' (pc_id p) = Inr ()" "pc_id p \<notin> fst st"
    "rfold (validate_element_config (pc_id p) ids)
       \<lparr>ec_slots = {}, ec_groups = {}, ec_count = snd st\<rparr> (pc_elements p) = Inr census"
    and u: "u = (insert (pc_id p) (fst st), ec_count census)"
    by (auto simp: validate_profile_config_def split: if_splits)
  note rest = fold [unfolded u]
  note valid_id_not_blank [OF one(1)] Cons.IH [OF rest]
  then show ?case using one(2,3) by auto
qed auto

lemma validate_rules_spec:
  "rfold (validate_rule_config ids) n rs = Inr n' \<Longrightarrow> list_all (\<lambda>r. prc_profile r \<in> ids) rs"
  by (rule rfold_list_all, assumption) (auto simp: validate_rule_config_def split: if_splits)

text \<open>The facts of a valid document that the build relies on.\<close>

lemma valid_document:
  assumes "document_validate d = Inr ()"
  obtains ids where "ids = set (map cc_id (doc_contributions d))" "distinct (map cc_id (doc_contributions d))"
    "list_all (\<lambda>c. \<not> str_blank (cc_id c) \<and> list_all item_config_ok (cc_items c)) (doc_contributions d)"
    "distinct (map pc_id (doc_profiles d))"
    "\<forall>p\<in>set (doc_profiles d). \<not> str_blank (pc_id p)
       \<and> (\<exists>n census. rfold (validate_element_config (pc_id p) ids)
             \<lparr>ec_slots = {}, ec_groups = {}, ec_count = n\<rparr> (pc_elements p) = Inr census)"
    "doc_fallback d \<in> set (doc_profile_ids d)"
    "list_all (\<lambda>r. prc_profile r \<in> set (doc_profile_ids d)) (doc_rules d)"
proof -
  from assms obtain ids items nodes pids n m
    where cs: "rfold validate_contribution_config ({}, {}, 0) (doc_contributions d) = Inr (ids, items, nodes)"
      and ps: "rfold (validate_profile_config ids items) ({}, 0) (doc_profiles d) = Inr (pids, n)"
      and fb: "doc_fallback d \<in> pids"
      and rs: "rfold (validate_rule_config pids) nodes (doc_rules d) = Inr m"
    by (auto simp: document_validate_def split: if_splits)
  show ?thesis
    using validate_contributions_spec [OF cs] validate_profiles_spec [OF ps] validate_rules_spec [OF rs] fb
    by (intro that [of ids]) (auto simp: doc_profile_ids_def)
qed

section \<open>The registry and the catalog\<close>

lemma add_contributions_spec:
  "catalog_ok cat \<Longrightarrow> distinct (map cc_id cs) \<Longrightarrow> list_all (\<lambda>c. \<not> str_blank (cc_id c)) cs \<Longrightarrow>
   list_all (\<lambda>c. bt_get (cat_contributions cat) (cc_id c) = None) cs \<Longrightarrow>
   \<exists>cat'. rfold (\<lambda>cat c. add_contribution (contribution_to_model connected c) cat) cat cs = Inr cat'
     \<and> catalog_ok cat' \<and> cat_profiles cat' = cat_profiles cat
     \<and> (\<forall>c\<in>set cs. bt_get (cat_contributions cat') (cc_id c) = Some (contribution_to_model connected c))
     \<and> (\<forall>i. i \<notin> set (map cc_id cs) \<longrightarrow> bt_get (cat_contributions cat') i = bt_get (cat_contributions cat) i)"
proof (induction cs arbitrary: cat)
  case (Cons c cs)
  let ?cd = "contribution_to_model connected c"
  let ?cat = "cat\<lparr>cat_contributions := bt_insert (cc_id c) ?cd (cat_contributions cat)\<rparr>"
  have ok: "bt_ok (cat_contributions cat)" using Cons.prems(1) by (simp add: catalog_ok_def)
  have id: "con_id ?cd = cc_id c" by (simp add: contribution_to_model_def)
  have add: "add_contribution ?cd cat = Inr ?cat"
    using Cons.prems by (simp add: add_contribution_def id)
  have "\<exists>cat'. rfold (\<lambda>cat c. add_contribution (contribution_to_model connected c) cat) ?cat cs = Inr cat'
     \<and> catalog_ok cat' \<and> cat_profiles cat' = cat_profiles ?cat
     \<and> (\<forall>c\<in>set cs. bt_get (cat_contributions cat') (cc_id c) = Some (contribution_to_model connected c))
     \<and> (\<forall>i. i \<notin> set (map cc_id cs) \<longrightarrow> bt_get (cat_contributions cat') i = bt_get (cat_contributions ?cat) i)"
  proof (rule Cons.IH)
    show "catalog_ok ?cat" using catalog_ok_add(1) [OF Cons.prems(1) add] .
    show "list_all (\<lambda>c. bt_get (cat_contributions ?cat) (cc_id c) = None) cs"
      using Cons.prems ok by (auto simp: list_all_iff rev_image_eqI)
  qed (use Cons.prems in auto)
  then show ?case using add ok Cons.prems(2) by auto
qed simp

lemma add_profiles_spec:
  "catalog_ok cat \<Longrightarrow> distinct (map pc_id ps) \<Longrightarrow> list_all (\<lambda>p. \<not> str_blank (pc_id p)) ps \<Longrightarrow>
   list_all (\<lambda>p. bt_get (cat_profiles cat) (pc_id p) = None) ps \<Longrightarrow>
   \<exists>cat'. rfold (\<lambda>cat p. add_profile (profile_to_model connected p) cat) cat ps = Inr cat'
     \<and> catalog_ok cat' \<and> cat_contributions cat' = cat_contributions cat
     \<and> (\<forall>p\<in>set ps. bt_get (cat_profiles cat') (pc_id p) = Some (profile_to_model connected p))
     \<and> (\<forall>i. i \<notin> set (map pc_id ps) \<longrightarrow> bt_get (cat_profiles cat') i = bt_get (cat_profiles cat) i)"
proof (induction ps arbitrary: cat)
  case (Cons p ps)
  let ?pd = "profile_to_model connected p"
  let ?cat = "cat\<lparr>cat_profiles := bt_insert (pc_id p) ?pd (cat_profiles cat)\<rparr>"
  have ok: "bt_ok (cat_profiles cat)" using Cons.prems(1) by (simp add: catalog_ok_def)
  have id: "prof_id ?pd = pc_id p" by (simp add: profile_to_model_def)
  have add: "add_profile ?pd cat = Inr ?cat"
    using Cons.prems by (simp add: add_profile_def id)
  have "\<exists>cat'. rfold (\<lambda>cat p. add_profile (profile_to_model connected p) cat) ?cat ps = Inr cat'
     \<and> catalog_ok cat' \<and> cat_contributions cat' = cat_contributions ?cat
     \<and> (\<forall>p\<in>set ps. bt_get (cat_profiles cat') (pc_id p) = Some (profile_to_model connected p))
     \<and> (\<forall>i. i \<notin> set (map pc_id ps) \<longrightarrow> bt_get (cat_profiles cat') i = bt_get (cat_profiles ?cat) i)"
  proof (rule Cons.IH)
    show "catalog_ok ?cat" using catalog_ok_add(2) [OF Cons.prems(1) add] .
    show "list_all (\<lambda>p. bt_get (cat_profiles ?cat) (pc_id p) = None) ps"
      using Cons.prems ok by (auto simp: list_all_iff rev_image_eqI)
  qed (use Cons.prems in auto)
  then show ?case using add ok Cons.prems(2) by auto
qed simp

text \<open>The map of connected items is keyed by the identifiers of its specifications.\<close>

definition connected_ok :: "connected_items \<Rightarrow> bool" where
  "connected_ok connected \<longleftrightarrow> bt_ok connected \<and> (\<forall>i s. bt_get connected i = Some s \<longrightarrow> item_id s = i)"

lemma register_items_spec:
  "registry_ok reg \<Longrightarrow> connected_ok connected \<Longrightarrow> distinct names \<Longrightarrow>
   list_all (\<lambda>i. is_connected connected i \<and> i \<noteq> [] \<and> \<not> str_blank i \<and> bt_get (reg_items reg) i = None) names \<Longrightarrow>
   \<exists>reg'. pfold (register_item connected) reg names = Some (Inr reg') \<and> registry_ok reg'
     \<and> (\<forall>i. bt_get (reg_items reg') i \<noteq> None \<longleftrightarrow> i \<in> set names \<or> bt_get (reg_items reg) i \<noteq> None)"
proof (induction names arbitrary: reg)
  case (Cons i names)
  then obtain spec where spec: "bt_get connected i = Some spec" "item_id spec = i"
    by (auto simp: is_connected_def connected_ok_def)
  let ?def = "\<lparr>idef_layout = spec, idef_label = i, idef_expanded_bar = None, idef_press_and_hold_bar = None\<rparr>"
  let ?reg = "reg\<lparr>reg_items := bt_insert i ?def (reg_items reg)\<rparr>"
  have add: "add_item ?def reg = Inr ?reg" using Cons.prems spec by (simp add: add_item_def Let_def)
  then have step: "register_item connected reg i = Some (Inr ?reg)"
    by (simp add: register_item_def spec cf_def)
  have reg: "registry_ok ?reg" using registry_ok_add_item [OF Cons.prems(1) add] .
  have ok: "bt_ok (reg_items reg)" using Cons.prems(1) by (simp add: registry_ok_def)
  have "\<exists>reg'. pfold (register_item connected) ?reg names = Some (Inr reg') \<and> registry_ok reg'
     \<and> (\<forall>k. bt_get (reg_items reg') k \<noteq> None \<longleftrightarrow> k \<in> set names \<or> bt_get (reg_items ?reg) k \<noteq> None)"
    by (rule Cons.IH [OF reg Cons.prems(2)]) (use Cons.prems ok in \<open>auto simp: list_all_iff\<close>)
  then show ?case using step ok by auto
qed simp

section \<open>The configuration's checks imply the model's\<close>

text \<open>Every contribution a slot may name is in the catalog and consists of registered items.\<close>

definition plain_catalog :: "profile_catalog \<Rightarrow> registry \<Rightarrow> string set \<Rightarrow> bool" where
  "plain_catalog cat reg ids \<longleftrightarrow>
     (\<forall>i\<in>ids. bt_get (cat_contributions cat) i \<noteq> None)
     \<and> (\<forall>i c. bt_get (cat_contributions cat) i = Some c \<longrightarrow>
          (\<forall>e\<in>set (con_elements c). \<exists>k. e = BItem k \<and> bt_get (reg_items reg) k \<noteq> None))"

lemma plain_not_space:
  "plain_catalog cat reg ids \<Longrightarrow> bt_get (cat_contributions cat) i = Some c \<Longrightarrow> \<not> list_ex is_space (con_elements c)"
  unfolding plain_catalog_def list_ex_iff by fastforce

lemma slot_bindings_model: "bind_contribution ` set (slot_bindings (slot_to_model sid pol cs)) = set cs"
proof -
  have "map bind_contribution (slot_bindings (slot_to_model sid pol cs)) = cs"
    by (simp add: slot_to_model_def comp_def case_prod_unfold)
  then show ?thesis by (metis list.set_map)
qed

lemma slot_sim:
  assumes "plain_catalog cat reg ids" and "validate_slot_config sid cs profile ids slots = Inr slots'"
  shows "validate_slot cat p (slot_to_model sid pol cs) nested slots = Inr slots'"
proof -
  let ?slot = "slot_to_model sid pol cs"
  let ?loop = "\<lambda>bindings c. rbind (validate_id ''bound contribution'' c) (\<lambda>_.
           if c \<notin> ids then Inl (CfUnknownContribution profile sid c)
           else if c \<in> bindings then Inl (CfRepeatedBinding profile sid c) else Inr (insert c bindings))"
  from assms(2) obtain b where ok: "validate_id ''slot id'' sid = Inr ()" "sid \<notin> slots" "slots' = insert sid slots"
    and loop: "rfold ?loop {} cs = Inr b"
    by (auto simp: validate_slot_config_def split: if_splits)
  have "list_all (\<lambda>c. c \<in> ids) cs" using loop by (rule rfold_list_all) (auto split: if_splits)
  then have known: "bind_contribution x \<in> ids" if "x \<in> set (slot_bindings ?slot)" for x
    using that slot_bindings_model [of sid pol cs] by (auto simp: list_all_iff)
  have "rbind (ok_or (PUnknownContribution (prof_id p) (slot_id ?slot) (bind_contribution x))
             (bt_get (cat_contributions cat) (bind_contribution x)))
           (\<lambda>c. if nested \<and> list_ex is_space (con_elements c)
                then Inl (PSpaceInGroupedSlot (prof_id p) (slot_id ?slot) (bind_contribution x)) else Inr ()) = Inr ()"
    if x: "x \<in> set (slot_bindings ?slot)" for x
  proof -
    obtain c where c: "bt_get (cat_contributions cat) (bind_contribution x) = Some c"
      using assms(1) known [OF x] unfolding plain_catalog_def by blast
    then show ?thesis using plain_not_space [OF assms(1) c] by simp
  qed
  then have "rfold (\<lambda>_ x. rbind (ok_or (PUnknownContribution (prof_id p) (slot_id ?slot) (bind_contribution x))
             (bt_get (cat_contributions cat) (bind_contribution x)))
           (\<lambda>c. if nested \<and> list_ex is_space (con_elements c)
                then Inl (PSpaceInGroupedSlot (prof_id p) (slot_id ?slot) (bind_contribution x)) else Inr ()))
      () (slot_bindings ?slot) = Inr ()"
    by (intro rfold_unit)
  moreover have "slot_id ?slot = sid" by (simp add: slot_to_model_def)
  ultimately show ?thesis using ok valid_id_not_blank [OF ok(1)] by (simp add: validate_slot_def)
qed

abbreviation census_ids :: "element_census \<Rightarrow> string set \<times> string set" where
  "census_ids c \<equiv> (ec_slots c, ec_groups c)"

lemma group_sim:
  shows "validate_group_element_config profile ids gid depth census e = Inr census' \<Longrightarrow> plain_catalog cat reg ids \<Longrightarrow>
      validate_profile_group_element cat p gid (group_element_to_model e) depth (census_ids census) = Inr (census_ids census')"
    and "validate_group_config profile ids depth census sub sp els = Inr census' \<Longrightarrow> plain_catalog cat reg ids \<Longrightarrow>
      validate_profile_group cat p (ProfileGroup sub (map group_element_to_model els) lay sp vp cp) depth (census_ids census)
        = Inr (census_ids census')"
proof (induction profile ids gid depth census e and profile ids depth census sub sp els
    arbitrary: census' and census' lay vp cp
    rule: validate_group_element_config_validate_group_config.induct)
  case (1 profile ids gid depth census sid pol cs)
  then show ?case
    using slot_sim [OF "1.prems"(2)] by (auto simp: Let_def split: if_splits)
next
  case (2 profile ids gid depth census sub lay sp vp cp els)
  then show ?case by simp
next
  case (3 profile ids depth census gid sp els)
  from "3.prems" have g: "validate_id ''group id'' gid = Inr ()" "gid \<notin> ec_groups census" "\<not> depth > MAX_GROUP_DEPTH"
    and run: "rfold (\<lambda>c e. validate_group_element_config profile ids gid depth c e)
            (census\<lparr>ec_groups := insert gid (ec_groups census)\<rparr>) els = Inr census'"
    by (auto split: if_splits)
  have "rfold (\<lambda>s e. validate_profile_group_element cat p gid e depth s)
          (census_ids (census\<lparr>ec_groups := insert gid (ec_groups census)\<rparr>)) (map group_element_to_model els)
      = Inr (census_ids census')"
    using run by (rule rfold_sim) (use "3.IH" "3.prems" g in \<open>auto split: if_splits\<close>)
  then show ?case using g valid_id_not_blank [OF g(1)] valid_id_not_slot [OF g(1)] by simp
qed

lemma element_sim:
  assumes "plain_catalog cat reg ids" and "validate_element_config profile ids census e = Inr census'"
  shows "validate_profile_element cat p (census_ids census) (element_to_model e) = Inr (census_ids census')"
proof (cases e)
  case (EcSlot sid pol cs)
  then show ?thesis
    using assms(2) slot_sim [OF assms(1)] by (auto simp: validate_element_config_def Let_def)
next
  case (EcGroup gid lay sp vp cp els)
  then show ?thesis
    using assms(2) group_sim(2) [OF _ assms(1), of profile 1 "census\<lparr>ec_count := Suc (ec_count census)\<rparr>" gid sp els census']
    by (simp add: validate_element_config_def Let_def)
qed (use assms(2) in \<open>auto simp: validate_element_config_def Let_def split: if_splits\<close>)

lemma profile_sim:
  assumes "plain_catalog cat reg ids"
    and "rfold (validate_element_config profile ids) \<lparr>ec_slots = {}, ec_groups = {}, ec_count = n\<rparr> (pc_elements pc) = Inr census"
  shows "validate_profile cat (profile_to_model connected pc) = Inr (census_ids census)"
  using rfold_sim [OF assms(2), of "validate_profile_element cat (profile_to_model connected pc)" census_ids element_to_model]
    element_sim [OF assms(1)]
  by (simp add: validate_profile_def profile_to_model_def)

section \<open>What can go wrong in a composition\<close>

definition repeats_only :: "(profile_error, 'a) outcome \<Rightarrow> bool" where
  "repeats_only r \<longleftrightarrow> (\<forall>e. r = Some (Inl e) \<longrightarrow> (\<exists>i. e = PDuplicateComposedItem i))"

definition composes :: "('a \<Rightarrow> bool) \<Rightarrow> (profile_error, 'a) outcome \<Rightarrow> bool" where
  "composes P r \<longleftrightarrow> repeats_only r \<and> (\<forall>a. r = Some (Inr a) \<longrightarrow> P a)"

lemma composes_pbind:
  assumes "composes P r" and "\<And>a. P a \<Longrightarrow> composes Q (f a)"
  shows "composes Q (pbind r f)"
  using assms unfolding composes_def repeats_only_def by (auto simp: pbind_eq_Err)

lemma composes_Ok: "P a \<Longrightarrow> composes P (Some (Inr a))"
  by (simp add: composes_def repeats_only_def)

lemma composes_mono: "composes P r \<Longrightarrow> (\<And>a. P a \<Longrightarrow> Q a) \<Longrightarrow> composes Q r"
  by (simp add: composes_def)

lemma composes_pfold:
  assumes "P s" and "\<And>x u. x \<in> set xs \<Longrightarrow> P u \<Longrightarrow> composes P (f u x)"
  shows "composes P (pfold f s xs)"
  using assms by (induction xs arbitrary: s) (auto intro!: composes_Ok composes_pbind [where P = P])

text \<open>A fold that runs beside a validation of the same elements.\<close>

lemma composes_pfold_validated:
  assumes "rfold v s xs = Inr t" and "P s u"
    and "\<And>x s s' u. x \<in> set xs \<Longrightarrow> v s x = Inr s' \<Longrightarrow> P s u \<Longrightarrow> composes (P s') (f u x)"
  shows "composes (P t) (pfold f u xs)"
  using assms
proof (induction xs arbitrary: s u)
  case (Cons x xs)
  then obtain s' where s': "v s x = Inr s'" "rfold v s' xs = Inr t" by auto
  show ?case
    unfolding pfold.simps
  proof (rule composes_pbind [where P = "P s'"])
    show "composes (P s') (f u x)" using Cons.prems s'(1) by simp
    show "composes (P t) (pfold f a xs)" if "P s' a" for a
      using Cons.IH [OF s'(2) that] Cons.prems(3) by simp
  qed
qed (simp add: composes_Ok)

lemma resolve_item_composes:
  "bt_get (reg_items reg) i \<noteq> None \<Longrightarrow>
     composes (\<lambda>r. snd (snd r) = snd ids) (Some (resolve_item reg c i ids))"
  by (auto simp: composes_def repeats_only_def resolve_item_def)

lemma resolvers_compose:
  assumes "bt_get (reg_items reg) k \<noteq> None"
  shows "composes (\<lambda>r. snd (snd r) = snd ids) (resolve_top_contribution_element reg c (BItem k) ids)"
    and "composes (\<lambda>r. snd (snd r) = snd ids) (resolve_grouped_contribution_element reg c (BItem k) ids)"
  using resolve_item_composes [OF assms, of ids c] unfolding composes_def repeats_only_def by auto

lemma slot_composes:
  assumes "plain_catalog cat reg cids"
    and "\<And>c k ids. bt_get (reg_items reg) k \<noteq> None \<Longrightarrow> composes (\<lambda>r. snd (snd r) = snd ids) (resolver c (BItem k) ids)"
  shows "composes (\<lambda>(els, active, ids'). snd ids' = snd ids)
     (pfold (compose_contribution resolver) ([], active, ids) (select_bindings cat slot ctx))"
proof (rule composes_pfold)
  fix c and u :: "'a list \<times> contribution_id list \<times> used_ids"
  assume c: "c \<in> set (select_bindings cat slot ctx)" and u: "case u of (els, active, ids') \<Rightarrow> snd ids' = snd ids"
  obtain els act ids1 where split: "u = (els, act, ids1)" by (cases u)
  obtain i where b: "bt_get (cat_contributions cat) i = Some c"
    using select_bindings_bound [OF c] by blast
  show "composes (\<lambda>(els, active, ids'). snd ids' = snd ids) (compose_contribution resolver u c)"
    unfolding compose_contribution_def split prod.case
  proof (rule composes_pfold)
    fix e and v :: "'a list \<times> contribution_id list \<times> used_ids"
    assume e: "e \<in> set (con_elements c)" and v: "case v of (els, active, ids') \<Rightarrow> snd ids' = snd ids"
    obtain els2 act2 ids2 where split2: "v = (els2, act2, ids2)" by (cases v)
    obtain k where k: "e = BItem k" "bt_get (reg_items reg) k \<noteq> None"
      using assms(1) b e unfolding plain_catalog_def by blast
    show "composes (\<lambda>(els, active, ids'). snd ids' = snd ids)
        ((\<lambda>(els, active, ids) e. pbind (resolver c e ids) (\<lambda>(el, ids'). Some (Inr (els @ [el], active, ids')))) v e)"
      unfolding split2 prod.case k(1)
      by (rule composes_pbind [OF assms(2) [OF k(2)]]) (use v split2 in \<open>auto intro!: composes_Ok\<close>)
  qed (use u split in auto)
qed simp

lemma slots_compose:
  assumes "plain_catalog cat reg cids"
  shows "composes (\<lambda>(els, active, ids'). snd ids' = snd ids) (compose_top_slot cat reg slot ctx (active, ids))"
    and "composes (\<lambda>(els, active, ids'). snd ids' = snd ids) (compose_group_slot cat reg slot ctx (active, ids))"
  unfolding compose_top_slot_def compose_group_slot_def
  by (rule slot_composes [OF assms], rule resolvers_compose, assumption)+

text \<open>The group identifiers in use are groups of the profile or the names of its slots, which begin with a
  prefix no group has.\<close>

definition group_ids_within :: "profile_id \<Rightarrow> slot_id set \<times> string set \<Rightarrow> used_ids \<Rightarrow> bool" where
  "group_ids_within pid census ids \<longleftrightarrow>
     snd ids \<subseteq> snd census \<union> slot_group_id pid ` fst census \<and> (\<forall>g\<in>snd census. \<not> starts_with g ''@slot/'')"

lemma slot_group_prefix: "starts_with (slot_group_id pid s) ''@slot/''"
  by (simp add: slot_group_id_def starts_with_def)

lemma slot_group_inj: "slot_group_id pid s = slot_group_id pid t \<longleftrightarrow> s = t"
  by (simp add: slot_group_id_def)

lemma group_fresh: "group_ids_within pid census ids \<Longrightarrow> g \<notin> snd census \<Longrightarrow> \<not> starts_with g ''@slot/'' \<Longrightarrow> g \<notin> snd ids"
  using slot_group_prefix by (auto simp: group_ids_within_def)

lemma slot_fresh: "group_ids_within pid census ids \<Longrightarrow> s \<notin> fst census \<Longrightarrow> slot_group_id pid s \<notin> snd ids"
  using slot_group_prefix by (force simp: group_ids_within_def slot_group_inj)

lemma within_insert:
  "group_ids_within pid census ids \<Longrightarrow> \<not> starts_with g ''@slot/'' \<Longrightarrow>
     group_ids_within pid (fst census, insert g (snd census)) (fst ids, insert g (snd ids))"
  "group_ids_within pid census ids \<Longrightarrow> snd ids' = insert (slot_group_id pid s) (snd ids) \<Longrightarrow>
     group_ids_within pid (insert s (fst census), snd census) ids'"
  "group_ids_within pid census ids \<Longrightarrow> snd ids' = snd ids \<Longrightarrow> group_ids_within pid (insert s (fst census), snd census) ids'"
  unfolding group_ids_within_def by auto

lemma validated_slot: "validate_slot cat p slot nested slots = Inr slots' \<Longrightarrow> slot_id slot \<notin> slots \<and> slots' = insert (slot_id slot) slots"
  by (auto simp: validate_slot_def split: if_splits)

lemma slot_group_composes:
  assumes "plain_catalog cat reg cids" and "group_ids_within pid census (cst_ids st)"
    and "validate_slot cat p slot True (fst census) = Inr slots'"
  shows "composes (\<lambda>r. group_ids_within pid (slots', snd census) (cst_ids (snd r)))
     (compose_slot_group cat reg pid ctx slot path st)"
  unfolding compose_slot_group_def
proof (rule composes_pbind [OF slots_compose(2) [OF assms(1)]])
  fix r :: "group_element list \<times> contribution_id list \<times> used_ids"
  assume r: "case r of (els, active, ids') \<Rightarrow> snd ids' = snd (cst_ids st)"
  obtain els active ids' where split: "r = (els, active, ids')" by (cases r)
  have fresh: "slot_group_id pid (slot_id slot) \<notin> snd ids'"
    using slot_fresh [OF assms(2)] validated_slot [OF assms(3)] r split by simp
  have new: "slots' = insert (slot_id slot) (fst census)" using validated_slot [OF assms(3)] by simp
  have ids: "group_ids_within pid (slots', snd census) (fst ids', insert (slot_group_id pid (slot_id slot)) (snd ids'))"
    unfolding new using r split by (intro within_insert(2) [OF assms(2)]) simp
  then show "composes (\<lambda>r. group_ids_within pid (slots', snd census) (cst_ids (snd r)))
      (case r of (els, active, ids) \<Rightarrow>
        pbind (lift_result (insert_composed_group (slot_group_id pid (slot_id slot)) ids)) (\<lambda>ids'.
          Some (Inr (GGroup (GroupSpec (slot_group_id pid (slot_id slot)) els Natural 0 0 0),
             \<lparr>cst_active = active,
              cst_slots = cst_slots st @ [\<lparr>cslot_id = slot_id slot, cslot_path = path, cslot_start = 0, cslot_end = length els\<rparr>],
              cst_ids = ids'\<rparr>))))"
    using fresh by (auto simp: split lift_result_def insert_composed_group_def intro!: composes_Ok)
qed

lemma group_composes:
  shows "plain_catalog cat reg cids \<Longrightarrow> group_ids_within pid census (cst_ids st) \<Longrightarrow>
      validate_profile_group_element cat p gid e d census = Inr census' \<Longrightarrow>
      composes (\<lambda>r. group_ids_within pid census' (cst_ids (snd r))) (compose_profile_group_element cat reg pid ctx e path st)"
    and "plain_catalog cat reg cids \<Longrightarrow> group_ids_within pid census (cst_ids st) \<Longrightarrow>
      validate_profile_group cat p g d census = Inr census' \<Longrightarrow>
      composes (\<lambda>r. group_ids_within pid census' (cst_ids (snd r))) (compose_profile_group cat reg pid ctx g path st)"
proof (induction e and g arbitrary: gid d census census' path st and d census census' path st)
  case (PGSlot slot)
  then obtain slots' where v: "validate_slot cat p slot True (fst census) = Inr slots'" "census' = (slots', snd census)"
    by (auto split: if_splits)
  show ?case using slot_group_composes [OF PGSlot.prems(1,2) v(1)] v(2) by simp
next
  case (PGGroup g)
  have "validate_profile_group cat p g (d + 1) census = Inr census'" using PGGroup.prems(3) by simp
  note inner = PGGroup.IH [OF PGGroup.prems(1,2) this, of path]
  show ?case unfolding compose_profile_group_element.simps by (rule composes_pbind [OF inner]) (auto intro!: composes_Ok)
next
  case (ProfileGroup gid es lay sp vp cp)
  from ProfileGroup.prems(3) have g: "\<not> starts_with gid ''@slot/''" "gid \<notin> snd census"
    and run: "rfold (\<lambda>s e. validate_profile_group_element cat p gid e d s) (fst census, insert gid (snd census)) es = Inr census'"
    by (auto split: if_splits)
  have fresh: "gid \<notin> snd (cst_ids st)" using group_fresh [OF ProfileGroup.prems(2) g(2,1)] .
  let ?step = "\<lambda>acc e. pbind
    (compose_profile_group_element cat reg pid ctx e (path @ [length (fst acc)]) (snd acc))
    (\<lambda>(el, s'). Some (Inr (fst acc @ [el], s')))"
  let ?P = "\<lambda>census acc. group_ids_within pid census (cst_ids (snd acc))"
  have "composes (?P census') (pfold ?step
      ([], st\<lparr>cst_ids := (fst (cst_ids st), insert gid (snd (cst_ids st)))\<rparr>) es)"
  proof (rule composes_pfold_validated [OF run])
    fix e s s' and u :: "group_element list \<times> compose_state"
    assume "e \<in> set es" "validate_profile_group_element cat p gid e d s = Inr s'" "?P s u"
    then have "composes (\<lambda>r. group_ids_within pid s' (cst_ids (snd r)))
        (compose_profile_group_element cat reg pid ctx e (path @ [length (fst u)]) (snd u))"
      using ProfileGroup.IH ProfileGroup.prems(1) by blast
    then show "composes (?P s') (?step u e)"
      by (rule composes_pbind) (auto intro!: composes_Ok)
  qed (use within_insert(1) [OF ProfileGroup.prems(2) g(1)] in simp)
  then have "composes (\<lambda>r. group_ids_within pid census' (cst_ids (snd r)))
     (pbind (pfold ?step ([], st\<lparr>cst_ids := (fst (cst_ids st), insert gid (snd (cst_ids st)))\<rparr>) es)
       (\<lambda>(els, st'). Some (Inr (GroupSpec gid els lay sp vp cp, st'))))"
    by (rule composes_pbind) (auto intro!: composes_Ok)
  then show ?case using fresh by (simp add: lift_result_def insert_composed_group_def)
qed

lemma element_composes:
  assumes "plain_catalog cat reg cids" and "group_ids_within pid census (cst_ids (snd acc))"
    and "validate_profile_element cat p census e = Inr census'"
  shows "composes (\<lambda>r. group_ids_within pid census' (cst_ids (snd r))) (compose_profile_element cat reg pid ctx acc e)"
proof -
  obtain els st where acc: "acc = (els, st)" by (cases acc)
  show ?thesis
  proof (cases e)
    case (PSlot slot)
    then obtain slots' where v: "validate_slot cat p slot False (fst census) = Inr slots'" "census' = (slots', snd census)"
      using assms(3) by auto
    have c: "census' = (insert (slot_id slot) (fst census), snd census)" using validated_slot [OF v(1)] v(2) by simp
    show ?thesis
      unfolding acc PSlot compose_profile_element.simps c
    proof (rule composes_pbind [OF slots_compose(1) [OF assms(1)]])
      fix r :: "element list \<times> contribution_id list \<times> used_ids"
      assume r: "case r of (els, active, ids') \<Rightarrow> snd ids' = snd (cst_ids st)"
      obtain new active ids' where split: "r = (new, active, ids')" by (cases r)
      have "group_ids_within pid (insert (slot_id slot) (fst census), snd census) ids'"
        using within_insert(3) [OF assms(2), of ids'] r split acc by simp
      then show "composes (\<lambda>r. group_ids_within pid (insert (slot_id slot) (fst census), snd census) (cst_ids (snd r)))
          (case r of (new, active, ids) \<Rightarrow> Some (Inr (els @ new,
            \<lparr>cst_active = active,
             cst_slots = cst_slots st @ [\<lparr>cslot_id = slot_id slot, cslot_path = [], cslot_start = length els,
                 cslot_end = length (els @ new)\<rparr>],
             cst_ids = ids\<rparr>)))"
        by (simp add: split composes_Ok)
    qed
  next
    case (PGroup g)
    have "composes (\<lambda>r. group_ids_within pid census' (cst_ids (snd r)))
        (compose_profile_group cat reg pid ctx g [length els] st)"
      using group_composes(2) [OF assms(1)] assms(2,3) acc PGroup by simp
    then show ?thesis
      unfolding acc PGroup compose_profile_element.simps by (rule composes_pbind) (auto intro!: composes_Ok)
  qed (use assms acc in \<open>auto intro!: composes_Ok split: if_splits\<close>)
qed

section \<open>A valid document builds\<close>

lemma document_catalog_spec:
  assumes "document_validate d = Inr ()"
  obtains cat where "document_catalog d connected = Inr cat" "catalog_ok cat"
    "\<And>i c. bt_get (cat_contributions cat) i = Some c \<longleftrightarrow>
       (\<exists>k\<in>set (doc_contributions d). cc_id k = i \<and> c = contribution_to_model connected k)"
    "\<And>i p. bt_get (cat_profiles cat) i = Some p \<longleftrightarrow>
       (\<exists>k\<in>set (doc_profiles d). pc_id k = i \<and> p = profile_to_model connected k)"
proof -
  let ?empty = "\<lparr>cat_contributions = [], cat_profiles = []\<rparr> :: profile_catalog"
  from assms have v: "distinct (map cc_id (doc_contributions d))" "list_all (\<lambda>c. \<not> str_blank (cc_id c)) (doc_contributions d)"
    "distinct (map pc_id (doc_profiles d))" "list_all (\<lambda>p. \<not> str_blank (pc_id p)) (doc_profiles d)"
    by (auto elim!: valid_document simp: list_all_iff)
  obtain cat1 where cat1: "rfold (\<lambda>cat c. add_contribution (contribution_to_model connected c) cat) ?empty (doc_contributions d) = Inr cat1"
    "catalog_ok cat1" "cat_profiles cat1 = []"
    "\<forall>c\<in>set (doc_contributions d). bt_get (cat_contributions cat1) (cc_id c) = Some (contribution_to_model connected c)"
    "\<forall>i. i \<notin> set (map cc_id (doc_contributions d)) \<longrightarrow> bt_get (cat_contributions cat1) i = None"
    using add_contributions_spec [OF catalog_ok_empty v(1,2), of connected] by (auto simp: list_all_iff)
  obtain cat where cat: "rfold (\<lambda>cat p. add_profile (profile_to_model connected p) cat) cat1 (doc_profiles d) = Inr cat"
    "catalog_ok cat" "cat_contributions cat = cat_contributions cat1"
    "\<forall>p\<in>set (doc_profiles d). bt_get (cat_profiles cat) (pc_id p) = Some (profile_to_model connected p)"
    "\<forall>i. i \<notin> set (map pc_id (doc_profiles d)) \<longrightarrow> bt_get (cat_profiles cat) i = None"
    using add_profiles_spec [OF cat1(2) v(3,4), of connected] cat1(3) by (auto simp: list_all_iff)
  show ?thesis
  proof (rule that)
    show "document_catalog d connected = Inr cat" using cat1(1) cat(1) by (simp add: document_catalog_def)
    show "bt_get (cat_contributions cat) i = Some c \<longleftrightarrow>
        (\<exists>k\<in>set (doc_contributions d). cc_id k = i \<and> c = contribution_to_model connected k)" for i c
      using cat1(4,5) cat(3) by (cases "i \<in> set (map cc_id (doc_contributions d))") auto
    show "bt_get (cat_profiles cat) i = Some p \<longleftrightarrow>
        (\<exists>k\<in>set (doc_profiles d). pc_id k = i \<and> p = profile_to_model connected k)" for i p
      using cat(4,5) by (cases "i \<in> set (map pc_id (doc_profiles d))") auto
  qed (rule cat(2))
qed

lemma document_registry_spec:
  assumes "document_validate d = Inr ()" and "connected_ok connected"
  obtains reg where
    "pfold (register_item connected) empty_registry (filter (is_connected connected) (doc_item_ids d)) = Some (Inr reg)"
    "registry_ok reg" "\<And>i. bt_get (reg_items reg) i \<noteq> None \<longleftrightarrow> i \<in> set (doc_item_ids d) \<and> is_connected connected i"
proof -
  from assms(1) have "list_all (\<lambda>c. list_all item_config_ok (cc_items c)) (doc_contributions d)"
    by (auto elim!: valid_document simp: list_all_iff)
  then have "list_all (\<lambda>i. i \<noteq> [] \<and> \<not> str_blank i) (doc_item_ids d)"
    using item_name_ok by (auto simp: list_all_iff doc_item_ids_def ordered_set_def)
  then have "\<exists>reg. pfold (register_item connected) empty_registry (filter (is_connected connected) (doc_item_ids d)) = Some (Inr reg)
      \<and> registry_ok reg \<and> (\<forall>i. bt_get (reg_items reg) i \<noteq> None \<longleftrightarrow>
          i \<in> set (filter (is_connected connected) (doc_item_ids d)) \<or> bt_get (reg_items empty_registry) i \<noteq> None)"
    by (intro register_items_spec registry_ok_empty assms(2))
      (auto simp: list_all_iff doc_item_ids_def ordered_set_def empty_registry_def)
  then show ?thesis using that by (auto simp: empty_registry_def)
qed

lemma document_catalog_valid:
  assumes d: "document_validate d = Inr ()"
    and cat: "\<And>i c. bt_get (cat_contributions cat) i = Some c \<longleftrightarrow>
       (\<exists>k\<in>set (doc_contributions d). cc_id k = i \<and> c = contribution_to_model connected k)"
      "\<And>i p. bt_get (cat_profiles cat) i = Some p \<longleftrightarrow>
       (\<exists>k\<in>set (doc_profiles d). pc_id k = i \<and> p = profile_to_model connected k)"
      "catalog_ok cat"
    and reg: "\<And>i. bt_get (reg_items reg) i \<noteq> None \<longleftrightarrow> i \<in> set (doc_item_ids d) \<and> is_connected connected i"
  shows "plain_catalog cat reg (set (map cc_id (doc_contributions d)))"
    and "catalog_validate cat reg = Inr ()"
    and "bt_get (cat_profiles cat) i = Some p \<Longrightarrow> \<exists>census. validate_profile cat p = Inr census"
proof -
  show plain: "plain_catalog cat reg (set (map cc_id (doc_contributions d)))"
    unfolding plain_catalog_def
  proof (intro conjI ballI allI impI)
    fix i assume "i \<in> set (map cc_id (doc_contributions d))"
    then obtain k where "k \<in> set (doc_contributions d)" "cc_id k = i" by auto
    then have "bt_get (cat_contributions cat) i = Some (contribution_to_model connected k)" using iffD2 [OF cat(1)] by blast
    then show "bt_get (cat_contributions cat) i \<noteq> None" by simp
  next
    fix i c e assume c: "bt_get (cat_contributions cat) i = Some c" and e: "e \<in> set (con_elements c)"
    obtain k where "k \<in> set (doc_contributions d)" "c = contribution_to_model connected k"
      using iffD1 [OF cat(1) c] by blast
    then have "\<exists>n. e = BItem n \<and> n \<in> set (doc_item_ids d) \<and> is_connected connected n"
      using e by (auto simp: contribution_to_model_def doc_item_ids_def ordered_set_def)
    then show "\<exists>k. e = BItem k \<and> bt_get (reg_items reg) k \<noteq> None" using reg by blast
  qed
  show profile: "\<exists>census. validate_profile cat p = Inr census" if found: "bt_get (cat_profiles cat) i = Some p" for i p
  proof -
    obtain k where k: "k \<in> set (doc_profiles d)" "p = profile_to_model connected k"
      using iffD1 [OF cat(2) found] by blast
    obtain n census where "rfold (validate_element_config (pc_id k) (set (map cc_id (doc_contributions d))))
        \<lparr>ec_slots = {}, ec_groups = {}, ec_count = n\<rparr> (pc_elements k) = Inr census"
      using d k(1) by (auto elim!: valid_document)
    then show ?thesis using profile_sim [OF plain] k(2) by blast
  qed
  have con: "validate_contribution reg c = Inr {}" if "bt_get (cat_contributions cat) i = Some c" for i c
  proof -
    have "\<forall>e\<in>set (con_elements c). \<exists>k. e = BItem k \<and> bt_get (reg_items reg) k \<noteq> None"
      using plain that unfolding plain_catalog_def by blast
    then have "validate_contribution_element reg c {} e = Inr {}" if "e \<in> set (con_elements c)" for e
      using that by fastforce
    then have "rfold (validate_contribution_element reg c) {} xs = Inr {}" if "set xs \<subseteq> set (con_elements c)" for xs
      using that by (induction xs) auto
    then show ?thesis by (simp add: validate_contribution_def)
  qed
  have ok: "bt_ok (cat_contributions cat)" "bt_ok (cat_profiles cat)" using cat(3) by (simp_all add: catalog_ok_def)
  have "rfold (\<lambda>_ c. rmap (\<lambda>_. ()) (validate_contribution reg c)) () (bt_values (cat_contributions cat)) = Inr ()"
  proof (rule rfold_unit)
    fix c assume "c \<in> set (bt_values (cat_contributions cat))"
    then obtain i where "bt_get (cat_contributions cat) i = Some c" using bt_value_get [OF ok(1)] by blast
    then show "rmap (\<lambda>_. ()) (validate_contribution reg c) = Inr ()" by (simp add: con)
  qed
  moreover have "rfold (\<lambda>_ p. rmap (\<lambda>_. ()) (validate_profile cat p)) () (bt_values (cat_profiles cat)) = Inr ()"
  proof (rule rfold_unit)
    fix p assume "p \<in> set (bt_values (cat_profiles cat))"
    then obtain i where "bt_get (cat_profiles cat) i = Some p" using bt_value_get [OF ok(2)] by blast
    then show "rmap (\<lambda>_. ()) (validate_profile cat p) = Inr ()" using profile by fastforce
  qed
  ultimately show "catalog_validate cat reg = Inr ()" by (simp add: catalog_validate_def)
qed

lemma validated_compose:
  assumes plain: "plain_catalog cat reg ids" and "catalog_validate cat reg = Inr ()"
    and p: "bt_get (cat_profiles cat) pid = Some p" and v: "validate_profile cat p = Inr census"
  shows "repeats_only (profile_compose cat reg pid ctx)"
proof -
  let ?start = "([], \<lparr>cst_active = [], cst_slots = [], cst_ids = ({}, {})\<rparr>) :: element list \<times> compose_state"
  let ?P = "\<lambda>census acc. group_ids_within (prof_id p) census (cst_ids (snd acc))"
  have "composes (?P census) (pfold (compose_profile_element cat reg (prof_id p) ctx) ?start (prof_elements p))"
    using v unfolding validate_profile_def
  proof (rule composes_pfold_validated)
    show "?P ({}, {}) ?start" by (simp add: group_ids_within_def)
  qed (rule element_composes [OF plain])
  then have "composes (\<lambda>_. True) (pbind (pfold (compose_profile_element cat reg (prof_id p) ctx) ?start (prof_elements p))
       (\<lambda>(els, st). Some (Inr (finish_composition p els st))))"
    by (rule composes_pbind) (auto intro!: composes_Ok)
  then show ?thesis
    using assms(2) p by (simp add: profile_compose_def lift_result_def composes_def)
qed

lemma selected_profile_known:
  assumes "fb \<in> K" and "list_all (\<lambda>r. prule_profile r \<in> K) (psel_rules sel)" and "psel_fallback sel = fb"
  shows "profile_select sel ctx \<in> K"
proof (cases "max_by_last (\<lambda>(k, r). (prule_priority r, - int k))
    (filter (\<lambda>(_, r). pred_matches (prule_predicate r) ctx) (enumerate 0 (psel_rules sel)))")
  case None
  then show ?thesis using assms(1,3) by (simp only: profile_select_def option.case)
next
  case (Some m)
  obtain k r where m: "m = (k, r)" by (cases m)
  have "(k, r) \<in> set (enumerate 0 (psel_rules sel))" using max_by_last_Some(1) [OF Some] m by auto
  then have "r \<in> set (psel_rules sel)" using enumerate_memb [of "(k, r)" 0] by simp
  then show ?thesis using assms(2) Some m by (auto simp: profile_select_def list_all_iff)
qed

lemma document_selector_valid:
  assumes d: "document_validate d = Inr ()"
    and cat: "\<And>i p. bt_get (cat_profiles cat) i = Some p \<longleftrightarrow>
       (\<exists>k\<in>set (doc_profiles d). pc_id k = i \<and> p = profile_to_model connected k)"
  shows "validate_selector cat (doc_selector d) = Inr ()"
    and "\<exists>p. bt_get (cat_profiles cat) (profile_select (doc_selector d) ctx) = Some p"
proof -
  have known: "\<exists>p. bt_get (cat_profiles cat) i = Some p" if i: "i \<in> set (doc_profile_ids d)" for i
    using i iffD2 [OF cat] by (auto simp: doc_profile_ids_def)
  have fb: "doc_fallback d \<in> set (doc_profile_ids d)"
    and rules: "list_all (\<lambda>r. prc_profile r \<in> set (doc_profile_ids d)) (doc_rules d)"
    using d by (auto elim!: valid_document)
  have "rfold (\<lambda>_ r. if bt_get (cat_profiles cat) (prule_profile r) = None
          then Inl (PUnknownProfile (prule_profile r)) else Inr ()) () (psel_rules (doc_selector d)) = Inr ()"
    using rules known by (intro rfold_unit) (fastforce simp: doc_selector_def list_all_iff)
  then show "validate_selector cat (doc_selector d) = Inr ()"
    using known [OF fb] by (auto simp: validate_selector_def doc_selector_def)
  have "profile_select (doc_selector d) ctx \<in> set (doc_profile_ids d)"
    by (rule selected_profile_known [OF fb]) (use rules in \<open>auto simp: doc_selector_def list_all_iff\<close>)
  then show "\<exists>p. bt_get (cat_profiles cat) (profile_select (doc_selector d) ctx) = Some p" by (rule known)
qed

lemma compose_not_None:
  assumes "catalog_ok cat" and "catalog_validate cat reg = Inr ()"
  shows "profile_compose cat reg pid ctx \<noteq> None"
proof -
  have "pfold (compose_profile_element cat reg (prof_id p) ctx) acc (prof_elements p) \<noteq> None"
    if v: "bt_get (cat_profiles cat) pid = Some p" for p acc
    by (rule pfold_not_None) (use validated_profile [OF assms(2,1) v] compose_profile_element_total [OF assms(2,1)]
      in \<open>auto simp: list_all_iff\<close>)
  then show ?thesis by (auto simp: profile_compose_def lift_result_def pbind_eq_None)
qed

lemma valid_document_builds:
  assumes "document_validate d = Inr ()" and "connected_ok connected"
    and "list_all (is_connected connected) (required_item_ids d)"
  obtains (built) b where "document_build d connected ctx = Some (Inr b)"
  | (repeated) i where "document_build d connected ctx = Some (Inl (CfProfile (PDuplicateComposedItem i)))"
proof -
  obtain cat where cat: "document_catalog d connected = Inr cat" "catalog_ok cat"
    "\<And>i c. bt_get (cat_contributions cat) i = Some c \<longleftrightarrow>
       (\<exists>k\<in>set (doc_contributions d). cc_id k = i \<and> c = contribution_to_model connected k)"
    "\<And>i p. bt_get (cat_profiles cat) i = Some p \<longleftrightarrow>
       (\<exists>k\<in>set (doc_profiles d). pc_id k = i \<and> p = profile_to_model connected k)"
    by (rule document_catalog_spec [OF assms(1), of connected]) (rule that; assumption)
  obtain reg where reg:
    "pfold (register_item connected) empty_registry (filter (is_connected connected) (doc_item_ids d)) = Some (Inr reg)"
    "\<And>i. bt_get (reg_items reg) i \<noteq> None \<longleftrightarrow> i \<in> set (doc_item_ids d) \<and> is_connected connected i"
    by (rule document_registry_spec [OF assms(1,2)]) (rule that; assumption)
  note valid = document_catalog_valid [OF assms(1) cat(3,4,2) reg(2)]
  note sel = document_selector_valid [OF assms(1) cat(4)]
  let ?pid = "profile_select (doc_selector d) ctx"
  obtain p where p: "bt_get (cat_profiles cat) ?pid = Some p" using sel(2) by blast
  obtain census where census: "validate_profile cat p = Inr census" using valid(3) [OF p] by blast
  note rep = validated_compose [OF valid(1,2) p census, of ctx]
  have miss: "filter (\<lambda>i. \<not> is_connected connected i) (required_item_ids d) = []"
    using assms(3) by (simp add: list_all_iff filter_empty_conv)
  have build: "document_build d connected ctx = pbind (cf CfProfile (controller_new cat reg (doc_selector d) ctx)) (\<lambda>ctl.
       Some (Inr \<lparr>built_controller = ctl, built_item_ids = doc_item_ids d, built_profile_ids = doc_profile_ids d\<rparr>))"
    using assms(1) miss reg(1) cat(1) by (simp add: document_build_def Let_def cf_def)
  show thesis
  proof (cases "profile_compose cat reg ?pid ctx")
    case None
    then show thesis using compose_not_None [OF cat(2) valid(2)] by simp
  next
    case (Some r)
    show thesis
    proof (cases r)
      case (Inl e)
      then obtain i where "e = PDuplicateComposedItem i" using rep Some by (auto simp: repeats_only_def)
      then show thesis
        using that(2) Some Inl build valid(2) sel(1) by (simp add: controller_new_def lift_result_def cf_def)
    next
      case (Inr pc)
      then show thesis
        using that(1) Some build valid(2) sel(1) by (simp add: controller_new_def lift_result_def cf_def)
    qed
  qed
qed

section \<open>Properties\<close>

text \<open>The internal name of an item is unambiguous, as its documentation claims.\<close>

lemma qualified_item_id_inj:
  assumes "qualified_item_id plugin item = Inr name" and "qualified_item_id plugin' item' = Inr name"
  shows "plugin = plugin' \<and> item = item'"
proof -
  have "CHR ''#'' \<notin> set plugin" "CHR ''#'' \<notin> set plugin'" "plugin @ CHR ''#'' # item = plugin' @ CHR ''#'' # item'"
    using assms hash_not_plugin by (auto simp: qualified_item_id_def qualified_item_id_unchecked_def)
  then show ?thesis using hash_split_unique by metis
qed

lemma doc_region_fits: "doc_region d rid canvas = Some (x, width) \<Longrightarrow> x + width \<le> canvas"
proof (cases "find (\<lambda>r. rg_id r = rid) (doc_regions d)")
  case (Some r)
  assume "doc_region d rid canvas = Some (x, width)"
  then show "x + width \<le> canvas" using Some by (cases "rg_anchor r") (simp_all add: doc_region_def Let_def, linarith+)
qed (simp add: doc_region_def)

text \<open>The built-in profile of \<^verbatim>\<open>live_profiles.rs\<close>, with the items it names connected.\<close>

definition demo_contribution_config ::
  "string \<Rightarrow> string \<Rightarrow> string \<Rightarrow> scope_config \<Rightarrow> int \<Rightarrow> predicate_config \<Rightarrow> contribution_config" where
  "demo_contribution_config cid plugin item scope priority predicate =
     \<lparr>cc_id = cid, cc_items = [\<lparr>pic_plugin = plugin, pic_item = item, pic_required = True\<rparr>], cc_scope = scope,
      cc_priority = priority, cc_when = predicate\<rparr>"

definition demo_document :: profile_document where
  "demo_document =
     \<lparr>doc_version = 1, doc_fallback = ''default'',
      doc_contributions =
        [demo_contribution_config ''persistent.volume'' ''touchbar.ui-demo'' ''audio.volume'' ScGlobal 0 PcAlways,
         demo_contribution_config ''application.terminal'' ''demo.terminal'' ''demo.terminal'' ScGlobal 0 PcAlways,
         demo_contribution_config ''application.browser'' ''demo.browser'' ''demo.browser'' ScApplication 100
           (PcAny [PcTextEquals ''application.id'' ''firefox'', PcTextEquals ''application.id'' ''org.mozilla.firefox'',
             PcTextEquals ''application.id'' ''chromium'', PcTextEquals ''application.id'' ''google-chrome'']),
         demo_contribution_config ''persistent.status'' ''demo.status'' ''demo.status'' ScGlobal 0 PcAlways],
      doc_profiles =
        [\<lparr>pc_id = ''default'',
          pc_elements =
            [EcSlot ''persistent'' SpFixed [''persistent.volume''], EcFlexibleSpace 8 1,
             EcSlot ''application'' SpSelect [''application.terminal'', ''application.browser''], EcFlexibleSpace 8 1,
             EcSlot ''status'' SpFixed [''persistent.status'']],
          pc_principal_item = None\<rparr>],
      doc_rules = [], doc_regions = []\<rparr>"

definition demo_connected :: connected_items where
  "demo_connected = map (\<lambda>i. (i, new_item i 40 80 600)) (required_item_ids demo_document)"

lemma demo_document_valid: "document_validate demo_document = Inr ()"
  by code_simp

lemma demo_connected_eq:
  "demo_connected = map (\<lambda>i. (i, new_item i 40 80 600))
     [''demo.browser#demo.browser'', ''demo.status#demo.status'', ''demo.terminal#demo.terminal'',
      ''touchbar.ui-demo#audio.volume'']"
  by code_simp

lemma demo_connected_ok: "connected_ok demo_connected"
  unfolding connected_ok_def demo_connected_eq
  by (auto simp: bt_ok_def bt_get_def new_item_def split: if_splits)

lemma demo_required: "list_all (is_connected demo_connected) (required_item_ids demo_document)"
  by code_simp



end
