(* ===== verification/Live_Profiles.thy ===== *)
theory Live_Profiles
  imports Profile_Build
begin

text \<open>
  The live profiles of the session daemon (\<^verbatim>\<open>touchbar-sessiond/src/live_profiles.rs\<close>): the adapter between the
  user's document, the items that plugins have connected and the composition controller. While a contact is
  held, documents and connections are kept pending; when the last one lifts, they are applied.

  An operation returns the snapshot to lay out, an error or a panic, with the state it leaves behind: what the
  code assigned before a question mark stays assigned. \<open>live_apply\<close> dispatches over the operations, and
  \<open>live_reachable\<close> are the states of a daemon.
\<close>

record live_profiles =
  lp_document :: profile_document
  lp_context :: context_snapshot
  lp_controller :: "controller option"
  lp_current :: "profile_snapshot option"
  lp_connected :: connected_items
  lp_pending_connected :: "connected_items option"
  lp_pending_document :: "profile_document option"
  lp_captured :: "nat set"
  lp_manual :: "profile_id option"
  lp_next_generation :: nat
  lp_last_bar :: "bar_spec option"

type_synonym live_result = "(config_error, profile_snapshot option) outcome \<times> live_profiles"

definition live_new :: "profile_document \<Rightarrow> context_snapshot \<Rightarrow> live_profiles" where
  "live_new d ctx =
     \<lparr>lp_document = d, lp_context = ctx, lp_controller = None, lp_current = None, lp_connected = [],
      lp_pending_connected = None, lp_pending_document = None, lp_captured = {}, lp_manual = None,
      lp_next_generation = 1, lp_last_bar = None\<rparr>"

definition live_configured :: "profile_document \<Rightarrow> live_profiles" where
  "live_configured d = live_new d \<lparr>ctx_generation = 1, ctx_facts = []\<rparr>"

definition live_ready :: "live_profiles \<Rightarrow> bool" where
  "live_ready lp \<longleftrightarrow> lp_controller lp \<noteq> None"

definition missing_required_items :: "live_profiles \<Rightarrow> string list" where
  "missing_required_items lp =
     filter (\<lambda>i. i \<notin> set (bt_keys (lp_connected lp))) (required_item_ids (lp_document lp))"

definition active_profile :: "live_profiles \<Rightarrow> profile_id option" where
  "active_profile lp = map_option (\<lambda>s. pcomp_profile (ps_composition s)) (lp_current lp)"

section \<open>Publication\<close>

definition live_item_ids :: "bar_spec \<Rightarrow> item_id set" where
  "live_item_ids bar = set (concat (map collect_item_ids (bar_elements bar)))"

definition live_delta :: "bar_spec option \<Rightarrow> bar_spec \<Rightarrow> composition_delta" where
  "live_delta previous bar =
     (let old = (case previous of None \<Rightarrow> {} | Some b \<Rightarrow> live_item_ids b); new = live_item_ids bar in
      \<lparr>retained_items = sorted_list_of_set (old \<inter> new),
       entering_items = sorted_list_of_set (new - old),
       leaving_items = sorted_list_of_set (old - new)\<rparr>)"

definition normalize :: "profile_snapshot \<Rightarrow> live_profiles \<Rightarrow> profile_snapshot \<times> live_profiles" where
  "normalize snapshot lp =
     (let s = snapshot\<lparr>ps_generation := lp_next_generation lp,
                ps_context_generation := ctx_generation (lp_context lp),
                ps_delta := live_delta (lp_last_bar lp) (pcomp_bar (ps_composition snapshot))\<rparr> in
      (s, lp\<lparr>lp_next_generation := max (wrapping_succ (lp_next_generation lp)) 1,
             lp_last_bar := Some (pcomp_bar (ps_composition snapshot)), lp_current := Some s\<rparr>))"

definition publish :: "profile_snapshot option \<Rightarrow> live_profiles \<Rightarrow> live_result" where
  "publish raw lp =
     (case raw of
        None \<Rightarrow> (Some (Inr None), lp)
      | Some snapshot \<Rightarrow> (case normalize snapshot lp of (s, lp') \<Rightarrow> (Some (Inr (Some s)), lp')))"

section \<open>Operations\<close>

definition live_rebuild :: "connected_items \<Rightarrow> live_profiles \<Rightarrow> live_result" where
  "live_rebuild connected lp =
     (let lp1 = lp\<lparr>lp_connected := connected, lp_pending_connected := None\<rparr> in
      if \<not> list_all (is_connected connected) (required_item_ids (lp_document lp1))
      then (Some (Inr None),
        lp1\<lparr>lp_controller := None, lp_current := None,
            lp_last_bar := Some \<lparr>bar_elements = [], principal_item = None\<rparr>\<rparr>)
      else
        (case document_build (lp_document lp1) connected (lp_context lp1) of
           None \<Rightarrow> (None, lp1)
         | Some (Inl e) \<Rightarrow> (Some (Inl e), lp1)
         | Some (Inr b) \<Rightarrow>
             (case (case lp_manual lp1 of
                      None \<Rightarrow> (Some (Inr None), built_controller b)
                    | Some p \<Rightarrow> controller_apply (SelectProfile p) (built_controller b)) of
                (None, ctl) \<Rightarrow> (None, lp1)
              | (Some (Inl e), ctl) \<Rightarrow> (Some (Inl (CfProfile e)), lp1)
              | (Some (Inr _), ctl) \<Rightarrow> publish (Some (ctl_current ctl)) (lp1\<lparr>lp_controller := Some ctl\<rparr>))))"

definition relevant_items :: "profile_document \<Rightarrow> connected_items \<Rightarrow> connected_items" where
  "relevant_items d connected = filter (\<lambda>(i, _). i \<in> set (doc_item_ids d)) connected"

definition try_initialize :: "connected_items \<Rightarrow> live_profiles \<Rightarrow> live_result" where
  "try_initialize connected lp =
     (let relevant = relevant_items (lp_document lp) connected in
      if relevant = lp_connected lp \<and> lp_pending_connected lp = None then (Some (Inr None), lp)
      else if lp_captured lp \<noteq> {} then (Some (Inr None), lp\<lparr>lp_pending_connected := Some relevant\<rparr>)
      else live_rebuild relevant lp)"

definition kept_manual :: "profile_document \<Rightarrow> profile_id option \<Rightarrow> profile_id option" where
  "kept_manual d manual =
     (case manual of None \<Rightarrow> None | Some p \<Rightarrow> if p \<in> set (doc_profile_ids d) then Some p else None)"

definition replace_document :: "profile_document \<Rightarrow> connected_items \<Rightarrow> live_profiles \<Rightarrow> live_result" where
  "replace_document d connected lp =
     (case document_validate d of
        Inl e \<Rightarrow> (Some (Inl e), lp)
      | Inr _ \<Rightarrow>
          let relevant = relevant_items d connected in
          (case (if list_all (is_connected relevant) (required_item_ids d)
                 then map_option (map_sum id (\<lambda>_. ())) (document_build d relevant (lp_context lp))
                 else Some (Inr ())) of
             None \<Rightarrow> (None, lp)
           | Some (Inl e) \<Rightarrow> (Some (Inl e), lp)
           | Some (Inr _) \<Rightarrow>
               if lp_captured lp \<noteq> {}
               then (Some (Inr None), lp\<lparr>lp_pending_document := Some d, lp_pending_connected := Some relevant\<rparr>)
               else live_rebuild relevant (lp\<lparr>lp_document := d, lp_manual := kept_manual d (lp_manual lp)\<rparr>)))"

text \<open>A command to the controller, when there is one.\<close>

definition live_command :: "controller_command \<Rightarrow> live_profiles \<Rightarrow> live_result" where
  "live_command command lp =
     (case lp_controller lp of
        None \<Rightarrow> (Some (Inr None), lp)
      | Some ctl \<Rightarrow>
          (case controller_apply command ctl of
             (None, ctl') \<Rightarrow> (None, lp\<lparr>lp_controller := Some ctl'\<rparr>)
           | (Some (Inl e), ctl') \<Rightarrow> (Some (Inl (CfProfile e)), lp\<lparr>lp_controller := Some ctl'\<rparr>)
           | (Some (Inr raw), ctl') \<Rightarrow> publish raw (lp\<lparr>lp_controller := Some ctl'\<rparr>)))"

definition select_profile :: "profile_id \<Rightarrow> live_profiles \<Rightarrow> live_result" where
  "select_profile p lp =
     (if p \<notin> set (doc_profile_ids (lp_document lp)) then (Some (Inl (CfUnknownProfile p)), lp)
      else live_command (SelectProfile p) (lp\<lparr>lp_manual := Some p\<rparr>))"

definition use_automatic_profile :: "live_profiles \<Rightarrow> live_result" where
  "use_automatic_profile lp = live_command UseAutomaticProfile (lp\<lparr>lp_manual := None\<rparr>)"

definition set_fact :: "string \<Rightarrow> context_value \<Rightarrow> live_profiles \<Rightarrow> live_result" where
  "set_fact key value lp =
     (let ctx = \<lparr>ctx_generation = max (wrapping_succ (ctx_generation (lp_context lp))) 1,
                 ctx_facts = bt_insert key value (ctx_facts (lp_context lp))\<rparr> in
      live_command (SetContext ctx) (lp\<lparr>lp_context := ctx\<rparr>))"

definition capture_started :: "nat \<Rightarrow> live_profiles \<Rightarrow> live_profiles" where
  "capture_started contact lp =
     lp\<lparr>lp_captured := insert contact (lp_captured lp),
        lp_controller := map_option (controller_capture_started contact) (lp_controller lp)\<rparr>"

definition capture_ended :: "nat \<Rightarrow> live_profiles \<Rightarrow> live_result" where
  "capture_ended contact lp =
     (let lp1 = lp\<lparr>lp_captured := lp_captured lp - {contact}\<rparr>;
          (raw, lp2) = (case lp_controller lp1 of
              None \<Rightarrow> (None, lp1)
            | Some ctl \<Rightarrow>
                (case controller_capture_ended contact ctl of
                   (raw, ctl') \<Rightarrow> (raw, lp1\<lparr>lp_controller := Some ctl'\<rparr>))) in
      if lp_captured lp2 = {} then
        let lp3 = (case lp_pending_document lp2 of
              None \<Rightarrow> lp2
            | Some d \<Rightarrow> lp2\<lparr>lp_pending_document := None, lp_document := d,
                            lp_manual := kept_manual d (lp_manual lp2)\<rparr>) in
        (case lp_pending_connected lp3 of
           Some connected \<Rightarrow> live_rebuild connected (lp3\<lparr>lp_pending_connected := None\<rparr>)
         | None \<Rightarrow> publish raw lp3)
      else publish raw lp2)"

datatype live_op =
    TryInitialize connected_items
  | ReplaceDocument profile_document connected_items
  | ChooseProfile profile_id
  | Automatic
  | SetFact string context_value
  | CaptureStarted nat
  | CaptureEnded nat

fun live_apply :: "live_op \<Rightarrow> live_profiles \<Rightarrow> live_result" where
  "live_apply (TryInitialize connected) lp = try_initialize connected lp"
| "live_apply (ReplaceDocument d connected) lp = replace_document d connected lp"
| "live_apply (ChooseProfile p) lp = select_profile p lp"
| "live_apply Automatic lp = use_automatic_profile lp"
| "live_apply (SetFact key value) lp = set_fact key value lp"
| "live_apply (CaptureStarted c) lp = (Some (Inr None), capture_started c lp)"
| "live_apply (CaptureEnded c) lp = capture_ended c lp"

inductive live_reachable :: "live_profiles \<Rightarrow> bool" where
  live_start: "document_validate d = Inr () \<Longrightarrow> live_reachable (live_new d ctx)"
| live_next: "live_reachable lp \<Longrightarrow> live_apply op lp = (r, lp') \<Longrightarrow> live_reachable lp'"

section \<open>Controllers that are built and driven\<close>

definition good_controller :: "controller \<Rightarrow> bool" where
  "good_controller ctl \<longleftrightarrow> ctl_reachable ctl \<and> catalog_ok (ctl_catalog ctl)"

lemma document_catalog_ok: "document_catalog d connected = Inr cat \<Longrightarrow> catalog_ok cat"
proof -
  assume "document_catalog d connected = Inr cat"
  then obtain cat1 where
    "rfold (\<lambda>cat c. add_contribution (contribution_to_model connected c) cat)
       \<lparr>cat_contributions = [], cat_profiles = []\<rparr> (doc_contributions d) = Inr cat1"
    "rfold (\<lambda>cat p. add_profile (profile_to_model connected p) cat) cat1 (doc_profiles d) = Inr cat"
    by (auto simp: document_catalog_def)
  then show "catalog_ok cat"
    by (metis (no_types, lifting) catalog_ok_add catalog_ok_empty rfold_invariant [where P = catalog_ok])
qed

lemma profile_compose_not_None: "catalog_ok cat \<Longrightarrow> profile_compose cat reg pid ctx \<noteq> None"
  using compose_not_None [of cat reg pid ctx]
  by (cases "catalog_validate cat reg") (auto simp: profile_compose_def lift_result_def)

lemma controller_new_good:
  assumes "catalog_ok cat"
  shows "controller_new cat reg sel ctx \<noteq> None"
    and "controller_new cat reg sel ctx = Some (Inr ctl) \<Longrightarrow> good_controller ctl \<and> ctl_captured ctl = {}"
proof -
  show "controller_new cat reg sel ctx \<noteq> None"
    using profile_compose_not_None [OF assms]
    by (auto simp: controller_new_def lift_result_def pbind_eq_None)
  assume "controller_new cat reg sel ctx = Some (Inr ctl)"
  moreover from this have "ctl_catalog ctl = cat \<and> ctl_captured ctl = {}" by (auto simp: controller_new_def)
  ultimately show "good_controller ctl \<and> ctl_captured ctl = {}"
    using assms by (auto simp: good_controller_def intro: ctl_reachable.start)
qed

lemma cf_eq: "cf err r = None \<longleftrightarrow> r = None" "cf err r = Some (Inr a) \<longleftrightarrow> r = Some (Inr a)"
proof -
  show "cf err r = None \<longleftrightarrow> r = None" by (simp add: cf_def)
  show "cf err r = Some (Inr a) \<longleftrightarrow> r = Some (Inr a)"
  proof (cases r)
    case (Some x)
    then show ?thesis by (cases x) (auto simp: cf_def)
  qed (simp add: cf_def)
qed

lemma register_items_total: "pfold (register_item connected) reg (filter (is_connected connected) names) \<noteq> None"
  by (rule pfold_not_None) (auto simp: register_item_def is_connected_def cf_def)

lemma document_build_good:
  shows "document_build d connected ctx \<noteq> None"
    and "document_build d connected ctx = Some (Inr b) \<Longrightarrow>
       good_controller (built_controller b) \<and> ctl_captured (built_controller b) = {}"
proof -
  show "document_build d connected ctx \<noteq> None"
  proof
    assume "document_build d connected ctx = None"
    then obtain cat reg where "document_catalog d connected = Inr cat" "controller_new cat reg (doc_selector d) ctx = None"
      using register_items_total [of connected empty_registry "doc_item_ids d"]
      by (auto simp: document_build_def Let_def pbind_eq_None cf_eq split: if_splits)
    then show False using controller_new_good(1) [OF document_catalog_ok] by simp
  qed
  assume "document_build d connected ctx = Some (Inr b)"
  then obtain cat reg where "document_catalog d connected = Inr cat"
    "controller_new cat reg (doc_selector d) ctx = Some (Inr (built_controller b))"
    by (auto simp: document_build_def Let_def cf_eq split: if_splits)
  then show "good_controller (built_controller b) \<and> ctl_captured (built_controller b) = {}"
    using controller_new_good(2) [OF document_catalog_ok] by blast
qed

lemma controller_apply_good:
  assumes "good_controller ctl" and "controller_apply command ctl = (r, ctl')"
  shows "r \<noteq> None" and "good_controller ctl'" and "ctl_captured ctl' = ctl_captured ctl"
    and "ctl_captured ctl \<noteq> {} \<Longrightarrow> r \<noteq> Some (Inr (Some s))"
    and "r = Some (Inr (Some s)) \<Longrightarrow> ctl_current ctl' = s"
proof -
  obtain c st1 where c: "apply_command command ctl = (c, st1)" by (cases "apply_command command ctl")
  note frame = apply_command_frame [OF c]
  have "build_snapshot st1 \<noteq> None"
    using profile_compose_not_None assms(1) frame by (auto simp: build_snapshot_def pbind_eq_None good_controller_def)
  then obtain b where b: "build_snapshot st1 = Some b" by blast
  have "r \<noteq> None \<and> ctl_catalog ctl' = ctl_catalog st1 \<and> ctl_captured ctl' = ctl_captured st1"
  proof (cases c)
    case (Inl e)
    then show ?thesis using assms(2) unfolding controller_apply_def c by auto
  next
    case (Inr changed)
    have "controller_apply command ctl =
       (if \<not> changed then (Some (Inr None), st1)
        else case b of
            Inl e \<Rightarrow> (Some (Inl e), st1\<lparr>ctl_context := ctl_context ctl, ctl_manual := ctl_manual ctl,
                ctl_modes := ctl_modes ctl, ctl_next_mode_sequence := ctl_next_mode_sequence ctl\<rparr>)
          | Inr candidate \<Rightarrow>
              let st2 = st1\<lparr>ctl_next_generation := max (wrapping_succ (ctl_next_generation st1)) 1\<rparr> in
              if ctl_captured st2 = {} then (Some (Inr (Some candidate)), st2\<lparr>ctl_current := candidate\<rparr>)
              else (Some (Inr None), st2\<lparr>ctl_pending := Some candidate\<rparr>))"
      by (simp add: controller_apply_def c Inr b)
    then show ?thesis using assms(2) by (cases b) (auto simp: Let_def split: if_splits)
  qed
  then have all: "r \<noteq> None \<and> ctl_catalog ctl' = ctl_catalog ctl \<and> ctl_captured ctl' = ctl_captured ctl"
    using frame by simp
  then show r: "r \<noteq> None" and "ctl_captured ctl' = ctl_captured ctl" by simp_all
  show "good_controller ctl'"
    using all assms by (auto simp: good_controller_def intro: ctl_reachable.applied)
  show "r \<noteq> Some (Inr (Some s))" if "ctl_captured ctl \<noteq> {}"
    using assms(2) that controller_apply_ok [of command ctl "Some s" ctl'] by blast
  show "ctl_current ctl' = s" if "r = Some (Inr (Some s))"
    using assms(2) that by (auto elim!: controller_apply_ok)
qed

lemma controller_capture_good:
  assumes "good_controller ctl"
  shows "good_controller (controller_capture_started c ctl)"
    and "controller_capture_ended c ctl = (raw, ctl') \<Longrightarrow>
      good_controller ctl' \<and> ctl_captured ctl' = ctl_captured ctl - {c}
      \<and> (\<forall>s. raw = Some s \<longrightarrow> ctl_captured ctl' = {} \<and> ctl_current ctl' = s)"
proof -
  show "good_controller (controller_capture_started c ctl)"
    using assms ctl_reachable.started [of ctl c] by (simp add: good_controller_def controller_capture_started_def)
  assume e: "controller_capture_ended c ctl = (raw, ctl')"
  have "ctl_catalog ctl' = ctl_catalog ctl \<and> ctl_captured ctl' = ctl_captured ctl - {c}
      \<and> (\<forall>s. raw = Some s \<longrightarrow> ctl_captured ctl' = {} \<and> ctl_current ctl' = s)"
    using e by (auto simp: controller_capture_ended_def Let_def split: if_splits option.splits)
  then show "good_controller ctl' \<and> ctl_captured ctl' = ctl_captured ctl - {c}
      \<and> (\<forall>s. raw = Some s \<longrightarrow> ctl_captured ctl' = {} \<and> ctl_current ctl' = s)"
    using assms ctl_reachable.ended [OF _ e] by (auto simp: good_controller_def)
qed

lemma good_controller_composition:
  assumes "good_controller ctl" and "ctl_captured ctl = {}"
  shows "profile_compose (ctl_catalog ctl) (ctl_registry ctl) (effective_profile ctl) (ctl_context ctl) =
    Some (Inr (ps_composition (ctl_current ctl)))"
  using ctl_invar_reachable [of ctl] assms by (simp add: good_controller_def ctl_invar_def newest_def)

section \<open>The invariant\<close>

definition live_inv :: "live_profiles \<Rightarrow> bool" where
  "live_inv lp \<longleftrightarrow>
     (lp_captured lp = {} \<longrightarrow> lp_pending_connected lp = None \<and> lp_pending_document lp = None)
     \<and> (lp_controller lp = None \<longleftrightarrow> lp_current lp = None)
     \<and> document_validate (lp_document lp) = Inr ()
     \<and> pred_option (\<lambda>d. document_validate d = Inr ()) (lp_pending_document lp)
     \<and> pred_option (\<lambda>ctl. good_controller ctl \<and> ctl_captured ctl = lp_captured lp) (lp_controller lp)"

text \<open>What an operation may report and how it changes what is shown.\<close>

definition reported :: "live_profiles \<Rightarrow> live_result \<Rightarrow> bool" where
  "reported lp res \<longleftrightarrow>
     (case fst res of
        None \<Rightarrow> False
      | Some (Inr (Some s)) \<Rightarrow>
          lp_captured (snd res) = {}
          \<and> lp_current (snd res) = Some s \<and> ps_generation s = lp_next_generation lp
          \<and> lp_next_generation (snd res) = max (wrapping_succ (lp_next_generation lp)) 1
          \<and> ps_context_generation s = ctx_generation (lp_context (snd res))
          \<and> ps_delta s = live_delta (lp_last_bar lp) (pcomp_bar (ps_composition s))
          \<and> lp_last_bar (snd res) = Some (pcomp_bar (ps_composition s))
          \<and> (\<exists>ctl. lp_controller (snd res) = Some ctl
               \<and> profile_compose (ctl_catalog ctl) (ctl_registry ctl) (effective_profile ctl) (ctl_context ctl) =
                   Some (Inr (ps_composition s)))
      | Some _ \<Rightarrow>
          lp_next_generation (snd res) = lp_next_generation lp
          \<and> (lp_current (snd res) = lp_current lp \<and> lp_last_bar (snd res) = lp_last_bar lp
             \<or> lp_current (snd res) = None \<and> missing_required_items (snd res) \<noteq> []))"

lemma publish_reported:
  assumes "\<And>s. raw = Some s \<Longrightarrow> lp_captured lp' = {} \<and> (\<exists>ctl. lp_controller lp' = Some ctl \<and> good_controller ctl
        \<and> ctl_captured ctl = {} \<and> ctl_current ctl = s)"
    and "lp_next_generation lp' = lp_next_generation lp" "lp_last_bar lp' = lp_last_bar lp" "lp_current lp' = lp_current lp"
  shows "reported lp (publish raw lp')"
proof (cases raw)
  case (Some s)
  then obtain ctl where ctl: "lp_controller lp' = Some ctl" "good_controller ctl" "ctl_captured ctl = {}" "ctl_current ctl = s"
    "lp_captured lp' = {}" using assms(1) by blast
  then show ?thesis
    using good_controller_composition [OF ctl(2,3)] Some assms(2-4)
    by (simp add: reported_def publish_def normalize_def Let_def)
qed (use assms in \<open>simp add: reported_def publish_def\<close>)

lemma publish_inv:
  assumes "live_inv lp" and "raw \<noteq> None \<Longrightarrow> lp_controller lp \<noteq> None"
  shows "live_inv (snd (publish raw lp))"
  using assms by (cases raw) (auto simp: live_inv_def publish_def normalize_def Let_def)

definition keeps :: "live_profiles \<Rightarrow> live_result \<Rightarrow> bool" where
  "keeps lp res \<longleftrightarrow> reported lp res \<and> live_inv (snd res)"

lemma reported_cong:
  "lp_next_generation lp = lp_next_generation lp' \<Longrightarrow> lp_last_bar lp = lp_last_bar lp' \<Longrightarrow> lp_current lp = lp_current lp' \<Longrightarrow>
     reported lp res \<longleftrightarrow> reported lp' res"
  by (cases "fst res") (auto simp: reported_def split: sum.splits option.splits)

lemma keeps_cong:
  "lp_next_generation lp = lp_next_generation lp' \<Longrightarrow> lp_last_bar lp = lp_last_bar lp' \<Longrightarrow> lp_current lp = lp_current lp' \<Longrightarrow>
     keeps lp res \<longleftrightarrow> keeps lp' res"
  using reported_cong [of lp lp' res] by (simp add: keeps_def)

lemma keeps_same: "live_inv lp' \<Longrightarrow> r = Inl e \<or> r = Inr None \<Longrightarrow> lp_next_generation lp' = lp_next_generation lp \<Longrightarrow>
    lp_last_bar lp' = lp_last_bar lp \<Longrightarrow> lp_current lp' = lp_current lp \<Longrightarrow> keeps lp (Some r, lp')"
  by (auto simp: keeps_def reported_def)

lemma is_connected_keys: "is_connected connected i \<longleftrightarrow> i \<in> set (bt_keys connected)"
  using bt_get_None_keys [of connected i] by (auto simp: is_connected_def)

lemma rebuild_publishes:
  assumes "live_inv lp" and "lp_captured lp = {}" and "good_controller ctl" "ctl_captured ctl = {}"
  shows "keeps lp (publish (Some (ctl_current ctl)) (lp\<lparr>lp_connected := connected, lp_pending_connected := None,
    lp_controller := Some ctl\<rparr>))"
proof -
  let ?lp = "lp\<lparr>lp_connected := connected, lp_pending_connected := None, lp_controller := Some ctl\<rparr>"
  have "reported lp (publish (Some (ctl_current ctl)) ?lp)"
    by (rule publish_reported) (use assms in auto)
  moreover have "live_inv (snd (publish (Some (ctl_current ctl)) ?lp))"
    using assms by (simp add: live_inv_def publish_def normalize_def Let_def)
  ultimately show ?thesis by (simp add: keeps_def)
qed

lemma live_rebuild_keeps:
  assumes "live_inv lp" and "lp_captured lp = {}"
  shows "keeps lp (live_rebuild connected lp)"
proof (cases "list_all (is_connected connected) (required_item_ids (lp_document lp))")
  case False
  then obtain i where "i \<in> set (required_item_ids (lp_document lp))" "\<not> is_connected connected i"
    by (auto simp: list_all_iff)
  then show ?thesis
    using assms False unfolding live_rebuild_def keeps_def reported_def live_inv_def missing_required_items_def
    by (auto simp: Let_def is_connected_keys filter_empty_conv)
next
  case True
  let ?lp1 = "lp\<lparr>lp_connected := connected, lp_pending_connected := None\<rparr>"
  have inv: "live_inv ?lp1" using assms by (simp add: live_inv_def)
  obtain b where b: "document_build (lp_document lp) connected (lp_context lp) = Some b"
    using document_build_good(1) by blast
  show ?thesis
  proof (cases b)
    case (Inl e)
    then have "live_rebuild connected lp = (Some (Inl e), ?lp1)" using True b by (simp add: live_rebuild_def Let_def)
    then show ?thesis using inv by (simp add: keeps_same)
  next
    case (Inr bp)
    note good = document_build_good(2) [OF b [unfolded Inr]]
    show ?thesis
    proof (cases "lp_manual lp")
      case None
      then show ?thesis
        using True b Inr rebuild_publishes [OF assms, of "built_controller bp"] good
        by (simp add: live_rebuild_def Let_def)
    next
      case (Some p)
      obtain r ctl where ap: "controller_apply (SelectProfile p) (built_controller bp) = (r, ctl)"
        by (cases "controller_apply (SelectProfile p) (built_controller bp)")
      note ctl = controller_apply_good [OF good [THEN conjunct1] ap]
      obtain v where v: "r = Some v" using ctl(1) by blast
      show ?thesis
      proof (cases v)
        case (Inl e)
        then have "live_rebuild connected lp = (Some (Inl (CfProfile e)), ?lp1)"
          using True b \<open>b = Inr bp\<close> Some ap v by (simp add: live_rebuild_def Let_def)
        then show ?thesis using inv by (simp add: keeps_same)
      next
        case (Inr raw)
        then have "live_rebuild connected lp = publish (Some (ctl_current ctl)) (?lp1\<lparr>lp_controller := Some ctl\<rparr>)"
          using True b \<open>b = Inr bp\<close> Some ap v by (simp add: live_rebuild_def Let_def)
        then show ?thesis using rebuild_publishes [OF assms ctl(2)] ctl(3) good by simp
      qed
    qed
  qed
qed

lemma live_command_keeps:
  assumes "live_inv lp"
  shows "keeps lp (live_command command lp)"
proof (cases "lp_controller lp")
  case None
  then show ?thesis using assms by (simp add: live_command_def keeps_same)
next
  case (Some ctl)
  have good: "good_controller ctl" "ctl_captured ctl = lp_captured lp" using assms Some by (simp_all add: live_inv_def)
  obtain r ctl' where ap: "controller_apply command ctl = (r, ctl')" by (cases "controller_apply command ctl")
  note ctl = controller_apply_good [OF good(1) ap]
  let ?lp = "lp\<lparr>lp_controller := Some ctl'\<rparr>"
  have inv: "live_inv ?lp" using assms Some ctl(2,3) good(2) by (simp add: live_inv_def)
  obtain v where v: "r = Some v" using ctl(1) by blast
  show ?thesis
  proof (cases v)
    case (Inl e)
    then have "live_command command lp = (Some (Inl (CfProfile e)), ?lp)" using Some ap v by (simp add: live_command_def)
    then show ?thesis using inv by (simp add: keeps_same)
  next
    case (Inr raw)
    then have eq: "live_command command lp = publish raw ?lp" using Some ap v by (simp add: live_command_def)
    have "reported lp (publish raw ?lp)"
      by (rule publish_reported) (use ctl good v Inr in auto)
    then show ?thesis using publish_inv [OF inv] by (simp add: keeps_def eq)
  qed
qed

lemma try_initialize_keeps: "live_inv lp \<Longrightarrow> keeps lp (try_initialize connected lp)"
  using live_rebuild_keeps [of lp "relevant_items (lp_document lp) connected"]
  by (auto simp: try_initialize_def Let_def live_inv_def intro!: keeps_same)

lemma replace_document_keeps:
  assumes "live_inv lp"
  shows "keeps lp (replace_document d connected lp)"
proof (cases "document_validate d")
  case (Inl e)
  then show ?thesis using assms by (simp add: replace_document_def keeps_same)
next
  case (Inr u)
  let ?rel = "relevant_items d connected"
  define chk where "chk = (if list_all (is_connected ?rel) (required_item_ids d)
      then map_option (map_sum id (\<lambda>_. ())) (document_build d ?rel (lp_context lp)) else Some (Inr ()))"
  have "chk \<noteq> None" using document_build_good(1) by (simp add: chk_def)
  then obtain v where v: "chk = Some v" by blast
  have eq: "replace_document d connected lp = (case chk of None \<Rightarrow> (None, lp) | Some (Inl e) \<Rightarrow> (Some (Inl e), lp)
     | Some (Inr _) \<Rightarrow> if lp_captured lp \<noteq> {}
         then (Some (Inr None), lp\<lparr>lp_pending_document := Some d, lp_pending_connected := Some ?rel\<rparr>)
         else live_rebuild ?rel (lp\<lparr>lp_document := d, lp_manual := kept_manual d (lp_manual lp)\<rparr>))"
    using Inr by (simp add: replace_document_def Let_def chk_def)
  show ?thesis
  proof (cases v)
    case (Inl e)
    then show ?thesis using assms v eq by (simp add: keeps_same)
  next
    case ok: (Inr u')
    show ?thesis
    proof (cases "lp_captured lp = {}")
      case True
      let ?lp = "lp\<lparr>lp_document := d, lp_manual := kept_manual d (lp_manual lp)\<rparr>"
      have "live_inv ?lp" using assms Inr by (simp add: live_inv_def)
      then have "keeps ?lp (live_rebuild ?rel ?lp)" using True by (simp add: live_rebuild_keeps)
      then show ?thesis using eq v ok True keeps_cong [of ?lp lp] by simp
    next
      case False
      then show ?thesis using assms Inr v ok eq by (simp add: keeps_same live_inv_def)
    qed
  qed
qed


lemma capture_started_keeps: "live_inv lp \<Longrightarrow> keeps lp (Some (Inr None), capture_started c lp)"
proof -
  assume inv: "live_inv lp"
  have "live_inv (capture_started c lp)"
  proof (cases "lp_controller lp")
    case (Some ctl)
    then show ?thesis
      using inv controller_capture_good(1) [of ctl c]
      by (auto simp: live_inv_def capture_started_def controller_capture_started_def)
  qed (use inv in \<open>auto simp: live_inv_def capture_started_def\<close>)
  then show ?thesis by (rule keeps_same) (simp_all add: capture_started_def)
qed

text \<open>The state after a contact has lifted, before anything that was kept pending is applied.\<close>

definition lifted :: "nat \<Rightarrow> live_profiles \<Rightarrow> profile_snapshot option \<times> live_profiles" where
  "lifted contact lp =
     (case lp_controller lp of
        None \<Rightarrow> (None, lp\<lparr>lp_captured := lp_captured lp - {contact}\<rparr>)
      | Some ctl \<Rightarrow> (fst (controller_capture_ended contact ctl),
          lp\<lparr>lp_captured := lp_captured lp - {contact},
             lp_controller := Some (snd (controller_capture_ended contact ctl))\<rparr>))"

lemma lifted_frame:
  "lp_next_generation (snd (lifted c lp)) = lp_next_generation lp" "lp_last_bar (snd (lifted c lp)) = lp_last_bar lp"
  "lp_current (snd (lifted c lp)) = lp_current lp" "lp_captured (snd (lifted c lp)) = lp_captured lp - {c}"
  "lp_pending_document (snd (lifted c lp)) = lp_pending_document lp"
  "lp_pending_connected (snd (lifted c lp)) = lp_pending_connected lp"
  "lp_document (snd (lifted c lp)) = lp_document lp" "lp_manual (snd (lifted c lp)) = lp_manual lp"
  "lp_context (snd (lifted c lp)) = lp_context lp" "lp_connected (snd (lifted c lp)) = lp_connected lp"
  by (simp_all add: lifted_def split: option.splits)

lemma lifted_controller:
  assumes "live_inv lp"
  shows "lp_controller (snd (lifted c lp)) = None \<longleftrightarrow> lp_current lp = None"
    and "pred_option (\<lambda>ctl. good_controller ctl \<and> ctl_captured ctl = lp_captured lp - {c}) (lp_controller (snd (lifted c lp)))"
    and "fst (lifted c lp) = Some s \<Longrightarrow> lp_captured lp - {c} = {} \<and> (\<exists>ctl. lp_controller (snd (lifted c lp)) = Some ctl
        \<and> good_controller ctl \<and> ctl_captured ctl = {} \<and> ctl_current ctl = s)"
proof -
  show "lp_controller (snd (lifted c lp)) = None \<longleftrightarrow> lp_current lp = None"
    using assms by (cases "lp_controller lp") (simp_all add: lifted_def live_inv_def)
  have step: "good_controller (snd (controller_capture_ended c ctl))
      \<and> ctl_captured (snd (controller_capture_ended c ctl)) = lp_captured lp - {c}
      \<and> (\<forall>s. fst (controller_capture_ended c ctl) = Some s \<longrightarrow>
           lp_captured lp - {c} = {} \<and> ctl_current (snd (controller_capture_ended c ctl)) = s)"
    if "lp_controller lp = Some ctl" for ctl
    using assms that controller_capture_good(2) [of ctl c "fst (controller_capture_ended c ctl)"
      "snd (controller_capture_ended c ctl)"] by (auto simp: live_inv_def)
  show "pred_option (\<lambda>ctl. good_controller ctl \<and> ctl_captured ctl = lp_captured lp - {c}) (lp_controller (snd (lifted c lp)))"
    using step by (cases "lp_controller lp") (simp_all add: lifted_def)
  show "lp_captured lp - {c} = {} \<and> (\<exists>ctl. lp_controller (snd (lifted c lp)) = Some ctl
        \<and> good_controller ctl \<and> ctl_captured ctl = {} \<and> ctl_current ctl = s)" if "fst (lifted c lp) = Some s"
    using step that by (cases "lp_controller lp") (simp_all add: lifted_def)
qed

definition with_pending_document :: "live_profiles \<Rightarrow> live_profiles" where
  "with_pending_document lp =
     (case lp_pending_document lp of
        None \<Rightarrow> lp
      | Some d \<Rightarrow> lp\<lparr>lp_pending_document := None, lp_document := d, lp_manual := kept_manual d (lp_manual lp)\<rparr>)"

lemma capture_ended_unfold:
  "capture_ended c lp =
     (if lp_captured lp - {c} = {} then
        (case lp_pending_connected lp of
           Some connected \<Rightarrow> live_rebuild connected ((with_pending_document (snd (lifted c lp)))\<lparr>lp_pending_connected := None\<rparr>)
         | None \<Rightarrow> publish (fst (lifted c lp)) (with_pending_document (snd (lifted c lp))))
      else publish (fst (lifted c lp)) (snd (lifted c lp)))"
proof -
  let ?ended = "\<lambda>raw lp2. if lp_captured lp2 = {} then
        (case lp_pending_connected lp2 of
           Some connected \<Rightarrow> live_rebuild connected ((with_pending_document lp2)\<lparr>lp_pending_connected := None\<rparr>)
         | None \<Rightarrow> publish raw (with_pending_document lp2))
      else publish raw lp2"
  have "capture_ended c lp = ?ended (fst (lifted c lp)) (snd (lifted c lp))"
    by (cases "lp_controller lp"; cases "lp_pending_document lp"; cases "lp_pending_connected lp")
      (simp_all add: capture_ended_def lifted_def with_pending_document_def Let_def split_beta)
  then show ?thesis by (simp add: lifted_frame)
qed

lemma with_pending_document_frame:
  "lp_next_generation (with_pending_document lp) = lp_next_generation lp"
  "lp_last_bar (with_pending_document lp) = lp_last_bar lp" "lp_current (with_pending_document lp) = lp_current lp"
  "lp_captured (with_pending_document lp) = lp_captured lp" "lp_controller (with_pending_document lp) = lp_controller lp"
  "lp_pending_connected (with_pending_document lp) = lp_pending_connected lp"
  "lp_pending_document (with_pending_document lp) = None"
  "lp_context (with_pending_document lp) = lp_context lp"
  by (simp_all add: with_pending_document_def split: option.splits)

lemma lifted_inv:
  assumes "live_inv lp"
  shows "lp_captured lp - {c} \<noteq> {} \<Longrightarrow> live_inv (snd (lifted c lp))"
    and "lp_captured lp - {c} = {} \<Longrightarrow>
      live_inv ((with_pending_document (snd (lifted c lp)))\<lparr>lp_pending_connected := None\<rparr>)"
proof -
  show "live_inv (snd (lifted c lp))" if "lp_captured lp - {c} \<noteq> {}"
    using that assms lifted_controller [OF assms, of c] by (simp add: live_inv_def lifted_frame)
  have "document_validate (lp_document (with_pending_document (snd (lifted c lp)))) = Inr ()"
    using assms by (auto simp: live_inv_def with_pending_document_def lifted_frame split: option.splits)
  then show "live_inv ((with_pending_document (snd (lifted c lp)))\<lparr>lp_pending_connected := None\<rparr>)"
    if "lp_captured lp - {c} = {}"
    using that lifted_controller [OF assms, of c]
    by (simp add: live_inv_def with_pending_document_frame lifted_frame)
qed

lemma capture_ended_keeps:
  assumes "live_inv lp"
  shows "keeps lp (capture_ended c lp)"
proof -
  let ?lp2 = "snd (lifted c lp)"
  let ?lp3 = "with_pending_document ?lp2"
  note [simp] = lifted_frame with_pending_document_frame
  have raw: "reported lp (publish (fst (lifted c lp)) lp') \<and> live_inv (snd (publish (fst (lifted c lp)) lp'))"
    if "live_inv lp'" "lp_controller lp' = lp_controller ?lp2" "lp_captured lp' = lp_captured lp - {c}"
      "lp_next_generation lp' = lp_next_generation lp" "lp_last_bar lp' = lp_last_bar lp" "lp_current lp' = lp_current lp"
    for lp'
  proof
    show "reported lp (publish (fst (lifted c lp)) lp')"
      by (rule publish_reported) (use that lifted_controller(3) [OF assms] in auto)
    show "live_inv (snd (publish (fst (lifted c lp)) lp'))"
      by (rule publish_inv) (use that lifted_controller(3) [OF assms, of c] in auto)
  qed
  show ?thesis
  proof (cases "lp_captured lp - {c} = {}")
    case False
    then show ?thesis
      using raw [of ?lp2] lifted_inv(1) [OF assms] by (simp add: capture_ended_unfold keeps_def)
  next
    case True
    show ?thesis
    proof (cases "lp_pending_connected lp")
      case None
      then have "?lp3\<lparr>lp_pending_connected := None\<rparr> = ?lp3" by (intro live_profiles.equality) simp_all
      then have "live_inv ?lp3" using lifted_inv(2) [OF assms True] by simp
      then show ?thesis using raw [of ?lp3] True None by (simp add: capture_ended_unfold keeps_def)
    next
      case (Some connected)
      let ?lp4 = "?lp3\<lparr>lp_pending_connected := None\<rparr>"
      have "live_inv ?lp4" by (rule lifted_inv(2) [OF assms True])
      then have "keeps ?lp4 (live_rebuild connected ?lp4)" using True by (simp add: live_rebuild_keeps)
      then show ?thesis using True Some keeps_cong [of ?lp4 lp] by (simp add: capture_ended_unfold)
    qed
  qed
qed

lemma live_apply_keeps:
  assumes "live_inv lp"
  shows "keeps lp (live_apply op lp)"
proof (cases op)
  case (ChooseProfile p)
  have "live_inv (lp\<lparr>lp_manual := Some p\<rparr>)" using assms by (simp add: live_inv_def)
  from live_command_keeps [OF this, of "SelectProfile p"] show ?thesis
    using ChooseProfile assms keeps_cong [of "lp\<lparr>lp_manual := Some p\<rparr>" lp]
    by (auto simp: select_profile_def intro: keeps_same)
next
  case Automatic
  have "live_inv (lp\<lparr>lp_manual := None\<rparr>)" using assms by (simp add: live_inv_def)
  from live_command_keeps [OF this, of UseAutomaticProfile] show ?thesis
    using Automatic keeps_cong [of "lp\<lparr>lp_manual := None\<rparr>" lp] by (simp add: use_automatic_profile_def)
next
  case (SetFact key v)
  define ctx where "ctx = \<lparr>ctx_generation = max (wrapping_succ (ctx_generation (lp_context lp))) 1,
                 ctx_facts = bt_insert key v (ctx_facts (lp_context lp))\<rparr>"
  have "live_inv (lp\<lparr>lp_context := ctx\<rparr>)" using assms by (simp add: live_inv_def)
  from live_command_keeps [OF this, of "SetContext ctx"] show ?thesis
    using SetFact keeps_cong [of "lp\<lparr>lp_context := ctx\<rparr>" lp] by (simp add: set_fact_def Let_def ctx_def)
qed (use assms in \<open>simp_all add: try_initialize_keeps replace_document_keeps capture_started_keeps capture_ended_keeps\<close>)

lemma live_reachable_inv: "live_reachable lp \<Longrightarrow> live_inv lp"
proof (induction rule: live_reachable.induct)
  case (live_start d ctx)
  then show ?case by (simp add: live_inv_def live_new_def)
next
  case (live_next lp op r lp')
  then show ?case using live_apply_keeps [OF live_next.IH, of op] by (simp add: keeps_def)
qed


section \<open>What the operations promise\<close>

lemma publish_frame:
  "lp_controller (snd (publish raw lp)) = lp_controller lp"
  "lp_captured (snd (publish raw lp)) = lp_captured lp" "lp_document (snd (publish raw lp)) = lp_document lp"
  "lp_connected (snd (publish raw lp)) = lp_connected lp" "lp_pending_connected (snd (publish raw lp)) = lp_pending_connected lp"
  "lp_pending_document (snd (publish raw lp)) = lp_pending_document lp"
  by (auto simp: publish_def normalize_def Let_def split: option.splits)

lemma live_rebuild_captured: "lp_captured (snd (live_rebuild connected lp)) = lp_captured lp"
  by (auto simp: live_rebuild_def Let_def publish_frame split: option.splits sum.splits prod.splits)

lemma live_command_frame:
  "lp_controller (snd (live_command command lp)) = None \<longleftrightarrow> lp_controller lp = None"
  "lp_captured (snd (live_command command lp)) = lp_captured lp"
  "lp_document (snd (live_command command lp)) = lp_document lp"
  "lp_connected (snd (live_command command lp)) = lp_connected lp"
  "lp_pending_connected (snd (live_command command lp)) = lp_pending_connected lp"
  "lp_pending_document (snd (live_command command lp)) = lp_pending_document lp"
  by (auto simp: live_command_def publish_frame split: option.splits sum.splits prod.splits)

lemma lifted_controller_None: "lp_controller (snd (lifted c lp)) = None \<longleftrightarrow> lp_controller lp = None"
  by (simp add: lifted_def split: option.splits)

text \<open>While a contact is held the document and the connected items stay as they are, and the controller stays.\<close>

lemma live_apply_held:
  assumes "lp_captured (snd (live_apply op lp)) \<noteq> {}"
  shows "lp_document (snd (live_apply op lp)) = lp_document lp
    \<and> lp_connected (snd (live_apply op lp)) = lp_connected lp
    \<and> (lp_controller (snd (live_apply op lp)) = None \<longleftrightarrow> lp_controller lp = None)"
proof (cases op)
  case (CaptureEnded c)
  show ?thesis
  proof (cases "lp_captured lp - {c} = {}")
    case True
    then have "lp_captured (snd (capture_ended c lp)) = {}"
      by (cases "lp_pending_connected lp")
        (simp_all add: capture_ended_unfold live_rebuild_captured publish_frame with_pending_document_frame lifted_frame)
    then show ?thesis using assms CaptureEnded by simp
  qed (simp add: CaptureEnded capture_ended_unfold publish_frame lifted_frame lifted_controller_None)
next
  case (ReplaceDocument d connected)
  then show ?thesis using assms
    by (auto simp: replace_document_def Let_def live_rebuild_captured split: sum.splits option.splits if_splits)
qed (use assms in \<open>auto simp: try_initialize_def Let_def live_rebuild_captured select_profile_def live_command_frame
    use_automatic_profile_def set_fact_def capture_started_def split: if_splits\<close>)


text \<open>(C10) What an operation on the live profiles reports, in every state of the daemon: it never panics. A published
  snapshot is the one kept as current, carries the next generation and the generation of the context, its
  delta is exact against the bar that was shown last, its composition is what the catalog composes for the
  effective profile and context, and it is published only when no contact is held. Otherwise what is shown
  stays, or it is withdrawn because an item the document requires is not connected.\<close>

theorem live_publication:
  assumes "live_reachable lp" and "live_apply op lp = (r, lp')"
  shows "case r of
      None \<Rightarrow> False
    | Some (Inr (Some s)) \<Rightarrow>
        lp_captured lp' = {}
        \<and> lp_current lp' = Some s \<and> ps_generation s = lp_next_generation lp
        \<and> lp_next_generation lp' = max (wrapping_succ (lp_next_generation lp)) 1
        \<and> ps_context_generation s = ctx_generation (lp_context lp')
        \<and> ps_delta s = live_delta (lp_last_bar lp) (pcomp_bar (ps_composition s))
        \<and> lp_last_bar lp' = Some (pcomp_bar (ps_composition s))
        \<and> (\<exists>ctl. lp_controller lp' = Some ctl
             \<and> profile_compose (ctl_catalog ctl) (ctl_registry ctl) (effective_profile ctl) (ctl_context ctl) =
                 Some (Inr (ps_composition s)))
    | Some _ \<Rightarrow>
        lp_next_generation lp' = lp_next_generation lp
        \<and> (lp_current lp' = lp_current lp \<and> lp_last_bar lp' = lp_last_bar lp
           \<or> lp_current lp' = None \<and> missing_required_items lp' \<noteq> [])"
  using live_apply_keeps [OF live_reachable_inv [OF assms(1)], of op]
  unfolding assms(2) keeps_def reported_def fst_conv snd_conv by (rule conjunct1)

definition demo_live :: live_profiles where
  "demo_live = live_new demo_document empty_context"

lemma demo_live_reachable: "live_reachable demo_live"
  unfolding demo_live_def by (rule live_start) (rule demo_document_valid)

definition demo_shown :: live_profiles where
  "demo_shown = snd (live_apply (TryInitialize demo_connected) demo_live)"

lemma demo_shown_reachable: "live_reachable demo_shown"
  unfolding demo_shown_def using live_next [OF demo_live_reachable prod.collapse [symmetric]] .

lemma live_apply_pair: "live_apply op lp = (fst (live_apply op lp), snd (live_apply op lp))"
  by simp

theorem live_publication_witness:
  "case live_apply (TryInitialize demo_connected) demo_live of
     (Some (Inr (Some s)), lp') \<Rightarrow> lp_current lp' = Some s \<and> ps_generation s = 1
       \<and> ps_delta s = live_delta None (pcomp_bar (ps_composition s))
   | _ \<Rightarrow> False"
proof -
  have "case live_apply (TryInitialize demo_connected) demo_live of (Some (Inr (Some s)), lp') \<Rightarrow> True | _ \<Rightarrow> False"
    by code_simp
  moreover have "lp_next_generation demo_live = 1" "lp_last_bar demo_live = None"
    by (simp_all add: demo_live_def live_new_def)
  ultimately show ?thesis
    using live_publication [OF demo_live_reachable live_apply_pair, of "TryInitialize demo_connected"]
    by (simp split: prod.splits option.splits sum.splits)
qed

text \<open>(C11) Contacts and reconfiguration: whenever a contact is still held after an operation, the shown snapshot, the
  document and the connected items are those from before and nothing is published, whatever documents,
  connections, profiles and facts arrived; and whenever no contact is held, nothing is left pending.\<close>

theorem live_stable_under_contact:
  assumes "live_reachable lp" and "live_apply op lp = (r, lp')"
  shows "if lp_captured lp' = {} then lp_pending_connected lp' = None \<and> lp_pending_document lp' = None
    else (\<forall>s. r \<noteq> Some (Inr (Some s))) \<and> lp_document lp' = lp_document lp \<and> lp_connected lp' = lp_connected lp
      \<and> lp_current lp' = lp_current lp"
proof -
  have inv: "live_inv lp" using assms(1) by (rule live_reachable_inv)
  then have keeps: "keeps lp (r, lp')" using live_apply_keeps [of lp op] assms(2) by simp
  show ?thesis
  proof (cases "lp_captured lp' = {}")
    case True
    then show ?thesis using keeps by (simp add: keeps_def live_inv_def)
  next
    case False
    then have held: "lp_document lp' = lp_document lp \<and> lp_connected lp' = lp_connected lp
        \<and> (lp_current lp' = None \<longleftrightarrow> lp_current lp = None)"
      using live_apply_held [of op lp] assms(2) keeps inv by (simp add: keeps_def live_inv_def)
    from keeps False have silent: "\<forall>s. r \<noteq> Some (Inr (Some s))" by (auto simp: keeps_def reported_def)
    then have "lp_current lp' = lp_current lp \<or> lp_current lp' = None"
      using keeps by (auto simp: keeps_def reported_def split: option.splits sum.splits)
    then show ?thesis using False held silent by auto
  qed
qed

text \<open>A document with one more required item arrives while the contact 7 is held on the demo bar.\<close>

definition clock_document :: profile_document where
  "clock_document =
     demo_document\<lparr>doc_contributions := demo_contribution_config ''clock'' ''demo.clock'' ''clock'' ScGlobal 0 PcAlways
         # doc_contributions demo_document\<rparr>"

definition clock_connected :: connected_items where
  "clock_connected = map (\<lambda>i. (i, new_item i 40 80 600)) (required_item_ids clock_document)"

theorem live_stable_under_contact_witness:
  "case live_apply (ReplaceDocument clock_document clock_connected)
      (snd (live_apply (CaptureStarted 7) demo_shown)) of
     (r, lp') \<Rightarrow> lp_pending_document lp' \<noteq> None \<and> lp_document lp' = demo_document \<and> lp_current lp' \<noteq> None"
proof -
  let ?lp = "snd (live_apply (CaptureStarted 7) demo_shown)"
  let ?op = "ReplaceDocument clock_document clock_connected"
  have "live_reachable ?lp" using live_next [OF demo_shown_reachable live_apply_pair] .
  note held = live_stable_under_contact [OF this live_apply_pair, of ?op]
  have "lp_pending_document (snd (live_apply ?op ?lp)) \<noteq> None" by code_simp
  moreover have "lp_captured (snd (live_apply ?op ?lp)) \<noteq> {}" by code_simp
  moreover have "lp_current ?lp \<noteq> None" by code_simp
  moreover have "lp_document ?lp = demo_document" by code_simp
  ultimately show ?thesis using held by (simp add: split_beta)
qed

section \<open>A document that arrives while a contact is held\<close>

text \<open>
  \<^verbatim>\<open>try_initialize\<close> filters the connected items by the current document even when a newer one is pending. In this run
  the demo document is replaced under a contact by one that also requires an item \<^verbatim>\<open>demo.clock#clock\<close>, which is
  connected; then any surface appears or goes. When the contact lifts, the new document is built without its
  new item and the bar is withdrawn, although every required item is connected.
\<close>

lemma late_surface_drops_new_items:
  "lp_current (snd (live_apply (CaptureEnded 7) (snd (live_apply (ReplaceDocument clock_document clock_connected)
     (snd (live_apply (CaptureStarted 7) demo_shown)))))) \<noteq> None"
  "lp_current (snd (live_apply (CaptureEnded 7) (snd (live_apply (TryInitialize clock_connected)
     (snd (live_apply (ReplaceDocument clock_document clock_connected)
       (snd (live_apply (CaptureStarted 7) demo_shown)))))))) = None"
  by code_simp+

end
