(* ===== verification/Gestures.thy ===== *)
theory Gestures
  imports Ordered_Map
begin

text \<open>
  The gesture arena of the widget toolkit (\<^verbatim>\<open>touchbar-ui/src/gesture.rs\<close>): per contact it decides between
  tap, long press and pan, keeps the widget that was pressed as the target, and reports events.

  Coordinates are of any type with the operators the code applies to \<^verbatim>\<open>f32\<close>; no law of arithmetic or of the
  order is used, so rounding, infinities and NaN are covered. The functions that are not operators
  (\<^verbatim>\<open>hypot\<close>, \<^verbatim>\<open>max\<close>, \<^verbatim>\<open>as_secs_f32\<close>, \<^verbatim>\<open>EPSILON\<close>) are fields of \<open>f32_ops\<close>. A duration is its number of nanoseconds.
\<close>

record 'f point =
  point_x :: 'f
  point_y :: 'f

record 'f rect =
  rect_x :: 'f
  rect_y :: 'f
  rect_width :: 'f
  rect_height :: 'f

definition rect_contains :: "'f::{ord, plus} rect \<Rightarrow> 'f point \<Rightarrow> bool" where
  "rect_contains r p \<longleftrightarrow>
     point_x p \<ge> rect_x r \<and> point_x p \<le> rect_x r + rect_width r
     \<and> point_y p \<ge> rect_y r \<and> point_y p \<le> rect_y r + rect_height r"

datatype contact_phase = CDown | CMotion | CUp | CCancel

record 'f contact =
  contact_id :: nat
  contact_phase :: contact_phase
  contact_position :: "'f point"
  contact_time :: nat

record 'f f32_ops =
  f_hypot :: "'f \<Rightarrow> 'f \<Rightarrow> 'f"
  f_max :: "'f \<Rightarrow> 'f \<Rightarrow> 'f"
  f_secs :: "nat \<Rightarrow> 'f"
  f_epsilon :: 'f

section \<open>Recognizers, targets and events\<close>

datatype gesture_axis = AnyAxis | Horizontal | Vertical

datatype 'f gesture_recognizer =
    RecTap nat 'f
  | RecLongPress nat 'f
  | RecPan gesture_axis 'f
  | RecSwipe gesture_axis 'f 'f

record 'f gesture_target =
  gt_id :: nat
  gt_bounds :: "'f rect"
  gt_recognizers :: "'f gesture_recognizer list"

definition gesture_hit_test :: "'f::{ord, plus} gesture_target list \<Rightarrow> 'f point \<Rightarrow> 'f gesture_target option" where
  "gesture_hit_test targets p = find (\<lambda>t. rect_contains (gt_bounds t) p) (rev targets)"

datatype 'f gesture_event =
    GPressed (ge_id: nat) (ge_contact: nat) "'f point"
  | GTap (ge_id: nat) (ge_contact: nat) "'f point"
  | GLongPressBegan (ge_id: nat) (ge_contact: nat) "'f point"
  | GLongPressEnded (ge_id: nat) (ge_contact: nat) "'f point"
  | GPanBegan (ge_id: nat) (ge_contact: nat) "'f point"
  | GPanChanged (ge_id: nat) (ge_contact: nat) "'f point" "'f point" "'f point"
  | GPanEnded (ge_id: nat) (ge_contact: nat) "'f point" "'f point" "'f point"
  | GSwipe (ge_id: nat) (ge_contact: nat) "'f point" "'f point"
  | GReleased (ge_id: nat) (ge_contact: nat) "'f point"
  | GCancelled (ge_id: nat) (ge_contact: nat)

datatype winner = WinLongPress | WinPan

record 'f session =
  se_target :: "'f gesture_target"
  se_began :: nat
  se_origin :: "'f point"
  se_last_position :: "'f point"
  se_max_distance :: 'f
  se_winner :: "winner option"

type_synonym 'f arena = "(nat, 'f session) btree"

section \<open>Geometry\<close>

definition subtract :: "'f::minus point \<Rightarrow> 'f point \<Rightarrow> 'f point" where
  "subtract left right = \<lparr>point_x = point_x left - point_x right, point_y = point_y left - point_y right\<rparr>"

definition distance :: "'f f32_ops \<Rightarrow> 'f point \<Rightarrow> 'f" where
  "distance fl p = f_hypot fl (point_x p) (point_y p)"

definition axis_distance :: "('f::abs) f32_ops \<Rightarrow> 'f point \<Rightarrow> gesture_axis \<Rightarrow> 'f" where
  "axis_distance fl p axis =
     (case axis of AnyAxis \<Rightarrow> distance fl p | Horizontal \<Rightarrow> \<bar>point_x p\<bar> | Vertical \<Rightarrow> \<bar>point_y p\<bar>)"

definition axis_matches :: "('f::{ord, abs}) point \<Rightarrow> gesture_axis \<Rightarrow> bool" where
  "axis_matches p axis =
     (case axis of
        AnyAxis \<Rightarrow> True
      | Horizontal \<Rightarrow> \<bar>point_x p\<bar> \<ge> \<bar>point_y p\<bar>
      | Vertical \<Rightarrow> \<bar>point_y p\<bar> \<ge> \<bar>point_x p\<bar>)"

definition velocity :: "('f::{ord, divide, zero}) f32_ops \<Rightarrow> 'f point \<Rightarrow> nat \<Rightarrow> 'f point" where
  "velocity fl translation elapsed =
     (let seconds = f_secs fl elapsed in
      if seconds \<le> f_epsilon fl then \<lparr>point_x = 0, point_y = 0\<rparr>
      else \<lparr>point_x = point_x translation div seconds, point_y = point_y translation div seconds\<rparr>)"

section \<open>The arena\<close>

definition gesture_begin ::
  "('f::{ord, plus, zero}) gesture_target list \<Rightarrow> 'f contact \<Rightarrow> 'f arena \<Rightarrow> 'f gesture_event list \<times> 'f arena" where
  "gesture_begin targets c arena =
     (case gesture_hit_test targets (contact_position c) of
        None \<Rightarrow> ([], arena)
      | Some t \<Rightarrow>
          ([GPressed (gt_id t) (contact_id c) (contact_position c)],
           bt_insert (contact_id c)
             \<lparr>se_target = t, se_began = contact_time c, se_origin = contact_position c,
              se_last_position = contact_position c, se_max_distance = 0, se_winner = None\<rparr> arena))"

fun pan_wins :: "('f::{ord, abs}) f32_ops \<Rightarrow> 'f point \<Rightarrow> 'f gesture_recognizer \<Rightarrow> bool" where
  "pan_wins fl translation (RecPan axis minimum_distance) \<longleftrightarrow>
     axis_distance fl translation axis \<ge> minimum_distance \<and> axis_matches translation axis"
| "pan_wins _ _ _ \<longleftrightarrow> False"

definition pan_changed :: "'f session \<Rightarrow> nat \<Rightarrow> 'f point \<Rightarrow> 'f point \<Rightarrow> 'f point \<Rightarrow> 'f gesture_event" where
  "pan_changed s c position translation delta = GPanChanged (gt_id (se_target s)) c position translation delta"

definition gesture_motion ::
  "('f::{ord, abs, minus}) f32_ops \<Rightarrow> 'f contact \<Rightarrow> 'f arena \<Rightarrow> 'f gesture_event list \<times> 'f arena" where
  "gesture_motion fl c arena =
     (case bt_get arena (contact_id c) of
        None \<Rightarrow> ([], arena)
      | Some s \<Rightarrow>
          let delta = subtract (contact_position c) (se_last_position s);
              translation = subtract (contact_position c) (se_origin s);
              s1 = s\<lparr>se_max_distance := f_max fl (se_max_distance s) (distance fl translation),
                     se_last_position := contact_position c\<rparr> in
          if se_winner s1 = Some WinPan then
            ([pan_changed s1 (contact_id c) (contact_position c) translation delta], bt_insert (contact_id c) s1 arena)
          else if se_winner s1 = Some WinLongPress then ([], bt_insert (contact_id c) s1 arena)
          else if list_ex (pan_wins fl translation) (gt_recognizers (se_target s1)) then
            ([GPanBegan (gt_id (se_target s1)) (contact_id c) (contact_position c),
              pan_changed s1 (contact_id c) (contact_position c) translation delta],
             bt_insert (contact_id c) (s1\<lparr>se_winner := Some WinPan\<rparr>) arena)
          else ([], bt_insert (contact_id c) s1 arena))"

fun swipe_wins :: "('f::{ord, abs}) f32_ops \<Rightarrow> 'f point \<Rightarrow> 'f point \<Rightarrow> 'f gesture_recognizer \<Rightarrow> bool" where
  "swipe_wins fl translation vel (RecSwipe axis minimum_distance minimum_velocity) \<longleftrightarrow>
     axis_matches translation axis \<and> axis_distance fl translation axis \<ge> minimum_distance
     \<and> axis_distance fl vel axis \<ge> minimum_velocity"
| "swipe_wins _ _ _ _ \<longleftrightarrow> False"

fun tap_wins :: "('f::ord) f32_ops \<Rightarrow> nat \<Rightarrow> 'f \<Rightarrow> 'f gesture_recognizer \<Rightarrow> bool" where
  "tap_wins fl elapsed moved (RecTap max_duration max_movement) \<longleftrightarrow> elapsed \<le> max_duration \<and> moved \<le> max_movement"
| "tap_wins _ _ _ _ \<longleftrightarrow> False"

definition gesture_end ::
  "('f::{ord, abs, minus, divide, zero}) f32_ops \<Rightarrow> 'f contact \<Rightarrow> 'f arena \<Rightarrow> 'f gesture_event list \<times> 'f arena" where
  "gesture_end fl c arena =
     (case bt_get arena (contact_id c) of
        None \<Rightarrow> ([], arena)
      | Some s \<Rightarrow>
          let wid = gt_id (se_target s);
              translation = subtract (contact_position c) (se_origin s);
              vel = velocity fl translation (contact_time c - se_began s);
              events = (case se_winner s of
                  Some WinPan \<Rightarrow>
                    GPanEnded wid (contact_id c) (contact_position c) translation vel #
                    (if list_ex (swipe_wins fl translation vel) (gt_recognizers (se_target s))
                     then [GSwipe wid (contact_id c) translation vel] else [])
                | Some WinLongPress \<Rightarrow> [GLongPressEnded wid (contact_id c) (contact_position c)]
                | None \<Rightarrow>
                    (if list_ex (tap_wins fl (contact_time c - se_began s)
                          (f_max fl (se_max_distance s) (distance fl translation))) (gt_recognizers (se_target s))
                     then [GTap wid (contact_id c) (contact_position c)] else [])) in
          (events @ [GReleased wid (contact_id c) (contact_position c)], bt_remove (contact_id c) arena))"

definition gesture_cancel :: "nat \<Rightarrow> 'f arena \<Rightarrow> 'f gesture_event list \<times> 'f arena" where
  "gesture_cancel c arena =
     (case bt_get arena c of
        None \<Rightarrow> ([], arena)
      | Some s \<Rightarrow> ([GCancelled (gt_id (se_target s)) c], bt_remove c arena))"

definition gesture_handle ::
  "('f::{ord, abs, plus, minus, divide, zero}) f32_ops \<Rightarrow> 'f gesture_target list \<Rightarrow> 'f contact \<Rightarrow> 'f arena \<Rightarrow>
   'f gesture_event list \<times> 'f arena" where
  "gesture_handle fl targets c arena =
     (case contact_phase c of
        CDown \<Rightarrow> gesture_begin targets c arena
      | CMotion \<Rightarrow> gesture_motion fl c arena
      | CUp \<Rightarrow> gesture_end fl c arena
      | CCancel \<Rightarrow> gesture_cancel (contact_id c) arena)"

fun long_press_wins :: "nat \<Rightarrow> ('f::ord) session \<Rightarrow> 'f gesture_recognizer \<Rightarrow> bool" where
  "long_press_wins now s (RecLongPress minimum_duration max_movement) \<longleftrightarrow>
     now - se_began s \<ge> minimum_duration \<and> se_max_distance s \<le> max_movement"
| "long_press_wins _ _ _ \<longleftrightarrow> False"

definition tick_session :: "nat \<Rightarrow> nat \<times> ('f::ord) session \<Rightarrow> 'f gesture_event list \<times> 'f session" where
  "tick_session now entry =
     (case entry of (c, s) \<Rightarrow>
        if se_winner s = None \<and> list_ex (long_press_wins now s) (gt_recognizers (se_target s))
        then ([GLongPressBegan (gt_id (se_target s)) c (se_last_position s)], s\<lparr>se_winner := Some WinLongPress\<rparr>)
        else ([], s))"

definition gesture_tick :: "nat \<Rightarrow> ('f::ord) arena \<Rightarrow> 'f gesture_event list \<times> 'f arena" where
  "gesture_tick now arena =
     (concat (map (\<lambda>e. fst (tick_session now e)) arena), map (\<lambda>e. (fst e, snd (tick_session now e))) arena)"

section \<open>Runs\<close>

text \<open>The inputs of an arena: a contact against the targets of the frame, or the time of a frame callback.\<close>

datatype 'f arena_input = Touch "'f gesture_target list" "'f contact" | Tick nat

fun arena_step ::
  "('f::{ord, abs, plus, minus, divide, zero}) f32_ops \<Rightarrow> 'f arena_input \<Rightarrow> 'f arena \<Rightarrow> 'f gesture_event list \<times> 'f arena" where
  "arena_step fl (Touch targets c) arena = gesture_handle fl targets c arena"
| "arena_step fl (Tick now) arena = gesture_tick now arena"

fun arena_run ::
  "('f::{ord, abs, plus, minus, divide, zero}) f32_ops \<Rightarrow> 'f arena_input list \<Rightarrow> 'f arena \<Rightarrow> 'f gesture_event list \<times> 'f arena" where
  "arena_run fl [] arena = ([], arena)"
| "arena_run fl (i # inputs) arena =
     (let step = arena_step fl i arena; rest = arena_run fl inputs (snd step) in (fst step @ fst rest, snd rest))"

text \<open>The contacts of a well-behaved source: a contact goes down only while it is not down.\<close>

fun contacts_ok :: "nat set \<Rightarrow> 'f arena_input list \<Rightarrow> bool" where
  "contacts_ok held [] \<longleftrightarrow> True"
| "contacts_ok held (Tick _ # inputs) \<longleftrightarrow> contacts_ok held inputs"
| "contacts_ok held (Touch _ c # inputs) \<longleftrightarrow>
     (case contact_phase c of
        CDown \<Rightarrow> contact_id c \<notin> held \<and> contacts_ok (insert (contact_id c) held) inputs
      | CMotion \<Rightarrow> contacts_ok held inputs
      | _ \<Rightarrow> contacts_ok (held - {contact_id c}) inputs)"

section \<open>The protocol of one contact\<close>

text \<open>What a widget may see of one contact, as an automaton. The stages carry the pressed widget.\<close>

datatype gesture_stage =
    Idle | Held nat | Tapped nat | LongPressing nat | LongPressDone nat
  | PanStarted nat | Panning nat | PanDone nat | Swiped nat

definition for_widget :: "nat \<Rightarrow> nat \<Rightarrow> gesture_stage \<Rightarrow> gesture_stage option" where
  "for_widget w w' st = (if w' = w then Some st else None)"

fun gesture_next :: "gesture_stage \<Rightarrow> 'f gesture_event \<Rightarrow> gesture_stage option" where
  "gesture_next Idle e = (case e of GPressed w _ _ \<Rightarrow> Some (Held w) | _ \<Rightarrow> None)"
| "gesture_next (Held w) e =
     (case e of
        GTap w' _ _ \<Rightarrow> for_widget w w' (Tapped w)
      | GLongPressBegan w' _ _ \<Rightarrow> for_widget w w' (LongPressing w)
      | GPanBegan w' _ _ \<Rightarrow> for_widget w w' (PanStarted w)
      | GReleased w' _ _ \<Rightarrow> for_widget w w' Idle
      | GCancelled w' _ \<Rightarrow> for_widget w w' Idle
      | _ \<Rightarrow> None)"
| "gesture_next (Tapped w) e = (case e of GReleased w' _ _ \<Rightarrow> for_widget w w' Idle | _ \<Rightarrow> None)"
| "gesture_next (LongPressing w) e =
     (case e of
        GLongPressEnded w' _ _ \<Rightarrow> for_widget w w' (LongPressDone w)
      | GCancelled w' _ \<Rightarrow> for_widget w w' Idle
      | _ \<Rightarrow> None)"
| "gesture_next (LongPressDone w) e = (case e of GReleased w' _ _ \<Rightarrow> for_widget w w' Idle | _ \<Rightarrow> None)"
| "gesture_next (PanStarted w) e = (case e of GPanChanged w' _ _ _ _ \<Rightarrow> for_widget w w' (Panning w) | _ \<Rightarrow> None)"
| "gesture_next (Panning w) e =
     (case e of
        GPanChanged w' _ _ _ _ \<Rightarrow> for_widget w w' (Panning w)
      | GPanEnded w' _ _ _ _ \<Rightarrow> for_widget w w' (PanDone w)
      | GCancelled w' _ \<Rightarrow> for_widget w w' Idle
      | _ \<Rightarrow> None)"
| "gesture_next (PanDone w) e =
     (case e of GSwipe w' _ _ _ \<Rightarrow> for_widget w w' (Swiped w) | GReleased w' _ _ \<Rightarrow> for_widget w w' Idle | _ \<Rightarrow> None)"
| "gesture_next (Swiped w) e = (case e of GReleased w' _ _ \<Rightarrow> for_widget w w' Idle | _ \<Rightarrow> None)"

lemma for_widget_same [simp]: "for_widget w w st = Some st"
  by (simp add: for_widget_def)

fun gesture_accepts :: "gesture_stage \<Rightarrow> 'f gesture_event list \<Rightarrow> gesture_stage option" where
  "gesture_accepts st [] = Some st"
| "gesture_accepts st (e # es) = (case gesture_next st e of None \<Rightarrow> None | Some st' \<Rightarrow> gesture_accepts st' es)"

definition events_of :: "nat \<Rightarrow> 'f gesture_event list \<Rightarrow> 'f gesture_event list" where
  "events_of c = filter (\<lambda>e. ge_contact e = c)"

definition stage_of :: "'f arena \<Rightarrow> nat \<Rightarrow> gesture_stage" where
  "stage_of arena c =
     (case bt_get arena c of
        None \<Rightarrow> Idle
      | Some s \<Rightarrow> (case se_winner s of
            None \<Rightarrow> Held (gt_id (se_target s))
          | Some WinLongPress \<Rightarrow> LongPressing (gt_id (se_target s))
          | Some WinPan \<Rightarrow> Panning (gt_id (se_target s))))"


lemma gesture_accepts_append:
  "gesture_accepts st (es @ es') = (case gesture_accepts st es of None \<Rightarrow> None | Some st' \<Rightarrow> gesture_accepts st' es')"
  by (induction es arbitrary: st) (auto split: option.splits)

lemma events_of_simps [simp]:
  "events_of c [] = []" "events_of c (e # es) = (if ge_contact e = c then e # events_of c es else events_of c es)"
  "events_of c (es @ es') = events_of c es @ events_of c es'"
  by (simp_all add: events_of_def)

section \<open>Contacts are independent\<close>

fun concerns :: "nat \<Rightarrow> 'f arena_input \<Rightarrow> bool" where
  "concerns c (Touch _ k) \<longleftrightarrow> contact_id k = c"
| "concerns c (Tick _) \<longleftrightarrow> True"

lemmas gesture_defs = gesture_begin_def gesture_motion_def gesture_end_def gesture_cancel_def pan_changed_def

text \<open>A contact's events and the change of its session depend on that session only.\<close>

lemma handle_update:
  "snd (gesture_handle fl targets k arena) = arena
   \<or> (\<exists>s. snd (gesture_handle fl targets k arena) = bt_insert (contact_id k) s arena)
   \<or> snd (gesture_handle fl targets k arena) = bt_remove (contact_id k) arena"
  by (cases "contact_phase k"; cases "bt_get arena (contact_id k)"; cases "gesture_hit_test targets (contact_position k)")
    (auto simp: gesture_handle_def gesture_defs Let_def)

lemma handle_contact:
  "e \<in> set (fst (gesture_handle fl targets k arena)) \<Longrightarrow> ge_contact e = contact_id k"
  by (cases "contact_phase k"; cases "bt_get arena (contact_id k)"; cases "gesture_hit_test targets (contact_position k)")
    (auto simp: gesture_handle_def gesture_defs Let_def split: if_splits option.splits winner.splits,
      (metis winner.exhaust)+)

lemma handle_local:
  assumes "bt_ok a" "bt_ok b" "bt_get a (contact_id k) = bt_get b (contact_id k)"
  shows "fst (gesture_handle fl targets k a) = fst (gesture_handle fl targets k b)
    \<and> bt_get (snd (gesture_handle fl targets k a)) (contact_id k) = bt_get (snd (gesture_handle fl targets k b)) (contact_id k)"
  using assms
  by (cases "contact_phase k"; cases "bt_get b (contact_id k)"; cases "gesture_hit_test targets (contact_position k)")
    (auto simp: gesture_handle_def gesture_defs Let_def)

lemma handle_ok: "bt_ok arena \<Longrightarrow> bt_ok (snd (gesture_handle fl targets k arena))"
  using handle_update [of fl targets k arena] by auto

lemma handle_other:
  assumes "bt_ok arena" and "contact_id k \<noteq> c"
  shows "events_of c (fst (gesture_handle fl targets k arena)) = []"
    and "bt_get (snd (gesture_handle fl targets k arena)) c = bt_get arena c"
proof -
  show "events_of c (fst (gesture_handle fl targets k arena)) = []"
    using handle_contact [of _ fl targets k arena] assms(2) by (auto simp: events_of_def filter_empty_conv)
  show "bt_get (snd (gesture_handle fl targets k arena)) c = bt_get arena c"
    using handle_update [of fl targets k arena] assms by auto
qed

text \<open>A frame callback, seen from one contact.\<close>

lemma tick_contact: "e \<in> set (fst (tick_session now (c, s))) \<Longrightarrow> ge_contact e = c"
  by (auto simp: tick_session_def split: if_splits)

lemma tick_get:
  "bt_get (snd (gesture_tick now arena)) c = map_option (\<lambda>s. snd (tick_session now (c, s))) (bt_get arena c)"
  by (induction arena) (auto simp: gesture_tick_def bt_get_def)

lemma tick_events_none: "c \<notin> fst ` set arena \<Longrightarrow> events_of c (fst (gesture_tick now arena)) = []"
  by (auto simp: gesture_tick_def events_of_def filter_empty_conv dest!: tick_contact intro: rev_image_eqI)

lemma tick_events:
  "distinct (map fst arena) \<Longrightarrow> events_of c (fst (gesture_tick now arena)) =
     (case bt_get arena c of None \<Rightarrow> [] | Some s \<Rightarrow> fst (tick_session now (c, s)))"
proof (induction arena)
  case (Cons e arena)
  obtain k s where e: "e = (k, s)" by (cases e)
  have split: "fst (gesture_tick now (e # arena)) = fst (tick_session now (k, s)) @ fst (gesture_tick now arena)"
    by (simp add: gesture_tick_def e)
  have own: "events_of c (fst (tick_session now (k, s))) = (if k = c then fst (tick_session now (k, s)) else [])"
    using tick_contact [of _ now k s] by (auto simp: events_of_def filter_empty_conv filter_id_conv)
  show ?case
  proof (cases "k = c")
    case True
    then have "c \<notin> fst ` set arena" using Cons.prems e by auto
    then show ?thesis using True split own tick_events_none [of c arena now] by (simp add: e bt_get_def)
  next
    case False
    then show ?thesis using Cons split own by (simp add: e bt_get_def)
  qed
qed (simp add: gesture_tick_def bt_get_def)

lemma bt_ok_distinct: "bt_ok m \<Longrightarrow> distinct (map fst m)"
  by (simp add: bt_ok_def)

lemma tick_ok: "bt_ok arena \<Longrightarrow> bt_ok (snd (gesture_tick now arena))"
  by (simp add: gesture_tick_def bt_ok_def comp_def)

lemma step_ok: "bt_ok arena \<Longrightarrow> bt_ok (snd (arena_step fl i arena))"
  by (cases i) (simp_all add: handle_ok tick_ok)

lemma step_local:
  assumes "bt_ok a" "bt_ok b" "bt_get a c = bt_get b c" "concerns c i"
  shows "events_of c (fst (arena_step fl i a)) = events_of c (fst (arena_step fl i b))
    \<and> bt_get (snd (arena_step fl i a)) c = bt_get (snd (arena_step fl i b)) c"
proof (cases i)
  case (Touch targets k)
  then show ?thesis using assms handle_local [of a b k fl targets] by simp
next
  case (Tick now)
  then show ?thesis using assms by (simp add: tick_events tick_get bt_ok_distinct)
qed

lemma step_other:
  assumes "bt_ok a" "\<not> concerns c i"
  shows "events_of c (fst (arena_step fl i a)) = []" and "bt_get (snd (arena_step fl i a)) c = bt_get a c"
  using assms handle_other [of a] by (cases i; simp)+

lemma run_local:
  assumes "bt_ok a" "bt_ok b" "bt_get a c = bt_get b c"
  shows "events_of c (fst (arena_run fl inputs a)) = events_of c (fst (arena_run fl (filter (concerns c) inputs) b))
    \<and> bt_get (snd (arena_run fl inputs a)) c = bt_get (snd (arena_run fl (filter (concerns c) inputs) b)) c"
  using assms
proof (induction inputs arbitrary: a b)
  case (Cons i inputs)
  show ?case
  proof (cases "concerns c i")
    case True
    note now = step_local [OF Cons.prems True, of fl]
    show ?thesis
      using True now Cons.IH [OF step_ok [OF Cons.prems(1), of fl i] step_ok [OF Cons.prems(2), of fl i]]
      by (simp add: Let_def)
  next
    case False
    note now = step_other [OF Cons.prems(1) False, of fl]
    show ?thesis
      using False now Cons.IH [OF step_ok [OF Cons.prems(1), of fl i] Cons.prems(2)] Cons.prems(3) by (simp add: Let_def)
  qed
qed simp


lemma keys_get: "c \<in> fst ` set arena \<longleftrightarrow> bt_get arena c \<noteq> None"
  using map_of_eq_None_iff [of arena c] by (auto simp: bt_get_def)

lemma handle_keys:
  assumes "bt_ok arena"
  shows "fst ` set (snd (gesture_handle fl targets k arena)) \<subseteq>
    (case contact_phase k of
       CDown \<Rightarrow> insert (contact_id k) (fst ` set arena)
     | CMotion \<Rightarrow> fst ` set arena
     | _ \<Rightarrow> fst ` set arena - {contact_id k})"
proof
  fix c
  assume c: "c \<in> fst ` set (snd (gesture_handle fl targets k arena))"
  show "c \<in> (case contact_phase k of
       CDown \<Rightarrow> insert (contact_id k) (fst ` set arena)
     | CMotion \<Rightarrow> fst ` set arena
     | _ \<Rightarrow> fst ` set arena - {contact_id k})"
  proof (cases "contact_id k = c")
    case True
    then show ?thesis
      using c assms unfolding keys_get
      by (cases "contact_phase k"; cases "bt_get arena (contact_id k)")
        (auto simp: gesture_handle_def gesture_defs Let_def keys_get split: if_splits)
  next
    case False
    then have "c \<in> fst ` set arena" using c handle_other(2) [OF assms False, of fl targets] by (simp add: keys_get)
    then show ?thesis using False by (simp split: contact_phase.splits)
  qed
qed

lemma tick_keys: "fst ` set (snd (gesture_tick now arena)) = fst ` set arena"
  by (force simp: gesture_tick_def)

text \<open>An arena that only receives the inputs of one contact only reports events of it.\<close>

lemma run_one_contact:
  assumes "list_all (concerns c) inputs" and "fst ` set arena \<subseteq> {c}" and "bt_ok arena"
  shows "events_of c (fst (arena_run fl inputs arena)) = fst (arena_run fl inputs arena)"
  using assms
proof (induction inputs arbitrary: arena)
  case (Cons i inputs)
  have events: "events_of c (fst (arena_step fl i arena)) = fst (arena_step fl i arena)"
  proof (cases i)
    case (Touch targets k)
    then show ?thesis
      using Cons.prems(1) handle_contact [of _ fl targets k arena] by (auto simp: events_of_def filter_id_conv)
  next
    case (Tick now)
    have "arena = [] \<or> (\<exists>s. arena = [(c, s)])"
      using Cons.prems(2,3) by (cases arena rule: remdups_adj.cases) (auto simp: bt_ok_def)
    then show ?thesis
      using Tick tick_contact by (auto simp: gesture_tick_def events_of_def filter_id_conv)
  qed
  have "fst ` set (snd (arena_step fl i arena)) \<subseteq> {c}"
  proof (cases i)
    case (Touch targets k)
    then show ?thesis
      using Cons.prems(1,2) handle_keys [OF Cons.prems(3), of fl targets k]
      by (cases "contact_phase k") (simp_all, blast+)
  next
    case (Tick now)
    then show ?thesis using Cons.prems(2) by (simp add: tick_keys)
  qed
  then show ?case
    using Cons.IH [of "snd (arena_step fl i arena)"] Cons.prems step_ok [OF Cons.prems(3)] events by (simp add: Let_def)
qed simp

section \<open>Every contact follows the protocol\<close>

lemma tick_protocol:
  "gesture_accepts (stage_of arena c) (case bt_get arena c of None \<Rightarrow> [] | Some s \<Rightarrow> fst (tick_session now (c, s))) =
     Some (stage_of (snd (gesture_tick now arena)) c)"
proof (cases "bt_get arena c")
  case (Some s)
  show ?thesis
  proof (cases "se_winner s = None \<and> list_ex (long_press_wins now s) (gt_recognizers (se_target s))")
    case True
    then have "tick_session now (c, s) =
        ([GLongPressBegan (gt_id (se_target s)) c (se_last_position s)], s\<lparr>se_winner := Some WinLongPress\<rparr>)"
      by (simp add: tick_session_def)
    then show ?thesis using Some True by (simp add: stage_of_def tick_get)
  next
    case False
    then have "tick_session now (c, s) = ([], s)" by (simp add: tick_session_def)
    then show ?thesis using Some by (simp add: stage_of_def tick_get)
  qed
qed (simp add: stage_of_def tick_get)

lemma handle_protocol:
  assumes "bt_ok arena" and "contact_phase k = CDown \<Longrightarrow> bt_get arena (contact_id k) = None"
  shows "gesture_accepts (stage_of arena (contact_id k)) (fst (gesture_handle fl targets k arena)) =
     Some (stage_of (snd (gesture_handle fl targets k arena)) (contact_id k))"
proof (cases "bt_get arena (contact_id k)")
  case None
  then show ?thesis
    using assms(1)
    by (cases "contact_phase k"; cases "gesture_hit_test targets (contact_position k)")
      (simp_all add: gesture_handle_def gesture_defs stage_of_def)
next
  case (Some s)
  then have "contact_phase k \<noteq> CDown" using assms(2) by auto
  then show ?thesis
    using assms(1) Some
    by (cases "contact_phase k"; cases "se_winner s"; cases "the (se_winner s)")
      (simp_all add: gesture_handle_def gesture_defs stage_of_def Let_def)
qed

lemma step_protocol:
  assumes "bt_ok arena" and "\<And>targets k. i = Touch targets k \<Longrightarrow> contact_phase k = CDown \<Longrightarrow> bt_get arena (contact_id k) = None"
  shows "gesture_accepts (stage_of arena c) (events_of c (fst (arena_step fl i arena))) =
    Some (stage_of (snd (arena_step fl i arena)) c)"
proof (cases i)
  case (Tick now)
  then show ?thesis using assms(1) tick_protocol by (simp add: tick_events bt_ok_distinct)
next
  case (Touch targets k)
  show ?thesis
  proof (cases "contact_id k = c")
    case True
    then have "events_of c (fst (gesture_handle fl targets k arena)) = fst (gesture_handle fl targets k arena)"
      using handle_contact [of _ fl targets k arena] by (auto simp: events_of_def filter_id_conv)
    then show ?thesis using handle_protocol [OF assms(1) assms(2) [OF Touch], of fl targets] True Touch by simp
  next
    case False
    then show ?thesis using handle_other [OF assms(1) False, of fl targets] Touch by (simp add: stage_of_def)
  qed
qed

lemma run_protocol:
  assumes "bt_ok arena" and "fst ` set arena \<subseteq> held" and "contacts_ok held inputs"
  shows "gesture_accepts (stage_of arena c) (events_of c (fst (arena_run fl inputs arena))) =
    Some (stage_of (snd (arena_run fl inputs arena)) c)"
  using assms
proof (induction inputs arbitrary: arena held)
  case (Cons i inputs)
  have fresh: "bt_get arena (contact_id k) = None" if "i = Touch targets k" "contact_phase k = CDown" for targets k
    using that Cons.prems(2,3) keys_get [of "contact_id k" arena] by auto
  have "\<exists>held'. fst ` set (snd (arena_step fl i arena)) \<subseteq> held' \<and> contacts_ok held' inputs"
  proof (cases i)
    case (Touch targets k)
    have keys: "fst ` set (snd (arena_step fl i arena)) \<subseteq>
        (case contact_phase k of CDown \<Rightarrow> insert (contact_id k) held | CMotion \<Rightarrow> held | _ \<Rightarrow> held - {contact_id k})"
      using handle_keys [OF Cons.prems(1), of fl targets k] Cons.prems(2) Touch
      by (cases "contact_phase k") (simp_all, blast+)
    then show ?thesis using Cons.prems(3) Touch by (cases "contact_phase k") (simp_all, blast+)
  next
    case (Tick now)
    then show ?thesis using Cons.prems(2,3) by (auto simp: tick_keys)
  qed
  then obtain held' where held: "fst ` set (snd (arena_step fl i arena)) \<subseteq> held'" "contacts_ok held' inputs" by blast
  have "gesture_accepts (stage_of arena c) (events_of c (fst (arena_step fl i arena))) =
      Some (stage_of (snd (arena_step fl i arena)) c)"
    by (rule step_protocol [OF Cons.prems(1)]) (rule fresh)
  then show ?case
    using Cons.IH [OF step_ok [OF Cons.prems(1)] held]
    by (simp add: Let_def gesture_accepts_append)
qed simp

text \<open>(C24) Contacts are independent: what the arena reports for a contact among any other contacts is what it reports when
  that contact is the only one, with the same frame callbacks.\<close>

theorem gesture_contacts_independent:
  "events_of c (fst (arena_run fl inputs [])) = fst (arena_run fl (filter (concerns c) inputs) [])"
  using run_local [of "[]" "[]" c fl inputs] run_one_contact [of c "filter (concerns c) inputs" "[]" fl]
  by (simp add: list_all_iff)

text \<open>(C23) The events of one contact follow the gesture protocol: a press is answered by at most one of tap, long press
  and pan; a pan is begun, changed and ended in this order, a swipe only follows a pan that ended; everything
  names the widget that was pressed, wherever the finger is; and every press is closed by exactly one release
  or cancellation, so that no press is left open once the contact has no session.\<close>

theorem gesture_protocol:
  assumes "contacts_ok {} inputs"
  shows "gesture_accepts Idle (events_of c (fst (arena_run fl inputs []))) =
    Some (stage_of (snd (arena_run fl inputs [])) c)"
  using run_protocol [of "[]" "{}" inputs c fl] assms by (simp add: stage_of_def bt_get_def)

definition demo_fl :: "int f32_ops" where
  "demo_fl = \<lparr>f_hypot = (\<lambda>x y. \<bar>x\<bar> + \<bar>y\<bar>), f_max = max, f_secs = (\<lambda>n. int n div 1000000000), f_epsilon = 0\<rparr>"

definition demo_contact :: "nat \<Rightarrow> contact_phase \<Rightarrow> int \<Rightarrow> nat \<Rightarrow> int contact" where
  "demo_contact c ph x t =
     \<lparr>contact_id = c, contact_phase = ph, contact_position = \<lparr>point_x = x, point_y = 10\<rparr>, contact_time = t\<rparr>"

definition demo_targets :: "int gesture_target list" where
  "demo_targets =
     [\<lparr>gt_id = 5, gt_bounds = \<lparr>rect_x = 0, rect_y = 0, rect_width = 100, rect_height = 60\<rparr>,
       gt_recognizers = [RecTap 350000000 8, RecPan Horizontal 6, RecSwipe Horizontal 24 240]\<rparr>]"

definition demo_inputs :: "int arena_input list" where
  "demo_inputs =
     [Touch demo_targets (demo_contact 1 CDown 20 0), Touch demo_targets (demo_contact 2 CDown 50 0),
      Touch demo_targets (demo_contact 1 CMotion 40 10), Tick 20, Touch demo_targets (demo_contact 2 CUp 50 30),
      Touch demo_targets (demo_contact 1 CUp 300 2000000000)]"

theorem gesture_protocol_witness:
  "gesture_accepts Idle (events_of 1 (fst (arena_run demo_fl demo_inputs []))) = Some Idle
   \<and> length (events_of 1 (fst (arena_run demo_fl demo_inputs []))) = 5"
proof -
  have "contacts_ok {} demo_inputs" by (simp add: demo_inputs_def demo_contact_def)
  from gesture_protocol [OF this, of 1 demo_fl]
  have "gesture_accepts Idle (events_of 1 (fst (arena_run demo_fl demo_inputs []))) =
    Some (stage_of (snd (arena_run demo_fl demo_inputs [])) 1)" .
  moreover have "stage_of (snd (arena_run demo_fl demo_inputs [])) 1 = Idle" by code_simp
  moreover have "length (events_of 1 (fst (arena_run demo_fl demo_inputs []))) = 5" by code_simp
  ultimately show ?thesis by simp
qed

end
