(* ===== verification/System_Bar.thy ===== *)
theory System_Bar
  imports Hardware_Wire Ordered_Map
begin

text \<open>
  The trusted row of media and function keys (\<^verbatim>\<open>touchbar-system-bar/src/lib.rs\<close>), used by both daemons: buttons,
  the contacts that hold them and the key transitions they cause.

  Coordinates are of any type with the operators of \<^verbatim>\<open>f32\<close>; casts, literals, rounding and \<^verbatim>\<open>max\<close> are fields of
  \<open>bar_ops\<close>. A decrement of a zero counter is a panic, \<open>None\<close>.
\<close>

instantiation system_key :: linorder
begin

definition less_eq_system_key :: "system_key \<Rightarrow> system_key \<Rightarrow> bool" where
  "less_eq_system_key k k' \<longleftrightarrow> key_code k \<le> key_code k'"

definition less_system_key :: "system_key \<Rightarrow> system_key \<Rightarrow> bool" where
  "less_system_key k k' \<longleftrightarrow> key_code k < key_code k'"

instance
proof
  have key_code_inj: "key_code k = key_code k' \<Longrightarrow> k = k'" for k k'
    by (cases k; cases k'; simp)
  fix x y z :: system_key
  show "(x < y) = (x \<le> y \<and> \<not> y \<le> x)" by (auto simp: less_eq_system_key_def less_system_key_def)
  show "x \<le> x" by (simp add: less_eq_system_key_def)
  show "x \<le> y \<Longrightarrow> y \<le> z \<Longrightarrow> x \<le> z" by (simp add: less_eq_system_key_def)
  show "x \<le> y \<Longrightarrow> y \<le> x \<Longrightarrow> x = y" using key_code_inj by (simp add: less_eq_system_key_def)
  show "x \<le> y \<or> y \<le> x" by (simp add: less_eq_system_key_def linear)
qed

end

record 'f bar_ops =
  bo_max :: "'f \<Rightarrow> 'f \<Rightarrow> 'f"
  bo_min :: "'f \<Rightarrow> 'f \<Rightarrow> 'f"
  bo_floor :: "'f \<Rightarrow> 'f"
  bo_ceil :: "'f \<Rightarrow> 'f"
  bo_nat :: "nat \<Rightarrow> 'f"
  bo_i32 :: "32 word \<Rightarrow> 'f"
  bo_hundredths :: "nat \<Rightarrow> 'f"

datatype system_layer = Media | FunctionLayer

datatype system_icon =
    IconBrightnessDown | IconBrightnessUp | IconKeyboardIlluminationDown | IconKeyboardIlluminationUp
  | IconMicrophoneMute | IconSearch | IconPrevious | IconPlayPause | IconNext | IconMute | IconVolumeDown
  | IconVolumeUp

datatype button_visual = Text string | Icon system_icon

record 'f bar_rect =
  br_x :: 'f
  br_y :: 'f
  br_width :: 'f
  br_height :: 'f

definition bar_rect_contains :: "('f::{ord, plus}) bar_rect \<Rightarrow> 'f \<Rightarrow> 'f \<Rightarrow> bool" where
  "bar_rect_contains r x y \<longleftrightarrow> x \<ge> br_x r \<and> x \<le> br_x r + br_width r \<and> y \<ge> br_y r \<and> y \<le> br_y r + br_height r"

record 'f system_button =
  sb_key :: system_key
  sb_visual :: button_visual
  sb_visual_bounds :: "'f bar_rect"
  sb_content_bounds :: "'f bar_rect"
  sb_hit_bounds :: "'f bar_rect"
  sb_pressed :: bool

record key_transition =
  kt_key :: system_key
  kt_phase :: key_phase

record 'f contact_state =
  cs_key :: system_key
  cs_hit_bounds :: "'f bar_rect"
  cs_active :: bool

record 'f system_bar =
  bar_default_layer :: system_layer
  bar_active_layer :: system_layer
  bar_fn_pressed :: bool
  bar_width :: 'f
  bar_height :: 'f
  bar_contacts :: "(32 word, 'f contact_state) btree"
  bar_pressed :: "(system_key, nat) btree"

definition system_bar_new :: "('f::one) bar_ops \<Rightarrow> system_layer \<Rightarrow> 'f \<Rightarrow> 'f \<Rightarrow> 'f system_bar" where
  "system_bar_new fl layer width height =
     \<lparr>bar_default_layer = layer, bar_active_layer = layer, bar_fn_pressed = False, bar_width = bo_max fl width 1,
      bar_height = bo_max fl height 1, bar_contacts = [], bar_pressed = []\<rparr>"

section \<open>Buttons\<close>

definition media_definitions :: "(system_key \<times> button_visual) list" where
  "media_definitions =
     [(BrightnessDown, Icon IconBrightnessDown), (BrightnessUp, Icon IconBrightnessUp),
      (MicrophoneMute, Icon IconMicrophoneMute), (Search, Icon IconSearch),
      (KeyboardIlluminationDown, Icon IconKeyboardIlluminationDown),
      (KeyboardIlluminationUp, Icon IconKeyboardIlluminationUp), (PreviousSong, Icon IconPrevious),
      (PlayPause, Icon IconPlayPause), (NextSong, Icon IconNext), (Mute, Icon IconMute),
      (VolumeDown, Icon IconVolumeDown), (VolumeUp, Icon IconVolumeUp)]"

definition function_definitions :: "(system_key \<times> button_visual) list" where
  "function_definitions =
     [(F1, Text ''F1''), (F2, Text ''F2''), (F3, Text ''F3''), (F4, Text ''F4''), (F5, Text ''F5''), (F6, Text ''F6''),
      (F7, Text ''F7''), (F8, Text ''F8''), (F9, Text ''F9''), (F10, Text ''F10''), (F11, Text ''F11''),
      (F12, Text ''F12'')]"

fun layer_definitions :: "system_layer \<Rightarrow> (system_key \<times> button_visual) list" where
  "layer_definitions Media = media_definitions"
| "layer_definitions FunctionLayer = function_definitions"

fun alternate_layer :: "system_layer \<Rightarrow> system_layer" where
  "alternate_layer Media = FunctionLayer"
| "alternate_layer FunctionLayer = Media"

definition bar_buttons ::
  "('f::{ord, plus, minus, times, divide, zero, one}) bar_ops \<Rightarrow> 'f system_bar \<Rightarrow> 'f system_button list" where
  "bar_buttons fl bar =
     (let defs = layer_definitions (bar_active_layer bar);
          gap = bo_nat fl 16;
          outer = 0;
          n = bo_nat fl (length defs);
          available = bo_max fl (bar_width bar - outer * bo_nat fl 2 - gap * (n - 1)) n;
          extent = available div n;
          radius = bo_min fl (bo_nat fl 8) (bar_height bar * bo_hundredths fl 15);
          arc_top = bar_height bar * bo_hundredths fl 15;
          arc_bottom = bar_height bar * bo_hundredths fl 85;
          visual_top = bo_max fl (arc_top - radius) 0;
          visual_height = bo_max fl (arc_bottom - arc_top + radius * bo_nat fl 2) 1;
          hit_top = bar_height bar * bo_hundredths fl 10;
          hit_height = bo_max fl (bar_height bar * bo_hundredths fl 80) 1 in
      map (\<lambda>(i, key, visual).
          let x = bo_floor fl (outer + bo_nat fl i * (extent + gap)) in
          \<lparr>sb_key = key, sb_visual = visual,
           sb_visual_bounds = \<lparr>br_x = x, br_y = visual_top, br_width = bo_ceil fl extent, br_height = visual_height\<rparr>,
           sb_content_bounds = \<lparr>br_x = x, br_y = 0, br_width = bo_ceil fl extent, br_height = bar_height bar\<rparr>,
           sb_hit_bounds = \<lparr>br_x = x, br_y = hit_top, br_width = extent, br_height = hit_height\<rparr>,
           sb_pressed = (bt_get (bar_pressed bar) key \<noteq> None)\<rparr>)
        (zip [0..<length defs] defs))"

section \<open>Touches\<close>

definition activate :: "system_key \<Rightarrow> 'f system_bar \<Rightarrow> key_transition list \<times> 'f system_bar" where
  "activate key bar =
     (let n = (case bt_get (bar_pressed bar) key of None \<Rightarrow> 0 | Some n \<Rightarrow> n) + 1 in
      (if n = 1 then [\<lparr>kt_key = key, kt_phase = Pressed\<rparr>] else [],
       bar\<lparr>bar_pressed := bt_insert key n (bar_pressed bar)\<rparr>))"

definition deactivate :: "system_key \<Rightarrow> 'f system_bar \<Rightarrow> (key_transition list \<times> 'f system_bar) option" where
  "deactivate key bar =
     (case bt_get (bar_pressed bar) key of
        None \<Rightarrow> Some ([], bar)
      | Some n \<Rightarrow>
          if n = 0 then None
          else if n - 1 = 0
          then Some ([\<lparr>kt_key = key, kt_phase = Released\<rparr>], bar\<lparr>bar_pressed := bt_remove key (bar_pressed bar)\<rparr>)
          else Some ([], bar\<lparr>bar_pressed := bt_insert key (n - 1) (bar_pressed bar)\<rparr>))"

definition bar_cancel_all :: "'f system_bar \<Rightarrow> key_transition list \<times> 'f system_bar" where
  "bar_cancel_all bar =
     (map (\<lambda>k. \<lparr>kt_key = k, kt_phase = Released\<rparr>) (bt_keys (bar_pressed bar)),
      bar\<lparr>bar_contacts := [], bar_pressed := []\<rparr>)"

definition set_fn_override :: "system_layer option \<Rightarrow> 'f system_bar \<Rightarrow> key_transition list \<times> 'f system_bar" where
  "set_fn_override layer bar =
     (let pressed = (layer \<noteq> None);
          target = (case layer of None \<Rightarrow> bar_default_layer bar | Some l \<Rightarrow> l) in
      if bar_fn_pressed bar = pressed \<and> bar_active_layer bar = target then ([], bar)
      else case bar_cancel_all bar of
        (releases, bar') \<Rightarrow> (releases, bar'\<lparr>bar_fn_pressed := pressed, bar_active_layer := target\<rparr>))"

definition set_fn_pressed :: "bool \<Rightarrow> 'f system_bar \<Rightarrow> key_transition list \<times> 'f system_bar" where
  "set_fn_pressed pressed bar =
     set_fn_override (if pressed then Some (alternate_layer (bar_default_layer bar)) else None) bar"

definition bar_handle_touch ::
  "('f::{ord, plus, minus, times, divide, zero, one}) bar_ops \<Rightarrow> touch_event \<Rightarrow> 'f system_bar \<Rightarrow>
   (key_transition list \<times> 'f system_bar) option" where
  "bar_handle_touch fl e bar =
     (let x = bo_i32 fl (te_x_millipixels e) div bo_nat fl 1000;
          y = bo_i32 fl (te_y_millipixels e) div bo_nat fl 1000 in
      case te_phase e of
        Down \<Rightarrow>
          if bt_get (bar_contacts bar) (te_contact_id e) \<noteq> None then Some ([], bar)
          else
            (case find (\<lambda>b. bar_rect_contains (sb_hit_bounds b) x y) (bar_buttons fl bar) of
               None \<Rightarrow> Some ([], bar)
             | Some b \<Rightarrow>
                 Some (activate (sb_key b) (bar\<lparr>bar_contacts := bt_insert (te_contact_id e)
                   \<lparr>cs_key = sb_key b, cs_hit_bounds = sb_hit_bounds b, cs_active = True\<rparr> (bar_contacts bar)\<rparr>)))
      | Motion \<Rightarrow>
          (case bt_get (bar_contacts bar) (te_contact_id e) of
             None \<Rightarrow> Some ([], bar)
           | Some st \<Rightarrow>
               let inside = bar_rect_contains (cs_hit_bounds st) x y in
               if inside = cs_active st then Some ([], bar)
               else
                 let bar' = bar\<lparr>bar_contacts := bt_insert (te_contact_id e) (st\<lparr>cs_active := inside\<rparr>) (bar_contacts bar)\<rparr> in
                 if inside then Some (activate (cs_key st) bar') else deactivate (cs_key st) bar')
      | _ \<Rightarrow>
          (case bt_get (bar_contacts bar) (te_contact_id e) of
             None \<Rightarrow> Some ([], bar)
           | Some st \<Rightarrow>
               let bar' = bar\<lparr>bar_contacts := bt_remove (te_contact_id e) (bar_contacts bar)\<rparr> in
               if cs_active st then deactivate (cs_key st) bar' else Some ([], bar')))"

section \<open>Runs\<close>

datatype bar_op = BarTouch touch_event | BarFn "system_layer option" | BarCancel

fun bar_apply ::
  "('f::{ord, plus, minus, times, divide, zero, one}) bar_ops \<Rightarrow> bar_op \<Rightarrow> 'f system_bar \<Rightarrow>
   (key_transition list \<times> 'f system_bar) option" where
  "bar_apply fl (BarTouch e) bar = bar_handle_touch fl e bar"
| "bar_apply fl (BarFn layer) bar = Some (set_fn_override layer bar)"
| "bar_apply fl BarCancel bar = Some (bar_cancel_all bar)"

fun bar_run ::
  "('f::{ord, plus, minus, times, divide, zero, one}) bar_ops \<Rightarrow> bar_op list \<Rightarrow> 'f system_bar \<Rightarrow>
   (key_transition list \<times> 'f system_bar) option" where
  "bar_run fl [] bar = Some ([], bar)"
| "bar_run fl (op # ops) bar =
     (case bar_apply fl op bar of
        None \<Rightarrow> None
      | Some (ts, bar') \<Rightarrow>
          (case bar_run fl ops bar' of None \<Rightarrow> None | Some (ts', bar'') \<Rightarrow> Some (ts @ ts', bar'')))"

text \<open>What a keyboard makes of transitions: the keys that are down, or \<open>None\<close> when a key is pressed that is down or
  released that is up.\<close>

fun keys_down :: "system_key set \<Rightarrow> key_transition list \<Rightarrow> system_key set option" where
  "keys_down ks [] = Some ks"
| "keys_down ks (t # ts) =
     (case kt_phase t of
        Pressed \<Rightarrow> if kt_key t \<in> ks then None else keys_down (insert (kt_key t) ks) ts
      | Released \<Rightarrow> if kt_key t \<in> ks then keys_down (ks - {kt_key t}) ts else None
      | Repeat \<Rightarrow> None)"


section \<open>The keys that are down are the keys that fingers hold\<close>

definition holders :: "(32 word, 'f contact_state) btree \<Rightarrow> system_key \<Rightarrow> 32 word set" where
  "holders contacts k = {c. case bt_get contacts c of None \<Rightarrow> False | Some s \<Rightarrow> cs_active s \<and> cs_key s = k}"

definition held_count :: "32 word set \<Rightarrow> nat option" where
  "held_count cs = (if cs = {} then None else Some (card cs))"

definition held_keys :: "'f system_bar \<Rightarrow> system_key set" where
  "held_keys bar = {k. holders (bar_contacts bar) k \<noteq> {}}"

definition bar_inv :: "'f system_bar \<Rightarrow> bool" where
  "bar_inv bar \<longleftrightarrow>
     bt_ok (bar_contacts bar) \<and> bt_ok (bar_pressed bar)
     \<and> (\<forall>k. bt_get (bar_pressed bar) k = held_count (holders (bar_contacts bar) k))
     \<and> (\<forall>c s. bt_get (bar_contacts bar) c = Some s \<longrightarrow> cs_key s \<in> fst ` set (layer_definitions (bar_active_layer bar)))"

lemma holders_finite [simp]: "finite (holders contacts k)"
proof (rule finite_subset)
  show "holders contacts k \<subseteq> dom (map_of contacts)"
    by (auto simp: holders_def bt_get_def split: option.splits)
qed (rule finite_dom_map_of)

lemma holders_insert:
  "bt_ok m \<Longrightarrow> holders (bt_insert c s m) k =
     (if cs_active s \<and> cs_key s = k then insert c (holders m k) else holders m k - {c})"
  by (auto simp: holders_def split: if_splits)

lemma holders_remove: "bt_ok m \<Longrightarrow> holders (bt_remove c m) k = holders m k - {c}"
  by (auto simp: holders_def split: if_splits)

lemma holders_empty [simp]: "holders [] k = {}"
  by (simp add: holders_def)

lemma held_count_Some: "held_count cs = Some n \<Longrightarrow> n = card cs \<and> cs \<noteq> {}"
  by (auto simp: held_count_def split: if_splits)

text \<open>An accepted sequence of transitions leads from the keys held before to the keys held after.\<close>

definition tracks :: "'f system_bar \<Rightarrow> (key_transition list \<times> 'f system_bar) option \<Rightarrow> bool" where
  "tracks bar res \<longleftrightarrow>
     (case res of
        None \<Rightarrow> False
      | Some (ts, bar') \<Rightarrow> bar_inv bar' \<and> keys_down (held_keys bar) ts = Some (held_keys bar'))"

definition in_layer :: "'f system_bar \<Rightarrow> (32 word, 'f contact_state) btree \<Rightarrow> bool" where
  "in_layer bar contacts \<longleftrightarrow>
     (\<forall>c s. bt_get contacts c = Some s \<longrightarrow> cs_key s \<in> fst ` set (layer_definitions (bar_active_layer bar)))"

lemma in_layer_cong [simp]: "in_layer (bar\<lparr>bar_contacts := cs\<rparr>) = in_layer bar" "in_layer (bar\<lparr>bar_pressed := ps\<rparr>) = in_layer bar"
  by (simp_all add: in_layer_def fun_eq_iff)

lemma bar_inv_alt:
  "bar_inv bar \<longleftrightarrow>
     bt_ok (bar_contacts bar) \<and> bt_ok (bar_pressed bar) \<and> in_layer bar (bar_contacts bar)
     \<and> (\<forall>k. bt_get (bar_pressed bar) k = held_count (holders (bar_contacts bar) k))"
  by (auto simp: bar_inv_def in_layer_def)

text \<open>A finger \<open>c\<close> starts or stops to hold the key \<open>k\<close>.\<close>

lemma activate_tracks:
  assumes inv: "bar_inv bar" and cs: "bt_ok cs" "in_layer bar cs"
    and held: "\<And>k'. holders cs k' = (if k' = k then insert c (holders (bar_contacts bar) k) else holders (bar_contacts bar) k')"
    and fresh: "c \<notin> holders (bar_contacts bar) k"
  shows "tracks bar (Some (activate k (bar\<lparr>bar_contacts := cs\<rparr>)))"
proof -
  let ?old = "holders (bar_contacts bar) k"
  have old: "bt_get (bar_pressed bar) k = held_count ?old" using inv by (simp add: bar_inv_def)
  define n where "n = card ?old + 1"
  have n: "(case bt_get (bar_pressed bar) k of None \<Rightarrow> 0 | Some n \<Rightarrow> n) + 1 = n"
    using old by (simp add: held_count_def n_def)
  let ?bar = "bar\<lparr>bar_contacts := cs, bar_pressed := bt_insert k n (bar_pressed bar)\<rparr>"
  have act: "activate k (bar\<lparr>bar_contacts := cs\<rparr>) =
      (if n = 1 then [\<lparr>kt_key = k, kt_phase = Pressed\<rparr>] else [], ?bar)"
    using n by (simp add: activate_def Let_def)
  have "bar_inv ?bar"
    using inv cs held fresh by (auto simp: bar_inv_alt held_count_def n_def)
  moreover have "held_keys ?bar = insert k (held_keys bar)" using held by (auto simp: held_keys_def)
  moreover have "k \<in> held_keys bar \<longleftrightarrow> n \<noteq> 1" by (auto simp: held_keys_def n_def)
  ultimately show ?thesis unfolding tracks_def act by (cases "n = 1") (simp_all add: insert_absorb)
qed

lemma deactivate_tracks:
  assumes inv: "bar_inv bar" and cs: "bt_ok cs" "in_layer bar cs"
    and held: "\<And>k'. holders cs k' = (if k' = k then holders (bar_contacts bar) k - {c} else holders (bar_contacts bar) k')"
    and was: "c \<in> holders (bar_contacts bar) k"
  shows "tracks bar (deactivate k (bar\<lparr>bar_contacts := cs\<rparr>))"
proof -
  let ?old = "holders (bar_contacts bar) k"
  have old: "bt_get (bar_pressed bar) k = Some (card ?old)"
    using inv was by (auto simp: bar_inv_def held_count_def)
  have pos: "card ?old \<noteq> 0" using was by auto
  have rest: "card (?old - {c}) = card ?old - 1" using was by simp
  have k: "k \<in> held_keys bar" using was by (auto simp: held_keys_def)
  show ?thesis
  proof (cases "card ?old = 1")
    case True
    then have only: "?old - {c} = {}" using rest by simp
    let ?bar = "bar\<lparr>bar_contacts := cs, bar_pressed := bt_remove k (bar_pressed bar)\<rparr>"
    have "deactivate k (bar\<lparr>bar_contacts := cs\<rparr>) = Some ([\<lparr>kt_key = k, kt_phase = Released\<rparr>], ?bar)"
      using old True by (simp add: deactivate_def)
    moreover have "bar_inv ?bar" using inv cs held only by (auto simp: bar_inv_alt held_count_def)
    moreover have "held_keys ?bar = held_keys bar - {k}" using held only by (auto simp: held_keys_def)
    ultimately show ?thesis using k by (simp add: tracks_def)
  next
    case False
    then have more: "?old - {c} \<noteq> {}" using rest pos by (metis One_nat_def Suc_pred card.empty not_gr0)
    let ?bar = "bar\<lparr>bar_contacts := cs, bar_pressed := bt_insert k (card ?old - 1) (bar_pressed bar)\<rparr>"
    have "1 < card ?old" using pos False by linarith
    then have "deactivate k (bar\<lparr>bar_contacts := cs\<rparr>) = Some ([], ?bar)"
      using old by (auto simp: deactivate_def)
    moreover have "bar_inv ?bar" using inv cs held more rest by (auto simp: bar_inv_alt held_count_def)
    moreover have "held_keys ?bar = held_keys bar" using held more k by (auto simp: held_keys_def)
    ultimately show ?thesis by (simp add: tracks_def)
  qed
qed

lemma tracks_same:
  assumes "bar_inv bar" "bt_ok cs" "in_layer bar cs" "\<And>k. holders cs k = holders (bar_contacts bar) k"
  shows "tracks bar (Some ([], bar\<lparr>bar_contacts := cs\<rparr>))"
  using assms by (auto simp: tracks_def bar_inv_alt held_keys_def)

lemma tracks_refl: "bar_inv bar \<Longrightarrow> tracks bar (Some ([], bar))"
  by (simp add: tracks_def)

lemma button_in_layer:
  "b \<in> set (bar_buttons fl bar) \<Longrightarrow> sb_key b \<in> fst ` set (layer_definitions (bar_active_layer bar))"
  by (auto simp: bar_buttons_def Let_def dest!: set_zip_rightD intro: rev_image_eqI)

lemma in_layer_insert: "bt_ok cs \<Longrightarrow> in_layer bar cs \<Longrightarrow> cs_key s \<in> fst ` set (layer_definitions (bar_active_layer bar)) \<Longrightarrow>
    in_layer bar (bt_insert c s cs)"
  by (auto simp: in_layer_def)

lemma in_layer_remove: "bt_ok cs \<Longrightarrow> in_layer bar cs \<Longrightarrow> in_layer bar (bt_remove c cs)"
  by (auto simp: in_layer_def split: if_splits)

lemma touch_tracks:
  assumes inv: "bar_inv bar"
  shows "tracks bar (bar_handle_touch fl e bar)"
proof -
  let ?c = "te_contact_id e"
  let ?m = "bar_contacts bar"
  have m: "bt_ok ?m" "in_layer bar ?m" using inv by (simp_all add: bar_inv_alt)
  show ?thesis
  proof (cases "bt_get ?m ?c")
    case None
    then have free: "?c \<notin> holders ?m k" for k by (simp add: holders_def)
    show ?thesis
    proof (cases "te_phase e = Down")
      case True
      define hit where "hit = find (\<lambda>b. bar_rect_contains (sb_hit_bounds b) (bo_i32 fl (te_x_millipixels e) div bo_nat fl 1000)
        (bo_i32 fl (te_y_millipixels e) div bo_nat fl 1000)) (bar_buttons fl bar)"
      show ?thesis
      proof (cases hit)
        case (Some b)
        then have "sb_key b \<in> fst ` set (layer_definitions (bar_active_layer bar))"
          by (intro button_in_layer [of b fl]) (auto simp: hit_def find_Some_iff)
        then have "tracks bar (Some (activate (sb_key b) (bar\<lparr>bar_contacts := bt_insert ?c
            \<lparr>cs_key = sb_key b, cs_hit_bounds = sb_hit_bounds b, cs_active = True\<rparr> ?m\<rparr>)))"
          by (intro activate_tracks [OF inv, where c = ?c])
            (use m free in \<open>auto simp: holders_insert in_layer_insert\<close>)
        then show ?thesis using True None Some by (simp add: bar_handle_touch_def Let_def hit_def)
      qed (use True None inv in \<open>simp add: bar_handle_touch_def Let_def hit_def tracks_refl\<close>)
    next
      case False
      then show ?thesis using None inv
        by (cases "te_phase e") (simp_all add: bar_handle_touch_def Let_def tracks_refl)
    qed
  next
    case (Some st)
    have key: "cs_key st \<in> fst ` set (layer_definitions (bar_active_layer bar))"
      using m Some by (auto simp: in_layer_def)
    have mine: "?c \<in> holders ?m k \<longleftrightarrow> cs_active st \<and> cs_key st = k" for k using Some by (simp add: holders_def)
    define inside where "inside = bar_rect_contains (cs_hit_bounds st) (bo_i32 fl (te_x_millipixels e) div bo_nat fl 1000)
        (bo_i32 fl (te_y_millipixels e) div bo_nat fl 1000)"
    let ?moved = "bt_insert ?c (st\<lparr>cs_active := inside\<rparr>) ?m"
    have on: "tracks bar (Some (activate (cs_key st) (bar\<lparr>bar_contacts := ?moved\<rparr>)))" if "inside" "\<not> cs_active st"
      by (rule activate_tracks [OF inv, where c = ?c])
        (use m mine that key in \<open>auto simp: holders_insert in_layer_insert\<close>)
    have off: "tracks bar (deactivate (cs_key st) (bar\<lparr>bar_contacts := ?moved\<rparr>))" if "\<not> inside" "cs_active st"
      by (rule deactivate_tracks [OF inv, where c = ?c])
        (use m mine that key in \<open>auto simp: holders_insert in_layer_insert\<close>)
    have lift: "tracks bar (if cs_active st then deactivate (cs_key st) (bar\<lparr>bar_contacts := bt_remove ?c ?m\<rparr>)
        else Some ([], bar\<lparr>bar_contacts := bt_remove ?c ?m\<rparr>))"
    proof (cases "cs_active st")
      case True
      have "tracks bar (deactivate (cs_key st) (bar\<lparr>bar_contacts := bt_remove ?c ?m\<rparr>))"
        by (rule deactivate_tracks [OF inv, where c = ?c])
          (use m mine True in \<open>auto simp: holders_remove in_layer_remove\<close>)
      then show ?thesis using True by simp
    next
      case False
      have "tracks bar (Some ([], bar\<lparr>bar_contacts := bt_remove ?c ?m\<rparr>))"
        by (rule tracks_same) (use inv m mine False in \<open>auto simp: holders_remove in_layer_remove\<close>)
      then show ?thesis using False by simp
    qed
    show ?thesis
      using Some inv on off lift
      by (cases "te_phase e") (simp_all add: bar_handle_touch_def Let_def tracks_refl inside_def)
  qed
qed


lemma keys_down_append:
  "keys_down ks (ts @ ts') = (case keys_down ks ts of None \<Rightarrow> None | Some ks' \<Rightarrow> keys_down ks' ts')"
  by (induction ts arbitrary: ks) (auto split: key_phase.splits)

lemma keys_down_releases:
  "distinct ks \<Longrightarrow> set ks \<subseteq> held \<Longrightarrow>
     keys_down held (map (\<lambda>k. \<lparr>kt_key = k, kt_phase = Released\<rparr>) ks) = Some (held - set ks)"
  by (induction ks arbitrary: held) (auto simp: subset_Diff_insert)

lemma held_keys_pressed: "bar_inv bar \<Longrightarrow> held_keys bar = set (bt_keys (bar_pressed bar))"
proof (rule set_eqI)
  fix k
  assume "bar_inv bar"
  then have "bt_get (bar_pressed bar) k = None \<longleftrightarrow> holders (bar_contacts bar) k = {}"
    by (simp add: bar_inv_def held_count_def)
  then show "k \<in> held_keys bar \<longleftrightarrow> k \<in> set (bt_keys (bar_pressed bar))"
    using bt_get_None_keys [of "bar_pressed bar" k] by (auto simp: held_keys_def)
qed

lemma cancel_tracks:
  assumes "bar_inv bar"
  shows "tracks bar (Some (bar_cancel_all bar))" and "held_keys (snd (bar_cancel_all bar)) = {}"
proof -
  have "distinct (bt_keys (bar_pressed bar))" using assms by (simp add: bar_inv_def bt_ok_def bt_keys_def)
  then have "keys_down (held_keys bar) (fst (bar_cancel_all bar)) = Some {}"
    using held_keys_pressed [OF assms] keys_down_releases [of "bt_keys (bar_pressed bar)" "held_keys bar"]
    by (simp add: bar_cancel_all_def)
  then show "tracks bar (Some (bar_cancel_all bar))"
    by (simp add: tracks_def bar_cancel_all_def bar_inv_def held_keys_def held_count_def)
  show "held_keys (snd (bar_cancel_all bar)) = {}" by (simp add: bar_cancel_all_def held_keys_def)
qed

lemma fn_tracks: "bar_inv bar \<Longrightarrow> tracks bar (Some (set_fn_override layer bar))"
  using cancel_tracks [of bar]
  by (auto simp: set_fn_override_def Let_def tracks_refl tracks_def bar_cancel_all_def bar_inv_def held_keys_def)

lemma apply_tracks: "bar_inv bar \<Longrightarrow> tracks bar (bar_apply fl op bar)"
  by (cases op) (simp_all add: touch_tracks fn_tracks cancel_tracks)

lemma run_tracks: "bar_inv bar \<Longrightarrow> tracks bar (bar_run fl ops bar)"
proof (induction ops arbitrary: bar)
  case (Cons op ops)
  obtain ts bar' where step: "bar_apply fl op bar = Some (ts, bar')" "bar_inv bar'"
    "keys_down (held_keys bar) ts = Some (held_keys bar')"
    using apply_tracks [OF Cons.prems, of fl op] by (auto simp: tracks_def split: option.splits)
  obtain ts' bar'' where rest: "bar_run fl ops bar' = Some (ts', bar'')" "bar_inv bar''"
    "keys_down (held_keys bar') ts' = Some (held_keys bar'')"
    using Cons.IH [OF step(2)] by (auto simp: tracks_def split: option.splits)
  show ?case using step rest by (simp add: tracks_def keys_down_append)
qed (simp add: tracks_refl)

lemma bar_new_inv: "bar_inv (system_bar_new fl layer width height)"
  by (simp add: bar_inv_def system_bar_new_def held_count_def)


end
