(* ===== verification/Hardware_Input.thy ===== *)
theory Hardware_Input
  imports System_Bar
begin

text \<open>
  The input side of the privileged daemon: the multitouch decoder and the filter for contacts that wake the
  panel (\<^verbatim>\<open>touchbard/src/main.rs\<close>), the Fn reader (\<^verbatim>\<open>fn_input.rs\<close>) and the levels of the backlight
  (\<^verbatim>\<open>backlight.rs\<close>).

  An input event is what \<^verbatim>\<open>read\<close> delivered, without its time. The arithmetic of \<^verbatim>\<open>f64\<close> in the coordinate
  transform is a field of \<open>f64_ops\<close>; \<^verbatim>\<open>i32\<close> differences of the axis limits are integers, which is what they are
  unless a device reports an axis wider than the type.
\<close>

section \<open>Multitouch\<close>

record input_event =
  ie_kind :: nat
  ie_code :: nat
  ie_value :: int

definition EV_SYN :: nat where "EV_SYN = 0"
definition EV_ABS :: nat where "EV_ABS = 3"
definition SYN_REPORT :: nat where "SYN_REPORT = 0"
definition SYN_DROPPED :: nat where "SYN_DROPPED = 3"
definition ABS_MT_SLOT :: nat where "ABS_MT_SLOT = 47"
definition ABS_MT_POSITION_X :: nat where "ABS_MT_POSITION_X = 53"
definition ABS_MT_POSITION_Y :: nat where "ABS_MT_POSITION_Y = 54"
definition ABS_MT_TRACKING_ID :: nat where "ABS_MT_TRACKING_ID = 57"

lemmas input_codes = EV_SYN_def EV_ABS_def SYN_REPORT_def SYN_DROPPED_def ABS_MT_SLOT_def ABS_MT_POSITION_X_def
  ABS_MT_POSITION_Y_def ABS_MT_TRACKING_ID_def

record 'g f64_ops =
  fd_of_int :: "int \<Rightarrow> 'g"
  fd_round_i32 :: "'g \<Rightarrow> 32 word"

record abs_axis =
  axis_minimum :: int
  axis_maximum :: int

record touch_slot =
  ts_contact_id :: "32 word option"
  ts_x :: int
  ts_y :: int
  ts_pending :: "touch_phase option"

record touch_input =
  ti_x_axis :: abs_axis
  ti_y_axis :: abs_axis
  ti_current_slot :: nat
  ti_slots :: "touch_slot list"
  ti_display_width :: nat
  ti_display_height :: nat
  ti_scene_width :: nat
  ti_scene_height :: nat

definition touch_input_new ::
  "abs_axis \<Rightarrow> abs_axis \<Rightarrow> abs_axis \<Rightarrow> nat \<Rightarrow> nat \<Rightarrow> nat \<Rightarrow> nat \<Rightarrow> touch_input option" where
  "touch_input_new x_axis y_axis slot_axis display_width display_height scene_width scene_height =
     (let n = axis_maximum slot_axis - axis_minimum slot_axis + 1 in
      if n < 0 \<or> n = 0 \<or> n > 1024 then None
      else Some
        \<lparr>ti_x_axis = x_axis, ti_y_axis = y_axis, ti_current_slot = 0,
         ti_slots = replicate (nat n) \<lparr>ts_contact_id = None, ts_x = 0, ts_y = 0, ts_pending = None\<rparr>,
         ti_display_width = display_width, ti_display_height = display_height,
         ti_scene_width = scene_width, ti_scene_height = scene_height\<rparr>)"

definition clamp_int :: "int \<Rightarrow> int \<Rightarrow> int \<Rightarrow> int" where
  "clamp_int lo hi v = (if v < lo then lo else if v > hi then hi else v)"

definition normalize_axis :: "('g::{divide, times}) f64_ops \<Rightarrow> int \<Rightarrow> abs_axis \<Rightarrow> nat \<Rightarrow> 'g" where
  "normalize_axis fd v axis extent =
     (let position = fd_of_int fd (clamp_int (axis_minimum axis) (axis_maximum axis) v - axis_minimum axis);
          rng = fd_of_int fd (axis_maximum axis - axis_minimum axis) in
      position div rng * fd_of_int fd (int (extent - 1)))"

definition touch_transform ::
  "('g::{divide, times, minus}) f64_ops \<Rightarrow> touch_input \<Rightarrow> int \<Rightarrow> int \<Rightarrow> 32 word \<times> 32 word" where
  "touch_transform fd ti x y =
     (let display_x = normalize_axis fd x (ti_x_axis ti) (ti_display_width ti);
          display_y = normalize_axis fd y (ti_y_axis ti) (ti_display_height ti);
          scene_left = (fd_of_int fd (int (ti_display_width ti)) - fd_of_int fd (int (ti_scene_width ti))) div fd_of_int fd 2;
          scene_top = (fd_of_int fd (int (ti_display_height ti)) - fd_of_int fd (int (ti_scene_height ti))) div fd_of_int fd 2 in
      (fd_round_i32 fd ((display_x - scene_left) * fd_of_int fd 1000),
       fd_round_i32 fd ((display_y - scene_top) * fd_of_int fd 1000)))"

definition slot_event ::
  "('g::{divide, times, minus}) f64_ops \<Rightarrow> touch_input \<Rightarrow> 32 word \<Rightarrow> touch_phase \<Rightarrow> 32 word \<Rightarrow> touch_slot \<Rightarrow> touch_event" where
  "slot_event fd ti time_ms ph contact slot =
     (case touch_transform fd ti (ts_x slot) (ts_y slot) of
        (x, y) \<Rightarrow> \<lparr>te_phase = ph, te_contact_id = contact, te_time_ms = time_ms, te_x_millipixels = x, te_y_millipixels = y\<rparr>)"

definition flush_slot ::
  "('g::{divide, times, minus}) f64_ops \<Rightarrow> touch_input \<Rightarrow> 32 word \<Rightarrow> touch_slot \<Rightarrow> touch_event list \<times> touch_slot" where
  "flush_slot fd ti time_ms slot =
     (case ts_pending slot of
        None \<Rightarrow> ([], slot)
      | Some ph \<Rightarrow>
          let slot1 = slot\<lparr>ts_pending := None\<rparr> in
          (case ts_contact_id slot1 of
             None \<Rightarrow> ([], slot1)
           | Some contact \<Rightarrow>
               ([slot_event fd ti time_ms ph contact slot1],
                if ph = Up then slot1\<lparr>ts_contact_id := None\<rparr> else slot1)))"

definition flush_frame ::
  "('g::{divide, times, minus}) f64_ops \<Rightarrow> 32 word \<Rightarrow> touch_input \<Rightarrow> touch_event list \<times> touch_input" where
  "flush_frame fd time_ms ti =
     (concat (map (\<lambda>s. fst (flush_slot fd ti time_ms s)) (ti_slots ti)),
      ti\<lparr>ti_slots := map (\<lambda>s. snd (flush_slot fd ti time_ms s)) (ti_slots ti)\<rparr>)"

definition cancel_slot ::
  "('g::{divide, times, minus}) f64_ops \<Rightarrow> touch_input \<Rightarrow> 32 word \<Rightarrow> touch_slot \<Rightarrow> touch_event list \<times> touch_slot" where
  "cancel_slot fd ti time_ms slot =
     (case ts_contact_id slot of
        None \<Rightarrow> ([], slot)
      | Some contact \<Rightarrow>
          ([slot_event fd ti time_ms TouchCancel contact slot], slot\<lparr>ts_contact_id := None, ts_pending := None\<rparr>))"

definition touch_cancel_all ::
  "('g::{divide, times, minus}) f64_ops \<Rightarrow> 32 word \<Rightarrow> touch_input \<Rightarrow> touch_event list \<times> touch_input" where
  "touch_cancel_all fd time_ms ti =
     (concat (map (\<lambda>s. fst (cancel_slot fd ti time_ms s)) (ti_slots ti)),
      ti\<lparr>ti_slots := map (\<lambda>s. snd (cancel_slot fd ti time_ms s)) (ti_slots ti)\<rparr>)"

definition moved :: "touch_slot \<Rightarrow> touch_slot" where
  "moved slot = (if ts_contact_id slot \<noteq> None \<and> ts_pending slot = None then slot\<lparr>ts_pending := Some Motion\<rparr> else slot)"

definition tracking_slot :: "int \<Rightarrow> touch_slot \<Rightarrow> touch_slot" where
  "tracking_slot v slot =
     (if v < 0 then if ts_contact_id slot \<noteq> None then slot\<lparr>ts_pending := Some Up\<rparr> else slot
      else slot\<lparr>ts_contact_id := Some (word_of_int v), ts_pending := Some Down\<rparr>)"

text \<open>The slot that events apply to; indexing past the slots is a panic.\<close>

definition on_slot :: "(touch_slot \<Rightarrow> touch_slot) \<Rightarrow> touch_input \<Rightarrow> (touch_event list \<times> touch_input) option" where
  "on_slot f ti =
     (if ti_current_slot ti < length (ti_slots ti)
      then Some ([], ti\<lparr>ti_slots := (ti_slots ti)[ti_current_slot ti := f (ti_slots ti ! ti_current_slot ti)]\<rparr>)
      else None)"

definition process_event ::
  "('g::{divide, times, minus}) f64_ops \<Rightarrow> 32 word \<Rightarrow> input_event \<Rightarrow> touch_input \<Rightarrow> (touch_event list \<times> touch_input) option" where
  "process_event fd time_ms e ti =
     (if ie_kind e = EV_ABS \<and> ie_code e = ABS_MT_SLOT then
        Some ([], if 0 \<le> ie_value e \<and> nat (ie_value e) < length (ti_slots ti)
                  then ti\<lparr>ti_current_slot := nat (ie_value e)\<rparr> else ti)
      else if ie_kind e = EV_ABS \<and> ie_code e = ABS_MT_TRACKING_ID then on_slot (tracking_slot (ie_value e)) ti
      else if ie_kind e = EV_ABS \<and> ie_code e = ABS_MT_POSITION_X then on_slot (\<lambda>s. moved (s\<lparr>ts_x := ie_value e\<rparr>)) ti
      else if ie_kind e = EV_ABS \<and> ie_code e = ABS_MT_POSITION_Y then on_slot (\<lambda>s. moved (s\<lparr>ts_y := ie_value e\<rparr>)) ti
      else if ie_kind e = EV_SYN \<and> ie_code e = SYN_REPORT then Some (flush_frame fd time_ms ti)
      else if ie_kind e = EV_SYN \<and> ie_code e = SYN_DROPPED then Some (touch_cancel_all fd time_ms ti)
      else Some ([], ti))"

text \<open>The events of a batch, with a reading of the clock for each.\<close>

fun process_events ::
  "('g::{divide, times, minus}) f64_ops \<Rightarrow> (nat \<Rightarrow> 32 word) \<Rightarrow> input_event list \<Rightarrow> touch_input \<Rightarrow>
   (touch_event list \<times> touch_input) option" where
  "process_events fd clock [] ti = Some ([], ti)"
| "process_events fd clock (e # es) ti =
     (case process_event fd (clock (length es)) e ti of
        None \<Rightarrow> None
      | Some (out, ti') \<Rightarrow>
          (case process_events fd clock es ti' of None \<Rightarrow> None | Some (out', ti'') \<Rightarrow> Some (out @ out', ti'')))"

section \<open>Contacts that wake the panel\<close>

definition wake_consume :: "touch_event \<Rightarrow> bool \<Rightarrow> 32 word set \<Rightarrow> bool \<times> 32 word set" where
  "wake_consume e woke contacts =
     (let ends = (te_phase e = Up \<or> te_phase e = TouchCancel) in
      if woke then (True, if ends then contacts - {te_contact_id e} else insert (te_contact_id e) contacts)
      else if te_contact_id e \<notin> contacts then (False, contacts)
      else (True, if ends then contacts - {te_contact_id e} else contacts))"

section \<open>The Fn key\<close>

definition EV_KEY :: nat where "EV_KEY = 1"
definition KEY_FN :: nat where "KEY_FN = 464"

definition fn_state :: "input_event \<Rightarrow> bool option" where
  "fn_state e =
     (if ie_kind e = EV_KEY \<and> ie_code e = KEY_FN \<and> ie_value e = 0 then Some False
      else if ie_kind e = EV_KEY \<and> ie_code e = KEY_FN \<and> ie_value e = 1 then Some True
      else None)"

fun fn_read_changed :: "input_event list \<Rightarrow> bool option \<times> bool \<Rightarrow> bool option \<times> bool" where
  "fn_read_changed [] (changed, pressed) = (changed, pressed)"
| "fn_read_changed (e # es) (changed, pressed) =
     (case fn_state e of
        None \<Rightarrow> fn_read_changed es (changed, pressed)
      | Some p \<Rightarrow> if pressed \<noteq> p then fn_read_changed es (Some p, p) else fn_read_changed es (changed, pressed))"

section \<open>Backlight levels\<close>

definition ACTIVE_LEVEL_255 :: nat where "ACTIVE_LEVEL_255 = 128"
definition DIMMED_LEVEL_255 :: nat where "DIMMED_LEVEL_255 = 1"
definition IDLE_LEVEL_255 :: nat where "IDLE_LEVEL_255 = 0"

definition clamp_nat :: "nat \<Rightarrow> nat \<Rightarrow> nat \<Rightarrow> nat" where
  "clamp_nat lo hi v = (if v < lo then lo else if v > hi then hi else v)"

record backlight =
  bl_active_value :: nat
  bl_dimmed_value :: nat
  bl_idle_value :: nat
  bl_current_value :: "nat option"

definition backlight_open :: "nat \<Rightarrow> backlight option" where
  "backlight_open mx =
     (if mx = 0 then None
      else Some \<lparr>bl_active_value = clamp_nat 1 mx ((ACTIVE_LEVEL_255 * mx + 127) div 255),
                 bl_dimmed_value = clamp_nat 1 mx ((DIMMED_LEVEL_255 * mx + 127) div 255),
                 bl_idle_value = IDLE_LEVEL_255 * mx div 255, bl_current_value = None\<rparr>)"

section \<open>Lemmas\<close>

definition touch_ok :: "touch_input \<Rightarrow> bool" where
  "touch_ok ti \<longleftrightarrow> ti_current_slot ti < length (ti_slots ti)"

lemma process_event_ok:
  assumes "touch_ok ti"
  shows "\<exists>out ti'. process_event fd time_ms e ti = Some (out, ti') \<and> touch_ok ti'"
proof -
  let ?good = "\<lambda>r. case r of None \<Rightarrow> False | Some (out, ti') \<Rightarrow> touch_ok ti'"
  have "?good (on_slot f ti)" for f
    using assms by (simp add: on_slot_def touch_ok_def)
  moreover have "?good (Some (flush_frame fd time_ms ti))" "?good (Some (touch_cancel_all fd time_ms ti))"
    using assms by (simp_all add: flush_frame_def touch_cancel_all_def touch_ok_def)
  moreover have "?good (Some ([], ti))" using assms by simp
  moreover have "?good (Some ([], if 0 \<le> ie_value e \<and> nat (ie_value e) < length (ti_slots ti)
                  then ti\<lparr>ti_current_slot := nat (ie_value e)\<rparr> else ti))"
    using assms by (simp add: touch_ok_def)
  ultimately have "?good (process_event fd time_ms e ti)"
    unfolding process_event_def by (simp only: if_split) simp
  then show ?thesis by (simp split: option.splits prod.splits)
qed

lemma process_events_ok:
  "touch_ok ti \<Longrightarrow> \<exists>out ti'. process_events fd clock es ti = Some (out, ti') \<and> touch_ok ti'"
proof (induction es arbitrary: ti)
  case (Cons e es)
  obtain out ti' where step: "process_event fd (clock (length es)) e ti = Some (out, ti')" "touch_ok ti'"
    using process_event_ok [OF Cons.prems] by blast
  then show ?case using Cons.IH [OF step(2)] by auto
qed simp

lemma touch_input_new_ok: "touch_input_new xa ya sa dw dh sw sh = Some ti \<Longrightarrow> touch_ok ti"
  by (auto simp: touch_input_new_def Let_def touch_ok_def split: if_splits)

lemma backlight_levels:
  assumes "backlight_open mx = Some bl"
  shows "bl_idle_value bl = 0" "0 < bl_dimmed_value bl" "bl_dimmed_value bl \<le> bl_active_value bl" "bl_active_value bl \<le> mx"
proof -
  have "mx \<noteq> 0" using assms by (auto simp: backlight_open_def split: if_splits)
  moreover have "(mx + 127) div 255 \<le> (128 * mx + 127) div 255" by (rule div_le_mono) simp
  ultimately show "bl_idle_value bl = 0" "0 < bl_dimmed_value bl" "bl_dimmed_value bl \<le> bl_active_value bl" "bl_active_value bl \<le> mx"
    using assms
    by (auto simp: backlight_open_def clamp_nat_def ACTIVE_LEVEL_255_def DIMMED_LEVEL_255_def IDLE_LEVEL_255_def)
qed

end
