(* ===== verification/Hardware_Service.thy ===== *)
theory Hardware_Service
  imports Hardware_Input Recovery
begin

text \<open>
  The service of the privileged daemon (\<^verbatim>\<open>ServiceHardware\<close> in \<^verbatim>\<open>touchbard/src/main.rs\<close>, the keyboard of
  \<^verbatim>\<open>uinput.rs\<close>, the backlight of \<^verbatim>\<open>backlight.rs\<close>): it shows the fallback row and waits for a session, lends
  the panel to the session of the user on the active seat, and takes it back.

  Every call that leaves the process is an effect; \<open>ok\<close> decides which of them fail. What \<^verbatim>\<open>poll\<close>, \<^verbatim>\<open>read\<close>,
  \<^verbatim>\<open>accept\<close>, the clock and logind answer in one turn of a loop is a record of inputs. The marker file of the
  recovery gesture, whose errors are only logged, is left out; rendering is one effect.
\<close>

datatype effect =
    WroteKey system_key nat
  | WroteBacklight nat
  | Rendered
  | MarkedDirty nat
  | Flipped "nat option"
  | SentSwapchain
  | Sent hardware_message

datatype service_error = ServiceIo | DeviceLost string | ServiceProtocol string | Panicked

datatype backlight_state = BlActive | BlDimmed | BlOff

datatype service_scanout = ScanFallback | ScanSession nat "64 word"

record 'f service =
  sv_framebuffers :: nat
  sv_scanout :: service_scanout
  sv_touch :: touch_input
  sv_fn_pressed :: bool
  sv_keyboard :: "system_key set"
  sv_backlight :: backlight
  sv_bar :: "'f system_bar"
  sv_last_activity :: nat
  sv_backlight_state :: backlight_state
  sv_wake_contacts :: "32 word set"
  sv_recovery :: recovery_gesture
  sv_calls :: nat
  sv_effects :: "effect list"

type_synonym ('f, 'a) action = "'f service \<Rightarrow> (service_error, 'a) result \<times> 'f service"

definition act_return :: "'a \<Rightarrow> ('f, 'a) action" where
  "act_return a st = (Inr a, st)"

definition act_bind :: "('f, 'a) action \<Rightarrow> ('a \<Rightarrow> ('f, 'b) action) \<Rightarrow> ('f, 'b) action" where
  "act_bind m f st = (case m st of (Inl e, st') \<Rightarrow> (Inl e, st') | (Inr a, st') \<Rightarrow> f a st')"

fun act_each :: "('x \<Rightarrow> ('f, unit) action) \<Rightarrow> 'x list \<Rightarrow> ('f, unit) action" where
  "act_each f [] = act_return ()"
| "act_each f (x # xs) = act_bind (f x) (\<lambda>_. act_each f xs)"

definition update :: "('f service \<Rightarrow> 'f service) \<Rightarrow> ('f, unit) action" where
  "update f st = (Inr (), f st)"

definition perform :: "(nat \<Rightarrow> effect \<Rightarrow> bool) \<Rightarrow> effect \<Rightarrow> ('f, unit) action" where
  "perform ok e st =
     (if ok (sv_calls st) e then (Inr (), st\<lparr>sv_calls := sv_calls st + 1, sv_effects := sv_effects st @ [e]\<rparr>)
      else (Inl ServiceIo, st\<lparr>sv_calls := sv_calls st + 1\<rparr>))"

section \<open>Keyboard and backlight\<close>

definition keyboard_emit :: "(nat \<Rightarrow> effect \<Rightarrow> bool) \<Rightarrow> system_key \<Rightarrow> key_phase \<Rightarrow> ('f, unit) action" where
  "keyboard_emit ok key ph st =
     (case ph of
        Pressed \<Rightarrow>
          if key \<in> sv_keyboard st then (Inr (), st)
          else perform ok (WroteKey key 1) (st\<lparr>sv_keyboard := insert key (sv_keyboard st)\<rparr>)
      | Repeat \<Rightarrow>
          if key \<in> sv_keyboard st then perform ok (WroteKey key 2) st
          else (Inl (ServiceProtocol ''cannot repeat a system key that is not pressed''), st)
      | Released \<Rightarrow>
          if key \<in> sv_keyboard st then perform ok (WroteKey key 0) (st\<lparr>sv_keyboard := sv_keyboard st - {key}\<rparr>)
          else (Inr (), st))"

definition release_all :: "(nat \<Rightarrow> effect \<Rightarrow> bool) \<Rightarrow> ('f, unit) action" where
  "release_all ok st =
     act_each (\<lambda>k. perform ok (WroteKey k 0)) (sorted_list_of_set (sv_keyboard st)) (st\<lparr>sv_keyboard := {}\<rparr>)"

definition backlight_set :: "(nat \<Rightarrow> effect \<Rightarrow> bool) \<Rightarrow> nat \<Rightarrow> ('f, unit) action" where
  "backlight_set ok v st =
     (if bl_current_value (sv_backlight st) = Some v then (Inr (), st)
      else act_bind (perform ok (WroteBacklight v))
             (\<lambda>_. update (\<lambda>st. st\<lparr>sv_backlight := sv_backlight st\<lparr>bl_current_value := Some v\<rparr>\<rparr>)) st)"

definition BACKLIGHT_DIM_TIMEOUT :: nat where "BACKLIGHT_DIM_TIMEOUT = 30 * 1000000000"
definition BACKLIGHT_OFF_TIMEOUT :: nat where "BACKLIGHT_OFF_TIMEOUT = 60 * 1000000000"

definition wake :: "(nat \<Rightarrow> effect \<Rightarrow> bool) \<Rightarrow> nat \<Rightarrow> ('f, bool) action" where
  "wake ok now st =
     (let st1 = st\<lparr>sv_last_activity := now\<rparr>; woke = (sv_backlight_state st1 = BlOff) in
      if sv_backlight_state st1 \<noteq> BlActive then
        act_bind (backlight_set ok (bl_active_value (sv_backlight st1))) (\<lambda>_.
        act_bind (update (\<lambda>st. st\<lparr>sv_backlight_state := BlActive\<rparr>)) (\<lambda>_. act_return woke)) st1
      else (Inr woke, st1))"

definition update_idle_backlight :: "(nat \<Rightarrow> effect \<Rightarrow> bool) \<Rightarrow> nat \<Rightarrow> ('f, unit) action" where
  "update_idle_backlight ok now st =
     (let elapsed = now - sv_last_activity st in
      if elapsed \<ge> BACKLIGHT_OFF_TIMEOUT \<and> sv_backlight_state st \<noteq> BlOff then
        act_bind (backlight_set ok (bl_idle_value (sv_backlight st))) (\<lambda>_.
          update (\<lambda>st. st\<lparr>sv_backlight_state := BlOff\<rparr>)) st
      else if elapsed \<ge> BACKLIGHT_DIM_TIMEOUT \<and> sv_backlight_state st = BlActive then
        act_bind (backlight_set ok (bl_dimmed_value (sv_backlight st))) (\<lambda>_.
          update (\<lambda>st. st\<lparr>sv_backlight_state := BlDimmed\<rparr>)) st
      else (Inr (), st))"

definition poll_recovery_gesture :: "(nat \<Rightarrow> effect \<Rightarrow> bool) \<Rightarrow> nat \<Rightarrow> ('f, recovery_action option) action" where
  "poll_recovery_gesture ok now st =
     (case gesture_poll now (sv_recovery st) of
        (None, g) \<Rightarrow> (Inr None, st\<lparr>sv_recovery := g\<rparr>)
      | (Some a, g) \<Rightarrow> act_bind (release_all ok) (\<lambda>_. act_return (Some a)) (st\<lparr>sv_recovery := g\<rparr>))"

section \<open>The fallback row\<close>

definition emit_fallback_transitions ::
  "(nat \<Rightarrow> effect \<Rightarrow> bool) \<Rightarrow> key_transition list \<Rightarrow> ('f, unit) action" where
  "emit_fallback_transitions ok ts = act_each (\<lambda>t. keyboard_emit ok (kt_key t) (kt_phase t)) ts"

text \<open>An operation of the fallback bar, with its transitions sent to the keyboard.\<close>

definition fallback ::
  "(nat \<Rightarrow> effect \<Rightarrow> bool) \<Rightarrow> ('f system_bar \<Rightarrow> (key_transition list \<times> 'f system_bar) option) \<Rightarrow> ('f, unit) action" where
  "fallback ok op st =
     (case op (sv_bar st) of
        None \<Rightarrow> (Inl Panicked, st)
      | Some (ts, bar) \<Rightarrow> emit_fallback_transitions ok ts (st\<lparr>sv_bar := bar\<rparr>))"

definition refresh_fallback :: "(nat \<Rightarrow> effect \<Rightarrow> bool) \<Rightarrow> ('f, unit) action" where
  "refresh_fallback ok = perform ok Rendered"

definition show_fallback :: "(nat \<Rightarrow> effect \<Rightarrow> bool) \<Rightarrow> ('f, unit) action" where
  "show_fallback ok st =
     act_bind (fallback ok (\<lambda>bar. Some (bar_cancel_all bar))) (\<lambda>_.
     act_bind (fallback ok (\<lambda>bar. Some (set_fn_pressed (sv_fn_pressed st) bar))) (\<lambda>_.
     act_bind (release_all ok) (\<lambda>_.
     act_bind (refresh_fallback ok) (\<lambda>_.
     act_bind (\<lambda>st. if sv_scanout st \<noteq> ScanFallback then perform ok (Flipped None) st else (Inr (), st)) (\<lambda>_.
       update (\<lambda>st. st\<lparr>sv_scanout := ScanFallback\<rparr>)))))) st"

definition prepare_shutdown :: "(nat \<Rightarrow> effect \<Rightarrow> bool) \<Rightarrow> ('f, unit) action" where
  "prepare_shutdown ok st =
     act_bind (fallback ok (\<lambda>bar. Some (bar_cancel_all bar))) (\<lambda>_.
     act_bind (release_all ok) (\<lambda>_.
       (\<lambda>st. backlight_set ok (bl_idle_value (sv_backlight st)) st))) st"

section \<open>One turn of a loop\<close>

text \<open>What the system calls answer: the descriptors that failed, what could be read (\<open>False\<close> when the read failed at
  the end), the clock, the shutdown signal. An \<open>answer\<close> is that of a descriptor which was not ready, whose call
  failed, or which delivered something.\<close>

datatype 'a answer = NotReady | ReadFailed | Ready 'a

record turn_input =
  in_interrupted :: bool
  in_poll_failed :: bool
  in_shutdown :: "bool answer"
  in_touch_failed :: bool
  in_fn_failed :: bool
  in_seat_failed :: bool
  in_touch :: "(input_event list \<times> bool) option"
  in_touch_clock :: "nat \<Rightarrow> 32 word"
  in_fn :: "(input_event list \<times> bool) option"
  in_seat :: "bool answer"
  in_clock :: "nat \<Rightarrow> nat"

definition require_hardware_fd :: "bool \<Rightarrow> string \<Rightarrow> ('f, unit) action" where
  "require_hardware_fd failed device st = (if failed then (Inl (DeviceLost device), st) else (Inr (), st))"

definition read_touches ::
  "('g::{divide, times, minus}) f64_ops \<Rightarrow> (nat \<Rightarrow> 32 word) \<Rightarrow> input_event list \<times> bool \<Rightarrow> ('f, touch_event list) action" where
  "read_touches fd clock batch st =
     (case process_events fd clock (fst batch) (sv_touch st) of
        None \<Rightarrow> (Inl Panicked, st)
      | Some (out, ti) \<Rightarrow> (if snd batch then Inr out else Inl ServiceIo, st\<lparr>sv_touch := ti\<rparr>))"

text \<open>The touches of a turn: waking, filtering, and handing each one to \<open>deliver\<close>.\<close>

definition deliver_unless_waking ::
  "bool \<Rightarrow> (touch_event \<Rightarrow> ('f, unit) action) \<Rightarrow> touch_event \<Rightarrow> ('f, bool) action" where
  "deliver_unless_waking woke deliver e st =
     (case wake_consume e woke (sv_wake_contacts st) of
        (consumed, contacts) \<Rightarrow>
          let st1 = st\<lparr>sv_wake_contacts := contacts\<rparr> in
          if consumed then (Inr False, st1) else act_bind (deliver e) (\<lambda>_. act_return True) st1)"

fun deliver_touches ::
  "bool \<Rightarrow> (touch_event \<Rightarrow> ('f, unit) action) \<Rightarrow> touch_event list \<Rightarrow> ('f, bool) action" where
  "deliver_touches woke deliver [] = act_return False"
| "deliver_touches woke deliver (e # es) =
     act_bind (deliver_unless_waking woke deliver e) (\<lambda>d.
     act_bind (deliver_touches woke deliver es) (\<lambda>d'. act_return (d \<or> d')))"

text \<open>The result says whether anything was delivered, which asks for a redraw.\<close>

definition turn_touches ::
  "(nat \<Rightarrow> effect \<Rightarrow> bool) \<Rightarrow> ('g::{divide, times, minus}) f64_ops \<Rightarrow> turn_input \<Rightarrow> (touch_event \<Rightarrow> ('f, unit) action) \<Rightarrow>
   ('f, bool) action" where
  "turn_touches ok fd i deliver =
     (case in_touch i of
        None \<Rightarrow> act_return False
      | Some batch \<Rightarrow>
          act_bind (read_touches fd (in_touch_clock i) batch) (\<lambda>events.
          act_bind (if events = [] then act_return False else wake ok (in_clock i 0)) (\<lambda>woke.
            deliver_touches woke deliver events)))"

text \<open>The Fn key of a turn; \<open>deliver\<close> gets an actual change.\<close>

definition turn_fn ::
  "(nat \<Rightarrow> effect \<Rightarrow> bool) \<Rightarrow> turn_input \<Rightarrow> (bool \<Rightarrow> ('f, unit) action) \<Rightarrow> ('f, bool) action" where
  "turn_fn ok i deliver =
     (case in_fn i of
        None \<Rightarrow> act_return False
      | Some (events, readable) \<Rightarrow>
          act_bind (wake ok (in_clock i 1)) (\<lambda>_ st.
            case fn_read_changed events (None, sv_fn_pressed st) of
              (changed, pressed) \<Rightarrow>
                let st1 = st\<lparr>sv_fn_pressed := pressed\<rparr> in
                if \<not> readable then (Inl ServiceIo, st1)
                else (case changed of
                    None \<Rightarrow> (Inr False, st1)
                  | Some p \<Rightarrow>
                      act_bind (update (\<lambda>st. st\<lparr>sv_recovery := fn_changed p (in_clock i 2) (sv_recovery st)\<rparr>)) (\<lambda>_.
                      act_bind (deliver p) (\<lambda>_. act_return True)) st1)))"

definition turn_seat :: "(nat \<Rightarrow> effect \<Rightarrow> bool) \<Rightarrow> turn_input \<Rightarrow> ('f, unit) action" where
  "turn_seat ok i =
     (case in_seat i of
        NotReady \<Rightarrow> act_return ()
      | ReadFailed \<Rightarrow> (\<lambda>st. (Inl ServiceIo, st))
      | Ready active \<Rightarrow>
          if active then act_bind (wake ok (in_clock i 3)) (\<lambda>_. act_return ()) else act_return ())"

text \<open>What both loops do before anything else; \<open>True\<close> asks for the end of the service.\<close>

definition turn_begin :: "turn_input \<Rightarrow> ('f, bool) action" where
  "turn_begin i =
     (if in_shutdown i = ReadFailed then (\<lambda>st. (Inl ServiceIo, st))
      else if in_shutdown i = Ready True then act_return True
      else
          act_bind (require_hardware_fd (in_touch_failed i) ''Touch Bar input'') (\<lambda>_.
          act_bind (require_hardware_fd (in_fn_failed i) ''Fn input'') (\<lambda>_.
          act_bind (require_hardware_fd (in_seat_failed i) ''seat activity input'') (\<lambda>_. act_return False))))"


section \<open>Waiting for a session\<close>

text \<open>A connection, when one was accepted: the user of the peer and the user on the active seat, when they could be
  determined.\<close>

record wait_input =
  wi_turn :: turn_input
  wi_accept :: "(nat option \<times> nat option) answer"

datatype wait_outcome = KeepWaiting | StopService | SessionAccepted

definition accept_session ::
  "(nat \<Rightarrow> effect \<Rightarrow> bool) \<Rightarrow> nat option \<Rightarrow> nat option \<Rightarrow> ('f, wait_outcome) action" where
  "accept_session ok peer active st =
     (if \<not> sessions_allowed (sv_recovery st) then (Inr KeepWaiting, st)
      else case peer of
          None \<Rightarrow> (Inl ServiceIo, st)
        | Some uid \<Rightarrow>
            if active = Some uid then
              act_bind (fallback ok (\<lambda>bar. Some (bar_cancel_all bar))) (\<lambda>_.
              act_bind (release_all ok) (\<lambda>_.
              act_bind (refresh_fallback ok) (\<lambda>_. act_return SessionAccepted))) st
            else (Inr KeepWaiting, st))"

definition wait_turn ::
  "(nat \<Rightarrow> effect \<Rightarrow> bool) \<Rightarrow> ('g::{divide, times, minus}) f64_ops \<Rightarrow>
   ('f::{ord, plus, minus, times, divide, zero, one}) bar_ops \<Rightarrow> wait_input \<Rightarrow> ('f, wait_outcome) action" where
  "wait_turn ok fd fl wi =
     (let i = wi_turn wi in
      if in_interrupted i then act_return KeepWaiting
      else if in_poll_failed i then (\<lambda>st. (Inl ServiceIo, st))
      else
        act_bind (turn_begin i) (\<lambda>stop.
        if stop then act_return StopService
        else
          act_bind (turn_touches ok fd i (\<lambda>e. fallback ok (bar_handle_touch fl e))) (\<lambda>delivered.
          act_bind (turn_fn ok i (\<lambda>p. fallback ok (\<lambda>bar. Some (set_fn_pressed p bar)))) (\<lambda>changed.
          act_bind (turn_seat ok i) (\<lambda>_.
          act_bind (poll_recovery_gesture ok (in_clock i 4)) (\<lambda>_.
          act_bind (if delivered \<or> changed then refresh_fallback ok else act_return ()) (\<lambda>_.
          act_bind (update_idle_backlight ok (in_clock i 5)) (\<lambda>_.
          case wi_accept wi of
            NotReady \<Rightarrow> act_return KeepWaiting
          | ReadFailed \<Rightarrow> (\<lambda>st. (Inl ServiceIo, st))
          | Ready (peer, active) \<Rightarrow> accept_session ok peer active))))))))"

section \<open>A session\<close>

record session_input =
  si_turn :: turn_input
  si_waited :: nat
  si_hangup :: bool
  si_message :: "session_message answer"

text \<open>The local variables of the session loop: the last sequence, and whether a frame was shown.\<close>

record session_locals =
  sl_last_sequence :: "64 word"
  sl_display_started :: bool

datatype session_outcome = KeepSession session_locals | EndSession bool

definition session_start :: "(nat \<Rightarrow> effect \<Rightarrow> bool) \<Rightarrow> ('f, session_locals) action" where
  "session_start ok st =
     act_bind (perform ok SentSwapchain) (\<lambda>_.
     act_bind (perform ok (Sent (hardware_message.FnChanged (sv_fn_pressed st)))) (\<lambda>_.
       act_return \<lparr>sl_last_sequence = 0, sl_display_started = False\<rparr>)) st"

definition release_retired :: "(nat \<Rightarrow> effect \<Rightarrow> bool) \<Rightarrow> ('f, unit) action" where
  "release_retired ok st =
     (case sv_scanout st of
        ScanFallback \<Rightarrow> (Inr (), st)
      | ScanSession index sequence \<Rightarrow> perform ok (Sent (BufferReleased (of_nat index) sequence)) st)"

definition submit_frame ::
  "(nat \<Rightarrow> effect \<Rightarrow> bool) \<Rightarrow> nat \<Rightarrow> nat \<Rightarrow> 64 word \<Rightarrow> session_locals \<Rightarrow> ('f, session_outcome) action" where
  "submit_frame ok now index sequence locals st =
     (if index \<ge> sv_framebuffers st
      then (Inl (ServiceProtocol ''session submitted an out-of-range hardware buffer''), st)
      else if (case sv_scanout st of ScanSession active _ \<Rightarrow> active = index | ScanFallback \<Rightarrow> False)
      then (Inl (ServiceProtocol ''session resubmitted the buffer currently being scanned out''), st)
      else if sequence \<le> sl_last_sequence locals
      then (Inl (ServiceProtocol ''session submitted a stale hardware sequence''), st)
      else
        act_bind (if sl_display_started locals then act_return False else wake ok now) (\<lambda>_.
        act_bind (perform ok (MarkedDirty index)) (\<lambda>_.
        act_bind (perform ok (Flipped (Some index))) (\<lambda>_.
        act_bind (release_retired ok) (\<lambda>_.
        act_bind (update (\<lambda>st. st\<lparr>sv_scanout := ScanSession index sequence\<rparr>)) (\<lambda>_.
          act_return (KeepSession \<lparr>sl_last_sequence = sequence, sl_display_started = True\<rparr>)))))) st)"

definition session_message_turn ::
  "(nat \<Rightarrow> effect \<Rightarrow> bool) \<Rightarrow> session_input \<Rightarrow> session_locals \<Rightarrow> ('f, session_outcome) action" where
  "session_message_turn ok si locals =
     (if si_hangup si then (\<lambda>st. (Inl (ServiceProtocol ''user session closed the hardware socket''), st))
      else case si_message si of
          NotReady \<Rightarrow> act_return (KeepSession locals)
        | ReadFailed \<Rightarrow> (\<lambda>st. (Inl ServiceIo, st))
        | Ready (Key key ph) \<Rightarrow> act_bind (keyboard_emit ok key ph) (\<lambda>_. act_return (KeepSession locals))
        | Ready (FrameReady index sequence) \<Rightarrow> submit_frame ok (in_clock (si_turn si) 6) (unat index) sequence locals)"

definition session_turn ::
  "(nat \<Rightarrow> effect \<Rightarrow> bool) \<Rightarrow> ('g::{divide, times, minus}) f64_ops \<Rightarrow> session_input \<Rightarrow> session_locals \<Rightarrow>
   ('f, session_outcome) action" where
  "session_turn ok fd si locals =
     (let i = si_turn si in
      if \<not> sl_display_started locals \<and> si_waited si \<ge> 5 * 1000000000
      then (\<lambda>st. (Inl (ServiceProtocol ''session compositor did not submit a buffer within five seconds''), st))
      else if in_interrupted i then act_return (KeepSession locals)
      else if in_poll_failed i then (\<lambda>st. (Inl ServiceIo, st))
      else
        act_bind (turn_begin i) (\<lambda>stop.
        if stop then act_return (EndSession False)
        else
          act_bind (turn_touches ok fd i (\<lambda>e. perform ok (Sent (Touch e)))) (\<lambda>_.
          act_bind (turn_fn ok i (\<lambda>p. perform ok (Sent (hardware_message.FnChanged p)))) (\<lambda>_.
          act_bind (turn_seat ok i) (\<lambda>_.
          act_bind (poll_recovery_gesture ok (in_clock i 4)) (\<lambda>action.
          if action = Some EnterFallback then act_return (EndSession True)
          else
            act_bind (update_idle_backlight ok (in_clock i 5)) (\<lambda>_. session_message_turn ok si locals)))))))"

section \<open>The service\<close>

datatype service_mode = ModeWaiting | ModeSession session_locals | ModeStopped | ModeFailed service_error

datatype service_input = WaitTurn wait_input | SessionTurn session_input

text \<open>The end of \<^verbatim>\<open>run_session\<close> and what \<^verbatim>\<open>serve\<close> does with its result.\<close>

fun device_lost :: "(service_error, 'a) result \<Rightarrow> bool" where
  "device_lost (Inl (DeviceLost _)) \<longleftrightarrow> True"
| "device_lost _ \<longleftrightarrow> False"

definition run_session_end ::
  "(nat \<Rightarrow> effect \<Rightarrow> bool) \<Rightarrow> (service_error, bool) result \<Rightarrow> 'f service \<Rightarrow> (service_error, bool) result \<times> 'f service" where
  "run_session_end ok r st =
     (let st1 = snd (release_all ok st) in
      if device_lost r then (r, st1)
      else case show_fallback ok st1 of
          (Inl e, st2) \<Rightarrow> (case r of Inr _ \<Rightarrow> (Inl e, st2) | Inl _ \<Rightarrow> (r, st2))
        | (Inr _, st2) \<Rightarrow> (r, st2))"

definition stop_service :: "(nat \<Rightarrow> effect \<Rightarrow> bool) \<Rightarrow> 'f service \<Rightarrow> service_mode \<times> 'f service" where
  "stop_service ok st =
     (case prepare_shutdown ok st of (Inl e, st') \<Rightarrow> (ModeFailed e, st') | (Inr _, st') \<Rightarrow> (ModeStopped, st'))"

definition session_over ::
  "(nat \<Rightarrow> effect \<Rightarrow> bool) \<Rightarrow> (service_error, bool) result \<Rightarrow> 'f service \<Rightarrow> service_mode \<times> 'f service" where
  "session_over ok r st =
     (case run_session_end ok r st of
        (Inr True, st') \<Rightarrow> (ModeWaiting, st')
      | (Inr False, st') \<Rightarrow> stop_service ok st'
      | (Inl Panicked, st') \<Rightarrow> (ModeFailed Panicked, st')
      | (Inl e, st') \<Rightarrow> if device_lost (Inl e :: (service_error, bool) result) then (ModeFailed e, st') else (ModeWaiting, st'))"

fun service_turn ::
  "(nat \<Rightarrow> effect \<Rightarrow> bool) \<Rightarrow> ('g::{divide, times, minus}) f64_ops \<Rightarrow>
   ('f::{ord, plus, minus, times, divide, zero, one}) bar_ops \<Rightarrow> service_input \<Rightarrow> service_mode \<times> 'f service \<Rightarrow>
   service_mode \<times> 'f service" where
  "service_turn ok fd fl (WaitTurn wi) (ModeWaiting, st) =
     (case wait_turn ok fd fl wi st of
        (Inl e, st') \<Rightarrow> (ModeFailed e, st')
      | (Inr KeepWaiting, st') \<Rightarrow> (ModeWaiting, st')
      | (Inr StopService, st') \<Rightarrow> stop_service ok st'
      | (Inr SessionAccepted, st') \<Rightarrow>
          (case session_start ok st' of
             (Inl e, st'') \<Rightarrow> session_over ok (Inl e) st''
           | (Inr locals, st'') \<Rightarrow> (ModeSession locals, st'')))"
| "service_turn ok fd fl (SessionTurn si) (ModeSession locals, st) =
     (case session_turn ok fd si locals st of
        (Inl e, st') \<Rightarrow> session_over ok (Inl e) st'
      | (Inr (KeepSession locals'), st') \<Rightarrow> (ModeSession locals', st')
      | (Inr (EndSession again), st') \<Rightarrow> session_over ok (Inr again) st')"
| "service_turn ok fd fl _ (mode, st) = (mode, st)"

definition service_open ::
  "('f::one) bar_ops \<Rightarrow> touch_input \<Rightarrow> bool \<Rightarrow> backlight \<Rightarrow> 'f \<Rightarrow> 'f \<Rightarrow> nat \<Rightarrow> 'f service" where
  "service_open fl ti fn_pressed bl width height now =
     \<lparr>sv_framebuffers = 3, sv_scanout = ScanFallback, sv_touch = ti, sv_fn_pressed = fn_pressed, sv_keyboard = {},
      sv_backlight = bl, sv_bar = snd (set_fn_pressed fn_pressed (system_bar_new fl Media width height)),
      sv_last_activity = now, sv_backlight_state = BlActive, sv_wake_contacts = {},
      sv_recovery = gesture_new fn_pressed now, sv_calls = 0, sv_effects = []\<rparr>"

definition service_run ::
  "(nat \<Rightarrow> effect \<Rightarrow> bool) \<Rightarrow> ('g::{divide, times, minus}) f64_ops \<Rightarrow>
   ('f::{ord, plus, minus, times, divide, zero, one}) bar_ops \<Rightarrow> service_input list \<Rightarrow> 'f service \<Rightarrow>
   service_mode \<times> 'f service" where
  "service_run ok fd fl inputs st = fold (service_turn ok fd fl) inputs (ModeWaiting, st)"


section \<open>Rules for actions\<close>

text \<open>A state that satisfies \<open>P\<close> leads to a result and state satisfying \<open>Q\<close>, or to an error other than a panic and
  a state satisfying \<open>E\<close>.\<close>

definition triple ::
  "('f service \<Rightarrow> bool) \<Rightarrow> ('f, 'a) action \<Rightarrow> ('a \<Rightarrow> 'f service \<Rightarrow> bool) \<Rightarrow> ('f service \<Rightarrow> bool) \<Rightarrow> bool" where
  "triple P a Q E \<longleftrightarrow>
     (\<forall>st. P st \<longrightarrow> (case a st of (Inr r, st') \<Rightarrow> Q r st' | (Inl e, st') \<Rightarrow> e \<noteq> Panicked \<and> E st'))"

lemma triple_return: "(\<And>st. P st \<Longrightarrow> Q a st) \<Longrightarrow> triple P (act_return a) Q E"
  by (simp add: triple_def act_return_def)

lemma triple_error: "(\<And>st. P st \<Longrightarrow> E st) \<Longrightarrow> e \<noteq> Panicked \<Longrightarrow> triple P (\<lambda>st. (Inl e, st)) Q E"
  by (simp add: triple_def)

lemma triple_update: "(\<And>st. P st \<Longrightarrow> Q () (f st)) \<Longrightarrow> triple P (update f) Q E"
  by (simp add: triple_def update_def)

lemma triple_bind:
  assumes "triple P a Q E" and "\<And>r. triple (Q r) (f r) R E"
  shows "triple P (act_bind a f) R E"
  unfolding triple_def
proof (intro allI impI)
  fix st
  assume P: "P st"
  obtain r st' where a: "a st = (r, st')" by (cases "a st")
  have first: "case a st of (Inr r, st') \<Rightarrow> Q r st' | (Inl e, st') \<Rightarrow> e \<noteq> Panicked \<and> E st'"
    using assms(1) P by (simp add: triple_def)
  show "case act_bind a f st of (Inr r, st') \<Rightarrow> R r st' | (Inl e, st') \<Rightarrow> e \<noteq> Panicked \<and> E st'"
  proof (cases r)
    case (Inl e)
    then show ?thesis using first a by (simp add: act_bind_def)
  next
    case (Inr v)
    then have "Q v st'" using first a by simp
    then have "case f v st' of (Inr r, st') \<Rightarrow> R r st' | (Inl e, st') \<Rightarrow> e \<noteq> Panicked \<and> E st'"
      using assms(2) by (simp add: triple_def)
    then show ?thesis using Inr a by (simp add: act_bind_def)
  qed
qed

lemma triple_weaken:
  "triple P a Q E \<Longrightarrow> (\<And>st. P' st \<Longrightarrow> P st) \<Longrightarrow> (\<And>r st. Q r st \<Longrightarrow> Q' r st) \<Longrightarrow> (\<And>st. E st \<Longrightarrow> E' st) \<Longrightarrow>
     triple P' a Q' E'"
  unfolding triple_def by (fastforce split: prod.splits sum.splits)

lemma triple_each:
  assumes "\<And>x. triple I (f x) (\<lambda>_. I) I"
  shows "triple I (act_each f xs) (\<lambda>_. I) I"
proof (induction xs)
  case Nil
  then show ?case by (simp add: triple_return)
next
  case (Cons x xs)
  then show ?case using triple_bind [OF assms] by simp
qed

lemma triple_if: "(b \<Longrightarrow> triple P a Q E) \<Longrightarrow> (\<not> b \<Longrightarrow> triple P a' Q E) \<Longrightarrow> triple P (if b then a else a') Q E"
  by simp

lemma triple_state: "(\<And>st. P st \<Longrightarrow> triple (\<lambda>st'. st' = st) (a st) Q E) \<Longrightarrow> triple P (\<lambda>st. a st st) Q E"
  by (simp add: triple_def)


section \<open>What the effects leave behind\<close>

text \<open>The keys the kernel holds down, the buffer on the panel (none is the fallback), and whether a buffer was ever
  returned to a session while it was on the panel.\<close>

fun kernel_key :: "effect \<Rightarrow> system_key set \<Rightarrow> system_key set" where
  "kernel_key (WroteKey k v) ks = (if v = 0 then ks - {k} else insert k ks)"
| "kernel_key _ ks = ks"

definition kernel_keys :: "effect list \<Rightarrow> system_key set" where
  "kernel_keys es = fold kernel_key es {}"

fun panel_step :: "effect \<Rightarrow> nat option \<Rightarrow> nat option" where
  "panel_step (Flipped b) p = b"
| "panel_step _ p = p"

definition panel :: "effect list \<Rightarrow> nat option" where
  "panel es = fold panel_step es None"

fun returned_shown :: "effect \<Rightarrow> nat option \<Rightarrow> bool" where
  "returned_shown (Sent (BufferReleased i _)) p \<longleftrightarrow> p = Some (unat i)"
| "returned_shown _ p \<longleftrightarrow> False"

fun buffers_safe :: "nat option \<Rightarrow> effect list \<Rightarrow> bool" where
  "buffers_safe p [] \<longleftrightarrow> True"
| "buffers_safe p (e # es) \<longleftrightarrow> \<not> returned_shown e p \<and> buffers_safe (panel_step e p) es"

lemma kernel_keys_snoc [simp]: "kernel_keys (es @ [e]) = kernel_key e (kernel_keys es)"
  by (simp add: kernel_keys_def)

lemma panel_snoc [simp]: "panel (es @ [e]) = panel_step e (panel es)"
  by (simp add: panel_def)

lemma buffers_safe_append: "buffers_safe p (es @ [e]) \<longleftrightarrow> buffers_safe p es \<and> \<not> returned_shown e (fold panel_step es p)"
  by (induction es arbitrary: p) auto

lemma buffers_safe_snoc [simp]:
  "buffers_safe None (es @ [e]) \<longleftrightarrow> buffers_safe None es \<and> \<not> returned_shown e (panel es)"
  by (simp add: buffers_safe_append panel_def)

lemma effects_append:
  "kernel_keys (es @ fs) = fold kernel_key fs (kernel_keys es)" "panel (es @ fs) = fold panel_step fs (panel es)"
  "buffers_safe None (es @ fs) \<longleftrightarrow> buffers_safe None es \<and> buffers_safe (panel es) fs"
proof -
  show "kernel_keys (es @ fs) = fold kernel_key fs (kernel_keys es)" by (simp add: kernel_keys_def)
  show "panel (es @ fs) = fold panel_step fs (panel es)" by (simp add: panel_def)
  have "buffers_safe p (es @ fs) \<longleftrightarrow> buffers_safe p es \<and> buffers_safe (fold panel_step es p) fs" for p
    by (induction es arbitrary: p) auto
  then show "buffers_safe None (es @ fs) \<longleftrightarrow> buffers_safe None es \<and> buffers_safe (panel es) fs"
    by (simp add: panel_def)
qed

section \<open>The invariant\<close>

definition scan_ok :: "'f service \<Rightarrow> bool" where
  "scan_ok st \<longleftrightarrow>
     (sv_scanout st = ScanFallback \<longrightarrow> panel (sv_effects st) = None)
     \<and> (\<forall>i s. sv_scanout st = ScanSession i s \<longrightarrow> i < 3)"

definition base :: "'f service \<Rightarrow> bool" where
  "base st \<longleftrightarrow>
     kernel_keys (sv_effects st) = sv_keyboard st \<and> finite (sv_keyboard st)
     \<and> bar_inv (sv_bar st) \<and> touch_ok (sv_touch st) \<and> buffers_safe None (sv_effects st)
     \<and> sv_framebuffers st = 3 \<and> scan_ok st"

text \<open>The base and a condition on what the keyboard holds, the fallback bar, the recovery lock and the scanout.\<close>

type_synonym 'f condition = "system_key set \<Rightarrow> 'f system_bar \<Rightarrow> bool \<Rightarrow> service_scanout \<Rightarrow> bool"

definition given :: "'f condition \<Rightarrow> 'f service \<Rightarrow> bool" where
  "given C st \<longleftrightarrow> base st \<and> C (sv_keyboard st) (sv_bar st) (fallback_locked (sv_recovery st)) (sv_scanout st)"

definition keys_ok :: "(nat \<Rightarrow> effect \<Rightarrow> bool) \<Rightarrow> bool" where
  "keys_ok ok \<longleftrightarrow> (\<forall>n k v. ok n (WroteKey k v))"

fun quiet :: "effect \<Rightarrow> bool" where
  "quiet (WroteKey _ _) \<longleftrightarrow> False"
| "quiet (Flipped _) \<longleftrightarrow> False"
| "quiet (Sent (BufferReleased _ _)) \<longleftrightarrow> False"
| "quiet _ \<longleftrightarrow> True"

lemmas given_defs = given_def base_def scan_ok_def

lemma quiet_simps: "quiet e \<Longrightarrow> kernel_key e ks = ks" "quiet e \<Longrightarrow> panel_step e p = p" "quiet e \<Longrightarrow> \<not> returned_shown e p"
  by (cases e rule: quiet.cases; simp)+

abbreviation keeps_given :: "'f condition \<Rightarrow> ('f, 'a) action \<Rightarrow> bool" where
  "keeps_given C a \<equiv> triple (given C) a (\<lambda>_. given C) (given C)"

lemma perform_quiet: "quiet e \<Longrightarrow> keeps_given C (perform ok e)"
  by (simp add: triple_def perform_def given_defs quiet_simps)

lemma backlight_set_keeps: "keeps_given C (backlight_set ok v)"
proof -
  have "keeps_given C (act_bind (perform ok (WroteBacklight v))
      (\<lambda>_. update (\<lambda>st. st\<lparr>sv_backlight := sv_backlight st\<lparr>bl_current_value := Some v\<rparr>\<rparr>)))"
    by (intro triple_bind [OF perform_quiet] triple_update) (simp_all add: given_defs)
  then show ?thesis by (simp add: triple_def backlight_set_def)
qed

definition outcome_ok :: "'f condition \<Rightarrow> (service_error, 'a) result \<times> 'f service \<Rightarrow> bool" where
  "outcome_ok C p \<longleftrightarrow> (case p of (Inr r, st') \<Rightarrow> given C st' | (Inl e, st') \<Rightarrow> e \<noteq> Panicked \<and> given C st')"

lemma keeps_given_iff: "keeps_given C a \<longleftrightarrow> (\<forall>st. given C st \<longrightarrow> outcome_ok C (a st))"
  by (simp add: triple_def outcome_ok_def)

lemma keeps_givenD: "keeps_given C a \<Longrightarrow> given C st \<Longrightarrow> outcome_ok C (a st)"
  by (simp add: keeps_given_iff)

lemma outcome_ok_done [simp]: "outcome_ok C (Inr r, st) \<longleftrightarrow> given C st"
  "outcome_ok C (Inl e, st) \<longleftrightarrow> e \<noteq> Panicked \<and> given C st"
  by (simp_all add: outcome_ok_def)

lemma given_frame [simp]:
  "given C (st\<lparr>sv_last_activity := t\<rparr>) = given C st" "given C (st\<lparr>sv_backlight := b\<rparr>) = given C st"
  "given C (st\<lparr>sv_backlight_state := l\<rparr>) = given C st" "given C (st\<lparr>sv_wake_contacts := w\<rparr>) = given C st"
  "given C (st\<lparr>sv_fn_pressed := p\<rparr>) = given C st" "given C (st\<lparr>sv_calls := n\<rparr>) = given C st"
  by (simp_all add: given_defs)

lemma keeps_update: "(\<And>st. given C st \<Longrightarrow> given C (f st)) \<Longrightarrow> keeps_given C (update f)"
  by (rule triple_update)

lemma keeps_return: "keeps_given C (act_return a)"
  by (rule triple_return)

lemma keeps_bind: "keeps_given C a \<Longrightarrow> (\<And>r. keeps_given C (f r)) \<Longrightarrow> keeps_given C (act_bind a f)"
  by (rule triple_bind)

lemma keeps_error: "e \<noteq> Panicked \<Longrightarrow> keeps_given C (\<lambda>st. (Inl e, st))"
  by (rule triple_error)

lemmas keeps_intros = keeps_bind keeps_return keeps_update keeps_error perform_quiet backlight_set_keeps triple_if

lemma wake_keeps: "keeps_given C (wake ok now)"
proof -
  have "keeps_given C (act_bind (backlight_set ok v) (\<lambda>_. act_bind (update (\<lambda>st. st\<lparr>sv_backlight_state := BlActive\<rparr>)) (\<lambda>_. act_return w)))"
    for v and w :: bool
    by (intro keeps_intros) simp
  then show ?thesis by (simp add: keeps_given_iff wake_def Let_def)
qed

lemma update_idle_keeps: "keeps_given C (update_idle_backlight ok now)"
proof -
  have "keeps_given C (act_bind (backlight_set ok v) (\<lambda>_. update (\<lambda>st. st\<lparr>sv_backlight_state := l\<rparr>)))" for v l
    by (intro keeps_intros) simp
  then show ?thesis by (simp add: keeps_given_iff update_idle_backlight_def Let_def)
qed

lemma turn_seat_keeps: "keeps_given C (turn_seat ok i)"
  by (auto simp: turn_seat_def intro!: keeps_bind [OF wake_keeps] keeps_return keeps_error split: answer.split)

lemma require_keeps: "keeps_given C (require_hardware_fd failed device)"
  by (simp add: keeps_given_iff require_hardware_fd_def)

lemma turn_begin_keeps: "keeps_given C (turn_begin i)"
  by (simp add: turn_begin_def keeps_bind require_keeps keeps_return keeps_error)

section \<open>Input\<close>

lemma read_touches_keeps: "keeps_given C (read_touches fd clock batch)"
  unfolding keeps_given_iff
proof (intro allI impI)
  fix st
  assume st: "given C st"
  then have "touch_ok (sv_touch st)" by (simp add: given_defs)
  then obtain out ti where "process_events fd clock (fst batch) (sv_touch st) = Some (out, ti)" "touch_ok ti"
    using process_events_ok by blast
  then show "outcome_ok C (read_touches fd clock batch st)" using st by (simp add: read_touches_def given_defs)
qed

lemma deliver_keeps:
  assumes "\<And>e. keeps_given C (deliver e)"
  shows "keeps_given C (deliver_touches woke deliver es)"
proof (induction es)
  case (Cons e es)
  have "keeps_given C (deliver_unless_waking woke deliver e)"
    unfolding keeps_given_iff
  proof (intro allI impI)
    fix st
    assume st: "given C st"
    obtain consumed contacts where w: "wake_consume e woke (sv_wake_contacts st) = (consumed, contacts)"
      by (cases "wake_consume e woke (sv_wake_contacts st)")
    have "outcome_ok C (act_bind (deliver e) (\<lambda>_. act_return True) (st\<lparr>sv_wake_contacts := contacts\<rparr>))"
      by (rule keeps_givenD [OF keeps_bind [OF assms keeps_return]]) (simp add: st)
    then show "outcome_ok C (deliver_unless_waking woke deliver e st)"
      using st w by (simp add: deliver_unless_waking_def Let_def)
  qed
  then show ?case using Cons by (auto intro!: keeps_bind keeps_return)
qed (simp add: keeps_return)

lemma turn_touches_keeps:
  assumes "\<And>e. keeps_given C (deliver e)"
  shows "keeps_given C (turn_touches ok fd i deliver)"
  by (auto simp: turn_touches_def intro!: keeps_bind [OF read_touches_keeps] keeps_bind [OF triple_if] wake_keeps keeps_return
      deliver_keeps assms split: option.split)

lemma turn_fn_keeps:
  assumes "\<And>p. keeps_given C (deliver p)"
  shows "keeps_given C (turn_fn ok i deliver)"
proof (cases "in_fn i")
  case (Some batch)
  obtain events readable where batch: "batch = (events, readable)" by (cases batch)
  have rec: "keeps_given C (act_bind (update (\<lambda>st. st\<lparr>sv_recovery := fn_changed p (in_clock i 2) (sv_recovery st)\<rparr>)) (\<lambda>_.
      act_bind (deliver p) (\<lambda>_. act_return True)))" for p
    by (intro keeps_bind keeps_return keeps_update assms) (simp add: given_defs)
  show ?thesis
    unfolding turn_fn_def Some batch option.case prod.case
  proof (rule keeps_bind [OF wake_keeps], unfold keeps_given_iff, intro allI impI)
    fix st
    assume st: "given C st"
    obtain changed pressed where fn: "fn_read_changed events (None, sv_fn_pressed st) = (changed, pressed)"
      by (cases "fn_read_changed events (None, sv_fn_pressed st)")
    have "outcome_ok C (act_bind (update (\<lambda>st. st\<lparr>sv_recovery := fn_changed p (in_clock i 2) (sv_recovery st)\<rparr>)) (\<lambda>_.
      act_bind (deliver p) (\<lambda>_. act_return True)) (st\<lparr>sv_fn_pressed := pressed\<rparr>))" for p
      by (rule keeps_givenD [OF rec]) (simp add: st)
    then show "outcome_ok C (case fn_read_changed events (None, sv_fn_pressed st) of
              (changed, pressed) \<Rightarrow>
                let st1 = st\<lparr>sv_fn_pressed := pressed\<rparr> in
                if \<not> readable then (Inl ServiceIo, st1)
                else (case changed of
                    None \<Rightarrow> (Inr False, st1)
                  | Some p \<Rightarrow>
                      act_bind (update (\<lambda>st. st\<lparr>sv_recovery := fn_changed p (in_clock i 2) (sv_recovery st)\<rparr>)) (\<lambda>_.
                      act_bind (deliver p) (\<lambda>_. act_return True)) st1))"
      using st fn by (cases changed) (simp_all add: Let_def)
  qed
qed (simp add: turn_fn_def keeps_return)


section \<open>Keys\<close>

text \<open>The fallback bar and the keyboard: the keyboard holds no key that no finger holds, and the rest is \<open>D\<close>.\<close>

definition follows_fingers :: "(bool \<Rightarrow> service_scanout \<Rightarrow> bool) \<Rightarrow> 'f condition" where
  "follows_fingers D keyboard bar locked scanout \<longleftrightarrow> keyboard \<subseteq> held_keys bar \<and> D locked scanout"

lemma emit_transitions:
  assumes "keys_ok ok" and "keys_down held ts = Some held'"
    and "base st" and "sv_keyboard st \<subseteq> held"
  obtains st' where "emit_fallback_transitions ok ts st = (Inr (), st')" "base st'" "sv_keyboard st' \<subseteq> held'"
    "sv_bar st' = sv_bar st" "sv_recovery st' = sv_recovery st" "sv_scanout st' = sv_scanout st"
    "sv_fn_pressed st' = sv_fn_pressed st"
  using assms
proof (induction ts arbitrary: st held thesis)
  case Nil
  then show ?case by (simp add: emit_fallback_transitions_def act_return_def)
next
  case (Cons t ts)
  have ok: "ok n (WroteKey k v)" for n k v using Cons.prems(2) by (simp add: keys_ok_def)
  define held1 where "held1 = (if kt_phase t = Pressed then insert (kt_key t) held else held - {kt_key t})"
  have rest: "keys_down held1 ts = Some held'" "kt_phase t \<noteq> Repeat" "kt_phase t = Pressed \<longrightarrow> kt_key t \<notin> held"
    using Cons.prems(3) by (auto simp: held1_def split: key_phase.splits if_splits)
  obtain st1 where st1: "keyboard_emit ok (kt_key t) (kt_phase t) st = (Inr (), st1)" "base st1" "sv_keyboard st1 \<subseteq> held1"
    "sv_bar st1 = sv_bar st" "sv_recovery st1 = sv_recovery st" "sv_scanout st1 = sv_scanout st"
    "sv_fn_pressed st1 = sv_fn_pressed st"
  proof (cases "kt_phase t")
    case Pressed
    then have "kt_key t \<notin> sv_keyboard st" using rest(3) Cons.prems(5) by auto
    then show ?thesis using that Pressed Cons.prems(4,5) ok
      by (auto simp: keyboard_emit_def perform_def base_def scan_ok_def held1_def)
  next
    case Released
    show ?thesis
    proof (cases "kt_key t \<in> sv_keyboard st")
      case True
      then show ?thesis using that Released Cons.prems(4,5) ok
        by (auto simp: keyboard_emit_def perform_def base_def scan_ok_def held1_def)
    next
      case False
      then show ?thesis using that Released Cons.prems(4,5) by (auto simp: keyboard_emit_def held1_def)
    qed
  qed (use rest in simp)
  show ?case
  proof (rule Cons.IH [OF _ Cons.prems(2) rest(1) st1(2,3)])
    fix st'
    assume "emit_fallback_transitions ok ts st1 = (Inr (), st')" "base st'" "sv_keyboard st' \<subseteq> held'"
      "sv_bar st' = sv_bar st1" "sv_recovery st' = sv_recovery st1" "sv_scanout st' = sv_scanout st1"
      "sv_fn_pressed st' = sv_fn_pressed st1"
    then show thesis using st1 Cons.prems(1) [of st']
      by (simp add: emit_fallback_transitions_def act_bind_def)
  qed
qed

lemma fallback_given:
  fixes op :: "'f system_bar \<Rightarrow> (key_transition list \<times> 'f system_bar) option" and st :: "'f service"
  assumes "keys_ok ok" and "bar_inv (sv_bar st) \<Longrightarrow> tracks (sv_bar st) (op (sv_bar st))" and st: "given (follows_fingers D) st"
  obtains st' ts where "fallback ok op st = (Inr (), st')" "given (follows_fingers D) st'" "op (sv_bar st) = Some (ts, sv_bar st')"
    "sv_recovery st' = sv_recovery st" "sv_scanout st' = sv_scanout st"
proof -
  have "tracks (sv_bar st) (op (sv_bar st))" using assms(2) st by (simp add: given_defs)
  then obtain ts bar where op: "op (sv_bar st) = Some (ts, bar)" "bar_inv bar" "keys_down (held_keys (sv_bar st)) ts = Some (held_keys bar)"
    by (auto simp: tracks_def split: option.splits)
  have "base (st\<lparr>sv_bar := bar\<rparr>)" "sv_keyboard (st\<lparr>sv_bar := bar\<rparr>) \<subseteq> held_keys (sv_bar st)"
    using st op(2) by (simp_all add: given_defs follows_fingers_def)
  from emit_transitions [OF assms(1) op(3) this]
  obtain st' where "emit_fallback_transitions ok ts (st\<lparr>sv_bar := bar\<rparr>) = (Inr (), st')" "base st'"
    "sv_keyboard st' \<subseteq> held_keys bar" "sv_bar st' = bar" "sv_recovery st' = sv_recovery st" "sv_scanout st' = sv_scanout st"
    by auto
  then show thesis
    using op(1) st by (intro that [of st' ts]) (simp_all add: fallback_def given_def follows_fingers_def)
qed

lemma fallback_keeps:
  fixes op :: "'f system_bar \<Rightarrow> (key_transition list \<times> 'f system_bar) option"
  assumes "keys_ok ok" and "\<And>bar. bar_inv bar \<Longrightarrow> tracks bar (op bar)"
  shows "keeps_given (follows_fingers D) (fallback ok op)"
  unfolding keeps_given_iff
proof (intro allI impI)
  fix st :: "'f service"
  assume st: "given (follows_fingers D) st"
  obtain st' where "fallback ok op st = (Inr (), st')" "given (follows_fingers D) st'"
    by (rule fallback_given [OF assms(1) _ st, where op = op]) (rule assms(2))
  then show "outcome_ok (follows_fingers D) (fallback ok op st)" by simp
qed

lemma release_each:
  assumes "keys_ok ok"
  shows "\<exists>n. act_each (\<lambda>k. perform ok (WroteKey k 0)) ks st =
    (Inr (), st\<lparr>sv_calls := n, sv_effects := sv_effects st @ map (\<lambda>k. WroteKey k 0) ks\<rparr>)"
proof (induction ks arbitrary: st)
  case Nil
  then show ?case by (intro exI [of _ "sv_calls st"]) (simp add: act_return_def)
next
  case (Cons k ks)
  let ?st = "st\<lparr>sv_calls := sv_calls st + 1, sv_effects := sv_effects st @ [WroteKey k 0]\<rparr>"
  have "perform ok (WroteKey k 0) st = (Inr (), ?st)" using assms by (simp add: perform_def keys_ok_def)
  then show ?case using Cons.IH [of ?st] by (auto simp: act_bind_def)
qed

lemma kernel_keys_release: "kernel_keys (es @ map (\<lambda>k. WroteKey k 0) ks) = kernel_keys es - set ks"
proof (induction ks rule: rev_induct)
  case (snoc k ks)
  then show ?case using kernel_keys_snoc [of "es @ map (\<lambda>k. WroteKey k 0) ks" "WroteKey k 0"] by auto
qed simp

lemma writes_frame:
  "panel (es @ map (\<lambda>k. WroteKey k 0) ks) = panel es"
  "buffers_safe None (es @ map (\<lambda>k. WroteKey k 0) ks) = buffers_safe None es"
proof (induction ks rule: rev_induct)
  case (snoc k ks)
  case 1
  show ?case using snoc(1) panel_snoc [of "es @ map (\<lambda>k. WroteKey k 0) ks" "WroteKey k 0"] by simp
next
  case (snoc k ks)
  case 2
  show ?case using snoc(2) buffers_safe_snoc [of "es @ map (\<lambda>k. WroteKey k 0) ks" "WroteKey k 0"] by simp
qed simp_all

text \<open>Releasing all keys succeeds and leaves none.\<close>

definition no_keys :: "'f condition \<Rightarrow> 'f condition" where
  "no_keys C keyboard bar locked scanout \<longleftrightarrow> keyboard = {} \<and> (\<exists>k. C k bar locked scanout)"

lemma release_all_given:
  assumes "keys_ok ok" and "given C st"
  obtains st' where "release_all ok st = (Inr (), st')" "given (no_keys C) st'"
    "sv_recovery st' = sv_recovery st" "sv_bar st' = sv_bar st" "sv_scanout st' = sv_scanout st"
proof -
  obtain n where "release_all ok st = (Inr (), st\<lparr>sv_keyboard := {}, sv_calls := n,
      sv_effects := sv_effects st @ map (\<lambda>k. WroteKey k 0) (sorted_list_of_set (sv_keyboard st))\<rparr>)"
    using release_each [OF assms(1), of "sorted_list_of_set (sv_keyboard st)" "st\<lparr>sv_keyboard := {}\<rparr>"]
    by (auto simp: release_all_def)
  then show ?thesis
    using assms(2) that by (auto simp: given_defs no_keys_def kernel_keys_release writes_frame)
qed


section \<open>Taking the panel back\<close>

definition panel_ok :: "(nat \<Rightarrow> effect \<Rightarrow> bool) \<Rightarrow> bool" where
  "panel_ok ok \<longleftrightarrow> (\<forall>n. ok n Rendered \<and> ok n (Flipped None))"

text \<open>The service at rest shows the fallback, and the keyboard holds no key without a finger; a lent panel has no finger
  on the fallback.\<close>

abbreviation at_rest :: "'f condition" where
  "at_rest \<equiv> follows_fingers (\<lambda>_ s. s = ScanFallback)"

definition lent :: "bool \<Rightarrow> 'f condition" where
  "lent unlocked keyboard bar locked scanout \<longleftrightarrow> held_keys bar = {} \<and> (unlocked \<longrightarrow> \<not> locked)"

lemma release_follows:
  assumes "keys_ok ok" "given (follows_fingers D) st"
  shows "outcome_ok (follows_fingers D) (release_all ok st)"
  using release_all_given [OF assms]
  by (metis (mono_tags, lifting) empty_subsetI follows_fingers_def given_def no_keys_def outcome_ok_done(1))

lemma given_mono: "given C st \<Longrightarrow> (\<And>k b l s. C k b l s \<Longrightarrow> C' k b l s) \<Longrightarrow> given C' st"
  by (simp add: given_def)

lemma show_fallback_given:
  fixes st :: "'f service"
  assumes ok: "keys_ok ok" "panel_ok ok" and st: "given (follows_fingers (\<lambda>_ _. True)) st"
  obtains st' where "show_fallback ok st = (Inr (), st')" "given at_rest st'"
proof -
  obtain st1 where st1: "fallback ok (\<lambda>bar. Some (bar_cancel_all bar)) st = (Inr (), st1)" "given (follows_fingers (\<lambda>_ _. True)) st1"
    by (rule fallback_given [OF ok(1) _ st, where op = "\<lambda>bar. Some (bar_cancel_all bar)"]) (rule cancel_tracks(1))
  obtain st2 where st2: "fallback ok (\<lambda>bar. Some (set_fn_pressed (sv_fn_pressed st) bar)) st1 = (Inr (), st2)"
      "given (follows_fingers (\<lambda>_ _. True)) st2"
    by (rule fallback_given [OF ok(1) _ st1(2), where op = "\<lambda>bar. Some (set_fn_pressed (sv_fn_pressed st) bar)"])
      (simp add: set_fn_pressed_def fn_tracks)
  obtain st3 where st3: "release_all ok st2 = (Inr (), st3)" "given (no_keys (follows_fingers (\<lambda>_ _. True))) st3"
    by (rule release_all_given [OF ok(1) st2(2)])
  let ?st4 = "st3\<lparr>sv_calls := sv_calls st3 + 1, sv_effects := sv_effects st3 @ [Rendered]\<rparr>"
  have st4: "refresh_fallback ok st3 = (Inr (), ?st4)" "given (no_keys (follows_fingers (\<lambda>_ _. True))) ?st4"
    using ok(2) st3(2) by (simp_all add: refresh_fallback_def perform_def panel_ok_def given_defs)
  define st5 where "st5 = (if sv_scanout ?st4 \<noteq> ScanFallback
    then ?st4\<lparr>sv_calls := sv_calls ?st4 + 1, sv_effects := sv_effects ?st4 @ [Flipped None]\<rparr> else ?st4)"
  have "show_fallback ok st = (Inr (), st5\<lparr>sv_scanout := ScanFallback\<rparr>)"
    unfolding show_fallback_def act_bind_def update_def
    using st1(1) st2(1) st3(1) st4(1) ok(2) by (simp add: st5_def perform_def panel_ok_def)
  moreover have "given at_rest (st5\<lparr>sv_scanout := ScanFallback\<rparr>)"
    using st4(2) by (simp add: st5_def given_defs follows_fingers_def no_keys_def effects_append)
  ultimately show thesis by (rule that)
qed

lemma run_session_end_given:
  assumes ok: "keys_ok ok" "panel_ok ok" and st: "given C st" and r: "r \<noteq> Inl Panicked"
  obtains st' where "run_session_end ok r st = (r, st')" "given (if device_lost r then no_keys C else at_rest) st'"
proof -
  obtain st1 where st1: "release_all ok st = (Inr (), st1)" "given (no_keys C) st1"
    by (rule release_all_given [OF ok(1) st])
  show thesis
  proof (cases "device_lost r")
    case True
    then show thesis using st1 by (intro that [of st1]) (simp_all add: run_session_end_def)
  next
    case False
    have "given (follows_fingers (\<lambda>_ _. True)) st1"
      by (rule given_mono [OF st1(2)]) (simp add: no_keys_def follows_fingers_def)
    then obtain st2 where "show_fallback ok st1 = (Inr (), st2)" "given at_rest st2"
      by (rule show_fallback_given [OF ok])
    then show thesis using st1 False by (intro that [of st2]) (simp_all add: run_session_end_def)
  qed
qed

text \<open>What every state of the service satisfies.\<close>

definition service_ok :: "service_mode \<times> 'f service \<Rightarrow> bool" where
  "service_ok ms \<longleftrightarrow>
     (case fst ms of
        ModeWaiting \<Rightarrow> given at_rest (snd ms)
      | ModeSession _ \<Rightarrow> given (lent True) (snd ms)
      | ModeStopped \<Rightarrow> given (no_keys at_rest) (snd ms)
      | ModeFailed e \<Rightarrow> e \<noteq> Panicked \<and> base (snd ms))"

lemma stop_service_ok:
  fixes st :: "'f service"
  assumes ok: "keys_ok ok" and st: "given at_rest st"
  shows "service_ok (stop_service ok st)"
proof -
  obtain st1 where st1: "fallback ok (\<lambda>bar. Some (bar_cancel_all bar)) st = (Inr (), st1)" "given at_rest st1"
    by (rule fallback_given [OF ok _ st, where op = "\<lambda>bar. Some (bar_cancel_all bar)"]) (rule cancel_tracks(1))
  obtain st2 where st2: "release_all ok st1 = (Inr (), st2)" "given (no_keys at_rest) st2"
    by (rule release_all_given [OF ok st1(2)])
  have "outcome_ok (no_keys at_rest) (backlight_set ok (bl_idle_value (sv_backlight st2)) st2)"
    by (rule keeps_givenD [OF backlight_set_keeps st2(2)])
  then show ?thesis
    using st1(1) st2(1)
    by (auto simp: stop_service_def prepare_shutdown_def act_bind_def service_ok_def outcome_ok_def given_def
        split: prod.splits sum.splits)
qed

lemma session_over_ok:
  assumes ok: "keys_ok ok" "panel_ok ok" and st: "given C st" and r: "r \<noteq> Inl Panicked"
  shows "service_ok (session_over ok r st)"
proof -
  obtain st' where st': "run_session_end ok r st = (r, st')" "given (if device_lost r then no_keys C else at_rest) st'"
    by (rule run_session_end_given [OF ok st r])
  show ?thesis
  proof (cases r)
    case (Inl e)
    then show ?thesis using st' r by (cases e) (auto simp: session_over_def service_ok_def given_def)
  next
    case (Inr b)
    then show ?thesis using st' stop_service_ok [OF ok(1)] by (cases b) (auto simp: session_over_def service_ok_def)
  qed
qed


section \<open>Every turn keeps the invariant\<close>

lemma poll_recovery_rest:
  fixes st :: "'f service"
  assumes ok: "keys_ok ok" and st: "given at_rest st"
  shows "outcome_ok at_rest (poll_recovery_gesture ok now st)"
proof -
  obtain a g where poll: "gesture_poll now (sv_recovery st) = (a, g)" by (cases "gesture_poll now (sv_recovery st)")
  have st1: "given at_rest (st\<lparr>sv_recovery := g\<rparr>)" using st by (simp add: given_defs follows_fingers_def)
  show ?thesis
  proof (cases a)
    case (Some action)
    obtain st2 where "release_all ok (st\<lparr>sv_recovery := g\<rparr>) = (Inr (), st2)" "given (no_keys at_rest) st2"
      by (rule release_all_given [OF ok st1])
    then show ?thesis
      using poll Some
      by (auto simp: poll_recovery_gesture_def act_bind_def act_return_def given_def no_keys_def follows_fingers_def)
  qed (use poll st1 in \<open>simp add: poll_recovery_gesture_def\<close>)
qed

lemma accept_session_ok:
  fixes st :: "'f service"
  assumes ok: "keys_ok ok" "panel_ok ok" and st: "given at_rest st"
  shows "case accept_session ok peer active st of
      (Inl e, st') \<Rightarrow> e \<noteq> Panicked \<and> base st'
    | (Inr outcome, st') \<Rightarrow>
        outcome = KeepWaiting \<and> given at_rest st'
        \<or> outcome = SessionAccepted \<and> given (lent True) st' \<and> (\<exists>uid. peer = Some uid \<and> active = Some uid)"
proof (cases "sessions_allowed (sv_recovery st) \<and> (\<exists>uid. peer = Some uid \<and> active = Some uid)")
  case True
  then obtain uid where uid: "peer = Some uid" "active = Some uid" by blast
  let ?op = "\<lambda>bar :: 'f system_bar. Some (bar_cancel_all bar)"
  obtain st1 ts where st1: "fallback ok ?op st = (Inr (), st1)" "given at_rest st1"
    "Some (bar_cancel_all (sv_bar st)) = Some (ts, sv_bar st1)" "sv_recovery st1 = sv_recovery st"
    by (rule fallback_given [OF ok(1) _ st, where op = ?op]) (rule cancel_tracks(1))
  have bar: "held_keys (sv_bar st1) = {}"
    using cancel_tracks(2) [of "sv_bar st"] st st1(3) by (auto simp: given_defs)
  obtain st2 where st2: "release_all ok st1 = (Inr (), st2)" "given (no_keys at_rest) st2"
    "sv_recovery st2 = sv_recovery st1" "sv_bar st2 = sv_bar st1"
    by (rule release_all_given [OF ok(1) st1(2)])
  let ?st3 = "st2\<lparr>sv_calls := sv_calls st2 + 1, sv_effects := sv_effects st2 @ [Rendered]\<rparr>"
  have "accept_session ok peer active st = (Inr SessionAccepted, ?st3)"
    using True uid st1(1) st2(1) ok(2)
    by (simp add: accept_session_def act_bind_def act_return_def refresh_fallback_def perform_def panel_ok_def)
  moreover have "given (lent True) ?st3"
    using st2 bar st1(4) True by (simp add: given_defs lent_def sessions_allowed_def)
  ultimately show ?thesis using uid by simp
next
  case False
  then show ?thesis using st by (auto simp: accept_session_def given_def split: option.splits)
qed

lemma triple_at: "triple P a Q E \<Longrightarrow> P st \<Longrightarrow> (case a st of (Inr r, st') \<Rightarrow> Q r st' | (Inl e, st') \<Rightarrow> e \<noteq> Panicked \<and> E st')"
  by (simp add: triple_def)

lemma keeps_to: "keeps_given C a \<Longrightarrow> triple (given C) a (\<lambda>_. given C) base"
  by (erule triple_weaken) (simp_all add: given_def)

lemma wait_turn_ok:
  fixes fl :: "('f::{ord, plus, minus, times, divide, zero, one}) bar_ops"
  assumes ok: "keys_ok ok" "panel_ok ok"
  shows "triple (given at_rest) (wait_turn ok fd fl wi)
    (\<lambda>outcome st'. if outcome = SessionAccepted
       then given (lent True) st' \<and> (\<exists>uid. wi_accept wi = Ready (Some uid, Some uid)) else given at_rest st') base"
    (is "triple _ _ ?Q _")
proof -
  let ?i = "wi_turn wi"
  have accept: "triple (given at_rest) (case wi_accept wi of
      NotReady \<Rightarrow> act_return KeepWaiting | ReadFailed \<Rightarrow> (\<lambda>st. (Inl ServiceIo, st))
    | Ready (peer, active) \<Rightarrow> accept_session ok peer active) ?Q base"
  proof (cases "wi_accept wi")
    case (Ready pa)
    obtain peer active where pa: "pa = (peer, active)" by (cases pa)
    have "triple (given at_rest) (accept_session ok peer active) ?Q base"
      unfolding triple_def
    proof (intro allI impI)
      fix st :: "'f service"
      assume "given at_rest st"
      from accept_session_ok [OF ok this, of peer active]
      show "case accept_session ok peer active st of (Inr r, st') \<Rightarrow> ?Q r st' | (Inl e, st') \<Rightarrow> e \<noteq> Panicked \<and> base st'"
        using Ready pa by (auto split: prod.splits sum.splits)
    qed
    then show ?thesis using Ready pa by simp
  qed (auto intro!: triple_return triple_error simp: given_def)
  have refresh: "keeps_given at_rest (if b then refresh_fallback ok else act_return ())" for b
    by (simp add: refresh_fallback_def perform_quiet keeps_return)
  have poll: "keeps_given at_rest (poll_recovery_gesture ok now)" for now
    by (simp add: keeps_given_iff poll_recovery_rest ok(1))
  have touch: "keeps_given at_rest (fallback ok (bar_handle_touch fl e))" for e
    by (rule fallback_keeps [OF ok(1)]) (rule touch_tracks)
  have fn: "keeps_given at_rest (fallback ok (\<lambda>bar. Some (set_fn_pressed p bar)))" for p
    by (rule fallback_keeps [OF ok(1)]) (simp add: set_fn_pressed_def fn_tracks)
  show ?thesis
    unfolding wait_turn_def Let_def
    by (intro triple_if triple_return triple_error triple_bind [OF keeps_to [OF turn_begin_keeps]]
        triple_bind [OF keeps_to [OF turn_touches_keeps [OF touch]]] triple_bind [OF keeps_to [OF turn_fn_keeps [OF fn]]]
        triple_bind [OF keeps_to [OF turn_seat_keeps]] triple_bind [OF keeps_to [OF poll]]
        triple_bind [OF keeps_to [OF refresh]] triple_bind [OF keeps_to [OF update_idle_keeps]] accept)
      (simp_all add: given_def)
qed


lemma poll_recovery_lent:
  assumes ok: "keys_ok ok"
  shows "triple (given (lent True)) (poll_recovery_gesture ok now)
    (\<lambda>action st'. given (lent (action \<noteq> Some EnterFallback)) st') base"
  unfolding triple_def
proof (intro allI impI)
  fix st :: "'f service"
  assume st: "given (lent True) st"
  then have unlocked: "\<not> fallback_locked (sv_recovery st)" by (simp add: given_def lent_def)
  obtain a g where poll: "gesture_poll now (sv_recovery st) = (a, g)" by (cases "gesture_poll now (sv_recovery st)")
  have cases: "a = None \<and> g = sv_recovery st \<or> a = Some EnterFallback"
    using poll unlocked gesture_poll_cases [of now "sv_recovery st"] by (cases a) (auto simp: gesture_poll_def split: option.splits if_splits)
  have st1: "given (lent False) (st\<lparr>sv_recovery := g\<rparr>)" using st by (simp add: given_defs lent_def)
  show "case poll_recovery_gesture ok now st of
      (Inr action, st') \<Rightarrow> given (lent (action \<noteq> Some EnterFallback)) st' | (Inl e, st') \<Rightarrow> e \<noteq> Panicked \<and> base st'"
  proof (cases a)
    case None
    then show ?thesis using poll cases st by (simp add: poll_recovery_gesture_def)
  next
    case (Some action)
    obtain st2 where "release_all ok (st\<lparr>sv_recovery := g\<rparr>) = (Inr (), st2)" "given (no_keys (lent False)) st2"
      by (rule release_all_given [OF ok st1])
    then show ?thesis
      using poll Some cases
      by (simp add: poll_recovery_gesture_def act_bind_def act_return_def given_def no_keys_def lent_def)
  qed
qed

lemma keyboard_emit_lent:
  assumes "keys_ok ok"
  shows "keeps_given (lent u) (keyboard_emit ok key ph)"
  using assms
  by (cases ph) (auto simp: keeps_given_iff keyboard_emit_def perform_def keys_ok_def given_defs lent_def)

text \<open>A frame: the new buffer goes on the panel before the old one is returned.\<close>

definition may_show :: "nat \<Rightarrow> 'f condition" where
  "may_show index k bar locked scanout \<longleftrightarrow> lent True k bar locked scanout \<and> (\<forall>q. scanout \<noteq> ScanSession index q)"

lemma flip_frame:
  assumes index: "index < 3"
  shows "triple (given (may_show index))
    (act_bind (perform ok (Flipped (Some index))) (\<lambda>_.
     act_bind (release_retired ok) (\<lambda>_.
     act_bind (update (\<lambda>st. st\<lparr>sv_scanout := ScanSession index sequence\<rparr>)) (\<lambda>_. act_return r))))
    (\<lambda>r' st'. given (lent True) st' \<and> r' = r) base"
  unfolding triple_def
proof (intro allI impI)
  fix st :: "'f service"
  assume st: "given (may_show index) st"
  show "case act_bind (perform ok (Flipped (Some index))) (\<lambda>_. act_bind (release_retired ok) (\<lambda>_.
     act_bind (update (\<lambda>st. st\<lparr>sv_scanout := ScanSession index sequence\<rparr>)) (\<lambda>_. act_return r))) st of
      (Inr r', st') \<Rightarrow> given (lent True) st' \<and> r' = r | (Inl e, st') \<Rightarrow> e \<noteq> Panicked \<and> base st'"
  proof (cases "sv_scanout st")
    case ScanFallback
    then show ?thesis using st index
      by (simp add: act_bind_def perform_def release_retired_def update_def act_return_def given_defs may_show_def lent_def)
  next
    case (ScanSession old q)
    then have old: "old < 3" "old \<noteq> index" using st by (auto simp: given_defs may_show_def)
    then have "unat (of_nat old :: 16 word) = old" by (simp add: unat_of_nat)
    then show ?thesis using st index ScanSession old
      by (simp add: act_bind_def perform_def release_retired_def update_def act_return_def given_defs may_show_def lent_def
          effects_append)
  qed
qed

lemma submit_frame_ok:
  "triple (given (lent True)) (submit_frame ok now index sequence locals)
    (\<lambda>outcome st'. given (lent True) st' \<and> (\<exists>l. outcome = KeepSession l)) base"
  unfolding triple_def
proof (intro allI impI)
  fix st :: "'f service"
  assume st: "given (lent True) st"
  let ?frame = "act_bind (if sl_display_started locals then act_return False else wake ok now) (\<lambda>_.
        act_bind (perform ok (MarkedDirty index)) (\<lambda>_.
        act_bind (perform ok (Flipped (Some index))) (\<lambda>_.
        act_bind (release_retired ok) (\<lambda>_.
        act_bind (update (\<lambda>st. st\<lparr>sv_scanout := ScanSession index sequence\<rparr>)) (\<lambda>_.
          act_return (KeepSession \<lparr>sl_last_sequence = sequence, sl_display_started = True\<rparr>))))))"
  show "case submit_frame ok now index sequence locals st of
      (Inr r, st') \<Rightarrow> given (lent True) st' \<and> (\<exists>l. r = KeepSession l) | (Inl e, st') \<Rightarrow> e \<noteq> Panicked \<and> base st'"
  proof (cases "index < sv_framebuffers st \<and> (\<forall>q. sv_scanout st \<noteq> ScanSession index q) \<and> \<not> sequence \<le> sl_last_sequence locals")
    case True
    then have eq: "submit_frame ok now index sequence locals st = ?frame st"
      by (cases "sv_scanout st") (auto simp: submit_frame_def)
    have index: "index < 3" using True st by (simp add: given_defs)
    have start: "keeps_given (may_show index) (if sl_display_started locals then act_return False else wake ok now)"
      by (simp add: keeps_return wake_keeps)
    have dirty: "keeps_given (may_show index) (perform ok (MarkedDirty index))" by (simp add: perform_quiet)
    have frame: "triple (given (may_show index)) ?frame (\<lambda>outcome st'. given (lent True) st'
        \<and> outcome = KeepSession \<lparr>sl_last_sequence = sequence, sl_display_started = True\<rparr>) base"
      by (intro triple_bind [OF keeps_to [OF start]] triple_bind [OF keeps_to [OF dirty]] flip_frame [OF index])
    have "given (may_show index) st" using st True by (simp add: given_def may_show_def)
    from triple_at [OF frame this] show ?thesis unfolding eq by (cases "?frame st") (auto split: sum.splits)
  next
    case False
    then show ?thesis using st
      by (cases "sv_scanout st") (auto simp: submit_frame_def given_def)
  qed
qed

lemma session_turn_ok:
  fixes si :: session_input
  assumes ok: "keys_ok ok"
  shows "triple (given (lent True)) (session_turn ok fd si locals)
    (\<lambda>outcome st'. case outcome of KeepSession _ \<Rightarrow> given (lent True) st' | EndSession _ \<Rightarrow> base st') base"
    (is "triple _ _ ?Q _")
proof -
  have key: "triple (given (lent True)) (act_bind (keyboard_emit ok k ph) (\<lambda>_. act_return (KeepSession locals))) ?Q base" for k ph
    by (intro triple_bind [OF keeps_to [OF keyboard_emit_lent [OF ok]]] triple_return) simp
  have frame: "triple (given (lent True)) (submit_frame ok now index sequence locals) ?Q base" for now index sequence
    by (rule triple_weaken [OF submit_frame_ok]) auto
  have message: "triple (given (lent True)) (session_message_turn ok si locals) ?Q base"
    unfolding session_message_turn_def
    by (auto intro!: triple_return triple_error key frame simp: given_def split: answer.split session_message.split)
  have touch: "keeps_given (lent True) (perform ok (Sent (Touch e)))" for e by (simp add: perform_quiet)
  have fn: "keeps_given (lent True) (perform ok (Sent (hardware_message.FnChanged p)))" for p by (simp add: perform_quiet)
  have rest: "triple (given (lent (action \<noteq> Some EnterFallback)))
      (if action = Some EnterFallback then act_return (EndSession True)
       else act_bind (update_idle_backlight ok t) (\<lambda>_. session_message_turn ok si locals)) ?Q base" for action t
    using triple_bind [OF keeps_to [OF update_idle_keeps] message]
    by (auto intro!: triple_return simp: given_def)
  show ?thesis
    unfolding session_turn_def Let_def
    by (intro triple_if triple_return triple_error triple_bind [OF keeps_to [OF turn_begin_keeps]]
        triple_bind [OF keeps_to [OF turn_touches_keeps [OF touch]]] triple_bind [OF keeps_to [OF turn_fn_keeps [OF fn]]]
        triple_bind [OF keeps_to [OF turn_seat_keeps]] triple_bind [OF poll_recovery_lent [OF ok]] rest)
      (simp_all add: given_def)
qed


lemma base_given: "base st \<longleftrightarrow> given (\<lambda>_ _ _ _. True) st"
  by (simp add: given_def)

lemma session_start_lent: "triple (given (lent True :: 'f condition)) (session_start ok) (\<lambda>_. given (lent True)) base"
proof -
  have "keeps_given (lent True :: 'f condition) (act_bind (perform ok SentSwapchain) (\<lambda>_. act_bind (perform ok (Sent (hardware_message.FnChanged p)))
      (\<lambda>_. act_return (\<lparr>sl_last_sequence = 0, sl_display_started = False\<rparr> :: session_locals))))" for p
    by (intro keeps_bind perform_quiet keeps_return) simp_all
  from keeps_to [OF this] show ?thesis by (simp add: triple_def session_start_def)
qed

lemma service_turn_ok:
  fixes fl :: "('f::{ord, plus, minus, times, divide, zero, one}) bar_ops"
  assumes ok: "keys_ok ok" "panel_ok ok" and st: "service_ok (mode, st)"
  shows "service_ok (service_turn ok fd fl input (mode, st))"
proof (cases mode)
  case ModeWaiting
  show ?thesis
  proof (cases input)
    case (WaitTurn wi)
    have rest: "given at_rest st" using st ModeWaiting by (simp add: service_ok_def)
    obtain r st' where turn: "wait_turn ok fd fl wi st = (r, st')" by (cases "wait_turn ok fd fl wi st")
    note after = triple_at [OF wait_turn_ok [OF ok, where fd = fd and fl = fl and wi = wi] rest, unfolded turn prod.case]
    show ?thesis
    proof (cases r)
      case (Inl e)
      then show ?thesis using after WaitTurn ModeWaiting turn by (simp add: service_ok_def)
    next
      case (Inr outcome)
      show ?thesis
      proof (cases outcome)
        case SessionAccepted
        then have lent: "given (lent True) st'" using after Inr by simp
        obtain r2 st2 where start: "session_start ok st' = (r2, st2)" by (cases "session_start ok st'")
        note began = triple_at [OF session_start_lent [where ok = ok] lent, unfolded start prod.case]
        show ?thesis
        proof (cases r2)
          case failed: (Inl e)
          then have "service_ok (session_over ok (Inl e) st2)"
            using began session_over_ok [OF ok, of "\<lambda>_ _ _ _. True" st2 "Inl e"] by (simp add: base_given)
          then show ?thesis using failed Inr SessionAccepted WaitTurn ModeWaiting turn start by simp
        next
          case (Inr locals)
          then show ?thesis
            using began \<open>r = Inr outcome\<close> SessionAccepted WaitTurn ModeWaiting turn start by (simp add: service_ok_def)
        qed
      next
        case StopService
        then have "given at_rest st'" using after Inr by simp
        then show ?thesis using stop_service_ok [OF ok(1)] Inr StopService WaitTurn ModeWaiting turn by simp
      next
        case KeepWaiting
        then show ?thesis using after Inr WaitTurn ModeWaiting turn by (simp add: service_ok_def)
      qed
    qed
  qed (use st ModeWaiting in simp)
next
  case (ModeSession locals)
  show ?thesis
  proof (cases input)
    case (SessionTurn si)
    have lent: "given (lent True) st" using st ModeSession by (simp add: service_ok_def)
    obtain r st' where turn: "session_turn ok fd si locals st = (r, st')" by (cases "session_turn ok fd si locals st")
    note after = triple_at [OF session_turn_ok [OF ok(1), where fd = fd and si = si and locals = locals] lent, unfolded turn prod.case]
    have over: "service_ok (session_over ok r' st')" if "base st'" "r' \<noteq> Inl Panicked" for r'
      using that session_over_ok [OF ok, of "\<lambda>_ _ _ _. True" st' r'] by (simp add: base_given)
    show ?thesis
    proof (cases r)
      case (Inl e)
      then show ?thesis using after over SessionTurn ModeSession turn by simp
    next
      case (Inr outcome)
      then show ?thesis using after over SessionTurn ModeSession turn by (cases outcome) (simp_all add: service_ok_def)
    qed
  qed (use st ModeSession in simp)
qed (use st in \<open>cases input; simp\<close>)+

lemma fold_service_ok:
  fixes ms :: "service_mode \<times> ('f::{ord, plus, minus, times, divide, zero, one}) service"
  assumes "keys_ok ok" "panel_ok ok"
  shows "service_ok ms \<Longrightarrow> service_ok (fold (service_turn ok fd fl) inputs ms)"
proof (induction inputs arbitrary: ms)
  case (Cons i inputs)
  show ?case using Cons.IH [of "service_turn ok fd fl i ms"] service_turn_ok [OF assms, of "fst ms" "snd ms" fd fl i] Cons.prems by simp
qed simp

lemma service_open_ok:
  assumes "touch_ok ti"
  shows "service_ok (ModeWaiting, service_open fl ti pressed bl width height now)"
proof -
  let ?bar = "system_bar_new fl Media width height"
  have "tracks ?bar (Some (set_fn_pressed pressed ?bar))"
    unfolding set_fn_pressed_def by (rule fn_tracks) (rule bar_new_inv)
  then have "bar_inv (snd (set_fn_pressed pressed ?bar))"
    by (cases "set_fn_pressed pressed ?bar") (simp add: tracks_def)
  then show ?thesis
    using assms
    by (simp add: service_ok_def service_open_def given_defs follows_fingers_def kernel_keys_def panel_def)
qed

end
