(* ===== verification/Session_Output.thy ===== *)
theory Session_Output
  imports Hardware_Service
begin

text \<open>
  The session's side of the swapchain (\<^verbatim>\<open>DirectOutput\<close> in \<^verbatim>\<open>touchbar-sessiond/src/main.rs\<close>), the commit budget of
  a client and the Fn gesture of the session, each with what it promises. How the output and the hardware service
  fit together is the subject of \<^verbatim>\<open>Swapchain\<close>. Instants are nanoseconds.
\<close>

section \<open>Direct output\<close>

datatype output_error =
    OutputOutOfRange
  | OutputStillInFlight nat
  | OutputSendFailed
  | OutputStreamFailed
  | OutputDisconnected
  | OutputStaleRelease nat

record direct_output =
  do_available :: "nat list"
  do_in_flight :: "64 word option list"
  do_pending_touch :: "touch_event list"
  do_pending_fn :: "bool option"
  do_next_sequence :: "64 word"

definition direct_output_new :: "nat \<Rightarrow> direct_output" where
  "direct_output_new n =
     \<lparr>do_available = [0..<n], do_in_flight = replicate n None, do_pending_touch = [], do_pending_fn = None,
      do_next_sequence = 1\<rparr>"

definition direct_release ::
  "nat \<Rightarrow> 64 word \<Rightarrow> direct_output \<Rightarrow> (output_error, unit) result \<times> direct_output" where
  "direct_release index sequence d =
     (if index \<ge> length (do_in_flight d) then (Inl OutputOutOfRange, d)
      else if do_in_flight d ! index \<noteq> Some sequence then (Inl (OutputStaleRelease index), d)
      else (Inr (), d\<lparr>do_in_flight := (do_in_flight d)[index := None], do_available := do_available d @ [index]\<rparr>))"

text \<open>What the reader thread has passed on: messages, a failed read, and whether the thread is gone.\<close>

fun poll_releases ::
  "hardware_message option list \<Rightarrow> bool \<Rightarrow> direct_output \<Rightarrow> (output_error, unit) result \<times> direct_output" where
  "poll_releases [] gone d = (if gone then Inl OutputDisconnected else Inr (), d)"
| "poll_releases (None # ms) gone d = (Inl OutputStreamFailed, d)"
| "poll_releases (Some (Touch t) # ms) gone d =
     poll_releases ms gone (d\<lparr>do_pending_touch := do_pending_touch d @ [t]\<rparr>)"
| "poll_releases (Some (hardware_message.FnChanged p) # ms) gone d = poll_releases ms gone (d\<lparr>do_pending_fn := Some p\<rparr>)"
| "poll_releases (Some (BufferReleased index sequence) # ms) gone d =
     (case direct_release (unat index) sequence d of
        (Inl e, d') \<Rightarrow> (Inl e, d')
      | (Inr _, d') \<Rightarrow> poll_releases ms gone d')"

definition direct_acquire ::
  "hardware_message option list \<Rightarrow> bool \<Rightarrow> direct_output \<Rightarrow> (output_error, nat option) result \<times> direct_output" where
  "direct_acquire ms gone d =
     (case poll_releases ms gone d of
        (Inl e, d') \<Rightarrow> (Inl e, d')
      | (Inr _, d') \<Rightarrow>
          (case do_available d' of
             [] \<Rightarrow> (Inr None, d')
           | i # rest \<Rightarrow> (Inr (Some i), d'\<lparr>do_available := rest\<rparr>)))"

definition direct_submit ::
  "bool \<Rightarrow> nat \<Rightarrow> direct_output \<Rightarrow> (output_error, 64 word) result \<times> direct_output" where
  "direct_submit sent index d =
     (if index \<ge> length (do_in_flight d) then (Inl OutputOutOfRange, d)
      else if do_in_flight d ! index \<noteq> None then (Inl (OutputStillInFlight index), d)
      else
        let sequence = do_next_sequence d;
            d1 = d\<lparr>do_next_sequence := max (sequence + 1) 1\<rparr> in
        if \<not> sent then (Inl OutputSendFailed, d1)
        else (Inr sequence, d1\<lparr>do_in_flight := (do_in_flight d)[index := Some sequence]\<rparr>))"

definition drain_touch ::
  "hardware_message option list \<Rightarrow> bool \<Rightarrow> direct_output \<Rightarrow> (output_error, touch_event list) result \<times> direct_output" where
  "drain_touch ms gone d =
     (case poll_releases ms gone d of
        (Inl e, d') \<Rightarrow> (Inl e, d')
      | (Inr _, d') \<Rightarrow> (Inr (do_pending_touch d'), d'\<lparr>do_pending_touch := []\<rparr>))"

definition take_fn_changed ::
  "hardware_message option list \<Rightarrow> bool \<Rightarrow> direct_output \<Rightarrow> (output_error, bool option) result \<times> direct_output" where
  "take_fn_changed ms gone d =
     (case poll_releases ms gone d of
        (Inl e, d') \<Rightarrow> (Inl e, d')
      | (Inr _, d') \<Rightarrow> (Inr (do_pending_fn d'), d'\<lparr>do_pending_fn := None\<rparr>))"

section \<open>Commit budget\<close>

definition CLIENT_COMMIT_RATE :: nat where "CLIENT_COMMIT_RATE = 120"
definition CLIENT_COMMIT_BURST :: nat where "CLIENT_COMMIT_BURST = 8"
definition CLIENT_COMMIT_REJECT_LIMIT :: nat where "CLIENT_COMMIT_REJECT_LIMIT = 256"
definition CLIENT_COMMIT_REJECT_WINDOW :: nat where "CLIENT_COMMIT_REJECT_WINDOW = 1000000000"
definition TOKEN :: nat where "TOKEN = 1000000000"

datatype commit_admission = Accept | Drop | Disconnect

record commit_budget =
  cb_credit :: nat
  cb_last_refill :: nat
  cb_rejected_since :: nat
  cb_rejected :: nat

definition commit_budget_new :: "nat \<Rightarrow> commit_budget" where
  "commit_budget_new now =
     \<lparr>cb_credit = CLIENT_COMMIT_BURST * TOKEN, cb_last_refill = now, cb_rejected_since = now, cb_rejected = 0\<rparr>"

definition saturating_u128 :: "nat \<Rightarrow> nat" where
  "saturating_u128 n = min n (2 ^ 128 - 1)"

definition commit_admit :: "nat \<Rightarrow> commit_budget \<Rightarrow> commit_admission \<times> commit_budget" where
  "commit_admit now b =
     (let elapsed = now - cb_last_refill b;
          credit = min (saturating_u128 (cb_credit b + saturating_u128 (elapsed * CLIENT_COMMIT_RATE)))
                       (CLIENT_COMMIT_BURST * TOKEN);
          b1 = b\<lparr>cb_credit := credit, cb_last_refill := now\<rparr> in
      if credit \<ge> TOKEN then (Accept, b1\<lparr>cb_credit := credit - TOKEN\<rparr>)
      else
        let b2 = (if now - cb_rejected_since b1 \<ge> CLIENT_COMMIT_REJECT_WINDOW
                  then b1\<lparr>cb_rejected_since := now, cb_rejected := 0\<rparr> else b1);
            b3 = b2\<lparr>cb_rejected := min (cb_rejected b2 + 1) (2 ^ 32 - 1)\<rparr> in
        (if cb_rejected b3 \<ge> CLIENT_COMMIT_REJECT_LIMIT then Disconnect else Drop, b3))"

fun commits_admitted :: "nat list \<Rightarrow> commit_budget \<Rightarrow> commit_admission list \<times> commit_budget" where
  "commits_admitted [] b = ([], b)"
| "commits_admitted (t # ts) b =
     (let first = commit_admit t b; rest = commits_admitted ts (snd first) in (fst first # fst rest, snd rest))"

section \<open>The Fn layer of the session\<close>

definition FN_TAP_MAX_DURATION :: nat where "FN_TAP_MAX_DURATION = 250000000"
definition FN_DOUBLE_TAP_WINDOW :: nat where "FN_DOUBLE_TAP_WINDOW = 400000000"

record fn_layer_gesture =
  fg_pressed_at :: "nat option"
  fg_media_armed_until :: "nat option"
  fg_media_active :: bool

definition fn_layer_new :: fn_layer_gesture where
  "fn_layer_new = \<lparr>fg_pressed_at = None, fg_media_armed_until = None, fg_media_active = False\<rparr>"

definition fn_layer_transition :: "bool \<Rightarrow> nat \<Rightarrow> fn_layer_gesture \<Rightarrow> system_layer option \<times> fn_layer_gesture" where
  "fn_layer_transition pressed now g =
     (if pressed then
        let media = (case fg_media_armed_until g of None \<Rightarrow> False | Some deadline \<Rightarrow> now \<le> deadline) in
        (Some (if media then Media else FunctionLayer),
         g\<lparr>fg_media_armed_until := None, fg_media_active := media, fg_pressed_at := Some now\<rparr>)
      else
        let quick = (case fg_pressed_at g of None \<Rightarrow> False | Some started \<Rightarrow> now - started \<le> FN_TAP_MAX_DURATION) in
        (None,
         g\<lparr>fg_pressed_at := None,
           fg_media_armed_until := (if \<not> fg_media_active g \<and> quick then Some (now + FN_DOUBLE_TAP_WINDOW) else None),
           fg_media_active := False\<rparr>))"

definition fn_layer_reset :: "fn_layer_gesture \<Rightarrow> fn_layer_gesture" where
  "fn_layer_reset g = fn_layer_new"

text \<open>The second press shows the media keys when the first was a quick tap that did not show them itself.\<close>

lemma fn_double_tap:
  assumes "fn_layer_transition True t0 g = (Some first, g1)" "fn_layer_transition False t1 g1 = (r, g2)"
    and "fn_layer_transition True t2 g2 = (Some second, g3)"
  shows "second = (if first \<noteq> Media \<and> t1 - t0 \<le> FN_TAP_MAX_DURATION \<and> t2 \<le> t1 + FN_DOUBLE_TAP_WINDOW
                   then Media else FunctionLayer)"
  using assms by (auto simp: fn_layer_transition_def Let_def split: if_splits)

section \<open>Lemmas on the budget\<close>

text \<open>What was admitted is paid for: by the credit at the start and what has been refilled since.\<close>

lemma commit_admit_credit:
  assumes "cb_credit b \<le> CLIENT_COMMIT_BURST * TOKEN"
  shows "cb_credit (snd (commit_admit now b)) + (if fst (commit_admit now b) = Accept then TOKEN else 0)
      \<le> cb_credit b + (now - cb_last_refill b) * CLIENT_COMMIT_RATE"
    and "cb_credit (snd (commit_admit now b)) \<le> CLIENT_COMMIT_BURST * TOKEN"
    and "cb_last_refill (snd (commit_admit now b)) = now"
proof -
  define credit where "credit = min (saturating_u128 (cb_credit b + saturating_u128 ((now - cb_last_refill b) * CLIENT_COMMIT_RATE)))
                       (CLIENT_COMMIT_BURST * TOKEN)"
  have bound: "credit \<le> cb_credit b + (now - cb_last_refill b) * CLIENT_COMMIT_RATE" "credit \<le> CLIENT_COMMIT_BURST * TOKEN"
    by (auto simp: credit_def saturating_u128_def min_def)
  have result: "fst (commit_admit now b) = Accept \<longleftrightarrow> credit \<ge> TOKEN"
    "cb_credit (snd (commit_admit now b)) = (if credit \<ge> TOKEN then credit - TOKEN else credit)"
    by (simp_all only: commit_admit_def Let_def credit_def [symmetric] split: if_split) simp_all
  show "cb_credit (snd (commit_admit now b)) + (if fst (commit_admit now b) = Accept then TOKEN else 0)
      \<le> cb_credit b + (now - cb_last_refill b) * CLIENT_COMMIT_RATE"
    using bound result by simp
  show "cb_credit (snd (commit_admit now b)) \<le> CLIENT_COMMIT_BURST * TOKEN"
    using bound(2) result by (auto simp: algebra_simps)
  show "cb_last_refill (snd (commit_admit now b)) = now" by (simp add: commit_admit_def Let_def)
qed

lemma commits_paid:
  assumes "sorted (cb_last_refill b # ts)" and "cb_credit b \<le> CLIENT_COMMIT_BURST * TOKEN"
  shows "cb_credit (snd (commits_admitted ts b)) + length (filter (\<lambda>a. a = Accept) (fst (commits_admitted ts b))) * TOKEN
    \<le> cb_credit b + (last (cb_last_refill b # ts) - cb_last_refill b) * CLIENT_COMMIT_RATE"
  using assms
proof (induction ts arbitrary: b)
  case (Cons t ts)
  let ?b = "snd (commit_admit t b)"
  note step = commit_admit_credit [OF Cons.prems(2), of t]
  have "sorted (cb_last_refill ?b # ts)" using Cons.prems(1) step(3) by simp
  from Cons.IH [OF this step(2)] have rest:
    "cb_credit (snd (commits_admitted ts ?b)) + length (filter (\<lambda>a. a = Accept) (fst (commits_admitted ts ?b))) * TOKEN
      \<le> cb_credit ?b + (last (t # ts) - t) * CLIENT_COMMIT_RATE" using step(3) by simp
  have "t \<le> last (t # ts)" "cb_last_refill b \<le> t" using Cons.prems(1) last_in_set [of "t # ts"] by auto
  then have split: "(last (t # ts) - cb_last_refill b) * CLIENT_COMMIT_RATE =
      (t - cb_last_refill b) * CLIENT_COMMIT_RATE + (last (t # ts) - t) * CLIENT_COMMIT_RATE"
    by (simp flip: distrib_right)
  show ?case using rest step(1) split by (auto simp: Let_def split: if_splits)
qed simp

text \<open>The commit budget: however a client spaces its commits, the number admitted over a period is at most the burst
  and what the rate allows in the time that has passed, with no loss to rounding.\<close>

theorem commit_rate_bounded:
  assumes "sorted (start # ts)"
  shows "length (filter (\<lambda>a. a = Accept) (fst (commits_admitted ts (commit_budget_new start)))) * TOKEN
    \<le> CLIENT_COMMIT_BURST * TOKEN + (last (start # ts) - start) * CLIENT_COMMIT_RATE"
  using commits_paid [of "commit_budget_new start" ts] assms by (simp add: commit_budget_new_def)

lemmas budget_defs = commit_admit_def saturating_u128_def commit_budget_new_def CLIENT_COMMIT_BURST_def TOKEN_def
  CLIENT_COMMIT_RATE_def CLIENT_COMMIT_REJECT_WINDOW_def CLIENT_COMMIT_REJECT_LIMIT_def

theorem commit_rate_bounded_witness:
  "sorted ([5, 6] :: nat list)
   \<and> length (filter (\<lambda>a. a = Accept) (fst (commits_admitted [6] (commit_budget_new 5)))) * TOKEN
     \<le> CLIENT_COMMIT_BURST * TOKEN + (last [5, 6] - 5) * CLIENT_COMMIT_RATE
   \<and> fst (commits_admitted [6] (commit_budget_new 5)) = [Accept]"
proof -
  have "fst (commits_admitted [6] (commit_budget_new 5)) = [Accept]" by (simp add: budget_defs)
  then show ?thesis using commit_rate_bounded [of 5 "[6]"] by simp
qed

end
