(* ===== verification/Hardware_Correct.thy ===== *)
theory Hardware_Correct
  imports Hardware_Service
begin

text \<open>
  What the privileged daemon guarantees, whatever the panel, the keyboard, the seat and the sessions do, and a run
  in which it does not release a key.
\<close>


section \<open>A concrete service\<close>

definition demo_bar_ops :: "int bar_ops" where
  "demo_bar_ops = \<lparr>bo_max = max, bo_min = min, bo_floor = id, bo_ceil = id, bo_nat = int, bo_i32 = sint, bo_hundredths = (\<lambda>_. 0)\<rparr>"

definition demo_f64 :: "int f64_ops" where
  "demo_f64 = \<lparr>fd_of_int = id, fd_round_i32 = word_of_int\<rparr>"

definition demo_touch :: touch_input where
  "demo_touch =
     \<lparr>ti_x_axis = \<lparr>axis_minimum = 0, axis_maximum = 1\<rparr>, ti_y_axis = \<lparr>axis_minimum = 0, axis_maximum = 1\<rparr>,
      ti_current_slot = 0, ti_slots = [\<lparr>ts_contact_id = None, ts_x = 0, ts_y = 0, ts_pending = None\<rparr>],
      ti_display_width = 2008, ti_display_height = 60, ti_scene_width = 2008, ti_scene_height = 60\<rparr>"

lemma demo_touch_new:
  "touch_input_new \<lparr>axis_minimum = 0, axis_maximum = 1\<rparr> \<lparr>axis_minimum = 0, axis_maximum = 1\<rparr>
     \<lparr>axis_minimum = 0, axis_maximum = 0\<rparr> 2008 60 2008 60 = Some demo_touch"
  by (simp add: touch_input_new_def demo_touch_def)

definition demo_backlight :: backlight where
  "demo_backlight = \<lparr>bl_active_value = 128, bl_dimmed_value = 1, bl_idle_value = 0, bl_current_value = Some 128\<rparr>"

definition demo_service :: "int service" where
  "demo_service = service_open demo_bar_ops demo_touch False demo_backlight 2008 60 0"

definition turn_at :: "nat \<Rightarrow> input_event list \<Rightarrow> turn_input" where
  "turn_at t events =
     \<lparr>in_interrupted = False, in_poll_failed = False, in_shutdown = NotReady, in_touch_failed = False,
      in_fn_failed = False, in_seat_failed = False, in_touch = (if events = [] then None else Some (events, True)),
      in_touch_clock = (\<lambda>_. 0), in_fn = None, in_seat = NotReady, in_clock = (\<lambda>_. t)\<rparr>"

definition wait_at :: "nat \<Rightarrow> input_event list \<Rightarrow> service_input" where
  "wait_at t events = WaitTurn \<lparr>wi_turn = turn_at t events, wi_accept = NotReady\<rparr>"

definition tracking :: "int \<Rightarrow> input_event list" where
  "tracking v = [\<lparr>ie_kind = 3, ie_code = 57, ie_value = v\<rparr>, \<lparr>ie_kind = 0, ie_code = 0, ie_value = 0\<rparr>]"

definition all_ok :: "nat \<Rightarrow> effect \<Rightarrow> bool" where
  "all_ok n e = True"

text \<open>A finger presses the first key, a session of the user 1000 is accepted and shows two frames.\<close>

definition demo_session :: "service_input list" where
  "demo_session =
     [wait_at 1 (tracking 7),
      WaitTurn \<lparr>wi_turn = turn_at 2 [], wi_accept = Ready (Some 1000, Some 1000)\<rparr>,
      SessionTurn \<lparr>si_turn = turn_at 3 [], si_waited = 0, si_hangup = False, si_message = Ready (FrameReady 0 1)\<rparr>,
      SessionTurn \<lparr>si_turn = turn_at 4 [], si_waited = 0, si_hangup = False, si_message = Ready (FrameReady 2 2)\<rparr>]"



text \<open>(C21) Who gets the panel: a waiting service enters a session only in a turn in which the user of the accepted
  connection was determined and is the user on the active seat, and only while the recovery gesture has not
  locked the fallback.\<close>

theorem session_only_for_seat_user:
  assumes "keys_ok ok" and "panel_ok ok" and "touch_input_new xa ya sa dw dh sw sh = Some ti"
    and "service_run ok fd fl inputs (service_open fl ti pressed bl width height now) = (ModeWaiting, st)"
    and "service_turn ok fd fl i (ModeWaiting, st) = (ModeSession locals, st')"
  shows "\<exists>wi uid. i = WaitTurn wi \<and> wi_accept wi = Ready (Some uid, Some uid) \<and> sessions_allowed (sv_recovery st')"
proof -
  have "service_ok (service_run ok fd fl inputs (service_open fl ti pressed bl width height now))"
    unfolding service_run_def
    by (rule fold_service_ok [OF assms(1,2) service_open_ok [OF touch_input_new_ok [OF assms(3)]]])
  then have waiting: "service_ok (ModeWaiting, st)" unfolding assms(4) .
  have "service_ok (ModeSession locals, st')"
    using service_turn_ok [OF assms(1,2) waiting, where fd = fd and fl = fl and input = i] unfolding assms(5) .
  then have allowed: "sessions_allowed (sv_recovery st')"
    by (simp add: service_ok_def given_def lent_def sessions_allowed_def)
  obtain wi where i: "i = WaitTurn wi" using assms(5) by (cases i) auto
  have stop: "fst (stop_service ok s) \<noteq> ModeSession l" for s l
    by (auto simp: stop_service_def split: prod.splits sum.splits)
  obtain r st1 where turn: "wait_turn ok fd fl wi st = (r, st1)" by (cases "wait_turn ok fd fl wi st")
  have "r = Inr SessionAccepted"
  proof (cases r)
    case (Inr outcome)
    then show ?thesis
      using assms(5) i turn stop [of st1 locals] by (cases outcome) (auto dest: arg_cong [where f = fst])
  qed (use assms(5) i turn in simp)
  moreover have "given at_rest st" using waiting by (simp add: service_ok_def)
  from triple_at [OF wait_turn_ok [OF assms(1,2), where fd = fd and fl = fl and wi = wi] this] turn
  have "r = Inr SessionAccepted \<Longrightarrow> \<exists>uid. wi_accept wi = Ready (Some uid, Some uid)" by simp
  ultimately show ?thesis using i allowed by blast
qed

theorem session_only_for_seat_user_witness:
  "case service_run all_ok demo_f64 demo_bar_ops (take 1 demo_session) demo_service of
     (mode, st) \<Rightarrow> mode = ModeWaiting
       \<and> (\<exists>wi uid. demo_session ! 1 = WaitTurn wi \<and> wi_accept wi = Ready (Some uid, Some uid))"
proof -
  let ?run = "service_run all_ok demo_f64 demo_bar_ops (take 1 demo_session) demo_service"
  let ?next = "service_turn all_ok demo_f64 demo_bar_ops (demo_session ! 1) ?run"
  have ok: "keys_ok all_ok" "panel_ok all_ok" by (simp_all add: keys_ok_def panel_ok_def all_ok_def)
  have mode: "fst ?run = ModeWaiting" by code_simp
  have entered: "fst ?next = ModeSession \<lparr>sl_last_sequence = 0, sl_display_started = False\<rparr>" by code_simp
  obtain s where run: "?run = (ModeWaiting, s)" using mode by (metis prod.collapse)
  obtain s' where step: "service_turn all_ok demo_f64 demo_bar_ops (demo_session ! 1) (ModeWaiting, s) =
      (ModeSession \<lparr>sl_last_sequence = 0, sl_display_started = False\<rparr>, s')"
    using entered unfolding run by (metis prod.collapse)
  show ?thesis
    using session_only_for_seat_user [OF ok demo_touch_new run [unfolded demo_service_def] step] run
    by auto
qed

section \<open>A release that is lost\<close>

text \<open>
  A contact that wakes the panel is suppressed until it ends, but the filter does not know whether the contact was
  delivered before the panel went dark. In this run a finger goes down on the first key and rests; the panel goes
  dark after a minute; the finger lifts. The touch wakes the panel, so the release is consumed: no finger is on
  the panel, the key stays down, and the fallback row still counts the contact.
\<close>

definition resting_finger :: "service_input list" where
  "resting_finger = [wait_at 1 (tracking 7), wait_at 61000000000 [], wait_at 62000000000 (tracking (-1))]"

lemma waking_release_is_lost:
  "kernel_keys (sv_effects (snd (service_run all_ok demo_f64 demo_bar_ops resting_finger demo_service))) = {BrightnessDown}"
  "map ts_contact_id (ti_slots (sv_touch (snd (service_run all_ok demo_f64 demo_bar_ops resting_finger demo_service)))) = [None]"
  by code_simp+

end
