(* ===== verification/Swapchain.thy ===== *)
theory Swapchain
  imports Session_Output Hardware_Correct
begin

text \<open>
  The session's output (\<^verbatim>\<open>DirectOutput\<close> of \<^verbatim>\<open>touchbar-sessiond\<close>) and the session loop of the hardware service
  (\<^verbatim>\<open>run_session_inner\<close> of \<^verbatim>\<open>touchbard\<close>), joined by the two directions of their socket. Each side keeps its own account of
  the buffers and rejects what contradicts it; the two accounts never contradict each other.
\<close>

section \<open>The two daemons and the socket\<close>

record 'f swapchain =
  sc_output :: direct_output
  sc_requests :: "session_message list"
  sc_events :: "hardware_message list"
  sc_locals :: session_locals
  sc_service :: "'f service"

text \<open>Both ends run until one of them gives up the connection.\<close>

datatype 'f swap_state =
    Running "'f swapchain"
  | SessionFailed output_error
  | ServiceFailed service_error
  | ServiceEnded bool

text \<open>The session presents a frame, polls its input or sends a key, having received so many messages; the service
  takes a turn, with or without its socket being readable.\<close>

datatype swap_event =
    PresentScene nat
  | PollInput nat nat
  | EmitKey system_key key_phase
  | ServiceTurn bool session_input

fun sent_messages :: "effect list \<Rightarrow> hardware_message list" where
  "sent_messages [] = []"
| "sent_messages (Sent m # es) = m # sent_messages es"
| "sent_messages (_ # es) = sent_messages es"

definition present_frame :: "nat \<Rightarrow> 'f swapchain \<Rightarrow> 'f swap_state" where
  "present_frame k sys =
     (case direct_acquire (map Some (take k (sc_events sys))) False (sc_output sys) of
        (Inl e, _) \<Rightarrow> SessionFailed e
      | (Inr None, d) \<Rightarrow> Running (sys\<lparr>sc_output := d, sc_events := drop k (sc_events sys)\<rparr>)
      | (Inr (Some index), d) \<Rightarrow>
          (case direct_submit True index d of
             (Inl e, _) \<Rightarrow> SessionFailed e
           | (Inr sequence, d') \<Rightarrow>
               Running (sys\<lparr>sc_output := d', sc_events := drop k (sc_events sys),
                 sc_requests := sc_requests sys @ [FrameReady (of_nat index) sequence]\<rparr>)))"

definition poll_direct_input :: "nat \<Rightarrow> nat \<Rightarrow> 'f swapchain \<Rightarrow> 'f swap_state" where
  "poll_direct_input k k' sys =
     (case drain_touch (map Some (take k (sc_events sys))) False (sc_output sys) of
        (Inl e, _) \<Rightarrow> SessionFailed e
      | (Inr _, d) \<Rightarrow>
          (case take_fn_changed (map Some (take k' (drop k (sc_events sys)))) False d of
             (Inl e, _) \<Rightarrow> SessionFailed e
           | (Inr _, d') \<Rightarrow> Running (sys\<lparr>sc_output := d', sc_events := drop k' (drop k (sc_events sys))\<rparr>)))"

definition serve_turn ::
  "(nat \<Rightarrow> effect \<Rightarrow> bool) \<Rightarrow> ('g::{divide, times, minus}) f64_ops \<Rightarrow> bool \<Rightarrow> session_input \<Rightarrow> 'f swapchain \<Rightarrow> 'f swap_state" where
  "serve_turn ok fd readable si sys =
     (let message = (if readable \<and> sc_requests sys \<noteq> [] then Ready (hd (sc_requests sys)) else NotReady) in
      case session_turn ok fd (si\<lparr>si_hangup := False, si_message := message\<rparr>) (sc_locals sys) (sc_service sys) of
        (Inl e, _) \<Rightarrow> ServiceFailed e
      | (Inr (EndSession again), _) \<Rightarrow> ServiceEnded again
      | (Inr (KeepSession locals), st) \<Rightarrow>
          Running (sys\<lparr>sc_locals := locals, sc_service := st,
            sc_requests := (if readable \<and> \<not> in_interrupted (si_turn si) then tl (sc_requests sys) else sc_requests sys),
            sc_events := sc_events sys @ sent_messages (drop (length (sv_effects (sc_service sys))) (sv_effects st))\<rparr>))"

fun swap_step ::
  "(nat \<Rightarrow> effect \<Rightarrow> bool) \<Rightarrow> ('g::{divide, times, minus}) f64_ops \<Rightarrow> swap_event \<Rightarrow> 'f swap_state \<Rightarrow> 'f swap_state" where
  "swap_step ok fd (PresentScene k) (Running sys) = present_frame k sys"
| "swap_step ok fd (PollInput k k') (Running sys) = poll_direct_input k k' sys"
| "swap_step ok fd (EmitKey key ph) (Running sys) = Running (sys\<lparr>sc_requests := sc_requests sys @ [Key key ph]\<rparr>)"
| "swap_step ok fd (ServiceTurn readable si) (Running sys) = serve_turn ok fd readable si sys"
| "swap_step ok fd event state = state"

text \<open>The session learns the number of buffers from the swapchain message; the state of Fn is the first event.\<close>

definition swap_open :: "(nat \<Rightarrow> effect \<Rightarrow> bool) \<Rightarrow> 'f service \<Rightarrow> 'f swap_state" where
  "swap_open ok st =
     (case session_start ok st of
        (Inl e, _) \<Rightarrow> ServiceFailed e
      | (Inr locals, st') \<Rightarrow>
          Running \<lparr>sc_output = direct_output_new (sv_framebuffers st'), sc_requests = [],
            sc_events = sent_messages (drop (length (sv_effects st)) (sv_effects st')), sc_locals = locals, sc_service = st'\<rparr>)"

definition swap_run ::
  "(nat \<Rightarrow> effect \<Rightarrow> bool) \<Rightarrow> ('g::{divide, times, minus}) f64_ops \<Rightarrow> swap_event list \<Rightarrow> 'f service \<Rightarrow> 'f swap_state" where
  "swap_run ok fd events st = fold (swap_step ok fd) events (swap_open ok st)"

section \<open>Where a frame is\<close>

text \<open>A frame is a buffer with its sequence: on its way to the service, on the panel, or on its way back.\<close>

fun queued_frames :: "session_message list \<Rightarrow> (nat \<times> 64 word) list" where
  "queued_frames [] = []"
| "queued_frames (FrameReady index sequence # ms) = (unat index, sequence) # queued_frames ms"
| "queued_frames (Key _ _ # ms) = queued_frames ms"

fun panel_frames :: "service_scanout \<Rightarrow> (nat \<times> 64 word) list" where
  "panel_frames ScanFallback = []"
| "panel_frames (ScanSession index sequence) = [(index, sequence)]"

fun returned_frames :: "hardware_message list \<Rightarrow> (nat \<times> 64 word) list" where
  "returned_frames [] = []"
| "returned_frames (BufferReleased index sequence # ms) = (unat index, sequence) # returned_frames ms"
| "returned_frames (_ # ms) = returned_frames ms"

definition frames_out :: "'f swapchain \<Rightarrow> (nat \<times> 64 word) list" where
  "frames_out sys =
     returned_frames (sc_events sys) @ panel_frames (sv_scanout (sc_service sys)) @ queued_frames (sc_requests sys)"

text \<open>The errors by which the service rejects a frame.\<close>

definition frame_errors :: "service_error set" where
  "frame_errors =
     {ServiceProtocol ''session submitted an out-of-range hardware buffer'',
      ServiceProtocol ''session resubmitted the buffer currently being scanned out'',
      ServiceProtocol ''session submitted a stale hardware sequence''}"

lemma queued_append [simp]: "queued_frames (xs @ ys) = queued_frames xs @ queued_frames ys"
  by (induction xs rule: queued_frames.induct) simp_all

lemma returned_append [simp]: "returned_frames (xs @ ys) = returned_frames xs @ returned_frames ys"
  by (induction xs rule: returned_frames.induct) simp_all

lemma sent_append [simp]: "sent_messages (xs @ ys) = sent_messages xs @ sent_messages ys"
  by (induction xs rule: sent_messages.induct) simp_all

section \<open>The account of the session\<close>

definition accounts :: "nat \<Rightarrow> (nat \<times> 64 word) list \<Rightarrow> direct_output \<Rightarrow> bool" where
  "accounts n F d \<longleftrightarrow>
     length (do_in_flight d) = n \<and> distinct (map fst F) \<and> fst ` set F \<subseteq> {..<n}
     \<and> (\<forall>i<n. do_in_flight d ! i = map_of F i)
     \<and> distinct (do_available d) \<and> set (do_available d) = {..<n} - fst ` set F"

lemma accounts_new: "accounts n [] (direct_output_new n)"
  by (auto simp: accounts_def direct_output_new_def)

lemma accounts_frame [simp]:
  "accounts n F (d\<lparr>do_pending_touch := t\<rparr>) = accounts n F d"
  "accounts n F (d\<lparr>do_pending_fn := p\<rparr>) = accounts n F d"
  "accounts n F (d\<lparr>do_next_sequence := s\<rparr>) = accounts n F d"
  by (simp_all add: accounts_def)

lemma release_accounted:
  assumes "accounts n ((i, s) # F) d"
  obtains d' where "direct_release i s d = (Inr (), d')" "accounts n F d'" "do_next_sequence d' = do_next_sequence d"
proof
  let ?d = "d\<lparr>do_in_flight := (do_in_flight d)[i := None], do_available := do_available d @ [i]\<rparr>"
  have i: "i < n" "do_in_flight d ! i = Some s" "i \<notin> fst ` set F" "length (do_in_flight d) = n"
    using assms by (auto simp: accounts_def)
  then show "direct_release i s d = (Inr (), ?d)" by (simp add: direct_release_def)
  have "map_of F i = None" using i(3) by (simp add: map_of_eq_None_iff)
  then show "accounts n F ?d" using assms i by (auto simp: accounts_def nth_list_update)
qed simp

lemma poll_accounted:
  assumes "accounts n (returned_frames ms @ F) d"
  obtains d' where "poll_releases (map Some ms) False d = (Inr (), d')" "accounts n F d'"
    "do_next_sequence d' = do_next_sequence d"
  using assms
proof (induction ms arbitrary: d thesis)
  case (Cons m ms)
  show ?case
  proof (cases m)
    case (BufferReleased index sequence)
    then have "accounts n ((unat index, sequence) # (returned_frames ms @ F)) d" using Cons.prems(2) by simp
    then obtain d1 where d1: "direct_release (unat index) sequence d = (Inr (), d1)" "accounts n (returned_frames ms @ F) d1"
        "do_next_sequence d1 = do_next_sequence d" by (rule release_accounted)
    obtain d' where "poll_releases (map Some ms) False d1 = (Inr (), d')" "accounts n F d'"
        "do_next_sequence d' = do_next_sequence d1" by (rule Cons.IH [OF _ d1(2)])
    then show ?thesis using d1 BufferReleased Cons.prems(1) by simp
  next
    case (Touch t)
    let ?d = "d\<lparr>do_pending_touch := do_pending_touch d @ [t]\<rparr>"
    have "accounts n (returned_frames ms @ F) ?d" using Cons.prems(2) Touch by simp
    then obtain d' where "poll_releases (map Some ms) False ?d = (Inr (), d')" "accounts n F d'"
      "do_next_sequence d' = do_next_sequence ?d" by (rule Cons.IH [rotated])
    then show ?thesis using Touch Cons.prems(1) by simp
  next
    case (FnChanged p)
    let ?d = "d\<lparr>do_pending_fn := Some p\<rparr>"
    have "accounts n (returned_frames ms @ F) ?d" using Cons.prems(2) FnChanged by simp
    then obtain d' where "poll_releases (map Some ms) False ?d = (Inr (), d')" "accounts n F d'"
      "do_next_sequence d' = do_next_sequence ?d" by (rule Cons.IH [rotated])
    then show ?thesis using FnChanged Cons.prems(1) by simp
  qed
qed simp

definition submitted :: "nat \<Rightarrow> nat list \<Rightarrow> direct_output \<Rightarrow> direct_output" where
  "submitted i rest d =
     d\<lparr>do_available := rest, do_in_flight := (do_in_flight d)[i := Some (do_next_sequence d)],
       do_next_sequence := max (do_next_sequence d + 1) 1\<rparr>"

lemma submit_accounted:
  assumes "accounts n F d" "do_available d = i # rest"
  shows "direct_submit True i (d\<lparr>do_available := rest\<rparr>) = (Inr (do_next_sequence d), submitted i rest d)"
    and "accounts n (F @ [(i, do_next_sequence d)]) (submitted i rest d)" and "i < n"
proof -
  have i: "i < n" "i \<notin> fst ` set F" "i \<notin> set rest" "length (do_in_flight d) = n"
    using assms by (auto simp: accounts_def)
  then have none: "map_of F i = None" by (simp add: map_of_eq_None_iff)
  then have free: "do_in_flight d ! i = None" using assms i by (simp add: accounts_def)
  show "direct_submit True i (d\<lparr>do_available := rest\<rparr>) = (Inr (do_next_sequence d), submitted i rest d)"
    using i free by (simp add: direct_submit_def Let_def submitted_def)
  have "set rest = {..<n} - fst ` set (F @ [(i, do_next_sequence d)])"
    using assms i by (auto simp: accounts_def)
  then show "accounts n (F @ [(i, do_next_sequence d)]) (submitted i rest d)"
    using assms i none by (auto simp: accounts_def submitted_def nth_list_update map_add_def split: option.splits)
  show "i < n" by (rule i)
qed

section \<open>What the service does to frames\<close>

text \<open>An action that leaves the panel as it is and returns no buffer.\<close>

definition frames_kept :: "'f service \<Rightarrow> (service_error, 'a) result \<times> 'f service \<Rightarrow> bool" where
  "frames_kept st out \<longleftrightarrow>
     sv_scanout (snd out) = sv_scanout st \<and> sv_framebuffers (snd out) = sv_framebuffers st
     \<and> (\<exists>es. sv_effects (snd out) = sv_effects st @ es \<and> returned_frames (sent_messages es) = [])
     \<and> (\<forall>e. fst out = Inl e \<longrightarrow> e \<notin> frame_errors)"

definition keeps_frames :: "('f, 'a) action \<Rightarrow> bool" where
  "keeps_frames a \<longleftrightarrow> (\<forall>st. frames_kept st (a st))"

definition same_frames :: "'f service \<Rightarrow> 'f service \<Rightarrow> bool" where
  "same_frames st st' \<longleftrightarrow>
     sv_scanout st' = sv_scanout st \<and> sv_framebuffers st' = sv_framebuffers st \<and> sv_effects st' = sv_effects st"

lemma frames_keptD: "keeps_frames a \<Longrightarrow> frames_kept st (a st)"
  by (simp add: keeps_frames_def)

lemma frames_kept_done [simp]: "same_frames st st' \<Longrightarrow> frames_kept st (Inr v, st')"
  by (simp add: frames_kept_def same_frames_def)

lemma frames_kept_error: "same_frames st st' \<Longrightarrow> e \<notin> frame_errors \<Longrightarrow> frames_kept st (Inl e, st')"
  by (simp add: frames_kept_def same_frames_def)

lemma frames_kept_from: "keeps_frames a \<Longrightarrow> same_frames st st' \<Longrightarrow> frames_kept st (a st')"
  using frames_keptD [of a st'] by (simp add: frames_kept_def same_frames_def)

lemma frames_return: "keeps_frames (act_return v)"
  by (simp add: keeps_frames_def act_return_def same_frames_def)

lemma frames_error: "e \<notin> frame_errors \<Longrightarrow> keeps_frames (\<lambda>st. (Inl e, st))"
  by (simp add: keeps_frames_def frames_kept_error same_frames_def)

lemma frames_kept_bind:
  assumes "frames_kept st (r, st1)" and "frames_kept st1 out"
  shows "frames_kept st out"
proof -
  obtain es es' where "sv_effects st1 = sv_effects st @ es" "returned_frames (sent_messages es) = []"
    "sv_effects (snd out) = sv_effects st1 @ es'" "returned_frames (sent_messages es') = []"
    using assms by (auto simp: frames_kept_def)
  then have "sv_effects (snd out) = sv_effects st @ (es @ es') \<and> returned_frames (sent_messages (es @ es')) = []" by simp
  then show ?thesis using assms unfolding frames_kept_def by auto
qed

lemma frames_bind:
  assumes a: "keeps_frames a" and f: "\<And>v. keeps_frames (f v)"
  shows "keeps_frames (act_bind a f)"
  unfolding keeps_frames_def
proof
  fix st
  obtain r st1 where first: "a st = (r, st1)" by (cases "a st")
  note one = frames_keptD [OF a, of st, unfolded first]
  show "frames_kept st (act_bind a f st)"
  proof (cases r)
    case (Inl e)
    then show ?thesis using one by (simp add: act_bind_def first frames_kept_def)
  next
    case (Inr v)
    then show ?thesis using frames_kept_bind [OF one frames_keptD [OF f]] by (simp add: act_bind_def first)
  qed
qed

lemma frames_update: "(\<And>st. same_frames st (h st)) \<Longrightarrow> keeps_frames (update h)"
  by (simp add: keeps_frames_def update_def)

lemma frames_perform: "returned_frames (sent_messages [e]) = [] \<Longrightarrow> keeps_frames (perform ok e)"
  by (auto simp: keeps_frames_def frames_kept_def perform_def frame_errors_def)

lemma frames_if: "(b \<Longrightarrow> keeps_frames a) \<Longrightarrow> (\<not> b \<Longrightarrow> keeps_frames a') \<Longrightarrow> keeps_frames (if b then a else a')"
  by simp

lemma frames_each: "(\<And>x. keeps_frames (f x)) \<Longrightarrow> keeps_frames (act_each f xs)"
  by (induction xs) (simp_all add: frames_return frames_bind)

lemmas frames_intros = frames_return frames_error frames_bind frames_update frames_perform frames_if frames_each

lemma no_frame_error [simp]: "ServiceIo \<notin> frame_errors" "DeviceLost d \<notin> frame_errors" "Panicked \<notin> frame_errors"
  by (simp_all add: frame_errors_def)

subsection \<open>The parts of a turn\<close>

lemma keyboard_emit_frames: "keeps_frames (keyboard_emit ok key ph)"
  unfolding keeps_frames_def keyboard_emit_def
  by (auto simp: same_frames_def frame_errors_def intro!: frames_kept_from [OF frames_perform] frames_kept_error
      split: key_phase.split)

lemma release_all_frames: "keeps_frames (release_all ok)"
  unfolding keeps_frames_def release_all_def
  by (intro allI frames_kept_from [OF frames_each] frames_perform) (simp_all add: same_frames_def)

lemma backlight_set_frames: "keeps_frames (backlight_set ok v)"
  unfolding keeps_frames_def backlight_set_def
  by (auto simp: same_frames_def intro!: frames_kept_from [OF frames_bind] frames_perform frames_update)

lemma wake_frames: "keeps_frames (wake ok now)"
  unfolding keeps_frames_def wake_def Let_def
  by (auto simp: same_frames_def intro!: frames_kept_from [OF frames_bind] frames_bind backlight_set_frames frames_update frames_return)

lemma update_idle_frames: "keeps_frames (update_idle_backlight ok now)"
  unfolding keeps_frames_def update_idle_backlight_def Let_def
  by (auto simp: same_frames_def intro!: frames_kept_from [OF frames_bind] backlight_set_frames frames_update)

lemma poll_recovery_frames: "keeps_frames (poll_recovery_gesture ok now)"
  unfolding keeps_frames_def poll_recovery_gesture_def
  by (auto simp: same_frames_def intro!: frames_kept_from [OF frames_bind] release_all_frames frames_return
      split: prod.split option.split)

lemma turn_begin_frames: "keeps_frames (turn_begin i)"
  unfolding turn_begin_def
  by (intro frames_intros) (auto simp: keeps_frames_def require_hardware_fd_def same_frames_def intro: frames_kept_error)

lemma turn_seat_frames: "keeps_frames (turn_seat ok i)"
  unfolding turn_seat_def by (auto intro!: frames_intros wake_frames split: answer.split)

lemma deliver_touches_frames:
  assumes "\<And>e. keeps_frames (deliver e)"
  shows "keeps_frames (deliver_touches woke deliver es)"
proof (induction es)
  case Nil
  then show ?case by (simp add: frames_return)
next
  case (Cons e es)
  have "keeps_frames (deliver_unless_waking woke deliver e)"
    unfolding keeps_frames_def deliver_unless_waking_def Let_def
    by (auto simp: same_frames_def intro!: frames_kept_from [OF frames_bind] assms frames_return split: prod.split)
  then show ?case using Cons.IH by (auto intro!: frames_bind frames_return)
qed

lemma turn_touches_frames: "(\<And>e. keeps_frames (deliver e)) \<Longrightarrow> keeps_frames (turn_touches ok fd i deliver)"
  unfolding turn_touches_def
  by (auto simp: keeps_frames_def [of "read_touches a b c" for a b c] read_touches_def same_frames_def
      intro!: frames_bind frames_return frames_if wake_frames deliver_touches_frames frames_kept_error split: option.split)

lemma turn_fn_frames:
  assumes "\<And>p. keeps_frames (deliver p)"
  shows "keeps_frames (turn_fn ok i deliver)"
proof (cases "in_fn i")
  case None
  then show ?thesis by (simp add: turn_fn_def frames_return)
next
  case (Some batch)
  obtain events readable where batch: "batch = (events, readable)" by (cases batch)
  show ?thesis
    unfolding turn_fn_def Some batch option.case prod.case Let_def
    by (rule frames_bind [OF wake_frames], unfold keeps_frames_def)
      (auto simp: same_frames_def intro!: frames_kept_error frames_kept_from [OF frames_bind] frames_bind frames_update
        frames_return assms split: prod.split option.split)
qed

subsection \<open>A whole turn\<close>

lemma act_bind_assoc: "act_bind (act_bind a f) g = act_bind a (\<lambda>v. act_bind (f v) g)"
  by (rule ext) (auto simp: act_bind_def split: prod.splits sum.splits)

text \<open>A frame the service may be asked to show.\<close>

definition admissible :: "session_message answer \<Rightarrow> session_locals \<Rightarrow> 'f service \<Rightarrow> bool" where
  "admissible m locals st \<longleftrightarrow>
     sv_framebuffers st \<le> 65536 \<and> (\<forall>i q. sv_scanout st = ScanSession i q \<longrightarrow> i < sv_framebuffers st)
     \<and> (\<forall>index s. m = Ready (FrameReady index s) \<longrightarrow>
          unat index < sv_framebuffers st \<and> (\<forall>q. sv_scanout st \<noteq> ScanSession (unat index) q)
          \<and> sl_last_sequence locals < s)"

text \<open>What a turn that reads \<open>m\<close> does to the frames: the one it reads is shown and the one shown before is returned.\<close>

definition turn_moves ::
  "session_message answer \<Rightarrow> session_locals \<Rightarrow> 'f service \<Rightarrow> (service_error, session_outcome) result \<times> 'f service \<Rightarrow> bool" where
  "turn_moves m locals st out \<longleftrightarrow>
     (case fst out of
        Inl e \<Rightarrow> e \<notin> frame_errors
      | Inr (EndSession _) \<Rightarrow> True
      | Inr (KeepSession l) \<Rightarrow>
          sv_framebuffers (snd out) = sv_framebuffers st
          \<and> (\<exists>es. sv_effects (snd out) = sv_effects st @ es
              \<and> returned_frames (sent_messages es) =
                  (case m of Ready (FrameReady _ _) \<Rightarrow> panel_frames (sv_scanout st) | _ \<Rightarrow> []))
          \<and> (case m of
               Ready (FrameReady index s) \<Rightarrow>
                 l = \<lparr>sl_last_sequence = s, sl_display_started = True\<rparr> \<and> sv_scanout (snd out) = ScanSession (unat index) s
             | _ \<Rightarrow> l = locals \<and> sv_scanout (snd out) = sv_scanout st))"

lemma moves_error: "e \<notin> frame_errors \<Longrightarrow> turn_moves m locals st (Inl e, st')"
  by (simp add: turn_moves_def)

lemma moves_end: "turn_moves m locals st (act_return (EndSession again) st)"
  by (simp add: turn_moves_def act_return_def)

lemma moves_quiet:
  "(\<And>index s. m \<noteq> Ready (FrameReady index s)) \<Longrightarrow> turn_moves m locals st (act_return (KeepSession locals) st)"
  by (auto simp: turn_moves_def act_return_def split: answer.split session_message.split)

lemma moves_bind:
  assumes a: "keeps_frames a" and m: "admissible m locals st"
    and f: "\<And>v st'. admissible m locals st' \<Longrightarrow> turn_moves m locals st' (f v st')"
  shows "turn_moves m locals st (act_bind a f st)"
proof -
  obtain r st1 where first: "a st = (r, st1)" by (cases "a st")
  note kept = frames_keptD [OF a, of st, unfolded first frames_kept_def fst_conv snd_conv]
  show ?thesis
  proof (cases r)
    case (Inl e)
    then show ?thesis using kept by (simp add: act_bind_def first moves_error)
  next
    case (Inr v)
    have "admissible m locals st1" using m kept by (simp add: admissible_def)
    note two = f [OF this, of v]
    obtain es where es: "sv_effects st1 = sv_effects st @ es" "returned_frames (sent_messages es) = []" using kept by blast
    have "\<exists>es'. sv_effects st2 = sv_effects st @ es' \<and> returned_frames (sent_messages es') = R"
      if "sv_effects st2 = sv_effects st1 @ es2" "returned_frames (sent_messages es2) = R" for st2 :: "'a service" and es2 R
      by (rule exI [of _ "es @ es2"]) (simp add: es that)
    moreover have "sv_scanout st1 = sv_scanout st" "sv_framebuffers st1 = sv_framebuffers st" using kept by simp_all
    ultimately show ?thesis using two unfolding turn_moves_def
      by (auto simp only: act_bind_def first Inr prod.case sum.case split: sum.splits session_outcome.splits)
  qed
qed

lemma submit_frame_moves:
  assumes m: "admissible (Ready (FrameReady index s)) locals st"
  shows "turn_moves (Ready (FrameReady index s)) locals st (submit_frame ok now (unat index) s locals st)"
proof -
  let ?show = "act_bind (release_retired ok) (\<lambda>_.
        act_bind (update (\<lambda>st. st\<lparr>sv_scanout := ScanSession (unat index) s\<rparr>)) (\<lambda>_.
          act_return (KeepSession \<lparr>sl_last_sequence = s, sl_display_started = True\<rparr>)))"
  have eq: "submit_frame ok now (unat index) s locals st =
      act_bind (act_bind (if sl_display_started locals then act_return False else wake ok now) (\<lambda>_.
        act_bind (perform ok (MarkedDirty (unat index))) (\<lambda>_. perform ok (Flipped (Some (unat index)))))) (\<lambda>_. ?show) st"
    using m by (auto simp: submit_frame_def act_bind_assoc admissible_def split: service_scanout.split)
  have show_moves: "turn_moves (Ready (FrameReady index s)) locals st' (?show st')"
    if "admissible (Ready (FrameReady index s)) locals st'" for st' :: "'a service"
  proof (cases "sv_scanout st'")
    case ScanFallback
    then show ?thesis by (simp add: turn_moves_def release_retired_def act_bind_def update_def act_return_def)
  next
    case (ScanSession i q)
    then have "unat (of_nat i :: 16 word) = i" using that by (auto simp: admissible_def unat_of_nat)
    then show ?thesis using ScanSession
      by (auto simp: turn_moves_def release_retired_def act_bind_def update_def act_return_def perform_def)
  qed
  show ?thesis unfolding eq
    by (rule moves_bind [OF _ m show_moves]) (auto intro!: frames_intros wake_frames)
qed

lemma session_turn_moves:
  assumes m: "admissible (si_message si) locals st" and up: "\<not> si_hangup si"
  shows "turn_moves (if in_interrupted (si_turn si) then NotReady else si_message si) locals st (session_turn ok fd si locals st)"
proof -
  have message: "turn_moves (si_message si) locals st' (session_message_turn ok si locals st')"
    if "admissible (si_message si) locals st'" for st' :: "'a service"
    using that up submit_frame_moves [of _ _ locals st' ok "in_clock (si_turn si) 6"]
    by (auto simp: session_message_turn_def intro!: moves_error moves_quiet moves_bind [OF keyboard_emit_frames]
        split: answer.split session_message.split)
  note sends = frames_perform [of "Sent (Touch e)" ok for e] frames_perform [of "Sent (hardware_message.FnChanged p)" ok for p]
  have rest: "turn_moves (si_message si) locals st' ((if action = Some EnterFallback then act_return (EndSession True)
       else act_bind (update_idle_backlight ok t) (\<lambda>_. session_message_turn ok si locals)) st')"
    if "admissible (si_message si) locals st'" for action t and st' :: "'a service"
    using moves_bind [OF update_idle_frames that message] by (simp add: moves_end)
  have turn: "turn_moves (si_message si) locals st' ((if stop then act_return (EndSession False)
        else
          act_bind (turn_touches ok fd (si_turn si) (\<lambda>e. perform ok (Sent (Touch e)))) (\<lambda>_.
          act_bind (turn_fn ok (si_turn si) (\<lambda>p. perform ok (Sent (hardware_message.FnChanged p)))) (\<lambda>_.
          act_bind (turn_seat ok (si_turn si)) (\<lambda>_.
          act_bind (poll_recovery_gesture ok (in_clock (si_turn si) 4)) (\<lambda>action.
          if action = Some EnterFallback then act_return (EndSession True)
          else
            act_bind (update_idle_backlight ok (in_clock (si_turn si) 5)) (\<lambda>_. session_message_turn ok si locals)))))) st')"
    if st': "admissible (si_message si) locals st'" for stop and st' :: "'a service"
    using st'
    by (cases stop) (auto intro!: moves_end moves_bind [OF turn_touches_frames] moves_bind [OF turn_fn_frames]
        moves_bind [OF turn_seat_frames] moves_bind [OF poll_recovery_frames] rest sends)
  have idle: "turn_moves NotReady locals st (act_return (KeepSession locals) st)" by (rule moves_quiet) simp
  show ?thesis
    using m idle by (auto simp: session_turn_def Let_def frame_errors_def intro!: moves_error moves_bind [OF turn_begin_frames] turn)
qed

section \<open>The two accounts agree\<close>

definition swap_ok :: "nat \<Rightarrow> nat \<Rightarrow> 'f swapchain \<Rightarrow> bool" where
  "swap_ok n k sys \<longleftrightarrow>
     n \<le> 65536 \<and> sv_framebuffers (sc_service sys) = n
     \<and> accounts n (frames_out sys) (sc_output sys)
     \<and> sorted_wrt (<) (sl_last_sequence (sc_locals sys) # map snd (queued_frames (sc_requests sys)) @ [do_next_sequence (sc_output sys)])
     \<and> unat (do_next_sequence (sc_output sys)) \<le> k + 1"

definition state_ok :: "nat \<Rightarrow> nat \<Rightarrow> 'f swap_state \<Rightarrow> bool" where
  "state_ok n k state \<longleftrightarrow>
     (case state of
        Running sys \<Rightarrow> swap_ok n k sys
      | SessionFailed _ \<Rightarrow> False
      | ServiceFailed e \<Rightarrow> e \<notin> frame_errors
      | ServiceEnded _ \<Rightarrow> True)"

lemma state_ok_simps [simp]:
  "state_ok n k (Running sys) \<longleftrightarrow> swap_ok n k sys" "\<not> state_ok n k (SessionFailed e)"
  "state_ok n k (ServiceFailed e') \<longleftrightarrow> e' \<notin> frame_errors" "state_ok n k (ServiceEnded b)"
  by (simp_all add: state_ok_def)

text \<open>The session reads the events that have arrived.\<close>

definition polled :: "nat \<Rightarrow> direct_output \<Rightarrow> 'f swapchain \<Rightarrow> 'f swapchain" where
  "polled k d sys = sys\<lparr>sc_output := d, sc_events := drop k (sc_events sys)\<rparr>"

lemma poll_ok:
  assumes "swap_ok n c sys"
  obtains d where "poll_releases (map Some (take k (sc_events sys))) False (sc_output sys) = (Inr (), d)"
    "swap_ok n c (polled k d sys)"
proof -
  have "returned_frames (take k (sc_events sys)) @ returned_frames (drop k (sc_events sys)) = returned_frames (sc_events sys)"
    by (simp flip: returned_append)
  then have "accounts n (returned_frames (take k (sc_events sys)) @ frames_out (polled k d sys)) (sc_output sys)" for d
    using assms by (simp add: swap_ok_def frames_out_def polled_def flip: append_assoc)
  then obtain d where "poll_releases (map Some (take k (sc_events sys))) False (sc_output sys) = (Inr (), d)"
    "accounts n (frames_out (polled k (sc_output sys) sys)) d" "do_next_sequence d = do_next_sequence (sc_output sys)"
    by (rule poll_accounted)
  then show thesis using assms by (intro that [of d]) (simp_all add: swap_ok_def polled_def frames_out_def)
qed

lemma next_sequence:
  fixes s :: "64 word"
  assumes "unat s \<le> k + 1" "k + 1 < 2 ^ 64 - 1"
  shows "s < max (s + 1) 1" "unat (max (s + 1) 1) \<le> k + 2"
proof -
  have "unat (s + 1) = unat s + 1" using assms by (simp add: unat_word_ariths)
  then have "s < s + 1" "unat (s + 1) \<le> k + 2" "1 \<le> s + 1" using assms by (simp_all add: word_less_nat_alt word_le_nat_alt)
  then show "s < max (s + 1) 1" "unat (max (s + 1) 1) \<le> k + 2" by (simp_all add: max_def)
qed

lemma present_ok:
  assumes ok: "swap_ok n c sys" and c: "c + 1 < 2 ^ 64 - 1"
  shows "state_ok n (c + 1) (present_frame k sys)"
proof -
  obtain d where poll: "poll_releases (map Some (take k (sc_events sys))) False (sc_output sys) = (Inr (), d)"
    and d: "swap_ok n c (polled k d sys)" using ok by (rule poll_ok)
  show ?thesis
  proof (cases "do_available d")
    case Nil
    then show ?thesis using poll d by (simp add: present_frame_def direct_acquire_def polled_def swap_ok_def)
  next
    case (Cons i rest)
    let ?s = "do_next_sequence d"
    have acc: "accounts n (frames_out (polled k d sys)) d" using d by (simp add: swap_ok_def polled_def)
    note submit = submit_accounted [OF acc Cons]
    have "unat (of_nat i :: 16 word) = i" using submit(3) d by (simp add: swap_ok_def unat_of_nat)
    moreover have "?s < max (?s + 1) 1" "unat (max (?s + 1) 1) \<le> c + 2"
      using next_sequence [OF _ c, of ?s] d by (simp_all add: swap_ok_def polled_def)
    moreover from this(1) have "x < max (?s + 1) 1" if "x < ?s" for x using that order.strict_trans by blast
    ultimately show ?thesis using poll Cons submit d
      by (auto simp: present_frame_def direct_acquire_def polled_def swap_ok_def frames_out_def submitted_def sorted_wrt_append)
  qed
qed

lemma poll_input_ok:
  assumes ok: "swap_ok n c sys"
  shows "state_ok n c (poll_direct_input k k' sys)"
proof -
  obtain d where poll: "poll_releases (map Some (take k (sc_events sys))) False (sc_output sys) = (Inr (), d)"
    and d: "swap_ok n c (polled k d sys)" using ok by (rule poll_ok)
  let ?d = "d\<lparr>do_pending_touch := []\<rparr>"
  have "swap_ok n c (polled k ?d sys)" using d by (simp add: swap_ok_def polled_def frames_out_def)
  then obtain d' where poll': "poll_releases (map Some (take k' (drop k (sc_events sys)))) False ?d = (Inr (), d')"
    and d': "swap_ok n c (polled k' d' (polled k ?d sys))" by (rule poll_ok [where k = k']) (simp add: polled_def)
  show ?thesis using poll poll' d'
    by (simp add: poll_direct_input_def drain_touch_def take_fn_changed_def swap_ok_def polled_def frames_out_def)
qed

lemma head_admissible:
  assumes ok: "swap_ok n c sys" and m: "m \<noteq> NotReady \<longrightarrow> m = Ready (hd (sc_requests sys)) \<and> sc_requests sys \<noteq> []"
  shows "admissible m (sc_locals sys) (sc_service sys)"
proof -
  have out: "distinct (map fst (frames_out sys))" "fst ` set (frames_out sys) \<subseteq> {..<n}"
    using ok by (simp_all add: swap_ok_def accounts_def)
  have "i < n" if "sv_scanout (sc_service sys) = ScanSession i q" for i q
    using out(2) that by (simp add: frames_out_def)
  moreover have "unat index < n \<and> (\<forall>q. sv_scanout (sc_service sys) \<noteq> ScanSession (unat index) q) \<and> sl_last_sequence (sc_locals sys) < s"
    if "m = Ready (FrameReady index s)" for index s
  proof -
    note read = that
    obtain rest where "sc_requests sys = FrameReady index s # rest"
      using m read by (cases "sc_requests sys") auto
    then show ?thesis using ok out by (auto simp: frames_out_def swap_ok_def)
  qed
  ultimately show ?thesis using ok by (simp add: admissible_def swap_ok_def)
qed

lemma turn_kept:
  assumes ok: "swap_ok n c sys" and moves: "turn_moves m (sc_locals sys) (sc_service sys) (Inr (KeepSession l), st)"
    and m: "m = Ready request \<and> sc_requests sys = request # rest \<or> m = NotReady \<and> sc_requests sys = rest"
  shows "swap_ok n c (sys\<lparr>sc_locals := l, sc_service := st, sc_requests := rest,
    sc_events := sc_events sys @ sent_messages (drop (length (sv_effects (sc_service sys))) (sv_effects st))\<rparr>)"
proof -
  obtain es where es: "sv_effects st = sv_effects (sc_service sys) @ es"
    and ret: "returned_frames (sent_messages es) =
      (case m of Ready (FrameReady _ _) \<Rightarrow> panel_frames (sv_scanout (sc_service sys)) | _ \<Rightarrow> [])"
    using moves by (auto simp: turn_moves_def)
  consider (frame) index s where "m = Ready (FrameReady index s)" "sc_requests sys = FrameReady index s # rest"
    | (other) "\<And>index s. m \<noteq> Ready (FrameReady index s)" "queued_frames (sc_requests sys) = queued_frames rest"
    using m by (cases request) auto
  then show ?thesis
  proof cases
    case frame
    then show ?thesis using ok moves es ret by (auto simp: turn_moves_def swap_ok_def frames_out_def)
  next
    case other
    have "l = sc_locals sys" "sv_scanout st = sv_scanout (sc_service sys)" "returned_frames (sent_messages es) = []"
      "sv_framebuffers st = sv_framebuffers (sc_service sys)"
      using moves ret other(1) by (auto simp: turn_moves_def split: answer.splits session_message.splits)
    then show ?thesis using ok es other(2) by (simp add: swap_ok_def frames_out_def)
  qed
qed

lemma serve_ok:
  assumes ok: "swap_ok n c sys"
  shows "state_ok n c (serve_turn flaky fd readable si sys)"
proof -
  define m where "m = (if readable \<and> sc_requests sys \<noteq> [] then Ready (hd (sc_requests sys)) else NotReady)"
  let ?si = "si\<lparr>si_hangup := False, si_message := m\<rparr>"
  obtain r st where turn: "session_turn flaky fd ?si (sc_locals sys) (sc_service sys) = (r, st)"
    by (cases "session_turn flaky fd ?si (sc_locals sys) (sc_service sys)")
  have "admissible (si_message ?si) (sc_locals sys) (sc_service sys)"
    using head_admissible [OF ok, of m] by (simp add: m_def)
  from session_turn_moves [OF this, where ok = flaky and fd = fd, unfolded turn]
  have moves: "turn_moves (if in_interrupted (si_turn si) then NotReady else m) (sc_locals sys) (sc_service sys) (r, st)"
    by (cases "in_interrupted (si_turn si)") simp_all
  consider (failed) e where "r = Inl e" | (ended) again where "r = Inr (EndSession again)"
    | (kept) l where "r = Inr (KeepSession l)" by (metis session_outcome.exhaust sum.exhaust)
  then show ?thesis
  proof cases
    case failed
    then show ?thesis using moves turn by (simp add: serve_turn_def turn_moves_def flip: m_def)
  next
    case ended
    then show ?thesis using turn by (simp add: serve_turn_def flip: m_def)
  next
    case kept
    let ?rest = "if readable \<and> \<not> in_interrupted (si_turn si) then tl (sc_requests sys) else sc_requests sys"
    let ?m = "if in_interrupted (si_turn si) then NotReady else m"
    have "?m = Ready (hd (sc_requests sys)) \<and> sc_requests sys = hd (sc_requests sys) # ?rest \<or> ?m = NotReady \<and> sc_requests sys = ?rest"
      by (auto simp: m_def)
    from turn_kept [OF ok moves [unfolded kept] this] show ?thesis
      using turn kept by (simp add: serve_turn_def Let_def flip: m_def)
  qed
qed

lemma swap_ok_later: "swap_ok n c sys \<Longrightarrow> swap_ok n (c + 1) sys"
  by (simp add: swap_ok_def)

lemma swap_step_ok:
  assumes "state_ok n c state" "c + 1 < 2 ^ 64 - 1"
  shows "state_ok n (c + 1) (swap_step ok fd event state)"
proof (cases state)
  case (Running sys)
  then have sys: "swap_ok n c sys" using assms by simp
  have later: "state_ok n (c + 1) s" if "state_ok n c s" for s :: "'a swap_state"
    using that by (cases s) (simp_all add: swap_ok_later [simplified])
  show ?thesis
  proof (cases event)
    case (EmitKey key ph)
    then show ?thesis using sys Running by (simp add: swap_ok_def frames_out_def)
  qed (use Running sys assms(2) present_ok later [OF poll_input_ok] later [OF serve_ok] in simp_all)
qed (use assms in \<open>cases event; simp\<close>)+

lemma swap_fold_ok:
  "state_ok n c state \<Longrightarrow> c + length events < 2 ^ 64 - 1 \<Longrightarrow> state_ok n (c + length events) (fold (swap_step ok fd) events state)"
proof (induction events arbitrary: c state)
  case (Cons event events)
  have "state_ok n (c + 1) (swap_step ok fd event state)"
    by (rule swap_step_ok [OF Cons.prems(1)]) (use Cons.prems(2) in simp)
  from Cons.IH [OF this] Cons.prems show ?case by simp
qed simp

lemma swap_open_ok:
  assumes "sv_framebuffers st \<le> 65536" "sv_scanout st = ScanFallback"
  shows "state_ok (sv_framebuffers st) 0 (swap_open ok st)"
  using assms accounts_new [of "sv_framebuffers st"]
  by (auto simp: swap_open_def session_start_def act_bind_def act_return_def perform_def swap_ok_def frames_out_def
      direct_output_new_def)

text \<open>(C20) The swapchain of the two daemons: however presenting, polling, keys and the turns of the service interleave, and
  whichever calls of the service fail, the session never sees a release it does not expect and never finds a buffer in
  flight, and the service never rejects a frame as out of range, stale or still shown. While both run, no buffer is lost
  and none that the session may draw into, now or after reading what was sent to it, is on the panel or on its way there.\<close>

theorem swapchain_consistent:
  assumes "sv_framebuffers st \<le> 65536" "sv_scanout st = ScanFallback" "length events < 2 ^ 64 - 1"
  shows "case swap_run ok fd events st of
      SessionFailed _ \<Rightarrow> False
    | ServiceFailed e \<Rightarrow> e \<notin> frame_errors
    | ServiceEnded _ \<Rightarrow> True
    | Running sys \<Rightarrow>
        let drawable = do_available (sc_output sys) @ map fst (returned_frames (sc_events sys));
            shown = map fst (panel_frames (sv_scanout (sc_service sys)) @ queued_frames (sc_requests sys)) in
        distinct (drawable @ shown) \<and> set (drawable @ shown) = {..<sv_framebuffers st}"
proof -
  have "state_ok (sv_framebuffers st) (length events) (swap_run ok fd events st)"
    using swap_fold_ok [OF swap_open_ok [OF assms(1, 2)], of events] assms(3) by (simp add: swap_run_def)
  then show ?thesis
    by (cases "swap_run ok fd events st") (auto simp: swap_ok_def accounts_def frames_out_def Let_def)
qed

definition plain_turn :: swap_event where
  "plain_turn = ServiceTurn True \<lparr>si_turn = turn_at 1 [], si_waited = 0, si_hangup = False, si_message = NotReady\<rparr>"

definition demo_frames :: "swap_event list" where
  "demo_frames = [PresentScene 9, plain_turn, PresentScene 9, PresentScene 9, PresentScene 9, plain_turn, PollInput 9 9,
     PresentScene 9, plain_turn, PresentScene 0]"

text \<open>A fourth frame waits for a buffer; the third one is shown, the first two are back or in use again.\<close>

theorem swapchain_consistent_witness:
  "case swap_run all_ok demo_f64 demo_frames demo_service of
     Running sys \<Rightarrow> panel_frames (sv_scanout (sc_service sys)) = [(2, 3)] \<and> queued_frames (sc_requests sys) = [(0, 4)]
       \<and> returned_frames (sc_events sys) = [(1, 2)] \<and> do_available (sc_output sys) = []
       \<and> distinct (do_available (sc_output sys) @ [1] @ [2] @ [0])
   | _ \<Rightarrow> False"
proof -
  let ?run = "swap_run all_ok demo_f64 demo_frames demo_service"
  have start: "sv_framebuffers demo_service \<le> 65536" "sv_scanout demo_service = ScanFallback"
    by (simp_all add: demo_service_def service_open_def)
  have "length demo_frames < 2 ^ 64 - 1" by (simp add: demo_frames_def)
  note safe = swapchain_consistent [OF start this, of all_ok demo_f64]
  have run: "case ?run of
     Running sys \<Rightarrow> panel_frames (sv_scanout (sc_service sys)) = [(2, 3)] \<and> queued_frames (sc_requests sys) = [(0, 4)]
       \<and> returned_frames (sc_events sys) = [(1, 2)] \<and> do_available (sc_output sys) = []
   | _ \<Rightarrow> False" by code_simp
  show ?thesis using safe run by (cases ?run) auto
qed

end
