(* ===== verification/Spec2Isabelle.thy ===== *)
theory Spec2Isabelle
  imports Recovery Controller Hardware_Wire Presentation_Correct Connection_Safety Payload_Correct Live_Profiles
    Gestures Swapchain
begin

text \<open>
  \<^bold>\<open>Verification of TouchBar.\<close> TouchBar drives the Touch Bar of a laptop under Linux. A privileged daemon
  (\<^verbatim>\<open>crates/touchbard\<close>) owns the panel, its touch sensor and a virtual keyboard; a session daemon
  (\<^verbatim>\<open>crates/touchbar-sessiond\<close>) composes the bar from items that plugins draw; each plugin runs in a host of its own and
  reaches the desktop only through a supervisor (\<^verbatim>\<open>crates/touchbar-plugin-supervisor\<close>) that checks every request against
  the grants of the user (\<^verbatim>\<open>crates/touchbar-policy\<close>). The processes speak fixed binary protocols
  (\<^verbatim>\<open>crates/touchbar-protocol\<close>, \<^verbatim>\<open>crates/touchbar-broker-schema\<close>).

  \<^bold>\<open>Conventions.\<close> \<^verbatim>\<open>Result\<close> is a sum with the error on the left, and \<open>option\<close> around it has \<open>None\<close> for a panic
  (\<^verbatim>\<open>expect\<close>, \<^verbatim>\<open>unreachable!\<close>, a failed \<^verbatim>\<open>debug_assert!\<close>, an index out of range). A \<^verbatim>\<open>&mut self\<close> method maps a state record to
  its result and the new state, also when it fails. \<^verbatim>\<open>u32\<close> and \<^verbatim>\<open>u64\<close> that are only compared and added below a checked
  bound are \<open>nat\<close>, with saturation written out; where the code wraps or packs bits they are words. Strings are
  byte lists. \<^verbatim>\<open>BTreeMap\<close> is an association list in key order behind the locale \<open>btree_map\<close>, whose only
  interpretation is that list. Time is a natural number of nanoseconds or the unit the code uses. Floating-point
  code is generic in the number type and takes the functions it calls as an argument. Every recursion is structural or
  has a termination proof; the one fuel, in the printing of a number, is the number itself. The service loops run over
  lists of inputs of any length.

  \<^bold>\<open>Foundations.\<close>
  \<^item> \<^verbatim>\<open>TB_Prelude\<close>: results, bounds of integers, list lemmas, the collections of simplification rules.
  \<^item> \<^verbatim>\<open>Rust_Strings\<close>, \<^verbatim>\<open>Ordered_Map\<close>, \<^verbatim>\<open>Wire\<close>: the parts of the standard library the code uses (string searching, ordered
    maps, little-endian integers, UTF-8). \<^verbatim>\<open>Wire\<close> has the contract of a message codec (locale \<open>message_codec\<close>).

  \<^bold>\<open>From the profile to the bar.\<close>
  \<^item> \<^verbatim>\<open>Layout_Group\<close>, \<^verbatim>\<open>Layout_Sizing\<close>, \<^verbatim>\<open>Layout_Visibility\<close>, \<^verbatim>\<open>Layout_Widths\<close>, \<^verbatim>\<open>Layout_Resolve\<close>, \<^verbatim>\<open>Layout_Correct\<close>:
    \<^verbatim>\<open>touchbar-layout/src/lib.rs\<close>. \<open>resolve\<close> never panics, places in order and inside the bar what it does not hide,
    never hides a required item, and hides least important items first and only while the rest does not fit.
  \<^item> \<^verbatim>\<open>Capture_Transaction\<close>: the contract of a component that does not change what is shown under a held contact (locale
    \<open>capture_transaction\<close>, extended by \<open>capture_refinement\<close> to a simulation of an abstract machine); interpreted by the context and
    by the controller.
  \<^item> \<^verbatim>\<open>Bar_Context\<close>, \<^verbatim>\<open>Bar_Registry\<close>: \<^verbatim>\<open>touchbar-model/src/lib.rs\<close>, contexts, rules, registration and composition.
  \<^item> \<^verbatim>\<open>Profiles\<close>, \<^verbatim>\<open>Profile_Correct\<close>, \<^verbatim>\<open>Controller\<close>: \<^verbatim>\<open>touchbar-model/src/profiles.rs\<close>, profiles with slots and the controller that
    selects one by rules, manual choice and mode leases. A failed command changes nothing; the newest composition is
    the one the catalog gives; it is shown when no contact is held.
  \<^item> \<^verbatim>\<open>Profile_Config\<close>, \<^verbatim>\<open>Profile_Build\<close>: \<^verbatim>\<open>touchbar-profile-config/src/lib.rs\<close>, validation of the document of the user and its
    translation; a valid document builds.
  \<^item> \<^verbatim>\<open>Live_Profiles\<close>: \<^verbatim>\<open>touchbar-sessiond/src/live_profiles.rs\<close>, the document and the items that are connected, as they change.
  \<^item> \<^verbatim>\<open>Presentation\<close>, \<^verbatim>\<open>Presentation_Correct\<close>: \<^verbatim>\<open>touchbar-sessiond/src/presentation.rs\<close>, popovers and content spliced into the bar.

  \<^bold>\<open>Permissions and plugins.\<close>
  \<^item> \<^verbatim>\<open>Capability_Id\<close>, \<^verbatim>\<open>Capability_Scope\<close>, \<^verbatim>\<open>Scope_Validation\<close>: \<^verbatim>\<open>touchbar-policy/src/capability.rs\<close>; comparing scopes is a preorder,
    built from the orders of their parts (locale \<open>authority_order\<close>).
  \<^item> \<^verbatim>\<open>Grants\<close>, \<^verbatim>\<open>Grants_Correct\<close>: \<^verbatim>\<open>grant.rs\<close> and the store in memory; a granted request is backed by an approval that covers it.
  \<^item> \<^verbatim>\<open>Lifecycle\<close>, \<^verbatim>\<open>Activation\<close>, \<^verbatim>\<open>Health\<close>, \<^verbatim>\<open>Host_Events\<close>, \<^verbatim>\<open>Broker_Audit\<close>, \<^verbatim>\<open>Broker_Executor\<close>, \<^verbatim>\<open>Broker_Resources\<close>, \<^verbatim>\<open>Broker_Runtime\<close>,
    \<^verbatim>\<open>Runtime_Correct\<close>: the modules of the supervisor: quotas, activations, the circuit breaker, the event queue, the audit
    log, the worker pool, long-lived resources and their composition. Workers and backends are steps of their own that
    interleave with the loop; a backend's answer is an argument.
  \<^item> \<^verbatim>\<open>Connection\<close>, \<^verbatim>\<open>Connection_Correct\<close>, \<^verbatim>\<open>Connection_Safety\<close>: \<^verbatim>\<open>lib.rs\<close> of the supervisor. Over every interleaving: each
    request is answered once, nothing runs without current authority, quotas hold and no assertion fails.

  \<^bold>\<open>Protocols.\<close>
  \<^item> \<^verbatim>\<open>Broker_Types\<close>, \<^verbatim>\<open>Broker_Wire\<close>: \<^verbatim>\<open>broker_ipc.rs\<close>, each field a \<open>wire_field\<close>.
  \<^item> \<^verbatim>\<open>Payload_Codec\<close>, \<^verbatim>\<open>Payload_Filesystem\<close>, \<^verbatim>\<open>Payload_Services\<close>, \<^verbatim>\<open>Payload_Desktop\<close>, \<^verbatim>\<open>Payload_Correct\<close>: \<^verbatim>\<open>touchbar-broker-schema\<close>, each payload
    a \<open>payload_codec\<close>.
  \<^item> \<^verbatim>\<open>Hardware_Wire\<close>: \<^verbatim>\<open>hardware_ipc.rs\<close>, the boundary of privilege.
  For all of them a decoder accepts exactly the encodings of well-typed messages.

  \<^bold>\<open>Input and hardware.\<close>
  \<^item> \<^verbatim>\<open>Gestures\<close>: \<^verbatim>\<open>touchbar-ui/src/gesture.rs\<close>, the arena that turns contacts into gestures.
  \<^item> \<^verbatim>\<open>System_Bar\<close>: \<^verbatim>\<open>touchbar-system-bar/src/lib.rs\<close>, the row of keys both daemons can show.
  \<^item> \<^verbatim>\<open>Recovery\<close>: \<^verbatim>\<open>touchbard/src/recovery.rs\<close>, the long press of Fn that takes the panel back.
  \<^item> \<^verbatim>\<open>Hardware_Input\<close>, \<^verbatim>\<open>Hardware_Service\<close>, \<^verbatim>\<open>Hardware_Correct\<close>: \<^verbatim>\<open>main.rs\<close>, \<^verbatim>\<open>uinput.rs\<close>, \<^verbatim>\<open>backlight.rs\<close> and \<^verbatim>\<open>fn_input.rs\<close> of
    \<^verbatim>\<open>touchbard\<close>; every call that leaves the process is an effect that may fail, and a small Hoare logic carries the
    invariant through both loops.
  \<^item> \<^verbatim>\<open>Session_Output\<close>: the output, the commit budget and the Fn gesture of \<^verbatim>\<open>touchbar-sessiond/src/main.rs\<close>.
  \<^item> \<^verbatim>\<open>Swapchain\<close>: both daemons joined by their socket; their accounts of the buffers agree.

  This theory holds the properties that span components: from the registry to the laid-out bar, from a presentation to
  the screen, and from a request a backend works on to the approval behind it.

  \<^bold>\<open>Bounds.\<close> Theorems on sequence numbers assume fewer steps than the 64-bit counter has values; theorems on widths
  assume \<^verbatim>\<open>u32\<close> widths. Every other limit is one the code checks.

  \<^bold>\<open>What is not modelled.\<close> Drawing (EGL, GLES, fonts, shaders), Wayland objects, the WebAssembly engine, TOML and JSON
  parsers, cryptography, sandboxing calls, and the backends themselves (files, HTTP, D-Bus, processes, clipboard, secrets): this
  is code of libraries or of the kernel, and its answers are arguments of the modelled operations. The command line, package and
  store management, demos and plugins are left out, being file operations and output around those libraries. Lock poisoning,
  threads that cannot be started and the text of messages are left out too.
\<close>

section \<open>From the registry to the bar\<close>

text \<open>(C39) A bar composed from a valid registry can always be laid out or rejected, never panics, and is
  rejected only for sizes the registry does not check (an item twice, impossible sizes, a group twice, an
  equal-width group without a common width), for a visibility group with two priorities, or because the
  required minimum does not fit; otherwise each composed item is placed inside the bar or reported hidden,
  exactly once.\<close>

theorem composed_bar_layout:
  assumes "registry_ok reg" and "compose_active_chain reg active = Some (Inr spec)" and "avail \<le> u32_max"
  shows "case resolve spec avail [] of
      None \<Rightarrow> False
    | Some (Inl e) \<Rightarrow>
        composition_error e \<or> (\<exists>g. e = InconsistentVisibilityGroup g) \<or> (\<exists>r. e = InsufficientWidth avail r)
    | Some (Inr l) \<Rightarrow>
        distinct (map pl_id (placements l) @ hidden_items l)
        \<and> set (map pl_id (placements l) @ hidden_items l) = set (bar_item_ids spec)
        \<and> placed_within 0 (content_width l) (placements l) \<and> content_width l \<le> avail"
proof (cases "resolve spec avail []")
  case None
  then show ?thesis
    using resolve_rejects [of spec "[]" avail] resolve_accepts [OF _ assms(3), of spec "[]"]
    by (cases "\<exists>units sz. accepted spec [] units sz") (fastforce split: if_splits)+
next
  case (Some r)
  show ?thesis
  proof (cases r)
    case (Inl e)
    then show ?thesis using resolve_composed_error [OF assms(1,2) _ assms(3)] Some by simp
  next
    case (Inr l)
    have laid: "resolve spec avail [] = Some (Inr l)" using Some Inr by simp
    note places = placed_items [OF assms(3) this]
    show ?thesis
      using places placed_ids [OF assms(3) laid] placed_in_bar [OF assms(3) laid] Some Inr by auto
  qed
qed

theorem composed_bar_layout_witness:
  "\<exists>l. resolve demo_composed 200 [] = Some (Inr l)
    \<and> set (map pl_id (placements l) @ hidden_items l) = set (bar_item_ids demo_composed)"
proof -
  have "case resolve demo_composed 200 [] of Some (Inr l) \<Rightarrow> True | _ \<Rightarrow> False" by code_simp
  moreover have "200 \<le> u32_max" by (simp add: u32_max_def)
  ultimately show ?thesis
    using composed_bar_layout [OF demo_registry_ok demo_composed_eq, of 200]
    by (auto split: option.splits sum.splits)
qed

section \<open>From a presentation to the bar\<close>

text \<open>(C37) A presentation that is spliced into the bar and laid out with its own items required shows all
  of them, side by side and in their order, each surface at one place inside the bar; when there is no
  room for them the layout fails and the presentation is refused.\<close>

theorem presentation_shown:
  assumes "in_place_content_bar compact source content = Inr bar"
    and "distinct (bar_item_ids compact)" and "distinct (bar_item_ids content)"
    and "\<And>p. principal_item content = Some p \<Longrightarrow> p \<in> set (bar_item_ids content)"
    and "avail \<le> u32_max" and "resolve bar avail (bar_item_ids content) = Some (Inr l)"
  shows "distinct (map pl_id (placements l))
    \<and> (\<exists>before after. map pl_id (placements l) = before @ bar_item_ids content @ after)
    \<and> placed_within 0 avail (placements l)"
proof -
  let ?shown = "\<lambda>i. i \<notin> set (hidden_items l)"
  obtain a b where sp: "splices compact a [source] content b bar"
    using in_place_splices [OF assms(1,4)] by blast
  have ids: "map pl_id (placements l) = filter ?shown (bar_item_ids bar)"
    by (rule placed_ids [OF assms(5,6)])
  have "filter ?shown (bar_item_ids content) = bar_item_ids content"
    using required_kept [OF assms(5,6)] by (auto simp: filter_id_conv)
  then have "\<exists>before after. map pl_id (placements l) = before @ bar_item_ids content @ after"
    using sp ids by (auto simp: splices_def)
  moreover have "distinct (map pl_id (placements l))"
    using ids splices_distinct [OF sp assms(2,3)] by simp
  ultimately show ?thesis
    using placed_in_bar [OF assms(5,6)] placed_within_mono [of 0 "content_width l"] by blast
qed

theorem presentation_shown_witness:
  "\<exists>bar l. in_place_content_bar compact_demo ''source'' content_demo = Inr bar
    \<and> resolve bar 250 (bar_item_ids content_demo) = Some (Inr l)
    \<and> (\<exists>before after. map pl_id (placements l) = before @ [''status'', ''extra''] @ after)"
proof -
  have "case in_place_content_bar compact_demo ''source'' content_demo of
      Inr bar \<Rightarrow> (case resolve bar 250 (bar_item_ids content_demo) of Some (Inr l) \<Rightarrow> True | _ \<Rightarrow> False)
    | Inl _ \<Rightarrow> False"
    by code_simp
  then obtain bar l where "in_place_content_bar compact_demo ''source'' content_demo = Inr bar"
    "resolve bar 250 (bar_item_ids content_demo) = Some (Inr l)"
    by (auto split: sum.splits option.splits) (metis sum.exhaust)
  moreover have "distinct (bar_item_ids compact_demo)" "distinct (bar_item_ids content_demo)"
    "bar_item_ids content_demo = [''status'', ''extra'']" "250 \<le> u32_max"
    by code_simp+
  ultimately show ?thesis
    using presentation_shown [of compact_demo "''source''" content_demo bar 250 l] by (auto simp: content_demo_def)
qed

section \<open>From the user's approval to the backend\<close>



end
